(* ===== verification/Pgw_Prelude.thy ===== *)
theory Pgw_Prelude
  imports "HOL-Library.Word"
begin

text \<open>
  Shared ground of the development: octets and little-endian machine words, a flat byte store,
  and the generic facts on lists that the component theories use.

  The data plane runs on x86-64 hosts and reads packet fields through packed C structs, so a
  \<open>uint16_t\<close> or \<open>uint32_t\<close> field is a little-endian load (\<open>ld16\<close>, \<open>ld32\<close>) and
  \<open>htons\<close>, \<open>ntohs\<close>, \<open>htonl\<close>, \<open>ntohl\<close> and \<open>rte_cpu_to_be_16\<close> swap
  bytes (\<open>bswap16\<close>, \<open>bswap32\<close>). Packet memory is a total function from addresses to octets:
  two pointers into one buffer alias exactly when their addresses do.
\<close>

unbundle bit_operations_syntax

named_theorems mem_defs \<open>loads and stores, unfolded to octet reads and function updates\<close>
named_theorems pkt_defs \<open>definitions that unfold packet field accessors\<close>

type_synonym byte = "8 word"
type_synonym mem = "nat \<Rightarrow> byte"

section \<open>Machine words from octets\<close>

definition byte_of :: "nat \<Rightarrow> 'a::len word \<Rightarrow> byte" where
  "byte_of i w = ucast (drop_bit (8 * i) w)"

definition mk16 :: "byte \<Rightarrow> byte \<Rightarrow> 16 word" where
  "mk16 b0 b1 = ucast b0 OR push_bit 8 (ucast b1)"

definition mk32 :: "byte \<Rightarrow> byte \<Rightarrow> byte \<Rightarrow> byte \<Rightarrow> 32 word" where
  "mk32 b0 b1 b2 b3 =
     ucast b0 OR push_bit 8 (ucast b1) OR push_bit 16 (ucast b2) OR push_bit 24 (ucast b3)"

definition bswap16 :: "16 word \<Rightarrow> 16 word" where
  "bswap16 w = mk16 (byte_of 1 w) (byte_of 0 w)"

definition bswap32 :: "32 word \<Rightarrow> 32 word" where
  "bswap32 w = mk32 (byte_of 3 w) (byte_of 2 w) (byte_of 1 w) (byte_of 0 w)"

lemma bit_byte_of: "bit (byte_of i w) n \<longleftrightarrow> n < 8 \<and> bit w (8 * i + n)"
  by (auto simp: byte_of_def bit_simps dest: bit_imp_le_length)

lemma not_bit_byte: "8 \<le> n \<Longrightarrow> \<not> bit (b :: byte) n"
  using bit_imp_le_length [of b n] by auto

lemma bit_mk16:
  "bit (mk16 b0 b1) n \<longleftrightarrow>
     (if n < 8 then bit b0 n else if n < 16 then bit b1 (n - 8) else False)"
  using not_bit_byte [of n b0] by (auto simp: mk16_def bit_simps)

lemma bit_mk32:
  "bit (mk32 b0 b1 b2 b3) n \<longleftrightarrow>
     (if n < 8 then bit b0 n else if n < 16 then bit b1 (n - 8)
      else if n < 24 then bit b2 (n - 16) else if n < 32 then bit b3 (n - 24) else False)"
  using not_bit_byte [of n b0] not_bit_byte [of "n - 8" b1] not_bit_byte [of "n - 16" b2]
  by (auto simp: mk32_def bit_simps)

lemma byte_of_mk16 [simp]:
  "byte_of 0 (mk16 b0 b1) = b0"
  "byte_of (Suc 0) (mk16 b0 b1) = b1"
  by (auto intro!: bit_word_eqI simp: bit_byte_of bit_mk16)

lemma byte_of_mk32 [simp]:
  "byte_of 0 (mk32 b0 b1 b2 b3) = b0"
  "byte_of (Suc 0) (mk32 b0 b1 b2 b3) = b1"
  "byte_of 2 (mk32 b0 b1 b2 b3) = b2"
  "byte_of 3 (mk32 b0 b1 b2 b3) = b3"
  by (auto intro!: bit_word_eqI simp: bit_byte_of bit_mk32)

lemma mk16_byte_of [simp]: "mk16 (byte_of 0 w) (byte_of (Suc 0) w) = w"
  by (rule bit_word_eqI) (auto simp: bit_mk16 bit_byte_of)

lemma mk32_byte_of [simp]:
  "mk32 (byte_of 0 w) (byte_of (Suc 0) w) (byte_of 2 w) (byte_of 3 w) = w"
  by (rule bit_word_eqI) (auto simp: bit_mk32 bit_byte_of)

lemma mk16_eq_iff [simp]: "mk16 a b = mk16 c d \<longleftrightarrow> a = c \<and> b = d"
  by (metis byte_of_mk16)

lemma mk32_eq_iff [simp]:
  "mk32 a b c d = mk32 a' b' c' d' \<longleftrightarrow> a = a' \<and> b = b' \<and> c = c' \<and> d = d'"
  by (metis byte_of_mk32)

lemma bswap16_bswap16 [simp]: "bswap16 (bswap16 w) = w"
  by (simp add: bswap16_def)

lemma bswap32_bswap32 [simp]: "bswap32 (bswap32 w) = w"
  by (simp add: bswap32_def)

lemma bswap16_eq_iff [simp]: "bswap16 v = bswap16 w \<longleftrightarrow> v = w"
  by (metis bswap16_bswap16)

lemma bswap32_eq_iff [simp]: "bswap32 v = bswap32 w \<longleftrightarrow> v = w"
  by (metis bswap32_bswap32)

lemma bswap16_mk16 [simp]: "bswap16 (mk16 a b) = mk16 b a"
  by (simp add: bswap16_def)

lemma bswap32_mk32 [simp]: "bswap32 (mk32 a b c d) = mk32 d c b a"
  by (simp add: bswap32_def)

lemma unat8_less: "unat (w :: 8 word) < 256"
  using unsigned_less [of w, where ?'a = nat] by simp

lemma unat16_less: "unat (w :: 16 word) < 65536"
  using unsigned_less [of w, where ?'a = nat] by simp

lemma unat32_less: "unat (w :: 32 word) < 4294967296"
  using unsigned_less [of w, where ?'a = nat] by simp

lemma unat_ucast16_32 [simp]: "unat (ucast (w :: 16 word) :: 32 word) = unat w"
  using unat16_less [of w] by (simp add: unsigned_ucast_eq take_bit_eq_mod)

lemma mod_add_div_decomp: "(n :: nat) = n mod k + (n div k) * k"
  by simp

section \<open>The byte store\<close>

definition ld16 :: "mem \<Rightarrow> nat \<Rightarrow> 16 word" where
  [mem_defs]: "ld16 m a = mk16 (m a) (m (a + 1))"

definition ld32 :: "mem \<Rightarrow> nat \<Rightarrow> 32 word" where
  [mem_defs]: "ld32 m a = mk32 (m a) (m (a + 1)) (m (a + 2)) (m (a + 3))"

definition st16 :: "mem \<Rightarrow> nat \<Rightarrow> 16 word \<Rightarrow> mem" where
  [mem_defs]: "st16 m a v = m(a := byte_of 0 v, a + 1 := byte_of 1 v)"

definition st32 :: "mem \<Rightarrow> nat \<Rightarrow> 32 word \<Rightarrow> mem" where
  [mem_defs]: "st32 m a v =
     m(a := byte_of 0 v, a + 1 := byte_of 1 v, a + 2 := byte_of 2 v, a + 3 := byte_of 3 v)"

definition rd_bytes :: "mem \<Rightarrow> nat \<Rightarrow> nat \<Rightarrow> byte list" where
  "rd_bytes m a n = map m [a..<a + n]"

definition wr_bytes :: "mem \<Rightarrow> nat \<Rightarrow> byte list \<Rightarrow> mem" where
  "wr_bytes m a bs = (\<lambda>x. if a \<le> x \<and> x < a + length bs then bs ! (x - a) else m x)"

definition copy_bytes :: "mem \<Rightarrow> nat \<Rightarrow> nat \<Rightarrow> nat \<Rightarrow> mem" where
  "copy_bytes m dst src n = wr_bytes m dst (rd_bytes m src n)"

lemma ld16_st16 [simp]: "ld16 (st16 m a v) a = v"
  by (simp add: mem_defs)

lemma ld32_st32 [simp]: "ld32 (st32 m a v) a = v"
  by (simp add: mem_defs)

lemma length_rd_bytes [simp]: "length (rd_bytes m a n) = n"
  by (simp add: rd_bytes_def)

lemma nth_rd_bytes [simp]: "i < n \<Longrightarrow> rd_bytes m a n ! i = m (a + i)"
  by (simp add: rd_bytes_def)

lemma rd_bytes_0 [simp]: "rd_bytes m a 0 = []"
  by (simp add: rd_bytes_def)

lemma rd_bytes_Suc: "rd_bytes m a (Suc n) = m a # rd_bytes m (Suc a) n"
  by (rule nth_equalityI) (auto simp: nth_Cons split: nat.splits)

lemma rd_bytes_1: "rd_bytes m a (Suc 0) = [m a]"
  by (simp add: rd_bytes_Suc)

lemma rd_bytes_numeral:
  "rd_bytes m a (numeral k) = m a # rd_bytes m (Suc a) (pred_numeral k)"
  by (simp only: numeral_eq_Suc rd_bytes_Suc)

lemmas rd_bytes_expand = rd_bytes_1 rd_bytes_numeral

lemma rd_bytes_add: "rd_bytes m a (n + k) = rd_bytes m a n @ rd_bytes m (a + n) k"
  using upt_add_eq_append [of a "a + n" k] by (simp add: rd_bytes_def add.assoc)

lemma rd_bytes_cong: "(\<And>x. a \<le> x \<Longrightarrow> x < a + n \<Longrightarrow> m x = m' x) \<Longrightarrow> rd_bytes m a n = rd_bytes m' a n"
  by (simp add: rd_bytes_def)

lemma wr_bytes_out [simp]: "x < a \<or> a + length bs \<le> x \<Longrightarrow> wr_bytes m a bs x = m x"
  by (auto simp: wr_bytes_def)

lemma wr_bytes_in: "i < length bs \<Longrightarrow> wr_bytes m a bs (a + i) = bs ! i"
  by (simp add: wr_bytes_def)

lemma rd_wr_bytes_same [simp]: "length bs = n \<Longrightarrow> rd_bytes (wr_bytes m a bs) a n = bs"
  by (rule nth_equalityI) (auto simp: wr_bytes_in)

lemma rd_wr_bytes_disjoint:
  "a + length bs \<le> b \<or> b + n \<le> a \<Longrightarrow> rd_bytes (wr_bytes m a bs) b n = rd_bytes m b n"
  by (rule rd_bytes_cong) auto

lemma copy_bytes_in:
  "dst \<le> x \<Longrightarrow> x < dst + n \<Longrightarrow> copy_bytes m dst src n x = m (src + (x - dst))"
  by (simp add: copy_bytes_def wr_bytes_def)

lemma copy_bytes_out [simp]: "x < dst \<or> dst + n \<le> x \<Longrightarrow> copy_bytes m dst src n x = m x"
  by (auto simp: copy_bytes_def)

text \<open>A store that holds a given octet string at a given address; used by concrete examples.\<close>

definition mem_of :: "nat \<Rightarrow> byte list \<Rightarrow> mem" where
  "mem_of a bs = wr_bytes (\<lambda>_. 0) a bs"

lemma mem_of_Nil [simp]: "mem_of a [] = (\<lambda>_. 0)"
  by (rule ext) (auto simp: mem_of_def wr_bytes_def)

section \<open>Generic facts\<close>

lemma foldl_invariant:
  assumes "P s" and "\<And>s x. x \<in> set xs \<Longrightarrow> P s \<Longrightarrow> P (f s x)"
  shows "P (foldl f s xs)"
  using assms by (induction xs arbitrary: s) auto

lemma foldl_append_additive:
  assumes "\<And>s x. g (f s x) = g s + (h x :: nat)"
  shows "g (foldl f s xs) = g s + sum_list (map h xs)"
  by (induction xs arbitrary: s) (simp_all add: assms)

lemma take_append_drop_cons: "i < length xs \<Longrightarrow> drop i xs = xs ! i # drop (Suc i) xs"
  by (rule Cons_nth_drop_Suc [symmetric])

end
