(* ===== verification/Dpdk.thy ===== *)
theory Dpdk
  imports Pgw_Prelude
begin

text \<open>
  The DPDK objects the data plane handles. \<open>mbuf\<close> is \<open>struct rte_mbuf\<close> with one
  segment: its memory, \<open>data_off\<close>, \<open>pkt_len\<close> (equal to \<open>data_len\<close> for one
  segment), \<open>packet_type\<close> and \<open>udata64\<close>, which the program overlays with
  \<open>mbuf_userdat\<close> (\<open>dataplane/inc/mixi_pgw_data_plane_def.hpp\<close>).

  DPDK is not part of the repository, so its functions and constants are the fields of the
  record \<open>dpdk\<close>, an argument of every definition that calls them. What the program relies on
  is stated by the predicates \<open>mbuf_laws\<close>, \<open>ptype_laws\<close>, \<open>l2_laws\<close> and \<open>ring_laws\<close>:
  the documented behaviour of the mbuf, packet type and ring interfaces.
\<close>

section \<open>Packet buffers\<close>

record mbuf_userdat =
  ud_flag :: "8 word"
  ud_size :: "12 word"
  ud_color :: "2 word"
  ud_mode :: "2 word"
  ud_teid :: "32 word"

record mbuf =
  mb_mem :: mem
  mb_off :: nat
  mb_len :: nat
  mb_ptype :: "32 word"
  mb_udat :: mbuf_userdat

definition zero_userdat :: mbuf_userdat where
  "zero_userdat = \<lparr>ud_flag = 0, ud_size = 0, ud_color = 0, ud_mode = 0, ud_teid = 0\<rparr>"

text \<open>\<open>rte_pktmbuf_mtod_offset\<close>: an offset into the packet as an address of the buffer.\<close>

definition mtod :: "mbuf \<Rightarrow> nat \<Rightarrow> nat" where
  [pkt_defs]: "mtod m k = mb_off m + k"

definition ldb :: "mbuf \<Rightarrow> nat \<Rightarrow> byte" where
  [pkt_defs]: "ldb m k = mb_mem m (mtod m k)"

definition ldh :: "mbuf \<Rightarrow> nat \<Rightarrow> 16 word" where
  [pkt_defs]: "ldh m k = ld16 (mb_mem m) (mtod m k)"

definition ldw :: "mbuf \<Rightarrow> nat \<Rightarrow> 32 word" where
  [pkt_defs]: "ldw m k = ld32 (mb_mem m) (mtod m k)"

definition stb :: "nat \<Rightarrow> byte \<Rightarrow> mbuf \<Rightarrow> mbuf" where
  [pkt_defs]: "stb k v m = m\<lparr>mb_mem := (mb_mem m)(mtod m k := v)\<rparr>"

definition sth :: "nat \<Rightarrow> 16 word \<Rightarrow> mbuf \<Rightarrow> mbuf" where
  [pkt_defs]: "sth k v m = m\<lparr>mb_mem := st16 (mb_mem m) (mtod m k) v\<rparr>"

definition stw :: "nat \<Rightarrow> 32 word \<Rightarrow> mbuf \<Rightarrow> mbuf" where
  [pkt_defs]: "stw k v m = m\<lparr>mb_mem := st32 (mb_mem m) (mtod m k) v\<rparr>"

definition stbytes :: "nat \<Rightarrow> byte list \<Rightarrow> mbuf \<Rightarrow> mbuf" where
  [pkt_defs]: "stbytes k bs m = m\<lparr>mb_mem := wr_bytes (mb_mem m) (mtod m k) bs\<rparr>"

definition pkt_bytes :: "mbuf \<Rightarrow> byte list" where
  "pkt_bytes m = rd_bytes (mb_mem m) (mb_off m) (mb_len m)"

definition pkt_slice :: "mbuf \<Rightarrow> nat \<Rightarrow> nat \<Rightarrow> byte list" where
  "pkt_slice m k n = rd_bytes (mb_mem m) (mtod m k) n"

lemma length_pkt_bytes [simp]: "length (pkt_bytes m) = mb_len m"
  by (simp add: pkt_bytes_def)

lemma length_pkt_slice [simp]: "length (pkt_slice m k n) = n"
  by (simp add: pkt_slice_def)

lemma ldh_ldb: "ldh m k = mk16 (ldb m k) (ldb m (k + 1))"
  by (simp add: ldh_def ldb_def mtod_def ld16_def add.assoc)

lemma ldw_ldb: "ldw m k = mk32 (ldb m k) (ldb m (k + 1)) (ldb m (k + 2)) (ldb m (k + 3))"
  by (simp add: ldw_def ldb_def mtod_def ld32_def add.assoc)

text \<open>Reading an octet of the packet after a store.\<close>

lemma ldb_stores:
  "ldb (stb k v m) j = (if j = k then v else ldb m j)"
  "ldb (sth k h m) j = (if j = k then byte_of 0 h else if j = k + 1 then byte_of 1 h else ldb m j)"
  "ldb (stw k w m) j = (if j = k then byte_of 0 w else if j = k + 1 then byte_of 1 w
     else if j = k + 2 then byte_of 2 w else if j = k + 3 then byte_of 3 w else ldb m j)"
  "ldb (stbytes k bs m) j = (if k \<le> j \<and> j < k + length bs then bs ! (j - k) else ldb m j)"
  "ldb (m\<lparr>mb_ptype := t\<rparr>) j = ldb m j"
  "ldb (m\<lparr>mb_udat := u\<rparr>) j = ldb m j"
  by (auto simp: ldb_def stb_def sth_def stw_def stbytes_def mtod_def st16_def st32_def wr_bytes_def)

lemma nth_pkt_slice: "i < n \<Longrightarrow> pkt_slice m k n ! i = ldb m (k + i)"
  by (simp add: pkt_slice_def ldb_def mtod_def add.assoc)

lemma pkt_slice_cong:
  "(\<And>i. i < n \<Longrightarrow> ldb m (k + i) = ldb m' (k' + i)) \<Longrightarrow> pkt_slice m k n = pkt_slice m' k' n"
  by (rule nth_equalityI) (simp_all add: pkt_slice_def ldb_def mtod_def add.assoc)

lemma mbuf_store_frame [simp]:
  "mb_off (stb k b m) = mb_off m" "mb_len (stb k b m) = mb_len m"
  "mb_ptype (stb k b m) = mb_ptype m" "mb_udat (stb k b m) = mb_udat m"
  "mb_off (sth k h m) = mb_off m" "mb_len (sth k h m) = mb_len m"
  "mb_ptype (sth k h m) = mb_ptype m" "mb_udat (sth k h m) = mb_udat m"
  "mb_off (stw k w m) = mb_off m" "mb_len (stw k w m) = mb_len m"
  "mb_ptype (stw k w m) = mb_ptype m" "mb_udat (stw k w m) = mb_udat m"
  "mb_off (stbytes k bs m) = mb_off m" "mb_len (stbytes k bs m) = mb_len m"
  "mb_ptype (stbytes k bs m) = mb_ptype m" "mb_udat (stbytes k bs m) = mb_udat m"
  by (simp_all add: pkt_defs)

section \<open>The interface of DPDK\<close>

record 'r dpdk =
  prepend :: "mbuf \<Rightarrow> nat \<Rightarrow> mbuf option"
  adj :: "mbuf \<Rightarrow> nat \<Rightarrow> mbuf option"
  trim :: "mbuf \<Rightarrow> nat \<Rightarrow> mbuf option"
  enq_bulk :: "'r \<Rightarrow> mbuf list \<Rightarrow> 'r \<times> nat"
  enq_one :: "'r \<Rightarrow> mbuf \<Rightarrow> 'r \<times> bool"
  deq_burst :: "'r \<Rightarrow> nat \<Rightarrow> 'r \<times> mbuf list"
  is_ipv4_hdr :: "32 word \<Rightarrow> bool"
  is_ipv6_hdr :: "32 word \<Rightarrow> bool"
  PTYPE_UNKNOWN :: "32 word"
  L2_MASK :: "32 word"
  L2_ETHER :: "32 word"
  L2_ETHER_VLAN :: "32 word"
  L3_IPV4 :: "32 word"
  L3_IPV6 :: "32 word"
  L4_UDP :: "32 word"
  TUNNEL_GRE :: "32 word"

text \<open>
  \<open>rte_pktmbuf_prepend\<close> moves the start of the data into the headroom and fails, changing
  nothing, when the headroom is too small; \<open>rte_pktmbuf_adj\<close> and \<open>rte_pktmbuf_trim\<close>
  remove octets at the start and at the end and fail when the packet is too short. None of them
  touches the octets themselves.
\<close>

definition mbuf_laws :: "'r dpdk \<Rightarrow> bool" where
  "mbuf_laws D \<longleftrightarrow>
     (\<forall>m n. prepend D m n =
        (if n \<le> mb_off m then Some (m\<lparr>mb_off := mb_off m - n, mb_len := mb_len m + n\<rparr>) else None)) \<and>
     (\<forall>m n. adj D m n =
        (if n \<le> mb_len m then Some (m\<lparr>mb_off := mb_off m + n, mb_len := mb_len m - n\<rparr>) else None)) \<and>
     (\<forall>m n. trim D m n =
        (if n \<le> mb_len m then Some (m\<lparr>mb_len := mb_len m - n\<rparr>) else None))"

text \<open>
  The packet type bits: each flag is recognised by its own test. \<open>RTE_ETH_IS_IPV4_HDR\<close> and
  \<open>RTE_ETH_IS_IPV6_HDR\<close> test the bit of \<open>RTE_PTYPE_L3_IPV4\<close> and of
  \<open>RTE_PTYPE_L3_IPV6\<close>.
\<close>

definition ptype_laws :: "'r dpdk \<Rightarrow> bool" where
  "ptype_laws D \<longleftrightarrow>
     (\<forall>w. is_ipv4_hdr D w \<longleftrightarrow> w AND L3_IPV4 D \<noteq> 0) \<and>
     (\<forall>w. is_ipv6_hdr D w \<longleftrightarrow> w AND L3_IPV6 D \<noteq> 0) \<and>
     L3_IPV4 D \<noteq> 0 \<and> L3_IPV6 D \<noteq> 0 \<and> L3_IPV4 D AND L3_IPV6 D = 0"

text \<open>
  The layers of a packet type are disjoint fields: the types of layer 3, layer 4 and of tunnels leave the field of layer 2 at 0,
  which is the unknown type.
\<close>

definition l2_laws :: "'r dpdk \<Rightarrow> bool" where
  "l2_laws D \<longleftrightarrow> PTYPE_UNKNOWN D = 0 \<and> L2_ETHER D \<noteq> 0 \<and> L2_ETHER_VLAN D \<noteq> 0 \<and>
     L2_MASK D AND L3_IPV4 D = 0 \<and> L2_MASK D AND L4_UDP D = 0 \<and> L2_MASK D AND TUNNEL_GRE D = 0"

text \<open>
  Rings, seen as queues of packets: a bulk enqueue takes all of its packets or none and returns
  how many, a single enqueue succeeds or leaves the ring alone, a burst dequeue returns the
  oldest packets, at most as many as asked for.
\<close>

definition ring_laws :: "'r dpdk \<Rightarrow> ('r \<Rightarrow> mbuf list) \<Rightarrow> bool" where
  "ring_laws D items \<longleftrightarrow>
     (\<forall>r ms. (snd (enq_bulk D r ms) = length ms \<and> items (fst (enq_bulk D r ms)) = items r @ ms) \<or>
             (snd (enq_bulk D r ms) = 0 \<and> fst (enq_bulk D r ms) = r)) \<and>
     (\<forall>r m. (snd (enq_one D r m) \<and> items (fst (enq_one D r m)) = items r @ [m]) \<or>
            (\<not> snd (enq_one D r m) \<and> fst (enq_one D r m) = r)) \<and>
     (\<forall>r n. items r = snd (deq_burst D r n) @ items (fst (deq_burst D r n)) \<and>
            length (snd (deq_burst D r n)) \<le> n)"

lemma mbuf_lawsD:
  assumes "mbuf_laws D"
  shows "prepend D m n =
      (if n \<le> mb_off m then Some (m\<lparr>mb_off := mb_off m - n, mb_len := mb_len m + n\<rparr>) else None)"
    and "adj D m n =
      (if n \<le> mb_len m then Some (m\<lparr>mb_off := mb_off m + n, mb_len := mb_len m - n\<rparr>) else None)"
    and "trim D m n = (if n \<le> mb_len m then Some (m\<lparr>mb_len := mb_len m - n\<rparr>) else None)"
  using assms by (simp_all add: mbuf_laws_def)

lemma ring_laws_enq_bulk:
  assumes "ring_laws D items" and "enq_bulk D r ms = (r', n)"
  obtains (all) "n = length ms" "items r' = items r @ ms" | (none) "n = 0" "r' = r"
  using assms unfolding ring_laws_def by (metis fst_conv snd_conv)

lemma ring_laws_enq_one:
  assumes "ring_laws D items" and "enq_one D r m = (r', ok)"
  obtains (queued) "ok" "items r' = items r @ [m]" | (full) "\<not> ok" "r' = r"
  using assms unfolding ring_laws_def by (metis fst_conv snd_conv)

lemma ring_laws_deq_burst:
  assumes "ring_laws D items" and "deq_burst D r n = (r', ms)"
  shows "items r = ms @ items r'" and "length ms \<le> n"
  using assms unfolding ring_laws_def by (metis fst_conv snd_conv)+

section \<open>A reference environment\<close>

text \<open>
  An environment that satisfies the laws: rings are lists bounded by a capacity. It is used
  only to evaluate definitions on concrete packets.
\<close>

definition ref_dpdk :: "nat \<Rightarrow> mbuf list dpdk" where
  "ref_dpdk cap =
     \<lparr>prepend = (\<lambda>m n. if n \<le> mb_off m
         then Some (m\<lparr>mb_off := mb_off m - n, mb_len := mb_len m + n\<rparr>) else None),
      adj = (\<lambda>m n. if n \<le> mb_len m
         then Some (m\<lparr>mb_off := mb_off m + n, mb_len := mb_len m - n\<rparr>) else None),
      trim = (\<lambda>m n. if n \<le> mb_len m then Some (m\<lparr>mb_len := mb_len m - n\<rparr>) else None),
      enq_bulk = (\<lambda>r ms. if length r + length ms \<le> cap then (r @ ms, length ms) else (r, 0)),
      enq_one = (\<lambda>r m. if length r < cap then (r @ [m], True) else (r, False)),
      deq_burst = (\<lambda>r n. (drop n r, take n r)),
      is_ipv4_hdr = (\<lambda>w. w AND 0x10 \<noteq> 0),
      is_ipv6_hdr = (\<lambda>w. w AND 0x40 \<noteq> 0),
      PTYPE_UNKNOWN = 0, L2_MASK = 0xF, L2_ETHER = 1, L2_ETHER_VLAN = 6,
      L3_IPV4 = 0x10, L3_IPV6 = 0x40, L4_UDP = 0x200, TUNNEL_GRE = 0x2000\<rparr>"

lemma ref_dpdk_mbuf_laws: "mbuf_laws (ref_dpdk cap)"
  by (simp add: mbuf_laws_def ref_dpdk_def)

lemma ref_dpdk_ptype_laws: "ptype_laws (ref_dpdk cap)"
  by (simp add: ptype_laws_def ref_dpdk_def)

lemma ref_dpdk_l2_laws: "l2_laws (ref_dpdk cap)"
  by (simp add: l2_laws_def ref_dpdk_def)

lemma ref_dpdk_ring_laws: "ring_laws (ref_dpdk cap) id"
  by (auto simp: ring_laws_def ref_dpdk_def)

lemma ref_dpdk_sel:
  "prepend (ref_dpdk cap) m n = (if n \<le> mb_off m
     then Some (m\<lparr>mb_off := mb_off m - n, mb_len := mb_len m + n\<rparr>) else None)"
  "adj (ref_dpdk cap) m n = (if n \<le> mb_len m
     then Some (m\<lparr>mb_off := mb_off m + n, mb_len := mb_len m - n\<rparr>) else None)"
  "is_ipv4_hdr (ref_dpdk cap) w \<longleftrightarrow> w AND 0x10 \<noteq> 0" "is_ipv6_hdr (ref_dpdk cap) w \<longleftrightarrow> w AND 0x40 \<noteq> 0"
  "deq_burst (ref_dpdk cap) r k = (drop k r, take k r)"
  "PTYPE_UNKNOWN (ref_dpdk cap) = 0" "L2_MASK (ref_dpdk cap) = 0xF" "L2_ETHER (ref_dpdk cap) = 1"
  "L2_ETHER_VLAN (ref_dpdk cap) = 6" "L3_IPV4 (ref_dpdk cap) = 0x10" "L3_IPV6 (ref_dpdk cap) = 0x40"
  "L4_UDP (ref_dpdk cap) = 0x200" "TUNNEL_GRE (ref_dpdk cap) = 0x2000"
  by (simp_all add: ref_dpdk_def)

lemmas ref_dpdk_laws = ref_dpdk_mbuf_laws ref_dpdk_ptype_laws ref_dpdk_ring_laws

text \<open>A packet at the default headroom of 128 octets, typed as Ethernet with IPv4.\<close>

definition demo_mbuf :: "nat \<Rightarrow> byte list \<Rightarrow> mbuf" where
  "demo_mbuf n bs = \<lparr>mb_mem = mem_of 128 bs, mb_off = 128, mb_len = n, mb_ptype = 0x11,
     mb_udat = zero_userdat\<rparr>"

end
