(* ===== verification/Packet_Def.thy ===== *)
theory Packet_Def
  imports Dpdk
begin

text \<open>
  Packet classification of the data plane, from
  \<open>dataplane/inc/mixi_pgw_data_plane_def.hpp\<close>: which packets are passed through, encapsulated,
  decapsulated or dropped (\<open>is_arp_or_innericmp\<close>, \<open>is_pdu\<close>, \<open>is_user\<close>,
  \<open>check_decapability\<close>), the field extractors of the receive cores (\<open>is_ipv\<close>,
  \<open>is_udp\<close>, \<open>is_gtpu\<close>, \<open>is_gtpc\<close>), and the GTP-U Error Indication that
  answers a packet of an unknown tunnel (\<open>error_indicate\<close>).

  Offsets are those of the packed structs: the Ethernet header is 14 octets, the outer IPv4
  header 20, UDP 8 and GTP-U 8. \<open>None\<close> is a run that has no defined result: control reaches
  the end of a non-void function, or the process panics.
\<close>

section \<open>Constants\<close>

abbreviation sz_ether :: nat where "sz_ether \<equiv> 14"
abbreviation sz_ipv4 :: nat where "sz_ipv4 \<equiv> 20"
abbreviation sz_udp :: nat where "sz_udp \<equiv> 8"
abbreviation sz_gtpu :: nat where "sz_gtpu \<equiv> 8"
abbreviation sz_errind :: nat where "sz_errind \<equiv> 12"

abbreviation ETHER_TYPE_IPv4 :: "16 word" where "ETHER_TYPE_IPv4 \<equiv> 0x0800"
abbreviation ETHER_TYPE_IPv6 :: "16 word" where "ETHER_TYPE_IPv6 \<equiv> 0x86DD"
abbreviation ETHER_TYPE_ARP :: "16 word" where "ETHER_TYPE_ARP \<equiv> 0x0806"
abbreviation ETHER_TYPE_VLAN :: "16 word" where "ETHER_TYPE_VLAN \<equiv> 0x8100"
abbreviation ETHER_MAX_LEN :: nat where "ETHER_MAX_LEN \<equiv> 1518"

abbreviation IPPROTO_ICMP :: byte where "IPPROTO_ICMP \<equiv> 1"
abbreviation IPPROTO_TCP :: byte where "IPPROTO_TCP \<equiv> 6"
abbreviation IPPROTO_UDP :: byte where "IPPROTO_UDP \<equiv> 17"
abbreviation IPPROTO_IPV6 :: byte where "IPPROTO_IPV6 \<equiv> 41"
abbreviation IPPROTO_GRE :: byte where "IPPROTO_GRE \<equiv> 47"
abbreviation IPPROTO_ICMPV6 :: byte where "IPPROTO_ICMPV6 \<equiv> 58"
abbreviation IPPROTO_OSPFIGP :: byte where "IPPROTO_OSPFIGP \<equiv> 89"

abbreviation GTPU_PORT :: "16 word" where "GTPU_PORT \<equiv> 2152"
abbreviation GTPC_PORT :: "16 word" where "GTPC_PORT \<equiv> 2123"
abbreviation GTPU_ECHO_REQ :: byte where "GTPU_ECHO_REQ \<equiv> 1"
abbreviation GTPU_ECHO_RES :: byte where "GTPU_ECHO_RES \<equiv> 2"
abbreviation GTPU_ERROR_INDICATION :: byte where "GTPU_ERROR_INDICATION \<equiv> 26"
abbreviation GTPU_TEIDI_TYPE :: byte where "GTPU_TEIDI_TYPE \<equiv> 16"
abbreviation GTPU_PEER_ADDRESS :: byte where "GTPU_PEER_ADDRESS \<equiv> 133"
abbreviation GTPU_G_PDU :: byte where "GTPU_G_PDU \<equiv> 255"

section \<open>Data\<close>

datatype packet_type = NOTIP | PASS | ENCAP | DECAP | ARP | VLAN | PT_MAX

section \<open>Classification\<close>

definition get_vlan_offset :: "mbuf \<Rightarrow> 16 word \<Rightarrow> nat \<times> 16 word" where
  "get_vlan_offset m proto =
     (if bswap16 ETHER_TYPE_VLAN = proto then
        let proto1 = ldh m (sz_ether + 2) in
        if bswap16 ETHER_TYPE_VLAN = proto1 then (8, ldh m (sz_ether + 4 + 2))
        else (4, proto1)
      else (0, proto))"

text \<open>The test on \<open>packet_type\<close> that opens both classifiers; \<open>None\<close> falls through.\<close>

definition l2_class :: "'r dpdk \<Rightarrow> mbuf \<Rightarrow> packet_type option" where
  "l2_class D m =
     (let l2 = L2_MASK D AND mb_ptype m in
      if l2 = L2_ETHER D then None
      else if l2 = L2_ETHER_VLAN D then Some VLAN
      else if l2 \<noteq> PTYPE_UNKNOWN D then Some PASS
      else None)"

text \<open>\<open>((ip4->version_ihl \<and> 0x0f) << 2)\<close>: the length of an IPv4 header at offset \<open>k\<close>.\<close>

definition ip4_hlen :: "mbuf \<Rightarrow> nat \<Rightarrow> nat" where
  "ip4_hlen m k = 4 * unat (ldb m k AND 0x0F)"

definition is_arp_or_innericmp :: "'r dpdk \<Rightarrow> mbuf \<Rightarrow> packet_type" where
  "is_arp_or_innericmp D m =
     (case l2_class D m of
        Some t \<Rightarrow> t
      | None \<Rightarrow>
         let eth_type = ldh m 12 in
         if eth_type = bswap16 ETHER_TYPE_IPv4 then
           let proto = ldb m (sz_ether + 9);
               dst_addr = ldw m (sz_ether + 16);
               l4 = sz_ether + ip4_hlen m sz_ether in
           if proto = IPPROTO_TCP then
             (if (bswap16 (ldh m (l4 + 2)) = 179 \<or> bswap16 (ldh m l4) = 179) \<and>
                 dst_addr AND 0xFF \<noteq> 0x0A
              then PASS else ENCAP)
           else if proto = IPPROTO_UDP then
             (if bswap16 (ldh m (l4 + 2)) = 3784 \<and> ldb m (sz_ether + 8) = 255
              then PASS else ENCAP)
           else if proto = IPPROTO_OSPFIGP then PASS
           else if proto = IPPROTO_ICMP then
             (if dst_addr AND 0xFF \<noteq> 0x0A then PASS else ENCAP)
           else ENCAP
         else if eth_type = bswap16 ETHER_TYPE_IPv6 then
           (if ldb m (sz_ether + 6) = IPPROTO_ICMPV6 then
              (if ldb m (sz_ether + 7) = 0xFF then PASS else ENCAP)
            else ENCAP)
         else if eth_type = bswap16 ETHER_TYPE_ARP then PASS
         else if eth_type = bswap16 ETHER_TYPE_VLAN then VLAN
         else PASS)"

definition is_pdu :: "mbuf \<Rightarrow> packet_type" where
  "is_pdu m =
     (if ldh m 12 = bswap16 ETHER_TYPE_IPv4 \<and> ldb m (sz_ether + 9) = IPPROTO_UDP \<and>
         ldh m (sz_ether + sz_ipv4 + 2) = bswap16 GTPU_PORT \<and>
         ldb m (sz_ether + sz_ipv4 + sz_udp + 1) = GTPU_G_PDU
      then DECAP else PASS)"

definition is_user :: "mbuf \<Rightarrow> packet_type" where
  "is_user m =
     (if ldh m 12 = bswap16 ETHER_TYPE_IPv4 \<and> ldw m (sz_ether + 16) AND 0xFF = 0x0A
      then ENCAP else PASS)"

text \<open>
  \<open>check_decapability\<close> under both builds: \<open>no_gre\<close> is the macro
  \<open>__CANNOT_USE_GRE__\<close>. Without it the UDP branch is empty and the function ends with no
  return statement.
\<close>

definition check_decapability :: "'r dpdk \<Rightarrow> bool \<Rightarrow> mbuf \<Rightarrow> packet_type option" where
  "check_decapability D no_gre m =
     (case l2_class D m of
        Some t \<Rightarrow> Some t
      | None \<Rightarrow>
         let eth_type = ldh m 12 in
         if eth_type = bswap16 ETHER_TYPE_IPv4 then
           let proto = ldb m (sz_ether + 9); l4 = sz_ether + ip4_hlen m sz_ether in
           if proto = IPPROTO_UDP then
             (if no_gre then
                Some (if bswap16 (ldh m (l4 + 2)) = 2152 then DECAP else PASS)
              else None)
           else if \<not> no_gre \<and> proto = IPPROTO_GRE then Some DECAP
           else Some PASS
         else if eth_type = bswap16 ETHER_TYPE_IPv6 then Some PASS
         else if eth_type = bswap16 ETHER_TYPE_ARP then Some PASS
         else if eth_type = bswap16 ETHER_TYPE_VLAN then Some VLAN
         else Some PASS)"

section \<open>Field extractors of the receive cores\<close>

text \<open>
  \<open>is_ipv\<close> on IPv6 compares (\<open>memcmp\<close>) where it means to copy, so \<open>tmp\<close> stays 0.
\<close>

definition is_ipv :: "'r dpdk \<Rightarrow> mbuf \<Rightarrow> 32 word" where
  "is_ipv D m =
     (if is_ipv4_hdr D (mb_ptype m) then ldw m (sz_ether + 16)
      else if is_ipv6_hdr D (mb_ptype m) then 0
      else 0)"

definition is_udp :: "'r dpdk \<Rightarrow> mbuf \<Rightarrow> 16 word" where
  "is_udp D m =
     (if is_ipv4_hdr D (mb_ptype m) \<and> ldb m (sz_ether + 9) = IPPROTO_UDP
      then ldh m (sz_ether + sz_ipv4 + 2) else 0)"

definition is_gtpu :: "'r dpdk \<Rightarrow> mbuf \<Rightarrow> 32 word" where
  "is_gtpu D m =
     (if is_ipv4_hdr D (mb_ptype m) \<and> ldb m (sz_ether + 9) = IPPROTO_UDP \<and>
         ldh m (sz_ether + sz_ipv4 + 2) = bswap16 GTPU_PORT
      then (let gtype = ldb m (sz_ether + sz_ipv4 + sz_udp + 1) in
            if gtype = GTPU_ECHO_REQ \<or> gtype = GTPU_ECHO_RES then 0
            else ldw m (sz_ether + sz_ipv4 + sz_udp + 4))
      else 0)"

definition is_gtpc :: "'r dpdk \<Rightarrow> mbuf \<Rightarrow> 32 word" where
  "is_gtpc D m =
     (if is_ipv4_hdr D (mb_ptype m) \<and> ldb m (sz_ether + 9) = IPPROTO_UDP \<and>
         ldh m (sz_ether + sz_ipv4 + 2) = bswap16 GTPC_PORT
      then (let g = sz_ether + sz_ipv4 + sz_udp; flags = ldb m g in
            if unat (bswap16 (ldh m (g + 2))) > ETHER_MAX_LEN then 0
            else if drop_bit 5 flags \<noteq> 2 \<or> drop_bit 4 flags AND 1 \<noteq> 0 then 0
            else ucast (ldb m (g + 1)))
      else 0)"

section \<open>Error Indication\<close>

abbreviation errind_len :: nat where
  "errind_len \<equiv> sz_ether + sz_ipv4 + sz_udp + sz_gtpu + sz_errind"

definition swap_mac :: "mbuf \<Rightarrow> mbuf" where
  "swap_mac m = stbytes 6 (pkt_slice m 0 6) (stbytes 0 (pkt_slice m 6 6) m)"

text \<open>
  The rewriting of the trimmed packet. The two assignments to the UDP ports both read the
  destination port.
\<close>

definition errind_rewrite :: "mbuf \<Rightarrow> mbuf" where
  "errind_rewrite m0 =
     (let m = m0\<lparr>mb_len := errind_len\<rparr>;
          m = swap_mac m;
          t_ipaddr = ldw m (sz_ether + 16);
          m = stw (sz_ether + 16) (ldw m (sz_ether + 12)) m;
          m = stw (sz_ether + 12) t_ipaddr m;
          m = sth (sz_ether + 2) (bswap16 (word_of_nat (errind_len - sz_ether))) m;
          m = sth (sz_ether + 10) 0 m;
          u = sz_ether + sz_ipv4;
          m = sth (u + 2) (ldh m (u + 2)) m;
          m = sth u (ldh m (u + 2)) m;
          m = sth (u + 4) (bswap16 (word_of_nat (errind_len - sz_ether - sz_ipv4))) m;
          m = sth (u + 6) 0 m;
          g = u + sz_udp;
          e = errind_len - sz_errind;
          m = stb e GTPU_TEIDI_TYPE m;
          m = stw (e + 1) (ldw m (g + 4)) m;
          m = stb (e + 5) GTPU_PEER_ADDRESS m;
          m = sth (e + 6) (bswap16 4) m;
          m = stw (e + 8) t_ipaddr m;
          m = stb (g + 1) GTPU_ERROR_INDICATION m;
          m = stw (g + 4) 0 m;
          m = sth (g + 2) (bswap16 (word_of_nat sz_errind)) m
      in m)"

text \<open>
  The argument of \<open>rte_pktmbuf_trim\<close> is a \<open>uint16_t\<close>, so the difference wraps at 16
  bits; a failing trim ends in \<open>rte_panic\<close>.
\<close>

definition error_indicate :: "'r dpdk \<Rightarrow> mbuf \<Rightarrow> mbuf option" where
  "error_indicate D m =
     map_option errind_rewrite
       (trim D m (unat (word_of_nat (mb_len m) - word_of_nat errind_len :: 16 word)))"

section \<open>Facts\<close>

lemma trim_arg_fits:
  assumes "errind_len \<le> n" and "n < 65536"
  shows "unat (word_of_nat n - word_of_nat errind_len :: 16 word) = n - errind_len"
proof -
  have "(word_of_nat n - word_of_nat errind_len :: 16 word) = word_of_nat (n - errind_len)"
    using assms(1) by (simp add: of_nat_diff)
  moreover have "(n - errind_len) mod 65536 = n - errind_len"
    using assms by simp
  ultimately show ?thesis
    by (simp add: unat_of_nat)
qed

lemma errind_rewrite_bytes:
  "mb_len (errind_rewrite m) = 62" "mb_off (errind_rewrite m) = mb_off m"
  "pkt_slice (errind_rewrite m) 0 6 = pkt_slice m 6 6"
  "pkt_slice (errind_rewrite m) 6 6 = pkt_slice m 0 6"
  "ldw (errind_rewrite m) 30 = ldw m 26" "ldw (errind_rewrite m) 26 = ldw m 30"
  "ldb (errind_rewrite m) 43 = GTPU_ERROR_INDICATION" "ldw (errind_rewrite m) 46 = 0"
  "ldw (errind_rewrite m) 51 = ldw m 46" "ldw (errind_rewrite m) 58 = ldw m 30"
  "ldh (errind_rewrite m) 16 = bswap16 48" "ldh (errind_rewrite m) 38 = bswap16 28"
  "ldh (errind_rewrite m) 44 = bswap16 12"
  "ldh (errind_rewrite m) 34 = ldh m 36" "ldh (errind_rewrite m) 36 = ldh m 36"
  by (simp_all add: errind_rewrite_def Let_def swap_mac_def pkt_slice_def pkt_defs mem_defs
      wr_bytes_def rd_bytes_expand add.commute)

lemma is_pdu_DECAP:
  "is_pdu m = DECAP \<longleftrightarrow>
     ldh m 12 = bswap16 ETHER_TYPE_IPv4 \<and> ldb m (sz_ether + 9) = IPPROTO_UDP \<and>
     ldh m (sz_ether + sz_ipv4 + 2) = bswap16 GTPU_PORT \<and>
     ldb m (sz_ether + sz_ipv4 + sz_udp + 1) = GTPU_G_PDU"
  by (simp add: is_pdu_def)

section \<open>Properties\<close>

text \<open>A GTP-U Error Indication is built from every packet that is long enough: it is 62 octets long,
  goes back to the sender (MAC and IPv4 addresses exchanged), carries the offending TEID and the
  peer address, and its IPv4, UDP and GTP-U length fields agree with its size. Both UDP ports
  become the original destination port, although the code comments it as a swap.\<close>

theorem error_indicate_answers_sender:
  assumes "mbuf_laws D" and "errind_len \<le> mb_len m" and "mb_len m < 65536"
  shows "\<exists>m'. error_indicate D m = Some m' \<and> mb_len m' = 62 \<and> mb_off m' = mb_off m \<and>
     pkt_slice m' 0 6 = pkt_slice m 6 6 \<and> pkt_slice m' 6 6 = pkt_slice m 0 6 \<and>
     ldw m' 30 = ldw m 26 \<and> ldw m' 26 = ldw m 30 \<and>
     ldb m' 43 = GTPU_ERROR_INDICATION \<and> ldw m' 46 = 0 \<and>
     ldw m' 51 = ldw m 46 \<and> ldw m' 58 = ldw m 30 \<and>
     ldh m' 16 = bswap16 48 \<and> ldh m' 38 = bswap16 28 \<and> ldh m' 44 = bswap16 12 \<and>
     ldh m' 34 = ldh m 36 \<and> ldh m' 36 = ldh m 36"
proof -
  have "error_indicate D m = Some (errind_rewrite (m\<lparr>mb_len := errind_len\<rparr>))"
    using assms trim_arg_fits [OF assms(2,3)] by (simp add: error_indicate_def mbuf_lawsD)
  moreover note errind_rewrite_bytes [of "m\<lparr>mb_len := errind_len\<rparr>"]
  ultimately show ?thesis by (simp add: ldw_def ldh_def ldb_def pkt_slice_def mtod_def)
qed

theorem error_indicate_answers_sender_witness:
  "\<exists>m'. error_indicate (ref_dpdk 4) (demo_mbuf 90 []) = Some m' \<and> mb_len m' = 62"
  using error_indicate_answers_sender [OF ref_dpdk_mbuf_laws, of "demo_mbuf 90 []" 4]
  by (auto simp: demo_mbuf_def)

text \<open>A packet shorter than an Error Indication makes the data plane panic instead of being
  answered: the 16-bit difference wraps and the trim is refused.\<close>

theorem error_indicate_panics_on_short:
  assumes "mbuf_laws D" and "mb_len m < errind_len"
  shows "error_indicate D m = None"
proof -
  have "errind_len - mb_len m \<le> 65536" by simp
  have "(word_of_nat (mb_len m) - word_of_nat errind_len :: 16 word)
      = word_of_nat (65536 - (errind_len - mb_len m))"
  proof -
    have "(word_of_nat (65536 - (errind_len - mb_len m)) :: 16 word)
       = word_of_nat 65536 - (word_of_nat errind_len - word_of_nat (mb_len m))"
      using assms(2) by (simp add: of_nat_diff)
    also have "(word_of_nat 65536 :: 16 word) = 0" by simp
    finally show ?thesis by simp
  qed
  moreover have "unat (word_of_nat (65536 - (errind_len - mb_len m)) :: 16 word)
      = 65536 - (errind_len - mb_len m)"
    by (subst unat_of_nat) (use assms(2) in simp)
  ultimately have key: "unat (word_of_nat (mb_len m) - word_of_nat errind_len :: 16 word)
      = 65536 - (errind_len - mb_len m)" by (simp only:)
  show ?thesis
    unfolding error_indicate_def mbuf_lawsD [OF assms(1)] key using assms(2) by simp
qed

theorem error_indicate_panics_on_short_witness:
  "error_indicate (ref_dpdk 4) (demo_mbuf 60 []) = None"
  by (rule error_indicate_panics_on_short [OF ref_dpdk_mbuf_laws]) (simp add: demo_mbuf_def)

text \<open>The encapsulation classifier sorts every plain Ethernet packet: it answers PASS, ENCAP or VLAN
  only; whatever it hands to encapsulation is IPv4 or IPv6; TCP and ICMP towards a user address
  (first octet 10) is always encapsulated; BGP from or to a non-user address, single-hop BFD, OSPF,
  ARP and link-local ICMPv6 pass through.\<close>

theorem classifier_routes_user_and_control:
  assumes "l2_class D m = None"
  shows "is_arp_or_innericmp D m \<in> {PASS, ENCAP, VLAN} \<and>
    (is_arp_or_innericmp D m = ENCAP \<longrightarrow>
       ldh m 12 = bswap16 ETHER_TYPE_IPv4 \<or> ldh m 12 = bswap16 ETHER_TYPE_IPv6) \<and>
    (ldh m 12 = bswap16 ETHER_TYPE_IPv4 \<and> ldw m 30 AND 0xFF = 0x0A \<and>
       (ldb m 23 = IPPROTO_TCP \<or> ldb m 23 = IPPROTO_ICMP) \<longrightarrow> is_arp_or_innericmp D m = ENCAP) \<and>
    (ldh m 12 = bswap16 ETHER_TYPE_IPv4 \<and> ldb m 23 = IPPROTO_OSPFIGP \<longrightarrow>
       is_arp_or_innericmp D m = PASS) \<and>
    (ldh m 12 = bswap16 ETHER_TYPE_IPv4 \<and> ldb m 23 = IPPROTO_UDP \<and> ldb m 22 = 255 \<and>
       bswap16 (ldh m (sz_ether + ip4_hlen m sz_ether + 2)) = 3784 \<longrightarrow>
       is_arp_or_innericmp D m = PASS) \<and>
    (ldh m 12 = bswap16 ETHER_TYPE_IPv4 \<and> ldb m 23 = IPPROTO_TCP \<and> ldw m 30 AND 0xFF \<noteq> 0x0A \<and>
       bswap16 (ldh m (sz_ether + ip4_hlen m sz_ether + 2)) = 179 \<longrightarrow>
       is_arp_or_innericmp D m = PASS) \<and>
    (ldh m 12 = bswap16 ETHER_TYPE_ARP \<longrightarrow> is_arp_or_innericmp D m = PASS) \<and>
    (ldh m 12 = bswap16 ETHER_TYPE_IPv6 \<and> ldb m 20 = IPPROTO_ICMPV6 \<and> ldb m 21 = 0xFF \<longrightarrow>
       is_arp_or_innericmp D m = PASS)"
proof -
  have ne: "bswap16 ETHER_TYPE_IPv4 \<noteq> bswap16 ETHER_TYPE_ARP" "bswap16 ETHER_TYPE_IPv6 \<noteq> bswap16 ETHER_TYPE_ARP"
    "bswap16 ETHER_TYPE_IPv6 \<noteq> bswap16 ETHER_TYPE_IPv4"
    by simp_all
  have d: "is_arp_or_innericmp D m \<in> {PASS, ENCAP, VLAN}"
    "is_arp_or_innericmp D m = ENCAP \<longrightarrow>
       ldh m 12 = bswap16 ETHER_TYPE_IPv4 \<or> ldh m 12 = bswap16 ETHER_TYPE_IPv6"
    using assms by (simp_all add: is_arp_or_innericmp_def Let_def split: if_splits)
  moreover note ne
  ultimately show ?thesis
    using assms by (simp add: is_arp_or_innericmp_def Let_def)
qed

theorem classifier_routes_user_and_control_witness:
  "is_arp_or_innericmp (ref_dpdk 4) (demo_mbuf 60 (replicate 12 0 @ [8, 6])) = PASS"
proof -
  let ?m = "demo_mbuf 60 (replicate 12 0 @ [8, 6])"
  have "l2_class (ref_dpdk 4) ?m = None"
    by (simp add: l2_class_def ref_dpdk_def demo_mbuf_def)
  moreover have "ldh ?m 12 = bswap16 ETHER_TYPE_ARP"
    by (simp add: demo_mbuf_def pkt_defs mem_defs mem_of_def wr_bytes_def nth_append
        bswap16_def byte_of_def)
  ultimately show ?thesis
    using classifier_routes_user_and_control [of "ref_dpdk 4" ?m] by blast
qed

text \<open>In the build with GRE the decapsulation check has no defined answer for exactly the plain IPv4
  packets that carry UDP (its branch is empty and the function ends without a return); in the build
  without GRE it always answers, and then DECAP is exactly IPv4/UDP to port 2152.\<close>

theorem check_decapability_undefined_iff:
  "(check_decapability D no_gre m = None \<longleftrightarrow>
      \<not> no_gre \<and> l2_class D m = None \<and> ldh m 12 = bswap16 ETHER_TYPE_IPv4 \<and> ldb m 23 = IPPROTO_UDP) \<and>
   (no_gre \<and> l2_class D m = None \<longrightarrow>
      (check_decapability D no_gre m = Some DECAP \<longleftrightarrow>
        ldh m 12 = bswap16 ETHER_TYPE_IPv4 \<and> ldb m 23 = IPPROTO_UDP \<and>
        bswap16 (ldh m (sz_ether + ip4_hlen m sz_ether + 2)) = 2152))"
  by (auto simp: check_decapability_def Let_def split: option.splits)

theorem check_decapability_undefined_iff_witness:
  "check_decapability (ref_dpdk 4) False
     (demo_mbuf 60 (replicate 12 0 @ [8, 0] @ replicate 9 0 @ [17])) = None"
  using check_decapability_undefined_iff [of "ref_dpdk 4" False
      "demo_mbuf 60 (replicate 12 0 @ [8, 0] @ replicate 9 0 @ [17])"]
  by (simp add: l2_class_def ref_dpdk_def demo_mbuf_def pkt_defs mem_defs mem_of_def wr_bytes_def
      nth_append bswap16_def byte_of_def)

end
