(* ===== verification/Ip_Checksum.thy ===== *)
theory Ip_Checksum
  imports Dpdk
begin

text \<open>
  The Internet checksum of the data plane: \<open>_checksum\<close> and \<open>_wrapsum\<close> of
  \<open>dataplane/inc/mixi_pgw_data_plane_def.hpp\<close>. The sum is kept in a 32-bit \<open>unsigned\<close>,
  which wraps; the carries are folded back until the sum fits in 16 bits; the result is its
  complement. The main fact is that a header whose checksum field holds what
  \<open>_wrapsum(_checksum(...))\<close> computed over it with a zero field sums to zero again.
\<close>

section \<open>The routines\<close>

text \<open>The loop over the 16-bit words; an odd last octet reads one octet past the end.\<close>

fun checksum_loop :: "mem \<Rightarrow> nat \<Rightarrow> nat \<Rightarrow> 32 word \<Rightarrow> 32 word" where
  "checksum_loop m a 0 acc = acc"
| "checksum_loop m a (Suc 0) acc = acc + ucast (bswap16 (ld16 m a))"
| "checksum_loop m a (Suc (Suc n)) acc =
     checksum_loop m (a + 2) n (acc + ucast (bswap16 (ld16 m a)))"

lemma unat_low16: "unat (s AND 0xFFFF :: 32 word) = unat s mod 65536"
proof -
  have "s AND 0xFFFF = take_bit 16 s"
    by (simp add: take_bit_eq_mask mask_eq_exp_minus_1)
  then show ?thesis
    by (simp add: take_bit_eq_mod unat_mod)
qed

lemma unat_high16: "unat (drop_bit 16 s :: 32 word) = unat s div 65536"
  by (simp add: drop_bit_eq_div unat_div)

lemma fold_step_nat:
  fixes s :: "32 word"
  shows "unat ((s AND 0xFFFF) + drop_bit 16 s) = unat s mod 65536 + unat s div 65536"
proof -
  have "unat s mod 65536 + unat s div 65536 \<le> unat s"
    using mod_add_div_decomp [of "unat s" 65536] by linarith
  then have "unat s mod 65536 + unat s div 65536 < 4294967296"
    using unat32_less [of s] by linarith
  then show ?thesis
    by (simp add: unat_word_ariths unat_low16 unat_high16)
qed

lemma high16_iff: "drop_bit 16 (s :: 32 word) \<noteq> 0 \<longleftrightarrow> 65536 \<le> unat s"
proof -
  have "drop_bit 16 s = 0 \<longleftrightarrow> unat s div 65536 = 0"
    using unat_high16 [of s] by (simp flip: unsigned_eq_0_iff [where ?'a = nat])
  then show ?thesis by auto
qed

function checksum_fold :: "32 word \<Rightarrow> 32 word" where
  "checksum_fold s =
     (if drop_bit 16 s \<noteq> 0 then checksum_fold ((s AND 0xFFFF) + drop_bit 16 s) else s)"
  by pat_completeness auto
termination
proof (relation "measure unat")
  fix s :: "32 word"
  assume "drop_bit 16 s \<noteq> 0"
  then have "65536 \<le> unat s" by (simp only: high16_iff)
  then have "unat s mod 65536 + unat s div 65536 < unat s"
    using mod_add_div_decomp [of "unat s" 65536] div_le_mono [of 65536 "unat s" 65536] by linarith
  then show "((s AND 0xFFFF) + drop_bit 16 s, s) \<in> measure unat"
    unfolding in_measure fold_step_nat .
qed simp

declare checksum_fold.simps [simp del]

definition checksum :: "mem \<Rightarrow> nat \<Rightarrow> 16 word \<Rightarrow> 32 word \<Rightarrow> 32 word" where
  "checksum m a len acc = NOT (checksum_fold (checksum_loop m a (unat len) acc))"

definition wrapsum :: "32 word \<Rightarrow> 16 word" where
  "wrapsum s = bswap16 (ucast (s AND 0xFFFF))"

section \<open>Arithmetic meaning\<close>

abbreviation be16 :: "mem \<Rightarrow> nat \<Rightarrow> nat" where
  "be16 m a \<equiv> unat (bswap16 (ld16 m a))"

lemma be16_less: "be16 m a < 65536"
  by (rule unat16_less)

lemma checksum_loop_nat:
  assumes "unat acc + k * 65535 < 4294967296"
  shows "unat (checksum_loop m a (2 * k) acc) = unat acc + (\<Sum>i<k. be16 m (a + 2 * i))"
  using assms
proof (induction k arbitrary: a acc)
  case 0
  then show ?case by simp
next
  case (Suc k)
  let ?acc = "acc + ucast (bswap16 (ld16 m a))"
  have le: "be16 m a \<le> 65535" using be16_less [of m a] by simp
  have step: "unat ?acc = unat acc + be16 m a"
    using le Suc.prems by (simp add: unat_word_ariths)
  have "unat (checksum_loop m (a + 2) (2 * k) ?acc)
      = unat ?acc + (\<Sum>i<k. be16 m (a + 2 + 2 * i))"
    using Suc.prems le by (intro Suc.IH) (simp add: step)
  then show ?case
    by (simp add: step sum.lessThan_Suc_shift del: sum.lessThan_Suc)
qed

lemma checksum_fold_nat:
  "unat (checksum_fold s) < 65536 \<and> unat (checksum_fold s) mod 65535 = unat s mod 65535 \<and>
   (unat (checksum_fold s) = 0 \<longleftrightarrow> unat s = 0)"
proof (induction s rule: checksum_fold.induct)
  case (1 s)
  show ?case
  proof (cases "drop_bit 16 s \<noteq> 0")
    case False
    then show ?thesis
      by (subst (1 2 3) checksum_fold.simps) (use high16_iff [of s] in auto)
  next
    case True
    have eq: "(unat s mod 65536 + unat s div 65536) mod 65535 = unat s mod 65535"
    proof -
      have "unat s = unat s mod 65536 + unat s div 65536 + 65535 * (unat s div 65536)"
        using div_mult_mod_eq [of "unat s" 65536] by simp
      then show ?thesis by (metis mod_mult_self2)
    qed
    have zero: "unat s mod 65536 + unat s div 65536 = 0 \<longleftrightarrow> unat s = 0"
      using mod_add_div_decomp [of "unat s" 65536] by auto
    from True have "checksum_fold s = checksum_fold ((s AND 0xFFFF) + drop_bit 16 s)"
      by (simp add: checksum_fold.simps [of s])
    with "1.IH" [OF True] show ?thesis
      unfolding fold_step_nat eq zero by simp
  qed
qed

lemma unat_not_low16: "unat s < 65536 \<Longrightarrow> unat (NOT s AND 0xFFFF :: 32 word) = 65535 - unat s"
proof -
  assume s: "unat s < 65536"
  have "NOT s = - 1 - s" by (simp add: not_eq_complement)
  then have "unat (NOT s) = 4294967295 - unat s"
    using unat_sub [of s "- 1"] by (simp add: unsigned_minus_1_eq_mask mask_eq_exp_minus_1)
  also have "\<dots> = 65535 - unat s + 65535 * 65536"
    using s by simp
  finally show ?thesis
    unfolding unat_low16 using s by (simp only: mod_mult_self1) simp
qed

lemma checksum_loop_cong:
  assumes "\<And>i. i < 2 * k \<Longrightarrow> m (a + i) = m' (b + i)"
  shows "checksum_loop m a (2 * k) acc = checksum_loop m' b (2 * k) acc"
  using assms
proof (induction k arbitrary: a b acc)
  case 0
  then show ?case by simp
next
  case (Suc k)
  have "ld16 m a = ld16 m' b"
    using Suc.prems [of 0] Suc.prems [of 1] by (simp add: mem_defs)
  moreover have "m (a + 2 + i) = m' (b + 2 + i)" if "i < 2 * k" for i
    using Suc.prems [of "2 + i"] that by (simp add: add.assoc)
  ultimately show ?case using Suc.IH [of "a + 2" "b + 2"] by simp
qed

lemma be16_st16: "be16 (st16 m (a + 2 * j) v) (a + 2 * i) =
    (if i = j then unat (bswap16 v) else be16 m (a + 2 * i))"
proof (cases "i = j")
  case False
  then have "a + 2 * i \<noteq> a + 2 * j" "a + 2 * i \<noteq> a + 2 * j + 1" "a + 2 * i + 1 \<noteq> a + 2 * j"
    "a + 2 * i + 1 \<noteq> a + 2 * j + 1" by presburger+
  with False show ?thesis by (simp add: mem_defs)
qed simp

text \<open>The header sums to zero once its own checksum is stored in it.\<close>

lemma checksum_verifies_words:
  fixes m :: mem and a j k :: nat
  defines "m0 \<equiv> st16 m (a + 2 * j) 0"
  defines "m1 \<equiv> st16 m (a + 2 * j) (wrapsum (NOT (checksum_fold (checksum_loop m0 a (2 * k) 0))))"
  assumes "j < k" and "k \<le> 32767"
  shows "wrapsum (NOT (checksum_fold (checksum_loop m1 a (2 * k) 0))) = 0"
proof -
  define f where "f = checksum_fold (checksum_loop m0 a (2 * k) 0)"
  define f1 where "f1 = checksum_fold (checksum_loop m1 a (2 * k) 0)"
  define R where "R = (\<Sum>i\<in>{..<k} - {j}. be16 m (a + 2 * i))"
  have S: "(\<Sum>i<k. be16 (st16 m (a + 2 * j) v) (a + 2 * i)) = R + unat (bswap16 v)" for v
    using \<open>j < k\<close> by (simp add: be16_st16 R_def sum.remove [of "{..<k}" j])
  have big: "unat (0 :: 32 word) + k * 65535 < 4294967296"
    using \<open>k \<le> 32767\<close> by simp
  have z: "bswap16 0 = 0" by (simp add: bswap16_def mk16_def byte_of_def)
  have s0: "unat (checksum_loop m0 a (2 * k) 0) = R"
    unfolding m0_def checksum_loop_nat [OF big] S by (simp add: z)
  have fb: "unat f < 65536" "unat f mod 65535 = R mod 65535" "unat f = 0 \<longleftrightarrow> R = 0"
    using checksum_fold_nat [of "checksum_loop m0 a (2 * k) 0"] unfolding f_def s0 by auto
  have c: "unat (bswap16 (wrapsum (NOT f))) = 65535 - unat f"
    using fb(1) unat_not_low16 [of f] unat_low16 [of "NOT f"]
    by (simp add: wrapsum_def unsigned_ucast_eq take_bit_eq_mod)
  have s1: "unat (checksum_loop m1 a (2 * k) 0) = R + (65535 - unat f)"
    unfolding m1_def f_def [symmetric] checksum_loop_nat [OF big] S c by simp
  have "(R + (65535 - unat f)) mod 65535 = 0"
  proof -
    have "(R + (65535 - unat f)) mod 65535 = (unat f + (65535 - unat f)) mod 65535"
      using fb(2) by (metis mod_add_left_eq)
    then show ?thesis using fb(1) by simp
  qed
  moreover have "R + (65535 - unat f) \<noteq> 0"
    using fb by auto
  ultimately have "unat f1 < 65536" "unat f1 mod 65535 = 0" "unat f1 \<noteq> 0"
    using checksum_fold_nat [of "checksum_loop m1 a (2 * k) 0"] unfolding f1_def s1 by auto
  then have "unat f1 = 65535"
    using mod_add_div_decomp [of "unat f1" 65535] div_le_mono [of "unat f1" 65535 65535] by auto
  then have "unat (NOT f1 AND 0xFFFF) = 0" using unat_not_low16 [of f1] by simp
  then have "NOT f1 AND 0xFFFF = 0" by (simp only: unsigned_eq_0_iff)
  then show ?thesis unfolding f1_def [symmetric] wrapsum_def by (simp add: z)
qed

section \<open>Storing a header checksum\<close>

text \<open>
  The statement sequence \<open>ip->hdr_checksum = 0; ip->hdr_checksum = _wrapsum(_checksum(ip, len, 0))\<close>
  for an IPv4 header at address \<open>a\<close>.
\<close>

definition set_ip_checksum :: "mem \<Rightarrow> nat \<Rightarrow> 16 word \<Rightarrow> mem" where
  "set_ip_checksum m a len =
     (let m0 = st16 m (a + 10) 0 in st16 m0 (a + 10) (wrapsum (checksum m0 a len 0)))"

definition ip_checksum_ok :: "mem \<Rightarrow> nat \<Rightarrow> 16 word \<Rightarrow> bool" where
  "ip_checksum_ok m a len \<longleftrightarrow> wrapsum (checksum m a len 0) = 0"

lemma st16_st16 [simp]: "st16 (st16 m a v) a w = st16 m a w"
  by (simp add: mem_defs fun_eq_iff)

lemma set_ip_checksum_ok:
  assumes "unat len = 2 * k" and "5 < k"
  shows "ip_checksum_ok (set_ip_checksum m a len) a len"
proof -
  have "k \<le> 32767" using unat16_less [of len] assms(1) by simp
  then show ?thesis
    using checksum_verifies_words [of 5 k m a] assms
    by (simp add: ip_checksum_ok_def set_ip_checksum_def checksum_def)
qed

lemma set_ip_checksum_other [simp]:
  "x \<noteq> a + 10 \<Longrightarrow> x \<noteq> a + 11 \<Longrightarrow> set_ip_checksum m a len x = m x"
  by (auto simp: set_ip_checksum_def mem_defs Let_def add.commute)

lemma ip_checksum_ok_cong:
  assumes "unat len = 2 * k" and "\<And>i. i < unat len \<Longrightarrow> m (a + i) = m' (b + i)"
  shows "ip_checksum_ok m a len = ip_checksum_ok m' b len"
  using checksum_loop_cong [of k m a m' b 0] assms by (simp add: ip_checksum_ok_def checksum_def)

section \<open>Properties\<close>

text \<open>The checksum the data plane writes into an IPv4 header verifies: over the whole header, with
  options or without (any even length of at least 12 octets), the Internet checksum of the stored
  header is zero.\<close>

theorem stored_checksum_verifies:
  assumes "even (unat len)" and "12 \<le> unat len"
  shows "wrapsum (checksum (set_ip_checksum m a len) a len 0) = 0"
  using set_ip_checksum_ok [of len "unat len div 2" m a] assms by (simp add: ip_checksum_ok_def)

theorem stored_checksum_verifies_witness:
  "wrapsum (checksum (set_ip_checksum (mem_of 0 [0x45, 0, 0, 60]) 0 20) 0 20 0) = 0"
  by (rule stored_checksum_verifies) simp_all

end
