(* ===== verification/Core_Interface.thy ===== *)
theory Core_Interface
  imports Dpdk "HOL-Library.Multiset"
begin

text \<open>
  The base of every data plane core: \<open>CoreInterface\<close> and \<open>CoreCounter\<close> of
  \<open>dataplane/inc/core.hpp\<close> and \<open>dataplane/src/core/cores.cc\<close>. A core keeps a burst
  buffer of outgoing packets (\<open>output_\<close>, \<open>output_cnt_\<close>: here the list of the packets
  buffered), hands it to its output ring in bulk, and counts what it drops.

  \<open>freed\<close> records the calls of \<open>rte_pktmbuf_free\<close>, the packets given back to the pool, so
  that losing or leaking a packet is visible in the state. The burst loop common to the workers
  (a prefetching loop and a loop for the rest) is \<open>burst_loop\<close>.
\<close>

section \<open>Counters\<close>

record core_counter =
  drop_bytes :: "64 word"
  drop_count :: "64 word"
  transfer_bytes :: "64 word"
  transfer_count :: "64 word"

definition zero_counter :: core_counter where
  "zero_counter = \<lparr>drop_bytes = 0, drop_count = 0, transfer_bytes = 0, transfer_count = 0\<rparr>"

definition cc_HasDropped :: "core_counter \<Rightarrow> bool" where
  "cc_HasDropped c \<longleftrightarrow> drop_bytes c + drop_count c \<noteq> 0"

definition cc_Clear :: "core_counter \<Rightarrow> core_counter" where
  "cc_Clear c = zero_counter"

definition Inc :: "64 word \<Rightarrow> 64 word \<Rightarrow> 64 word \<Rightarrow> 64 word \<Rightarrow> core_counter \<Rightarrow> core_counter" where
  "Inc db dc tb tc c =
     (let c = (if db \<noteq> 0 then c\<lparr>drop_bytes := drop_bytes c + db\<rparr> else c);
          c = (if dc \<noteq> 0 then c\<lparr>drop_count := drop_count c + dc\<rparr> else c);
          c = (if tb \<noteq> 0 then c\<lparr>transfer_bytes := transfer_bytes c + tb\<rparr> else c)
      in (if tc \<noteq> 0 then c\<lparr>transfer_count := transfer_count c + tc\<rparr> else c))"

lemma Inc_fields [simp]:
  "drop_bytes (Inc db dc tb tc c) = drop_bytes c + db"
  "drop_count (Inc db dc tb tc c) = drop_count c + dc"
  "transfer_bytes (Inc db dc tb tc c) = transfer_bytes c + tb"
  "transfer_count (Inc db dc tb tc c) = transfer_count c + tc"
  by (simp_all add: Inc_def Let_def)

section \<open>The core\<close>

datatype key = CNT_RX | CNT_TX | CNT_WORKER | BURST_FROM | BURST_TO | OPT | LCORE | PORT | QUEUE
  | CNT_PGW_INGRESS | CNT_PGW_EGRESS | FLUSH_DELAY | SOCKET
  | POLICER_CIR | POLICER_CBS | POLICER_EIR | POLICER_EBS | RESERVED

record 'r core =
  port :: "32 word"
  queue :: "32 word"
  lcore :: "32 word"
  socket :: "32 word"
  cnt_rx :: "32 word"
  cnt_tx :: "32 word"
  cnt_wk :: "32 word"
  cnt_pgw_in :: "32 word"
  cnt_pgw_eg :: "32 word"
  burst_fm :: "32 word"
  burst_to :: "32 word"
  ring_fm :: 'r
  ring_to :: 'r
  out_buf :: "mbuf list"
  flush_delay :: "64 word"
  counter :: core_counter
  freed :: "mbuf list"

definition GetN :: "key \<Rightarrow> ('r, 'z) core_scheme \<Rightarrow> 32 word" where
  "GetN k c = (case k of
      CNT_RX \<Rightarrow> cnt_rx c | CNT_TX \<Rightarrow> cnt_tx c | CNT_WORKER \<Rightarrow> cnt_wk c
    | BURST_FROM \<Rightarrow> burst_fm c | BURST_TO \<Rightarrow> burst_to c | LCORE \<Rightarrow> lcore c | PORT \<Rightarrow> port c
    | QUEUE \<Rightarrow> queue c | CNT_PGW_INGRESS \<Rightarrow> cnt_pgw_in c | CNT_PGW_EGRESS \<Rightarrow> cnt_pgw_eg c
    | SOCKET \<Rightarrow> socket c | _ \<Rightarrow> - 1)"

definition SetN :: "key \<Rightarrow> 32 word \<Rightarrow> ('r, 'z) core_scheme \<Rightarrow> ('r, 'z) core_scheme" where
  "SetN k v c = (case k of
      CNT_RX \<Rightarrow> c\<lparr>cnt_rx := v\<rparr> | CNT_TX \<Rightarrow> c\<lparr>cnt_tx := v\<rparr> | CNT_WORKER \<Rightarrow> c\<lparr>cnt_wk := v\<rparr>
    | BURST_FROM \<Rightarrow> c\<lparr>burst_fm := v\<rparr> | BURST_TO \<Rightarrow> c\<lparr>burst_to := v\<rparr>
    | CNT_PGW_INGRESS \<Rightarrow> c\<lparr>cnt_pgw_in := v\<rparr> | CNT_PGW_EGRESS \<Rightarrow> c\<lparr>cnt_pgw_eg := v\<rparr>
    | FLUSH_DELAY \<Rightarrow> c\<lparr>flush_delay := ucast v\<rparr> | SOCKET \<Rightarrow> c\<lparr>socket := v\<rparr> | _ \<Rightarrow> c)"

definition HasDropped :: "('r, 'z) core_scheme \<Rightarrow> bool \<times> core_counter \<times> ('r, 'z) core_scheme" where
  "HasDropped c = (cc_HasDropped (counter c), counter c, c\<lparr>counter := cc_Clear (counter c)\<rparr>)"

datatype order = FROM | FROM_00 | FROM_01 | TO | TO_00 | TO_01 | EXTEND

text \<open>
  \<open>SetRingAddr\<close> of the packet workers: one input and one output ring; any other direction ends
  the process (\<open>rte_exit\<close>), here \<open>None\<close>.
\<close>

definition SetRingAddr :: "order \<Rightarrow> 'r \<Rightarrow> ('r, 'z) core_scheme \<Rightarrow> ('r, 'z) core_scheme option" where
  "SetRingAddr d r c =
     (if d = FROM then Some (c\<lparr>ring_fm := r\<rparr>) else if d = TO then Some (c\<lparr>ring_to := r\<rparr>) else None)"

text \<open>\<open>rte_pktmbuf_free\<close> of a list of packets, and a drop with its count.\<close>

definition free_all :: "mbuf list \<Rightarrow> ('r, 'z) core_scheme \<Rightarrow> ('r, 'z) core_scheme" where
  "free_all ms c = c\<lparr>freed := freed c @ ms\<rparr>"

definition count_drop :: "64 word \<Rightarrow> 64 word \<Rightarrow> ('r, 'z) core_scheme \<Rightarrow> ('r, 'z) core_scheme" where
  "count_drop db dc c = c\<lparr>counter := Inc db dc 0 0 (counter c)\<rparr>"

text \<open>
  \<open>SendOrBuffer\<close>: the packet is appended to the burst buffer; below the burst size that is
  all, else the first \<open>burst_to_\<close> packets go to the ring, or are freed when it is full, and the
  buffer is emptied. The test \<open>ret < 0\<close> of the code compares an unsigned and never holds.
\<close>

definition SendOrBuffer :: "'r dpdk \<Rightarrow> mbuf \<Rightarrow> ('r, 'z) core_scheme \<Rightarrow> ('r, 'z) core_scheme" where
  "SendOrBuffer D m c =
     (let out = out_buf c @ [m] in
      if length out < unat (burst_to c) then c\<lparr>out_buf := out\<rparr>
      else
        let ms = take (unat (burst_to c)) out; (r, ret) = enq_bulk D (ring_to c) ms;
            c = c\<lparr>ring_to := r, out_buf := []\<rparr>
        in (if ret = 0 then count_drop 0 (ucast (burst_to c)) (free_all ms c) else c))"

definition BurstFlush :: "'r dpdk \<Rightarrow> ('r, 'z) core_scheme \<Rightarrow> ('r, 'z) core_scheme" where
  "BurstFlush D c =
     (if out_buf c = [] then c
      else
        let ms = out_buf c; (r, ret) = enq_bulk D (ring_to c) ms;
            c = c\<lparr>ring_to := r, out_buf := []\<rparr>
        in (if ret \<noteq> length ms then count_drop 0 (word_of_nat (length ms)) (free_all (drop ret ms) c)
            else c))"

section \<open>The burst loop\<close>

abbreviation PREFETCH_OFFSET :: nat where "PREFETCH_OFFSET \<equiv> 3"

text \<open>
  The two loops of a worker cycle over the dequeued burst: the first stops \<open>PREFETCH_OFFSET\<close>
  packets before the end (it prefetches ahead), the second finishes.
\<close>

function prefetch_loop :: "('s \<Rightarrow> mbuf \<Rightarrow> 's) \<Rightarrow> mbuf list \<Rightarrow> nat \<Rightarrow> 's \<Rightarrow> nat \<times> 's" where
  "prefetch_loop f input n s =
     (if n < length input - PREFETCH_OFFSET \<and> length input > PREFETCH_OFFSET
      then prefetch_loop f input (Suc n) (f s (input ! n)) else (n, s))"
  by pat_completeness auto
termination by (relation "measure (\<lambda>(f, input, n, s). length input - n)") auto

function remained_loop :: "('s \<Rightarrow> mbuf \<Rightarrow> 's) \<Rightarrow> mbuf list \<Rightarrow> nat \<Rightarrow> 's \<Rightarrow> 's" where
  "remained_loop f input n s =
     (if n < length input then remained_loop f input (Suc n) (f s (input ! n)) else s)"
  by pat_completeness auto
termination by (relation "measure (\<lambda>(f, input, n, s). length input - n)") auto

declare prefetch_loop.simps [simp del] remained_loop.simps [simp del]

definition burst_loop :: "('s \<Rightarrow> mbuf \<Rightarrow> 's) \<Rightarrow> mbuf list \<Rightarrow> 's \<Rightarrow> 's" where
  "burst_loop f input s = (case prefetch_loop f input 0 s of (n, s') \<Rightarrow> remained_loop f input n s')"

lemma remained_loop_foldl: "remained_loop f input n s = foldl f s (drop n input)"
proof (induction f input n s rule: remained_loop.induct)
  case (1 f input n s)
  then show ?case
    by (cases "n < length input")
      (simp_all add: remained_loop.simps [of f input n s] flip: Cons_nth_drop_Suc)
qed

lemma prefetch_loop_foldl:
  "prefetch_loop f input n s = (k, s') \<Longrightarrow> foldl f s' (drop k input) = foldl f s (drop n input)"
proof (induction f input n s rule: prefetch_loop.induct)
  case (1 f input n s)
  show ?case
  proof (cases "n < length input - PREFETCH_OFFSET \<and> length input > PREFETCH_OFFSET")
    case True
    then have n: "n < length input" by arith
    from True "1.prems" have "prefetch_loop f input (Suc n) (f s (input ! n)) = (k, s')"
      by (simp add: prefetch_loop.simps [of f input n s])
    from "1.IH" [OF True this] n show ?thesis
      by (simp flip: Cons_nth_drop_Suc)
  next
    case False
    with "1.prems" show ?thesis by (simp add: prefetch_loop.simps [of f input n s])
  qed
qed

lemma burst_loop_foldl: "burst_loop f input s = foldl f s input"
  using prefetch_loop_foldl [of f input 0 s]
  by (auto simp: burst_loop_def remained_loop_foldl split: prod.splits)

section \<open>The burst buffer\<close>

text \<open>
  The buffer never holds a full burst between calls. The account of a core: every packet it was
  given is on the ring, in the buffer or freed.
\<close>

definition core_inv :: "('r, 'z) core_scheme \<Rightarrow> bool" where
  "core_inv c \<longleftrightarrow> length (out_buf c) < unat (burst_to c)"

definition holdings :: "('r \<Rightarrow> mbuf list) \<Rightarrow> ('r, 'z) core_scheme \<Rightarrow> mbuf multiset" where
  "holdings items c = mset (items (ring_to c)) + mset (out_buf c) + mset (freed c)"

lemma free_all_simps [simp]:
  "freed (free_all ms c) = freed c @ ms" "ring_to (free_all ms c) = ring_to c"
  "ring_fm (free_all ms c) = ring_fm c"
  "out_buf (free_all ms c) = out_buf c" "counter (free_all ms c) = counter c"
  "burst_to (free_all ms c) = burst_to c" "burst_fm (free_all ms c) = burst_fm c"
  "flush_delay (free_all ms c) = flush_delay c" "core.more (free_all ms c) = core.more c"
  by (simp_all add: free_all_def)

lemma count_drop_simps [simp]:
  "freed (count_drop db dc c) = freed c" "ring_to (count_drop db dc c) = ring_to c"
  "ring_fm (count_drop db dc c) = ring_fm c"
  "out_buf (count_drop db dc c) = out_buf c" "counter (count_drop db dc c) = Inc db dc 0 0 (counter c)"
  "burst_to (count_drop db dc c) = burst_to c" "burst_fm (count_drop db dc c) = burst_fm c"
  "flush_delay (count_drop db dc c) = flush_delay c" "core.more (count_drop db dc c) = core.more c"
  by (simp_all add: count_drop_def)

lemma SendOrBuffer_frame [simp]:
  "burst_to (SendOrBuffer D m c) = burst_to c" "burst_fm (SendOrBuffer D m c) = burst_fm c"
  "ring_fm (SendOrBuffer D m c) = ring_fm c" "flush_delay (SendOrBuffer D m c) = flush_delay c"
  "core.more (SendOrBuffer D m c) = core.more c"
  by (simp_all add: SendOrBuffer_def Let_def split: prod.split)

lemma BurstFlush_frame [simp]:
  "burst_to (BurstFlush D c) = burst_to c" "burst_fm (BurstFlush D c) = burst_fm c"
  "ring_fm (BurstFlush D c) = ring_fm c" "flush_delay (BurstFlush D c) = flush_delay c"
  "core.more (BurstFlush D c) = core.more c" "out_buf (BurstFlush D c) = []"
  by (simp_all add: BurstFlush_def Let_def split: prod.split)

lemma SendOrBuffer_inv: "core_inv c \<Longrightarrow> core_inv (SendOrBuffer D m c)"
  by (auto simp: core_inv_def SendOrBuffer_def Let_def split: prod.split)

lemma BurstFlush_inv: "core_inv c \<Longrightarrow> core_inv (BurstFlush D c)"
  by (auto simp: core_inv_def)

lemma core_inv_full:
  assumes "core_inv c" and "\<not> Suc (length (out_buf c)) < unat (burst_to c)"
  shows "take (unat (burst_to c)) (out_buf c @ [m]) = out_buf c @ [m]"
    and "word_of_nat (Suc (length (out_buf c))) = (ucast (burst_to c) :: 64 word)"
    and "unat (burst_to c) = Suc (length (out_buf c))"
proof -
  show u: "unat (burst_to c) = Suc (length (out_buf c))"
    using assms by (simp add: core_inv_def)
  then show "take (unat (burst_to c)) (out_buf c @ [m]) = out_buf c @ [m]" by simp
  show "word_of_nat (Suc (length (out_buf c))) = (ucast (burst_to c) :: 64 word)"
    unfolding u [symmetric] by simp
qed

lemma SendOrBuffer_cases:
  assumes "ring_laws D items" and "core_inv c"
  obtains (sent) "items (ring_to (SendOrBuffer D m c)) @ out_buf (SendOrBuffer D m c)
        = items (ring_to c) @ out_buf c @ [m]"
      "freed (SendOrBuffer D m c) = freed c" "counter (SendOrBuffer D m c) = counter c"
  | (dropped) "ring_to (SendOrBuffer D m c) = ring_to c" "out_buf (SendOrBuffer D m c) = []"
      "freed (SendOrBuffer D m c) = freed c @ out_buf c @ [m]"
      "counter (SendOrBuffer D m c) =
         Inc 0 (word_of_nat (Suc (length (out_buf c)))) 0 0 (counter c)"
proof (cases "Suc (length (out_buf c)) < unat (burst_to c)")
  case True
  then show thesis by (intro sent) (simp_all add: SendOrBuffer_def)
next
  case False
  note full = core_inv_full [OF assms(2) False]
  obtain r ret where e: "enq_bulk D (ring_to c) (out_buf c @ [m]) = (r, ret)" by fastforce
  have nz: "length (out_buf c @ [m]) \<noteq> 0" by simp
  from assms(1) e show thesis
  proof (cases rule: ring_laws_enq_bulk)
    case all
    then have "ret \<noteq> 0" using nz by simp
    with all False e full(1) show thesis
      by (intro sent) (simp_all add: SendOrBuffer_def Let_def)
  next
    case none
    with False e full(1) show thesis
      by (intro dropped) (simp_all only: full(2), simp_all add: SendOrBuffer_def Let_def)
  qed
qed

lemma SendOrBuffer_holdings:
  assumes "ring_laws D items" and "core_inv c"
  shows "holdings items (SendOrBuffer D m c) = add_mset m (holdings items c)"
  using assms
proof (cases rule: SendOrBuffer_cases [where m = m])
  case sent
  then have "mset (items (ring_to (SendOrBuffer D m c))) + mset (out_buf (SendOrBuffer D m c))
      = mset (items (ring_to c)) + mset (out_buf c) + {#m#}"
    by (metis mset_append mset.simps mset_single_iff_right union_assoc)
  with sent(2) show ?thesis by (simp add: holdings_def)
next
  case dropped
  then show ?thesis by (simp add: holdings_def)
qed

lemma BurstFlush_cases:
  assumes "ring_laws D items"
  obtains (sent) "items (ring_to (BurstFlush D c)) = items (ring_to c) @ out_buf c"
      "freed (BurstFlush D c) = freed c" "counter (BurstFlush D c) = counter c"
  | (dropped) "ring_to (BurstFlush D c) = ring_to c" "freed (BurstFlush D c) = freed c @ out_buf c"
      "counter (BurstFlush D c) = Inc 0 (word_of_nat (length (out_buf c))) 0 0 (counter c)"
proof (cases "out_buf c = []")
  case True
  then show thesis by (intro sent) (simp_all add: BurstFlush_def)
next
  case False
  obtain r ret where e: "enq_bulk D (ring_to c) (out_buf c) = (r, ret)" by fastforce
  from assms e show thesis
  proof (cases rule: ring_laws_enq_bulk)
    case all
    with False e show thesis by (intro sent) (simp_all add: BurstFlush_def Let_def)
  next
    case none
    with False e show thesis by (intro dropped) (simp_all add: BurstFlush_def Let_def)
  qed
qed

lemma BurstFlush_holdings:
  assumes "ring_laws D items"
  shows "holdings items (BurstFlush D c) = holdings items c"
  using assms by (cases rule: BurstFlush_cases [where c = c]) (simp_all add: holdings_def)

text \<open>The drop counter against the packets freed, from a reference state on.\<close>

definition drops_counted :: "('r, 'y) core_scheme \<Rightarrow> ('r, 'z) core_scheme \<Rightarrow> bool" where
  "drops_counted c0 c \<longleftrightarrow> (\<exists>ms. freed c = freed c0 @ ms \<and>
     drop_count (counter c) = drop_count (counter c0) + word_of_nat (length ms))"

lemma drops_counted_refl [simp]: "drops_counted c c"
  unfolding drops_counted_def by (rule exI [of _ "[]"]) simp

lemma drops_counted_more:
  assumes "drops_counted c0 c" "freed c' = freed c @ ms"
    "drop_count (counter c') = drop_count (counter c) + word_of_nat (length ms)"
  shows "drops_counted c0 c'"
proof -
  from assms(1) obtain ms0 where "freed c = freed c0 @ ms0"
    "drop_count (counter c) = drop_count (counter c0) + word_of_nat (length ms0)"
    by (auto simp: drops_counted_def)
  with assms(2,3) show ?thesis
    unfolding drops_counted_def by (intro exI [of _ "ms0 @ ms"]) (simp add: add.assoc)
qed

lemma SendOrBuffer_drops:
  assumes "ring_laws D items" "core_inv c" "drops_counted c0 c"
  shows "drops_counted c0 (SendOrBuffer D m c)"
  using assms(1,2)
proof (cases rule: SendOrBuffer_cases [where m = m])
  case sent
  with assms(3) show ?thesis by (simp add: drops_counted_def)
next
  case dropped
  then show ?thesis by (intro drops_counted_more [OF assms(3), of _ "out_buf c @ [m]"]) simp_all
qed

lemma BurstFlush_drops:
  assumes "ring_laws D items" "drops_counted c0 c"
  shows "drops_counted c0 (BurstFlush D c)"
  using assms(1)
proof (cases rule: BurstFlush_cases [where c = c])
  case sent
  with assms(2) show ?thesis by (simp add: drops_counted_def)
next
  case dropped
  then show ?thesis by (intro drops_counted_more [OF assms(2), of _ "out_buf c"]) simp_all
qed

section \<open>The order of the packets\<close>

text \<open>
  \<open>offer\<close>: the bulks \<open>bs\<close> are offered, one after the other, to a device (a ring or a NIC) that takes a
  first part of each and says how many; the packets it took and the packets it left, each in order.
\<close>

primrec offer :: "('n \<Rightarrow> mbuf list \<Rightarrow> 'n \<times> nat) \<Rightarrow> 'n \<Rightarrow> mbuf list list \<Rightarrow> 'n \<times> mbuf list \<times> mbuf list" where
  "offer put r [] = (r, [], [])"
| "offer put r (b # bs) =
     (case put r b of (r', n) \<Rightarrow> case offer put r' bs of (r'', taken, left) \<Rightarrow>
        (r'', take n b @ taken, drop n b @ left))"

lemma shuffles_append:
  assumes "xs \<in> shuffles ls rs" "ys \<in> shuffles ls' rs'"
  shows "xs @ ys \<in> shuffles (ls @ ls') (rs @ rs')"
  using assms(1)
proof (induction xs arbitrary: ls rs)
  case Nil
  then show ?case using assms(2) by simp
next
  case (Cons x xs)
  from Cons.prems consider "ls \<noteq> []" "hd ls = x" "xs \<in> shuffles (tl ls) rs"
    | "rs \<noteq> []" "hd rs = x" "xs \<in> shuffles ls (tl rs)"
    unfolding Cons_in_shuffles_iff by blast
  then show ?case
    by cases (use Cons.IH in \<open>auto simp: Cons_in_shuffles_iff\<close>)
qed

lemma append_in_shuffles: "xs @ ys \<in> shuffles xs ys"
  by (induction xs) (simp_all add: Cons_in_shuffles_leftI)

lemma offer_append:
  "offer put r bs = (r', s, l) \<Longrightarrow> offer put r' bs' = (r'', s', l') \<Longrightarrow>
    offer put r (bs @ bs') = (r'', s @ s', l @ l')"
  by (induction bs arbitrary: r s l) (auto split: prod.splits)

text \<open>On a device that appends what it takes, the offered packets are an interleaving of the two parts.\<close>

lemma offer_shuffles:
  assumes "\<And>r b. on (fst (put r b)) = on r @ take (snd (put r b)) b" and "offer put r bs = (r', s, l)"
  shows "on r' = on r @ s \<and> concat bs \<in> shuffles s l"
  using assms(2)
proof (induction bs arbitrary: r s l)
  case Nil
  then show ?case by simp
next
  case (Cons b bs)
  obtain r1 n where p: "put r b = (r1, n)" by fastforce
  obtain s1 l1 where o: "offer put r1 bs = (r', s1, l1)" "s = take n b @ s1" "l = drop n b @ l1"
    using Cons.prems p by (auto split: prod.splits)
  have "b \<in> shuffles (take n b) (drop n b)" using append_in_shuffles [of "take n b" "drop n b"] by simp
  then have "b @ concat bs \<in> shuffles s l" using shuffles_append Cons.IH [OF o(1)] o(2,3) by blast
  then show ?case using Cons.IH [OF o(1)] assms(1) [of r b] p o by simp
qed

lemma ring_laws_put:
  "ring_laws D items \<Longrightarrow> items (fst (enq_bulk D r b)) = items r @ take (snd (enq_bulk D r b)) b"
  unfolding ring_laws_def by (metis append_Nil2 order_refl take0 take_all)

lemma ring_offer:
  "ring_laws D items \<Longrightarrow> offer (enq_bulk D) r bs = (r', s, l) \<Longrightarrow>
    items r' = items r @ s \<and> concat bs \<in> shuffles s l"
  by (rule offer_shuffles [of items "enq_bulk D"]) (rule ring_laws_put)

text \<open>
  \<open>core_passes\<close>: the packets \<open>ms\<close> were handed to the core; of the buffered ones and those, in this
  order, a first part left the buffer in bulks, each offered to the ring, and what the ring left is freed and counted.
\<close>

definition core_passes ::
  "'r dpdk \<Rightarrow> ('r, 'y) core_scheme \<Rightarrow> mbuf list \<Rightarrow> ('r, 'z) core_scheme \<Rightarrow> bool" where
  "core_passes D c ms c' \<longleftrightarrow> (\<exists>bs taken left.
     out_buf c @ ms = concat bs @ out_buf c' \<and> (\<forall>b\<in>set bs. b \<noteq> [] \<and> length b \<le> unat (burst_to c)) \<and>
     offer (enq_bulk D) (ring_to c) bs = (ring_to c', taken, left) \<and> freed c' = freed c @ left \<and>
     drop_count (counter c') = drop_count (counter c) + word_of_nat (length left)) \<and> burst_to c' = burst_to c"

lemma core_passesI:
  assumes "out_buf c @ ms = concat bs @ out_buf c'" "\<forall>b\<in>set bs. b \<noteq> [] \<and> length b \<le> unat (burst_to c)"
    "offer (enq_bulk D) (ring_to c) bs = (ring_to c', taken, left)" "freed c' = freed c @ left"
    "drop_count (counter c') = drop_count (counter c) + word_of_nat (length left)" "burst_to c' = burst_to c"
  shows "core_passes D c ms c'"
  unfolding core_passes_def using assms by blast

lemma core_passes_buffered:
  assumes "out_buf c' = out_buf c @ ms" "ring_to c' = ring_to c" "freed c' = freed c" "counter c' = counter c"
    "burst_to c' = burst_to c"
  shows "core_passes D c ms c'"
  by (rule core_passesI [where bs = "[]" and taken = "[]" and left = "[]"]) (simp_all add: assms)

lemma core_passes_bulk:
  assumes "enq_bulk D (ring_to c) (out_buf c @ ms) = (ring_to c', n)" "out_buf c' = []" "out_buf c @ ms \<noteq> []"
    "length (out_buf c @ ms) \<le> unat (burst_to c)" "freed c' = freed c @ drop n (out_buf c @ ms)"
    "drop_count (counter c') = drop_count (counter c) + word_of_nat (length (out_buf c @ ms) - n)"
    "burst_to c' = burst_to c"
  shows "core_passes D c ms c'"
  by (rule core_passesI [where bs = "[out_buf c @ ms]" and taken = "take n (out_buf c @ ms)"
        and left = "drop n (out_buf c @ ms)"])
    (use assms in \<open>simp_all del: drop_append take_append length_append\<close>)

lemma core_passes_trans:
  assumes "core_passes D c ms c'" "core_passes D c' ns c''"
  shows "core_passes D c (ms @ ns) c''"
proof -
  obtain bs s l where 1: "out_buf c @ ms = concat bs @ out_buf c'"
    "\<forall>b\<in>set bs. b \<noteq> [] \<and> length b \<le> unat (burst_to c)"
    "offer (enq_bulk D) (ring_to c) bs = (ring_to c', s, l)" "freed c' = freed c @ l"
    "drop_count (counter c') = drop_count (counter c) + word_of_nat (length l)" "burst_to c' = burst_to c"
    using assms(1) unfolding core_passes_def by blast
  obtain bs' s' l' where 2: "out_buf c' @ ns = concat bs' @ out_buf c''"
    "\<forall>b\<in>set bs'. b \<noteq> [] \<and> length b \<le> unat (burst_to c')"
    "offer (enq_bulk D) (ring_to c') bs' = (ring_to c'', s', l')" "freed c'' = freed c' @ l'"
    "drop_count (counter c'') = drop_count (counter c') + word_of_nat (length l')" "burst_to c'' = burst_to c'"
    using assms(2) unfolding core_passes_def by blast
  have "out_buf c @ ms @ ns = concat (bs @ bs') @ out_buf c''"
    using 1(1) 2(1) by simp (metis append.assoc)
  then show ?thesis
    by (rule core_passesI [OF _ _ offer_append [OF 1(3) 2(3)]])
      (use 1(2,4-6) 2(2,4-6) in \<open>auto simp: add.assoc\<close>)
qed

lemma SendOrBuffer_passes:
  assumes "ring_laws D items" "core_inv c"
  shows "core_passes D c [m] (SendOrBuffer D m c)"
proof (cases "Suc (length (out_buf c)) < unat (burst_to c)")
  case True
  then show ?thesis by (intro core_passes_buffered) (simp_all add: SendOrBuffer_def)
next
  case False
  note full = core_inv_full [OF assms(2) False]
  obtain r ret where e: "enq_bulk D (ring_to c) (out_buf c @ [m]) = (r, ret)" by fastforce
  have "ret = length (out_buf c @ [m]) \<or> ret = 0" by (rule ring_laws_enq_bulk [OF assms(1) e]) simp_all
  then show ?thesis
  proof
    assume "ret = length (out_buf c @ [m])"
    with False e full(1,3) show ?thesis
      by (intro core_passes_bulk [where n = ret]) (simp_all add: SendOrBuffer_def Let_def)
  next
    assume "ret = 0"
    with False e full(1,3) show ?thesis
      by (intro core_passes_bulk [where n = ret]) (simp_all add: SendOrBuffer_def Let_def flip: full(2))
  qed
qed

lemma BurstFlush_passes:
  assumes "ring_laws D items" "core_inv c"
  shows "core_passes D c [] (BurstFlush D c)"
proof (cases "out_buf c = []")
  case True
  then show ?thesis by (intro core_passes_buffered) (simp_all add: BurstFlush_def)
next
  case False
  obtain r ret where e: "enq_bulk D (ring_to c) (out_buf c) = (r, ret)" by fastforce
  have "ret = length (out_buf c) \<or> ret = 0" by (rule ring_laws_enq_bulk [OF assms(1) e]) simp_all
  with False e assms(2) show ?thesis
    by (intro core_passes_bulk [where n = ret]) (auto simp: BurstFlush_def Let_def core_inv_def)
qed

lemma sends_pass:
  assumes "ring_laws D items" "core_inv c"
  shows "core_inv (foldl (\<lambda>c m. SendOrBuffer D m c) c ms) \<and>
    core_passes D c ms (foldl (\<lambda>c m. SendOrBuffer D m c) c ms)"
proof (induction ms rule: rev_induct)
  case Nil
  show ?case using assms(2) by (simp add: core_passes_buffered)
next
  case (snoc m ms)
  then show ?case
    using SendOrBuffer_inv core_passes_trans [OF _ SendOrBuffer_passes [OF assms(1)]] by auto
qed

text \<open>The same after a flush, with the contents of the ring.\<close>

lemma core_passes_flushed:
  assumes "ring_laws D items" "core_passes D c ms c'" "out_buf c' = []"
  shows "\<exists>bs taken left. out_buf c @ ms = concat bs \<and> (\<forall>b\<in>set bs. b \<noteq> [] \<and> length b \<le> unat (burst_to c)) \<and>
    offer (enq_bulk D) (ring_to c) bs = (ring_to c', taken, left) \<and> concat bs \<in> shuffles taken left \<and>
    items (ring_to c') = items (ring_to c) @ taken \<and> freed c' = freed c @ left \<and>
    drop_count (counter c') = drop_count (counter c) + word_of_nat (length left)"
proof -
  obtain bs s l where 1: "out_buf c @ ms = concat bs" "\<forall>b\<in>set bs. b \<noteq> [] \<and> length b \<le> unat (burst_to c)"
    "offer (enq_bulk D) (ring_to c) bs = (ring_to c', s, l)" "freed c' = freed c @ l"
    "drop_count (counter c') = drop_count (counter c) + word_of_nat (length l)"
    using assms(2,3) unfolding core_passes_def by auto
  with ring_offer [OF assms(1) 1(3)] show ?thesis by blast
qed

section \<open>Workers as clients of the core\<close>

text \<open>The burst taken from the input ring at the start of a cycle.\<close>

definition deq_input :: "'r dpdk \<Rightarrow> ('r, 'z) core_scheme \<Rightarrow> ('r, 'z) core_scheme \<times> mbuf list" where
  "deq_input D c = (case deq_burst D (ring_fm c) (unat (burst_fm c)) of (r, ms) \<Rightarrow> (c\<lparr>ring_fm := r\<rparr>, ms))"

text \<open>All packets a core is responsible for: on its rings, buffered or given back to the pool.\<close>

definition in_system :: "('r \<Rightarrow> mbuf list) \<Rightarrow> ('r, 'z) core_scheme \<Rightarrow> nat" where
  "in_system items c = length (items (ring_fm c)) + size (holdings items c)"

lemma drops_counted_trans:
  assumes "drops_counted a b" "drops_counted b c" shows "drops_counted a c"
  using assms by (auto simp: drops_counted_def intro: drops_counted_more [unfolded drops_counted_def])

lemma drops_counted_same:
  "freed c' = freed c \<Longrightarrow> counter c' = counter c \<Longrightarrow> drops_counted c c'"
  unfolding drops_counted_def by (intro exI [of _ "[]"]) simp

lemma drops_counted_one:
  "freed c' = freed c @ [p] \<Longrightarrow> drop_count (counter c') = drop_count (counter c) + 1 \<Longrightarrow> drops_counted c c'"
  unfolding drops_counted_def by (intro exI [of _ "[p]"]) simp

lemma deq_input_laws:
  assumes "ring_laws D items" "deq_input D c = (c', ms)"
  shows "in_system items c' + length ms = in_system items c" "core_inv c' = core_inv c"
    "drops_counted c c'" "holdings items c' = holdings items c" "length ms \<le> unat (burst_fm c)"
    "\<exists>r. c' = c\<lparr>ring_fm := r\<rparr>"
proof -
  obtain r where r: "deq_burst D (ring_fm c) (unat (burst_fm c)) = (r, ms)" "c' = c\<lparr>ring_fm := r\<rparr>"
    using assms(2) by (auto simp: deq_input_def split: prod.splits)
  show "holdings items c' = holdings items c" by (simp add: r(2) holdings_def)
  then show "in_system items c' + length ms = in_system items c"
    using ring_laws_deq_burst(1) [OF assms(1) r(1)] by (simp add: in_system_def r(2))
  show "core_inv c' = core_inv c" by (simp add: r(2) core_inv_def)
  show "drops_counted c c'" by (rule drops_counted_same) (simp_all add: r(2))
  show "length ms \<le> unat (burst_fm c)" by (rule ring_laws_deq_burst(2) [OF assms(1) r(1)])
  show "\<exists>r. c' = c\<lparr>ring_fm := r\<rparr>" using r(2) by blast
qed

text \<open>
  What becomes of one packet: a worker changes only its own state (\<open>same_core\<close>) and sends one
  packet, or it frees one packet and counts it.
\<close>

definition same_core :: "('r, 'z) core_scheme \<Rightarrow> ('r, 'z) core_scheme \<Rightarrow> bool" where
  "same_core c w \<longleftrightarrow> out_buf w = out_buf c \<and> ring_to w = ring_to c \<and> ring_fm w = ring_fm c \<and>
     burst_to w = burst_to c \<and> freed w = freed c \<and> counter w = counter c"

definition handled :: "'r dpdk \<Rightarrow> ('r, 'z) core_scheme \<Rightarrow> ('r, 'z) core_scheme \<Rightarrow> bool" where
  "handled D c c' \<longleftrightarrow> (\<exists>m' w. c' = SendOrBuffer D m' w \<and> same_core c w) \<or>
     (\<exists>p. out_buf c' = out_buf c \<and> ring_to c' = ring_to c \<and> ring_fm c' = ring_fm c \<and>
        burst_to c' = burst_to c \<and> freed c' = freed c @ [p] \<and>
        drop_count (counter c') = drop_count (counter c) + 1)"

lemma same_core_refl [simp]: "same_core c c"
  by (simp add: same_core_def)

lemma handled_send: "same_core c w \<Longrightarrow> handled D c (SendOrBuffer D m w)"
  by (auto simp: handled_def)

lemma handled_drop: "handled D c (free_all [p] (count_drop n 1 c))"
  by (simp add: handled_def)

lemma handled_laws:
  assumes "handled D c c'" "ring_laws D items" "core_inv c"
  shows "core_inv c'" "size (holdings items c') = Suc (size (holdings items c))"
    "drops_counted c c'" "ring_fm c' = ring_fm c"
proof -
  consider (sent) m w where "c' = SendOrBuffer D m w" "same_core c w"
    | (dropped) p where "out_buf c' = out_buf c" "ring_to c' = ring_to c" "ring_fm c' = ring_fm c"
      "burst_to c' = burst_to c" "freed c' = freed c @ [p]"
      "drop_count (counter c') = drop_count (counter c) + 1"
    using assms(1) by (auto simp: handled_def)
  then have "core_inv c' \<and> size (holdings items c') = Suc (size (holdings items c)) \<and>
    drops_counted c c' \<and> ring_fm c' = ring_fm c"
  proof cases
    case sent
    then have "core_inv w" "holdings items w = holdings items c" "drops_counted c w"
      using assms(3) by (simp_all add: same_core_def core_inv_def holdings_def drops_counted_same)
    with sent assms(2) show ?thesis
      by (simp add: SendOrBuffer_inv SendOrBuffer_holdings SendOrBuffer_drops same_core_def)
  next
    case dropped
    with assms(3) show ?thesis by (simp add: core_inv_def holdings_def drops_counted_one)
  qed
  then show "core_inv c'" "size (holdings items c') = Suc (size (holdings items c))"
    "drops_counted c c'" "ring_fm c' = ring_fm c" by simp_all
qed

text \<open>
  What the cycle of a packet worker relies on: every packet is sent or freed with its count, and
  the worker keeps its own invariant \<open>extra\<close>, which does not depend on the input ring. A worker is
  an interpretation; the facts on its whole burst are proved here, once.
\<close>

locale packet_worker =
  fixes D :: "'r dpdk"
    and handle :: "('r, 'z) core_scheme \<Rightarrow> mbuf \<Rightarrow> ('r, 'z) core_scheme"
    and extra :: "('r, 'z) core_scheme \<Rightarrow> bool"
  assumes handle_handled: "extra c \<Longrightarrow> handled D c (handle c m)"
    and handle_extra: "extra c \<Longrightarrow> extra (handle c m)"
    and extra_ring_fm: "extra (c\<lparr>ring_fm := r\<rparr>) = extra c"
begin

lemma burst_conserves:
  assumes "ring_laws D items" "core_inv c" "extra c"
  shows "core_inv (burst_loop handle ms c) \<and> extra (burst_loop handle ms c) \<and>
    in_system items (burst_loop handle ms c) = in_system items c + length ms \<and>
    drops_counted c (burst_loop handle ms c)"
  unfolding burst_loop_foldl
proof (induction ms rule: rev_induct)
  case Nil
  from assms show ?case by simp
next
  case (snoc m ms)
  let ?c = "foldl handle c ms"
  have i: "core_inv ?c" "extra ?c" using snoc.IH by simp_all
  note step = handled_laws [OF handle_handled [OF i(2)] assms(1) i(1), of m] handle_extra [OF i(2), of m]
  with snoc.IH show ?case
    by (auto simp: in_system_def intro: drops_counted_trans)
qed

lemma cycle_conserves:
  assumes "ring_laws D items" "core_inv c" "extra c" "deq_input D c = (c', ms)"
  shows "core_inv (burst_loop handle ms c') \<and> extra (burst_loop handle ms c') \<and>
    in_system items (burst_loop handle ms c') = in_system items c \<and>
    drops_counted c (burst_loop handle ms c')"
proof -
  note d = deq_input_laws [OF assms(1,4)]
  then have "core_inv c'" "extra c'" using assms(2,3) extra_ring_fm by auto
  from burst_conserves [OF assms(1) this] d(1,3) show ?thesis
    by (auto intro: drops_counted_trans)
qed

end

lemma BurstFlush_conserves:
  assumes "ring_laws D items" "core_inv c" "drops_counted c0 c"
  shows "core_inv (BurstFlush D c) \<and> in_system items (BurstFlush D c) = in_system items c \<and>
    drops_counted c0 (BurstFlush D c)"
  using BurstFlush_drops [OF assms(1,3)]
  by (simp add: in_system_def BurstFlush_inv BurstFlush_holdings [OF assms(1)] assms(2))

section \<open>Properties\<close>

text \<open>The prefetching burst loop of the workers (one loop up to three packets before the end of the
  burst, one for the rest) handles every packet of the burst exactly once and in order, whatever
  the size of the burst.\<close>

theorem burst_loop_is_fold: "burst_loop f input s = foldl f s input"
  by (rule burst_loop_foldl)

text \<open>C5: No packet handed to a core is lost, reordered or counted wrongly: over any sequence of sends
  followed by a flush, the burst buffer stays below the burst size and is empty at the end. The packets
  that were buffered and the ones sent, in that order, were cut into bulks of at most the burst size, and
  the bulks were offered to the output ring one after the other: what the ring took is behind what it held,
  in order, what it left is freed, in order, and nothing else is freed. The drop counter grows by exactly the
  number of packets freed.\<close>

theorem send_and_flush_account_for_every_packet:
  assumes "ring_laws D items" and "core_inv c"
  shows "let c' = foldl (\<lambda>c m. SendOrBuffer D m c) c ms; c'' = BurstFlush D c' in
     core_inv c' \<and> core_inv c'' \<and> out_buf c'' = [] \<and>
     (\<exists>bs taken left. out_buf c @ ms = concat bs \<and> (\<forall>b\<in>set bs. b \<noteq> [] \<and> length b \<le> unat (burst_to c)) \<and>
        offer (enq_bulk D) (ring_to c) bs = (ring_to c'', taken, left) \<and> concat bs \<in> shuffles taken left \<and>
        items (ring_to c'') = items (ring_to c) @ taken \<and> freed c'' = freed c @ left \<and>
        drop_count (counter c'') = drop_count (counter c) + word_of_nat (length left))"
proof -
  note s = sends_pass [OF assms, of ms]
  let ?c' = "foldl (\<lambda>c m. SendOrBuffer D m c) c ms"
  have "core_passes D c ms (BurstFlush D ?c')"
    using core_passes_trans [OF _ BurstFlush_passes [OF assms(1)]] s by fastforce
  from core_passes_flushed [OF assms(1) this] show ?thesis
    using s BurstFlush_inv [of ?c' D] unfolding Let_def by simp
qed

definition demo_core :: "nat \<Rightarrow> mbuf list core" where
  "demo_core b = \<lparr>port = 0, queue = 0, lcore = 1, socket = 0, cnt_rx = 0, cnt_tx = 0, cnt_wk = 0,
     cnt_pgw_in = 0, cnt_pgw_eg = 0, burst_fm = 4, burst_to = word_of_nat b, ring_fm = [],
     ring_to = [], out_buf = [], flush_delay = 0, counter = zero_counter, freed = []\<rparr>"

theorem send_and_flush_account_for_every_packet_witness:
  "core_inv (demo_core 2) \<and>
   (\<exists>bs left. [demo_mbuf 60 [], demo_mbuf 61 [], demo_mbuf 62 []] = concat bs \<and>
     offer (enq_bulk (ref_dpdk 1)) [] bs =
       (ring_to (BurstFlush (ref_dpdk 1) (foldl (\<lambda>c m. SendOrBuffer (ref_dpdk 1) m c) (demo_core 2)
         [demo_mbuf 60 [], demo_mbuf 61 [], demo_mbuf 62 []])), [demo_mbuf 62 []], left) \<and>
     left = [demo_mbuf 60 [], demo_mbuf 61 []])"
proof -
  let ?ms = "[demo_mbuf 60 [], demo_mbuf 61 [], demo_mbuf 62 []]"
  let ?c = "BurstFlush (ref_dpdk 1) (foldl (\<lambda>c m. SendOrBuffer (ref_dpdk 1) m c) (demo_core 2) ?ms)"
  have i: "core_inv (demo_core 2)" by (simp add: core_inv_def demo_core_def)
  have d: "ring_to (demo_core 2) = []" "out_buf (demo_core 2) = []" "freed (demo_core 2) = []"
    by (simp_all add: demo_core_def)
  have r: "ring_to ?c = [demo_mbuf 62 []]" "freed ?c = [demo_mbuf 60 [], demo_mbuf 61 []]"
    by (simp_all add: demo_core_def SendOrBuffer_def BurstFlush_def ref_dpdk_def free_all_def count_drop_def Let_def)
  show ?thesis
    using send_and_flush_account_for_every_packet [OF ref_dpdk_ring_laws i, of 1 ?ms] i d r
    unfolding Let_def by auto
qed

end
