(* ===== verification/Encap_Worker.thy ===== *)
theory Encap_Worker
  imports Packet_Def Ip_Checksum Core_Interface
begin

text \<open>
  The encapsulating worker, \<open>CoreEncapWorker\<close> of
  \<open>dataplane/src/core/core_encap_worker.cc\<close>: user packets from the network are wrapped into
  IPv4/UDP/GTP-U towards the PGW, control packets pass through, tagged packets are dropped. The
  worker owns three header templates, kept as octet stores, which it updates for every packet and
  copies in front of it.
\<close>

section \<open>State\<close>

record 'r encap_core = "'r core" +
  srcipv4 :: "32 word"
  gtpuh :: mem
  udph :: mem
  iph :: mem

abbreviation PGWEGRESSPORT :: "16 word" where "PGWEGRESSPORT \<equiv> 50999"

text \<open>The templates set up by the constructor; all other octets are zero.\<close>

definition gtpuh_init :: mem where
  "gtpuh_init = (\<lambda>_. 0)(0 := 0x30, 1 := GTPU_G_PDU)"

definition udph_init :: "16 word \<Rightarrow> mem" where
  "udph_init prt = st16 (st16 (\<lambda>_. 0) 0 (bswap16 prt)) 2 (bswap16 prt)"

definition iph_init :: "32 word \<Rightarrow> mem" where
  "iph_init src = st32 (st16 ((\<lambda>_. 0)(0 := 0x45, 8 := 64, 9 := IPPROTO_UDP)) 4 1) 12 (bswap32 src)"

definition encap_new :: "32 word \<Rightarrow> 'r core \<Rightarrow> 'r encap_core" where
  "encap_new src c = core.extend c
     \<lparr>srcipv4 = src, gtpuh = gtpuh_init, udph = udph_init PGWEGRESSPORT, iph = iph_init src\<rparr>"

definition encap_GetN :: "key \<Rightarrow> 'r encap_core \<Rightarrow> 32 word" where
  "encap_GetN k w = (if k = OPT then srcipv4 w else GetN k w)"

section \<open>Operations\<close>

abbreviation encap_len :: nat where "encap_len \<equiv> sz_ipv4 + sz_udp + sz_gtpu"

text \<open>Lengths, checksum and copies: the tail of \<open>ModifyPacket\<close>, with the templates to use.\<close>

definition encap_headers :: "'r dpdk \<Rightarrow> mem \<Rightarrow> mem \<Rightarrow> mem \<Rightarrow> mbuf \<Rightarrow> mem \<times> mem \<times> mem \<times> mbuf" where
  "encap_headers D ip udp gtp m =
     (let n = mb_len m;
          ip = st16 ip 2 (bswap16 (word_of_nat (n - sz_ether)));
          ip = set_ip_checksum ip 0 20;
          udp = st16 udp 6 0;
          udp = st16 udp 4 (bswap16 (word_of_nat (n - sz_ether - sz_ipv4)));
          gtp = st16 gtp 2 (bswap16 (word_of_nat (n - sz_ether - sz_ipv4 - sz_udp - 8)));
          m = stbytes sz_ether (rd_bytes ip 0 20) m;
          m = stbytes (sz_ether + sz_ipv4) (rd_bytes udp 0 8) m;
          m = stbytes (sz_ether + sz_ipv4 + sz_udp) (rd_bytes gtp 0 8) m
      in (ip, udp, gtp, m\<lparr>mb_ptype := L3_IPV4 D OR L4_UDP D\<rparr>))"

text \<open>The Ethernet header is copied to the new start of the packet.\<close>

definition move_eth :: "nat \<Rightarrow> mbuf \<Rightarrow> mbuf" where
  "move_eth n m = m\<lparr>mb_mem := copy_bytes (mb_mem m) (mtod m 0) (mtod m n) sz_ether\<rparr>"

text \<open>
  The outer destination: the inner IPv4 destination, or for IPv6 the four octets from octet 4 of
  the inner destination with the first one replaced by 10, and then the packet becomes IPv4.
\<close>

definition encap_outer :: "'r dpdk \<Rightarrow> mbuf \<Rightarrow> (32 word \<times> mbuf) option" where
  "encap_outer D p =
     (if is_ipv4_hdr D (mb_ptype p) then Some (ldw p (sz_ether + encap_len + 16), p)
      else if is_ipv6_hdr D (mb_ptype p) then
        Some (ldw p (sz_ether + encap_len + 24 + 4) AND 0xFFFFFF00 OR 0x0A,
              sth 12 (bswap16 ETHER_TYPE_IPv4) p)
      else None)"

text \<open>
  \<open>ModifyPacket\<close>: the second component is the packet to send (return 0) or \<open>None\<close> when the
  packet was dropped (return 1).
\<close>

definition encap_ModifyPacket :: "'r dpdk \<Rightarrow> 'r encap_core \<Rightarrow> mbuf \<Rightarrow> 'r encap_core \<times> mbuf option" where
  "encap_ModifyPacket D w m =
     (case prepend D m encap_len of
        None \<Rightarrow> (free_all [m] (count_drop 0 1 w), None)
      | Some p0 \<Rightarrow>
         (case encap_outer D (move_eth encap_len p0) of
            None \<Rightarrow> (free_all [move_eth encap_len p0] (count_drop (word_of_nat (mb_len p0)) 1 w), None)
          | Some (dst, p) \<Rightarrow>
             (case encap_headers D (st32 (iph w) 16 dst) (udph w) (gtpuh w) p of
                (ip, udp, gtp, p') \<Rightarrow> (w\<lparr>iph := ip, udph := udp, gtpuh := gtp\<rparr>, Some p'))))"

definition encap_handle :: "'r dpdk \<Rightarrow> 'r encap_core \<Rightarrow> mbuf \<Rightarrow> 'r encap_core" where
  "encap_handle D w m =
     (let opr = is_arp_or_innericmp D m in
      if opr = PASS then SendOrBuffer D m w
      else if opr = VLAN then free_all [m] (count_drop (word_of_nat (mb_len m)) 1 w)
      else case encap_ModifyPacket D w m of
          (w', Some m') \<Rightarrow> SendOrBuffer D m' w'
        | (w', None) \<Rightarrow> w')"

text \<open>One cycle: a burst from the input ring, then a flush every \<open>flush_delay_\<close> cycles.\<close>

definition encap_Cycle :: "'r dpdk \<Rightarrow> 'r encap_core \<Rightarrow> 64 word \<Rightarrow> 'r encap_core \<times> 64 word" where
  "encap_Cycle D w cnt =
     (let (w, input) = deq_input D w;
          w = (if input = [] then w else burst_loop (encap_handle D) input w)
      in if flush_delay w \<noteq> 0 \<and> cnt = flush_delay w then (BurstFlush D w, 0) else (w, cnt))"

section \<open>The templates\<close>

text \<open>What the constructor sets and no packet changes.\<close>

definition encap_tmpl :: "'r encap_core \<Rightarrow> bool" where
  "encap_tmpl w \<longleftrightarrow>
     iph w 0 = 0x45 \<and> iph w 9 = IPPROTO_UDP \<and> ld32 (iph w) 12 = bswap32 (srcipv4 w) \<and>
     ld16 (udph w) 0 = bswap16 PGWEGRESSPORT \<and> ld16 (udph w) 2 = bswap16 PGWEGRESSPORT \<and>
     gtpuh w 0 = 0x30 \<and> gtpuh w 1 = GTPU_G_PDU"

lemma encap_new_tmpl: "encap_tmpl (encap_new src c)"
  by (simp add: encap_tmpl_def encap_new_def core.defs gtpuh_init_def udph_init_def iph_init_def
      mem_defs)

lemma encap_headers_tmpl:
  assumes "encap_headers D ip udp gtp m = (ip', udp', gtp', m')"
  shows "ip' 0 = ip 0" "ip' 9 = ip 9" "ld32 ip' 12 = ld32 ip 12" "ld32 ip' 16 = ld32 ip 16"
    "ld16 udp' 0 = ld16 udp 0" "ld16 udp' 2 = ld16 udp 2" "gtp' 0 = gtp 0" "gtp' (Suc 0) = gtp (Suc 0)"
  using assms by (auto simp: encap_headers_def Let_def mem_defs)

lemma encap_ModifyPacket_tmpl:
  assumes "encap_tmpl w" and "encap_ModifyPacket D w m = (w', r)"
  shows "encap_tmpl w'"
proof -
  have st: "st32 ip 16 d 0 = ip 0" "st32 ip 16 d 9 = ip 9" "ld32 (st32 ip 16 d) 12 = ld32 ip 12"
    for ip d by (simp_all add: mem_defs)
  from assms show ?thesis
    by (auto simp: encap_ModifyPacket_def encap_tmpl_def free_all_def count_drop_def
        encap_headers_tmpl st split: option.splits prod.splits)
qed

section \<open>The encapsulated packet\<close>

lemma encap_headers_packet:
  assumes "encap_headers D ip udp gtp m = (ip', udp', gtp', m')"
  shows "mb_off m' = mb_off m" "mb_len m' = mb_len m" "mb_ptype m' = L3_IPV4 D OR L4_UDP D"
    "x < mb_off m + 14 \<or> mb_off m + 50 \<le> x \<Longrightarrow> mb_mem m' x = mb_mem m x"
    "i < 20 \<Longrightarrow> mb_mem m' (mb_off m + 14 + i) = ip' i"
    "i < 8 \<Longrightarrow> mb_mem m' (mb_off m + 34 + i) = udp' i"
    "i < 8 \<Longrightarrow> mb_mem m' (mb_off m + 42 + i) = gtp' i"
    "ip_checksum_ok ip' 0 20"
    "ld16 ip' 2 = bswap16 (word_of_nat (mb_len m - 14))"
    "ld16 udp' 4 = bswap16 (word_of_nat (mb_len m - 34))"
    "ld16 gtp' 2 = bswap16 (word_of_nat (mb_len m - 50))"
proof -
  have ip': "ip' = set_ip_checksum (st16 ip 2 (bswap16 (word_of_nat (mb_len m - sz_ether)))) 0 20"
    and udp': "udp' = st16 (st16 udp 6 0) 4 (bswap16 (word_of_nat (mb_len m - sz_ether - sz_ipv4)))"
    and gtp': "gtp' = st16 gtp 2 (bswap16 (word_of_nat (mb_len m - sz_ether - sz_ipv4 - sz_udp - 8)))"
    using assms by (simp_all add: encap_headers_def Let_def)
  have m': "m' = (stbytes (sz_ether + sz_ipv4 + sz_udp) (rd_bytes gtp' 0 8)
        (stbytes (sz_ether + sz_ipv4) (rd_bytes udp' 0 8)
          (stbytes sz_ether (rd_bytes ip' 0 20) m)))\<lparr>mb_ptype := L3_IPV4 D OR L4_UDP D\<rparr>"
    using assms unfolding ip' udp' gtp' by (simp add: encap_headers_def Let_def)
  show "mb_off m' = mb_off m" "mb_len m' = mb_len m" "mb_ptype m' = L3_IPV4 D OR L4_UDP D"
    by (simp_all add: m')
  show "x < mb_off m + 14 \<or> mb_off m + 50 \<le> x \<Longrightarrow> mb_mem m' x = mb_mem m x"
    "i < 20 \<Longrightarrow> mb_mem m' (mb_off m + 14 + i) = ip' i"
    "i < 8 \<Longrightarrow> mb_mem m' (mb_off m + 34 + i) = udp' i"
    "i < 8 \<Longrightarrow> mb_mem m' (mb_off m + 42 + i) = gtp' i"
    by (auto simp: m' pkt_defs wr_bytes_def)
  show "ip_checksum_ok ip' 0 20"
    unfolding ip' by (rule set_ip_checksum_ok [of _ 10]) simp_all
  show "ld16 ip' 2 = bswap16 (word_of_nat (mb_len m - 14))"
    "ld16 udp' 4 = bswap16 (word_of_nat (mb_len m - 34))"
    "ld16 gtp' 2 = bswap16 (word_of_nat (mb_len m - 50))"
    unfolding ip' udp' gtp' by (simp_all add: mem_defs)
qed

section \<open>The worker as a client of the core\<close>

lemma encap_ModifyPacket_core:
  assumes "encap_ModifyPacket D w m = (w', r)"
  shows "case r of Some _ \<Rightarrow> same_core w w' | None \<Rightarrow> handled D w w'"
  using assms
  by (auto simp: encap_ModifyPacket_def handled_drop same_core_def split: option.splits prod.splits)

lemma encap_tmpl_frame:
  "encap_tmpl (SendOrBuffer D m w) = encap_tmpl w" "encap_tmpl (w\<lparr>ring_fm := r\<rparr>) = encap_tmpl w"
  "encap_tmpl (free_all ms w) = encap_tmpl w" "encap_tmpl (count_drop a b w) = encap_tmpl w"
  by (simp_all add: encap_tmpl_def SendOrBuffer_def count_drop_def free_all_def Let_def split: prod.splits)

lemma encap_handle_handled: "handled D w (encap_handle D w m)"
  using encap_ModifyPacket_core [of D w m]
  by (auto simp: encap_handle_def Let_def handled_send handled_drop split: prod.splits option.splits)

lemma encap_handle_tmpl: "encap_tmpl w \<Longrightarrow> encap_tmpl (encap_handle D w m)"
  using encap_ModifyPacket_tmpl [of w D m]
  by (auto simp: encap_handle_def Let_def encap_tmpl_frame split: prod.splits option.splits)

interpretation encap: packet_worker D "encap_handle D" encap_tmpl for D
  by unfold_locales (simp_all add: encap_handle_handled encap_handle_tmpl encap_tmpl_frame)

section \<open>The whole transformation\<close>

text \<open>The outer destination of a packet that has not been encapsulated yet.\<close>

definition outer_dst :: "'r dpdk \<Rightarrow> mbuf \<Rightarrow> 32 word" where
  "outer_dst D m = (if is_ipv4_hdr D (mb_ptype m) then ldw m 30
     else ldw m 42 AND 0xFFFFFF00 OR 0x0A)"

definition encap_ether_type :: "'r dpdk \<Rightarrow> mbuf \<Rightarrow> 16 word" where
  "encap_ether_type D m = (if is_ipv4_hdr D (mb_ptype m) then ldh m 12 else bswap16 ETHER_TYPE_IPv4)"

lemma encap_outer_packet:
  assumes "mbuf_laws D" "36 \<le> mb_off m" "is_ipv4_hdr D (mb_ptype m) \<or> is_ipv6_hdr D (mb_ptype m)"
  obtains p0 p where "prepend D m 36 = Some p0" "encap_outer D (move_eth 36 p0) = Some (outer_dst D m, p)"
    "mb_off p = mb_off m - 36" "mb_len p = mb_len m + 36"
    "\<And>x. mb_off m \<le> x \<Longrightarrow> mb_mem p x = mb_mem m x"
    "\<And>i. i < 12 \<Longrightarrow> ldb p i = ldb m i" "ldh p 12 = encap_ether_type D m"
proof -
  define p0 where "p0 = m\<lparr>mb_off := mb_off m - 36, mb_len := mb_len m + 36\<rparr>"
  define p where "p = (if is_ipv4_hdr D (mb_ptype m) then move_eth 36 p0
    else sth 12 (bswap16 ETHER_TYPE_IPv4) (move_eth 36 p0))"
  have add: "mb_off m - 36 + (36 + k) = mb_off m + k" for k using assms(2) by simp
  have above: "mb_mem (move_eth 36 p0) x = mb_mem m x" if "mb_off m \<le> x" for x
    using that assms(2) by (auto simp: p0_def move_eth_def mtod_def intro!: copy_bytes_out)
  have eth: "mb_mem (move_eth 36 p0) (mb_off m - 36 + i) = mb_mem m (mb_off m + i)" if "i < 14" for i
    using that assms(2) by (simp add: p0_def move_eth_def mtod_def copy_bytes_in)
  show thesis
  proof (rule that [of p0 p])
    show "prepend D m 36 = Some p0"
      using assms(1,2) by (simp add: mbuf_lawsD p0_def)
    have [simp]: "mb_off (move_eth 36 p0) = mb_off m - 36" "mb_ptype (move_eth 36 p0) = mb_ptype m"
      "mb_len (move_eth 36 p0) = mb_len m + 36" "mb_udat (move_eth 36 p0) = mb_udat m"
      by (simp_all add: move_eth_def p0_def)
    have "ldw (move_eth 36 p0) 66 = ldw m 30" "ldw (move_eth 36 p0) 78 = ldw m 42"
      using add [of 30] add [of 42] by (simp_all add: ldw_def ld32_def mtod_def above add.commute)
    then show "encap_outer D (move_eth 36 p0) = Some (outer_dst D m, p)"
      using assms(3) by (auto simp: encap_outer_def outer_dst_def p_def)
    show "mb_off p = mb_off m - 36" "mb_len p = mb_len m + 36"
      by (simp_all add: p_def)
    show "mb_mem p x = mb_mem m x" if "mb_off m \<le> x" for x
      using that assms(2) by (auto simp: p_def above sth_def mtod_def st16_def)
    show "ldb p i = ldb m i" if "i < 12" for i
      using that eth [of i] by (auto simp: p_def ldb_def mtod_def sth_def st16_def)
    show "ldh p 12 = encap_ether_type D m"
      using eth [of 12] eth [of 13]
      by (cases "is_ipv4_hdr D (mb_ptype m)")
        (simp_all add: p_def encap_ether_type_def ldh_ldb ldb_def mtod_def,
         simp add: sth_def mtod_def st16_def)
  qed
qed

lemma encap_result:
  assumes "mbuf_laws D" "encap_tmpl w" "36 \<le> mb_off m"
    "is_ipv4_hdr D (mb_ptype m) \<or> is_ipv6_hdr D (mb_ptype m)"
  obtains w' m' where "encap_ModifyPacket D w m = (w', Some m')"
    "mb_off m' = mb_off m - 36" "mb_len m' = mb_len m + 36" "mb_ptype m' = L3_IPV4 D OR L4_UDP D"
    "\<And>i. i < 12 \<Longrightarrow> ldb m' i = ldb m i" "ldh m' 12 = encap_ether_type D m"
    "\<And>i. 14 \<le> i \<Longrightarrow> ldb m' (36 + i) = ldb m i"
    "ldb m' 14 = 0x45" "ldb m' 23 = IPPROTO_UDP" "ldw m' 26 = bswap32 (srcipv4 w)"
    "ldw m' 30 = outer_dst D m" "ip_checksum_ok (mb_mem m') (mtod m' 14) 20"
    "ldh m' 34 = bswap16 PGWEGRESSPORT" "ldh m' 36 = bswap16 PGWEGRESSPORT"
    "ldb m' 42 = 0x30" "ldb m' 43 = GTPU_G_PDU"
    "ldh m' 16 = bswap16 (word_of_nat (mb_len m + 22))"
    "ldh m' 38 = bswap16 (word_of_nat (mb_len m + 2))"
    "ldh m' 44 = bswap16 (word_of_nat (mb_len m - 14))"
proof -
  obtain p0 p where p: "prepend D m 36 = Some p0"
    "encap_outer D (move_eth 36 p0) = Some (outer_dst D m, p)"
    "mb_off p = mb_off m - 36" "mb_len p = mb_len m + 36"
    "\<And>x. mb_off m \<le> x \<Longrightarrow> mb_mem p x = mb_mem m x"
    "\<And>i. i < 12 \<Longrightarrow> ldb p i = ldb m i" "ldh p 12 = encap_ether_type D m"
    by (rule encap_outer_packet [OF assms(1,3,4)]) blast
  obtain ip udp gtp m' where h:
    "encap_headers D (st32 (iph w) 16 (outer_dst D m)) (udph w) (gtpuh w) p = (ip, udp, gtp, m')"
    by (cases "encap_headers D (st32 (iph w) 16 (outer_dst D m)) (udph w) (gtpuh w) p")
  note pk = encap_headers_packet [OF h]
  note tm = encap_headers_tmpl [OF h]
  have st: "st32 ip 16 d 0 = ip 0" "st32 ip 16 d 9 = ip 9" "ld32 (st32 ip 16 d) 12 = ld32 ip 12"
    for ip d by (simp_all add: mem_defs)
  have off: "mb_off m' = mb_off m - 36" by (simp add: pk p)
  have ipb: "ldb m' (14 + i) = ip i" if "i < 20" for i
    using pk(5) [OF that] by (simp add: ldb_def mtod_def pk(1) add.assoc)
  have udpb: "ldb m' (34 + i) = udp i" if "i < 8" for i
    using pk(6) [OF that] by (simp add: ldb_def mtod_def pk(1) add.assoc)
  have gtpb: "ldb m' (42 + i) = gtp i" if "i < 8" for i
    using pk(7) [OF that] by (simp add: ldb_def mtod_def pk(1) add.assoc)
  have rest: "ldb m' i = ldb p i" if "i < 14 \<or> 50 \<le> i" for i
    using that by (simp add: ldb_def mtod_def pk(1,4))
  have fld: "ldw m' 26 = ld32 ip 12" "ldw m' 30 = ld32 ip 16" "ldh m' 16 = ld16 ip 2"
    "ldh m' 34 = ld16 udp 0" "ldh m' 36 = ld16 udp 2" "ldh m' 38 = ld16 udp 4" "ldh m' 44 = ld16 gtp 2"
    using ipb [of 12] ipb [of 13] ipb [of 14] ipb [of 15] ipb [of 16] ipb [of 17] ipb [of 18]
      ipb [of 19] ipb [of 2] ipb [of 3] udpb [of 0] udpb [of 1] udpb [of 2] udpb [of 3] udpb [of 4]
      udpb [of 5] gtpb [of 2] gtpb [of 3]
    by (simp_all add: ldh_ldb ldw_ldb ld16_def ld32_def)
  show thesis
  proof (rule that [of "w\<lparr>iph := ip, udph := udp, gtpuh := gtp\<rparr>" m'])
    show "encap_ModifyPacket D w m = (w\<lparr>iph := ip, udph := udp, gtpuh := gtp\<rparr>, Some m')"
      by (simp add: encap_ModifyPacket_def p(1,2) h)
    show "mb_off m' = mb_off m - 36" "mb_len m' = mb_len m + 36" "mb_ptype m' = L3_IPV4 D OR L4_UDP D"
      by (simp_all add: pk p)
    show "ldb m' i = ldb m i" if "i < 12" for i using that by (simp add: rest p)
    show "ldh m' 12 = encap_ether_type D m" using p(7) by (simp add: ldh_ldb rest)
    show "ldb m' (36 + i) = ldb m i" if "14 \<le> i" for i
      using that assms(3) p(5) [of "mb_off m + i"] rest [of "36 + i"] by (simp add: ldb_def mtod_def p(3))
  next
    show "ip_checksum_ok (mb_mem m') (mtod m' 14) 20"
      using pk(8) ip_checksum_ok_cong [of 20 10 ip 0 "mb_mem m'" "mtod m' 14"]
      by (simp add: pk(5) mtod_def pk(1))
  qed (use assms(2) ipb [of 0] ipb [of 9] gtpb [of 0] gtpb [of 1] fld tm pk(9-11)
      in \<open>simp_all add: encap_tmpl_def st p\<close>)
qed

section \<open>Properties\<close>

text \<open>C30: Encapsulation is correct: a user packet with 36 octets of headroom, IPv4 or IPv6, becomes the
  same payload behind an IPv4/UDP/GTP-U header. The MAC addresses and every octet after the
  Ethernet header are kept; the outer IPv4 header has the worker's source, the destination chosen
  from the inner packet, a checksum that verifies and the right total length; the UDP ports are
  the PGW port; the UDP and GTP-U lengths match; the GTP-U header is a version 1 G-PDU.\<close>

theorem encap_builds_gtpu_packet:
  assumes "mbuf_laws D" "encap_tmpl w" "36 \<le> mb_off m" "14 \<le> mb_len m" "mb_len m + 22 < 65536"
    "is_ipv4_hdr D (mb_ptype m) \<or> is_ipv6_hdr D (mb_ptype m)"
  shows "\<exists>w' m'. encap_ModifyPacket D w m = (w', Some m') \<and> encap_tmpl w' \<and> srcipv4 w' = srcipv4 w \<and>
    mb_len m' = mb_len m + 36 \<and> pkt_slice m' 0 12 = pkt_slice m 0 12 \<and>
    pkt_slice m' 50 (mb_len m - 14) = pkt_slice m 14 (mb_len m - 14) \<and>
    ldh m' 12 = encap_ether_type D m \<and>
    ldb m' 14 = 0x45 \<and> ldb m' 23 = IPPROTO_UDP \<and> ldw m' 26 = bswap32 (srcipv4 w) \<and>
    ldw m' 30 = outer_dst D m \<and> ip_checksum_ok (mb_mem m') (mtod m' 14) 20 \<and>
    ldh m' 34 = bswap16 PGWEGRESSPORT \<and> ldh m' 36 = bswap16 PGWEGRESSPORT \<and>
    ldb m' 42 = 0x30 \<and> ldb m' 43 = GTPU_G_PDU \<and>
    unat (bswap16 (ldh m' 16)) = mb_len m' - 14 \<and> unat (bswap16 (ldh m' 38)) = mb_len m' - 34 \<and>
    unat (bswap16 (ldh m' 44)) = mb_len m' - 50"
proof -
  obtain w' m' where r: "encap_ModifyPacket D w m = (w', Some m')"
    "mb_off m' = mb_off m - 36" "mb_len m' = mb_len m + 36" "mb_ptype m' = L3_IPV4 D OR L4_UDP D"
    "\<And>i. i < 12 \<Longrightarrow> ldb m' i = ldb m i" "ldh m' 12 = encap_ether_type D m"
    "\<And>i. 14 \<le> i \<Longrightarrow> ldb m' (36 + i) = ldb m i"
    "ldb m' 14 = 0x45" "ldb m' 23 = IPPROTO_UDP" "ldw m' 26 = bswap32 (srcipv4 w)"
    "ldw m' 30 = outer_dst D m" "ip_checksum_ok (mb_mem m') (mtod m' 14) 20"
    "ldh m' 34 = bswap16 PGWEGRESSPORT" "ldh m' 36 = bswap16 PGWEGRESSPORT"
    "ldb m' 42 = 0x30" "ldb m' 43 = GTPU_G_PDU"
    "ldh m' 16 = bswap16 (word_of_nat (mb_len m + 22))"
    "ldh m' 38 = bswap16 (word_of_nat (mb_len m + 2))"
    "ldh m' 44 = bswap16 (word_of_nat (mb_len m - 14))"
    by (rule encap_result [OF assms(1,2,3,6)], rule that)
  have u: "unat (word_of_nat n :: 16 word) = n" if "n < 65536" for n
    using that by (subst unat_of_nat) simp
  have "pkt_slice m' 50 (mb_len m - 14) = pkt_slice m 14 (mb_len m - 14)"
  proof (rule pkt_slice_cong)
    show "ldb m' (50 + i) = ldb m (14 + i)" for i using r(7) [of "14 + i"] by simp
  qed
  moreover have "pkt_slice m' 0 12 = pkt_slice m 0 12" using r(5) by (intro pkt_slice_cong) simp
  moreover have "srcipv4 w' = srcipv4 w"
    using r(1) by (auto simp: encap_ModifyPacket_def free_all_def count_drop_def
        split: option.splits prod.splits)
  moreover have "unat (bswap16 (ldh m' 16)) = mb_len m' - 14"
    "unat (bswap16 (ldh m' 38)) = mb_len m' - 34" "unat (bswap16 (ldh m' 44)) = mb_len m' - 50"
    unfolding r(17-19) bswap16_bswap16 using assms(4,5) r(3) by (simp_all only: u)
  ultimately show ?thesis
    using r(1,3,6,8-16) encap_ModifyPacket_tmpl [OF assms(2) r(1)]
    by (intro exI [of _ w'] exI [of _ m']) simp
qed

definition demo_encap :: "nat \<Rightarrow> mbuf list encap_core" where
  "demo_encap b = encap_new 0x0A000001 (demo_core b)"

theorem encap_builds_gtpu_packet_witness:
  "\<exists>w' m'. encap_ModifyPacket (ref_dpdk 8) (demo_encap 4) (demo_mbuf 60 []) = (w', Some m') \<and>
     mb_len m' = 96 \<and> unat (bswap16 (ldh m' 16)) = 82"
  using encap_builds_gtpu_packet [of "ref_dpdk 8" "demo_encap 4" "demo_mbuf 60 []"]
  by (auto simp: ref_dpdk_laws demo_encap_def encap_new_tmpl demo_mbuf_def ref_dpdk_sel)

text \<open>A cycle of the encapsulating worker neither loses nor invents a packet: the packets on its rings,
  in its burst buffer and given back to the pool are as many after the cycle as before, the drop
  counter grows by exactly the number of packets freed, the burst buffer stays below the burst
  size and the header templates keep their fixed fields.\<close>

theorem encap_cycle_conserves_packets:
  assumes "ring_laws D items" "core_inv w" "encap_tmpl w"
  shows "let (w', cnt') = encap_Cycle D w cnt in
    core_inv w' \<and> encap_tmpl w' \<and> in_system items w' = in_system items w \<and> drops_counted w w'"
proof -
  obtain w1 ms where d: "deq_input D w = (w1, ms)" by fastforce
  note c = encap.cycle_conserves [OF assms d]
  have e: "(if ms = [] then w1 else burst_loop (encap_handle D) ms w1) = burst_loop (encap_handle D) ms w1"
    by (simp add: burst_loop_foldl)
  have "encap_tmpl (BurstFlush D v) = encap_tmpl v" for v :: "'a encap_core"
    by (simp add: encap_tmpl_def BurstFlush_def count_drop_def free_all_def Let_def split: prod.splits)
  then show ?thesis
    using c BurstFlush_conserves [OF assms(1), of "burst_loop (encap_handle D) ms w1" w]
    by (simp add: encap_Cycle_def d e Let_def)
qed

theorem encap_cycle_conserves_packets_witness:
  "in_system id (fst (encap_Cycle (ref_dpdk 1)
      (demo_encap 2\<lparr>ring_fm := [demo_mbuf 60 [], demo_mbuf 61 [], demo_mbuf 62 []]\<rparr>) 0)) = 3"
proof -
  let ?w = "demo_encap 2\<lparr>ring_fm := [demo_mbuf 60 [], demo_mbuf 61 [], demo_mbuf 62 []]\<rparr>"
  have "core_inv ?w" "encap_tmpl ?w" "in_system id ?w = 3"
    by (simp_all add: demo_encap_def encap_tmpl_frame encap_new_tmpl)
      (simp_all add: encap_new_def core.defs demo_core_def core_inv_def in_system_def holdings_def)
  then show ?thesis
    using encap_cycle_conserves_packets [OF ref_dpdk_ring_laws, of ?w 1 0] by (auto split: prod.splits)
qed

end
