(* ===== verification/Rx_Cores.thy ===== *)
theory Rx_Cores
  imports Packet_Def Encap_Worker "HOL-Library.Sublist"
begin

text \<open>
  The receiving cores: \<open>CoreRx\<close> (\<open>dataplane/src/core/core_rx.cc\<close>), which spreads packets
  over the workers by one octet of an address, and \<open>CoreRxDistributor\<close>
  (\<open>dataplane/src/core/core_rx_distributor.cc\<close>), which classifies them. Both keep one burst buffer
  per worker. The burst that \<open>rte_eth_rx_burst\<close> returns is an argument of the cycle.

  The locale \<open>fan_out\<close> states what both rely on: a packet is given to exactly one worker. Its facts on
  a whole burst (nothing lost, each worker's packets in order) are used by both cores.
\<close>

section \<open>State\<close>

record 'r rx_core = "'r core" +
  ring_rx :: "'r list"
  output_rx :: "nat \<Rightarrow> mbuf list"

record 'r core_rx = "'r rx_core" +
  rx_type :: "32 word"

record 'r core_rxd = "'r rx_core" +
  ring_tap_tx :: 'r

definition rx_new :: "32 word \<Rightarrow> 'r core \<Rightarrow> 'r core_rx" where
  "rx_new ty c = rx_core.extend (core.extend c \<lparr>ring_rx = [], output_rx = (\<lambda>_. [])\<rparr>) \<lparr>rx_type = ty\<rparr>"

definition rxd_new :: "'r \<Rightarrow> 'r core \<Rightarrow> 'r core_rxd" where
  "rxd_new null c = rx_core.extend (core.extend c \<lparr>ring_rx = [], output_rx = (\<lambda>_. [])\<rparr>) \<lparr>ring_tap_tx = null\<rparr>"

text \<open>\<open>SetRingAddr\<close>: \<open>None\<close> is \<open>rte_exit\<close>.\<close>

definition rx_SetRingAddr :: "order \<Rightarrow> 'r \<Rightarrow> 'r core_rx \<Rightarrow> 'r core_rx option" where
  "rx_SetRingAddr d r w =
     (if d = TO then
        let w = w\<lparr>ring_rx := ring_rx w @ [r]\<rparr> in Some (SetN CNT_WORKER (word_of_nat (length (ring_rx w))) w)
      else None)"

definition rxd_SetRingAddr :: "order \<Rightarrow> 'r \<Rightarrow> 'r core_rxd \<Rightarrow> 'r core_rxd option" where
  "rxd_SetRingAddr d r w =
     (if d = TO then
        let w = w\<lparr>ring_rx := ring_rx w @ [r]\<rparr> in Some (SetN CNT_WORKER (word_of_nat (length (ring_rx w))) w)
      else if d = EXTEND then
        let w = w\<lparr>ring_tap_tx := r\<rparr> in Some (SetN CNT_WORKER (word_of_nat (length (ring_rx w))) w)
      else None)"

definition rxd_BeforeCycle :: "'r core_rxd \<Rightarrow> 'r core_rxd option" where
  "rxd_BeforeCycle w = (if GetN CNT_WORKER w \<noteq> 2 then None else Some w)"

section \<open>Operations\<close>

definition SendOrBufferRx :: "'r dpdk \<Rightarrow> nat \<Rightarrow> mbuf \<Rightarrow> ('r, 'z) rx_core_scheme \<Rightarrow> ('r, 'z) rx_core_scheme" where
  "SendOrBufferRx D wk m w =
     (let out = output_rx w wk @ [m] in
      if length out < unat (burst_to w) then w\<lparr>output_rx := (output_rx w)(wk := out)\<rparr>
      else
        let ms = take (unat (burst_to w)) out; (r, ret) = enq_bulk D (ring_rx w ! wk) ms;
            w = w\<lparr>ring_rx := (ring_rx w)[wk := r], output_rx := (output_rx w)(wk := [])\<rparr>
        in (if ret = 0 then count_drop 0 (ucast (burst_to w)) (free_all ms w) else w))"

text \<open>The distributor has its own copy of the same code.\<close>

definition SendOrBufferDistributeRx :: "'r dpdk \<Rightarrow> nat \<Rightarrow> mbuf \<Rightarrow> 'r core_rxd \<Rightarrow> 'r core_rxd" where
  [simp]: "SendOrBufferDistributeRx D wk m w = SendOrBufferRx D wk m w"

text \<open>The flush of one worker's buffer; \<open>cnt\<close> is what is counted when the ring is full.\<close>

definition flush_one :: "'r dpdk \<Rightarrow> (('r, 'z) rx_core_scheme \<Rightarrow> nat \<Rightarrow> 64 word) \<Rightarrow> nat \<Rightarrow> ('r, 'z) rx_core_scheme \<Rightarrow>
    ('r, 'z) rx_core_scheme" where
  "flush_one D cnt k w =
     (if output_rx w k = [] then w
      else
        let ms = output_rx w k; n = cnt w k; (r, ret) = enq_bulk D (ring_rx w ! k) ms;
            w = w\<lparr>ring_rx := (ring_rx w)[k := r], output_rx := (output_rx w)(k := [])\<rparr>
        in (if ret = 0 then count_drop 0 n (free_all ms w) else w))"

definition BurstFlushRx :: "'r dpdk \<Rightarrow> 'r core_rx \<Rightarrow> 'r core_rx" where
  "BurstFlushRx D w =
     foldl (\<lambda>w k. flush_one D (\<lambda>w k. word_of_nat (length (output_rx w k))) k w) w [0..<unat (GetN CNT_WORKER w)]"

text \<open>The distributor counts a whole burst for a dropped buffer, however full it was.\<close>

definition BurstFlushDistributeRx :: "'r dpdk \<Rightarrow> 'r core_rxd \<Rightarrow> 'r core_rxd" where
  "BurstFlushDistributeRx D w =
     foldl (\<lambda>w k. flush_one D (\<lambda>w k. ucast (burst_to w)) k w) w [0..<unat (GetN CNT_WORKER w)]"

definition SendTapInterface :: "'r dpdk \<Rightarrow> mbuf \<Rightarrow> 'r core_rxd \<Rightarrow> 'r core_rxd" where
  "SendTapInterface D m w =
     (case enq_one D (ring_tap_tx w) m of
        (r, ok) \<Rightarrow> if ok then w\<lparr>ring_tap_tx := r\<rparr> else free_all [m] (w\<lparr>ring_tap_tx := r\<rparr>))"

text \<open>
  The octet that selects the worker, per build: plain (\<open>ip.dst\<close>), \<open>COUNTER_RX\<close> (inner address) and
  \<open>TUNNEL_RX\<close>. The octet is a \<open>char\<close>, signed on the target, and is widened with its sign.
\<close>

datatype rx_build = Plain_Rx | Counter_Rx | Tunnel_Rx

definition flow_pos :: "rx_build \<Rightarrow> 32 word \<Rightarrow> mbuf \<Rightarrow> nat" where
  "flow_pos b ty m = (case b of
      Plain_Rx \<Rightarrow> 33
    | Counter_Rx \<Rightarrow> 65 + (if ty = 0xFE then 0 else if ldb m 50 AND 0xF0 = 0x40 then 4 else 16)
    | Tunnel_Rx \<Rightarrow> 29 + (if ty = 0xFF then 36 else if ldb m 14 AND 0xF0 = 0x40 then 4 else 16))"

definition flow_worker :: "rx_build \<Rightarrow> 32 word \<Rightarrow> 32 word \<Rightarrow> mbuf \<Rightarrow> nat" where
  "flow_worker b wk_cnt ty m = unat ((scast (ldb m (flow_pos b ty m)) :: 32 word) mod wk_cnt)"

text \<open>\<open>CoreRx::Cycle\<close>: \<open>None\<close> is the division by a worker count of zero.\<close>

definition rx_Cycle :: "'r dpdk \<Rightarrow> rx_build \<Rightarrow> mbuf list \<Rightarrow> 'r core_rx \<Rightarrow> 64 word \<Rightarrow> ('r core_rx \<times> 64 word) option" where
  "rx_Cycle D b input w cnt =
     (let wk_cnt = GetN CNT_WORKER w in
      if input \<noteq> [] \<and> wk_cnt = 0 then None
      else
        let w = (if input = [] then w
                 else burst_loop (\<lambda>w m. SendOrBufferRx D (flow_worker b wk_cnt (rx_type w) m) m w) input w)
        in if flush_delay w \<noteq> 0 \<and> cnt \<ge> flush_delay w then Some (BurstFlushRx D w, 0) else Some (w, cnt))"

datatype rxd_dest = To_Ingress | To_Egress | To_Tap

definition rxd_route :: "'r dpdk \<Rightarrow> mbuf \<Rightarrow> rxd_dest" where
  "rxd_route D m =
     (if is_udp D m = bswap16 PGWEGRESSPORT then To_Egress
      else if is_gtpu D m = 0 then To_Tap else To_Ingress)"

definition rxd_handle :: "'r dpdk \<Rightarrow> 'r core_rxd \<Rightarrow> mbuf \<Rightarrow> 'r core_rxd" where
  "rxd_handle D w m = (case rxd_route D m of
      To_Ingress \<Rightarrow> SendOrBufferDistributeRx D 0 m w
    | To_Egress \<Rightarrow> SendOrBufferDistributeRx D 1 m w
    | To_Tap \<Rightarrow> SendTapInterface D m w)"

definition rxd_Cycle :: "'r dpdk \<Rightarrow> mbuf list \<Rightarrow> 'r core_rxd \<Rightarrow> 64 word \<Rightarrow> 'r core_rxd \<times> 64 word" where
  "rxd_Cycle D input w cnt =
     (let w = (if input = [] then w else burst_loop (rxd_handle D) input w)
      in if flush_delay w \<noteq> 0 \<and> cnt = flush_delay w then (BurstFlushDistributeRx D w, 0) else (w, cnt))"

section \<open>Fanning out\<close>

text \<open>
  \<open>fanned\<close> relates two states between which the packets \<open>g c\<close> arrived for each destination \<open>c\<close>: what a
  destination holds is a subsequence of what it held and what arrived, and the rest was freed.
\<close>

definition fanned :: "('s \<Rightarrow> 'c \<Rightarrow> mbuf list) \<Rightarrow> ('s \<Rightarrow> mbuf list) \<Rightarrow> 'c set \<Rightarrow> 's \<Rightarrow> ('c \<Rightarrow> mbuf list) \<Rightarrow> 's \<Rightarrow> bool" where
  "fanned stream lost C s g s' \<longleftrightarrow>
     (\<forall>c\<in>C. subseq (stream s' c) (stream s c @ g c)) \<and>
     (\<exists>ds. lost s' = lost s @ ds \<and>
        (\<Sum>c\<in>C. mset (stream s c @ g c)) = (\<Sum>c\<in>C. mset (stream s' c)) + mset ds)"

lemma subseq_left [simp]: "subseq xs (xs @ ys)"
  by (rule prefix_imp_subseq) simp

lemma fanned_refl: "fanned stream lost C s (\<lambda>_. []) s"
  by (simp add: fanned_def)

lemma fanned_trans:
  assumes "fanned stream lost C s g s'" "fanned stream lost C s' h s''"
  shows "fanned stream lost C s (\<lambda>c. g c @ h c) s''"
proof -
  obtain ds es where d: "lost s' = lost s @ ds" "lost s'' = lost s' @ es"
    "(\<Sum>c\<in>C. mset (stream s c @ g c)) = (\<Sum>c\<in>C. mset (stream s' c)) + mset ds"
    "(\<Sum>c\<in>C. mset (stream s' c @ h c)) = (\<Sum>c\<in>C. mset (stream s'' c)) + mset es"
    using assms by (auto simp: fanned_def)
  have "subseq (stream s'' c) (stream s c @ g c @ h c)" if "c \<in> C" for c
  proof -
    have "subseq (stream s'' c) (stream s' c @ h c)" "subseq (stream s' c) (stream s c @ g c)"
      using assms that by (auto simp: fanned_def)
    then show ?thesis
      using subseq_order.trans list_emb_append_mono [of "(=)" "stream s' c" "stream s c @ g c" "h c" "h c"] by fastforce
  qed
  moreover have "(\<Sum>c\<in>C. mset (stream s c @ g c @ h c)) = (\<Sum>c\<in>C. mset (stream s'' c)) + mset (ds @ es)"
  proof -
    have "(\<Sum>c\<in>C. mset (stream s c @ g c @ h c)) = (\<Sum>c\<in>C. mset (stream s c @ g c)) + (\<Sum>c\<in>C. mset (h c))"
      by (simp add: sum.distrib algebra_simps)
    also have "\<dots> = (\<Sum>c\<in>C. mset (stream s' c @ h c)) + mset ds"
      unfolding d(3) by (simp add: sum.distrib algebra_simps)
    finally show ?thesis unfolding d(4) by (simp add: algebra_simps)
  qed
  ultimately show ?thesis unfolding fanned_def using d(1,2) by (intro conjI exI [of _ "ds @ es"]) auto
qed

lemma fanned_cong:
  assumes "fanned stream lost C s g s'" "\<And>c. c \<in> C \<Longrightarrow> g c = h c" shows "fanned stream lost C s h s'"
  using assms by (simp add: fanned_def)

text \<open>When nothing is freed, every destination has all of its packets, in order.\<close>

lemma fanned_exact:
  assumes "fanned stream lost C s g s'" "finite C" "lost s' = lost s" "c \<in> C"
  shows "stream s' c = stream s c @ g c"
proof -
  have sub: "subseq (stream s' c) (stream s c @ g c)" if "c \<in> C" for c using assms(1) that by (simp add: fanned_def)
  have "(\<Sum>c\<in>C. mset (stream s c @ g c)) = (\<Sum>c\<in>C. mset (stream s' c))"
    using assms(1,3) by (auto simp: fanned_def)
  then have "(\<Sum>c\<in>C. size (mset (stream s' c))) = (\<Sum>c\<in>C. size (mset (stream s c @ g c)))"
    unfolding size_multiset_sum [symmetric] by (rule arg_cong [where f = size, OF sym])
  then have "(\<Sum>c\<in>C. length (stream s' c)) = (\<Sum>c\<in>C. length (stream s c @ g c))"
    unfolding size_mset .
  then have "length (stream s' c) = length (stream s c @ g c)"
    by (rule sum_mono_inv [OF _ list_emb_length [OF sub] assms(4,2)])
  with sub [OF assms(4)] show ?thesis by (simp add: subseq_same_length)
qed

text \<open>One destination changes: it takes the packets, or it is emptied to a subsequence.\<close>

lemma fanned_one:
  assumes "finite C" "c \<in> C" "\<And>c'. c' \<noteq> c \<Longrightarrow> c' \<in> C \<Longrightarrow> stream s' c' = stream s c'"
    "lost s' = lost s @ ds" "subseq (stream s' c) (stream s c @ ms)"
    "mset (stream s c @ ms) = mset (stream s' c) + mset ds"
  shows "fanned stream lost C s (\<lambda>c'. if c' = c then ms else []) s'"
proof -
  have "(\<Sum>c'\<in>C. mset (stream s c' @ (if c' = c then ms else [])))
      = mset (stream s c @ ms) + (\<Sum>c'\<in>C - {c}. mset (stream s c'))"
    using assms(1,2) by (simp add: sum.remove [of C c])
  also have "\<dots> = (\<Sum>c'\<in>C. mset (stream s' c')) + mset ds"
    using assms(1,2,3,6) by (simp add: sum.remove [of C c])
  finally show ?thesis unfolding fanned_def using assms(3,4,5) by auto
qed

locale fan_out =
  fixes step :: "'s \<Rightarrow> mbuf \<Rightarrow> 's"
    and route :: "mbuf \<Rightarrow> 'c"
    and stream :: "'s \<Rightarrow> 'c \<Rightarrow> mbuf list"
    and lost :: "'s \<Rightarrow> mbuf list"
    and C :: "'c set"
    and inv :: "'s \<Rightarrow> bool"
  assumes step_inv: "inv s \<Longrightarrow> inv (step s m)"
    and step_fanned: "inv s \<Longrightarrow> fanned stream lost C s (\<lambda>c. if c = route m then [m] else []) (step s m)"
begin

lemma burst_fanned:
  assumes "inv s"
  shows "inv (burst_loop step ms s) \<and> fanned stream lost C s (\<lambda>c. filter (\<lambda>m. route m = c) ms) (burst_loop step ms s)"
  unfolding burst_loop_foldl
proof (induction ms rule: rev_induct)
  case Nil
  then show ?case using assms fanned_refl by simp
next
  case (snoc m ms)
  then have "fanned stream lost C s (\<lambda>c. filter (\<lambda>m. route m = c) ms @ (if c = route m then [m] else []))
    (step (foldl step s ms) m)"
    by (intro fanned_trans [where s' = "foldl step s ms"]) (simp_all add: step_fanned)
  then have "fanned stream lost C s (\<lambda>c. filter (\<lambda>m. route m = c) (ms @ [m])) (step (foldl step s ms) m)"
    by (rule fanned_cong) auto
  with snoc step_inv show ?case by simp
qed

end

section \<open>The receiving cores fan out\<close>

text \<open>What worker \<open>k\<close> will receive: its ring, then its buffer.\<close>

definition rx_stream :: "('r \<Rightarrow> mbuf list) \<Rightarrow> ('r, 'z) rx_core_scheme \<Rightarrow> nat \<Rightarrow> mbuf list" where
  "rx_stream items w k = items (ring_rx w ! k) @ output_rx w k"

definition rx_inv :: "('r, 'z) rx_core_scheme \<Rightarrow> bool" where
  "rx_inv w \<longleftrightarrow> length (ring_rx w) = unat (cnt_wk w) \<and>
     (\<forall>k<length (ring_rx w). length (output_rx w k) < unat (burst_to w))"

lemma SendOrBufferRx_frame:
  "cnt_wk (SendOrBufferRx D k m w) = cnt_wk w" "burst_to (SendOrBufferRx D k m w) = burst_to w"
  "length (ring_rx (SendOrBufferRx D k m w)) = length (ring_rx w)"
  "flush_delay (SendOrBufferRx D k m w) = flush_delay w"
  "rx_core.more (SendOrBufferRx D k m w) = rx_core.more w"
  by (simp_all add: SendOrBufferRx_def Let_def free_all_def count_drop_def split: prod.split)

lemma flush_one_frame:
  "cnt_wk (flush_one D c k w) = cnt_wk w" "burst_to (flush_one D c k w) = burst_to w"
  "length (ring_rx (flush_one D c k w)) = length (ring_rx w)"
  "rx_core.more (flush_one D c k w) = rx_core.more w"
  by (simp_all add: flush_one_def Let_def free_all_def count_drop_def split: prod.split)

lemma SendOrBufferRx_fanned:
  assumes "ring_laws D items" "rx_inv w" "k < length (ring_rx w)"
  shows "rx_inv (SendOrBufferRx D k m w)"
    "fanned (rx_stream items) freed {..<length (ring_rx w)} w (\<lambda>c. if c = k then [m] else []) (SendOrBufferRx D k m w)"
proof -
  let ?w' = "SendOrBufferRx D k m w"
  let ?out = "output_rx w k @ [m]"
  have len: "length (output_rx w k) < unat (burst_to w)" using assms(2,3) by (simp add: rx_inv_def)
  show "rx_inv ?w'"
    using assms(2) len unfolding rx_inv_def SendOrBufferRx_frame
    by (auto simp: SendOrBufferRx_def Let_def free_all_def count_drop_def split: prod.split)
  have other: "rx_stream items ?w' c = rx_stream items w c" if "c \<noteq> k" for c
    using that by (auto simp: SendOrBufferRx_def Let_def free_all_def count_drop_def rx_stream_def split: prod.split)
  have "\<exists>ds. freed ?w' = freed w @ ds \<and> subseq (rx_stream items ?w' k) (rx_stream items w k @ [m]) \<and>
    mset (rx_stream items w k @ [m]) = mset (rx_stream items ?w' k) + mset ds"
  proof (cases "length ?out < unat (burst_to w)")
    case True
    then show ?thesis by (simp add: SendOrBufferRx_def rx_stream_def)
  next
    case False
    then have t: "take (unat (burst_to w)) ?out = ?out" using len by simp
    obtain r ret where e: "enq_bulk D (ring_rx w ! k) ?out = (r, ret)" by (cases "enq_bulk D (ring_rx w ! k) ?out")
    consider (all) "ret = length ?out" "items r = items (ring_rx w ! k) @ ?out" | (none) "ret = 0" "r = ring_rx w ! k"
      by (rule ring_laws_enq_bulk [OF assms(1) e])
    then show ?thesis
    proof cases
      case all
      then show ?thesis using False e t assms(3) by (simp add: SendOrBufferRx_def rx_stream_def)
    next
      case none
      then have "freed ?w' = freed w @ ?out" "rx_stream items ?w' k = items (ring_rx w ! k)"
        using False e t assms(3)
        by (simp_all add: SendOrBufferRx_def rx_stream_def Let_def free_all_def count_drop_def)
      then show ?thesis by (intro exI [of _ ?out]) (simp add: rx_stream_def)
    qed
  qed
  then show "fanned (rx_stream items) freed {..<length (ring_rx w)} w (\<lambda>c. if c = k then [m] else []) ?w'"
    using assms(3) by (elim exE conjE, intro fanned_one) (simp_all add: other)
qed

lemma flush_one_fanned:
  assumes "ring_laws D items" "rx_inv w" "k < length (ring_rx w)"
  shows "rx_inv (flush_one D cnt k w)"
    "fanned (rx_stream items) freed {..<length (ring_rx w)} w (\<lambda>_. []) (flush_one D cnt k w)"
proof -
  let ?w' = "flush_one D cnt k w"
  show "rx_inv ?w'"
    using assms(2) unfolding rx_inv_def flush_one_frame
    by (auto simp: flush_one_def Let_def free_all_def count_drop_def split: prod.split)
  have other: "rx_stream items ?w' c = rx_stream items w c" if "c \<noteq> k" for c
    using that by (auto simp: flush_one_def Let_def free_all_def count_drop_def rx_stream_def split: prod.split)
  have "\<exists>ds. freed ?w' = freed w @ ds \<and> subseq (rx_stream items ?w' k) (rx_stream items w k @ []) \<and>
    mset (rx_stream items w k @ []) = mset (rx_stream items ?w' k) + mset ds"
  proof (cases "output_rx w k = []")
    case True
    then show ?thesis by (simp add: flush_one_def)
  next
    case False
    obtain r ret where e: "enq_bulk D (ring_rx w ! k) (output_rx w k) = (r, ret)"
      by (cases "enq_bulk D (ring_rx w ! k) (output_rx w k)")
    consider (all) "ret = length (output_rx w k)" "items r = items (ring_rx w ! k) @ (output_rx w k)" | (none) "ret = 0" "r = ring_rx w ! k"
      by (rule ring_laws_enq_bulk [OF assms(1) e])
    then show ?thesis
    proof cases
      case all
      then show ?thesis using False e assms(3) by (simp add: flush_one_def rx_stream_def)
    next
      case none
      then have "freed ?w' = freed w @ output_rx w k" "rx_stream items ?w' k = items (ring_rx w ! k)"
        using False e assms(3) by (simp_all add: flush_one_def rx_stream_def Let_def free_all_def count_drop_def)
      then show ?thesis by (intro exI [of _ "output_rx w k"]) (simp add: rx_stream_def)
    qed
  qed
  then have "fanned (rx_stream items) freed {..<length (ring_rx w)} w (\<lambda>c. if c = k then [] else []) ?w'"
    using assms(3) by (elim exE conjE, intro fanned_one) (simp_all add: other)
  then show "fanned (rx_stream items) freed {..<length (ring_rx w)} w (\<lambda>_. []) ?w'" by simp
qed

lemma flush_all_fanned:
  assumes "ring_laws D items" "rx_inv w" "set ks \<subseteq> {..<length (ring_rx w)}"
  shows "rx_inv (foldl (\<lambda>w k. flush_one D cnt k w) w ks) \<and>
    fanned (rx_stream items) freed {..<length (ring_rx w)} w (\<lambda>_. []) (foldl (\<lambda>w k. flush_one D cnt k w) w ks) \<and>
    rx_core.more (foldl (\<lambda>w k. flush_one D cnt k w) w ks) = rx_core.more w \<and>
    length (ring_rx (foldl (\<lambda>w k. flush_one D cnt k w) w ks)) = length (ring_rx w)"
  using assms(3)
proof (induction ks rule: rev_induct)
  case Nil
  then show ?case using assms(2) fanned_refl by simp
next
  case (snoc k ks)
  let ?w = "foldl (\<lambda>w k. flush_one D cnt k w) w ks"
  have i: "rx_inv ?w" "length (ring_rx ?w) = length (ring_rx w)" "k < length (ring_rx ?w)"
    "fanned (rx_stream items) freed {..<length (ring_rx w)} w (\<lambda>_. []) ?w" "rx_core.more ?w = rx_core.more w"
    using snoc by auto
  note l = flush_one_fanned [OF assms(1) i(1,3), of cnt]
  have "fanned (rx_stream items) freed {..<length (ring_rx w)} w (\<lambda>c. [] @ []) (flush_one D cnt k ?w)"
    by (rule fanned_trans [OF i(4) l(2) [unfolded i(2)]])
  with i l(1) show ?case by (simp add: flush_one_frame)
qed

definition rx_ok :: "'r dpdk \<Rightarrow> ('r \<Rightarrow> mbuf list) \<Rightarrow> 32 word \<Rightarrow> 32 word \<Rightarrow> 'r core_rx \<Rightarrow> bool" where
  "rx_ok D items wk ty w \<longleftrightarrow> ring_laws D items \<and> rx_inv w \<and> cnt_wk w = wk \<and> wk \<noteq> 0 \<and> rx_type w = ty"

definition rxd_ok :: "'r dpdk \<Rightarrow> ('r \<Rightarrow> mbuf list) \<Rightarrow> 'r core_rxd \<Rightarrow> bool" where
  "rxd_ok D items w \<longleftrightarrow> ring_laws D items \<and> rx_inv w \<and> cnt_wk w = 2"

definition rxd_stream :: "('r \<Rightarrow> mbuf list) \<Rightarrow> 'r core_rxd \<Rightarrow> rxd_dest \<Rightarrow> mbuf list" where
  "rxd_stream items w c = (case c of
      To_Ingress \<Rightarrow> rx_stream items w 0 | To_Egress \<Rightarrow> rx_stream items w 1 | To_Tap \<Rightarrow> items (ring_tap_tx w))"

lemma rx_type_more: "rx_core.more a = rx_core.more b \<Longrightarrow> rx_type a = rx_type b"
  by (cases a, cases b) simp

lemma rxd_tap_more: "rx_core.more a = rx_core.more b \<Longrightarrow> ring_tap_tx a = ring_tap_tx b"
  by (cases a, cases b) simp

lemma flow_worker_less: "wk \<noteq> 0 \<Longrightarrow> flow_worker b wk ty m < unat wk"
  by (simp add: flow_worker_def unat_mod unat_gt_0)

interpretation rx: fan_out "\<lambda>w m. SendOrBufferRx D (flow_worker b wk (rx_type w) m) m w" "flow_worker b wk ty"
  "rx_stream items" freed "{..<unat wk}" "rx_ok D items wk ty" for D b wk ty items
proof
  fix w :: "'a core_rx" and m
  assume ok: "rx_ok D items wk ty w"
  then have k: "ring_laws D items" "rx_inv w" "flow_worker b wk (rx_type w) m < length (ring_rx w)"
    "length (ring_rx w) = unat wk"
    using flow_worker_less [of wk b ty m] by (auto simp: rx_ok_def rx_inv_def)
  note l = SendOrBufferRx_fanned [OF k(1-3), of m]
  show "rx_ok D items wk ty (SendOrBufferRx D (flow_worker b wk (rx_type w) m) m w)"
    using ok l(1) rx_type_more [OF SendOrBufferRx_frame(5), of D _ m w] by (simp add: rx_ok_def SendOrBufferRx_frame)
  show "fanned (rx_stream items) freed {..<unat wk} w (\<lambda>c. if c = flow_worker b wk ty m then [m] else [])
     (SendOrBufferRx D (flow_worker b wk (rx_type w) m) m w)"
    using l(2) k(4) ok by (simp add: rx_ok_def)
qed

lemma rxd_dest_cases: "(UNIV :: rxd_dest set) = {To_Ingress, To_Egress, To_Tap}"
  using rxd_dest.exhaust by blast

text \<open>The streams of the distributor, from those of its two rings and the tap.\<close>

lemma rxd_lift:
  assumes "fanned (rx_stream items) freed {..<2} w g w'" "rx_core.more w' = rx_core.more w"
  shows "fanned (rxd_stream items) freed UNIV w
    (\<lambda>c. case c of To_Ingress \<Rightarrow> g 0 | To_Egress \<Rightarrow> g 1 | To_Tap \<Rightarrow> []) w'"
proof -
  have two: "{..<2} = {0, 1 :: nat}" by auto
  have tap: "rxd_stream items w' To_Tap = rxd_stream items w To_Tap"
    using rxd_tap_more [OF assms(2)] by (simp add: rxd_stream_def)
  have st: "rxd_stream items x To_Ingress = rx_stream items x 0" "rxd_stream items x To_Egress = rx_stream items x 1"
    for x :: "'a core_rxd" by (simp_all add: rxd_stream_def)
  obtain ds where d: "freed w' = freed w @ ds"
    "mset (rx_stream items w 0 @ g 0) + mset (rx_stream items w 1 @ g 1) =
      mset (rx_stream items w' 0) + mset (rx_stream items w' 1) + mset ds"
    using assms(1) by (auto simp: fanned_def two)
  have "subseq (rx_stream items w' 0) (rx_stream items w 0 @ g 0)" "subseq (rx_stream items w' 1) (rx_stream items w 1 @ g 1)"
    using assms(1) by (simp_all add: fanned_def two)
  then show ?thesis
    unfolding fanned_def rxd_dest_cases using d by (simp add: st tap algebra_simps)
qed

interpretation rxd: fan_out "rxd_handle D" "rxd_route D" "rxd_stream items" freed UNIV "rxd_ok D items" for D items
proof
  fix w :: "'a core_rxd" and m
  assume ok: "rxd_ok D items w"
  then have k: "ring_laws D items" "rx_inv w" "length (ring_rx w) = 2" by (auto simp: rxd_ok_def rx_inv_def)
  have "rxd_ok D items (rxd_handle D w m) \<and>
    fanned (rxd_stream items) freed UNIV w (\<lambda>c. if c = rxd_route D m then [m] else []) (rxd_handle D w m)"
  proof (cases "rxd_route D m")
    case To_Tap
    obtain r q where e: "enq_one D (ring_tap_tx w) m = (r, q)" by (cases "enq_one D (ring_tap_tx w) m")
    consider (queued) "q" "items r = items (ring_tap_tx w) @ [m]" | (full) "\<not> q" "r = ring_tap_tx w"
      by (rule ring_laws_enq_one [OF k(1) e])
    then have "\<exists>ds. freed (SendTapInterface D m w) = freed w @ ds \<and>
        subseq (rxd_stream items (SendTapInterface D m w) To_Tap) (rxd_stream items w To_Tap @ [m]) \<and>
        mset (rxd_stream items w To_Tap @ [m]) = mset (rxd_stream items (SendTapInterface D m w) To_Tap) + mset ds"
      by cases (simp_all add: SendTapInterface_def e free_all_def rxd_stream_def)
    moreover have "rxd_stream items (SendTapInterface D m w) c = rxd_stream items w c" if "c \<noteq> To_Tap" for c
      using that e by (cases c) (simp_all add: rxd_stream_def rx_stream_def SendTapInterface_def free_all_def)
    ultimately have "fanned (rxd_stream items) freed UNIV w (\<lambda>c. if c = To_Tap then [m] else []) (SendTapInterface D m w)"
      by (elim exE conjE, intro fanned_one) (simp_all add: rxd_dest_cases)
    moreover have "rxd_ok D items (SendTapInterface D m w)"
      using ok e by (simp add: rxd_ok_def rx_inv_def SendTapInterface_def free_all_def)
    ultimately show ?thesis by (simp add: rxd_handle_def To_Tap)
  next
    case To_Ingress
    note l = SendOrBufferRx_fanned [OF k(1,2), of 0 m, unfolded k(3)]
    have "fanned (rxd_stream items) freed UNIV w
        (\<lambda>c. case c of To_Ingress \<Rightarrow> [m] | To_Egress \<Rightarrow> [] | To_Tap \<Rightarrow> []) (SendOrBufferRx D 0 m w)"
      using rxd_lift [OF l(2) SendOrBufferRx_frame(5)] by simp
    then have "fanned (rxd_stream items) freed UNIV w (\<lambda>c. if c = To_Ingress then [m] else []) (SendOrBufferRx D 0 m w)"
      by (rule fanned_cong) (simp split: rxd_dest.split)
    with l(1) ok show ?thesis by (simp add: rxd_handle_def To_Ingress rxd_ok_def SendOrBufferRx_frame)
  next
    case To_Egress
    note l = SendOrBufferRx_fanned [OF k(1,2), of 1 m, unfolded k(3)]
    have "fanned (rxd_stream items) freed UNIV w
        (\<lambda>c. case c of To_Ingress \<Rightarrow> [] | To_Egress \<Rightarrow> [m] | To_Tap \<Rightarrow> []) (SendOrBufferRx D 1 m w)"
      using rxd_lift [OF l(2) SendOrBufferRx_frame(5)] by simp
    then have "fanned (rxd_stream items) freed UNIV w (\<lambda>c. if c = To_Egress then [m] else []) (SendOrBufferRx D 1 m w)"
      by (rule fanned_cong) (simp split: rxd_dest.split)
    with l(1) ok show ?thesis by (simp add: rxd_handle_def To_Egress rxd_ok_def SendOrBufferRx_frame)
  qed
  then show "rxd_ok D items (rxd_handle D w m)"
    "fanned (rxd_stream items) freed UNIV w (\<lambda>c. if c = rxd_route D m then [m] else []) (rxd_handle D w m)" by simp_all
qed

section \<open>Properties\<close>

lemma sum_filter_route:
  assumes "finite C" "\<And>m. r m \<in> C"
  shows "(\<Sum>c\<in>C. mset (filter (\<lambda>m. r m = c) ms)) = mset ms"
proof (induction ms)
  case Nil
  then show ?case by simp
next
  case (Cons m ms)
  have "(\<Sum>c\<in>C. mset (filter (\<lambda>m. r m = c) (m # ms))) =
      (\<Sum>c\<in>C. (if r m = c then {#m#} else {#}) + mset (filter (\<lambda>m. r m = c) ms))"
    by (rule sum.cong) simp_all
  also have "\<dots> = (\<Sum>c\<in>C. if r m = c then {#m#} else {#}) + mset ms" by (simp only: sum.distrib Cons)
  finally show ?case using assms by simp
qed

lemma fanned_total:
  assumes "fanned stream lost C s (\<lambda>c. filter (\<lambda>m. r m = c) ms) s'" "finite C" "\<And>m. r m \<in> C"
  shows "(\<Sum>c\<in>C. mset (stream s' c)) + mset (lost s') = (\<Sum>c\<in>C. mset (stream s c)) + mset (lost s) + mset ms"
proof -
  obtain ds where d: "lost s' = lost s @ ds" "(\<Sum>c\<in>C. mset (stream s c @ filter (\<lambda>m. r m = c) ms)) =
      (\<Sum>c\<in>C. mset (stream s' c)) + mset ds"
    using assms(1) by (auto simp: fanned_def)
  have "(\<Sum>c\<in>C. mset (stream s c @ filter (\<lambda>m. r m = c) ms)) = (\<Sum>c\<in>C. mset (stream s c)) + mset ms"
    using sum_filter_route [where r = r and ms = ms, OF assms(2,3)] by (simp only: mset_append sum.distrib)
  with d show ?thesis by (simp add: algebra_simps)
qed

lemma fanned_no_more:
  assumes "fanned stream lost C s g s'" "fanned stream lost C s' (\<lambda>_. []) s''"
  shows "fanned stream lost C s g s''"
  using fanned_trans [OF assms] by simp

text \<open>C6: The receiving core over a whole cycle, in each of its builds: it divides by a positive worker
  count and returns; every packet received is, with all the core held before, on a worker's ring, in its
  buffer, or freed; each worker gets only packets whose address octet selects it, in the order they
  arrived; and when nothing had to be freed it gets all of them.\<close>

theorem rx_cycle_keeps_flows_in_order:
  assumes "rx_ok D items wk ty w"
  shows "\<exists>w' cnt'. rx_Cycle D b input w cnt = Some (w', cnt') \<and> rx_ok D items wk ty w' \<and>
    (\<Sum>k<unat wk. mset (rx_stream items w' k)) + mset (freed w') =
      (\<Sum>k<unat wk. mset (rx_stream items w k)) + mset (freed w) + mset input \<and>
    (\<forall>k<unat wk. subseq (rx_stream items w' k) (rx_stream items w k @ filter (\<lambda>m. flow_worker b wk ty m = k) input)) \<and>
    (freed w' = freed w \<longrightarrow>
      (\<forall>k<unat wk. rx_stream items w' k = rx_stream items w k @ filter (\<lambda>m. flow_worker b wk ty m = k) input))"
proof -
  let ?step = "\<lambda>w m. SendOrBufferRx D (flow_worker b wk (rx_type w) m) m w"
  let ?fan = "\<lambda>w'. fanned (rx_stream items) freed {..<unat wk} w (\<lambda>k. filter (\<lambda>m. flow_worker b wk ty m = k) input) w'"
  define w1 where "w1 = burst_loop ?step input w"
  have w1: "rx_ok D items wk ty w1" "?fan w1" using rx.burst_fanned [OF assms, of b input] by (simp_all add: w1_def)
  have c: "cnt_wk w = wk" "wk \<noteq> 0" "ring_laws D items" using assms by (simp_all add: rx_ok_def)
  have l: "length (ring_rx w1) = unat wk" "cnt_wk w1 = wk" using w1(1) by (auto simp: rx_ok_def rx_inv_def)
  have e: "(if input = [] then w else burst_loop ?step input w) = w1"
    by (simp add: w1_def burst_loop_foldl)
  have fl: "rx_ok D items wk ty (BurstFlushRx D w1)" "?fan (BurstFlushRx D w1)"
  proof -
    have r: "rx_inv w1" "set [0..<unat wk] \<subseteq> {..<length (ring_rx w1)}" using w1(1) l by (auto simp: rx_ok_def)
    note f = flush_all_fanned [OF c(3) r, of "\<lambda>w k. word_of_nat (length (output_rx w k))"]
    then have i: "rx_inv (BurstFlushRx D w1)" "length (ring_rx (BurstFlushRx D w1)) = unat wk"
      "rx_core.more (BurstFlushRx D w1) = rx_core.more w1"
      "fanned (rx_stream items) freed {..<unat wk} w1 (\<lambda>_. []) (BurstFlushRx D w1)"
      using l by (simp_all add: BurstFlushRx_def GetN_def)
    then have "unat (cnt_wk (BurstFlushRx D w1)) = unat wk" by (simp add: rx_inv_def)
    then show "rx_ok D items wk ty (BurstFlushRx D w1)"
      using i(1) rx_type_more [OF i(3)] w1(1) c by (simp add: rx_ok_def word_unat_eq_iff)
    show "?fan (BurstFlushRx D w1)" by (rule fanned_no_more [OF w1(2) i(4)])
  qed
  obtain w' cnt' where w': "rx_Cycle D b input w cnt = Some (w', cnt')" "rx_ok D items wk ty w'" "?fan w'"
  proof (cases "flush_delay w1 \<noteq> 0 \<and> cnt \<ge> flush_delay w1")
    case True
    then have "rx_Cycle D b input w cnt = Some (BurstFlushRx D w1, 0)"
      using c by (simp only: rx_Cycle_def GetN_def key.case Let_def e) simp
    then show ?thesis using fl by (rule that)
  next
    case False
    then have "rx_Cycle D b input w cnt = Some (w1, cnt)"
      using c by (simp only: rx_Cycle_def GetN_def key.case Let_def e) simp
    then show ?thesis using w1 by (rule that)
  qed
  have t: "(\<Sum>k<unat wk. mset (rx_stream items w' k)) + mset (freed w') =
      (\<Sum>k<unat wk. mset (rx_stream items w k)) + mset (freed w) + mset input"
    by (rule fanned_total [OF w'(3)]) (simp_all add: flow_worker_less c(2))
  have "\<forall>k<unat wk. subseq (rx_stream items w' k) (rx_stream items w k @ filter (\<lambda>m. flow_worker b wk ty m = k) input)"
    using w'(3) by (simp add: fanned_def)
  moreover have "freed w' = freed w \<longrightarrow>
      (\<forall>k<unat wk. rx_stream items w' k = rx_stream items w k @ filter (\<lambda>m. flow_worker b wk ty m = k) input)"
    using fanned_exact [OF w'(3)] by simp
  ultimately show ?thesis using w'(1,2) t by blast
qed

definition demo_rx :: "mbuf list core_rx" where
  "demo_rx = rx_core.extend (core.extend ((demo_core 2)\<lparr>cnt_wk := 2, flush_delay := 8\<rparr>)
     \<lparr>ring_rx = [[], []], output_rx = (\<lambda>_. [])\<rparr>) \<lparr>rx_type = 0\<rparr>"

text \<open>Three packets for two workers: a worker only ever holds its own.\<close>

theorem rx_cycle_keeps_flows_in_order_witness:
  "\<exists>w' cnt'. rx_Cycle (ref_dpdk 4) Plain_Rx [demo_mbuf 60 [], demo_mbuf 61 [], demo_mbuf 62 []] demo_rx 8 = Some (w', cnt') \<and>
     (\<Sum>k<2. mset (rx_stream id w' k)) + mset (freed w') = {#demo_mbuf 60 [], demo_mbuf 61 [], demo_mbuf 62 []#}"
proof -
  have ok: "rx_ok (ref_dpdk 4) id 2 0 demo_rx"
    by (simp add: rx_ok_def rx_inv_def demo_rx_def rx_core.defs core.defs demo_core_def ref_dpdk_ring_laws)
  have z: "rx_stream id demo_rx k = []" if "k < 2" for k
    using that by (auto simp: rx_stream_def demo_rx_def rx_core.defs core.defs less_Suc_eq numeral_2_eq_2)
  have f: "freed demo_rx = []" by (simp add: demo_rx_def rx_core.defs core.defs demo_core_def)
  show ?thesis
    using rx_cycle_keeps_flows_in_order [OF ok, of Plain_Rx "[demo_mbuf 60 [], demo_mbuf 61 [], demo_mbuf 62 []]" 8]
    by (auto simp: z f)
qed

text \<open>The distributor over a whole cycle: user traffic (GTP-U with a tunnel id) goes to the ingress ring,
  packets to the egress port to the egress ring, and all else to the tap; each destination gets only its
  own packets, in order of arrival, all of them when nothing was freed; and every packet is in one of the
  three places or freed.\<close>

theorem rxd_cycle_classifies_in_order:
  assumes "rxd_ok D items w" "rxd_Cycle D input w cnt = (w', cnt')"
  shows "rxd_ok D items w' \<and>
    (\<Sum>c\<in>UNIV. mset (rxd_stream items w' c)) + mset (freed w') =
      (\<Sum>c\<in>UNIV. mset (rxd_stream items w c)) + mset (freed w) + mset input \<and>
    (\<forall>c. subseq (rxd_stream items w' c) (rxd_stream items w c @ filter (\<lambda>m. rxd_route D m = c) input)) \<and>
    (freed w' = freed w \<longrightarrow> (\<forall>c. rxd_stream items w' c = rxd_stream items w c @ filter (\<lambda>m. rxd_route D m = c) input))"
proof -
  let ?fan = "\<lambda>w'. fanned (rxd_stream items) freed UNIV w (\<lambda>c. filter (\<lambda>m. rxd_route D m = c) input) w'"
  define w1 where "w1 = burst_loop (rxd_handle D) input w"
  have w1: "rxd_ok D items w1" "?fan w1" using rxd.burst_fanned [OF assms(1), of input] by (simp_all add: w1_def)
  have l: "length (ring_rx w1) = 2" "cnt_wk w1 = 2" "ring_laws D items" "rx_inv w1"
    using w1(1) by (auto simp: rxd_ok_def rx_inv_def)
  have e: "(if input = [] then w else burst_loop (rxd_handle D) input w) = w1" by (simp add: w1_def burst_loop_foldl)
  have fl: "rxd_ok D items (BurstFlushDistributeRx D w1)" "?fan (BurstFlushDistributeRx D w1)"
  proof -
    have r: "set [0..<2] \<subseteq> {..<length (ring_rx w1)}" using l(1) by auto
    note f = flush_all_fanned [OF l(3,4) r, of "\<lambda>w k. ucast (burst_to w)", unfolded l(1)]
    then have i: "rx_inv (BurstFlushDistributeRx D w1)" "length (ring_rx (BurstFlushDistributeRx D w1)) = 2"
      "rx_core.more (BurstFlushDistributeRx D w1) = rx_core.more w1"
      "fanned (rx_stream items) freed {..<2} w1 (\<lambda>_. []) (BurstFlushDistributeRx D w1)"
      using l(2) by (simp_all add: BurstFlushDistributeRx_def GetN_def)
    then have "unat (cnt_wk (BurstFlushDistributeRx D w1)) = unat (2 :: 32 word)" by (simp add: rx_inv_def)
    then have "cnt_wk (BurstFlushDistributeRx D w1) = 2" by (rule word_unat_eq_iff [THEN iffD2])
    with i(1) l(3) show "rxd_ok D items (BurstFlushDistributeRx D w1)" by (simp add: rxd_ok_def)
    have "fanned (rxd_stream items) freed UNIV w1 (\<lambda>_. []) (BurstFlushDistributeRx D w1)"
      by (rule fanned_cong [OF rxd_lift [OF i(4,3)]]) (simp split: rxd_dest.split)
    then show "?fan (BurstFlushDistributeRx D w1)" by (rule fanned_no_more [OF w1(2)])
  qed
  have w': "rxd_ok D items w'" "?fan w'"
  proof -
    have "w' = BurstFlushDistributeRx D w1 \<or> w' = w1"
      using assms(2) by (simp add: rxd_Cycle_def Let_def e split: if_splits)
    then show "rxd_ok D items w'" "?fan w'" using w1 fl by auto
  qed
  have fin: "finite (UNIV :: rxd_dest set)" by (simp add: rxd_dest_cases)
  have "(\<Sum>c\<in>UNIV. mset (rxd_stream items w' c)) + mset (freed w') =
      (\<Sum>c\<in>UNIV. mset (rxd_stream items w c)) + mset (freed w) + mset input"
    by (rule fanned_total [OF w'(2) fin]) simp
  moreover have "\<forall>c. subseq (rxd_stream items w' c) (rxd_stream items w c @ filter (\<lambda>m. rxd_route D m = c) input)"
    using w'(2) by (simp add: fanned_def)
  moreover have "freed w' = freed w \<longrightarrow>
      (\<forall>c. rxd_stream items w' c = rxd_stream items w c @ filter (\<lambda>m. rxd_route D m = c) input)"
    using fanned_exact [OF w'(2) fin] by simp
  ultimately show ?thesis using w'(1) by simp
qed

text \<open>The witness: an ARP-like packet goes to the tap.\<close>

theorem rxd_cycle_classifies_in_order_witness:
  "\<exists>w' cnt'. rxd_Cycle (ref_dpdk 4) [demo_mbuf 60 []] (rxd_new [] ((demo_core 2)\<lparr>cnt_wk := 2\<rparr>)\<lparr>ring_rx := [[], []]\<rparr>) 0 = (w', cnt') \<and>
     rxd_ok (ref_dpdk 4) id w' \<and> subseq (rxd_stream id w' To_Tap) [demo_mbuf 60 []]"
proof -
  let ?w = "rxd_new [] ((demo_core 2)\<lparr>cnt_wk := 2\<rparr>)\<lparr>ring_rx := [[], []]\<rparr>"
  have ok: "rxd_ok (ref_dpdk 4) id ?w"
    by (simp add: rxd_ok_def rx_inv_def rxd_new_def rx_core.defs core.defs demo_core_def ref_dpdk_ring_laws)
  have r: "rxd_route (ref_dpdk 4) (demo_mbuf 60 []) = To_Tap"
    by (simp add: rxd_route_def is_udp_def is_gtpu_def ref_dpdk_sel demo_mbuf_def ldb_def mem_of_Nil bswap16_def mk16_def byte_of_def)
  have s: "rxd_stream id ?w To_Tap = []" by (simp add: rxd_stream_def rxd_new_def rx_core.defs core.defs)
  obtain w' cnt' where c: "rxd_Cycle (ref_dpdk 4) [demo_mbuf 60 []] ?w 0 = (w', cnt')" by (metis surj_pair)
  from rxd_cycle_classifies_in_order [OF ok c] have "rxd_ok (ref_dpdk 4) id w'"
    "subseq (rxd_stream id w' To_Tap) (rxd_stream id ?w To_Tap @ filter (\<lambda>m. rxd_route (ref_dpdk 4) m = To_Tap) [demo_mbuf 60 []])"
    by simp_all
  with c show ?thesis by (intro exI [of _ w'] exI [of _ cnt']) (simp add: r s)
qed

end
