(* ===== verification/Tx_Core.thy ===== *)
theory Tx_Core
  imports Core_Interface "HOL-Library.Sublist"
begin

text \<open>
  The sending core \<open>CoreTx\<close> (\<open>dataplane/src/core/core_tx.cc\<close>): bursts from the rings of all workers
  are gathered in one buffer and given to the NIC. \<open>rte_eth_tx_burst\<close> on queue 0 of the port is the
  parameter \<open>tx\<close> on a NIC state \<open>'n\<close>: it takes a first part of the packets and returns how many (\<open>nic_laws\<close>).
\<close>

section \<open>Operations\<close>

record ('r, 'n) tx_core = "'r core" +
  ring_tx :: "'r list"
  nic :: 'n

definition tx_new :: "'n \<Rightarrow> 'r core \<Rightarrow> ('r, 'n) tx_core" where
  "tx_new n c = core.extend (c\<lparr>out_buf := []\<rparr>) \<lparr>ring_tx = [], nic = n\<rparr>"

definition tx_SetRingAddr :: "order \<Rightarrow> 'r \<Rightarrow> ('r, 'n) tx_core \<Rightarrow> ('r, 'n) tx_core option" where
  "tx_SetRingAddr d r w =
     (if d = FROM then
        let w = w\<lparr>ring_tx := ring_tx w @ [r]\<rparr> in Some (SetN CNT_WORKER (word_of_nat (length (ring_tx w))) w)
      else None)"

text \<open>The buffer \<open>out\<close> goes to the NIC; what it does not take is freed, and the whole buffer is counted.\<close>

definition tx_send :: "('n \<Rightarrow> mbuf list \<Rightarrow> 'n \<times> nat) \<Rightarrow> mbuf list \<Rightarrow> ('r, 'n) tx_core \<Rightarrow> ('r, 'n) tx_core" where
  "tx_send tx out w =
     (case tx (nic w) (take (length out mod 65536) out) of (n, sent) \<Rightarrow>
        let w = w\<lparr>nic := n, out_buf := []\<rparr> in
        if sent < length out then count_drop 0 (word_of_nat (length out)) (free_all (drop sent out) w) else w)"

definition BurstFlushTx :: "('n \<Rightarrow> mbuf list \<Rightarrow> 'n \<times> nat) \<Rightarrow> ('r, 'n) tx_core \<Rightarrow> ('r, 'n) tx_core" where
  "BurstFlushTx tx w = (if out_buf w \<noteq> [] then tx_send tx (out_buf w) w else w)"

definition tx_ring :: "'r dpdk \<Rightarrow> ('n \<Rightarrow> mbuf list \<Rightarrow> 'n \<times> nat) \<Rightarrow> ('r, 'n) tx_core \<Rightarrow> nat \<Rightarrow> ('r, 'n) tx_core" where
  "tx_ring D tx w k =
     (case deq_burst D (ring_tx w ! k) (unat (burst_fm w)) of (r, ms) \<Rightarrow>
        let w = w\<lparr>ring_tx := (ring_tx w)[k := r]\<rparr>; out = out_buf w @ ms in
        if ms = [] then w
        else if length out < unat (burst_to w) then w\<lparr>out_buf := out\<rparr>
        else tx_send tx out w)"

definition tx_Cycle :: "'r dpdk \<Rightarrow> ('n \<Rightarrow> mbuf list \<Rightarrow> 'n \<times> nat) \<Rightarrow> ('r, 'n) tx_core \<Rightarrow> 64 word \<Rightarrow> ('r, 'n) tx_core \<times> 64 word" where
  "tx_Cycle D tx w cnt =
     (let w = foldl (tx_ring D tx) w [0..<unat (GetN CNT_WORKER w)]
      in if flush_delay w \<noteq> 0 \<and> cnt \<ge> flush_delay w then (BurstFlushTx tx w, 0) else (w, cnt))"

section \<open>Lemmas\<close>

definition nic_laws :: "('n \<Rightarrow> mbuf list \<Rightarrow> 'n \<times> nat) \<Rightarrow> ('n \<Rightarrow> mbuf list) \<Rightarrow> bool" where
  "nic_laws tx wire \<longleftrightarrow> (\<forall>n ms. snd (tx n ms) \<le> length ms \<and> wire (fst (tx n ms)) = wire n @ take (snd (tx n ms)) ms)"

text \<open>
  \<open>tx_put\<close> is one call of \<open>rte_eth_tx_burst\<close> on the buffer, with the count cut to 16 bits.
  \<open>tx_moved\<close>: the packets \<open>ms\<close> came in; of the buffered ones and those, in this order, a first part left
  the buffer in bulks, each given to the NIC, and exactly what the NIC did not take is freed.
\<close>

definition tx_put :: "('n \<Rightarrow> mbuf list \<Rightarrow> 'n \<times> nat) \<Rightarrow> 'n \<Rightarrow> mbuf list \<Rightarrow> 'n \<times> nat" where
  "tx_put tx n b = tx n (take (length b mod 65536) b)"

definition tx_moved :: "('n \<Rightarrow> mbuf list \<Rightarrow> 'n \<times> nat) \<Rightarrow> ('r, 'n) tx_core \<Rightarrow> mbuf list \<Rightarrow> ('r, 'n) tx_core \<Rightarrow> bool" where
  "tx_moved tx w ms w' \<longleftrightarrow> (\<exists>bs taken left.
     out_buf w @ ms = concat bs @ out_buf w' \<and>
     (\<forall>b\<in>set bs. b \<noteq> [] \<and> length b < unat (burst_to w) + unat (burst_fm w)) \<and>
     offer (tx_put tx) (nic w) bs = (nic w', taken, left) \<and> freed w' = freed w @ left) \<and>
     burst_to w' = burst_to w \<and> burst_fm w' = burst_fm w"

lemma tx_movedI:
  assumes "out_buf w @ ms = concat bs @ out_buf w'"
    "\<forall>b\<in>set bs. b \<noteq> [] \<and> length b < unat (burst_to w) + unat (burst_fm w)"
    "offer (tx_put tx) (nic w) bs = (nic w', taken, left)" "freed w' = freed w @ left"
    "burst_to w' = burst_to w" "burst_fm w' = burst_fm w"
  shows "tx_moved tx w ms w'"
  unfolding tx_moved_def using assms by blast

lemma tx_moved_buffered:
  assumes "out_buf w' = out_buf w @ ms" "nic w' = nic w" "freed w' = freed w"
    "burst_to w' = burst_to w" "burst_fm w' = burst_fm w"
  shows "tx_moved tx w ms w'"
  by (rule tx_movedI [where bs = "[]" and taken = "[]" and left = "[]"]) (simp_all add: assms)

lemma tx_moved_trans:
  assumes "tx_moved tx w ms w'" "tx_moved tx w' ns w''" shows "tx_moved tx w (ms @ ns) w''"
proof -
  obtain bs s l where 1: "out_buf w @ ms = concat bs @ out_buf w'"
    "\<forall>b\<in>set bs. b \<noteq> [] \<and> length b < unat (burst_to w) + unat (burst_fm w)"
    "offer (tx_put tx) (nic w) bs = (nic w', s, l)" "freed w' = freed w @ l"
    "burst_to w' = burst_to w" "burst_fm w' = burst_fm w"
    using assms(1) unfolding tx_moved_def by blast
  obtain bs' s' l' where 2: "out_buf w' @ ns = concat bs' @ out_buf w''"
    "\<forall>b\<in>set bs'. b \<noteq> [] \<and> length b < unat (burst_to w') + unat (burst_fm w')"
    "offer (tx_put tx) (nic w') bs' = (nic w'', s', l')" "freed w'' = freed w' @ l'"
    "burst_to w'' = burst_to w'" "burst_fm w'' = burst_fm w'"
    using assms(2) unfolding tx_moved_def by blast
  have "out_buf w @ ms @ ns = concat (bs @ bs') @ out_buf w''"
    using 1(1) 2(1) by simp (metis append.assoc)
  then show ?thesis
    by (rule tx_movedI [OF _ _ offer_append [OF 1(3) 2(3)]]) (use 1(2,4-6) 2(2,4-6) in auto)
qed

lemma nic_offer:
  assumes "nic_laws tx wire" "offer (tx_put tx) n bs = (n', s, l)"
  shows "wire n' = wire n @ s \<and> concat bs \<in> shuffles s l"
proof (rule offer_shuffles [OF _ assms(2)])
  fix n b
  have "snd (tx_put tx n b) \<le> length b mod 65536"
    "wire (fst (tx_put tx n b)) = wire n @ take (snd (tx_put tx n b)) (take (length b mod 65536) b)"
    using assms(1) by (auto simp: nic_laws_def tx_put_def dest!: spec [of _ n] spec [of _ "take (length b mod 65536) b"])
  then show "wire (fst (tx_put tx n b)) = wire n @ take (snd (tx_put tx n b)) b"
    by (simp add: min_def)
qed

lemma tx_send_laws:
  assumes "out \<noteq> []" "out = out_buf w @ ms" "length out < unat (burst_to w) + unat (burst_fm w)"
  shows "tx_moved tx w ms (tx_send tx out w)" "out_buf (tx_send tx out w) = []"
    "ring_tx (tx_send tx out w) = ring_tx w" "burst_fm (tx_send tx out w) = burst_fm w"
    "burst_to (tx_send tx out w) = burst_to w" "cnt_wk (tx_send tx out w) = cnt_wk w"
proof -
  obtain n sent where e: "tx (nic w) (take (length out mod 65536) out) = (n, sent)" by fastforce
  have o: "offer (tx_put tx) (nic w) [out] = (nic (tx_send tx out w), take sent out, drop sent out)"
    by (simp add: tx_put_def e tx_send_def free_all_def count_drop_def Let_def)
  show fr: "out_buf (tx_send tx out w) = []" "ring_tx (tx_send tx out w) = ring_tx w"
    "burst_fm (tx_send tx out w) = burst_fm w" "burst_to (tx_send tx out w) = burst_to w"
    "cnt_wk (tx_send tx out w) = cnt_wk w"
    by (simp_all add: tx_send_def e free_all_def count_drop_def Let_def)
  have "freed (tx_send tx out w) = freed w @ drop sent out"
    by (simp add: tx_send_def e free_all_def count_drop_def Let_def)
  from tx_movedI [OF _ _ o this fr(4,3)] show "tx_moved tx w ms (tx_send tx out w)"
    using assms(1,3) by (simp add: assms(2) [symmetric] fr(1))
qed

lemma tx_ring_laws:
  assumes "ring_laws D items" "k < length (ring_tx w)" "core_inv w"
  obtains ms where "tx_moved tx w ms (tx_ring D tx w k)" "core_inv (tx_ring D tx w k)"
    "items (ring_tx w ! k) = ms @ items (ring_tx (tx_ring D tx w k) ! k)" "length ms \<le> unat (burst_fm w)"
    "\<And>j. j \<noteq> k \<Longrightarrow> ring_tx (tx_ring D tx w k) ! j = ring_tx w ! j"
    "length (ring_tx (tx_ring D tx w k)) = length (ring_tx w)" "burst_fm (tx_ring D tx w k) = burst_fm w"
    "cnt_wk (tx_ring D tx w k) = cnt_wk w"
proof -
  obtain r ms where e: "deq_burst D (ring_tx w ! k) (unat (burst_fm w)) = (r, ms)" by fastforce
  note d = ring_laws_deq_burst [OF assms(1) e]
  define v where "v = w\<lparr>ring_tx := (ring_tx w)[k := r]\<rparr>"
  have v: "burst_to v = burst_to w" "burst_fm v = burst_fm w" "cnt_wk v = cnt_wk w"
    "ring_tx v = (ring_tx w)[k := r]" "out_buf v = out_buf w" by (simp_all add: v_def)
  have tm: "tx_moved tx w ms x = tx_moved tx v ms x" for x by (simp add: tx_moved_def v_def)
  have "tx_ring D tx w k = (if ms = [] then v else if length (out_buf v @ ms) < unat (burst_to v)
      then v\<lparr>out_buf := out_buf v @ ms\<rparr> else tx_send tx (out_buf v @ ms) v)"
    by (simp add: tx_ring_def e v_def Let_def)
  then consider (none) "ms = []" "tx_ring D tx w k = v"
    | (buffered) "length (out_buf v @ ms) < unat (burst_to v)" "tx_ring D tx w k = v\<lparr>out_buf := out_buf v @ ms\<rparr>"
    | (sent) "ms \<noteq> []" "tx_ring D tx w k = tx_send tx (out_buf v @ ms) v" by (auto split: if_splits)
  then show thesis
  proof cases
    case none
    have "tx_moved tx w ms v" by (rule tx_moved_buffered) (simp_all add: v_def none(1))
    then show thesis using none d assms(2,3) by (intro that [of ms]) (simp_all add: v core_inv_def)
  next
    case buffered
    then show thesis using d assms(2) tx_moved_buffered [of "v\<lparr>out_buf := out_buf v @ ms\<rparr>" v ms tx]
      by (intro that [of ms]) (simp_all add: tm, simp_all add: v core_inv_def)
  next
    case sent
    have len: "out_buf v @ ms \<noteq> []" "length (out_buf v @ ms) < unat (burst_to v) + unat (burst_fm v)"
      using sent(1) d(2) assms(3) by (simp_all add: v core_inv_def)
    note t = tx_send_laws [OF len(1) refl len(2), of tx]
    have "0 < unat (burst_to w)" using assms(3) by (simp add: core_inv_def)
    then show thesis using t d assms(2) by (intro that [of ms]) (simp_all add: sent(2) tm v core_inv_def)
  qed
qed

lemma tx_rings_laws:
  assumes "ring_laws D items" "core_inv w" "n \<le> length (ring_tx w)"
  shows "\<exists>ds. let w' = foldl (tx_ring D tx) w [0..<n] in
    tx_moved tx w (concat (map ds [0..<n])) w' \<and> core_inv w' \<and> length (ring_tx w') = length (ring_tx w) \<and>
    burst_fm w' = burst_fm w \<and> cnt_wk w' = cnt_wk w \<and>
    (\<forall>k<n. items (ring_tx w ! k) = ds k @ items (ring_tx w' ! k) \<and> length (ds k) \<le> unat (burst_fm w)) \<and>
    (\<forall>k\<ge>n. ring_tx w' ! k = ring_tx w ! k)"
  using assms(3)
proof (induction n)
  case 0
  then show ?case using assms(2) by (simp add: tx_moved_buffered)
next
  case (Suc n)
  define v where "v = foldl (tx_ring D tx) w [0..<n]"
  obtain ds where v: "tx_moved tx w (concat (map ds [0..<n])) v" "core_inv v" "length (ring_tx v) = length (ring_tx w)"
    "burst_fm v = burst_fm w" "cnt_wk v = cnt_wk w"
    "\<forall>k<n. items (ring_tx w ! k) = ds k @ items (ring_tx v ! k) \<and> length (ds k) \<le> unat (burst_fm w)"
    "\<forall>k\<ge>n. ring_tx v ! k = ring_tx w ! k"
    using Suc by (auto simp: Let_def v_def)
  have n: "n < length (ring_tx v)" using v(3) Suc.prems by simp
  obtain ms where m: "tx_moved tx v ms (tx_ring D tx v n)" "core_inv (tx_ring D tx v n)"
    "items (ring_tx v ! n) = ms @ items (ring_tx (tx_ring D tx v n) ! n)" "length ms \<le> unat (burst_fm v)"
    "\<And>j. j \<noteq> n \<Longrightarrow> ring_tx (tx_ring D tx v n) ! j = ring_tx v ! j"
    "length (ring_tx (tx_ring D tx v n)) = length (ring_tx v)" "burst_fm (tx_ring D tx v n) = burst_fm v"
    "cnt_wk (tx_ring D tx v n) = cnt_wk v"
    by (rule tx_ring_laws [OF assms(1) n v(2)], rule that)
  have eq: "map (ds(n := ms)) [0..<n] = map ds [0..<n]" by (rule map_cong) simp_all
  have "tx_moved tx w (concat (map (ds(n := ms)) [0..<Suc n])) (tx_ring D tx v n)"
    using tx_moved_trans [OF v(1) m(1)] eq by simp
  moreover have f: "foldl (tx_ring D tx) w [0..<Suc n] = tx_ring D tx v n" by (simp add: v_def)
  ultimately show ?case
    unfolding f Let_def using v m by (intro exI [of _ "ds(n := ms)"]) (auto simp: less_Suc_eq)
qed

lemma tx_rings_flush_delay: "flush_delay (foldl (tx_ring D tx) w ks) = flush_delay w"
proof (induction ks arbitrary: w)
  case (Cons k ks)
  have "flush_delay (tx_ring D tx w k) = flush_delay w"
    by (simp add: tx_ring_def tx_send_def free_all_def count_drop_def Let_def split: prod.splits)
  then show ?case by (simp add: Cons.IH)
qed simp

lemma BurstFlushTx_laws:
  assumes "core_inv w"
  shows "tx_moved tx w [] (BurstFlushTx tx w)" "core_inv (BurstFlushTx tx w)"
    "ring_tx (BurstFlushTx tx w) = ring_tx w" "out_buf (BurstFlushTx tx w) = []"
proof -
  have "length (out_buf w) < unat (burst_to w) + unat (burst_fm w)" using assms by (simp add: core_inv_def)
  note t = tx_send_laws [of "out_buf w" w "[]" tx, OF _ _ this]
  show "tx_moved tx w [] (BurstFlushTx tx w)" "core_inv (BurstFlushTx tx w)"
    "ring_tx (BurstFlushTx tx w) = ring_tx w" "out_buf (BurstFlushTx tx w) = []"
    using t assms by (auto simp: BurstFlushTx_def core_inv_def tx_moved_buffered)
qed

section \<open>Properties\<close>

text \<open>C36: The sending core over a whole cycle: from each worker's ring it takes the oldest packets, at most
  a burst. What the buffer held and everything taken, ring after ring, was cut into bulks, each shorter than
  the two bursts the buffer has room for, and a rest that stays in the buffer, below the burst size and empty when the cycle
  flushes. The bulks were given to the NIC one after the other: the wire has grown by exactly what the NIC took, in order, and exactly
  what it did not take was freed, in order.\<close>

theorem tx_cycle_sends_in_order:
  assumes "nic_laws tx wire" "ring_laws D items" "core_inv w" "unat (cnt_wk w) = length (ring_tx w)"
    "tx_Cycle D tx w cnt = (w', cnt')"
  shows "core_inv w' \<and> (flush_delay w \<noteq> 0 \<and> flush_delay w \<le> cnt \<longrightarrow> out_buf w' = []) \<and>
    (\<exists>ds bs taken left.
      (\<forall>k<length (ring_tx w). items (ring_tx w ! k) = ds k @ items (ring_tx w' ! k) \<and> length (ds k) \<le> unat (burst_fm w)) \<and>
      out_buf w @ concat (map ds [0..<length (ring_tx w)]) = concat bs @ out_buf w' \<and>
      (\<forall>b\<in>set bs. b \<noteq> [] \<and> length b < unat (burst_to w) + unat (burst_fm w)) \<and>
      offer (\<lambda>n b. tx n (take (length b mod 65536) b)) (nic w) bs = (nic w', taken, left) \<and>
      concat bs \<in> shuffles taken left \<and> wire (nic w') = wire (nic w) @ taken \<and> freed w' = freed w @ left)"
proof -
  define v where "v = foldl (tx_ring D tx) w [0..<length (ring_tx w)]"
  obtain ds where v: "tx_moved tx w (concat (map ds [0..<length (ring_tx w)])) v" "core_inv v"
    "\<forall>k<length (ring_tx w). items (ring_tx w ! k) = ds k @ items (ring_tx v ! k) \<and> length (ds k) \<le> unat (burst_fm w)"
    using tx_rings_laws [OF assms(2,3), of "length (ring_tx w)" tx] by (auto simp: Let_def v_def)
  note fl = BurstFlushTx_laws [OF v(2), of tx]
  have w': "w' = (if flush_delay v \<noteq> 0 \<and> flush_delay v \<le> cnt then BurstFlushTx tx v else v)"
    using assms(5) by (auto simp: tx_Cycle_def GetN_def assms(4) Let_def split: if_splits simp flip: v_def)
  have fd: "flush_delay v = flush_delay w"
    unfolding v_def by (rule tx_rings_flush_delay)
  have "tx_moved tx w (concat (map ds [0..<length (ring_tx w)])) w'"
    using w' v(1) tx_moved_trans [OF v(1) fl(1)] by simp
  then obtain bs s l where m: "out_buf w @ concat (map ds [0..<length (ring_tx w)]) = concat bs @ out_buf w'"
    "\<forall>b\<in>set bs. b \<noteq> [] \<and> length b < unat (burst_to w) + unat (burst_fm w)"
    "offer (tx_put tx) (nic w) bs = (nic w', s, l)" "freed w' = freed w @ l"
    unfolding tx_moved_def by blast
  have f: "ring_tx w' = ring_tx v" "core_inv w'" "flush_delay w \<noteq> 0 \<and> flush_delay w \<le> cnt \<longrightarrow> out_buf w' = []"
    using w' fl v(2) fd by auto
  have p: "tx_put tx = (\<lambda>n b. tx n (take (length b mod 65536) b))" by (simp add: fun_eq_iff tx_put_def)
  show ?thesis
    by (rule conjI [OF f(2) conjI [OF f(3)]], rule exI [of _ ds], rule exI [of _ bs], rule exI [of _ s], rule exI [of _ l])
      (use m v(3) nic_offer [OF assms(1) m(3)] f(1) in \<open>simp flip: p\<close>)
qed

text \<open>The witness: a NIC that takes two packets at a time, and two rings.\<close>

theorem tx_cycle_sends_in_order_witness:
  "core_inv (fst (tx_Cycle (ref_dpdk 4) (\<lambda>n ms. (n @ take 2 ms, min 2 (length ms)))
     (tx_new [] ((demo_core 2)\<lparr>cnt_wk := 2\<rparr>)\<lparr>ring_tx := [[demo_mbuf 60 []], [demo_mbuf 61 [], demo_mbuf 62 []]]\<rparr>) 0))"
proof -
  let ?tx = "\<lambda>n ms. (n @ take 2 ms, min 2 (length ms))"
  let ?w = "tx_new [] ((demo_core 2)\<lparr>cnt_wk := 2\<rparr>)\<lparr>ring_tx := [[demo_mbuf 60 []], [demo_mbuf 61 [], demo_mbuf 62 []]]\<rparr>"
  have n: "nic_laws ?tx id" by (simp add: nic_laws_def) (metis min.commute take_all_iff take_take nat_le_linear min_def)
  have i: "core_inv ?w" "unat (cnt_wk ?w) = length (ring_tx ?w)"
    by (simp_all add: core_inv_def tx_new_def core.defs demo_core_def)
  obtain w' cnt' where c: "tx_Cycle (ref_dpdk 4) ?tx ?w 0 = (w', cnt')" by fastforce
  from tx_cycle_sends_in_order [OF n ref_dpdk_ring_laws i c] c show ?thesis by simp
qed

end
