(* ===== verification/Session_Table.thy ===== *)
theory Session_Table
  imports Pgw_Prelude
begin

text \<open>
  The contract between the tunnel tables of the data plane and their clients. A table maps the
  key of a tunnel (a TEID value or a UE address) to its link record; the binlog thread stores
  and erases records, the packet cores look them up. \<open>session_table\<close> states what a provider
  promises; what a client may conclude from it (the answer to a lookup after any sequence of
  events is decided by the last event on that key) is proved once, inside the locale.
\<close>

datatype ('k, 'v) tevent = Store 'k 'v | Erase 'k

primrec tevent_key :: "('k, 'v) tevent \<Rightarrow> 'k" where
  "tevent_key (Store k v) = k"
| "tevent_key (Erase k) = k"

text \<open>What the events leave at a key, from what was there before.\<close>

fun expected :: "('v \<Rightarrow> 'w) \<Rightarrow> 'w option \<Rightarrow> 'k \<Rightarrow> ('k, 'v) tevent list \<Rightarrow> 'w option" where
  "expected st r k [] = r"
| "expected st r k (Store k' v # es) = expected st (if k' = k then Some (st v) else r) k es"
| "expected st r k (Erase k' # es) = expected st (if k' = k then None else r) k es"

lemma expected_append:
  "expected st r k (es @ es') = expected st (expected st r k es) k es'"
  by (induction st r k es rule: expected.induct) simp_all

lemma expected_no_event: "\<forall>e\<in>set es. tevent_key e \<noteq> k \<Longrightarrow> expected st r k es = r"
  by (induction st r k es rule: expected.induct) auto

locale session_table =
  fixes inv :: "'t \<Rightarrow> bool"
    and key_ok :: "'t \<Rightarrow> 'k \<Rightarrow> bool"
    and find :: "'t \<Rightarrow> 'k \<Rightarrow> 'w option"
    and store :: "'t \<Rightarrow> 'k \<Rightarrow> 'v \<Rightarrow> 't"
    and erase :: "'t \<Rightarrow> 'k \<Rightarrow> 't"
    and stored :: "'v \<Rightarrow> 'w"
  assumes find_store: "inv t \<Longrightarrow> key_ok t k \<Longrightarrow> key_ok t k' \<Longrightarrow>
      find (store t k v) k' = (if k' = k then Some (stored v) else find t k')"
    and find_erase: "inv t \<Longrightarrow> key_ok t k \<Longrightarrow> key_ok t k' \<Longrightarrow>
      find (erase t k) k' = (if k' = k then None else find t k')"
    and inv_store: "inv t \<Longrightarrow> key_ok t k \<Longrightarrow> inv (store t k v)"
    and inv_erase: "inv t \<Longrightarrow> key_ok t k \<Longrightarrow> inv (erase t k)"
    and key_store: "key_ok (store t k v) k' = key_ok t k'"
    and key_erase: "key_ok (erase t k) k' = key_ok t k'"
begin

primrec apply_event :: "'t \<Rightarrow> ('k, 'v) tevent \<Rightarrow> 't" where
  "apply_event t (Store k v) = store t k v"
| "apply_event t (Erase k) = erase t k"

lemma apply_event_inv:
  "inv t \<Longrightarrow> key_ok t (tevent_key e) \<Longrightarrow> inv (apply_event t e)"
  by (cases e) (simp_all add: inv_store inv_erase)

lemma apply_event_key: "key_ok (apply_event t e) k = key_ok t k"
  by (cases e) (simp_all add: key_store key_erase)

lemma find_apply_event:
  "inv t \<Longrightarrow> key_ok t (tevent_key e) \<Longrightarrow> key_ok t k \<Longrightarrow>
     find (apply_event t e) k = expected stored (find t k) k [e]"
  by (cases e) (auto simp: find_store find_erase)

lemma apply_events_inv:
  "inv t \<Longrightarrow> (\<And>e. e \<in> set es \<Longrightarrow> key_ok t (tevent_key e)) \<Longrightarrow> inv (foldl apply_event t es)"
proof (induction es arbitrary: t)
  case (Cons e es)
  from Cons.prems have "inv (apply_event t e)"
    by (simp add: apply_event_inv)
  then show ?case
    using Cons.prems(2) by (simp add: Cons.IH apply_event_key)
qed simp

theorem find_apply_events:
  assumes "inv t" and "\<And>e. e \<in> set es \<Longrightarrow> key_ok t (tevent_key e)" and "key_ok t k"
  shows "find (foldl apply_event t es) k = expected stored (find t k) k es"
  using assms
proof (induction es arbitrary: t)
  case (Cons e es)
  have "find (foldl apply_event (apply_event t e) es) k
      = expected stored (find (apply_event t e) k) k es"
    using Cons.prems by (intro Cons.IH) (simp_all add: apply_event_inv apply_event_key)
  also have "\<dots> = expected stored (find t k) k ([e] @ es)"
    using Cons.prems unfolding expected_append by (simp add: find_apply_event)
  finally show ?case by simp
qed simp

lemma find_untouched:
  assumes "inv t" and "\<And>e. e \<in> set es \<Longrightarrow> key_ok t (tevent_key e)" and "key_ok t k"
    and "\<forall>e\<in>set es. tevent_key e \<noteq> k"
  shows "find (foldl apply_event t es) k = find t k"
  using find_apply_events [OF assms(1-3)] expected_no_event [OF assms(4)] by simp

end

end
