(* ===== verification/Lookup_Table.thy ===== *)
theory Lookup_Table
  imports Session_Table
begin

text \<open>
  The dual-buffered tunnel table \<open>Lookup<T, S, K>\<close> of \<open>dataplane/inc/lookup_tpl.hh\<close>,
  at the element type \<open>lookup_t\<close> of \<open>dataplane/inc/core.hpp\<close> (builds with
  \<open>ARCH >= 15\<close>, which carry the policer fields) and the key type \<open>unsigned\<close>; the number
  of slots \<open>S\<close> is a field of the table. Each slot has two sides and one bit of a bitmap
  that says which side is in front. A writer fills the back side and then flips the bit; readers
  take no lock.

  An \<open>iter\<close> is the C++ iterator: the end marker or the address of one side of a slot. An
  exception leaves the table as it was when thrown, which \<open>Throw\<close> carries.
\<close>

section \<open>Data\<close>

record lookup_t =
  lk_valid :: "1 word"
  lk_active :: "1 word"
  lk_mode :: "2 word"
  ue_ipv4 :: "32 word"
  ue_teid :: "32 word"
  sgw_gtpu_teid :: "32 word"
  sgw_gtpu_ipv4 :: "32 word"
  pgw_gtpu_ipv4 :: "32 word"
  epoch_w :: "32 word"
  commit_rate :: "32 word"
  commit_burst_size :: "32 word"
  commit_information_rate :: "32 word"
  excess_rate :: "32 word"
  excess_burst_size :: "32 word"
  excess_information_rate :: "32 word"

abbreviation STAT_ON :: "1 word" where "STAT_ON \<equiv> 0"
abbreviation STAT_OFF :: "1 word" where "STAT_OFF \<equiv> 1"

definition zero_lookup :: lookup_t where
  "zero_lookup = \<lparr>lk_valid = 0, lk_active = 0, lk_mode = 0, ue_ipv4 = 0, ue_teid = 0,
     sgw_gtpu_teid = 0, sgw_gtpu_ipv4 = 0, pgw_gtpu_ipv4 = 0, epoch_w = 0, commit_rate = 0,
     commit_burst_size = 0, commit_information_rate = 0, excess_rate = 0,
     excess_burst_size = 0, excess_information_rate = 0\<rparr>"

record lookup_table =
  slots :: nat
  data_side_a :: "nat \<Rightarrow> lookup_t"
  data_side_b :: "nat \<Rightarrow> lookup_t"
  data_side_bmp :: "nat \<Rightarrow> 64 word"
  virtual_clock_counter :: "64 word"
  virtual_clock_counter_prv :: "64 word"

datatype iter = End | SideA nat | SideB nat

datatype 'a outcome = Ret lookup_table 'a | Throw lookup_table

section \<open>Operations\<close>

definition Clear :: "lookup_table \<Rightarrow> lookup_table" where
  "Clear t = t\<lparr>data_side_bmp := (\<lambda>_. 0),
     data_side_a := (\<lambda>_. zero_lookup\<lparr>lk_valid := STAT_OFF\<rparr>),
     data_side_b := (\<lambda>_. zero_lookup\<lparr>lk_valid := STAT_OFF\<rparr>),
     virtual_clock_counter := 0, virtual_clock_counter_prv := 0\<rparr>"

definition Create :: "nat \<Rightarrow> lookup_table" where
  "Create S = Clear \<lparr>slots = S, data_side_a = (\<lambda>_. zero_lookup), data_side_b = (\<lambda>_. zero_lookup),
     data_side_bmp = (\<lambda>_. 0), virtual_clock_counter = 0, virtual_clock_counter_prv = 0\<rparr>"

definition Clock :: "lookup_table \<Rightarrow> lookup_table" where
  "Clock t = t\<lparr>virtual_clock_counter := virtual_clock_counter t + 1\<rparr>"

definition side_bits :: "32 word \<Rightarrow> 64 word" where
  "side_bits gcnt = push_bit (unat (gcnt - push_bit 6 (drop_bit 6 gcnt))) 1"

definition front_is_a :: "lookup_table \<Rightarrow> 32 word \<Rightarrow> bool" where
  "front_is_a t gcnt \<longleftrightarrow> data_side_bmp t (unat (drop_bit 6 gcnt)) AND side_bits gcnt \<noteq> 0"

definition Find :: "lookup_table \<Rightarrow> 32 word \<Rightarrow> bool \<Rightarrow> iter" where
  "Find t gcnt flag =
     (if unat gcnt > slots t - 1 then End
      else if flag then
        (if \<not> front_is_a t gcnt then SideA (unat gcnt) else SideB (unat gcnt))
      else if front_is_a t gcnt then
        (if lk_valid (data_side_a t (unat gcnt)) = STAT_ON then SideA (unat gcnt) else End)
      else
        (if lk_valid (data_side_b t (unat gcnt)) = STAT_ON then SideB (unat gcnt) else End))"

primrec deref :: "lookup_table \<Rightarrow> iter \<Rightarrow> lookup_t option" where
  "deref t End = None"
| "deref t (SideA i) = Some (data_side_a t i)"
| "deref t (SideB i) = Some (data_side_b t i)"

primrec assign :: "lookup_table \<Rightarrow> iter \<Rightarrow> lookup_t \<Rightarrow> lookup_table" where
  "assign t End v = t"
| "assign t (SideA i) v = t\<lparr>data_side_a := (data_side_a t)(i := v)\<rparr>"
| "assign t (SideB i) v = t\<lparr>data_side_b := (data_side_b t)(i := v)\<rparr>"

definition SwapSide :: "lookup_table \<Rightarrow> 32 word \<Rightarrow> lookup_table" where
  "SwapSide t gcnt =
     (let w = unat (drop_bit 6 gcnt) in
      t\<lparr>data_side_bmp := (data_side_bmp t)(w := data_side_bmp t w XOR side_bits gcnt)\<rparr>)"

text \<open>
  \<open>Add\<close> and \<open>Del\<close> as the sequence of their stores: \<open>SaveClock\<close> is
  \<open>virtual_clock_counter_prv_ = virtual_clock_counter_\<close>, \<open>CopyTo\<close> the \<open>memcpy\<close>
  of a record into a side, \<open>SetValid\<close> the assignment to \<open>stat.valid\<close> of a side and
  \<open>Flip\<close> the call of \<open>SwapSide\<close>. The operations run their stores; the section on
  concurrent readers looks at the states in between.
\<close>

datatype effect = SaveClock | CopyTo iter lookup_t | SetValid iter "1 word" | Flip "32 word"

datatype ending = Returns int | Throws

fun do_effect :: "lookup_table \<Rightarrow> effect \<Rightarrow> lookup_table" where
  "do_effect t SaveClock = t\<lparr>virtual_clock_counter_prv := virtual_clock_counter t\<rparr>"
| "do_effect t (CopyTo it v) = assign t it v"
| "do_effect t (SetValid it b) =
     (case deref t it of None \<Rightarrow> t | Some v \<Rightarrow> assign t it (v\<lparr>lk_valid := b\<rparr>))"
| "do_effect t (Flip g) = SwapSide t g"

fun run_effects :: "lookup_table \<Rightarrow> effect list \<times> ending \<Rightarrow> int outcome" where
  "run_effects t (es, Returns n) = Ret (foldl do_effect t es) n"
| "run_effects t (es, Throws) = Throw (foldl do_effect t es)"

text \<open>The clock check that opens \<open>Add\<close> and \<open>Del\<close>; \<open>None\<close> is the return of \<open>-1\<close>.\<close>

definition read_phase :: "lookup_table \<Rightarrow> bool \<Rightarrow> effect list option" where
  "read_phase t nochk_counter =
     (if nochk_counter then
        (if virtual_clock_counter t \<le> virtual_clock_counter_prv t then None else Some [SaveClock])
      else Some [])"

definition Add_effects ::
  "lookup_table \<Rightarrow> 32 word \<Rightarrow> lookup_t \<Rightarrow> bool \<Rightarrow> effect list \<times> ending" where
  "Add_effects t gcnt itm nochk_counter =
     (case read_phase t nochk_counter of
        None \<Rightarrow> ([], Returns (- 1))
      | Some es \<Rightarrow>
         (case Find (foldl do_effect t es) gcnt True of
            End \<Rightarrow> (es, Throws)
          | itr \<Rightarrow> (es @ [CopyTo itr (itm\<lparr>lk_valid := STAT_ON\<rparr>), Flip gcnt], Returns 0)))"

definition Del_effects :: "lookup_table \<Rightarrow> 32 word \<Rightarrow> bool \<Rightarrow> effect list \<times> ending" where
  "Del_effects t gcnt nochk_counter =
     (case read_phase t nochk_counter of
        None \<Rightarrow> ([], Returns (- 1))
      | Some es \<Rightarrow>
         (case Find (foldl do_effect t es) gcnt True of
            End \<Rightarrow> (es, Throws)
          | itr \<Rightarrow> (es @ [SetValid itr STAT_OFF, Flip gcnt], Returns 0)))"

definition Add :: "lookup_table \<Rightarrow> 32 word \<Rightarrow> lookup_t \<Rightarrow> bool \<Rightarrow> int outcome" where
  "Add t gcnt itm nochk_counter = run_effects t (Add_effects t gcnt itm nochk_counter)"

definition Del :: "lookup_table \<Rightarrow> 32 word \<Rightarrow> bool \<Rightarrow> int outcome" where
  "Del t gcnt nochk_counter = run_effects t (Del_effects t gcnt nochk_counter)"

text \<open>\<open>operator[]\<close>: the slot in front if it is valid, else the back side, validated and swapped.\<close>

definition index_op :: "lookup_table \<Rightarrow> 32 word \<Rightarrow> iter outcome" where
  "index_op t gcnt =
     (if unat gcnt > slots t - 1 then Throw t
      else case Find t gcnt False of
        SideA i \<Rightarrow> Ret (assign t (SideA i) ((data_side_a t i)\<lparr>lk_valid := STAT_ON\<rparr>)) (SideA i)
      | SideB i \<Rightarrow> Ret (assign t (SideB i) ((data_side_b t i)\<lparr>lk_valid := STAT_ON\<rparr>)) (SideB i)
      | End \<Rightarrow>
         (case Find t gcnt True of
            End \<Rightarrow> Throw t
          | SideA i \<Rightarrow>
              Ret (SwapSide (assign t (SideA i) ((data_side_a t i)\<lparr>lk_valid := STAT_ON\<rparr>)) gcnt) (SideA i)
          | SideB i \<Rightarrow>
              Ret (SwapSide (assign t (SideB i) ((data_side_b t i)\<lparr>lk_valid := STAT_ON\<rparr>)) gcnt) (SideB i)))"

text \<open>
  \<open>EnumerateForUpdate\<close>: the callback sees a copy of the front side on the back side of every
  slot from 1 on; then the whole bitmap is inverted, slot 0 included.
\<close>

definition enum_slot ::
  "(lookup_t \<Rightarrow> 'u \<Rightarrow> lookup_t \<times> 'u) \<Rightarrow> lookup_table \<times> 'u \<Rightarrow> nat \<Rightarrow> lookup_table \<times> 'u" where
  "enum_slot func tu i =
     (let (t, udata) = tu in
      if front_is_a t (word_of_nat i) then
        let (v, udata') = func (data_side_a t i) udata in
        (assign t (SideB i) (v\<lparr>lk_valid := STAT_ON\<rparr>), udata')
      else
        let (v, udata') = func (data_side_b t i) udata in
        (assign t (SideA i) (v\<lparr>lk_valid := STAT_ON\<rparr>), udata'))"

definition EnumerateForUpdate ::
  "(lookup_t \<Rightarrow> 'u \<Rightarrow> lookup_t \<times> 'u) \<Rightarrow> 'u \<Rightarrow> lookup_table \<Rightarrow> lookup_table \<times> 'u" where
  "EnumerateForUpdate func udata t =
     (let (t1, udata1) = foldl (enum_slot func) (t, udata) [1..<slots t];
          t2 = foldl (\<lambda>t w. t\<lparr>data_side_bmp := (data_side_bmp t)(w := data_side_bmp t w XOR (- 1))\<rparr>)
                 t1 [0..<slots t div 64]
      in (t2, udata1))"

section \<open>The bitmap\<close>

lemma unat_drop_bit6: "unat (drop_bit 6 (g :: 32 word)) = unat g div 64"
  by (simp add: drop_bit_eq_div unat_div)

lemma side_shift: "unat (g - push_bit 6 (drop_bit 6 g :: 32 word)) = unat g mod 64"
proof -
  have "push_bit 6 (drop_bit 6 g) = g - take_bit 6 g"
    using bits_ident [of 6 g] by (simp add: algebra_simps)
  then show ?thesis by (simp add: take_bit_eq_mod unat_mod)
qed

lemma side_bits_eq: "side_bits g = push_bit (unat g mod 64) 1"
  by (simp add: side_bits_def side_shift)

lemma front_is_a_bit: "front_is_a t g \<longleftrightarrow> bit (data_side_bmp t (unat g div 64)) (unat g mod 64)"
  by (simp add: front_is_a_def side_bits_eq unat_drop_bit6 bit_iff_and_push_bit_not_eq_0)

lemma bit_side_bits: "bit (side_bits g) n \<longleftrightarrow> n = unat g mod 64"
  by (auto simp: side_bits_eq bit_simps dest: bit_imp_le_length)

lemma same_slot: "unat (g :: 32 word) div 64 = unat g' div 64 \<Longrightarrow> unat g mod 64 = unat g' mod 64 \<Longrightarrow> g = g'"
  by (metis div_mult_mod_eq word_unat_eq_iff)

lemma front_is_a_SwapSide [simp]:
  "front_is_a (SwapSide t g) g' = (if g' = g then \<not> front_is_a t g else front_is_a t g')"
  by (auto simp: front_is_a_bit SwapSide_def Let_def unat_drop_bit6 bit_simps bit_side_bits
      dest: same_slot)

lemma SwapSide_frame [simp]:
  "slots (SwapSide t g) = slots t"
  "data_side_a (SwapSide t g) = data_side_a t" "data_side_b (SwapSide t g) = data_side_b t"
  by (simp_all add: SwapSide_def Let_def)

lemma assign_frame [simp]:
  "slots (assign t it v) = slots t" "data_side_bmp (assign t it v) = data_side_bmp t"
  "front_is_a (assign t it v) g = front_is_a t g"
  by (cases it; simp add: front_is_a_def)+

section \<open>What a lookup sees\<close>

text \<open>The abstract table: what \<open>Find(gcnt, 0)\<close> gives access to.\<close>

definition lookup_at :: "lookup_table \<Rightarrow> 32 word \<Rightarrow> lookup_t option" where
  "lookup_at t g = deref t (Find t g False)"

definition in_table :: "lookup_table \<Rightarrow> 32 word \<Rightarrow> bool" where
  "in_table t g \<longleftrightarrow> unat g < slots t"

definition wf_table :: "lookup_table \<Rightarrow> bool" where
  "wf_table t \<longleftrightarrow> 0 < slots t \<and> 64 dvd slots t \<and> slots t \<le> 2 ^ 32"

definition front_item :: "lookup_table \<Rightarrow> 32 word \<Rightarrow> lookup_t" where
  "front_item t g = (if front_is_a t g then data_side_a t (unat g) else data_side_b t (unat g))"

definition back_item :: "lookup_table \<Rightarrow> 32 word \<Rightarrow> lookup_t" where
  "back_item t g = (if front_is_a t g then data_side_b t (unat g) else data_side_a t (unat g))"

lemma in_range_iff: "0 < slots t \<Longrightarrow> \<not> unat g > slots t - 1 \<longleftrightarrow> in_table t g"
  by (auto simp: in_table_def)

lemma lookup_at_front:
  "0 < slots t \<Longrightarrow> lookup_at t g =
     (if in_table t g \<and> lk_valid (front_item t g) = STAT_ON then Some (front_item t g) else None)"
  by (auto simp: lookup_at_def Find_def front_item_def in_table_def)

lemma Find_back:
  "0 < slots t \<Longrightarrow> in_table t g \<Longrightarrow>
     Find t g True = (if front_is_a t g then SideB (unat g) else SideA (unat g))"
  by (auto simp: Find_def in_table_def)

lemma Find_End: "0 < slots t \<Longrightarrow> \<not> in_table t g \<Longrightarrow> Find t g f = End"
  by (auto simp: Find_def in_table_def)

text \<open>Writing the back side of a slot changes no lookup; swapping exposes the back side.\<close>

lemma front_item_assign_back:
  assumes "0 < slots t" "in_table t g"
  shows "front_item (assign t (Find t g True) v) g' = front_item t g'"
  using assms by (auto simp: Find_back front_item_def dest: word_unat_eq_iff [THEN iffD2])

lemma back_item_assign_back:
  assumes "0 < slots t" "in_table t g"
  shows "back_item (assign t (Find t g True) v) g = v"
  using assms by (simp add: Find_back back_item_def)

lemma front_item_SwapSide:
  "front_item (SwapSide t g) g' = (if g' = g then back_item t g else front_item t g')"
  by (simp add: front_item_def back_item_def)

lemma in_table_frame [simp]:
  "in_table (SwapSide t g) g' = in_table t g'" "in_table (assign t it v) g' = in_table t g'"
  by (simp_all add: in_table_def)

lemma lookup_at_assign_back:
  assumes "0 < slots t" "in_table t g"
  shows "lookup_at (assign t (Find t g True) v) g' = lookup_at t g'"
  using assms by (simp add: lookup_at_front front_item_assign_back)

lemma lookup_at_SwapSide:
  assumes "0 < slots t" "in_table t g"
  shows "lookup_at (SwapSide t g) g' =
     (if g' = g then (if lk_valid (back_item t g) = STAT_ON then Some (back_item t g) else None)
      else lookup_at t g')"
  using assms by (simp add: lookup_at_front front_item_SwapSide)

lemma lookup_at_write_swap:
  assumes "0 < slots t" "in_table t g"
  shows "lookup_at (SwapSide (assign t (Find t g True) v) g) g' =
     (if g' = g then (if lk_valid v = STAT_ON then Some v else None) else lookup_at t g')"
  using assms
  by (simp add: lookup_at_SwapSide back_item_assign_back lookup_at_assign_back)

lemma read_phase_frame:
  assumes "read_phase t c = Some es" and "t1 = foldl do_effect t es"
  shows "slots t1 = slots t" "lookup_at t1 g = lookup_at t g" "in_table t1 g = in_table t g"
    "back_item t1 g = back_item t g"
  using assms
  by (auto simp: read_phase_def lookup_at_def Find_def front_is_a_def in_table_def back_item_def
      split: if_splits)

lemma Add_effects_in_range:
  assumes "0 < slots t" "in_table t g" "read_phase t c = Some es" "t1 = foldl do_effect t es"
  shows "Add_effects t g itm c =
    (es @ [CopyTo (Find t1 g True) (itm\<lparr>lk_valid := STAT_ON\<rparr>), Flip g], Returns 0)"
  using assms read_phase_frame(1,3) [OF assms(3,4)] by (simp add: Add_effects_def Find_back)

lemma Del_effects_in_range:
  assumes "0 < slots t" "in_table t g" "read_phase t c = Some es" "t1 = foldl do_effect t es"
  shows "Del_effects t g c = (es @ [SetValid (Find t1 g True) STAT_OFF, Flip g], Returns 0)"
  using assms read_phase_frame(1,3) [OF assms(3,4)] by (simp add: Del_effects_def Find_back)

lemma deref_back:
  assumes "0 < slots t" "in_table t g"
  shows "deref t (Find t g True) = Some (back_item t g)"
  using assms by (simp add: Find_back back_item_def)

lemma Add_in_range:
  assumes "0 < slots t" "in_table t g" "read_phase t c = Some es" "t1 = foldl do_effect t es"
  shows "Add t g itm c =
      Ret (SwapSide (assign t1 (Find t1 g True) (itm\<lparr>lk_valid := STAT_ON\<rparr>)) g) 0"
  using assms by (simp add: Add_def Add_effects_in_range [OF assms])

lemma Del_in_range:
  assumes "0 < slots t" "in_table t g" "read_phase t c = Some es" "t1 = foldl do_effect t es"
  shows "Del t g c =
      Ret (SwapSide (assign t1 (Find t1 g True) ((back_item t1 g)\<lparr>lk_valid := STAT_OFF\<rparr>)) g) 0"
  using assms(1,2,4) read_phase_frame(1,3) [OF assms(3,4)] deref_back [of t1 g]
  by (simp add: Del_def Del_effects_in_range [OF assms])

lemma Add_lookup:
  assumes "0 < slots t" "in_table t g" "read_phase t c = Some es" and t1: "t1 = foldl do_effect t es"
  obtains t' where "Add t g itm c = Ret t' 0" "slots t' = slots t"
    "\<And>g'. lookup_at t' g' = (if g' = g then Some (itm\<lparr>lk_valid := STAT_ON\<rparr>) else lookup_at t g')"
proof
  let ?t = "SwapSide (assign t1 (Find t1 g True) (itm\<lparr>lk_valid := STAT_ON\<rparr>)) g"
  note fr = read_phase_frame [OF assms(3,4)]
  show "Add t g itm c = Ret ?t 0" using assms by (rule Add_in_range)
  show "slots ?t = slots t" by (simp add: fr)
  show "lookup_at ?t g' = (if g' = g then Some (itm\<lparr>lk_valid := STAT_ON\<rparr>) else lookup_at t g')" for g'
    using assms(1,2) by (simp add: fr lookup_at_write_swap)
qed

lemma Del_lookup:
  assumes "0 < slots t" "in_table t g" "read_phase t c = Some es" and t1: "t1 = foldl do_effect t es"
  obtains t' where "Del t g c = Ret t' 0" "slots t' = slots t"
    "\<And>g'. lookup_at t' g' = (if g' = g then None else lookup_at t g')"
proof
  let ?t = "SwapSide (assign t1 (Find t1 g True) ((back_item t1 g)\<lparr>lk_valid := STAT_OFF\<rparr>)) g"
  note fr = read_phase_frame [OF assms(3,4)]
  show "Del t g c = Ret ?t 0" using assms by (rule Del_in_range)
  show "slots ?t = slots t" by (simp add: fr)
  show "lookup_at ?t g' = (if g' = g then None else lookup_at t g')" for g'
    using assms(1,2) by (simp add: fr lookup_at_write_swap)
qed

section \<open>The table as a session table\<close>

text \<open>\<open>Add\<close> and \<open>Del\<close> as the binlog thread calls them, without the clock check.\<close>

definition tbl_store :: "lookup_table \<Rightarrow> 32 word \<Rightarrow> lookup_t \<Rightarrow> lookup_table" where
  "tbl_store t g itm = (case Add t g itm False of Ret t' _ \<Rightarrow> t' | Throw t' \<Rightarrow> t')"

definition tbl_erase :: "lookup_table \<Rightarrow> 32 word \<Rightarrow> lookup_table" where
  "tbl_erase t g = (case Del t g False of Ret t' _ \<Rightarrow> t' | Throw t' \<Rightarrow> t')"

definition validated :: "lookup_t \<Rightarrow> lookup_t" where
  "validated itm = itm\<lparr>lk_valid := STAT_ON\<rparr>"

lemma read_phase_unchecked [simp]: "read_phase t False = Some []"
  by (simp add: read_phase_def)

lemma tbl_slots [simp]: "slots (tbl_store t g itm) = slots t" "slots (tbl_erase t g) = slots t"
  by (auto simp: tbl_store_def tbl_erase_def Add_def Del_def Add_effects_def Del_effects_def
      split: iter.splits option.splits)

lemma tbl_store_lookup:
  assumes "0 < slots t" "in_table t g"
  shows "lookup_at (tbl_store t g itm) g' = (if g' = g then Some (validated itm) else lookup_at t g')"
proof -
  obtain t' where "Add t g itm False = Ret t' 0"
    "\<And>g'. lookup_at t' g' = (if g' = g then Some (itm\<lparr>lk_valid := STAT_ON\<rparr>) else lookup_at t g')"
    using Add_lookup [OF assms read_phase_unchecked refl] by metis
  then show ?thesis by (simp add: tbl_store_def validated_def)
qed

lemma tbl_erase_lookup:
  assumes "0 < slots t" "in_table t g"
  shows "lookup_at (tbl_erase t g) g' = (if g' = g then None else lookup_at t g')"
proof -
  obtain t' where "Del t g False = Ret t' 0"
    "\<And>g'. lookup_at t' g' = (if g' = g then None else lookup_at t g')"
    using Del_lookup [OF assms read_phase_unchecked refl] by metis
  then show ?thesis by (simp add: tbl_erase_def)
qed

interpretation dual: session_table wf_table in_table lookup_at tbl_store tbl_erase validated
  by unfold_locales
    (auto simp: wf_table_def tbl_store_lookup tbl_erase_lookup in_table_def)

section \<open>Lock-free readers\<close>

text \<open>
  A writer in the middle of its stores: a table and the stores left. A \<open>memcpy\<close> in progress
  may leave any octets in its target; the other stores are single machine stores. Memory is
  sequentially consistent, as on the one store order of x86 that the code relies on without fences.
\<close>

inductive effect_step :: "lookup_table \<times> effect list \<Rightarrow> lookup_table \<times> effect list \<Rightarrow> bool" where
  partial_copy: "effect_step (t, CopyTo it v # es) (assign t it w, CopyTo it v # es)"
| effect_done: "effect_step (t, e # es) (do_effect t e, es)"

inductive_cases effect_step_Nil: "effect_step (t, []) s"
inductive_cases effect_step_CopyTo: "effect_step (t, CopyTo it v # es) s"
inductive_cases effect_step_SetValid: "effect_step (t, SetValid it b # es) s"
inductive_cases effect_step_SaveClock: "effect_step (t, SaveClock # es) s"
inductive_cases effect_step_Flip: "effect_step (t, Flip g # es) s"

lemmas effect_step_elims = effect_step_Nil effect_step_CopyTo effect_step_SetValid
  effect_step_SaveClock effect_step_Flip

abbreviation effect_steps :: "lookup_table \<times> effect list \<Rightarrow> lookup_table \<times> effect list \<Rightarrow> bool" where
  "effect_steps \<equiv> effect_step\<^sup>*\<^sup>*"

text \<open>
  The loads of a reader: the bit in state \<open>t1\<close>, the valid flag of the side it chose in state
  \<open>t2\<close>, the record through the iterator in state \<open>t3\<close>.
\<close>

definition reader_gets :: "lookup_table \<Rightarrow> lookup_table \<Rightarrow> lookup_table \<Rightarrow> 32 word \<Rightarrow> lookup_t option" where
  "reader_gets t1 t2 t3 g =
     (if unat g > slots t1 - 1 then None
      else let it = (if front_is_a t1 g then SideA (unat g) else SideB (unat g)) in
        if map_option lk_valid (deref t2 it) = Some STAT_ON then deref t3 it else None)"

lemma reader_gets_Find: "deref t3 (Find t1 g False) = reader_gets t1 t1 t3 g"
  by (simp add: reader_gets_def Find_def)

text \<open>
  The phases of a write of \<open>v\<close> into slot \<open>g\<close> of table \<open>t\<close>: the bit as before and the
  front side of every slot untouched; then, with nothing left to store, the bit of \<open>g\<close> flipped
  and the new front side equal to \<open>v\<close>. The side in front before is never written.
\<close>

definition old_phase :: "lookup_table \<Rightarrow> lookup_table \<Rightarrow> bool" where
  "old_phase t t' \<longleftrightarrow> slots t' = slots t \<and> (\<forall>g. front_is_a t' g = front_is_a t g) \<and>
     (\<forall>g. front_item t' g = front_item t g)"

definition new_phase :: "lookup_table \<Rightarrow> 32 word \<Rightarrow> lookup_t \<Rightarrow> lookup_table \<Rightarrow> bool" where
  "new_phase t g v t' \<longleftrightarrow> slots t' = slots t \<and>
     (\<forall>g'. front_is_a t' g' = (if g' = g then \<not> front_is_a t g else front_is_a t g')) \<and>
     front_item t' g = v \<and> back_item t' g = front_item t g \<and>
     (\<forall>g'. g' \<noteq> g \<longrightarrow> front_item t' g' = front_item t g')"

text \<open>What is left to store in each phase.\<close>

fun stores_left :: "lookup_table \<Rightarrow> 32 word \<Rightarrow> lookup_t \<Rightarrow> lookup_table \<times> effect list \<Rightarrow> bool" where
  "stores_left t g v (t', []) \<longleftrightarrow> new_phase t g v t'"
| "stores_left t g v (t', [Flip g']) \<longleftrightarrow> g' = g \<and> old_phase t t' \<and> back_item t' g = v"
| "stores_left t g v (t', [CopyTo it w, Flip g']) \<longleftrightarrow>
     g' = g \<and> old_phase t t' \<and> it = Find t' g True \<and> w = v"
| "stores_left t g v (t', [SetValid it b, Flip g']) \<longleftrightarrow>
     g' = g \<and> old_phase t t' \<and> it = Find t' g True \<and> (back_item t' g)\<lparr>lk_valid := b\<rparr> = v"
| "stores_left t g v (t', SaveClock # es) \<longleftrightarrow>
     es \<noteq> [] \<and> old_phase t t' \<and> stores_left t g v (do_effect t' SaveClock, es)"
| "stores_left t g v _ \<longleftrightarrow> False"

lemma old_phase_refl [simp]: "old_phase t t"
  by (simp add: old_phase_def)

lemma old_phase_clock [simp]: "old_phase t (t'\<lparr>virtual_clock_counter_prv := n\<rparr>) = old_phase t t'"
  by (simp add: old_phase_def front_is_a_def front_item_def)

lemma old_phase_in_table:
  assumes "0 < slots t" "in_table t g" "old_phase t t'"
  shows "0 < slots t'" "in_table t' g"
  using assms by (simp_all add: old_phase_def in_table_def)

lemma Find_assign_back [simp]: "Find (assign t it w) g True = Find t g True"
  by (simp add: Find_def)

lemma old_phase_assign_back:
  assumes "0 < slots t" "in_table t g" "old_phase t t'"
  shows "old_phase t (assign t' (Find t' g True) w)"
  using assms front_item_assign_back [OF old_phase_in_table [OF assms]] by (simp add: old_phase_def)

lemmas old_phase_back = old_phase_assign_back
  deref_back [OF old_phase_in_table] back_item_assign_back [OF old_phase_in_table]

lemma old_phase_flip:
  assumes "old_phase t t'" "back_item t' g = v"
  shows "new_phase t g v (SwapSide t' g)"
proof -
  have "back_item (SwapSide t' g) g = front_item t' g"
    by (simp add: back_item_def front_item_def)
  with assms show ?thesis by (simp add: old_phase_def new_phase_def front_item_SwapSide)
qed

lemma stores_left_phase:
  assumes "stores_left t g v (t', es)"
  shows "if es = [] then new_phase t g v t' else old_phase t t'"
  using assms by (induction t g v "(t', es)" rule: stores_left.induct) auto

lemma stores_left_step:
  assumes "0 < slots t" "in_table t g" "stores_left t g v s" "effect_step s s'"
  shows "stores_left t g v s'"
  using assms(3,4,1,2)
  by (induction t g v s rule: stores_left.induct)
    (auto elim!: effect_step_elims simp: old_phase_flip old_phase_back)

lemma stores_left_steps:
  assumes "effect_steps s s'" "0 < slots t" "in_table t g" "stores_left t g v s"
  shows "stores_left t g v s'"
  using assms by (induction rule: rtranclp_induct) (auto dest: stores_left_step)

lemma effect_steps_Nil: "effect_steps (t, []) s \<Longrightarrow> s = (t, [])"
  by (erule converse_rtranclpE) (auto elim: effect_step_Nil)

text \<open>The side in front when the write starts keeps its record until the write is complete.\<close>

lemma old_front_kept:
  assumes "old_phase t t' \<or> new_phase t g v t'"
  shows "deref t' (if front_is_a t g' then SideA (unat g') else SideB (unat g')) =
    Some (front_item t g')"
  using assms
  by (cases "g' = g"; auto simp: old_phase_def new_phase_def front_item_def back_item_def split: if_splits; metis)

lemma reader_between:
  assumes "0 < slots t" "in_table t g" "stores_left t g v (t, es)"
    and "effect_steps (t, es) (t1, es1)" "effect_steps (t1, es1) (t2, es2)"
      "effect_steps (t2, es2) (t3, es3)"
  shows "reader_gets t1 t2 t3 g' =
    (if es1 = [] \<and> g' = g then (if lk_valid v = STAT_ON then Some v else None) else lookup_at t g')"
proof -
  note s1 = stores_left_steps [OF assms(4,1-3)]
  note s2 = stores_left_steps [OF assms(5,1,2) s1]
  note s3 = stores_left_steps [OF assms(6,1,2) s2]
  note ph = stores_left_phase [OF s1] stores_left_phase [OF s2] stores_left_phase [OF s3]
  show ?thesis
  proof (cases "es1 = []")
    case True
    then have "t2 = t1" "t3 = t1"
      using effect_steps_Nil assms(5,6) by blast+
    moreover have "reader_gets t1 t1 t1 g' = lookup_at t1 g'"
      by (simp add: lookup_at_def reader_gets_Find)
    ultimately show ?thesis
      using True ph(1) assms(1,2) by (auto simp: lookup_at_front new_phase_def in_table_def)
  next
    case False
    then have "slots t1 = slots t" "front_is_a t1 g' = front_is_a t g'"
      using ph(1) by (simp_all add: old_phase_def)
    moreover have "deref t2 (if front_is_a t g' then SideA (unat g') else SideB (unat g')) =
        Some (front_item t g')"
      "deref t3 (if front_is_a t g' then SideA (unat g') else SideB (unat g')) =
        Some (front_item t g')"
      using old_front_kept [of t t2 g v] old_front_kept [of t t3 g v] ph(2,3) by presburger+
    ultimately show ?thesis
      using False assms(1)
      by (simp add: reader_gets_def Let_def lookup_at_front in_range_iff [symmetric] del: if_split)
  qed
qed

text \<open>\<open>Add\<close> and \<open>Del\<close> start in that shape.\<close>

lemma Add_stores_left:
  assumes "0 < slots t" "in_table t g" "Add t g itm c = Ret t' 0"
  shows "stores_left t g (itm\<lparr>lk_valid := STAT_ON\<rparr>) (t, fst (Add_effects t g itm c))"
proof -
  obtain es where es: "read_phase t c = Some es"
    using assms(3) by (auto simp: Add_def Add_effects_def split: option.splits)
  then show ?thesis
    unfolding Add_effects_in_range [OF assms(1,2) es refl]
    by (auto simp: read_phase_def split: if_splits)
qed

lemma Del_stores_left:
  assumes "0 < slots t" "in_table t g" "Del t g c = Ret t' 0"
  shows "stores_left t g ((back_item t g)\<lparr>lk_valid := STAT_OFF\<rparr>) (t, fst (Del_effects t g c))"
proof -
  obtain es where es: "read_phase t c = Some es"
    using assms(3) by (auto simp: Del_def Del_effects_def split: option.splits)
  then show ?thesis
    unfolding Del_effects_in_range [OF assms(1,2) es refl]
    by (auto simp: read_phase_def back_item_def front_is_a_def split: if_splits)
qed

lemma effect_steps_fold: "effect_steps (t, es) (foldl do_effect t es, [])"
proof (induction es arbitrary: t)
  case (Cons e es)
  show ?case
    using converse_rtranclp_into_rtranclp [of effect_step, OF effect_step.effect_done Cons.IH] by simp
qed simp

lemma reader_of_write:
  assumes "0 < slots t" "in_table t g" "stores_left t g v (t, es)"
    and "effect_steps (t, es) (t1, es1)" "effect_steps (t1, es1) (t2, es2)"
      "effect_steps (t2, es2) (t3, es3)"
  shows "reader_gets t1 t2 t3 g' =
    (if es1 = [] then lookup_at (foldl do_effect t es) g' else lookup_at t g')"
proof -
  let ?t = "foldl do_effect t es"
  have "lookup_at ?t g' = reader_gets ?t ?t ?t g'"
    by (simp add: lookup_at_def reader_gets_Find)
  then have "lookup_at ?t g' =
      (if g' = g then (if lk_valid v = STAT_ON then Some v else None) else lookup_at t g')"
    using reader_between [OF assms(1-3) effect_steps_fold rtranclp.rtrancl_refl rtranclp.rtrancl_refl]
    by simp
  then show ?thesis by (simp add: reader_between [OF assms])
qed

section \<open>Updating every slot\<close>

lemma enum_slot_sides:
  assumes "\<And>v u. fst (func v u) = h v" and "foldl (enum_slot func) (t, u) [1..<n] = (t1, u1)"
  shows "slots t1 = slots t \<and> data_side_bmp t1 = data_side_bmp t \<and>
    data_side_a t1 = (\<lambda>i. if 1 \<le> i \<and> i < n \<and> \<not> front_is_a t (word_of_nat i)
        then validated (h (data_side_b t i)) else data_side_a t i) \<and>
    data_side_b t1 = (\<lambda>i. if 1 \<le> i \<and> i < n \<and> front_is_a t (word_of_nat i)
        then validated (h (data_side_a t i)) else data_side_b t i)"
  using assms(2)
proof (induction n arbitrary: t1 u1)
  case 0
  then show ?case by (simp add: fun_eq_iff)
next
  case (Suc n)
  show ?case
  proof (cases "n = 0")
    case True
    with Suc.prems show ?thesis by (auto simp: fun_eq_iff)
  next
    case False
    obtain t0 u0 where p: "foldl (enum_slot func) (t, u) [1..<n] = (t0, u0)"
      by fastforce
    note IH = Suc.IH [OF p]
    have fr: "front_is_a t0 g = front_is_a t g" for g
      using IH by (simp add: front_is_a_def)
    have "(t1, u1) = enum_slot func (t0, u0) n"
      using Suc.prems False p by simp
    then show ?thesis
      using IH False assms(1)
      by (cases "func (data_side_a t0 n) u0"; cases "func (data_side_b t0 n) u0")
        (auto simp: enum_slot_def fr fun_eq_iff validated_def less_Suc_eq split: if_splits; metis fst_conv)
  qed
qed

lemma flip_all:
  "foldl (\<lambda>t w. t\<lparr>data_side_bmp := (data_side_bmp t)(w := data_side_bmp t w XOR (- 1))\<rparr>) t [0..<n] =
     t\<lparr>data_side_bmp := (\<lambda>w. if w < n then data_side_bmp t w XOR (- 1) else data_side_bmp t w)\<rparr>"
  by (induction n) (auto simp: fun_eq_iff less_Suc_eq)

lemma EnumerateForUpdate_front:
  assumes "wf_table t" and "in_table t g" and "\<And>v u. fst (func v u) = h v"
    and "EnumerateForUpdate func u t = (t', u')"
  shows "slots t' = slots t" and "front_is_a t' g \<longleftrightarrow> \<not> front_is_a t g"
    and "front_item t' g = (if g = 0 then back_item t g else validated (h (front_item t g)))"
proof -
  obtain t1 u1 where p: "foldl (enum_slot func) (t, u) [1..<slots t] = (t1, u1)"
    by fastforce
  note S = enum_slot_sides [OF assms(3) p]
  have t': "t' = t1\<lparr>data_side_bmp := (\<lambda>w. if w < slots t div 64 then data_side_bmp t1 w XOR (- 1)
      else data_side_bmp t1 w)\<rparr>"
    using assms(4) unfolding EnumerateForUpdate_def p flip_all by simp
  show "slots t' = slots t" using S t' by simp
  have "unat g div 64 < slots t div 64"
    using assms(1,2) by (auto simp: wf_table_def in_table_def elim!: dvdE)
  then show fr: "front_is_a t' g \<longleftrightarrow> \<not> front_is_a t g"
    using S t' by (simp add: front_is_a_bit bit_simps)
  have z: "g = 0 \<longleftrightarrow> unat g = 0" by (simp add: unat_eq_zero)
  show "front_item t' g = (if g = 0 then back_item t g else validated (h (front_item t g)))"
    using S assms(2) unfolding front_item_def back_item_def fr z
    by (simp add: t' in_table_def)
qed

section \<open>Properties\<close>

text \<open>The events of the binlog thread on the table.\<close>

primrec tbl_event :: "lookup_table \<Rightarrow> (32 word, lookup_t) tevent \<Rightarrow> lookup_table" where
  "tbl_event t (Store g itm) = tbl_store t g itm"
| "tbl_event t (Erase g) = tbl_erase t g"

lemma dual_apply_event: "dual.apply_event = tbl_event"
proof (intro ext)
  fix t e show "dual.apply_event t e = tbl_event t e" by (cases e) simp_all
qed

text \<open>C4: After any sequence of additions and removals of tunnels (keys inside the table), a lookup of
  any slot answers exactly what the last event on that slot says, and what was there before if
  there was none: the bitmap and the two sides never mix up slots.\<close>

theorem lookup_after_events:
  assumes "wf_table t" and "\<forall>e\<in>set es. in_table t (tevent_key e)" and "in_table t g"
  shows "lookup_at (foldl tbl_event t es) g = expected validated (lookup_at t g) g es"
  using dual.find_apply_events [of t es g] assms by (simp add: dual_apply_event)

definition demo_item :: "32 word \<Rightarrow> lookup_t" where
  "demo_item x = zero_lookup\<lparr>ue_teid := x, sgw_gtpu_teid := x + 1\<rparr>"

theorem lookup_after_events_witness:
  "wf_table (Create 128) \<and>
   lookup_at (foldl tbl_event (Create 128) [Store 65 (demo_item 1), Store 1 (demo_item 2), Erase 1]) 65
     = Some (validated (demo_item 1))"
proof -
  have wf: "wf_table (Create 128)" by (simp add: wf_table_def Create_def Clear_def)
  have "lookup_at (foldl tbl_event (Create 128) [Store 65 (demo_item 1), Store 1 (demo_item 2), Erase 1]) 65
     = expected validated (lookup_at (Create 128) 65) (65 :: 32 word)
         [Store 65 (demo_item 1), Store 1 (demo_item 2), Erase 1]"
    by (rule lookup_after_events [OF wf]) (simp_all add: in_table_def Create_def Clear_def)
  with wf show ?thesis by simp
qed

text \<open>C2: A reader of the table that overlaps one Add or Del never gets a torn record. The writer's
  stores are the ones Add and Del are made of, in their order; while the copy into the back side runs
  it may hold any octets. A reader that loads the bit of a slot, later the valid flag of the side it
  chose and, through the iterator, still later the record (each in any state of the running
  operation) gets exactly what a lookup gave before the operation if it loaded the bit before the
  last store, and exactly what a lookup gives after the operation if it loaded it afterwards; the
  same holds of an iterator that Find returned and that is dereferenced later. Stores and loads are
  sequentially consistent here, and an iterator kept across a second write of its slot is not
  covered.\<close>

theorem reader_never_sees_torn_record:
  assumes "0 < slots t" and "in_table t g"
    and "Add t g itm c = Ret t' 0 \<and> es = fst (Add_effects t g itm c) \<or>
         Del t g c = Ret t' 0 \<and> es = fst (Del_effects t g c)"
    and "effect_steps (t, es) (t1, es1)" and "effect_steps (t1, es1) (t2, es2)"
    and "effect_steps (t2, es2) (t3, es3)"
  shows "reader_gets t1 t2 t3 g' = (if es1 = [] then lookup_at t' g' else lookup_at t g') \<and>
         deref t3 (Find t1 g' False) = (if es1 = [] then lookup_at t' g' else lookup_at t g')"
proof (intro conjI)
  obtain v where v: "stores_left t g v (t, es)"
    using assms(1-3) Add_stores_left Del_stores_left by blast
  have t': "t' = foldl do_effect t es"
    using assms(3) by (auto simp: Add_def Del_def elim: run_effects.elims)
  show "reader_gets t1 t2 t3 g' = (if es1 = [] then lookup_at t' g' else lookup_at t g')"
    using reader_of_write [OF assms(1,2) v assms(4-6)] t' by simp
  show "deref t3 (Find t1 g' False) = (if es1 = [] then lookup_at t' g' else lookup_at t g')"
    using reader_of_write [OF assms(1,2) v assms(4) rtranclp.rtrancl_refl
        rtranclp_trans [OF assms(5,6)]] t' by (simp add: reader_gets_Find)
qed

definition demo_table :: lookup_table where
  "demo_table = tbl_store (Create 64) 3 (demo_item 1)"

lemma demo_table_facts:
  "0 < slots demo_table" "in_table demo_table 3" "lookup_at demo_table 3 = Some (validated (demo_item 1))"
  "Add demo_table 3 v False = Ret (tbl_store demo_table 3 v) 0"
proof -
  have c: "0 < slots (Create 64)" "in_table (Create 64) 3"
    by (simp_all add: Create_def Clear_def in_table_def)
  show d: "0 < slots demo_table" "in_table demo_table 3"
    using c by (simp_all add: demo_table_def in_table_def)
  show "lookup_at demo_table 3 = Some (validated (demo_item 1))"
    by (simp add: demo_table_def tbl_store_lookup [OF c])
  show "Add demo_table 3 v False = Ret (tbl_store demo_table 3 v) 0"
    using Add_in_range [OF d read_phase_unchecked refl, of v] by (simp add: tbl_store_def)
qed

theorem reader_never_sees_torn_record_witness:
  "deref (tbl_store demo_table 3 (demo_item 7))
     (Find (assign demo_table (Find demo_table 3 True) (demo_item 9)) 3 False) =
   Some (validated (demo_item 1))"
proof -
  note d = demo_table_facts(1,2)
  let ?it = "Find demo_table 3 True" and ?v = "(demo_item 7)\<lparr>lk_valid := STAT_ON\<rparr>"
  let ?t1 = "assign demo_table ?it (demo_item 9)" and ?es = "[CopyTo ?it ?v, Flip 3]"
  have E: "fst (Add_effects demo_table 3 (demo_item 7) False) = ?es"
    using Add_effects_in_range [OF d read_phase_unchecked refl] by simp
  have t3: "tbl_store demo_table 3 (demo_item 7) = foldl do_effect ?t1 ?es"
    using demo_table_facts(4) [of "demo_item 7"] Add_in_range [OF d read_phase_unchecked refl]
    by (cases ?it) simp_all
  show ?thesis
    using reader_never_sees_torn_record [OF d, of "demo_item 7" False "tbl_store demo_table 3 (demo_item 7)"
        ?es ?t1 ?es ?t1 ?es "tbl_store demo_table 3 (demo_item 7)" "[]" 3]
      demo_table_facts(3,4) E effect_steps_fold [of ?t1 ?es] t3
      r_into_rtranclp [of effect_step, OF effect_step.partial_copy [of demo_table ?it ?v "[Flip 3]" "demo_item 9"]]
    by simp
qed

text \<open>An iterator kept across a second write of its slot can be torn: the first write puts the other
  side in front, so the second one copies into the record the reader still holds.\<close>

theorem iterator_torn_by_second_write:
  assumes "0 < slots t" and "in_table t g" and "Find t g False = it" and "it \<noteq> End"
    and "Add t g v1 False = Ret t1 0"
  shows "\<exists>t2 es. effect_steps (t1, fst (Add_effects t1 g v2 False)) (t2, es) \<and>
    es \<noteq> [] \<and> deref t2 it = Some torn"
proof -
  let ?u = "assign t (Find t g True) (v1\<lparr>lk_valid := STAT_ON\<rparr>)"
  have t1: "t1 = SwapSide ?u g"
    using assms(5) Add_in_range [OF assms(1,2) read_phase_unchecked refl, of v1] by simp
  then have r: "0 < slots t1" "in_table t1 g" using assms(1,2) by simp_all
  have it: "Find t1 g True = it"
    using assms(1-4) r t1 by (auto simp: Find_back) (auto simp: Find_def split: if_splits)
  let ?es = "[CopyTo it (v2\<lparr>lk_valid := STAT_ON\<rparr>), Flip g]"
  have "fst (Add_effects t1 g v2 False) = ?es"
    using Add_effects_in_range [OF r read_phase_unchecked refl, of v2] it by simp
  moreover have "effect_steps (t1, ?es) (assign t1 it torn, ?es)"
    by (rule r_into_rtranclp [of effect_step, OF effect_step.partial_copy])
  moreover have "deref (assign t1 it torn) it = Some torn"
    using assms(4) by (cases it) simp_all
  ultimately show ?thesis by auto
qed

theorem iterator_torn_by_second_write_witness:
  "\<exists>t2 es. effect_steps (tbl_store demo_table 3 (demo_item 7),
      fst (Add_effects (tbl_store demo_table 3 (demo_item 7)) 3 (demo_item 8) False)) (t2, es) \<and>
    es \<noteq> [] \<and> deref t2 (Find demo_table 3 False) = Some (demo_item 9)"
  by (rule iterator_torn_by_second_write [OF demo_table_facts(1,2) refl _ demo_table_facts(4)])
    (use demo_table_facts(3) in \<open>auto simp: lookup_at_def\<close>)

text \<open>Error paths of Add and Del: with the clock check on and no tick since the last accepted write
  the operation returns -1 and changes nothing; a key outside the table throws, and in both cases
  every lookup still answers as before.\<close>

theorem add_del_errors:
  assumes "0 < slots t" and "virtual_clock_counter t \<le> virtual_clock_counter_prv t \<or> \<not> in_table t g"
  shows "(virtual_clock_counter t \<le> virtual_clock_counter_prv t \<longrightarrow>
           Add t g itm True = Ret t (- 1) \<and> Del t g True = Ret t (- 1)) \<and>
         (\<not> in_table t g \<longrightarrow>
           (\<exists>t1. Add t g itm False = Throw t1 \<and> Del t g False = Throw t1 \<and>
                 (\<forall>g'. lookup_at t1 g' = lookup_at t g')))"
  using assms by (auto simp: Add_def Del_def Add_effects_def Del_effects_def read_phase_def Find_End)

theorem add_del_errors_witness:
  "Add (Create 64) 3 (demo_item 1) True = Ret (Create 64) (- 1) \<and>
   (\<exists>t1. Add (Create 64) 64 (demo_item 1) False = Throw t1)"
proof -
  have c: "0 < slots (Create 64)"
    "virtual_clock_counter (Create 64) \<le> virtual_clock_counter_prv (Create 64)"
    "\<not> in_table (Create 64) 64"
    by (simp_all add: Create_def Clear_def in_table_def)
  show ?thesis
    using add_del_errors [OF c(1), of 3 "demo_item 1"] add_del_errors [OF c(1), of 64 "demo_item 1"] c
    by blast
qed

text \<open>EnumerateForUpdate replaces the visible record of every slot except slot 0 by the callback's
  result, marked valid; but it inverts the whole bitmap, so slot 0, which the loop skips, exposes
  its stale back side: a tunnel stored in slot 0 of a fresh table is no longer found.\<close>

theorem enumerate_updates_all_but_slot_zero:
  assumes "wf_table t" and "\<And>v u. fst (func v u) = h v"
    and "EnumerateForUpdate func u t = (t', u')"
  shows "(\<forall>g. in_table t g \<and> g \<noteq> 0 \<longrightarrow> lookup_at t' g = Some (validated (h (front_item t g)))) \<and>
         (lk_valid (back_item t 0) = STAT_OFF \<longrightarrow> lookup_at t' 0 = None)"
proof -
  have s: "0 < slots t" using assms(1) by (simp add: wf_table_def)
  note F = EnumerateForUpdate_front [OF assms(1) _ assms(2,3)]
  have s': "slots t' = slots t" using F(1) [of 0] s by (simp add: in_table_def)
  have "lookup_at t' g = Some (validated (h (front_item t g)))" if "in_table t g" "g \<noteq> 0" for g
    using F(3) [OF that(1)] that s s' by (simp add: lookup_at_front in_table_def validated_def)
  moreover have "lookup_at t' 0 = None" if "lk_valid (back_item t 0) = STAT_OFF"
    using F(3) [of 0] that s s' by (simp add: lookup_at_front in_table_def)
  ultimately show ?thesis by blast
qed

theorem enumerate_updates_all_but_slot_zero_witness:
  "lookup_at (tbl_store (Create 64) 0 (demo_item 5)) 0 = Some (validated (demo_item 5)) \<and>
   lookup_at (fst (EnumerateForUpdate (\<lambda>v u. (v, u)) () (tbl_store (Create 64) 0 (demo_item 5)))) 0 = None"
proof -
  let ?t = "tbl_store (Create 64) 0 (demo_item 5)"
  have c: "0 < slots (Create 64)" "in_table (Create 64) 0"
    by (simp_all add: Create_def Clear_def in_table_def)
  have wf: "wf_table ?t" by (simp add: wf_table_def) (simp add: Create_def Clear_def)
  have e: "EnumerateForUpdate (\<lambda>v u. (v, u)) () ?t =
      (fst (EnumerateForUpdate (\<lambda>v u. (v, u)) () ?t), snd (EnumerateForUpdate (\<lambda>v u. (v, u)) () ?t))"
    by (rule prod.collapse [symmetric])
  have "lk_valid (back_item ?t 0) = STAT_OFF"
    by (simp add: tbl_store_def Add_def Add_effects_def Find_def read_phase_def back_item_def SwapSide_def
        front_is_a_def side_bits_def Create_def Clear_def)
  then show ?thesis
    using enumerate_updates_all_but_slot_zero [OF wf, of "\<lambda>v u. (v, u)" id, OF _ e]
      tbl_store_lookup [OF c, of "demo_item 5" 0]
    by simp
qed

end
