(* ===== verification/Text_Utils.thy ===== *)
theory Text_Utils
  imports Pgw_Prelude
begin

text \<open>
  The string helpers of \<open>dataplane/inc/mixi_pgw_data_plane_def.hpp\<close>: \<open>str_split\<close>,
  \<open>get_ipv4\<close> and \<open>parse_mysql\<close>, with the functions of the C library they use
  (\<open>strstr\<close>, \<open>strchr\<close>, \<open>strpbrk\<close>, \<open>strtoul\<close>). A C string is the list of its
  characters before the terminating NUL.
\<close>

section \<open>The C library\<close>

text \<open>\<open>strstr\<close>: the offset of the first occurrence.\<close>

fun strstr :: "string \<Rightarrow> string \<Rightarrow> nat option" where
  "strstr [] sep = (if sep = [] then Some 0 else None)"
| "strstr (c # s) sep =
     (if take (length sep) (c # s) = sep then Some 0 else map_option Suc (strstr s sep))"

text \<open>\<open>strpbrk\<close> and \<open>strchr\<close>: the offset of the first character that is in a set.\<close>

fun strpbrk :: "string \<Rightarrow> string \<Rightarrow> nat option" where
  "strpbrk [] cs = None"
| "strpbrk (c # s) cs = (if c \<in> set cs then Some 0 else map_option Suc (strpbrk s cs))"

definition strchr :: "string \<Rightarrow> char \<Rightarrow> nat option" where
  "strchr s c = strpbrk s [c]"

definition is_digit :: "char \<Rightarrow> bool" where
  "is_digit c \<longleftrightarrow> 48 \<le> (of_char c :: nat) \<and> (of_char c :: nat) \<le> 57"

definition is_space :: "char \<Rightarrow> bool" where
  "is_space c \<longleftrightarrow> (of_char c :: nat) = 32 \<or> (9 \<le> (of_char c :: nat) \<and> (of_char c :: nat) \<le> 13)"

definition digit_val :: "char \<Rightarrow> nat" where
  "digit_val c = of_char c - 48"

definition dec_val :: "string \<Rightarrow> nat" where
  "dec_val s = foldl (\<lambda>n c. 10 * n + digit_val c) 0 s"

text \<open>
  \<open>strtoul(s, NULL, 10)\<close>: leading white space, an optional sign, the longest run of digits;
  the value saturates at \<open>ULONG_MAX\<close>, a minus sign negates the rest.
\<close>

definition strtoul :: "string \<Rightarrow> 64 word" where
  "strtoul s =
     (let s = dropWhile is_space s;
          (neg, s) = (case s of c # r \<Rightarrow> if c = CHR ''-'' then (True, r)
                        else if c = CHR ''+'' then (False, r) else (False, s) | [] \<Rightarrow> (False, s));
          n = dec_val (takeWhile is_digit s)
      in if n > 2 ^ 64 - 1 then - 1 else if neg then - word_of_nat n else word_of_nat n)"

section \<open>Splitting\<close>

text \<open>
  The loop of \<open>str_split\<close>: an occurrence at the current position is skipped, any other ends a
  token; the guard gives up (\<open>None\<close>) after a thousand rounds.
\<close>

function str_split_loop :: "string \<Rightarrow> string \<Rightarrow> string list \<Rightarrow> nat \<Rightarrow> string list option" where
  "str_split_loop sep current splitted busyloop_counter =
     (case strstr current sep of
        None \<Rightarrow> Some (splitted @ [current])
      | Some i \<Rightarrow>
         let current' = (if i = 0 then drop (length sep) current else drop i current);
             splitted' = (if i = 0 then splitted else splitted @ [take i current])
         in if current' = [] then Some splitted'
            else if busyloop_counter + 1 > 1000 then None
            else str_split_loop sep current' splitted' (busyloop_counter + 1))"
  by pat_completeness auto
termination by (relation "measure (\<lambda>(sep, current, splitted, n). 1001 - n)") auto

declare str_split_loop.simps [simp del]

definition str_split :: "string \<Rightarrow> string \<Rightarrow> string list option" where
  "str_split src sep = (if src = [] \<or> sep = [] then None else str_split_loop sep src [] 0)"

definition get_ipv4 :: "string \<Rightarrow> nat \<Rightarrow> byte list option" where
  "get_ipv4 src len =
     (if len < 4 then None
      else case str_split src ''.'' of
        None \<Rightarrow> None
      | Some parts \<Rightarrow>
          if length parts \<noteq> 4 then None else Some (map (\<lambda>s. ucast (strtoul s)) parts))"

section \<open>The database address\<close>

text \<open>
  \<open>parse_mysql\<close>: \<open>Untouched\<close> is an early return, which leaves the output buffers alone;
  \<open>Null_Deref\<close> reads through the null pointer that \<open>strpbrk\<close> returned.
\<close>

datatype dburi_result = Untouched | Null_Deref | Parsed string string string "32 word"

definition parse_mysql :: "string \<Rightarrow> nat \<Rightarrow> nat \<Rightarrow> nat \<Rightarrow> dburi_result" where
  "parse_mysql dburi len_user len_pwd len_host =
     (if len_user = 0 \<or> len_pwd = 0 \<or> len_host = 0 then Untouched
      else case strchr dburi (CHR '':'') of
        None \<Rightarrow> Untouched
      | Some p \<Rightarrow>
         if take 2 (drop (p + 1) dburi) \<noteq> ''//'' then Untouched
         else
           let user = drop (p + 3) dburi in
           case strpbrk user '':@'' of
             None \<Rightarrow> Null_Deref
           | Some user_end \<Rightarrow>
              let pass = drop (user_end + 1) user in
              (case (if user ! user_end = CHR '':'' then strchr pass (CHR ''@'') else Some 0) of
                 None \<Rightarrow> Untouched
               | Some pass_end \<Rightarrow>
                  if pass_end = 0 then Untouched
                  else
                    let host = drop (pass_end + 1) pass in
                    (case strchr host (CHR '':'') of
                       Some 0 \<Rightarrow> Untouched
                     | Some host_end \<Rightarrow> Parsed (take (min user_end len_user) user)
                         (take (min pass_end len_pwd) pass) (take (min host_end len_host) host)
                         (ucast (strtoul (drop (host_end + 1) host)))
                     | None \<Rightarrow> Parsed (take (min user_end len_user) user)
                         (take (min pass_end len_pwd) pass) (take (min (length host) len_host) host) 3306)))"

section \<open>Lemmas on the C library\<close>

lemma strstr_char: "strstr s [c] = strpbrk s [c]"
  by (induction s) auto

lemma strpbrk_None: "strpbrk s cs = None \<longleftrightarrow> (\<forall>c\<in>set s. c \<notin> set cs)"
  by (induction s) auto

lemma strpbrk_append:
  "\<forall>c\<in>set s. c \<notin> set cs \<Longrightarrow> d \<in> set cs \<Longrightarrow> strpbrk (s @ d # t) cs = Some (length s)"
  by (induction s) auto

lemma strpbrk_Some:
  "strpbrk s cs = Some i \<Longrightarrow> i < length s \<and> s ! i \<in> set cs \<and> (\<forall>c\<in>set (take i s). c \<notin> set cs)"
  by (induction s arbitrary: i) (auto split: if_splits)

text \<open>Decimal numerals.\<close>

fun dec :: "nat \<Rightarrow> string" where
  "dec n = (if n < 10 then [char_of (48 + n)] else dec (n div 10) @ [char_of (48 + n mod 10)])"

declare dec.simps [simp del]

lemma digit_char:
  assumes "n < 10"
  shows "is_digit (char_of (48 + n))" "digit_val (char_of (48 + n)) = n"
    "\<not> is_space (char_of (48 + n))" "char_of (48 + n) \<noteq> CHR ''-''" "char_of (48 + n) \<noteq> CHR ''+''"
    "char_of (48 + n) \<noteq> CHR ''.''" "char_of (48 + n) \<noteq> CHR '':''"
proof -
  have c: "(of_char (char_of (48 + n) :: char) :: nat) = 48 + n" using assms by (simp add: of_char_of)
  have ne: "char_of (48 + n) \<noteq> x" if "(of_char x :: nat) < 48 \<or> 57 < (of_char x :: nat)" for x :: char
    using that c assms by auto
  show "is_digit (char_of (48 + n))" "digit_val (char_of (48 + n)) = n" "\<not> is_space (char_of (48 + n))"
    using c assms by (simp_all add: is_digit_def digit_val_def is_space_def)
  show "char_of (48 + n) \<noteq> CHR ''-''" "char_of (48 + n) \<noteq> CHR ''+''"
    "char_of (48 + n) \<noteq> CHR ''.''" "char_of (48 + n) \<noteq> CHR '':''"
    by (rule ne, simp)+
qed

lemma dec_digits: "c \<in> set (dec n) \<Longrightarrow> \<exists>d<(10::nat). c = char_of (48 + d)"
proof (induction n rule: dec.induct)
  case (1 n)
  show ?case
  proof (cases "n < 10")
    case True
    with "1.prems" show ?thesis by (auto simp: dec.simps [of n])
  next
    case False
    with "1.prems" have "c \<in> set (dec (n div 10)) \<or> c = char_of (48 + n mod 10)"
      by (auto simp: dec.simps [of n])
    then show ?thesis using "1.IH" [OF False] by (metis mod_less_divisor zero_less_numeral)
  qed
qed

lemma dec_val_snoc: "dec_val (s @ [c]) = 10 * dec_val s + digit_val c"
  by (simp add: dec_val_def)

lemma dec_val_dec: "dec_val (dec n) = n"
proof (induction n rule: dec.induct)
  case (1 n)
  show ?case
  proof (cases "n < 10")
    case True
    then show ?thesis using digit_char(2) [of n] by (simp add: dec.simps [of n] dec_val_def)
  next
    case False
    then show ?thesis
      using "1.IH" [OF False] digit_char(2) [of "n mod 10"]
      by (simp add: dec.simps [of n] dec_val_snoc)
  qed
qed

lemma dec_not_Nil: "dec n \<noteq> []"
  by (subst dec.simps) simp

lemma strtoul_dec:
  assumes "n < 2 ^ 64" "r = [] \<or> \<not> is_digit (hd r)"
  shows "strtoul (dec n @ r) = word_of_nat n"
proof -
  obtain c s where cs: "dec n = c # s" using dec_not_Nil [of n] by (cases "dec n") auto
  have dig: "\<forall>c\<in>set (dec n). is_digit c \<and> \<not> is_space c \<and> c \<noteq> CHR ''-'' \<and> c \<noteq> CHR ''+''"
  proof
    fix c assume "c \<in> set (dec n)"
    then obtain d :: nat where "d < 10" "c = char_of (48 + d)" using dec_digits by blast
    with digit_char [of d] show "is_digit c \<and> \<not> is_space c \<and> c \<noteq> CHR ''-'' \<and> c \<noteq> CHR ''+''"
      by (simp only: simp_thms)
  qed
  then have c: "\<not> is_space c" "c \<noteq> CHR ''-''" "c \<noteq> CHR ''+''" unfolding cs by simp_all
  have t: "takeWhile is_digit (c # (s @ r)) = dec n"
  proof -
    have "takeWhile is_digit r = []" using assms(2) by (cases r) auto
    moreover have "\<forall>c\<in>set (c # s). is_digit c" using dig unfolding cs by blast
    ultimately show ?thesis
      using takeWhile_append2 [of "c # s" is_digit r] unfolding cs by simp
  qed
  have d: "dropWhile is_space (dec n @ r) = c # (s @ r)" using c(1) by (simp add: cs)
  have "\<not> n > 2 ^ 64 - 1" using assms(1) by linarith
  then show ?thesis
    unfolding strtoul_def d Let_def list.case using c(2,3) by (simp only: if_False case_prod_conv t dec_val_dec)
qed

section \<open>Splitting, as a specification\<close>

text \<open>The non-empty tokens of a string between separator characters.\<close>

function tokens :: "char \<Rightarrow> string \<Rightarrow> string list" where
  "tokens c s = (case dropWhile (\<lambda>x. x = c) s of [] \<Rightarrow> []
     | x # t \<Rightarrow> takeWhile (\<lambda>x. x \<noteq> c) (x # t) # tokens c (dropWhile (\<lambda>x. x \<noteq> c) (x # t)))"
  by pat_completeness auto
termination
proof (relation "measure (length \<circ> snd)", goal_cases)
  case (2 c s x t)
  then have "x \<noteq> c" by (simp add: dropWhile_eq_Cons_conv)
  moreover have "length (dropWhile (\<lambda>x. x \<noteq> c) t) \<le> length t" by (rule length_dropWhile_le)
  moreover have "length (x # t) \<le> length s" using length_dropWhile_le [of "\<lambda>x. x = c" s] 2 by simp
  ultimately show ?case by simp
qed simp

declare tokens.simps [simp del]

lemma tokens_Nil [simp]: "tokens c [] = []"
  by (simp add: tokens.simps)

lemma tokens_sep [simp]: "tokens c (c # s) = tokens c s"
  by (subst (1 2) tokens.simps) simp

lemma tokens_step:
  "x \<noteq> c \<Longrightarrow> tokens c (x # t) =
     takeWhile (\<lambda>x. x \<noteq> c) (x # t) # tokens c (dropWhile (\<lambda>x. x \<noteq> c) (x # t))"
  by (subst tokens.simps) simp

lemma tokens_last:
  assumes "s \<noteq> []" "c \<notin> set s" shows "tokens c s = [s]"
proof -
  have "takeWhile (\<lambda>x. x \<noteq> c) s = s" "dropWhile (\<lambda>x. x \<noteq> c) s = []"
    using assms(2) by (auto simp: takeWhile_eq_all_conv dropWhile_eq_Nil_conv)
  moreover obtain x t where s: "s = x # t" "x \<noteq> c" using assms by (cases s) auto
  ultimately show ?thesis using tokens_step [of x c t] s(2) unfolding s(1) [symmetric] by (metis tokens_Nil)
qed

lemma tokens_first:
  assumes "t \<noteq> []" "c \<notin> set t"
  shows "tokens c (t @ c # r) = t # tokens c r"
proof -
  have "takeWhile (\<lambda>x. x \<noteq> c) (t @ c # r) = t" "dropWhile (\<lambda>x. x \<noteq> c) (t @ c # r) = c # r"
    using assms(2) by (auto simp: takeWhile_append dropWhile_append takeWhile_eq_all_conv)
  moreover obtain x t' where t: "t = x # t'" "x \<noteq> c" using assms by (cases t) auto
  then have "tokens c (t @ c # r) = takeWhile (\<lambda>x. x \<noteq> c) (t @ c # r) #
      tokens c (dropWhile (\<lambda>x. x \<noteq> c) (t @ c # r))"
    using tokens_step [of x c "t' @ c # r"] by simp
  ultimately show ?thesis by simp
qed

lemma strchr_split: "strchr s c = Some i \<Longrightarrow> s = take i s @ c # drop (Suc i) s \<and> c \<notin> set (take i s)"
  using strpbrk_Some [of s "[c]" i] id_take_nth_drop [of i s] by (auto simp: strchr_def)

lemma str_split_loop_tokens:
  "current \<noteq> [] \<Longrightarrow> n + length current \<le> 1001 \<Longrightarrow>
     str_split_loop [c] current acc n = Some (acc @ tokens c current)"
proof (induction "[c]" current acc n rule: str_split_loop.induct)
  case (1 current acc n)
  show ?case
  proof (cases "strchr current c")
    case None
    then have "c \<notin> set current" by (auto simp: strchr_def strpbrk_None)
    with None "1.prems" show ?thesis
      by (simp add: str_split_loop.simps [of "[c]" current] strstr_char strchr_def [symmetric] tokens_last)
  next
    case (Some i)
    note sp = strchr_split [OF Some]
    define cur where "cur = (if i = 0 then drop (length [c]) current else drop i current)"
    define acc' where "acc' = (if i = 0 then acc else acc @ [take i current])"
    have i: "i < length current" using strpbrk_Some Some by (auto simp: strchr_def)
    have step: "str_split_loop [c] current acc n = (if cur = [] then Some acc'
        else if n + 1 > 1000 then None else str_split_loop [c] cur acc' (n + 1))"
      using Some by (simp add: str_split_loop.simps [of "[c]" current] strstr_char
          strchr_def [symmetric] cur_def acc'_def Let_def)
    have tok: "acc' @ tokens c cur = acc @ tokens c current"
    proof (cases "i = 0")
      case True
      with sp have "current = c # drop 1 current" by simp
      then have "tokens c current = tokens c (drop 1 current)" by (metis tokens_sep)
      with True show ?thesis by (simp add: cur_def acc'_def)
    next
      case False
      with i sp have "tokens c current = take i current # tokens c (drop (Suc i) current)"
        using tokens_first [of "take i current" c "drop (Suc i) current"] by fastforce
      moreover have "drop i current = c # drop (Suc i) current"
        using sp i by (metis append_take_drop_id same_append_eq)
      ultimately show ?thesis using False by (simp add: cur_def acc'_def)
    qed
    have len: "length cur < length current"
      using i by (auto simp: cur_def)
    show ?thesis
    proof (cases "cur = []")
      case True
      with step tok show ?thesis by simp
    next
      case False
      then have le: "\<not> n + 1 > 1000" "n + 1 + length cur \<le> 1001"
        using len "1.prems"(2) by (auto simp: neq_Nil_conv)
      have "str_split_loop [c] cur acc' (n + 1) = Some (acc' @ tokens c cur)"
        using "1.hyps" [OF _ cur_def acc'_def] Some False le
        by (simp add: strstr_char strchr_def [symmetric])
      with step False le tok show ?thesis by simp
    qed
  qed
qed

lemma str_split_tokens:
  "s \<noteq> [] \<Longrightarrow> length s \<le> 1001 \<Longrightarrow> str_split s [c] = Some (tokens c s)"
  by (simp add: str_split_def str_split_loop_tokens)

section \<open>Properties\<close>

text \<open>Splitting a string at a separator character yields exactly its non-empty tokens, in order, for
  every string of up to 1001 characters; the guard against endless loops never cuts such a string
  short.\<close>

theorem str_split_yields_tokens:
  assumes "s \<noteq> []" "length s \<le> 1001"
  shows "str_split s [c] = Some (tokens c s) \<and> (\<forall>t\<in>set (tokens c s). t \<noteq> [] \<and> c \<notin> set t) \<and>
    concat (tokens c s) = filter (\<lambda>x. x \<noteq> c) s"
proof -
  have "(\<forall>t\<in>set (tokens c s). t \<noteq> [] \<and> c \<notin> set t) \<and> concat (tokens c s) = filter (\<lambda>x. x \<noteq> c) s"
  proof (induction c s rule: tokens.induct)
    case (1 c s)
    have skip: "filter (\<lambda>x. x \<noteq> c) s = filter (\<lambda>x. x \<noteq> c) (dropWhile (\<lambda>x. x = c) s)"
      by (induction s) auto
    show ?case
    proof (cases "dropWhile (\<lambda>x. x = c) s")
      case Nil
      then have "tokens c s = []" by (subst tokens.simps) (simp only: list.case)
      moreover have "filter (\<lambda>x. x \<noteq> c) s = []" using Nil skip by (simp only: filter.simps)
      ultimately show ?thesis by (simp only: list.set concat.simps) simp
    next
      case (Cons x t)
      then have x: "x \<noteq> c" by (simp add: dropWhile_eq_Cons_conv)
      have "filter (\<lambda>x. x \<noteq> c) (x # t) = takeWhile (\<lambda>x. x \<noteq> c) (x # t) @
          filter (\<lambda>x. x \<noteq> c) (dropWhile (\<lambda>x. x \<noteq> c) (x # t))"
        by (metis (mono_tags, lifting) filter_append filter_True set_takeWhileD takeWhile_dropWhile_id)
      with "1.IH" [OF Cons] Cons x skip show ?thesis
        by (auto simp: tokens.simps [of c s] dest: set_takeWhileD)
    qed
  qed
  with assms show ?thesis by (simp add: str_split_tokens)
qed

theorem str_split_yields_tokens_witness:
  "str_split ''a..bc.'' ''.'' = Some (tokens (CHR ''.'') ''a..bc.'')"
  using str_split_yields_tokens [of "''a..bc.''" "CHR ''.''"] by simp

text \<open>The dotted notation of an address.\<close>

definition dotted :: "byte \<Rightarrow> byte \<Rightarrow> byte \<Rightarrow> byte \<Rightarrow> string" where
  "dotted a b c d = dec (unat a) @ ''.'' @ dec (unat b) @ ''.'' @ dec (unat c) @ ''.'' @ dec (unat d)"

lemma dec_length: "n < 1000 \<Longrightarrow> length (dec n) \<le> 3"
  by (simp add: dec.simps [of n] dec.simps [of "n div 10"] dec.simps [of "n div 10 div 10"])

lemma dec_no_dot: "CHR ''.'' \<notin> set (dec n)"
proof
  assume "CHR ''.'' \<in> set (dec n)"
  then obtain d :: nat where "d < 10" "CHR ''.'' = char_of (48 + d)" using dec_digits by blast
  with digit_char(6) [of d] show False by simp
qed

lemma tokens_dotted:
  "tokens (CHR ''.'') (dotted a b c d) = [dec (unat a), dec (unat b), dec (unat c), dec (unat d)]"
  unfolding dotted_def
  by (simp add: tokens_first dec_not_Nil dec_no_dot tokens_last)

lemma strtoul_octet: "(ucast (strtoul (dec (unat (a :: byte)))) :: byte) = a"
proof -
  have "strtoul (dec (unat a)) = word_of_nat (unat a)"
    using strtoul_dec [of "unat a" "[]"] unat8_less [of a] by simp
  moreover have "(ucast (ucast a :: 64 word) :: byte) = a"
    by (rule bit_word_eqI) (simp add: bit_simps)
  ultimately show ?thesis by simp
qed

lemma get_ipv4_of_dotted:
  assumes "4 \<le> len"
  shows "get_ipv4 (dotted a b c d) len = Some [a, b, c, d]"
proof -
  have "length (dec (unat x)) \<le> 3" for x :: byte
    using dec_length [of "unat x"] unat8_less [of x] by simp
  from this [of a] this [of b] this [of c] this [of d]
  have "length (dotted a b c d) \<le> 1001" by (simp add: dotted_def)
  moreover have "dotted a b c d \<noteq> []" by (simp add: dotted_def)
  ultimately show ?thesis
    using assms by (simp add: get_ipv4_def str_split_tokens tokens_dotted strtoul_octet)
qed

text \<open>Addresses in dotted notation are read back exactly: for all four octets, printing them in
  decimal with dots and converting the text gives the same octets, in the same order.\<close>

theorem get_ipv4_dotted:
  assumes "4 \<le> len"
  shows "get_ipv4 (dotted a b c d) len = Some [a, b, c, d]"
  using assms by (rule get_ipv4_of_dotted)

theorem get_ipv4_dotted_witness: "get_ipv4 (dotted 192 168 111 123) 16 = Some [192, 168, 111, 123]"
  by (rule get_ipv4_dotted) simp

text \<open>A database address written as scheme, user, password, host and port is taken apart into
  exactly those parts (cut to the sizes of the output buffers), and the port defaults to 3306; an address with
  neither colon nor at sign after the scheme makes the parser read through a null pointer.\<close>

theorem parse_mysql_parts:
  assumes "CHR '':'' \<notin> set scheme" "CHR '':'' \<notin> set user" "CHR ''@'' \<notin> set user"
    "CHR ''@'' \<notin> set pwd" "pwd \<noteq> []" "CHR '':'' \<notin> set host" "host \<noteq> []" "n < 2 ^ 32"
    "0 < lu" "0 < lp" "0 < lh"
  shows "let base = scheme @ ''://'' @ user @ '':'' @ pwd @ ''@'' @ host in
    parse_mysql (base @ '':'' @ dec n) lu lp lh =
      Parsed (take lu user) (take lp pwd) (take lh host) (word_of_nat n) \<and>
    parse_mysql base lu lp lh = Parsed (take lu user) (take lp pwd) (take lh host) 3306 \<and>
    parse_mysql (scheme @ ''://'' @ user) lu lp lh = Null_Deref"
proof -
  have p: "strchr (scheme @ CHR '':'' # r) (CHR '':'') = Some (length scheme)" for r
    unfolding strchr_def using assms(1) by (intro strpbrk_append) auto
  have u: "strpbrk (user @ CHR '':'' # r) '':@'' = Some (length user)" for r
    using assms(2,3) by (intro strpbrk_append) auto
  have w: "strchr (pwd @ CHR ''@'' # r) (CHR ''@'') = Some (length pwd)" for r
    unfolding strchr_def using assms(4) by (intro strpbrk_append) auto
  have h: "strchr (host @ CHR '':'' # r) (CHR '':'') = Some (length host)" for r
    unfolding strchr_def using assms(6) by (intro strpbrk_append) auto
  have h0: "strchr host (CHR '':'') = None"
    unfolding strchr_def strpbrk_None using assms(6) by auto
  have u0: "strpbrk user '':@'' = None" unfolding strpbrk_None using assms(2,3) by auto
  have t: "take (min (length s) k) (s @ r) = take k s" for s r :: string and k
    by (cases "k \<le> length s") (simp_all add: min_def)
  have t0: "take (min (length s) k) s = take k s" for s :: string and k
    using t [of s k "[]"] by simp
  have port: "(ucast (strtoul (dec n)) :: 32 word) = word_of_nat n"
  proof -
    have "strtoul (dec n) = word_of_nat n" using strtoul_dec [of n "[]"] assms(8) by simp
    moreover have "(ucast (word_of_nat n :: 64 word) :: 32 word) = word_of_nat n"
      by (rule bit_word_eqI) (simp add: bit_simps)
    ultimately show ?thesis by simp
  qed
  show ?thesis
    using assms(5,7,9-11)
    by (simp add: parse_mysql_def p u u0 w h h0 t t0 port Let_def nth_append split: nat.splits)
      (metis t0)
qed

theorem parse_mysql_parts_witness:
  "parse_mysql (''mysql://'' @ ''root:pw@db:'' @ dec 3307) 31 31 31 = Parsed ''root'' ''pw'' ''db'' 3307"
  using parse_mysql_parts [of "''mysql''" "''root''" "''pw''" "''db''" 3307 31 31 31]
  by (simp add: Let_def)

end
