(* ===== verification/Pgw_Base.thy ===== *)
theory Pgw_Base
  imports Packet_Def Core_Interface Lookup_Table Text_Utils
begin

text \<open>
  \<open>CorePgwBaseWorker\<close> of \<open>dataplane/src/core/core_pgw_base_worker.cc\<close>, the common part of
  the PGW workers: the tunnel tables (a hash map, or the dual-buffered table when
  \<open>findtype_\<close> is 0), \<open>Find\<close> in both forms, the packet cycle with its warm-up ring, and
  the thread that applies the changes of the tunnel database (\<open>VirtualCycle\<close>,
  \<open>OnNotify\<close>). The packet rewriting itself is the argument \<open>modify\<close>, the virtual function
  \<open>ModifyPacket\<close> of the subclasses.

  \<open>std::unordered_map\<close> is a partial function. The mutex around it makes each operation on the map
  atomic, as the definitions are. A \<open>None\<close> outcome of a cycle is a run that does not come back
  (\<open>rte_exit\<close>, a panic, an uncaught exception, or memory read outside the packet).
\<close>

section \<open>State\<close>

record 'r pgw_core = "'r core" +
  warmup_count :: "64 word"
  cpuid :: "32 word"
  greipv4 :: "32 word"
  gresrcipv4 :: "32 word"
  groupid :: "32 word"
  pgwid :: "32 word"
  findtype :: "32 word"
  is_egress :: bool
  findkey :: "32 word"
  dburi :: string
  ring_err_ind :: "'r option"
  ring_warmup :: "'r option"
  lookup_tbl :: lookup_table
  map_tbl :: "32 word \<rightharpoonup> lookup_t"
  lookup_itm :: lookup_t
  now :: "32 word"
  policer_cir :: "32 word"
  policer_cbs :: "32 word"
  policer_eir :: "32 word"
  policer_ebs :: "32 word"

abbreviation COUNT_TEIDGROUP_PER_CORE :: nat where "COUNT_TEIDGROUP_PER_CORE \<equiv> 65536"

definition PGWID :: "32 word \<Rightarrow> 32 word" where
  "PGWID c = drop_bit 20 (c AND 0x00F00000)"

definition GROUPID :: "32 word \<Rightarrow> 32 word" where
  "GROUPID c = drop_bit 16 (c AND 0x000F0000)"

definition GROUPVAL :: "32 word \<Rightarrow> 32 word" where
  "GROUPVAL c = c AND 0x0000FFFF"

text \<open>
  The constructor. \<open>junk\<close> gives the members it leaves uninitialised (\<open>findkey_\<close>,
  \<open>lookup_itm_\<close>, \<open>now_\<close> and the policer defaults).
\<close>

definition pgw_new :: "'r core \<Rightarrow> string \<Rightarrow> 32 word \<Rightarrow> 32 word \<Rightarrow> 32 word \<Rightarrow> 32 word \<Rightarrow> 32 word \<Rightarrow>
    32 word \<Rightarrow> bool \<Rightarrow> 'r pgw_core \<Rightarrow> 'r pgw_core" where
  "pgw_new c uri cpu gre gresrc grp pgw ftype egress junk =
     junk\<lparr>port := 0, queue := 0, lcore := lcore c, socket := socket c, cnt_rx := cnt_rx c,
       cnt_tx := cnt_tx c, cnt_wk := cnt_wk c, cnt_pgw_in := cnt_pgw_in c, cnt_pgw_eg := cnt_pgw_eg c,
       burst_fm := burst_fm c, burst_to := burst_to c, ring_fm := ring_fm c, ring_to := ring_to c,
       out_buf := out_buf c, flush_delay := flush_delay c, counter := counter c, freed := freed c,
       warmup_count := 0, cpuid := cpu, greipv4 := gre, gresrcipv4 := gresrc, groupid := grp,
       pgwid := pgw, findtype := ftype, is_egress := egress, dburi := uri, ring_err_ind := None,
       ring_warmup := None, lookup_tbl := Create COUNT_TEIDGROUP_PER_CORE, map_tbl := Map.empty\<rparr>"

definition pgw_SetN :: "key \<Rightarrow> 32 word \<Rightarrow> ('r, 'z) pgw_core_scheme \<Rightarrow> ('r, 'z) pgw_core_scheme" where
  "pgw_SetN k v w =
     (let w = SetN k v w in
      case k of POLICER_CIR \<Rightarrow> w\<lparr>policer_cir := v\<rparr> | POLICER_CBS \<Rightarrow> w\<lparr>policer_cbs := v\<rparr>
        | POLICER_EIR \<Rightarrow> w\<lparr>policer_eir := v\<rparr> | POLICER_EBS \<Rightarrow> w\<lparr>policer_ebs := v\<rparr> | _ \<Rightarrow> w)"

definition pgw_GetN :: "key \<Rightarrow> ('r, 'z) pgw_core_scheme \<Rightarrow> 32 word" where
  "pgw_GetN k w = (if k = OPT then cpuid w else GetN k w)"

definition pgw_SetRingAddr :: "order \<Rightarrow> 'r \<Rightarrow> ('r, 'z) pgw_core_scheme \<Rightarrow> ('r, 'z) pgw_core_scheme option" where
  "pgw_SetRingAddr d r w =
     (if d = FROM then Some (w\<lparr>ring_fm := r\<rparr>) else if d = TO then Some (w\<lparr>ring_to := r\<rparr>)
      else if d = EXTEND then Some (w\<lparr>ring_err_ind := Some r\<rparr>)
      else if d = FROM_00 then Some (w\<lparr>ring_warmup := Some r\<rparr>) else None)"

text \<open>
  \<open>BeforeCycle\<close>: the connection data handed to the binlog client, or \<open>None\<close> for the panic. The
  port only has to be non-zero; it is not passed on.
\<close>

definition pgw_BeforeCycle :: "('r, 'z) pgw_core_scheme \<Rightarrow> (string \<times> string \<times> string) option" where
  "pgw_BeforeCycle w =
     (case parse_mysql (dburi w) 31 31 31 of
        Parsed user pwd host prt \<Rightarrow>
          if user = [] \<or> pwd = [] \<or> host = [] \<or> prt = 0 then None else Some (host, user, pwd)
      | _ \<Rightarrow> None)"

section \<open>Find\<close>

definition pgw_Find :: "('r, 'z) pgw_core_scheme \<Rightarrow> 32 word \<Rightarrow> lookup_t option" where
  "pgw_Find w k =
     (if findtype w \<noteq> 0 then map_tbl w (bswap32 k)
      else if GROUPID k \<noteq> groupid w then None
      else deref (lookup_tbl w) (Find (lookup_tbl w) (GROUPVAL (bswap32 k)) False))"

text \<open>
  \<open>Find\<close> with a callback that runs under the lock and may change the entry; \<open>a\<close> is the state the
  callback works on besides. The first component is the return value.
\<close>

definition pgw_Find_update :: "('r, 'z) pgw_core_scheme \<Rightarrow> 32 word \<Rightarrow>
    (lookup_t \<Rightarrow> 'a \<Rightarrow> int \<times> lookup_t \<times> 'a) \<Rightarrow> 'a \<Rightarrow> int \<times> ('r, 'z) pgw_core_scheme \<times> 'a" where
  "pgw_Find_update w k callback a =
     (if findtype w = 0 then (- 1, w, a)
      else case map_tbl w (bswap32 k) of
        None \<Rightarrow> (- 1, w, a)
      | Some itm \<Rightarrow>
          let (ret, itm', a') = callback itm a in (ret, w\<lparr>map_tbl := (map_tbl w)(bswap32 k \<mapsto> itm')\<rparr>, a'))"

section \<open>The cycle\<close>

text \<open>What \<open>ModifyPacket\<close> did: return 0, return 1, or no return.\<close>

datatype 'w verdict = Forward 'w mbuf | Stop 'w | Panic

definition pgw_handle :: "'r dpdk \<Rightarrow> (('r, 'z) pgw_core_scheme \<Rightarrow> mbuf \<Rightarrow> ('r, 'z) pgw_core_scheme verdict) \<Rightarrow>
    ('r, 'z) pgw_core_scheme option \<Rightarrow> mbuf \<Rightarrow> ('r, 'z) pgw_core_scheme option" where
  "pgw_handle D modify s m =
     (case s of None \<Rightarrow> None
      | Some w \<Rightarrow> (case modify w m of
            Forward w' m' \<Rightarrow> Some (SendOrBuffer D m' w') | Stop w' \<Rightarrow> Some w' | Panic \<Rightarrow> None))"

lemma pgw_handle_None [simp]: "pgw_handle D modify None m = None"
  by (simp add: pgw_handle_def)

text \<open>
  One warm-up packet: the last 32 octets are the private extension with the five values of a
  tunnel. A packet with a zero value is skipped, and not freed. \<open>junk\<close> is the uninitialised
  \<open>itm\<close>, of which only the five values are assigned.
\<close>

definition warmup_item :: "lookup_t \<Rightarrow> mbuf \<Rightarrow> lookup_t" where
  "warmup_item junk m =
     (let v = (\<lambda>i. ldw m (mb_len m - 32 + 12 + 4 * i)) in
      junk\<lparr>ue_ipv4 := v 2, ue_teid := v 3, sgw_gtpu_ipv4 := v 0, sgw_gtpu_teid := v 1,
           pgw_gtpu_ipv4 := v 4\<rparr>)"

definition complete_item :: "lookup_t \<Rightarrow> bool" where
  "complete_item itm \<longleftrightarrow> ue_ipv4 itm \<noteq> 0 \<and> ue_teid itm \<noteq> 0 \<and> sgw_gtpu_ipv4 itm \<noteq> 0 \<and>
     sgw_gtpu_teid itm \<noteq> 0 \<and> pgw_gtpu_ipv4 itm \<noteq> 0"

definition warmup_one :: "lookup_t \<Rightarrow> ('r, 'z) pgw_core_scheme option \<Rightarrow> mbuf \<Rightarrow> ('r, 'z) pgw_core_scheme option" where
  "warmup_one junk s m =
     (case s of None \<Rightarrow> None
      | Some w \<Rightarrow>
         if mb_len m < 32 then None
         else
           let itm = warmup_item junk m;
               ncore = GetN (if is_egress w then CNT_PGW_EGRESS else CNT_PGW_INGRESS) w;
               nkey = (if is_egress w then ue_ipv4 itm else ue_teid itm) in
           if \<not> complete_item itm then Some w
           else
             let w = free_all [m] w in
             if findtype w \<noteq> 0 then Some (w\<lparr>map_tbl := (map_tbl w)(bswap32 nkey \<mapsto> itm)\<rparr>)
             else if ncore = 0 then None
             else if nkey mod ncore = groupid w then
               (case Add (lookup_tbl w) (GROUPVAL (ue_teid itm)) itm False of
                  Ret t _ \<Rightarrow> Some (w\<lparr>lookup_tbl := t\<rparr>)
                | Throw _ \<Rightarrow> None)
             else Some w)"

text \<open>
  The warm-up ring is read when the counter, incremented in every cycle, has passed its bound;
  the division by a burst size of zero has no result.
\<close>

definition pgw_warmup :: "'r dpdk \<Rightarrow> lookup_t \<Rightarrow> ('r, 'z) pgw_core_scheme \<Rightarrow> ('r, 'z) pgw_core_scheme option" where
  "pgw_warmup D junk w =
     (if burst_fm w = 0 then None
      else
        let due = (warmup_count w > ucast (14000000 div burst_fm w));
            w = w\<lparr>warmup_count := warmup_count w + 1\<rparr> in
        case ring_warmup w of
          None \<Rightarrow> Some w
        | Some r \<Rightarrow>
            if \<not> due then Some w
            else
              let (r', ms) = deq_burst D r (unat (burst_fm w)) in
              foldl (warmup_one junk) (Some (w\<lparr>warmup_count := 0, ring_warmup := Some r'\<rparr>)) ms)"

definition pgw_Cycle :: "'r dpdk \<Rightarrow> (('r, 'z) pgw_core_scheme \<Rightarrow> mbuf \<Rightarrow> ('r, 'z) pgw_core_scheme verdict) \<Rightarrow>
    lookup_t \<Rightarrow> ('r, 'z) pgw_core_scheme \<Rightarrow> 64 word \<Rightarrow> (('r, 'z) pgw_core_scheme \<times> 64 word) option" where
  "pgw_Cycle D modify junk w cnt =
     (let (w, input) = deq_input D w in
      case burst_loop (pgw_handle D modify) input (Some w) of
        None \<Rightarrow> None
      | Some w \<Rightarrow>
         (case pgw_warmup D junk w of
            None \<Rightarrow> None
          | Some w \<Rightarrow>
              if flush_delay w \<noteq> 0 \<and> cnt \<ge> flush_delay w then Some (BurstFlush D w, 0) else Some (w, cnt)))"

section \<open>The binlog thread\<close>

datatype nvalue = Numeric "64 word" | Text string

record record_t =
  evt :: int
  lnk :: lookup_t

text \<open>The columns of table \<open>tunnel\<close> that are read (\<open>TUNNEL_COL\<close>).\<close>

abbreviation T_UEIPV4 :: nat where "T_UEIPV4 \<equiv> 3"
abbreviation T_PGW_TEID :: nat where "T_PGW_TEID \<equiv> 4"
abbreviation T_PGW_GTPU_IPV :: nat where "T_PGW_GTPU_IPV \<equiv> 6"
abbreviation T_SGW_GTPU_TEID :: nat where "T_SGW_GTPU_TEID \<equiv> 11"
abbreviation T_SGW_GTPU_IPV :: nat where "T_SGW_GTPU_IPV \<equiv> 12"
abbreviation T_ACTIVE :: nat where "T_ACTIVE \<equiv> 14"
abbreviation T_QOS :: nat where "T_QOS \<equiv> 18"

definition ipv_word :: "byte list \<Rightarrow> 32 word" where
  "ipv_word bs = mk32 (bs ! 0) (bs ! 1) (bs ! 2) (bs ! 3)"

definition OnNotify :: "int \<Rightarrow> nat \<Rightarrow> nvalue \<Rightarrow> record_t \<Rightarrow> record_t" where
  "OnNotify event clmnid v r =
     (case v of
        Numeric n \<Rightarrow>
          if clmnid = T_PGW_TEID then r\<lparr>lnk := (lnk r)\<lparr>ue_teid := ucast n\<rparr>\<rparr>
          else if clmnid = T_SGW_GTPU_TEID then r\<lparr>lnk := (lnk r)\<lparr>sgw_gtpu_teid := ucast n\<rparr>\<rparr>
          else if clmnid = T_ACTIVE then r\<lparr>lnk := (lnk r)\<lparr>lk_active := ucast n\<rparr>\<rparr>
          else if clmnid = T_QOS then r\<lparr>lnk := (lnk r)\<lparr>lk_mode := ucast n\<rparr>\<rparr>
          else r
      | Text s \<Rightarrow>
          if clmnid = T_SGW_GTPU_IPV then
            (case get_ipv4 s 16 of Some b \<Rightarrow> r\<lparr>lnk := (lnk r)\<lparr>sgw_gtpu_ipv4 := ipv_word b\<rparr>\<rparr> | None \<Rightarrow> r)
          else if clmnid = T_UEIPV4 then
            (case get_ipv4 s 16 of Some b \<Rightarrow> r\<lparr>lnk := (lnk r)\<lparr>ue_ipv4 := ipv_word b\<rparr>\<rparr> | None \<Rightarrow> r)
          else if clmnid = T_PGW_GTPU_IPV then
            (case get_ipv4 s 16 of Some b \<Rightarrow> r\<lparr>lnk := (lnk r)\<lparr>pgw_gtpu_ipv4 := ipv_word b\<rparr>\<rparr> | None \<Rightarrow> r)
          else r)"

text \<open>The policer settings of the core are copied into the record of a tunnel.\<close>

definition set_policer :: "('r, 'z) pgw_core_scheme \<Rightarrow> lookup_t \<Rightarrow> lookup_t" where
  "set_policer w itm = itm\<lparr>commit_information_rate := policer_cir w, commit_burst_size := policer_cbs w,
     excess_information_rate := policer_eir w, excess_burst_size := policer_ebs w\<rparr>"

text \<open>The part of \<open>VirtualCycle\<close> that changes the tables, for a complete record.\<close>

definition apply_record :: "record_t \<Rightarrow> ('r, 'z) pgw_core_scheme \<Rightarrow> ('r, 'z) pgw_core_scheme option" where
  "apply_record r w =
     (let itm = lnk r;
          remove = (evt r = 32 \<or> (evt r = 31 \<and> lk_active itm = 0));
          add = (evt r = 30 \<or> (evt r = 31 \<and> lk_active itm \<noteq> 0)) in
      if findtype w \<noteq> 0 then
        let nkey = bswap32 (if is_egress w then ue_ipv4 itm else ue_teid itm) in
        if add then Some (w\<lparr>map_tbl := (map_tbl w)(nkey \<mapsto> itm)\<rparr>)
        else if remove then Some (w\<lparr>map_tbl := (map_tbl w)(nkey := None)\<rparr>)
        else Some w
      else if PGWID (ue_teid itm) = pgwid w \<and> GROUPID (ue_teid itm) = groupid w then
        if add then
          (case Add (lookup_tbl w) (GROUPVAL (ue_teid itm)) itm False of
             Ret t _ \<Rightarrow> Some (w\<lparr>lookup_tbl := t\<rparr>) | Throw _ \<Rightarrow> None)
        else if remove then
          (case Del (lookup_tbl w) (GROUPVAL (ue_teid itm)) False of
             Ret t _ \<Rightarrow> Some (w\<lparr>lookup_tbl := t\<rparr>) | Throw _ \<Rightarrow> None)
        else Some w
      else Some w)"

text \<open>
  \<open>VirtualCycle\<close>: a zeroed record, the notifications of one binlog event (\<open>None\<close> when
  \<open>Read\<close> reports an error), then the tables. Each notification carries the event type, the
  column and its value.
\<close>

definition VirtualCycle :: "(int \<times> nat \<times> nvalue) list option \<Rightarrow> ('r, 'z) pgw_core_scheme \<Rightarrow>
    ('r, 'z) pgw_core_scheme option" where
  "VirtualCycle rd w =
     (case rd of
        None \<Rightarrow> Some w
      | Some ns \<Rightarrow>
         let r = foldl (\<lambda>r (e, c, v). OnNotify e c v r) \<lparr>evt = 0, lnk = zero_lookup\<rparr> ns;
             r = r\<lparr>lnk := set_policer w (lnk r)\<rparr>
         in if complete_item (lnk r) then apply_record r w else Some w)"

section \<open>The tables as session tables\<close>

text \<open>The tunnel key of a record, and the map operations of the code at such a key.\<close>

definition key_of :: "('r, 'z) pgw_core_scheme \<Rightarrow> lookup_t \<Rightarrow> 32 word" where
  "key_of w itm = (if is_egress w then ue_ipv4 itm else ue_teid itm)"

definition map_store :: "('r, 'z) pgw_core_scheme \<Rightarrow> 32 word \<Rightarrow> lookup_t \<Rightarrow> ('r, 'z) pgw_core_scheme" where
  "map_store w k itm = w\<lparr>map_tbl := (map_tbl w)(bswap32 k \<mapsto> itm)\<rparr>"

definition map_erase :: "('r, 'z) pgw_core_scheme \<Rightarrow> 32 word \<Rightarrow> ('r, 'z) pgw_core_scheme" where
  "map_erase w k = w\<lparr>map_tbl := (map_tbl w)(bswap32 k := None)\<rparr>"

interpretation hash: session_table "\<lambda>w. findtype w \<noteq> 0" "\<lambda>_ _. True" pgw_Find map_store map_erase id
  by unfold_locales (auto simp: pgw_Find_def map_store_def map_erase_def)

text \<open>What a binlog record asks of the table: nothing, a store or an erase.\<close>

definition record_event :: "('r, 'z) pgw_core_scheme \<Rightarrow> record_t \<Rightarrow> (32 word, lookup_t) tevent list" where
  "record_event w r =
     (let itm = lnk r; k = key_of w itm in
      if evt r = 30 \<or> (evt r = 31 \<and> lk_active itm \<noteq> 0) then [Store k itm]
      else if evt r = 31 \<or> evt r = 32 then [Erase k] else [])"

lemma apply_record_events:
  assumes "findtype w \<noteq> 0"
  shows "apply_record r w = Some (foldl hash.apply_event w (record_event w r))"
  using assms
  by (auto simp: apply_record_def record_event_def key_of_def map_store_def map_erase_def Let_def)

lemma apply_event_frame:
  "is_egress (hash.apply_event w e) = is_egress w" "findtype (hash.apply_event w e) = findtype w"
  by (cases e; simp add: map_store_def map_erase_def)+

lemma foldl_apply_event_frame:
  "is_egress (foldl hash.apply_event w es) = is_egress w"
  "findtype (foldl hash.apply_event w es) = findtype w"
  by (induction es arbitrary: w) (simp_all add: apply_event_frame)

lemma record_event_cong: "is_egress w = is_egress v \<Longrightarrow> record_event w r = record_event v r"
  by (simp add: record_event_def key_of_def)

definition apply_records :: "record_t list \<Rightarrow> ('r, 'z) pgw_core_scheme \<Rightarrow> ('r, 'z) pgw_core_scheme option" where
  "apply_records rs w = foldl (\<lambda>s r. Option.bind s (apply_record r)) (Some w) rs"

lemma apply_records_events:
  assumes "findtype w \<noteq> 0"
  shows "apply_records rs w = Some (foldl hash.apply_event w (concat (map (record_event w) rs)))"
  using assms
proof (induction rs rule: rev_induct)
  case Nil
  then show ?case by (simp add: apply_records_def)
next
  case (snoc r rs)
  let ?v = "foldl hash.apply_event w (concat (map (record_event w) rs))"
  have "findtype ?v \<noteq> 0" "is_egress ?v = is_egress w"
    using snoc.prems by (simp_all add: foldl_apply_event_frame)
  then have "apply_record r ?v = Some (foldl hash.apply_event ?v (record_event w r))"
    using apply_record_events [of ?v r] record_event_cong [of ?v w r] by simp
  with snoc show ?case by (simp add: apply_records_def)
qed

section \<open>Group tables\<close>

lemma GROUPVAL_in_table: "slots t = 65536 \<Longrightarrow> in_table t (GROUPVAL c)"
proof -
  have "unat (GROUPVAL c) < 65536"
    using word_and_le1 [of c "0xFFFF"] by (simp add: GROUPVAL_def word_le_nat_alt)
  then show "slots t = 65536 \<Longrightarrow> in_table t (GROUPVAL c)" by (simp add: in_table_def)
qed

lemma Create_empty: "lookup_at (Create 65536) g = None" "slots (Create 65536) = 65536"
  by (simp_all add: Create_def Clear_def lookup_at_def Find_def)

lemma apply_record_insert_group:
  assumes "findtype w = 0" "slots (lookup_tbl w) = 65536" "evt r = 30"
    "PGWID (ue_teid (lnk r)) = pgwid w" "GROUPID (ue_teid (lnk r)) = groupid w"
  obtains t where "apply_record r w = Some (w\<lparr>lookup_tbl := t\<rparr>)" "slots t = 65536"
    "\<And>g. lookup_at t g = (if g = GROUPVAL (ue_teid (lnk r)) then Some (validated (lnk r))
       else lookup_at (lookup_tbl w) g)"
proof -
  let ?g = "GROUPVAL (ue_teid (lnk r))"
  obtain t where t: "Add (lookup_tbl w) ?g (lnk r) False = Ret t 0" "slots t = slots (lookup_tbl w)"
    "\<And>g'. lookup_at t g' = (if g' = ?g then Some ((lnk r)\<lparr>lk_valid := STAT_ON\<rparr>) else lookup_at (lookup_tbl w) g')"
    using Add_lookup [OF _ GROUPVAL_in_table read_phase_unchecked refl, of "lookup_tbl w"] assms(2)
    by (metis zero_less_numeral)
  show thesis
  proof (rule that [of t])
    show "apply_record r w = Some (w\<lparr>lookup_tbl := t\<rparr>)"
      using assms t(1) by (simp add: apply_record_def Let_def)
  qed (use t assms(2) in \<open>simp_all add: validated_def\<close>)
qed

section \<open>The cycle of a PGW worker\<close>

text \<open>The packets a PGW worker is responsible for: those of its core and those on the error ring.\<close>

definition err_len :: "('r \<Rightarrow> mbuf list) \<Rightarrow> ('r, 'z) pgw_core_scheme \<Rightarrow> nat" where
  "err_len items w = (case ring_err_ind w of None \<Rightarrow> 0 | Some r \<Rightarrow> length (items r))"

definition pgw_total :: "('r \<Rightarrow> mbuf list) \<Rightarrow> ('r, 'z) pgw_core_scheme \<Rightarrow> nat" where
  "pgw_total items w = in_system items w + err_len items w"

text \<open>
  The contract of \<open>ModifyPacket\<close>: a packet that is returned is not kept anywhere else; a packet
  that is not returned was freed or put on the error ring, and only one was.
\<close>

definition buffers_kept :: "('r, 'z) pgw_core_scheme \<Rightarrow> ('r, 'z) pgw_core_scheme \<Rightarrow> bool" where
  "buffers_kept w w' \<longleftrightarrow> out_buf w' = out_buf w \<and> ring_to w' = ring_to w \<and> ring_fm w' = ring_fm w \<and>
     burst_to w' = burst_to w \<and> burst_fm w' = burst_fm w \<and> flush_delay w' = flush_delay w \<and>
     ring_warmup w' = ring_warmup w"

lemma SendOrBuffer_ring_warmup: "ring_warmup (SendOrBuffer D m w) = ring_warmup w"
  by (simp add: SendOrBuffer_def count_drop_def free_all_def Let_def split: prod.splits)

lemma BurstFlush_ring_err: "ring_err_ind (BurstFlush D w) = ring_err_ind w"
  by (simp add: BurstFlush_def count_drop_def free_all_def Let_def split: prod.splits)

locale pgw_worker =
  fixes D :: "'r dpdk" and items :: "'r \<Rightarrow> mbuf list"
    and modify :: "('r, 'z) pgw_core_scheme \<Rightarrow> mbuf \<Rightarrow> ('r, 'z) pgw_core_scheme verdict"
  assumes modify_forward: "modify w m = Forward w' m' \<Longrightarrow>
      buffers_kept w w' \<and> freed w' = freed w \<and> ring_err_ind w' = ring_err_ind w"
    and modify_stop: "ring_laws D items \<Longrightarrow> modify w m = Stop w' \<Longrightarrow>
      buffers_kept w w' \<and> length (freed w') + err_len items w' = length (freed w) + err_len items w + 1"
begin

lemma handle_total:
  assumes "ring_laws D items" "core_inv w" "pgw_handle D modify (Some w) m = Some w'"
  shows "core_inv w' \<and> pgw_total items w' = pgw_total items w + 1"
proof (cases "modify w m")
  case (Forward v m')
  note k = modify_forward [OF Forward]
  have v: "core_inv v" "holdings items v = holdings items w"
    using k assms(2) by (simp_all add: buffers_kept_def core_inv_def holdings_def)
  have w': "w' = SendOrBuffer D m' v" using assms(3) Forward by (simp add: pgw_handle_def)
  have "ring_err_ind w' = ring_err_ind v"
    by (simp add: w' SendOrBuffer_def count_drop_def free_all_def Let_def split: prod.splits)
  then show ?thesis
    using k v SendOrBuffer_holdings [OF assms(1) v(1), of m']
    by (simp add: w' SendOrBuffer_inv pgw_total_def in_system_def err_len_def buffers_kept_def)
next
  case (Stop v)
  with assms(3) have "w' = v" by (simp add: pgw_handle_def)
  with modify_stop [OF assms(1) Stop] assms(2) show ?thesis
    by (simp add: buffers_kept_def core_inv_def pgw_total_def in_system_def holdings_def)
next
  case Panic
  with assms(3) show ?thesis by (simp add: pgw_handle_def)
qed

lemma burst_total:
  assumes "ring_laws D items" "core_inv w" "burst_loop (pgw_handle D modify) ms (Some w) = Some w'"
  shows "core_inv w' \<and> pgw_total items w' = pgw_total items w + length ms"
  using assms(3) unfolding burst_loop_foldl
proof (induction ms arbitrary: w' rule: rev_induct)
  case Nil
  with assms(2) show ?case by simp
next
  case (snoc m ms)
  then obtain v where v: "foldl (pgw_handle D modify) (Some w) ms = Some v"
    by (cases "foldl (pgw_handle D modify) (Some w) ms") auto
  with snoc.prems have "pgw_handle D modify (Some v) m = Some w'" by simp
  with handle_total [OF assms(1) _ this] snoc.IH [OF v] show ?case by simp
qed

lemma burst_frame:
  assumes "ring_laws D items" "burst_loop (pgw_handle D modify) ms (Some w) = Some w'"
  shows "burst_fm w' = burst_fm w \<and> ring_warmup w' = ring_warmup w"
  using assms(2) unfolding burst_loop_foldl
proof (induction ms arbitrary: w' rule: rev_induct)
  case (snoc m ms)
  then obtain v where v: "foldl (pgw_handle D modify) (Some w) ms = Some v"
    by (cases "foldl (pgw_handle D modify) (Some w) ms") auto
  with snoc.prems have "pgw_handle D modify (Some v) m = Some w'" by simp
  then have "burst_fm w' = burst_fm v \<and> ring_warmup w' = ring_warmup v"
    using modify_forward [of v m] modify_stop [OF assms(1), of v m]
    by (cases "modify v m") (auto simp: pgw_handle_def buffers_kept_def SendOrBuffer_ring_warmup)
  with snoc.IH [OF v] show ?case by simp
qed simp

lemma cycle_total:
  assumes "ring_laws D items" "core_inv w" "ring_warmup w = None"
    "pgw_Cycle D modify junk w cnt = Some (w', cnt')"
  shows "core_inv w' \<and> pgw_total items w' = pgw_total items w"
proof -
  obtain w1 ms where d: "deq_input D w = (w1, ms)" by fastforce
  note dl = deq_input_laws [OF assms(1) d]
  obtain r where w1: "w1 = w\<lparr>ring_fm := r\<rparr>" using dl(6) by (elim exE)
  obtain w2 where w2: "burst_loop (pgw_handle D modify) ms (Some w1) = Some w2"
    using assms(4) by (cases "burst_loop (pgw_handle D modify) ms (Some w1)") (simp_all add: pgw_Cycle_def d)
  have t: "core_inv w2 \<and> pgw_total items w2 = pgw_total items w1 + length ms"
    using burst_total [OF assms(1) _ w2] dl(2) assms(2) by simp
  have wn: "ring_warmup w2 = None" using burst_frame [OF assms(1) w2] assms(3) by (simp add: w1)
  define w3 where "w3 = w2\<lparr>warmup_count := warmup_count w2 + 1\<rparr>"
  have w3: "core_inv w3" "pgw_total items w3 = pgw_total items w2"
    using t by (simp_all add: w3_def core_inv_def pgw_total_def in_system_def holdings_def err_len_def)
  have "pgw_warmup D junk w2 = (if burst_fm w2 = 0 then None else Some w3)"
    using wn by (simp add: pgw_warmup_def w3_def Let_def)
  then have "w' = w3 \<or> w' = BurstFlush D w3"
    using assms(4) by (simp add: pgw_Cycle_def d w2 split: if_splits)
  moreover have "pgw_total items w1 + length ms = pgw_total items w"
    using dl(1) by (simp add: pgw_total_def err_len_def w1)
  moreover have "core_inv (BurstFlush D w3)" "pgw_total items (BurstFlush D w3) = pgw_total items w3"
    using BurstFlush_conserves [OF assms(1) w3(1) drops_counted_refl]
    by (simp_all add: pgw_total_def err_len_def BurstFlush_ring_err)
  ultimately show ?thesis using t w3 by (elim disjE) simp_all
qed

end

section \<open>Properties\<close>

text \<open>The function that applies a record to a worker with the hash map: after any sequence of insert, update and delete records, a
  lookup answers with the record of the last insert or activating update of that key, and with nothing
  after a delete or a deactivating update; records of other event types and other keys do not
  matter. (The binlog thread never calls it with such a record, see below.)\<close>

theorem find_after_records:
  assumes "findtype w \<noteq> 0"
  shows "\<exists>w'. apply_records rs w = Some w' \<and>
    pgw_Find w' k = expected id (pgw_Find w k) k (concat (map (record_event w) rs))"
  using hash.find_apply_events [of w "concat (map (record_event w) rs)" k] assms
  by (simp add: apply_records_events)

definition demo_pgw :: "32 word \<Rightarrow> bool \<Rightarrow> mbuf list pgw_core" where
  "demo_pgw ftype egress = core.extend (demo_core 2) \<lparr>warmup_count = 0, cpuid = 0, greipv4 = 0x0A0000FE,
     gresrcipv4 = 0x0A0000FD, groupid = 5, pgwid = 0xB, findtype = ftype, is_egress = egress, findkey = 0,
     dburi = [], ring_err_ind = Some [], ring_warmup = Some [],
     lookup_tbl = Create COUNT_TEIDGROUP_PER_CORE, map_tbl = Map.empty, lookup_itm = zero_lookup,
     now = 0, policer_cir = 128, policer_cbs = 12500, policer_eir = 128, policer_ebs = 12500\<rparr>"

lemma demo_pgw_sel:
  "findtype (demo_pgw f e) = f" "is_egress (demo_pgw f e) = e" "groupid (demo_pgw f e) = 5"
  "pgwid (demo_pgw f e) = 0xB" "lookup_tbl (demo_pgw f e) = Create 65536"
  "map_tbl (demo_pgw f e) = Map.empty" "burst_fm (demo_pgw f e) = 4" "burst_to (demo_pgw f e) = 2"
  "out_buf (demo_pgw f e) = []" "ring_fm (demo_pgw f e) = []" "ring_to (demo_pgw f e) = []"
  "freed (demo_pgw f e) = []" "ring_err_ind (demo_pgw f e) = Some []"
  by (simp_all add: demo_pgw_def core.defs demo_core_def)

theorem find_after_records_witness:
  "let itm = zero_lookup\<lparr>ue_teid := 7, lk_active := 1\<rparr> in
   \<exists>w'. apply_records [\<lparr>evt = 30, lnk = itm\<rparr>, \<lparr>evt = 32, lnk = zero_lookup\<rparr>] (demo_pgw 1 False) = Some w' \<and>
     pgw_Find w' 7 = Some itm"
  using find_after_records [of "demo_pgw 1 False"
      "[\<lparr>evt = 30, lnk = zero_lookup\<lparr>ue_teid := 7, lk_active := 1\<rparr>\<rparr>, \<lparr>evt = 32, lnk = zero_lookup\<rparr>]" 7]
  by (simp add: demo_pgw_sel record_event_def key_of_def Let_def zero_lookup_def)

text \<open>In the build with the group tables (\<open>findtype_\<close> 0) a tunnel that was inserted is found under a
  key exactly when the group bits of the key as given match and the low 16 bits of the key with
  its octets swapped are those of the TEID: the two tests read the key in different byte orders.\<close>

theorem group_table_find_after_insert:
  assumes "findtype w = 0" "lookup_tbl w = Create COUNT_TEIDGROUP_PER_CORE" "evt r = 30"
    "PGWID (ue_teid (lnk r)) = pgwid w" "GROUPID (ue_teid (lnk r)) = groupid w"
  shows "\<exists>w'. apply_record r w = Some w' \<and>
    (\<forall>k. pgw_Find w' k = (if GROUPID k = groupid w \<and> GROUPVAL (bswap32 k) = GROUPVAL (ue_teid (lnk r))
       then Some (validated (lnk r)) else None))"
proof -
  have s: "slots (lookup_tbl w) = 65536" by (simp add: assms(2) Create_empty)
  obtain t where t: "apply_record r w = Some (w\<lparr>lookup_tbl := t\<rparr>)"
    "\<And>g. lookup_at t g = (if g = GROUPVAL (ue_teid (lnk r)) then Some (validated (lnk r))
       else lookup_at (lookup_tbl w) g)"
    using apply_record_insert_group [OF assms(1) s assms(3-5)] by blast
  show ?thesis
    by (rule exI [of _ "w\<lparr>lookup_tbl := t\<rparr>"])
      (simp add: t assms(1,2) pgw_Find_def Create_empty flip: lookup_at_def)
qed

theorem group_table_find_after_insert_witness:
  "\<exists>w'. apply_record \<lparr>evt = 30, lnk = zero_lookup\<lparr>ue_teid := 0x0AB50123\<rparr>\<rparr> (demo_pgw 0 False) = Some w' \<and>
     pgw_Find w' 0x0AB50123 = None \<and> pgw_Find w' (bswap32 0x0AB50123) = None"
proof -
  have g: "PGWID 0x0AB50123 = 0xB" "GROUPID 0x0AB50123 = 5" "GROUPVAL (bswap32 0x0AB50123) \<noteq> GROUPVAL 0x0AB50123"
    "GROUPID (bswap32 0x0AB50123) \<noteq> 5"
    by (simp_all add: PGWID_def GROUPID_def GROUPVAL_def bswap32_def mk32_def byte_of_def)
  then show ?thesis
    using group_table_find_after_insert [of "demo_pgw 0 False"
        "\<lparr>evt = 30, lnk = zero_lookup\<lparr>ue_teid := 0x0AB50123\<rparr>\<rparr>"]
    by (fastforce simp: demo_pgw_sel)
qed

text \<open>C39: The binlog thread never changes a tunnel table: the event type it dispatches on is a field of a
  zeroed record that no notification assigns, so whatever rows the database reports, inserts, updates or deletes, the worker
  keeps its state.\<close>

theorem VirtualCycle_applies_nothing: "VirtualCycle rd w = Some w"
proof -
  have evt: "evt (foldl (\<lambda>r (e, c, v). OnNotify e c v r) r ns) = evt r" for r ns
    by (induction ns arbitrary: r) (auto simp: OnNotify_def split: nvalue.splits option.splits)
  have "apply_record r w = Some w" if "evt r = 0" for r
    using that by (simp add: apply_record_def Let_def)
  then show ?thesis by (cases rd) (simp_all add: VirtualCycle_def Let_def evt)
qed

text \<open>The notifications of a row of the tunnel table build the tunnel record: the three addresses are
  read from dotted notation with their octets in network order, the TEIDs are cut to 32 bits, the
  activity flag to one bit and the service mode to two; other columns are ignored.\<close>

theorem OnNotify_reads_row:
  "lnk (foldl (\<lambda>r (e, c, v). OnNotify e c v r) \<lparr>evt = 0, lnk = zero_lookup\<rparr>
      [(e, 0, Numeric i), (e, T_UEIPV4, Text (dotted u1 u2 u3 u4)), (e, T_PGW_TEID, Numeric t),
       (e, T_PGW_GTPU_IPV, Text (dotted p1 p2 p3 p4)), (e, T_SGW_GTPU_TEID, Numeric s),
       (e, T_SGW_GTPU_IPV, Text (dotted s1 s2 s3 s4)), (e, T_ACTIVE, Numeric a), (e, T_QOS, Numeric q)])
   = zero_lookup\<lparr>ue_ipv4 := mk32 u1 u2 u3 u4, ue_teid := ucast t, pgw_gtpu_ipv4 := mk32 p1 p2 p3 p4,
       sgw_gtpu_teid := ucast s, sgw_gtpu_ipv4 := mk32 s1 s2 s3 s4, lk_active := ucast a,
       lk_mode := ucast q\<rparr>"
  by (simp add: OnNotify_def get_ipv4_of_dotted ipv_word_def zero_lookup_def)

text \<open>A warm-up packet of at least 32 octets teaches a worker with the hash map its tunnel at once: if
  all five values are set, the packet is freed, the tunnel is found under its key and no other key changes; if one of them is zero
  the worker keeps its state, so the packet, already taken from its ring, is not freed either.\<close>

lemma warmup_finds:
  assumes "findtype w \<noteq> 0" "32 \<le> mb_len m"
  shows "let itm = warmup_item junk m in
    if complete_item itm then
      (\<exists>w'. warmup_one junk (Some w) m = Some w' \<and> freed w' = freed w @ [m] \<and>
        pgw_Find w' (key_of w itm) = Some itm \<and>
        (\<forall>k. k \<noteq> key_of w itm \<longrightarrow> pgw_Find w' k = pgw_Find w k))
    else warmup_one junk (Some w) m = Some w"
  using assms
  by (cases "complete_item (warmup_item junk m)")
    (simp_all add: warmup_one_def Let_def key_of_def pgw_Find_def free_all_def)

end
