(* ===== verification/Pgw_Workers.thy ===== *)
theory Pgw_Workers
  imports Pgw_Base Ip_Checksum
begin

text \<open>
  The PGW workers that rewrite the outer headers: \<open>CorePgwIngressWorker\<close>,
  \<open>CorePgwEgressWorker\<close>, \<open>CorePgwIngressDistributorWorker\<close> and
  \<open>CorePgwEgressDistributorWorker\<close> (\<open>dataplane/src/core/core_pgw_*_worker.cc\<close>). Each
  definition is the \<open>ModifyPacket\<close> of its class, the argument of \<open>pgw_Cycle\<close>.

  Build switches are arguments: \<open>no_gre\<close> is \<open>__CANNOT_USE_GRE__\<close>, \<open>test_mode\<close> is
  \<open>__TEST_MODE__\<close> and \<open>to_tap\<close> is \<open>NON_SUPPORTED_ERRIND\<close>. The error ring is a
  null pointer before it is connected; enqueueing to it then ends the process.
\<close>

section \<open>Operations\<close>

definition to_gre :: "byte list \<Rightarrow> 32 word \<Rightarrow> 32 word \<Rightarrow> mbuf \<Rightarrow> mbuf" where
  "to_gre greo src dst m =
     (let m = stb sz_ether 0x48 m;
          m = stw (sz_ether + 12) src m;
          m = stw (sz_ether + 16) dst m;
          m = stb (sz_ether + 9) IPPROTO_GRE m;
          m = sth (sz_ether + 10) 0 m;
          m = stbytes (sz_ether + sz_ipv4) (replicate 12 0x01) m;
          m = stbytes (sz_ether + sz_ipv4 + 12) greo m
      in m)"

definition ingress_ModifyPacket :: "'r dpdk \<Rightarrow> ('r, 'z) pgw_core_scheme \<Rightarrow> mbuf \<Rightarrow>
    ('r, 'z) pgw_core_scheme verdict" where
  "ingress_ModifyPacket D w m =
     (case pgw_Find w (bswap32 (ldw m 46)) of
        None \<Rightarrow> Stop (free_all [m] w)
      | Some _ \<Rightarrow> Forward w ((to_gre [0x00, 0x00, 0x80, 0x00] (gresrcipv4 w) (greipv4 w) m)
          \<lparr>mb_ptype := L3_IPV4 D OR TUNNEL_GRE D\<rparr>))"

abbreviation inip_ofst :: nat where "inip_ofst \<equiv> sz_ether + sz_ipv4 + sz_udp + sz_gtpu"

definition egress_ModifyPacket :: "'r dpdk \<Rightarrow> ('r, 'z) pgw_core_scheme \<Rightarrow> mbuf \<Rightarrow>
    ('r, 'z) pgw_core_scheme verdict" where
  "egress_ModifyPacket D w m =
     (if is_ipv4_hdr D (mb_ptype m) \<or> is_ipv6_hdr D (mb_ptype m) then
        let ipkey = (if is_ipv4_hdr D (mb_ptype m) then ldw m (inip_ofst + 16)
                     else ldw m (inip_ofst + 24 + 12)) in
        case pgw_Find w ipkey of
          None \<Rightarrow> Stop (free_all [m] w)
        | Some itm \<Rightarrow>
            let m = stw 46 (sgw_gtpu_teid itm) m;
                m = stw (sz_ether + 12) (gresrcipv4 w) m;
                m = stw (sz_ether + 16) (sgw_gtpu_ipv4 itm) m;
                m = sth (sz_ether + 10) 0 m
            in Forward w m
      else Stop (free_all [m] w))"

text \<open>\<open>rte_ring_sp_enqueue\<close> on the error ring: \<open>None\<close> through a null ring, else whether it fitted.\<close>

definition enq_err :: "'r dpdk \<Rightarrow> mbuf \<Rightarrow> ('r, 'z) pgw_core_scheme \<Rightarrow> (('r, 'z) pgw_core_scheme \<times> bool) option" where
  "enq_err D m w =
     (case ring_err_ind w of
        None \<Rightarrow> None
      | Some r \<Rightarrow> (case enq_one D r m of (r', ok) \<Rightarrow> Some (w\<lparr>ring_err_ind := Some r'\<rparr>, ok)))"

text \<open>The version of the inner packet, from its first octet.\<close>

definition inner_version :: "mbuf \<Rightarrow> byte" where
  "inner_version m = ldb m inip_ofst AND 0xF0"

definition pkt_ip_checksum :: "16 word \<Rightarrow> mbuf \<Rightarrow> mbuf" where
  "pkt_ip_checksum len m = m\<lparr>mb_mem := set_ip_checksum (mb_mem m) (mtod m sz_ether) len\<rparr>"

text \<open>
  The error exit of the ingress distributor: the packet goes to the tap side. When the ring took
  it the code returns 0, so the cycle sends the same packet as well.
\<close>

definition dist_to_tap :: "'r dpdk \<Rightarrow> mbuf \<Rightarrow> ('r, 'z) pgw_core_scheme \<Rightarrow> ('r, 'z) pgw_core_scheme verdict" where
  "dist_to_tap D m w =
     (case enq_err D m w of
        None \<Rightarrow> Panic
      | Some (w', ok) \<Rightarrow> if ok then Forward w' m else Stop (free_all [m] w'))"

definition ingress_dist_ModifyPacket :: "'r dpdk \<Rightarrow> bool \<Rightarrow> bool \<Rightarrow> ('r, 'z) pgw_core_scheme \<Rightarrow> mbuf \<Rightarrow>
    ('r, 'z) pgw_core_scheme verdict" where
  "ingress_dist_ModifyPacket D no_gre test_mode w m =
     (if inner_version m \<noteq> 0x40 \<and> inner_version m \<noteq> 0x60 then
        Stop (free_all [m] (count_drop (word_of_nat (mb_len m)) 1 w))
      else
        let ipkey = (if inner_version m = 0x40 then ldw m (inip_ofst + 12) else ldw m (inip_ofst + 8 + 4)) in
        case pgw_Find w (bswap32 (ldw m 46)) of
          None \<Rightarrow>
            let w = count_drop (word_of_nat (mb_len m)) 1 w in
            if test_mode then (case error_indicate D m of None \<Rightarrow> Panic | Some m' \<Rightarrow> Forward w m')
            else dist_to_tap D m w
        | Some itm \<Rightarrow>
            if ue_ipv4 itm AND 0xFFFFFF00 \<noteq> ipkey AND 0xFFFFFF00 then
              dist_to_tap D m (count_drop (word_of_nat (mb_len m)) 1 w)
            else if no_gre then
              let m = stw (sz_ether + 12) (bswap32 (gresrcipv4 w)) m;
                  m = stw (sz_ether + 16) (bswap32 (greipv4 w)) m
              in Forward w (swap_mac (pkt_ip_checksum 20 m))
            else
              let m = to_gre [0x00, 0x00, 0x08, 0x00] (bswap32 (gresrcipv4 w)) (bswap32 (greipv4 w)) m
              in Forward w ((swap_mac (pkt_ip_checksum 32 m))\<lparr>mb_ptype := L3_IPV4 D OR TUNNEL_GRE D\<rparr>))"

definition egress_dist_ModifyPacket :: "'r dpdk \<Rightarrow> bool \<Rightarrow> ('r, 'z) pgw_core_scheme \<Rightarrow> mbuf \<Rightarrow>
    ('r, 'z) pgw_core_scheme verdict" where
  "egress_dist_ModifyPacket D to_tap w m =
     (if inner_version m \<noteq> 0x40 \<and> inner_version m \<noteq> 0x60 then
        Stop (free_all [m] (count_drop (word_of_nat (mb_len m)) 1 w))
      else
        let ipkey = (if inner_version m = 0x40 then ldw m (inip_ofst + 16) else ldw m (inip_ofst + 24 + 4)) in
        case pgw_Find w (ipkey AND 0xFFFFFF00) of
          None \<Rightarrow>
            let w = count_drop (word_of_nat (mb_len m)) 1 w in
            if to_tap then
              (case enq_err D m w of
                 None \<Rightarrow> Panic
               | Some (w', ok) \<Rightarrow> Stop (if ok then w' else free_all [m] w'))
            else (case error_indicate D m of None \<Rightarrow> Panic | Some m' \<Rightarrow> Forward w m')
        | Some itm \<Rightarrow>
            let m = stw 46 (sgw_gtpu_teid itm) m;
                m = sth 36 (bswap16 GTPU_PORT) m;
                m = sth 34 (bswap16 GTPU_PORT) m;
                m = stw (sz_ether + 12) (pgw_gtpu_ipv4 itm) m;
                m = stw (sz_ether + 16) (sgw_gtpu_ipv4 itm) m
            in Forward w (swap_mac (pkt_ip_checksum 20 m)))"

section \<open>Packet lemmas\<close>

lemma to_gre_frame [simp]:
  "mb_off (to_gre g s d m) = mb_off m" "mb_len (to_gre g s d m) = mb_len m"
  by (simp_all add: to_gre_def Let_def)

lemma pkt_ip_checksum_frame [simp]:
  "mb_off (pkt_ip_checksum n m) = mb_off m" "mb_len (pkt_ip_checksum n m) = mb_len m"
  by (simp_all add: pkt_ip_checksum_def)

lemma swap_mac_frame [simp]:
  "mb_off (swap_mac m) = mb_off m" "mb_len (swap_mac m) = mb_len m"
  by (simp_all add: swap_mac_def)

lemma ldb_pkt_ip_checksum: "j \<noteq> 24 \<Longrightarrow> j \<noteq> 25 \<Longrightarrow> ldb (pkt_ip_checksum n m) j = ldb m j"
  by (simp add: ldb_def pkt_ip_checksum_def mtod_def)

lemma ldb_swap_mac: "12 \<le> j \<Longrightarrow> ldb (swap_mac m) j = ldb m j"
  by (simp add: swap_mac_def ldb_stores)

lemma swap_mac_slices:
  "pkt_slice (swap_mac m) 0 6 = pkt_slice m 6 6" "pkt_slice (swap_mac m) 6 6 = pkt_slice m 0 6"
  by (rule nth_equalityI, simp, simp add: swap_mac_def nth_pkt_slice ldb_stores)+

lemma pkt_checksum_ok:
  assumes "unat len = 2 * k" "5 < k"
  shows "ip_checksum_ok (mb_mem (swap_mac (pkt_ip_checksum len m))) (mtod m 14) len"
proof -
  let ?m = "pkt_ip_checksum len m"
  have "ip_checksum_ok (mb_mem ?m) (mtod m 14) len"
    unfolding pkt_ip_checksum_def using set_ip_checksum_ok [OF assms] by simp
  moreover have "mb_mem ?m (mtod m 14 + i) = mb_mem (swap_mac ?m) (mtod m 14 + i)" for i
    using ldb_swap_mac [of "14 + i" ?m] by (simp add: ldb_def mtod_def add.assoc)
  ultimately show ?thesis using ip_checksum_ok_cong [OF assms(1)] by blast
qed

section \<open>The workers as clients of the core\<close>

lemma enq_err_laws:
  assumes "ring_laws D items" "enq_err D m w = Some (w', ok)"
  shows "buffers_kept w w' \<and> freed w' = freed w \<and>
    err_len items w' = err_len items w + (if ok then 1 else 0)"
proof -
  obtain r r' where r: "ring_err_ind w = Some r" "enq_one D r m = (r', ok)"
    "w' = w\<lparr>ring_err_ind := Some r'\<rparr>"
    using assms(2) by (auto simp: enq_err_def split: option.splits prod.splits)
  from assms(1) r(2) show ?thesis
    by (cases rule: ring_laws_enq_one) (simp_all add: r buffers_kept_def err_len_def)
qed

lemma buffers_kept_simps [simp]:
  "buffers_kept w w" "buffers_kept w (free_all ms v) = buffers_kept w v"
  "buffers_kept w (count_drop a b v) = buffers_kept w v"
  "buffers_kept (count_drop a b w) v = buffers_kept w v"
  by (simp_all add: buffers_kept_def free_all_def count_drop_def)

lemma err_len_simps [simp]:
  "err_len items (free_all ms v) = err_len items v" "err_len items (count_drop a b v) = err_len items v"
  by (simp_all add: err_len_def free_all_def count_drop_def)

lemma ring_err_count_drop [simp]: "ring_err_ind (count_drop a b w) = ring_err_ind w"
  by (simp add: count_drop_def)

interpretation ingress: pgw_worker D items "ingress_ModifyPacket D" for D items
  by unfold_locales (auto simp: ingress_ModifyPacket_def split: option.splits)

interpretation egress: pgw_worker D items "egress_ModifyPacket D" for D items
  by unfold_locales (auto simp: egress_ModifyPacket_def Let_def split: option.splits if_splits)

interpretation egress_dist: pgw_worker D items "egress_dist_ModifyPacket D to_tap" for D items to_tap
proof
  fix w w' :: "('a, 'b) pgw_core_scheme" and m m'
  show "buffers_kept w w' \<and> freed w' = freed w \<and> ring_err_ind w' = ring_err_ind w"
    if "egress_dist_ModifyPacket D to_tap w m = Forward w' m'"
    using that by (auto simp: egress_dist_ModifyPacket_def Let_def split: option.splits if_splits)
  show "buffers_kept w w' \<and> length (freed w') + err_len items w' = length (freed w) + err_len items w + 1"
    if r: "ring_laws D items" and "egress_dist_ModifyPacket D to_tap w m = Stop w'"
    using that(2) enq_err_laws [OF r, of m "count_drop (word_of_nat (mb_len m)) 1 w"]
    by (auto simp: egress_dist_ModifyPacket_def Let_def split: option.splits if_splits)
qed

section \<open>Properties\<close>

text \<open>The ingress distributor forwards a packet of a known tunnel whose inner source address belongs
  to it: the packet keeps its length and its inner packet, its MAC addresses are swapped, its
  outer addresses are those of the GRE endpoints, its outer header checksum verifies, and in the
  build with GRE the capsule is an IPv4 header of 32 octets followed by the GRE header.\<close>

theorem ingress_dist_forwards_known_tunnel:
  assumes "inner_version m = 0x40 \<or> inner_version m = 0x60"
    "pgw_Find w (bswap32 (ldw m 46)) = Some itm" "ue_ipv4 itm AND 0xFFFFFF00 = ldw m 62 AND 0xFFFFFF00"
  shows "\<exists>m'. ingress_dist_ModifyPacket D no_gre test_mode w m = Forward w m' \<and>
    mb_len m' = mb_len m \<and> pkt_slice m' 0 6 = pkt_slice m 6 6 \<and> pkt_slice m' 6 6 = pkt_slice m 0 6 \<and>
    ldw m' 26 = bswap32 (gresrcipv4 w) \<and> ldw m' 30 = bswap32 (greipv4 w) \<and>
    pkt_slice m' 50 n = pkt_slice m 50 n \<and>
    ip_checksum_ok (mb_mem m') (mtod m' 14) (if no_gre then 20 else 32) \<and>
    (\<not> no_gre \<longrightarrow> ip4_hlen m' 14 = 32 \<and> ldb m' 23 = IPPROTO_GRE \<and> pkt_slice m' 46 4 = [0, 0, 8, 0])"
proof -
  define q where "q = (if no_gre
    then stw 30 (bswap32 (greipv4 w)) (stw 26 (bswap32 (gresrcipv4 w)) m)
    else to_gre [0x00, 0x00, 0x08, 0x00] (bswap32 (gresrcipv4 w)) (bswap32 (greipv4 w)) m)"
  define len :: "16 word" where "len = (if no_gre then 20 else 32)"
  define p where "p = swap_mac (pkt_ip_checksum len q)"
  define m' where "m' = (if no_gre then p else p\<lparr>mb_ptype := L3_IPV4 D OR TUNNEL_GRE D\<rparr>)"
  have res: "ingress_dist_ModifyPacket D no_gre test_mode w m = Forward w m'"
    using assms by (auto simp: ingress_dist_ModifyPacket_def Let_def m'_def p_def q_def len_def)
  have m'p: "ldb m' j = ldb p j" "mb_mem m' = mb_mem p" "mb_off m' = mb_off m" "mb_len m' = mb_len m" for j
    by (simp_all add: m'_def ldb_stores p_def q_def)
  have pq: "ldb p j = ldb q j" if "12 \<le> j" "j \<noteq> 24" "j \<noteq> 25" for j
    using that by (simp add: p_def ldb_swap_mac ldb_pkt_ip_checksum)
  have slice: "pkt_slice m' k l = pkt_slice p k l" for k l by (rule pkt_slice_cong) (simp add: m'p)
  have qm: "ldb q j = ldb m j" if "j < 12 \<or> 50 \<le> j" for j
    using that by (auto simp: q_def to_gre_def Let_def ldb_stores)
  have mac: "pkt_slice m' 0 6 = pkt_slice m 6 6" "pkt_slice m' 6 6 = pkt_slice m 0 6"
    unfolding slice unfolding p_def swap_mac_slices
    by (rule pkt_slice_cong, simp add: ldb_pkt_ip_checksum qm)+
  have pay: "pkt_slice m' 50 n = pkt_slice m 50 n" by (rule pkt_slice_cong) (simp add: m'p pq qm)
  have addr: "ldw m' 26 = bswap32 (gresrcipv4 w)" "ldw m' 30 = bswap32 (greipv4 w)"
    by (simp_all add: ldw_ldb m'p pq) (simp_all add: q_def to_gre_def Let_def ldb_stores)
  have "unat len = 2 * (if no_gre then 10 else 16)" by (simp add: len_def)
  then have ck: "ip_checksum_ok (mb_mem m') (mtod m' 14) len"
    using pkt_checksum_ok [of len "if no_gre then 10 else 16" q]
    by (simp add: m'p p_def mtod_def q_def split: if_splits)
  have gre: "ip4_hlen m' 14 = 32 \<and> ldb m' 23 = IPPROTO_GRE \<and> pkt_slice m' 46 4 = [0, 0, 8, 0]" if "\<not> no_gre"
  proof -
    have "pkt_slice m' 46 4 = [0, 0, 8, 0]"
      by (rule nth_equalityI, simp, simp add: nth_pkt_slice m'p pq)
        (use that in \<open>simp add: q_def to_gre_def Let_def ldb_stores\<close>)
    then show ?thesis
      by (simp add: ip4_hlen_def m'p pq) (use that in \<open>simp add: q_def to_gre_def Let_def ldb_stores\<close>)
  qed
  show ?thesis
    using res mac pay addr ck gre m'p(4) by (intro exI [of _ m']) (simp add: len_def)
qed

text \<open>A packet whose inner packet starts with an IPv4 octet, and a worker that knows one tunnel.\<close>

definition demo_gtpu :: mbuf where
  "demo_gtpu = demo_mbuf 80 (replicate 50 0 @ [0x45])"

definition demo_known :: "bool \<Rightarrow> mbuf list pgw_core" where
  "demo_known egress = (demo_pgw 1 egress)\<lparr>map_tbl := [0 \<mapsto> zero_lookup]\<rparr>"

lemma demo_gtpu_facts:
  "inner_version demo_gtpu = 0x40" "ldw demo_gtpu 46 = 0" "ldw demo_gtpu 62 = 0" "ldw demo_gtpu 66 = 0"
  by (simp_all add: inner_version_def ldb_def mtod_def demo_gtpu_def demo_mbuf_def mem_of_def
      wr_bytes_def nth_append ldw_def ld32_def mk32_def)

lemma demo_known_Find: "pgw_Find (demo_known e) 0 = Some zero_lookup"
  by (simp add: demo_known_def pgw_Find_def demo_pgw_sel bswap32_def mk32_def byte_of_def)

lemma bswap32_0: "bswap32 0 = 0"
  by (simp add: bswap32_def mk32_def byte_of_def)

theorem ingress_dist_forwards_known_tunnel_witness:
  "\<exists>m'. ingress_dist_ModifyPacket (ref_dpdk 4) False False (demo_known False) demo_gtpu =
      Forward (demo_known False) m' \<and> ip4_hlen m' 14 = 32 \<and> pkt_slice m' 50 30 = pkt_slice demo_gtpu 50 30"
proof -
  have a: "pgw_Find (demo_known False) (bswap32 (ldw demo_gtpu 46)) = Some zero_lookup"
    by (simp add: demo_gtpu_facts demo_known_Find bswap32_0)
  have b: "ue_ipv4 zero_lookup AND 0xFFFFFF00 = ldw demo_gtpu 62 AND 0xFFFFFF00"
    by (simp add: demo_gtpu_facts zero_lookup_def)
  show ?thesis
    using ingress_dist_forwards_known_tunnel [OF disjI1 [OF demo_gtpu_facts(1)] a b,
        of "ref_dpdk 4" False False 30] by blast
qed

text \<open>The egress distributor sends a packet for a known subscriber to its SGW: the tunnel identifier,
  the outer addresses and both UDP ports are those of the tunnel record, the outer checksum
  verifies, the MAC addresses are swapped and the inner packet is kept.\<close>

lemma egress_dist_rewrites:
  assumes "inner_version m = 0x40 \<or> inner_version m = 0x60"
    "pgw_Find w ((if inner_version m = 0x40 then ldw m 66 else ldw m 78) AND 0xFFFFFF00) = Some itm"
  shows "\<exists>m'. egress_dist_ModifyPacket D to_tap w m = Forward w m' \<and> mb_len m' = mb_len m \<and>
    pkt_slice m' 0 6 = pkt_slice m 6 6 \<and> pkt_slice m' 6 6 = pkt_slice m 0 6 \<and>
    ldw m' 46 = sgw_gtpu_teid itm \<and> ldw m' 26 = pgw_gtpu_ipv4 itm \<and> ldw m' 30 = sgw_gtpu_ipv4 itm \<and>
    ldh m' 34 = bswap16 GTPU_PORT \<and> ldh m' 36 = bswap16 GTPU_PORT \<and>
    ip_checksum_ok (mb_mem m') (mtod m' 14) 20 \<and> pkt_slice m' 50 n = pkt_slice m 50 n"
proof -
  define q where "q = stw 30 (sgw_gtpu_ipv4 itm) (stw 26 (pgw_gtpu_ipv4 itm) (sth 34 (bswap16 GTPU_PORT)
    (sth 36 (bswap16 GTPU_PORT) (stw 46 (sgw_gtpu_teid itm) m))))"
  define p where "p = swap_mac (pkt_ip_checksum 20 q)"
  have res: "egress_dist_ModifyPacket D to_tap w m = Forward w p"
    using assms by (auto simp: egress_dist_ModifyPacket_def Let_def p_def q_def split: if_splits)
  have pq: "ldb p j = ldb q j" if "12 \<le> j" "j \<noteq> 24" "j \<noteq> 25" for j
    using that by (simp add: p_def ldb_swap_mac ldb_pkt_ip_checksum)
  have qm: "ldb q j = ldb m j" if "j < 12 \<or> 50 \<le> j" for j
    using that by (auto simp: q_def ldb_stores)
  have mac: "pkt_slice p 0 6 = pkt_slice m 6 6" "pkt_slice p 6 6 = pkt_slice m 0 6"
    unfolding p_def swap_mac_slices by (rule pkt_slice_cong, simp add: ldb_pkt_ip_checksum qm)+
  have pay: "pkt_slice p 50 n = pkt_slice m 50 n" by (rule pkt_slice_cong) (simp add: pq qm)
  have fld: "ldw p 46 = sgw_gtpu_teid itm" "ldw p 26 = pgw_gtpu_ipv4 itm" "ldw p 30 = sgw_gtpu_ipv4 itm"
    "ldh p 34 = bswap16 GTPU_PORT" "ldh p 36 = bswap16 GTPU_PORT"
    by (simp_all add: ldw_ldb ldh_ldb pq) (simp_all add: q_def ldb_stores)
  have off: "mb_off p = mb_off m" "mb_len p = mb_len m" by (simp_all add: p_def q_def)
  then have "ip_checksum_ok (mb_mem p) (mtod p 14) 20"
    using pkt_checksum_ok [of 20 10 q] by (simp add: p_def mtod_def q_def)
  with res mac pay fld off show ?thesis by (intro exI [of _ p]) simp
qed

text \<open>What the egress distributor makes of a packet for a subscriber with record \<open>itm\<close>.\<close>

definition sent_to_sgw :: "lookup_t \<Rightarrow> mbuf \<Rightarrow> mbuf \<Rightarrow> bool" where
  "sent_to_sgw itm m m' \<longleftrightarrow> mb_len m' = mb_len m \<and>
     pkt_slice m' 0 6 = pkt_slice m 6 6 \<and> pkt_slice m' 6 6 = pkt_slice m 0 6 \<and>
     ldw m' 46 = sgw_gtpu_teid itm \<and> ldw m' 26 = pgw_gtpu_ipv4 itm \<and> ldw m' 30 = sgw_gtpu_ipv4 itm \<and>
     ldh m' 34 = bswap16 GTPU_PORT \<and> ldh m' 36 = bswap16 GTPU_PORT \<and>
     ip_checksum_ok (mb_mem m') (mtod m' 14) 20 \<and>
     pkt_slice m' 50 (mb_len m - 50) = pkt_slice m 50 (mb_len m - 50)"

definition known_subscriber :: "('r, 'z) pgw_core_scheme \<Rightarrow> mbuf \<Rightarrow> lookup_t \<Rightarrow> bool" where
  "known_subscriber w m itm \<longleftrightarrow> (inner_version m = 0x40 \<or> inner_version m = 0x60) \<and>
     pgw_Find w ((if inner_version m = 0x40 then ldw m 66 else ldw m 78) AND 0xFFFFFF00) = Some itm"

text \<open>Sending changes nothing that a lookup or the rest of the cycle depends on.\<close>

definition same_tables :: "('r, 'z) pgw_core_scheme \<Rightarrow> ('r, 'z) pgw_core_scheme \<Rightarrow> bool" where
  "same_tables w v \<longleftrightarrow> (\<forall>k. pgw_Find v k = pgw_Find w k) \<and> ring_warmup v = ring_warmup w \<and>
     warmup_count v = warmup_count w \<and> burst_fm v = burst_fm w \<and> ring_fm v = ring_fm w \<and> flush_delay v = flush_delay w"

lemma pgw_Find_SendOrBuffer: "pgw_Find (SendOrBuffer D m v) k = pgw_Find v k"
  by (simp add: pgw_Find_def SendOrBuffer_def count_drop_def free_all_def Let_def split: prod.splits)

lemma SendOrBuffer_warmup:
  "warmup_count (SendOrBuffer D m v) = warmup_count v" "flush_delay (SendOrBuffer D m v) = flush_delay v"
  "burst_fm (SendOrBuffer D m v) = burst_fm v" "ring_fm (SendOrBuffer D m v) = ring_fm v"
  by (simp_all add: SendOrBuffer_def count_drop_def free_all_def Let_def split: prod.splits)

lemma same_tables_SendOrBuffer: "same_tables w v \<Longrightarrow> same_tables w (SendOrBuffer D m v)"
  by (simp add: same_tables_def pgw_Find_SendOrBuffer SendOrBuffer_warmup SendOrBuffer_ring_warmup)

lemma egress_dist_burst:
  assumes "ring_laws D items" "core_inv w" "\<And>m. m \<in> set ms \<Longrightarrow> known_subscriber w m (rec m)"
  shows "\<exists>v outs. burst_loop (pgw_handle D (egress_dist_ModifyPacket D to_tap)) ms (Some w) = Some v \<and> core_inv v \<and>
    core_passes D w outs v \<and> same_tables w v \<and> list_all2 (\<lambda>m m'. sent_to_sgw (rec m) m m') ms outs"
  unfolding burst_loop_foldl using assms(3)
proof (induction ms rule: rev_induct)
  case Nil
  show ?case using assms(2)
    by (intro exI [of _ w] exI [of _ "[]"]) (simp add: core_passes_buffered same_tables_def)
next
  case (snoc m ms)
  then obtain v outs where v: "foldl (pgw_handle D (egress_dist_ModifyPacket D to_tap)) (Some w) ms = Some v" "core_inv v"
    "core_passes D w outs v" "same_tables w v" "list_all2 (\<lambda>m m'. sent_to_sgw (rec m) m m') ms outs"
    by auto
  have k: "inner_version m = 0x40 \<or> inner_version m = 0x60"
    "pgw_Find v ((if inner_version m = 0x40 then ldw m 66 else ldw m 78) AND 0xFFFFFF00) = Some (rec m)"
    using snoc.prems [of m] v(4) by (simp_all add: known_subscriber_def same_tables_def)
  obtain m' where m: "egress_dist_ModifyPacket D to_tap v m = Forward v m'" "sent_to_sgw (rec m) m m'"
    using egress_dist_rewrites [OF k, of D to_tap "mb_len m - 50"] unfolding sent_to_sgw_def by blast
  let ?v = "SendOrBuffer D m' v"
  have "foldl (pgw_handle D (egress_dist_ModifyPacket D to_tap)) (Some w) (ms @ [m]) = Some ?v"
    by (simp add: v(1) pgw_handle_def m(1))
  moreover have "core_passes D w (outs @ [m']) ?v"
    by (rule core_passes_trans [OF v(3) SendOrBuffer_passes [OF assms(1) v(2)]])
  ultimately show ?case
    using SendOrBuffer_inv [OF v(2)] same_tables_SendOrBuffer [OF v(4)] v(5) m(2)
    by (intro exI [of _ ?v] exI [of _ "outs @ [m']"]) (simp add: list_all2_appendI)
qed

text \<open>C40: A whole cycle of the egress distributor on a burst of packets for known subscribers, while no warm-up is
  due: the cycle returns and has taken the burst from its input ring. Every packet of the burst, in order, was
  rewritten for its SGW (the tunnel identifier, the outer addresses and both UDP ports are those of the tunnel record, the outer checksum
  verifies, the MAC addresses are swapped and the inner packet is kept). The rewritten packets, behind the ones that were buffered, left
  the burst buffer in bulks or are still in it: what the output ring took is on it in order, exactly what it refused is freed in order and
  counted, and nothing else is sent or freed.\<close>

theorem egress_dist_cycle_sends_in_order:
  assumes "ring_laws D items" "core_inv w" "burst_fm w \<noteq> 0"
    "ring_warmup w = None \<or> warmup_count w \<le> ucast (14000000 div burst_fm w)"
    "deq_burst D (ring_fm w) (unat (burst_fm w)) = (r, ms)" "\<And>m. m \<in> set ms \<Longrightarrow> known_subscriber w m (rec m)"
  shows "\<exists>w' cnt' outs bs taken left.
    pgw_Cycle D (egress_dist_ModifyPacket D to_tap) junk w cnt = Some (w', cnt') \<and>
    core_inv w' \<and> ring_fm w' = r \<and> items (ring_fm w) = ms @ items r \<and>
    list_all2 (\<lambda>m m'. sent_to_sgw (rec m) m m') ms outs \<and>
    out_buf w @ outs = concat bs @ out_buf w' \<and> (\<forall>b\<in>set bs. b \<noteq> [] \<and> length b \<le> unat (burst_to w)) \<and>
    offer (enq_bulk D) (ring_to w) bs = (ring_to w', taken, left) \<and> concat bs \<in> shuffles taken left \<and>
    items (ring_to w') = items (ring_to w) @ taken \<and> freed w' = freed w @ left \<and>
    drop_count (counter w') = drop_count (counter w) + word_of_nat (length left)"
proof -
  define w1 where "w1 = w\<lparr>ring_fm := r\<rparr>"
  have d: "deq_input D w = (w1, ms)" by (simp add: deq_input_def assms(5) w1_def)
  have i: "core_inv w1" using assms(2) by (simp add: w1_def core_inv_def)
  have "pgw_Find w1 k = pgw_Find w k" for k by (simp add: w1_def pgw_Find_def)
  then have "\<And>m. m \<in> set ms \<Longrightarrow> known_subscriber w1 m (rec m)" using assms(6) by (simp add: known_subscriber_def)
  from egress_dist_burst [OF assms(1) i, of ms rec to_tap, OF this] obtain v outs where
    v: "burst_loop (pgw_handle D (egress_dist_ModifyPacket D to_tap)) ms (Some w1) = Some v" "core_inv v"
      "core_passes D w1 outs v" "same_tables w1 v" "list_all2 (\<lambda>m m'. sent_to_sgw (rec m) m m') ms outs"
    by blast
  define x where "x = v\<lparr>warmup_count := warmup_count v + 1\<rparr>"
  have wu: "pgw_warmup D junk v = Some x"
    using assms(3,4) v(4) by (auto simp: pgw_warmup_def x_def same_tables_def w1_def Let_def not_less split: option.splits)
  have x: "core_inv x" "core_passes D w1 outs x" "ring_fm x = r"
    using v(2-4) by (simp_all add: x_def core_inv_def core_passes_def same_tables_def w1_def)
  let ?n = "if flush_delay x \<noteq> 0 \<and> cnt \<ge> flush_delay x then 0 else cnt"
  define w' where "w' = (if flush_delay x \<noteq> 0 \<and> cnt \<ge> flush_delay x then BurstFlush D x else x)"
  have c: "pgw_Cycle D (egress_dist_ModifyPacket D to_tap) junk w cnt = Some (w', ?n)"
    by (simp add: pgw_Cycle_def d v(1) wu w'_def)
  have "core_passes D w1 outs (BurstFlush D x)"
    using core_passes_trans [OF x(2) BurstFlush_passes [OF assms(1) x(1)]] by simp
  then have p: "core_passes D w1 outs w'" "core_inv w'" "ring_fm w' = r"
    using x BurstFlush_inv [OF x(1)] by (simp_all add: w'_def)
  then obtain bs s l where b: "out_buf w @ outs = concat bs @ out_buf w'" "\<forall>b\<in>set bs. b \<noteq> [] \<and> length b \<le> unat (burst_to w)"
    "offer (enq_bulk D) (ring_to w) bs = (ring_to w', s, l)" "freed w' = freed w @ l"
    "drop_count (counter w') = drop_count (counter w) + word_of_nat (length l)"
    unfolding core_passes_def by (auto simp: w1_def)
  note o = ring_offer [OF assms(1) b(3)]
  show ?thesis
    by (rule exI [of _ w'], rule exI [of _ ?n], rule exI [of _ outs], rule exI [of _ bs], rule exI [of _ s], rule exI [of _ l])
      (intro conjI c p v(5) b o [THEN conjunct1] o [THEN conjunct2] ring_laws_deq_burst(1) [OF assms(1,5)])
qed

theorem egress_dist_cycle_sends_in_order_witness:
  "\<exists>w' cnt' m'. pgw_Cycle (ref_dpdk 4) (egress_dist_ModifyPacket (ref_dpdk 4) False) zero_lookup
      ((demo_known True)\<lparr>ring_fm := [demo_gtpu], ring_warmup := None\<rparr>) 0 = Some (w', cnt') \<and>
     sent_to_sgw zero_lookup demo_gtpu m' \<and> ring_fm w' = []"
proof -
  let ?w = "(demo_known True)\<lparr>ring_fm := [demo_gtpu], ring_warmup := None\<rparr>"
  have w: "core_inv ?w" "burst_fm ?w \<noteq> 0" "ring_warmup ?w = None" "burst_fm ?w = 4"
    by (simp_all add: core_inv_def demo_known_def demo_pgw_sel)
  have dq: "deq_burst (ref_dpdk 4) (ring_fm ?w) (unat (burst_fm ?w)) = ([], [demo_gtpu])"
    by (simp add: ref_dpdk_sel demo_known_def demo_pgw_sel)
  have "pgw_Find ?w 0 = pgw_Find (demo_known True) 0" by (simp add: pgw_Find_def)
  then have "pgw_Find ?w 0 = Some zero_lookup" by (simp add: demo_known_Find)
  then have k: "known_subscriber ?w m zero_lookup" if "m \<in> set [demo_gtpu]" for m
    using that by (simp add: known_subscriber_def demo_gtpu_facts)
  from egress_dist_cycle_sends_in_order [OF ref_dpdk_ring_laws w(1,2) disjI1 [OF w(3)] dq k, of False zero_lookup 0]
  show ?thesis by (auto simp: list_all2_Cons1)
qed

text \<open>On a packet of an unknown tunnel the ingress distributor gives the packet away twice: when the
  error ring takes it, the same packet is on the error ring and is returned for sending, so two
  owners hold one buffer; when the ring is full it is freed once and not sent.\<close>

theorem ingress_dist_unknown_tunnel_two_owners:
  assumes "ring_laws D items" "inner_version m = 0x40 \<or> inner_version m = 0x60"
    "pgw_Find w (bswap32 (ldw m 46)) = None" "ring_err_ind w = Some r"
  shows "case ingress_dist_ModifyPacket D no_gre False w m of
      Forward w' m' \<Rightarrow> m' = m \<and> freed w' = freed w \<and>
        (\<exists>r'. ring_err_ind w' = Some r' \<and> items r' = items r @ [m])
    | Stop w' \<Rightarrow> freed w' = freed w @ [m] \<and> ring_err_ind w' = Some r
    | Panic \<Rightarrow> False"
proof -
  obtain r' ok where e: "enq_one D r m = (r', ok)" by fastforce
  from assms(1) e show ?thesis
    using assms(2-4)
    by (cases rule: ring_laws_enq_one)
      (auto simp: ingress_dist_ModifyPacket_def dist_to_tap_def enq_err_def Let_def e free_all_def count_drop_def)
qed

theorem ingress_dist_unknown_tunnel_two_owners_witness:
  "case ingress_dist_ModifyPacket (ref_dpdk 4) False False (demo_pgw 1 False) demo_gtpu of
      Forward w' m' \<Rightarrow> m' = demo_gtpu \<and> ring_err_ind w' = Some [demo_gtpu] | _ \<Rightarrow> freed (demo_pgw 1 False) = []"
proof -
  have "pgw_Find (demo_pgw 1 False) (bswap32 (ldw demo_gtpu 46)) = None"
    by (simp add: pgw_Find_def demo_pgw_sel)
  moreover have "ring_err_ind (demo_pgw 1 False) = Some []" by (rule demo_pgw_sel)
  ultimately show ?thesis
    using ingress_dist_unknown_tunnel_two_owners [OF ref_dpdk_ring_laws disjI1 [OF demo_gtpu_facts(1)],
        of "demo_pgw 1 False" "[]" 4 False] by (auto simp: demo_pgw_sel split: verdict.splits)
qed

text \<open>A cycle of the ingress, egress and egress distributor workers that comes to its end, with no warm-up ring, conserves
  the number of packets on the input ring, the output ring and the error ring, in the burst buffer and freed.\<close>

theorem pgw_cycles_conserve_packets:
  assumes "ring_laws D items" "core_inv w" "ring_warmup w = None"
    "modify \<in> {ingress_ModifyPacket D, egress_ModifyPacket D, egress_dist_ModifyPacket D to_tap}"
    "pgw_Cycle D modify junk w cnt = Some (w', cnt')"
  shows "core_inv w' \<and> pgw_total items w' = pgw_total items w"
  using assms(4,5) ingress.cycle_total [OF assms(1-3)] egress.cycle_total [OF assms(1-3)]
    egress_dist.cycle_total [OF assms(1-3)] by blast

theorem pgw_cycles_conserve_packets_witness:
  "\<exists>w' cnt'. pgw_Cycle (ref_dpdk 4) (ingress_ModifyPacket (ref_dpdk 4)) zero_lookup
      ((demo_pgw 1 False)\<lparr>ring_warmup := None, ring_fm := [demo_gtpu]\<rparr>) 0 = Some (w', cnt') \<and>
     pgw_total id w' = 1"
proof -
  let ?w = "(demo_pgw 1 False)\<lparr>ring_warmup := None, ring_fm := [demo_gtpu]\<rparr>"
  have inv: "core_inv ?w" "pgw_total id ?w = 1"
    by (simp_all add: core_inv_def pgw_total_def in_system_def holdings_def err_len_def demo_pgw_sel)
  have "pgw_Find v k = None" if "findtype v = 1" "map_tbl v = Map.empty" for v :: "mbuf list pgw_core" and k
    using that by (simp add: pgw_Find_def)
  then have "pgw_Cycle (ref_dpdk 4) (ingress_ModifyPacket (ref_dpdk 4)) zero_lookup ?w 0 \<noteq> None"
    by (simp add: pgw_Cycle_def deq_input_def ref_dpdk_sel burst_loop_foldl demo_pgw_sel pgw_handle_def
        ingress_ModifyPacket_def pgw_warmup_def Let_def free_all_def)
  then obtain w' cnt' where c: "pgw_Cycle (ref_dpdk 4) (ingress_ModifyPacket (ref_dpdk 4)) zero_lookup ?w 0
      = Some (w', cnt')" by auto
  have "core_inv w' \<and> pgw_total id w' = pgw_total id ?w"
    by (rule pgw_cycles_conserve_packets [OF ref_dpdk_ring_laws inv(1) _ _ c]) simp_all
  with c inv(2) show ?thesis by auto
qed

end
