(* ===== verification/Policer.thy ===== *)
theory Policer
  imports Lookup_Table
begin

text \<open>
  The two-rate policer of the tunnel workers, the callback they run under the lock of the tunnel
  map (\<open>CorePgwIngressTunnelWorker::ModifyPacket\<close> and
  \<open>CorePgwEgressTunnelWorker::ModifyPacket\<close>): tokens of the committed and of the excess
  bucket are refilled for the seconds since the last packet and bounded by the burst sizes; a packet
  is green when the committed bucket pays for it, yellow when the excess bucket does, and red else.
  All of it is arithmetic on \<open>uint32_t\<close>, which wraps.
\<close>

section \<open>Operations\<close>

abbreviation POLICER_COLOR_GREEN :: "2 word" where "POLICER_COLOR_GREEN \<equiv> 0"
abbreviation POLICER_COLOR_YELLOW :: "2 word" where "POLICER_COLOR_YELLOW \<equiv> 1"
abbreviation POLICER_COLOR_RED :: "2 word" where "POLICER_COLOR_RED \<equiv> 2"

definition refill :: "32 word \<Rightarrow> lookup_t \<Rightarrow> lookup_t" where
  "refill tm itm =
     (let dt = tm - epoch_w itm in
      if dt \<noteq> 0 then itm
        \<lparr>commit_rate := min (commit_burst_size itm) (commit_rate itm + commit_information_rate itm * dt),
         excess_rate := min (excess_burst_size itm) (excess_rate itm + excess_information_rate itm * dt),
         epoch_w := tm\<rparr>
      else itm)"

definition police :: "32 word \<Rightarrow> 12 word \<Rightarrow> lookup_t \<Rightarrow> 2 word \<times> lookup_t" where
  "police tm sz itm =
     (let itm = refill tm itm; n = ucast sz in
      if n \<le> commit_rate itm then (POLICER_COLOR_GREEN, itm\<lparr>commit_rate := commit_rate itm - n\<rparr>)
      else if n \<le> excess_rate itm then (POLICER_COLOR_YELLOW, itm\<lparr>excess_rate := excess_rate itm - n\<rparr>)
      else (POLICER_COLOR_RED, itm))"

section \<open>Refilling\<close>

lemma unat_add_le: "unat (a + b :: 32 word) \<le> unat a + unat b"
  by (simp add: unat_word_ariths)

lemma unat_mult_le: "unat (a * b :: 32 word) \<le> unat a * unat b"
  by (simp add: unat_word_ariths)

lemma unat_min: "unat (min a b :: 32 word) = min (unat a) (unat b)"
  by (simp add: min_def word_le_nat_alt)

lemma unat_ucast12 [simp]: "unat (ucast (s :: 12 word) :: 32 word) = unat s"
proof -
  have "unat s < 4096" using unsigned_less [of s, where ?'a = nat] by simp
  then show ?thesis by (simp add: unsigned_ucast_eq take_bit_eq_mod)
qed

lemma refill_frame:
  "commit_information_rate (refill tm itm) = commit_information_rate itm"
  "excess_information_rate (refill tm itm) = excess_information_rate itm"
  "commit_burst_size (refill tm itm) = commit_burst_size itm"
  "excess_burst_size (refill tm itm) = excess_burst_size itm" "epoch_w (refill tm itm) = tm"
  by (simp_all add: refill_def Let_def)

lemma refill_le:
  assumes "epoch_w itm \<le> tm"
  shows "unat (commit_rate (refill tm itm)) \<le>
      unat (commit_rate itm) + unat (commit_information_rate itm) * (unat tm - unat (epoch_w itm))"
    and "unat (excess_rate (refill tm itm)) \<le>
      unat (excess_rate itm) + unat (excess_information_rate itm) * (unat tm - unat (epoch_w itm))"
proof -
  have dt: "unat (tm - epoch_w itm) = unat tm - unat (epoch_w itm)"
    using assms by (rule unat_sub)
  have le: "unat (min b (c + r * (tm - epoch_w itm))) \<le> unat c + unat r * (unat tm - unat (epoch_w itm))"
    for b c r :: "32 word"
    using unat_add_le [of c "r * (tm - epoch_w itm)"] unat_mult_le [of r "tm - epoch_w itm"]
    unfolding unat_min dt by linarith
  show "unat (commit_rate (refill tm itm)) \<le>
      unat (commit_rate itm) + unat (commit_information_rate itm) * (unat tm - unat (epoch_w itm))"
    "unat (excess_rate (refill tm itm)) \<le>
      unat (excess_rate itm) + unat (excess_information_rate itm) * (unat tm - unat (epoch_w itm))"
    using le by (simp_all add: refill_def Let_def)
qed

lemma police_frame:
  assumes "police tm s itm = (col, itm')"
  shows "commit_information_rate itm' = commit_information_rate itm"
    "excess_information_rate itm' = excess_information_rate itm"
    "commit_burst_size itm' = commit_burst_size itm" "excess_burst_size itm' = excess_burst_size itm"
    "epoch_w itm' = tm"
  using assms by (auto simp: police_def Let_def refill_frame split: if_splits)

text \<open>Tokens spent and left never exceed the tokens after the refill.\<close>

lemma police_spends:
  assumes "police tm s itm = (col, itm')"
  shows "unat (commit_rate itm') + (if col = POLICER_COLOR_GREEN then unat s else 0)
      = unat (commit_rate (refill tm itm))"
    "unat (excess_rate itm') + (if col = POLICER_COLOR_YELLOW then unat s else 0)
      = unat (excess_rate (refill tm itm))"
proof -
  have sub: "unat (c - ucast s) + unat s = unat c" if "ucast s \<le> c" for c :: "32 word"
    using that unat_sub [OF that] by (simp add: word_le_nat_alt)
  show "unat (commit_rate itm') + (if col = POLICER_COLOR_GREEN then unat s else 0)
      = unat (commit_rate (refill tm itm))"
    "unat (excess_rate itm') + (if col = POLICER_COLOR_YELLOW then unat s else 0)
      = unat (excess_rate (refill tm itm))"
    using assms sub by (auto simp: police_def Let_def split: if_splits)
qed

section \<open>Sequences of packets\<close>

text \<open>A run of the policer: arrival times and sizes, the octets coloured green and yellow.\<close>

fun police_run :: "(32 word \<times> 12 word) list \<Rightarrow> lookup_t \<Rightarrow> nat \<times> nat \<times> lookup_t" where
  "police_run [] itm = (0, 0, itm)"
| "police_run ((tm, s) # ps) itm =
     (let (col, itm') = police tm s itm; (g, y, itm'') = police_run ps itm' in
      (g + (if col = POLICER_COLOR_GREEN then unat s else 0),
       y + (if col = POLICER_COLOR_YELLOW then unat s else 0), itm''))"

definition arrivals :: "lookup_t \<Rightarrow> (32 word \<times> 12 word) list \<Rightarrow> bool" where
  "arrivals itm ps \<longleftrightarrow> sorted (map fst ps) \<and> (\<forall>p\<in>set ps. epoch_w itm \<le> fst p)"

definition last_time :: "lookup_t \<Rightarrow> (32 word \<times> 12 word) list \<Rightarrow> 32 word" where
  "last_time itm ps = (if ps = [] then epoch_w itm else fst (last ps))"

lemma last_time_Cons:
  assumes "arrivals itm ((tm, s) # ps)" "epoch_w itm' = tm"
  shows "last_time itm ((tm, s) # ps) = last_time itm' ps" "arrivals itm' ps" "epoch_w itm \<le> tm"
    "tm \<le> last_time itm' ps"
  using assms by (auto simp: last_time_def arrivals_def)

lemma police_run_conforms:
  "arrivals itm ps \<Longrightarrow> police_run ps itm = (g, y, itm') \<Longrightarrow>
     g + unat (commit_rate itm') \<le> unat (commit_rate itm) +
       unat (commit_information_rate itm) * (unat (last_time itm ps) - unat (epoch_w itm)) \<and>
     y + unat (excess_rate itm') \<le> unat (excess_rate itm) +
       unat (excess_information_rate itm) * (unat (last_time itm ps) - unat (epoch_w itm))"
proof (induction ps arbitrary: itm g y itm')
  case Nil
  then show ?case by simp
next
  case (Cons p ps)
  obtain tm s where p: "p = (tm, s)" by (cases p)
  obtain col i1 where pol: "police tm s itm = (col, i1)" by (cases "police tm s itm")
  obtain g1 y1 i2 where run: "police_run ps i1 = (g1, y1, i2)" by (cases "police_run ps i1")
  note fr = police_frame [OF pol] and sp = police_spends [OF pol]
  note lt = last_time_Cons [OF Cons.prems(1) [unfolded p] fr(5)]
  note IH = Cons.IH [OF lt(2) run]
  note rf = refill_le [OF lt(3)]
  have res: "g = g1 + (if col = POLICER_COLOR_GREEN then unat s else 0)"
    "y = y1 + (if col = POLICER_COLOR_YELLOW then unat s else 0)" "itm' = i2"
    using Cons.prems(2) by (simp_all add: p pol run)
  have t: "unat (epoch_w itm) \<le> unat tm" "unat tm \<le> unat (last_time i1 ps)"
    using lt(3,4) by (simp_all add: word_le_nat_alt)
  have split: "r * (unat (last_time i1 ps) - unat (epoch_w itm)) =
      r * (unat (last_time i1 ps) - unat tm) + r * (unat tm - unat (epoch_w itm))" for r :: nat
    using t by (simp flip: distrib_left)
  show ?case
    using IH rf sp unfolding p lt(1) res fr split by linarith
qed

section \<open>Properties\<close>

text \<open>C38: The policer conforms to its rates: over any sequence of packets with a clock that does not go
  back, the octets coloured green are at most the tokens at the start plus the committed
  information rate times the elapsed seconds, and the octets coloured yellow are bounded in the
  same way by the excess bucket; wrap-around of the 32-bit refill can only lower the bounds.\<close>

theorem policer_conforms_to_rates:
  assumes "arrivals itm ps" "police_run ps itm = (g, y, itm')"
  shows "g \<le> unat (commit_rate itm) +
       unat (commit_information_rate itm) * (unat (last_time itm ps) - unat (epoch_w itm)) \<and>
     y \<le> unat (excess_rate itm) +
       unat (excess_information_rate itm) * (unat (last_time itm ps) - unat (epoch_w itm))"
  using police_run_conforms [OF assms] by linarith

definition demo_policed :: lookup_t where
  "demo_policed = zero_lookup\<lparr>commit_rate := 100, excess_rate := 60, commit_burst_size := 100,
     excess_burst_size := 60, commit_information_rate := 10, excess_information_rate := 5\<rparr>"

theorem policer_conforms_to_rates_witness:
  "fst (police_run [(1, 90), (1, 50), (2, 40)] demo_policed) \<le> 120"
proof -
  have "arrivals demo_policed [(1, 90), (1, 50), (2, 40)]"
    by (simp add: arrivals_def demo_policed_def zero_lookup_def)
  then show ?thesis
    using policer_conforms_to_rates [of demo_policed "[(1, 90), (1, 50), (2, 40)]"]
    by (cases "police_run [(1, 90), (1, 50), (2, 40)] demo_policed")
      (fastforce simp: last_time_def demo_policed_def zero_lookup_def)
qed

text \<open>Colouring is exact: after the refill a packet is green iff the committed bucket covers it, yellow
  iff only the excess bucket does, and red iff neither does; only the bucket that pays loses
  tokens, by exactly the size; and after a second has passed neither bucket holds more than its
  burst size.\<close>

theorem police_colours_exactly:
  assumes "epoch_w itm \<noteq> tm"
  shows "let r = refill tm itm; (col, itm') = police tm sz itm in
    (col = POLICER_COLOR_GREEN \<longleftrightarrow> unat sz \<le> unat (commit_rate r)) \<and>
    (col = POLICER_COLOR_YELLOW \<longleftrightarrow> unat (commit_rate r) < unat sz \<and> unat sz \<le> unat (excess_rate r)) \<and>
    (col = POLICER_COLOR_RED \<longleftrightarrow> unat (commit_rate r) < unat sz \<and> unat (excess_rate r) < unat sz) \<and>
    unat (commit_rate itm') = unat (commit_rate r) - (if col = POLICER_COLOR_GREEN then unat sz else 0) \<and>
    unat (excess_rate itm') = unat (excess_rate r) - (if col = POLICER_COLOR_YELLOW then unat sz else 0) \<and>
    commit_rate itm' \<le> commit_burst_size itm \<and> excess_rate itm' \<le> excess_burst_size itm"
proof -
  obtain col itm' where p: "police tm sz itm = (col, itm')" by (cases "police tm sz itm")
  note sp = police_spends [OF p]
  have bound: "commit_rate (refill tm itm) \<le> commit_burst_size itm"
    "excess_rate (refill tm itm) \<le> excess_burst_size itm"
    using assms by (simp_all add: refill_def Let_def)
  have "unat (commit_rate itm') \<le> unat (commit_rate (refill tm itm))"
    "unat (excess_rate itm') \<le> unat (excess_rate (refill tm itm))"
    using sp by linarith+
  with bound have le: "commit_rate itm' \<le> commit_burst_size itm" "excess_rate itm' \<le> excess_burst_size itm"
    unfolding word_le_nat_alt by linarith+
  have cmp: "ucast sz \<le> c \<longleftrightarrow> unat sz \<le> unat c" for c :: "32 word"
    by (simp add: word_le_nat_alt)
  have "(col = POLICER_COLOR_GREEN \<longleftrightarrow> unat sz \<le> unat (commit_rate (refill tm itm))) \<and>
    (col = POLICER_COLOR_YELLOW \<longleftrightarrow> unat (commit_rate (refill tm itm)) < unat sz \<and>
       unat sz \<le> unat (excess_rate (refill tm itm))) \<and>
    (col = POLICER_COLOR_RED \<longleftrightarrow> unat (commit_rate (refill tm itm)) < unat sz \<and>
       unat (excess_rate (refill tm itm)) < unat sz)"
    using p by (auto simp: police_def Let_def cmp split: if_splits)
  moreover have "unat (commit_rate itm') = unat (commit_rate (refill tm itm)) -
      (if col = POLICER_COLOR_GREEN then unat sz else 0)"
    "unat (excess_rate itm') = unat (excess_rate (refill tm itm)) -
      (if col = POLICER_COLOR_YELLOW then unat sz else 0)"
    using sp by (metis add_diff_cancel_right')+
  ultimately show ?thesis using le by (simp only: p Let_def case_prod_conv simp_thms)
qed

theorem police_colours_exactly_witness:
  "fst (police 1 90 demo_policed) = POLICER_COLOR_GREEN"
  using police_colours_exactly [of demo_policed 1 90]
  by (simp add: demo_policed_def zero_lookup_def refill_def Let_def min_def split: prod.splits)

text \<open>The 32-bit refill loses tokens: for a new tunnel, whose last refill is at time 0, a committed rate of 128 and a
  clock of 0x62000000 seconds add nothing to an empty bucket, so every packet of at least one octet
  is red although the bucket could hold 12500 octets.\<close>

theorem refill_wraps_for_new_tunnel:
  assumes "0 < sz"
  shows "let itm = zero_lookup\<lparr>commit_information_rate := 128, commit_burst_size := 12500,
      excess_information_rate := 128, excess_burst_size := 12500\<rparr> in
    fst (police 0x62000000 sz itm) = POLICER_COLOR_RED"
proof -
  have "0 < unat sz" using assms by (simp add: word_less_nat_alt)
  then have "\<not> (ucast sz :: 32 word) \<le> 0" by (simp add: word_le_nat_alt)
  moreover have z: "(210453397504 :: 32 word) = 0" by (rule word_unat_eq_iff [THEN iffD2]) simp
  ultimately show ?thesis by (simp add: police_def refill_def zero_lookup_def Let_def z)
qed

theorem refill_wraps_for_new_tunnel_witness:
  "fst (police 0x62000000 100 (zero_lookup\<lparr>commit_information_rate := 128, commit_burst_size := 12500,
      excess_information_rate := 128, excess_burst_size := 12500\<rparr>)) = POLICER_COLOR_RED"
  using refill_wraps_for_new_tunnel [of 100] by (simp add: Let_def)

end
