(* ===== verification/Pgw_Tunnel.thy ===== *)
theory Pgw_Tunnel
  imports Pgw_Workers Encap_Worker Policer
begin

text \<open>
  The tunnel workers \<open>CorePgwIngressTunnelWorker\<close> and \<open>CorePgwEgressTunnelWorker\<close>
  (\<open>dataplane/src/core/core_pgw_ingress_tunnel_worker.cc\<close>,
  \<open>core_pgw_egress_tunnel_worker.cc\<close>): user packets leave or enter their GTP-U tunnel, are policed, and
  carry size, colour, mode and subscriber in \<open>udata64\<close> for the counter cores. IPv6 packets
  travel as 6rd (IPv6 in IPv4).

  The clock \<open>time(0)\<close> is the argument \<open>tm\<close>. Pointers taken before \<open>rte_pktmbuf_adj\<close> keep
  their addresses, so the definitions name them by the offset in the packet as it was.
\<close>

section \<open>Operations\<close>

abbreviation SIXRD_ENCAPPER_ADDR :: "32 word" where "SIXRD_ENCAPPER_ADDR \<equiv> 0x0A0A0A0A"
abbreviation MBFU_FLAG_DC :: "8 word" where "MBFU_FLAG_DC \<equiv> 0"
abbreviation MBFU_FLAG_PDU :: "8 word" where "MBFU_FLAG_PDU \<equiv> 1"
abbreviation POLICER_MODE_LTE :: "2 word" where "POLICER_MODE_LTE \<equiv> 0"

definition set_udat :: "(mbuf_userdat \<Rightarrow> mbuf_userdat) \<Rightarrow> mbuf \<Rightarrow> mbuf" where
  "set_udat f m = m\<lparr>mb_udat := f (mb_udat m)\<rparr>"

text \<open>The difference \<open>pkt_len - k\<close>, an unsigned, as it is cut to the 12 bits of \<open>size\<close>.\<close>

definition udat_size :: "mbuf \<Rightarrow> 32 word \<Rightarrow> 12 word" where
  "udat_size m k = ucast (word_of_nat (mb_len m) - k)"

text \<open>The exit for a packet without a tunnel: to the tap side when it is connected, else unpoliced.\<close>

definition tunnel_miss :: "'r dpdk \<Rightarrow> mbuf \<Rightarrow> ('r, 'z) pgw_core_scheme \<Rightarrow> ('r, 'z) pgw_core_scheme verdict" where
  "tunnel_miss D m w =
     (let w = count_drop (word_of_nat (mb_len m)) 1 w in
      case enq_err D m w of
        Some (w', ok) \<Rightarrow> Stop (if ok then w' else free_all [m] w')
      | None \<Rightarrow> Forward w (set_udat (\<lambda>u. u\<lparr>ud_flag := MBFU_FLAG_DC\<rparr>) m))"

definition ingress_callback :: "32 word \<Rightarrow> 32 word \<Rightarrow> lookup_t \<Rightarrow> mbuf_userdat \<times> lookup_t \<Rightarrow>
    int \<times> lookup_t \<times> mbuf_userdat \<times> lookup_t" where
  "ingress_callback fkey tm itm a =
     (let ue_ipv4_cmp = ue_ipv4 itm AND 0xFFFFFF00 in
      if ue_ipv4_cmp \<noteq> fkey AND 0xFFFFFF00 then (- 1, itm, a)
      else let (col, itm') = police tm (ud_size (fst a)) itm in
        (0, itm', (fst a)\<lparr>ud_color := col, ud_teid := ue_ipv4_cmp\<rparr>, itm'))"

text \<open>
  Removing the capsule of an IPv6 packet: 16 octets go, and the outer IPv4 header is built anew in
  what is left, zeroed first. The GTP-U length is read after that, from the old place.
\<close>

definition decap_6rd :: "'r dpdk \<Rightarrow> 32 word \<Rightarrow> mbuf \<Rightarrow> mbuf \<Rightarrow> mbuf" where
  "decap_6rd D ipkey m p =
     (let p = p\<lparr>mb_mem := st16 (mb_mem p) (mtod m 12) (bswap16 ETHER_TYPE_IPv4)\<rparr>;
          p = p\<lparr>mb_ptype := mb_ptype p AND NOT (L3_IPV6 D) OR L3_IPV4 D\<rparr>;
          p = p\<lparr>mb_mem := copy_bytes (mb_mem p) (mtod p 0) (mtod m 0) sz_ether\<rparr>;
          p = stbytes sz_ether (replicate 20 0) p;
          p = stb sz_ether 0x45 p;
          p = sth (sz_ether + 2) (bswap16 (ld16 (mb_mem p) (mtod m 44) + 20)) p;
          p = stb (sz_ether + 8) 0xFF p;
          p = stb (sz_ether + 9) IPPROTO_IPV6 p;
          p = stw (sz_ether + 12) (ipkey AND 0xFFFFFF00 OR 0x0A) p;
          p = stw (sz_ether + 16) (bswap32 SIXRD_ENCAPPER_ADDR) p
      in set_udat (\<lambda>u. u\<lparr>ud_size := udat_size p 34\<rparr>) p)"

definition decap_v4 :: "'r dpdk \<Rightarrow> mbuf \<Rightarrow> mbuf \<Rightarrow> mbuf" where
  "decap_v4 D m p =
     (let p = p\<lparr>mb_mem := copy_bytes (mb_mem p) (mtod p 0) (mtod m 0) sz_ether\<rparr>;
          p = p\<lparr>mb_ptype := mb_ptype p OR L3_IPV4 D\<rparr>
      in set_udat (\<lambda>u. u\<lparr>ud_size := udat_size p 14\<rparr>) p)"

definition ingress_tunnel_ModifyPacket :: "'r dpdk \<Rightarrow> 32 word \<Rightarrow> ('r, 'z) pgw_core_scheme \<Rightarrow> mbuf \<Rightarrow>
    ('r, 'z) pgw_core_scheme verdict" where
  "ingress_tunnel_ModifyPacket D tm w m0 =
     (let m = m0\<lparr>mb_udat := zero_userdat\<rparr>; v6 = (inner_version m = 0x60) in
      if is_pdu m = PASS then Forward w (set_udat (\<lambda>u. u\<lparr>ud_flag := MBFU_FLAG_DC\<rparr>) m)
      else if inner_version m \<noteq> 0x40 \<and> \<not> v6 then
        Stop (free_all [m] (count_drop (word_of_nat (mb_len m)) 1 w))
      else
        let ipkey = (if v6 then ldw m (inip_ofst + 8 + 4) else ldw m (inip_ofst + 12)) in
        case adj D m (if v6 then sz_udp + sz_gtpu else sz_ipv4 + sz_udp + sz_gtpu) of
          None \<Rightarrow> Stop (free_all [m] (count_drop (word_of_nat (mb_len m)) 1 w))
        | Some p \<Rightarrow>
            let p = (if v6 then decap_6rd D ipkey m p else decap_v4 D m p);
                p = set_udat (\<lambda>u. u\<lparr>ud_color := POLICER_COLOR_GREEN, ud_mode := POLICER_MODE_LTE\<rparr>) p;
                w = w\<lparr>findkey := ipkey, now := tm\<rparr>;
                (ret, w, u, itm) = pgw_Find_update w (bswap32 (ldw m 46)) (ingress_callback ipkey tm)
                  (mb_udat p, lookup_itm w);
                w = w\<lparr>lookup_itm := itm\<rparr>;
                p = p\<lparr>mb_udat := u\<rparr>
            in if ret \<noteq> 0 then tunnel_miss D p w
               else Forward w (set_udat (\<lambda>u. u\<lparr>ud_flag := MBFU_FLAG_PDU, ud_mode := lk_mode itm\<rparr>) p))"

record 'r tunnel_core = "'r pgw_core" +
  t_gtpuh :: mem
  t_udph :: mem
  t_iph :: mem

definition egress_tunnel_new :: "32 word \<Rightarrow> 'r pgw_core \<Rightarrow> 'r tunnel_core" where
  "egress_tunnel_new src c = pgw_core.extend c
     \<lparr>t_gtpuh = gtpuh_init, t_udph = udph_init GTPU_PORT, t_iph = iph_init src\<rparr>"

definition egress_callback :: "32 word \<Rightarrow> lookup_t \<Rightarrow> mbuf_userdat \<times> lookup_t \<Rightarrow>
    int \<times> lookup_t \<times> mbuf_userdat \<times> lookup_t" where
  "egress_callback tm itm a =
     (let (col, itm') = police tm (ud_size (fst a)) itm in (0, itm', (fst a)\<lparr>ud_color := col\<rparr>, itm'))"

definition egress_tunnel_key :: "mbuf \<Rightarrow> 32 word" where
  "egress_tunnel_key m =
     (if ldw m (sz_ether + 12) = bswap32 SIXRD_ENCAPPER_ADDR
      then ldw m (sz_ether + sz_ipv4 + 24 + 4) AND 0xFFFFFF00 OR 0x0A
      else ldw m (sz_ether + 16))"

text \<open>
  The capsule from the tunnel record. The code stores the lengths, then the record, then the
  checksum again; \<open>encap_headers\<close> is the same stores with the record in place.
\<close>

definition tunnel_headers :: "'r dpdk \<Rightarrow> lookup_t \<Rightarrow> 'r tunnel_core \<Rightarrow> mbuf \<Rightarrow> 'r tunnel_core \<times> mbuf" where
  "tunnel_headers D itm w p =
     (case encap_headers D (st32 (st32 (t_iph w) 12 (pgw_gtpu_ipv4 itm)) 16 (sgw_gtpu_ipv4 itm))
          (t_udph w) (st32 (t_gtpuh w) 4 (sgw_gtpu_teid itm)) p of
        (ip, udp, gtp, p') \<Rightarrow> (w\<lparr>t_iph := ip, t_udph := udp, t_gtpuh := gtp\<rparr>, p'))"

definition egress_tunnel_ModifyPacket :: "'r dpdk \<Rightarrow> 32 word \<Rightarrow> 'r tunnel_core \<Rightarrow> mbuf \<Rightarrow>
    'r tunnel_core verdict" where
  "egress_tunnel_ModifyPacket D tm w m0 =
     (let m = m0\<lparr>mb_udat := zero_userdat\<rparr> in
      if is_user m = PASS then Forward w (set_udat (\<lambda>u. u\<lparr>ud_flag := MBFU_FLAG_DC\<rparr>) m)
      else
        let sixrd = (ldw m (sz_ether + 12) = bswap32 SIXRD_ENCAPPER_ADDR);
            m = set_udat (\<lambda>u. u\<lparr>ud_size := udat_size m 14, ud_teid := findkey w,
                  ud_color := POLICER_COLOR_GREEN, ud_mode := POLICER_MODE_LTE\<rparr>) m;
            w = w\<lparr>findkey := egress_tunnel_key m AND 0xFFFFFF00, now := tm\<rparr>;
            (ret, w, u, itm) = pgw_Find_update w (findkey w) (egress_callback tm) (mb_udat m, lookup_itm w);
            w = w\<lparr>lookup_itm := itm\<rparr>;
            m = m\<lparr>mb_udat := u\<rparr>
        in if ret \<noteq> 0 then tunnel_miss D m w
           else
             let n = (if sixrd then sz_udp + sz_gtpu else sz_ipv4 + sz_udp + sz_gtpu);
                 m = (if sixrd then sth 12 (bswap16 ETHER_TYPE_IPv4) m else m) in
             case prepend D m n of
               None \<Rightarrow> Panic
             | Some p \<Rightarrow>
                 let (w, p) = tunnel_headers D itm w (move_eth n p)
                 in Forward w (set_udat (\<lambda>u. u\<lparr>ud_flag := MBFU_FLAG_PDU, ud_mode := lk_mode itm\<rparr>) p))"

section \<open>The workers as clients of the core\<close>

lemma set_udat_frame [simp]:
  "mb_mem (set_udat f m) = mb_mem m" "mb_off (set_udat f m) = mb_off m" "mb_len (set_udat f m) = mb_len m"
  "mb_udat (set_udat f m) = f (mb_udat m)" "mb_ptype (set_udat f m) = mb_ptype m"
  "ldb (set_udat f m) j = ldb m j" "ldw (set_udat f m) j = ldw m j" "ldh (set_udat f m) j = ldh m j"
  "mtod (set_udat f m) j = mtod m j" "pkt_slice (set_udat f m) j n = pkt_slice m j n"
  by (simp_all add: set_udat_def ldb_def ldw_def ldh_def mtod_def pkt_slice_def)

lemma Find_update_frame:
  assumes "pgw_Find_update w k cb a = (ret, w', a')"
  shows "buffers_kept w w'" "freed w' = freed w" "ring_err_ind w' = ring_err_ind w" "counter w' = counter w"
  using assms by (auto simp: pgw_Find_update_def buffers_kept_def Let_def split: if_splits option.splits prod.splits)

lemma tunnel_miss_laws:
  "tunnel_miss D m w = Forward w' m' \<Longrightarrow> buffers_kept w w' \<and> freed w' = freed w \<and> ring_err_ind w' = ring_err_ind w"
  "ring_laws D items \<Longrightarrow> tunnel_miss D m w = Stop w' \<Longrightarrow>
     buffers_kept w w' \<and> length (freed w') + err_len items w' = length (freed w) + err_len items w + 1"
  "tunnel_miss D m w \<noteq> Panic"
  using enq_err_laws [of D items m "count_drop (word_of_nat (mb_len m)) 1 w"]
  by (auto simp: tunnel_miss_def Let_def split: option.splits)

lemma buffers_kept_trans: "buffers_kept u v \<Longrightarrow> buffers_kept v w \<Longrightarrow> buffers_kept u w"
  by (simp add: buffers_kept_def)

lemma pgw_update_frame [simp]:
  "buffers_kept w (v\<lparr>findkey := k, now := t\<rparr>) = buffers_kept w v"
  "buffers_kept w (v\<lparr>lookup_itm := i\<rparr>) = buffers_kept w v"
  "buffers_kept (w\<lparr>findkey := k, now := t\<rparr>) v = buffers_kept w v"
  "buffers_kept (w\<lparr>lookup_itm := i\<rparr>) v = buffers_kept w v"
  by (simp_all add: buffers_kept_def)

lemma err_len_update [simp]:
  "err_len items (v\<lparr>lookup_itm := i\<rparr>) = err_len items v"
  "err_len items (v\<lparr>findkey := k, now := t\<rparr>) = err_len items v"
  by (simp_all add: err_len_def)

text \<open>The shape of both workers: forward or free at once, or search the map and then go on.\<close>

definition quiet :: "('r, 'z) pgw_core_scheme \<Rightarrow> ('r, 'z) pgw_core_scheme \<Rightarrow> bool" where
  "quiet w v \<longleftrightarrow> buffers_kept w v \<and> freed v = freed w \<and> ring_err_ind v = ring_err_ind w"

definition tunnel_outcome :: "'r dpdk \<Rightarrow> ('r, 'z) pgw_core_scheme \<Rightarrow> ('r, 'z) pgw_core_scheme verdict \<Rightarrow> bool" where
  "tunnel_outcome D w v \<longleftrightarrow> (\<exists>w1 m. quiet w w1 \<and> v = Forward w1 m) \<or> v = Panic \<or>
     (\<exists>p n. v = Stop (free_all [p] (count_drop n 1 w))) \<or> (\<exists>w1 p. quiet w w1 \<and> v = tunnel_miss D p w1)"

lemma quiet_Find_update:
  assumes "pgw_Find_update (w\<lparr>findkey := k, now := t\<rparr>) fk cb a = (ret, w1, u, itm)"
  shows "quiet w (w1\<lparr>lookup_itm := itm\<rparr>)"
  using Find_update_frame [OF assms] by (simp add: quiet_def)

lemma tunnel_outcome_laws:
  assumes "tunnel_outcome D w v"
  shows "v = Forward w' m' \<Longrightarrow> buffers_kept w w' \<and> freed w' = freed w \<and> ring_err_ind w' = ring_err_ind w"
    and "ring_laws D items \<Longrightarrow> v = Stop w' \<Longrightarrow>
      buffers_kept w w' \<and> length (freed w') + err_len items w' = length (freed w) + err_len items w + 1"
proof -
  have e: "err_len items w1 = err_len items w" if "quiet w w1" for w1
    using that by (simp add: quiet_def err_len_def)
  consider (fwd) w1 m where "quiet w w1" "v = Forward w1 m" | (panic) "v = Panic"
    | (freed) p n where "v = Stop (free_all [p] (count_drop n 1 w))"
    | (miss) w1 p where "quiet w w1" "v = tunnel_miss D p w1"
    using assms unfolding tunnel_outcome_def by blast
  note c = this
  show "buffers_kept w w' \<and> freed w' = freed w \<and> ring_err_ind w' = ring_err_ind w" if "v = Forward w' m'"
  proof (cases rule: c)
    case fwd
    with that show ?thesis by (simp add: quiet_def)
  next
    case miss
    with tunnel_miss_laws(1) [of D p w1 w' m'] that show ?thesis
      by (auto simp: quiet_def intro: buffers_kept_trans)
  qed (use that in simp_all)
  show "buffers_kept w w' \<and> length (freed w') + err_len items w' = length (freed w) + err_len items w + 1"
    if r: "ring_laws D items" and "v = Stop w'"
  proof (cases rule: c)
    case freed
    with that(2) have "w' = free_all [p] (count_drop n 1 w)" by simp
    then show ?thesis by simp
  next
    case miss
    with tunnel_miss_laws(2) [OF r, of p w1 w'] e [of w1] that(2) show ?thesis
      by (auto simp: quiet_def intro: buffers_kept_trans)
  qed (use that in simp_all)
qed

lemma quiet_refl [simp]: "quiet w w"
  by (simp add: quiet_def)

lemma ingress_tunnel_outcome: "tunnel_outcome D w (ingress_tunnel_ModifyPacket D tm w m0)"
  unfolding ingress_tunnel_ModifyPacket_def Let_def tunnel_outcome_def
  by (auto simp del: pgw_update_frame split: option.split prod.split dest: quiet_Find_update)

interpretation ingress_tunnel: pgw_worker D items "ingress_tunnel_ModifyPacket D tm" for D items tm
  using tunnel_outcome_laws [OF ingress_tunnel_outcome] by unfold_locales blast+

lemma quiet_trans: "quiet u v \<Longrightarrow> quiet v w \<Longrightarrow> quiet u w"
  by (auto simp: quiet_def intro: buffers_kept_trans)

lemma tunnel_headers_quiet: "tunnel_headers D itm w p = (w', p') \<Longrightarrow> quiet w w'"
  by (auto simp: tunnel_headers_def quiet_def buffers_kept_def split: prod.splits)

lemma egress_tunnel_outcome: "tunnel_outcome D w (egress_tunnel_ModifyPacket D tm w m0)"
  unfolding egress_tunnel_ModifyPacket_def Let_def tunnel_outcome_def
  by (auto simp del: pgw_update_frame split: option.split prod.split
      dest!: quiet_Find_update tunnel_headers_quiet intro: quiet_trans)

interpretation egress_tunnel: pgw_worker D items "egress_tunnel_ModifyPacket D tm" for D items tm
  using tunnel_outcome_laws [OF egress_tunnel_outcome] by unfold_locales blast+

section \<open>The packets\<close>

lemma encap_headers_tid:
  assumes "encap_headers D ip udp gtp m = (ip', udp', gtp', m')"
  shows "ld32 gtp' 4 = ld32 gtp 4"
  using assms by (auto simp: encap_headers_def Let_def mem_defs)

text \<open>The fixed fields of the templates of the egress tunnel worker.\<close>

definition tunnel_tmpl :: "'r tunnel_core \<Rightarrow> bool" where
  "tunnel_tmpl w \<longleftrightarrow> t_iph w 0 = 0x45 \<and> t_iph w 9 = IPPROTO_UDP \<and>
     ld16 (t_udph w) 0 = bswap16 GTPU_PORT \<and> ld16 (t_udph w) 2 = bswap16 GTPU_PORT \<and>
     t_gtpuh w 0 = 0x30 \<and> t_gtpuh w 1 = GTPU_G_PDU"

lemma egress_tunnel_new_tmpl: "tunnel_tmpl (egress_tunnel_new src c)"
  by (simp add: tunnel_tmpl_def egress_tunnel_new_def pgw_core.defs gtpuh_init_def udph_init_def
      iph_init_def mem_defs)

lemma tunnel_headers_packet:
  assumes "tunnel_tmpl w" "tunnel_headers D itm w p = (w', p')"
  shows "mb_len p' = mb_len p" "mb_off p' = mb_off p" "mb_udat p' = mb_udat p"
    "ldb p' 14 = 0x45" "ldb p' 23 = IPPROTO_UDP" "ldw p' 26 = pgw_gtpu_ipv4 itm" "ldw p' 30 = sgw_gtpu_ipv4 itm"
    "ldh p' 34 = bswap16 GTPU_PORT" "ldh p' 36 = bswap16 GTPU_PORT"
    "ldb p' 42 = 0x30" "ldb p' 43 = GTPU_G_PDU" "ldw p' 46 = sgw_gtpu_teid itm"
    "ldh p' 16 = bswap16 (word_of_nat (mb_len p - 14))" "ldh p' 38 = bswap16 (word_of_nat (mb_len p - 34))"
    "ldh p' 44 = bswap16 (word_of_nat (mb_len p - 50))"
    "ip_checksum_ok (mb_mem p') (mtod p' 14) 20" "tunnel_tmpl w'"
    "\<And>i. i < 14 \<or> 50 \<le> i \<Longrightarrow> ldb p' i = ldb p i"
proof -
  let ?ip = "st32 (st32 (t_iph w) 12 (pgw_gtpu_ipv4 itm)) 16 (sgw_gtpu_ipv4 itm)"
  let ?gtp = "st32 (t_gtpuh w) 4 (sgw_gtpu_teid itm)"
  obtain ip udp gtp where h: "encap_headers D ?ip (t_udph w) ?gtp p = (ip, udp, gtp, p')"
    and w': "w' = w\<lparr>t_iph := ip, t_udph := udp, t_gtpuh := gtp\<rparr>"
    using assms(2) by (auto simp: tunnel_headers_def split: prod.splits)
  note pk = encap_headers_packet [OF h] and tm = encap_headers_tmpl [OF h] and tid = encap_headers_tid [OF h]
  have st: "?ip 0 = t_iph w 0" "?ip 9 = t_iph w 9" "ld32 ?ip 12 = pgw_gtpu_ipv4 itm"
    "ld32 ?ip 16 = sgw_gtpu_ipv4 itm" "?gtp 0 = t_gtpuh w 0" "?gtp (Suc 0) = t_gtpuh w (Suc 0)"
    "ld32 ?gtp 4 = sgw_gtpu_teid itm"
    by (simp_all add: mem_defs)
  have ipb: "ldb p' (14 + i) = ip i" if "i < 20" for i
    using pk(5) [OF that] by (simp add: ldb_def mtod_def pk(1) add.assoc)
  have udpb: "ldb p' (34 + i) = udp i" if "i < 8" for i
    using pk(6) [OF that] by (simp add: ldb_def mtod_def pk(1) add.assoc)
  have gtpb: "ldb p' (42 + i) = gtp i" if "i < 8" for i
    using pk(7) [OF that] by (simp add: ldb_def mtod_def pk(1) add.assoc)
  show "mb_len p' = mb_len p" "mb_off p' = mb_off p" by (simp_all add: pk)
  show "mb_udat p' = mb_udat p" using h by (auto simp: encap_headers_def Let_def)
  show "ldb p' i = ldb p i" if "i < 14 \<or> 50 \<le> i" for i
    using that by (simp add: ldb_def mtod_def pk(1,4))
  show "ip_checksum_ok (mb_mem p') (mtod p' 14) 20"
    using pk(8) ip_checksum_ok_cong [of 20 10 ip 0 "mb_mem p'" "mtod p' 14"]
    by (simp add: pk(5) mtod_def pk(1))
  show "tunnel_tmpl w'" using assms(1) tm st by (simp add: tunnel_tmpl_def w')
  show "ldb p' 14 = 0x45" "ldb p' 23 = IPPROTO_UDP" "ldb p' 42 = 0x30" "ldb p' 43 = GTPU_G_PDU"
    using ipb [of 0] ipb [of 9] gtpb [of 0] gtpb [of 1] assms(1) tm st by (simp_all add: tunnel_tmpl_def)
  have "ldw p' 26 = ld32 ip 12" "ldw p' 30 = ld32 ip 16" "ldh p' 16 = ld16 ip 2"
    using ipb [of 12] ipb [of 13] ipb [of 14] ipb [of 15] ipb [of 16] ipb [of 17] ipb [of 18]
      ipb [of 19] ipb [of 2] ipb [of 3] by (simp_all add: ldh_ldb ldw_ldb ld16_def ld32_def)
  with tm st pk show "ldw p' 26 = pgw_gtpu_ipv4 itm" "ldw p' 30 = sgw_gtpu_ipv4 itm"
    "ldh p' 16 = bswap16 (word_of_nat (mb_len p - 14))" by simp_all
  have "ldh p' 34 = ld16 udp 0" "ldh p' 36 = ld16 udp 2" "ldh p' 38 = ld16 udp 4"
    using udpb [of 0] udpb [of 1] udpb [of 2] udpb [of 3] udpb [of 4] udpb [of 5]
    by (simp_all add: ldh_ldb ld16_def)
  with tm pk assms(1) show "ldh p' 34 = bswap16 GTPU_PORT" "ldh p' 36 = bswap16 GTPU_PORT"
    "ldh p' 38 = bswap16 (word_of_nat (mb_len p - 34))" by (simp_all add: tunnel_tmpl_def)
  have "ldh p' 44 = ld16 gtp 2" "ldw p' 46 = ld32 gtp 4"
    using gtpb [of 2] gtpb [of 3] gtpb [of 4] gtpb [of 5] gtpb [of 6] gtpb [of 7]
    by (simp_all add: ldh_ldb ldw_ldb ld16_def ld32_def)
  with tid st pk show "ldw p' 46 = sgw_gtpu_teid itm"
    "ldh p' 44 = bswap16 (word_of_nat (mb_len p - 50))" by simp_all
qed

text \<open>Prepending room and copying the Ethernet header, in octets of the packet.\<close>

lemma prepend_move_eth:
  assumes "mbuf_laws D" "n \<le> mb_off m" "14 \<le> n"
  obtains p where "prepend D m n = Some p" "mb_len (move_eth n p) = mb_len m + n"
    "mb_udat (move_eth n p) = mb_udat m" "\<And>i. i < 14 \<Longrightarrow> ldb (move_eth n p) i = ldb m i"
    "\<And>i. 14 \<le> n + i \<Longrightarrow> ldb (move_eth n p) (n + i) = ldb m i"
proof
  let ?p = "m\<lparr>mb_off := mb_off m - n, mb_len := mb_len m + n\<rparr>"
  show "prepend D m n = Some ?p" using assms by (simp add: mbuf_lawsD)
  show "ldb (move_eth n ?p) i = ldb m i" if "i < 14" for i
    using that assms(2) by (simp add: ldb_def move_eth_def mtod_def copy_bytes_in)
  show "ldb (move_eth n ?p) (n + i) = ldb m i" if "14 \<le> n + i" for i
    using that assms(2) by (auto simp: ldb_def move_eth_def mtod_def intro!: copy_bytes_out)
qed (simp_all add: move_eth_def)

lemma police_record:
  assumes "police tm s itm = (col, itm')"
  shows "sgw_gtpu_teid itm' = sgw_gtpu_teid itm" "sgw_gtpu_ipv4 itm' = sgw_gtpu_ipv4 itm"
    "pgw_gtpu_ipv4 itm' = pgw_gtpu_ipv4 itm" "lk_mode itm' = lk_mode itm" "ue_ipv4 itm' = ue_ipv4 itm"
  using assms by (auto simp: police_def refill_def Let_def split: if_splits)

lemma udat_irrelevant [simp]:
  "ldb (m\<lparr>mb_udat := u\<rparr>) j = ldb m j" "ldw (m\<lparr>mb_udat := u\<rparr>) j = ldw m j" "ldh (m\<lparr>mb_udat := u\<rparr>) j = ldh m j"
  "is_user (m\<lparr>mb_udat := u\<rparr>) = is_user m" "is_pdu (m\<lparr>mb_udat := u\<rparr>) = is_pdu m"
  "inner_version (m\<lparr>mb_udat := u\<rparr>) = inner_version m" "udat_size (m\<lparr>mb_udat := u\<rparr>) n = udat_size m n"
  "mtod (m\<lparr>mb_udat := u\<rparr>) k = mtod m k"
  by (simp_all add: is_user_def is_pdu_def inner_version_def udat_size_def ldb_def ldw_def ldh_def mtod_def)

lemma Find_update_hit:
  assumes "findtype w \<noteq> 0" "map_tbl w (bswap32 k) = Some itm" "cb itm a = (ret, itm', a')"
  shows "pgw_Find_update w k cb a = (ret, w\<lparr>map_tbl := (map_tbl w)(bswap32 k \<mapsto> itm')\<rparr>, a')"
  using assms by (simp add: pgw_Find_update_def)

section \<open>Properties\<close>

text \<open>C31: The egress tunnel worker puts an IPv4 downlink packet of a known subscriber into its tunnel. The packet does not come from the 6rd encapsulator
  (SIXRD_ENCAPPER_ADDR, for which the worker replaces the outer IPv4 header instead), the mbuf has 36 octets of headroom and the packet fits an IPv4 length with its new headers. Then the
  packet behind the Ethernet header is kept octet for octet behind an IPv4/UDP/GTP-U header with
  the addresses and the TEID of the tunnel record, the GTP-U port, consistent lengths and a
  checksum that verifies; the record is charged by the policer, and the packet carries its size, its
  colour and the mode of the tunnel. The subscriber it carries is the one of the previous packet.\<close>

theorem egress_tunnel_encapsulates:
  assumes "mbuf_laws D" "tunnel_tmpl w" "findtype w \<noteq> 0" "36 \<le> mb_off m" "14 \<le> mb_len m"
    "mb_len m + 22 < 65536" "is_user m \<noteq> PASS" "ldw m 26 \<noteq> bswap32 SIXRD_ENCAPPER_ADDR"
    "map_tbl w (bswap32 (ldw m 30 AND 0xFFFFFF00)) = Some itm" "police tm (udat_size m 14) itm = (col, itm')"
  shows "\<exists>w' m'. egress_tunnel_ModifyPacket D tm w m = Forward w' m' \<and> tunnel_tmpl w' \<and>
    map_tbl w' = (map_tbl w)(bswap32 (ldw m 30 AND 0xFFFFFF00) \<mapsto> itm') \<and>
    mb_len m' = mb_len m + 36 \<and> pkt_slice m' 0 14 = pkt_slice m 0 14 \<and>
    pkt_slice m' 50 (mb_len m - 14) = pkt_slice m 14 (mb_len m - 14) \<and>
    ldw m' 26 = pgw_gtpu_ipv4 itm \<and> ldw m' 30 = sgw_gtpu_ipv4 itm \<and> ldw m' 46 = sgw_gtpu_teid itm \<and>
    ldh m' 34 = bswap16 GTPU_PORT \<and> ldh m' 36 = bswap16 GTPU_PORT \<and>
    ip_checksum_ok (mb_mem m') (mtod m' 14) 20 \<and>
    unat (bswap16 (ldh m' 16)) = mb_len m' - 14 \<and> unat (bswap16 (ldh m' 38)) = mb_len m' - 34 \<and>
    unat (bswap16 (ldh m' 44)) = mb_len m' - 50 \<and>
    mb_udat m' = \<lparr>ud_flag = MBFU_FLAG_PDU, ud_size = udat_size m 14, ud_color = col, ud_mode = lk_mode itm,
      ud_teid = findkey w\<rparr>"
proof -
  define u where "u = \<lparr>ud_flag = 0, ud_size = udat_size m 14, ud_color = col, ud_mode = POLICER_MODE_LTE,
      ud_teid = findkey w\<rparr>"
  define key where "key = ldw m 30 AND 0xFFFFFF00"
  define m1 where "m1 = m\<lparr>mb_udat := u\<rparr>"
  define w1 where "w1 = w\<lparr>findkey := key, now := tm, map_tbl := (map_tbl w)(bswap32 key \<mapsto> itm'), lookup_itm := itm'\<rparr>"
  obtain p where p: "prepend D m1 36 = Some p" "mb_len (move_eth 36 p) = mb_len m1 + 36"
    "mb_udat (move_eth 36 p) = mb_udat m1" "\<And>i. i < 14 \<Longrightarrow> ldb (move_eth 36 p) i = ldb m1 i"
    "\<And>i. 14 \<le> 36 + i \<Longrightarrow> ldb (move_eth 36 p) (36 + i) = ldb m1 i"
    by (rule prepend_move_eth [OF assms(1), of 36 m1], simp add: m1_def assms(4), simp, rule that)
  obtain w2 q where h: "tunnel_headers D itm' w1 (move_eth 36 p) = (w2, q)" by fastforce
  have "tunnel_tmpl w1" using assms(2) by (simp add: tunnel_tmpl_def w1_def)
  note pk = tunnel_headers_packet [OF this h] and rec = police_record [OF assms(10)]
  let ?m' = "set_udat (\<lambda>u. u\<lparr>ud_flag := MBFU_FLAG_PDU, ud_mode := lk_mode itm'\<rparr>) q"
  have res: "egress_tunnel_ModifyPacket D tm w m = Forward w2 ?m'"
  proof -
    have "egress_tunnel_key m = ldw m 30" using assms(8) by (simp add: egress_tunnel_key_def)
    moreover have "police tm (ud_size (u\<lparr>ud_color := 0\<rparr>)) itm = (col, itm')" using assms(10) by (simp add: u_def)
    ultimately show ?thesis
      using assms(3,7,8,9) p(1) h
      by (simp add: egress_tunnel_ModifyPacket_def Let_def set_udat_def zero_userdat_def
          pgw_Find_update_def egress_callback_def key_def w1_def m1_def u_def egress_tunnel_key_def)
  qed
  have len: "mb_len q = mb_len m + 36" by (simp add: pk p m1_def)
  have u16: "unat (word_of_nat n :: 16 word) = n" if "n < 65536" for n
    using that by (subst unat_of_nat) simp
  have lens: "unat (bswap16 (ldh q 16)) = mb_len q - 14" "unat (bswap16 (ldh q 38)) = mb_len q - 34"
    "unat (bswap16 (ldh q 44)) = mb_len q - 50"
    using assms(5,6) unfolding pk(13-15) bswap16_bswap16 pk(1) [symmetric] len
    by (subst u16, linarith, simp)+
  have eth: "pkt_slice q 0 14 = pkt_slice m 0 14"
    by (rule pkt_slice_cong) (simp add: pk(18) p(4), simp add: m1_def)
  have pay: "pkt_slice q 50 (mb_len m - 14) = pkt_slice m 14 (mb_len m - 14)"
  proof (rule pkt_slice_cong)
    show "ldb q (50 + i) = ldb m (14 + i)" for i
      using pk(18) [of "50 + i"] p(5) [of "14 + i"] by (simp add: m1_def)
  qed
  have ud: "mb_udat ?m' = u\<lparr>ud_flag := MBFU_FLAG_PDU, ud_mode := lk_mode itm\<rparr>"
    by (simp add: pk(3) p(3) rec) (simp add: m1_def)
  have mp: "map_tbl w2 = (map_tbl w)(bswap32 key \<mapsto> itm')"
    using h by (auto simp: tunnel_headers_def w1_def split: prod.splits)
  show ?thesis
    using res pk(6-9,12,16,17) rec lens eth pay ud mp len
    by (intro exI [of _ w2] exI [of _ ?m']) (simp add: key_def u_def)
qed

definition demo_tunnel :: "mbuf list tunnel_core" where
  "demo_tunnel = egress_tunnel_new 0x0A000001 ((demo_pgw 1 True)\<lparr>map_tbl := [0 \<mapsto> zero_lookup]\<rparr>)"

theorem egress_tunnel_encapsulates_witness:
  "\<exists>w' m'. egress_tunnel_ModifyPacket (ref_dpdk 4) 7 demo_tunnel
      (demo_mbuf 60 (replicate 12 0 @ [8, 0] @ replicate 16 0 @ [0x0A])) = Forward w' m' \<and> mb_len m' = 96"
proof -
  let ?m = "demo_mbuf 60 (replicate 12 0 @ [8, 0] @ replicate 16 0 @ [0x0A])"
  have t: "tunnel_tmpl demo_tunnel" by (simp add: demo_tunnel_def egress_tunnel_new_tmpl)
  have f: "findtype demo_tunnel \<noteq> 0" "map_tbl demo_tunnel 0 = Some zero_lookup"
    by (simp_all add: demo_tunnel_def egress_tunnel_new_def pgw_core.defs demo_pgw_sel)
  have a: "ldw ?m 30 = 0x0A" "ldw ?m 26 = 0" "ldh ?m 12 = bswap16 ETHER_TYPE_IPv4"
    by (simp_all add: demo_mbuf_def pkt_defs mem_defs mem_of_def wr_bytes_def nth_append
        bswap16_def byte_of_def mk32_def)
  have b: "is_user ?m \<noteq> PASS" using a by (simp add: is_user_def)
  have c: "ldw ?m 26 \<noteq> bswap32 SIXRD_ENCAPPER_ADDR"
    unfolding a by (simp add: bswap32_def byte_of_def mk32_def)
  have d: "map_tbl demo_tunnel (bswap32 (ldw ?m 30 AND 0xFFFFFF00)) = Some zero_lookup"
    unfolding a by (simp add: f bswap32_0)
  obtain col itm' where p: "police 7 (udat_size ?m 14) zero_lookup = (col, itm')" by fastforce
  have e: "36 \<le> mb_off ?m" "14 \<le> mb_len ?m" "mb_len ?m + 22 < 65536" "mb_len ?m = 60"
    by (simp_all add: demo_mbuf_def)
  show ?thesis
    using egress_tunnel_encapsulates [OF ref_dpdk_mbuf_laws t f(1) e(1-3) b c d p, of 4] e(4) by auto
qed

text \<open>C32: The ingress tunnel worker takes an uplink packet with an inner IPv4 packet out of the capsule of a known tunnel: if the
  inner source address belongs to the tunnel, the packet loses its 36 octets, keeps its Ethernet
  header and its inner packet, and carries its size, the colour the policer gave it, the mode of
  the tunnel and the subscriber's address; the tunnel record is charged. An inner IPv6 packet takes
  another path (it loses 16 octets and gets a 6rd header) and is not the subject here.\<close>

theorem ingress_tunnel_decapsulates:
  assumes "mbuf_laws D" "findtype w \<noteq> 0" "50 \<le> mb_len m" "is_pdu m \<noteq> PASS" "inner_version m = 0x40"
    "map_tbl w (ldw m 46) = Some itm" "ue_ipv4 itm AND 0xFFFFFF00 = ldw m 62 AND 0xFFFFFF00"
    "police tm (udat_size m 50) itm = (col, itm')"
  shows "\<exists>w' m'. ingress_tunnel_ModifyPacket D tm w m = Forward w' m' \<and>
    map_tbl w' = (map_tbl w)(ldw m 46 \<mapsto> itm') \<and> mb_len m' = mb_len m - 36 \<and>
    pkt_slice m' 0 14 = pkt_slice m 0 14 \<and>
    pkt_slice m' 14 (mb_len m - 50) = pkt_slice m 50 (mb_len m - 50) \<and>
    mb_udat m' = \<lparr>ud_flag = MBFU_FLAG_PDU, ud_size = udat_size m 50, ud_color = col, ud_mode = lk_mode itm,
      ud_teid = ue_ipv4 itm AND 0xFFFFFF00\<rparr>"
proof -
  define m1 where "m1 = m\<lparr>mb_udat := zero_userdat\<rparr>"
  define p where "p = m1\<lparr>mb_off := mb_off m + 36, mb_len := mb_len m - 36\<rparr>"
  define u where "u = \<lparr>ud_flag = MBFU_FLAG_PDU, ud_size = udat_size m 50, ud_color = col,
    ud_mode = lk_mode itm, ud_teid = ue_ipv4 itm AND 0xFFFFFF00\<rparr>"
  define q where "q = (decap_v4 D m1 p)\<lparr>mb_udat := u\<rparr>"
  define w' where "w' = w\<lparr>findkey := ldw m 62, now := tm, map_tbl := (map_tbl w)(ldw m 46 \<mapsto> itm'), lookup_itm := itm'\<rparr>"
  have a: "adj D m1 36 = Some p" using assms(1,3) by (simp add: mbuf_lawsD m1_def p_def)
  have sz: "udat_size (decap_v4 D m1 p) n = udat_size p n" "udat_size p 14 = udat_size m 50" for n
    using assms(3) by (simp_all add: udat_size_def decap_v4_def Let_def p_def of_nat_diff)
  have ud: "mb_udat (decap_v4 D m1 p) =
      \<lparr>ud_flag = 0, ud_size = udat_size m 50, ud_color = 0, ud_mode = 0, ud_teid = 0\<rparr>"
    using sz by (simp add: decap_v4_def Let_def) (simp add: udat_size_def p_def m1_def zero_userdat_def)
  have m1: "is_pdu m1 = is_pdu m" "inner_version m1 = inner_version m" "ldw m1 j = ldw m j" for j
    by (simp_all add: m1_def)
  have res: "ingress_tunnel_ModifyPacket D tm w m = Forward w' q"
    unfolding ingress_tunnel_ModifyPacket_def Let_def m1_def [symmetric]
    using assms(2,4-8) a police_record [OF assms(8)]
    by (simp add: m1 ud pgw_Find_update_def ingress_callback_def set_udat_def q_def u_def w'_def)
  have off: "mb_off q = mb_off m + 36" "mb_len q = mb_len m - 36"
    by (simp_all add: q_def decap_v4_def Let_def p_def)
  have eth: "pkt_slice q 0 14 = pkt_slice m 0 14"
    by (rule pkt_slice_cong)
      (simp add: q_def decap_v4_def Let_def ldb_def mtod_def p_def m1_def copy_bytes_in)
  have pay: "pkt_slice q 14 (mb_len m - 50) = pkt_slice m 50 (mb_len m - 50)"
    by (rule pkt_slice_cong)
      (simp add: q_def decap_v4_def Let_def ldb_def mtod_def p_def m1_def add.assoc)
  show ?thesis
    using res off eth pay by (intro exI [of _ w'] exI [of _ q]) (simp add: w'_def q_def u_def)
qed

theorem ingress_tunnel_decapsulates_witness:
  "\<exists>w' m'. ingress_tunnel_ModifyPacket (ref_dpdk 4) 7 (demo_known False)
      (demo_mbuf 80 (replicate 12 0 @ [8, 0] @ replicate 9 0 @ [17] @ replicate 12 0 @ [0x08, 0x68] @
        replicate 5 0 @ [255] @ replicate 6 0 @ [0x45])) = Forward w' m' \<and> mb_len m' = 44"
proof -
  let ?m = "demo_mbuf 80 (replicate 12 0 @ [8, 0] @ replicate 9 0 @ [17] @ replicate 12 0 @ [0x08, 0x68] @
        replicate 5 0 @ [255] @ replicate 6 0 @ [0x45])"
  have f: "findtype (demo_known False) \<noteq> 0" by (simp add: demo_known_def demo_pgw_sel)
  have a: "ldw ?m 46 = 0" "ldw ?m 62 = 0" "ldh ?m 12 = bswap16 ETHER_TYPE_IPv4" "ldb ?m 23 = 17"
    "ldh ?m 36 = bswap16 GTPU_PORT" "ldb ?m 43 = 255" "inner_version ?m = 0x40"
    by (simp_all add: demo_mbuf_def pkt_defs mem_defs mem_of_def wr_bytes_def nth_append
        bswap16_def byte_of_def mk32_def inner_version_def)
  have b: "is_pdu ?m \<noteq> PASS" using a by (simp add: is_pdu_def)
  have c: "map_tbl (demo_known False) (ldw ?m 46) = Some zero_lookup"
    unfolding a(1) by (simp add: demo_known_def)
  have d: "ue_ipv4 zero_lookup AND 0xFFFFFF00 = ldw ?m 62 AND 0xFFFFFF00"
    unfolding a(2) by (simp add: zero_lookup_def)
  obtain col itm' where p: "police 7 (udat_size ?m 50) zero_lookup = (col, itm')" by fastforce
  have e: "50 \<le> mb_len ?m" "mb_len ?m = 80" by (simp_all add: demo_mbuf_def)
  show ?thesis
    using ingress_tunnel_decapsulates [OF ref_dpdk_mbuf_laws f e(1) b a(7) c d p, of 4] e(2) by auto
qed

text \<open>An IPv6 packet leaves its tunnel as 6rd: behind the Ethernet header, now of type IPv4, comes an
  IPv4 header with protocol 41 from the subscriber to the 6rd relay, then the IPv6 packet octet
  for octet. The total length of that header is always 20 and its checksum always 0, whatever the packet:
  the GTP-U length it is computed from has been zeroed, and the computed checksum is discarded.\<close>

theorem decap_6rd_header:
  "let q = decap_6rd D ipkey m (m\<lparr>mb_off := mb_off m + 16, mb_len := mb_len m - 16\<rparr>) in
     pkt_slice q 0 12 = pkt_slice m 0 12 \<and> ldh q 12 = bswap16 ETHER_TYPE_IPv4 \<and> ldb q 14 = 0x45 \<and>
     ldb q 23 = IPPROTO_IPV6 \<and> ldw q 26 = ipkey AND 0xFFFFFF00 OR 0x0A \<and>
     ldw q 30 = bswap32 SIXRD_ENCAPPER_ADDR \<and> pkt_slice q 34 n = pkt_slice m 50 n \<and>
     ldh q 16 = bswap16 20 \<and> ldh q 24 = 0"
proof -
  define p where "p = m\<lparr>mb_off := mb_off m + 16, mb_len := mb_len m - 16\<rparr>"
  define p1 where "p1 = p\<lparr>mb_ptype := mb_ptype m AND NOT (L3_IPV6 D) OR L3_IPV4 D,
     mb_mem := copy_bytes (st16 (mb_mem m) (mb_off m + 12) (bswap16 ETHER_TYPE_IPv4))
       (mb_off m + 16) (mb_off m) 14\<rparr>"
  define p2 where "p2 = stb 14 0x45 (stbytes 14 (replicate 20 0) p1)"
  have z: "ld16 (mb_mem p2) (mtod m 44) = 0"
    by (simp add: p2_def p1_def p_def pkt_defs ld16_def wr_bytes_def mk16_def)
  have q: "decap_6rd D ipkey m p = set_udat (\<lambda>u. u\<lparr>ud_size := udat_size p2 34\<rparr>)
     (stw 30 (bswap32 SIXRD_ENCAPPER_ADDR) (stw 26 (ipkey AND 0xFFFFFF00 OR 0x0A)
       (stb 23 IPPROTO_IPV6 (stb 22 0xFF (sth 16 (bswap16 20) p2)))))"
    using z by (simp add: decap_6rd_def Let_def mtod_def p_def p1_def p2_def udat_size_def)
  have et: "bswap16 ETHER_TYPE_IPv4 = 8" by (simp add: bswap16_def byte_of_def mk16_def)
  have p1: "ldb p1 i = (if i = 12 then 0x08 else if i = 13 then 0 else ldb m i)" if "i < 14" for i
    using that by (auto simp: p1_def p_def ldb_def mtod_def copy_bytes_in st16_def et byte_of_def)
  have tail: "ldb p1 (34 + i) = ldb m (50 + i)" for i
    by (simp add: p1_def p_def ldb_def mtod_def st16_def add.assoc)
  have b: "ldb p2 i = (if i = 14 then 0x45 else if 14 \<le> i \<and> i < 34 then 0 else ldb p1 i)" for i
    by (auto simp: p2_def ldb_stores)
  have "pkt_slice (decap_6rd D ipkey m p) 0 12 = pkt_slice m 0 12"
    by (rule pkt_slice_cong) (simp add: q ldb_stores b p1)
  moreover have "pkt_slice (decap_6rd D ipkey m p) 34 n = pkt_slice m 50 n"
    by (rule pkt_slice_cong) (simp add: q ldb_stores b tail)
  ultimately show ?thesis
    unfolding Let_def p_def [symmetric]
    by (simp add: q ldh_ldb ldw_ldb ldb_stores b p1) (simp add: et mk16_def)
qed

end
