(* ===== verification/Greterm_Worker.thy ===== *)
theory Greterm_Worker
  imports Packet_Def Core_Interface
begin

text \<open>
  \<open>CoreGretermWorker\<close> of \<open>dataplane/src/core/core_greterm_worker.cc\<close>: it strips the 36 octets
  of capsule (IPv4 with options and GRE, or IPv4/UDP/GTP-U in the build without GRE, \<open>no_gre\<close>)
  and restores the Ethernet type from the version of the inner packet.

  Where \<open>check_decapability\<close> ends without a return statement its value is not determined by the
  source; \<open>undef\<close> stands for that value, and every statement holds for each choice of it.
\<close>

section \<open>Operations\<close>

definition greterm_accepts :: "bool \<Rightarrow> mbuf \<Rightarrow> bool" where
  "greterm_accepts no_gre m \<longleftrightarrow>
     (if no_gre then ldb m (sz_ether + 9) = IPPROTO_UDP \<and> ip4_hlen m sz_ether = 20
      else ldb m (sz_ether + 9) = IPPROTO_GRE \<and> ip4_hlen m sz_ether = 32)"

definition greterm_ModifyPacket ::
    "'r dpdk \<Rightarrow> bool \<Rightarrow> ('r, 'z) core_scheme \<Rightarrow> mbuf \<Rightarrow> ('r, 'z) core_scheme \<times> mbuf option" where
  "greterm_ModifyPacket D no_gre w m =
     (if \<not> greterm_accepts no_gre m
      then (free_all [m] (count_drop (word_of_nat (mb_len m)) 1 w), None)
      else
        let eh = pkt_slice m 0 sz_ether in
        case adj D m 36 of
          None \<Rightarrow> (free_all [m] (count_drop (word_of_nat (mb_len m)) 1 w), None)
        | Some p \<Rightarrow>
            if ldb p sz_ether AND 0xF0 \<noteq> 0x40 then
              (w, Some (stbytes 0 (take 12 eh @ [0x86, 0xDD])
                 (p\<lparr>mb_ptype := mb_ptype p AND NOT (L3_IPV4 D) OR L3_IPV6 D\<rparr>)))
            else (w, Some (stbytes 0 eh (p\<lparr>mb_ptype := mb_ptype p OR L3_IPV4 D\<rparr>))))"

definition greterm_handle ::
    "'r dpdk \<Rightarrow> bool \<Rightarrow> packet_type \<Rightarrow> ('r, 'z) core_scheme \<Rightarrow> mbuf \<Rightarrow> ('r, 'z) core_scheme" where
  "greterm_handle D no_gre undef w m =
     (let opr = (case check_decapability D no_gre m of Some t \<Rightarrow> t | None \<Rightarrow> undef) in
      if opr = PASS then SendOrBuffer D m w
      else if opr = VLAN then free_all [m] (count_drop (word_of_nat (mb_len m)) 1 w)
      else case greterm_ModifyPacket D no_gre w m of
          (w', Some m') \<Rightarrow> SendOrBuffer D m' w'
        | (w', None) \<Rightarrow> w')"

definition greterm_Cycle :: "'r dpdk \<Rightarrow> bool \<Rightarrow> packet_type \<Rightarrow> ('r, 'z) core_scheme \<Rightarrow> 64 word \<Rightarrow>
    ('r, 'z) core_scheme \<times> 64 word" where
  "greterm_Cycle D no_gre undef w cnt =
     (let (w, input) = deq_input D w;
          w = (if input = [] then w else burst_loop (greterm_handle D no_gre undef) input w)
      in if flush_delay w \<noteq> 0 \<and> cnt = flush_delay w then (BurstFlush D w, 0) else (w, cnt))"

section \<open>Lemmas\<close>

lemma greterm_ModifyPacket_core:
  assumes "greterm_ModifyPacket D no_gre w m = (w', r)"
  shows "case r of Some _ \<Rightarrow> w' = w | None \<Rightarrow> handled D w w'"
  using assms
  by (auto simp: greterm_ModifyPacket_def handled_drop Let_def split: option.splits if_splits)

lemma greterm_handle_handled: "handled D w (greterm_handle D no_gre undef w m)"
  using greterm_ModifyPacket_core [of D no_gre w m]
  by (auto simp: greterm_handle_def Let_def handled_send handled_drop split: prod.splits option.splits)

interpretation greterm: packet_worker D "greterm_handle D no_gre undef" "\<lambda>_. True" for D no_gre undef
  by unfold_locales (simp_all add: greterm_handle_handled)

text \<open>The packet behind the capsule: everything from octet 50 on, under the outer MAC addresses.\<close>

lemma greterm_strips:
  assumes "mbuf_laws D" "greterm_accepts no_gre m" "50 \<le> mb_len m"
  obtains m' where "greterm_ModifyPacket D no_gre w m = (w, Some m')" "mb_len m' = mb_len m - 36"
    "mb_off m' = mb_off m + 36" "\<And>i. i < 12 \<Longrightarrow> ldb m' i = ldb m i" "\<And>i. 14 \<le> i \<Longrightarrow> ldb m' i = ldb m (36 + i)"
    "ldh m' 12 = (if ldb m 50 AND 0xF0 = 0x40 then ldh m 12 else bswap16 ETHER_TYPE_IPv6)"
    "mb_ptype m' = (if ldb m 50 AND 0xF0 = 0x40 then mb_ptype m OR L3_IPV4 D
       else mb_ptype m AND NOT (L3_IPV4 D) OR L3_IPV6 D)"
proof -
  define p where "p = m\<lparr>mb_off := mb_off m + 36, mb_len := mb_len m - 36\<rparr>"
  define v4 where "v4 \<longleftrightarrow> ldb m 50 AND 0xF0 = 0x40"
  define eh where "eh = (if v4 then pkt_slice m 0 14 else take 12 (pkt_slice m 0 14) @ [0x86, 0xDD])"
  define t where "t = (if v4 then mb_ptype m OR L3_IPV4 D else mb_ptype m AND NOT (L3_IPV4 D) OR L3_IPV6 D)"
  have a: "adj D m 36 = Some p" using assms(1,3) by (simp add: mbuf_lawsD p_def)
  have v: "ldb p 14 = ldb m 50" by (simp add: p_def ldb_def mtod_def add.commute)
  have len: "length eh = 14" by (simp add: eh_def)
  have mp: "greterm_ModifyPacket D no_gre w m = (w, Some (stbytes 0 eh (p\<lparr>mb_ptype := t\<rparr>)))"
    using assms(2) a v by (simp add: greterm_ModifyPacket_def eh_def v4_def t_def) (simp add: p_def)
  have hd: "ldb (stbytes 0 eh (p\<lparr>mb_ptype := t\<rparr>)) i = eh ! i" if "i < 14" for i
    using that len by (simp add: ldb_def stbytes_def mtod_def p_def wr_bytes_in)
  have tl: "ldb (stbytes 0 eh (p\<lparr>mb_ptype := t\<rparr>)) i = ldb m (36 + i)" if "14 \<le> i" for i
    using that len by (simp add: ldb_def stbytes_def mtod_def p_def add.assoc)
  show thesis
  proof (rule that [OF mp])
    show "ldb (stbytes 0 eh (p\<lparr>mb_ptype := t\<rparr>)) i = ldb m i" if "i < 12" for i
      using that by (simp add: hd) (simp add: eh_def nth_append nth_pkt_slice)
    show "ldh (stbytes 0 eh (p\<lparr>mb_ptype := t\<rparr>)) 12 =
        (if ldb m 50 AND 0xF0 = 0x40 then ldh m 12 else bswap16 ETHER_TYPE_IPv6)"
      by (simp add: ldh_ldb hd, simp add: eh_def nth_append nth_pkt_slice bswap16_def byte_of_def
          flip: v4_def)
    show "ldb (stbytes 0 eh (p\<lparr>mb_ptype := t\<rparr>)) i = ldb m (36 + i)" if "14 \<le> i" for i
      using that by (rule tl)
  qed (simp_all add: t_def p_def flip: v4_def)
qed

section \<open>Properties\<close>

text \<open>GRE termination decides every packet: one that is not GRE in an IPv4 header of 32 octets (UDP in
  one of 20 octets in the build without GRE), or too short to strip, is freed with its count; any
  other loses exactly its 36 octets of capsule, keeps its MAC addresses and every inner octet, and
  gets the Ethernet type and packet type of the inner IP version.\<close>

theorem greterm_strips_capsule_or_drops:
  assumes "mbuf_laws D" "50 \<le> mb_len m"
  shows "case greterm_ModifyPacket D no_gre w m of
      (w', None) \<Rightarrow> \<not> greterm_accepts no_gre m \<and> freed w' = freed w @ [m] \<and>
        drop_count (counter w') = drop_count (counter w) + 1 \<and>
        drop_bytes (counter w') = drop_bytes (counter w) + word_of_nat (mb_len m)
    | (w', Some m') \<Rightarrow> greterm_accepts no_gre m \<and> w' = w \<and> mb_len m' = mb_len m - 36 \<and>
        pkt_slice m' 0 12 = pkt_slice m 0 12 \<and>
        pkt_slice m' 14 (mb_len m - 50) = pkt_slice m 50 (mb_len m - 50) \<and>
        ldh m' 12 = (if ldb m 50 AND 0xF0 = 0x40 then ldh m 12 else bswap16 ETHER_TYPE_IPv6)"
proof (cases "greterm_accepts no_gre m")
  case False
  then show ?thesis by (simp add: greterm_ModifyPacket_def)
next
  case True
  obtain m' where r: "greterm_ModifyPacket D no_gre w m = (w, Some m')" "mb_len m' = mb_len m - 36"
    "\<And>i. i < 12 \<Longrightarrow> ldb m' i = ldb m i" "\<And>i. 14 \<le> i \<Longrightarrow> ldb m' i = ldb m (36 + i)"
    "ldh m' 12 = (if ldb m 50 AND 0xF0 = 0x40 then ldh m 12 else bswap16 ETHER_TYPE_IPv6)"
    by (rule greterm_strips [OF assms(1) True assms(2)], rule that)
  have "pkt_slice m' 0 12 = pkt_slice m 0 12" by (rule pkt_slice_cong) (simp add: r(3))
  moreover have "pkt_slice m' 14 (mb_len m - 50) = pkt_slice m 50 (mb_len m - 50)"
    by (rule pkt_slice_cong) (simp add: r(4))
  ultimately show ?thesis using True r(1,2,5) by simp
qed

theorem greterm_strips_capsule_or_drops_witness:
  "snd (greterm_ModifyPacket (ref_dpdk 4) False (demo_core 2) (demo_mbuf 60 [])) = None"
proof -
  have "\<not> greterm_accepts False (demo_mbuf 60 [])"
    by (simp add: greterm_accepts_def demo_mbuf_def ldb_def mtod_def mem_of_def wr_bytes_def)
  moreover have "50 \<le> mb_len (demo_mbuf 60 [])" by (simp add: demo_mbuf_def)
  ultimately show ?thesis
    using greterm_strips_capsule_or_drops [OF ref_dpdk_mbuf_laws [of 4], where m = "demo_mbuf 60 []" and no_gre = False and w = "demo_core 2"]
    by (auto split: prod.splits option.splits)
qed

text \<open>A cycle of the GRE terminating worker conserves packets, in both builds and whatever value the
  undefined branch of its check yields: nothing is lost between input ring, burst buffer, output
  ring and pool, and the drop counter agrees with what was freed.\<close>

theorem greterm_cycle_conserves_packets:
  assumes "ring_laws D items" "core_inv w"
  shows "let (w', cnt') = greterm_Cycle D no_gre undef w cnt in
    core_inv w' \<and> in_system items w' = in_system items w \<and> drops_counted w w'"
proof -
  obtain w1 ms where d: "deq_input D w = (w1, ms)" by fastforce
  let ?w = "burst_loop (greterm_handle D no_gre undef) ms w1"
  have e: "(if ms = [] then w1 else ?w) = ?w" by (simp add: burst_loop_foldl)
  show ?thesis
    using greterm.cycle_conserves [OF assms TrueI d] BurstFlush_conserves [OF assms(1), of ?w w]
    by (simp add: greterm_Cycle_def d e Let_def)
qed

theorem greterm_cycle_conserves_packets_witness:
  "in_system id (fst (greterm_Cycle (ref_dpdk 1) True PASS
      (demo_core 2\<lparr>ring_fm := [demo_mbuf 60 [], demo_mbuf 61 []]\<rparr>) 0)) = 2"
proof -
  let ?w = "demo_core 2\<lparr>ring_fm := [demo_mbuf 60 [], demo_mbuf 61 []]\<rparr>"
  have "core_inv ?w" "in_system id ?w = 2"
    by (simp_all add: demo_core_def core_inv_def in_system_def holdings_def)
  then show ?thesis
    using greterm_cycle_conserves_packets [OF ref_dpdk_ring_laws, of ?w 1 True PASS 0]
    by (auto split: prod.splits)
qed

end
