(* ===== verification/Gtpu2gre_Worker.thy ===== *)
theory Gtpu2gre_Worker
  imports Packet_Def Core_Interface
begin

text \<open>
  \<open>CoreGtpu2GreWorker\<close> of \<open>dataplane/src/core/core_gtpu2gre_worker.cc\<close>: it rewrites the
  IPv4/UDP/GTP-U capsule of the encapsulating worker in place into IPv4 with twelve octets of
  options and GRE, addressed to the PGW. The size of the packet does not change.
\<close>

record 'r gtpu2gre_core = "'r core" +
  pgwipv4 :: "32 word"

definition gtpu2gre_new :: "32 word \<Rightarrow> 'r core \<Rightarrow> 'r gtpu2gre_core" where
  "gtpu2gre_new ip c = core.extend c \<lparr>pgwipv4 = ip\<rparr>"

definition gtpu2gre_GetN :: "key \<Rightarrow> 'r gtpu2gre_core \<Rightarrow> 32 word" where
  "gtpu2gre_GetN k w = (if k = OPT then pgwipv4 w else GetN k w)"

definition gtpu2gre_SetN :: "key \<Rightarrow> 32 word \<Rightarrow> 'r gtpu2gre_core \<Rightarrow> 'r gtpu2gre_core" where
  "gtpu2gre_SetN k v w = (if k = OPT then w\<lparr>pgwipv4 := v\<rparr> else SetN k v w)"

text \<open>\<open>ModifyPacket\<close>: it always succeeds and leaves the worker alone.\<close>

definition gtpu2gre_ModifyPacket :: "'r dpdk \<Rightarrow> 'r gtpu2gre_core \<Rightarrow> mbuf \<Rightarrow> mbuf" where
  "gtpu2gre_ModifyPacket D w m =
     (let m = stb sz_ether 0x48 m;
          m = stw (sz_ether + 16) (pgwipv4 w) m;
          m = stb (sz_ether + 9) IPPROTO_GRE m;
          m = sth (sz_ether + 10) 0 m;
          m = stbytes (sz_ether + sz_ipv4) (replicate 12 0x01) m;
          m = stbytes (sz_ether + sz_ipv4 + 12) [0x00, 0x00, 0x80, 0x00] m
      in m\<lparr>mb_ptype := L3_IPV4 D OR TUNNEL_GRE D\<rparr>)"

definition gtpu2gre_handle :: "'r dpdk \<Rightarrow> 'r gtpu2gre_core \<Rightarrow> mbuf \<Rightarrow> 'r gtpu2gre_core" where
  "gtpu2gre_handle D w m =
     (let opr = is_arp_or_innericmp D m in
      if opr = PASS then SendOrBuffer D m w
      else if opr = VLAN then free_all [m] (count_drop (word_of_nat (mb_len m)) 1 w)
      else SendOrBuffer D (gtpu2gre_ModifyPacket D w m) w)"

text \<open>This worker has no flush: an empty burst ends the cycle.\<close>

definition gtpu2gre_Cycle :: "'r dpdk \<Rightarrow> 'r gtpu2gre_core \<Rightarrow> 64 word \<Rightarrow> 'r gtpu2gre_core \<times> 64 word" where
  "gtpu2gre_Cycle D w cnt =
     (let (w, input) = deq_input D w in
      if input = [] then (w, cnt) else (burst_loop (gtpu2gre_handle D) input w, cnt))"

section \<open>Lemmas\<close>

interpretation gtpu2gre: packet_worker D "gtpu2gre_handle D" "\<lambda>_. True" for D
  by unfold_locales (auto simp: gtpu2gre_handle_def Let_def handled_send handled_drop)

lemma gtpu2gre_ModifyPacket_frame [simp]:
  "mb_off (gtpu2gre_ModifyPacket D w m) = mb_off m" "mb_len (gtpu2gre_ModifyPacket D w m) = mb_len m"
  "mb_ptype (gtpu2gre_ModifyPacket D w m) = L3_IPV4 D OR TUNNEL_GRE D"
  by (simp_all add: gtpu2gre_ModifyPacket_def Let_def)

lemma gtpu2gre_ldb:
  "ldb (gtpu2gre_ModifyPacket D w m) k =
     (if k = 14 then 0x48 else if k = 23 then IPPROTO_GRE else if k = 24 \<or> k = 25 then 0
      else if 30 \<le> k \<and> k < 34 then byte_of (k - 30) (pgwipv4 w)
      else if 34 \<le> k \<and> k < 46 then 1
      else if 46 \<le> k \<and> k < 50 then [0x00, 0x00, 0x80, 0x00] ! (k - 46) else ldb m k)"
proof -
  have "k - 30 = 0 \<or> k - 30 = 1 \<or> k - 30 = 2 \<or> k - 30 = 3" if "30 \<le> k" "k < 34" using that by arith
  then show ?thesis
    by (auto simp: gtpu2gre_ModifyPacket_def Let_def pkt_defs mem_defs wr_bytes_def)
      (auto simp: byte_of_def)
qed

section \<open>Properties\<close>

text \<open>The exchange of the GTP-U capsule for a GRE capsule rewrites only the capsule: 36 octets between
  the Ethernet header and the inner packet become an IPv4 header with length field 8 (twelve
  octets of no-operation options), protocol 47 and destination PGW, and a GRE header; the length of the
  packet, the Ethernet header, the outer identification, lengths and source and the whole inner packet are kept.\<close>

theorem gtpu2gre_rewrites_only_the_capsule:
  "let m' = gtpu2gre_ModifyPacket D w m in
     mb_len m' = mb_len m \<and> mb_off m' = mb_off m \<and> pkt_slice m' 0 14 = pkt_slice m 0 14 \<and>
     ip4_hlen m' 14 = 32 \<and> pkt_slice m' 15 8 = pkt_slice m 15 8 \<and> ldb m' 23 = IPPROTO_GRE \<and>
     pkt_slice m' 26 4 = pkt_slice m 26 4 \<and> ldw m' 30 = pgwipv4 w \<and>
     pkt_slice m' 34 12 = replicate 12 1 \<and> pkt_slice m' 46 4 = [0, 0, 0x80, 0] \<and>
     pkt_slice m' 50 n = pkt_slice m 50 n"
proof -
  let ?m = "gtpu2gre_ModifyPacket D w m"
  have "pkt_slice ?m 0 14 = pkt_slice m 0 14" "pkt_slice ?m 15 8 = pkt_slice m 15 8"
    "pkt_slice ?m 26 4 = pkt_slice m 26 4" "pkt_slice ?m 50 n = pkt_slice m 50 n"
    by (rule pkt_slice_cong, simp add: gtpu2gre_ldb)+
  moreover have "pkt_slice ?m 34 12 = replicate 12 1" "pkt_slice ?m 46 4 = [0, 0, 0x80, 0]"
    by (rule nth_equalityI, simp, simp add: nth_pkt_slice gtpu2gre_ldb)+
  ultimately show ?thesis
    by (simp add: Let_def ip4_hlen_def gtpu2gre_ldb ldw_ldb)
qed

end
