(* ===== verification/Counter_Worker.thy ===== *)
theory Counter_Worker
  imports Packet_Def Core_Interface Policer
begin

text \<open>
  The counter cores: \<open>CoreCounterWorker\<close> and its subclasses for ingress and egress
  (\<open>dataplane/src/core/core_counter_worker.cc\<close>, \<open>core_counter_ingress_worker.cc\<close>,
  \<open>core_counter_egress_worker.cc\<close>). Usage is aggregated per subscriber in sixteen maps and
  forwarded in packets of up to 64 items (\<open>ForwardTransfer\<close>).

  A map is an association list; its order stands for the unspecified iteration order of
  \<open>std::unordered_map\<close>. \<open>alloc i\<close> is the \<open>i\<close>-th buffer that
  \<open>rte_pktmbuf_alloc\<close> returns, \<open>None\<close> when the pool is empty (the process exits). The
  cycle counters read from the time stamp counter are statistics only and left out.
\<close>

section \<open>State\<close>

record counting_item =
  ci_key :: "32 word"
  ci_used :: "32 word"
  ci_used_3g :: "32 word"
  ci_used_low :: "32 word"

abbreviation COUNT_MAP_SZ :: nat where "COUNT_MAP_SZ \<equiv> 16"
abbreviation TRANSFER_RING_BURST :: nat where "TRANSFER_RING_BURST \<equiv> 64"
abbreviation TRANSFER_RING_SZ :: nat where "TRANSFER_RING_SZ \<equiv> 1024"
abbreviation DCOUNTER_LIMIT :: nat where "DCOUNTER_LIMIT \<equiv> 10000"
abbreviation THRESHOLD_TRANSFER :: "32 word" where "THRESHOLD_TRANSFER \<equiv> 1048576"
abbreviation COUNTER_INGRESS :: "32 word" where "COUNTER_INGRESS \<equiv> 0xFE"
abbreviation COUNTER_EGRESS :: "32 word" where "COUNTER_EGRESS \<equiv> 0xFF"
abbreviation sz_counting :: nat where "sz_counting \<equiv> 1036"

type_synonym entry = "32 word \<times> counting_item"

record 'r counter_core = "'r core" +
  c_type :: "32 word"
  cur :: "32 word"
  maps :: "nat \<Rightarrow> entry list"
  virtual_count :: "64 word"
  forward_count :: "64 word"
  counting_count :: "64 word"
  traffic_bytes :: "64 word"
  ring_pass :: "'r option"
  out_pass :: "mbuf list"

text \<open>\<open>BE24\<close>: the low three octets, in reverse order.\<close>

definition BE24 :: "32 word \<Rightarrow> 32 word" where
  "BE24 len = push_bit 16 (ucast (byte_of 0 len)) + push_bit 8 (ucast (byte_of 1 len)) + ucast (byte_of 2 len)"

definition counter_SetRingAddr :: "order \<Rightarrow> 'r \<Rightarrow> 'r counter_core \<Rightarrow> 'r counter_core option" where
  "counter_SetRingAddr d r w =
     (if d = FROM then Some (w\<lparr>ring_fm := r\<rparr>) else if d = TO then Some (w\<lparr>ring_to := r\<rparr>)
      else if d = EXTEND then Some (w\<lparr>ring_pass := Some r\<rparr>) else None)"

section \<open>Counting\<close>

definition add_usage :: "32 word \<Rightarrow> 32 word \<Rightarrow> counting_item \<Rightarrow> counting_item" where
  "add_usage mode v itm =
     (if mode = 2 then itm\<lparr>ci_used_low := ci_used_low itm + v\<rparr>
      else if mode = 1 then itm\<lparr>ci_used_3g := ci_used_3g itm + v\<rparr>
      else itm\<lparr>ci_used := ci_used itm + v\<rparr>)"

fun set_entry :: "32 word \<Rightarrow> counting_item \<Rightarrow> entry list \<Rightarrow> entry list" where
  "set_entry k v [] = [(k, v)]"
| "set_entry k v ((k', v') # es) = (if k' = k then (k, v) # es else (k', v') # set_entry k v es)"

definition Counting :: "32 word \<Rightarrow> 32 word \<Rightarrow> 16 word \<Rightarrow> 32 word \<Rightarrow> 'r counter_core \<Rightarrow> 'r counter_core" where
  "Counting tm k used mode w =
     (let idx = unat k mod COUNT_MAP_SZ;
          itm = (case map_of (maps w idx) k of
              Some itm \<Rightarrow> itm
            | None \<Rightarrow> \<lparr>ci_key = tm, ci_used = 0, ci_used_3g = 0, ci_used_low = 0\<rparr>)
      in w\<lparr>maps := (maps w)(idx := set_entry k (add_usage mode (ucast used) itm) (maps w idx)),
           counting_count := counting_count w + 1, traffic_bytes := traffic_bytes w + ucast used\<rparr>)"

section \<open>Forwarding\<close>

text \<open>The counting packet: its header, and one item at its place.\<close>

definition init_counting :: "32 word \<Rightarrow> mbuf \<Rightarrow> mbuf" where
  "init_counting ty m =
     (let len = BE24 (word_of_nat sz_counting);
          m = stb 0 (ucast ty) m;
          m = stb 1 (byte_of 0 len) m;
          m = stb 2 (byte_of 1 len) m;
          m = stb 3 (byte_of 2 len) m
      in m\<lparr>mb_len := sz_counting\<rparr>)"

definition put_item :: "nat \<Rightarrow> entry \<Rightarrow> mbuf \<Rightarrow> mbuf" where
  "put_item i e m =
     (let a = 12 + 16 * i;
          m = stw a (fst e) m;
          m = stw (a + 4) (ci_used (snd e)) m;
          m = stw (a + 8) (ci_used_3g (snd e)) m;
          m = stw (a + 12) (ci_used_low (snd e)) m
      in stw 4 (word_of_nat (i + 1)) m)"

text \<open>The local variables of \<open>ForwardTransfer\<close>; \<open>ft_out\<close> is what was given to \<open>SendOrBuffer\<close>.\<close>

record ft =
  ft_out :: "mbuf list"
  pring :: mbuf
  counter_n :: nat
  dcounter :: nat
  ringid :: nat
  map_tail :: "32 word"
  skip_next :: bool

definition due :: "int \<Rightarrow> entry \<Rightarrow> bool" where
  "due curtm e \<longleftrightarrow> ci_used (snd e) > THRESHOLD_TRANSFER \<or> int (unat (ci_key (snd e))) < curtm - 60"

fun forward_entries :: "(nat \<Rightarrow> mbuf option) \<Rightarrow> 32 word \<Rightarrow> int \<Rightarrow> nat \<Rightarrow> entry list \<Rightarrow> ft \<Rightarrow>
    (entry list \<times> ft) option" where
  "forward_entries alloc ty curtm n [] s = Some ([], s)"
| "forward_entries alloc ty curtm n (e # es) s =
     (if due curtm e then
        let s = s\<lparr>pring := put_item (counter_n s) e (pring s), counter_n := counter_n s + 1,
                  dcounter := dcounter s + 1\<rparr> in
        if counter_n s \<ge> TRANSFER_RING_BURST then
          let s = s\<lparr>ft_out := ft_out s @ [pring s], counter_n := 0, ringid := ringid s + 1\<rparr> in
          if ringid s \<ge> TRANSFER_RING_SZ then Some (e # es, s\<lparr>skip_next := True\<rparr>)
          else case alloc (ringid s) of
            None \<Rightarrow> None
          | Some b \<Rightarrow>
              let s = s\<lparr>pring := init_counting ty b\<rparr> in
              if dcounter s \<ge> DCOUNTER_LIMIT then Some (es, s\<lparr>skip_next := True\<rparr>)
              else forward_entries alloc ty curtm n es (s\<lparr>map_tail := word_of_nat (n + 1)\<rparr>)
        else if dcounter s \<ge> DCOUNTER_LIMIT then Some (es, s\<lparr>skip_next := True\<rparr>)
        else forward_entries alloc ty curtm n es (s\<lparr>map_tail := word_of_nat (n + 1)\<rparr>)
      else case forward_entries alloc ty curtm n es (s\<lparr>map_tail := word_of_nat (n + 1)\<rparr>) of
          None \<Rightarrow> None
        | Some (kept, s') \<Rightarrow> Some (e # kept, s'))"

text \<open>The maps from the current one on, the outer loop over them.\<close>

definition sort_maps :: "nat \<Rightarrow> nat list" where
  "sort_maps c = [c..<COUNT_MAP_SZ] @ [0..<c]"

fun forward_maps :: "(nat \<Rightarrow> mbuf option) \<Rightarrow> 32 word \<Rightarrow> int \<Rightarrow> nat \<Rightarrow> nat list \<Rightarrow> (nat \<Rightarrow> entry list) \<Rightarrow> ft \<Rightarrow>
    ((nat \<Rightarrow> entry list) \<times> ft) option" where
  "forward_maps alloc ty curtm n [] mp s = Some (mp, s)"
| "forward_maps alloc ty curtm n (i # is) mp s =
     (if skip_next s then Some (mp, s)
      else case forward_entries alloc ty curtm n (mp i) s of
        None \<Rightarrow> None
      | Some (kept, s') \<Rightarrow> forward_maps alloc ty curtm (n + 1) is (mp(i := kept)) s')"

text \<open>\<open>junk\<close> is \<open>map_tail\<close> before it is assigned; it stays when all maps are empty.\<close>

definition ForwardTransfer :: "'r dpdk \<Rightarrow> (nat \<Rightarrow> mbuf option) \<Rightarrow> int \<Rightarrow> 32 word \<Rightarrow> 'r counter_core \<Rightarrow>
    'r counter_core option" where
  "ForwardTransfer D alloc curtm junk w =
     (case alloc 0 of
        None \<Rightarrow> None
      | Some b \<Rightarrow>
         (case forward_maps alloc (c_type w) curtm 0 (sort_maps (unat (cur w))) (maps w)
              \<lparr>ft_out = [], pring = init_counting (c_type w) b, counter_n = 0, dcounter = 0, ringid = 0,
               map_tail = junk, skip_next = False\<rparr> of
            None \<Rightarrow> None
          | Some (mp, s) \<Rightarrow>
              let w = foldl (\<lambda>w m. SendOrBuffer D m w) w (ft_out s);
                  w = (if counter_n s > 0 then SendOrBuffer D (pring s) w else w);
                  w = (if dcounter s = 0 then free_all [pring s] w else w);
                  c = cur w + map_tail s
              in Some (BurstFlush D (w\<lparr>maps := mp, forward_count := forward_count w + word_of_nat (dcounter s),
                   cur := (if map_tail s = word_of_nat COUNT_MAP_SZ then 0
                           else if c \<ge> word_of_nat COUNT_MAP_SZ then c mod word_of_nat COUNT_MAP_SZ else c)\<rparr>))))"

section \<open>Cycles\<close>

text \<open>The counting part of \<open>CoreCounterWorker::Cycle\<close>; every packet is freed.\<close>

definition counter_handle :: "'r dpdk \<Rightarrow> 32 word \<Rightarrow> 'r counter_core \<Rightarrow> mbuf \<Rightarrow> 'r counter_core" where
  "counter_handle D tm w m =
     (let v4 = (ldb m 50 AND 0xF0 = 0x40);
          ipkey_dst = (if v4 then ldw m (50 + 16) else ldw m (50 + 24 + 4));
          ipkey_src = (if v4 then ldw m (50 + 12) else ldw m (50 + 8 + 4));
          w = (if is_ipv4_hdr D (mb_ptype m) \<and> ldb m 23 = IPPROTO_UDP \<and> ldh m 36 = bswap16 GTPU_PORT \<and>
                  drop_bit 5 (ldb m 42) = 1 \<and> ldb m 43 = 0xFF
               then Counting tm (bswap32 (if c_type w = COUNTER_INGRESS then ipkey_src else ipkey_dst))
                      (bswap16 (ldh m 44)) 0 w
               else w)
      in free_all [m] w)"

definition counter_Cycle :: "'r dpdk \<Rightarrow> (nat \<Rightarrow> mbuf option) \<Rightarrow> 32 word \<Rightarrow> 32 word \<Rightarrow> 'r counter_core \<Rightarrow> 64 word \<Rightarrow>
    'r counter_core option" where
  "counter_Cycle D alloc tm junk w cnt =
     (let (w, input) = deq_input D w in
      if flush_delay w = 0 then None
      else
        let w = (if input = [] then w
                 else burst_loop (counter_handle D tm) input
                   (w\<lparr>virtual_count := virtual_count w + word_of_nat (length input)\<rparr>))
        in if cnt mod flush_delay w = 0 then ForwardTransfer D alloc (int (unat tm)) junk w else Some w)"

definition SendOrBufferPassThrough :: "'r dpdk \<Rightarrow> mbuf \<Rightarrow> 'r counter_core \<Rightarrow> 'r counter_core" where
  "SendOrBufferPassThrough D m w =
     (case ring_pass w of
        None \<Rightarrow> w
      | Some r \<Rightarrow>
         let out = out_pass w @ [m] in
         if length out < unat (burst_to w) then w\<lparr>out_pass := out\<rparr>
         else
           let ms = take (unat (burst_to w)) out; (r', ret) = enq_bulk D r ms;
               w = w\<lparr>ring_pass := Some r', out_pass := []\<rparr>
           in (if ret = 0 then count_drop 0 (ucast (burst_to w)) (free_all ms w) else w))"

definition BurstFlushPassthrough :: "'r dpdk \<Rightarrow> 'r counter_core \<Rightarrow> 'r counter_core" where
  "BurstFlushPassthrough D w =
     (case ring_pass w of
        None \<Rightarrow> w
      | Some r \<Rightarrow>
         if out_pass w = [] then w
         else
           let ms = out_pass w; (r', ret) = enq_bulk D r ms;
               w = w\<lparr>ring_pass := Some r', out_pass := []\<rparr>
           in (if ret = 0 then count_drop 0 (word_of_nat (length ms)) (free_all ms w) else w))"

text \<open>The policy of the ingress and egress counters: slow subscribers pay for their colours.\<close>

definition policed_out :: "mbuf_userdat \<Rightarrow> bool" where
  "policed_out u \<longleftrightarrow> ud_mode u = 2 \<and> ud_color u \<noteq> POLICER_COLOR_GREEN \<or>
     ud_mode u = 1 \<and> ud_color u = POLICER_COLOR_RED"

definition pass_handle :: "'r dpdk \<Rightarrow> 32 word \<Rightarrow> 'r counter_core \<Rightarrow> mbuf \<Rightarrow> 'r counter_core" where
  "pass_handle D tm w m =
     (let u = mb_udat m in
      if policed_out u then free_all [m] w
      else SendOrBufferPassThrough D m
        (if ud_flag u AND 1 \<noteq> 0 then Counting tm (ud_teid u) (ucast (ud_size u)) (ucast (ud_mode u)) w else w))"

definition counter_ingress_Cycle :: "'r dpdk \<Rightarrow> (nat \<Rightarrow> mbuf option) \<Rightarrow> 32 word \<Rightarrow> 32 word \<Rightarrow> 'r counter_core \<Rightarrow>
    64 word \<Rightarrow> ('r counter_core \<times> 64 word) option" where
  "counter_ingress_Cycle D alloc tm junk w cnt =
     (let (w, input) = deq_input D w;
          w = (if input = [] then w else burst_loop (pass_handle D tm) input w)
      in if cnt \<ge> flush_delay w then
           (case ForwardTransfer D alloc (int (unat tm)) junk w of
              None \<Rightarrow> None
            | Some w \<Rightarrow> Some (BurstFlushPassthrough D w, 0))
         else Some (w, cnt))"

text \<open>\<open>CoreCounterEgressWorker::Cycle\<close> is the same code; the classes differ in \<open>type_\<close>.\<close>

definition counter_egress_Cycle :: "'r dpdk \<Rightarrow> (nat \<Rightarrow> mbuf option) \<Rightarrow> 32 word \<Rightarrow> 32 word \<Rightarrow> 'r counter_core \<Rightarrow>
    64 word \<Rightarrow> ('r counter_core \<times> 64 word) option" where
  "counter_egress_Cycle D alloc tm junk w cnt = counter_ingress_Cycle D alloc tm junk w cnt"

section \<open>The counting packet\<close>

text \<open>What a receiver reads from a counting packet: the items up to the count.\<close>

definition item_at :: "mbuf \<Rightarrow> nat \<Rightarrow> 32 word \<times> 32 word \<times> 32 word \<times> 32 word" where
  "item_at m i = (let a = 12 + 16 * i in (ldw m a, ldw m (a + 4), ldw m (a + 8), ldw m (a + 12)))"

definition counting_items :: "mbuf \<Rightarrow> (32 word \<times> 32 word \<times> 32 word \<times> 32 word) list" where
  "counting_items m = map (item_at m) [0..<unat (ldw m 4)]"

definition wire :: "entry \<Rightarrow> 32 word \<times> 32 word \<times> 32 word \<times> 32 word" where
  "wire e = (fst e, ci_used (snd e), ci_used_3g (snd e), ci_used_low (snd e))"

lemma ldw_stw: "ldw (stw k v m) k = v"
  by (simp add: ldw_ldb ldb_stores)

lemma ldw_stw_other: "k + 4 \<le> j \<or> j + 4 \<le> k \<Longrightarrow> ldw (stw k v m) j = ldw m j"
  by (auto simp: ldw_ldb ldb_stores)

lemma item_at_put_item: "item_at (put_item i e m) j = (if j = i then wire e else item_at m j)"
proof (cases "j = i")
  case True
  then show ?thesis by (simp add: item_at_def put_item_def wire_def Let_def ldw_stw ldw_stw_other)
next
  case False
  have four: "ldw (stw 4 v p) (12 + 16 * j + k) = ldw p (12 + 16 * j + k)" for v p k
    by (rule ldw_stw_other) simp
  have other: "ldw (stw (12 + 16 * i + l) v p) (12 + 16 * j + k) = ldw p (12 + 16 * j + k)"
    if "l \<le> 12" "k \<le> 12" for l k v p
    using that False by (intro ldw_stw_other) linarith
  have "ldw (put_item i e m) (12 + 16 * j + k) = ldw m (12 + 16 * j + k)" if "k \<le> 12" for k
    unfolding put_item_def Let_def four
    using other [of 12 k] other [of 8 k] other [of 4 k] other [of 0 k] that by simp
  from this [of 0] this [of 4] this [of 8] this [of 12] False show ?thesis
    by (simp add: item_at_def Let_def)
qed

lemma count_put_item: "ldw (put_item i e m) 4 = word_of_nat (i + 1)"
  by (simp add: put_item_def Let_def ldw_stw)

text \<open>The state of the loop after the entries \<open>fwd\<close> have been forwarded.\<close>

definition ft_inv :: "entry list \<Rightarrow> ft \<Rightarrow> bool" where
  "ft_inv fwd s \<longleftrightarrow>
     concat (map counting_items (ft_out s)) @ map (item_at (pring s)) [0..<counter_n s] = map wire fwd \<and>
     (counter_n s > 0 \<longrightarrow> ldw (pring s) 4 = word_of_nat (counter_n s)) \<and>
     counter_n s < TRANSFER_RING_BURST \<and> dcounter s = length fwd \<and> ringid s = length (ft_out s) \<and>
     dcounter s = TRANSFER_RING_BURST * ringid s + counter_n s"

lemma counting_items_count:
  assumes "ldw m 4 = word_of_nat n" "n < 2 ^ 32"
  shows "counting_items m = map (item_at m) [0..<n]"
proof -
  have "unat (word_of_nat n :: 32 word) = n" using assms(2) by (subst unat_of_nat) simp
  then show ?thesis by (simp add: counting_items_def assms(1))
qed

lemma map_item_at_put:
  "map (item_at (put_item n e m)) [0..<Suc n] = map (item_at m) [0..<n] @ [wire e]"
  by (simp add: item_at_put_item)

lemma ft_inv_put:
  assumes "ft_inv fwd s" "counter_n s + 1 < TRANSFER_RING_BURST"
  shows "ft_inv (fwd @ [e]) (s\<lparr>pring := put_item (counter_n s) e (pring s), counter_n := counter_n s + 1,
    dcounter := dcounter s + 1\<rparr>)"
  using assms unfolding ft_inv_def by (simp add: map_item_at_put count_put_item del: upt_Suc)

lemma ft_inv_send:
  assumes "ft_inv fwd s" "\<not> counter_n s + 1 < TRANSFER_RING_BURST"
  shows "ft_inv (fwd @ [e]) (s\<lparr>dcounter := dcounter s + 1, ft_out := ft_out s @ [put_item (counter_n s) e (pring s)],
    counter_n := 0, ringid := ringid s + 1, pring := b\<rparr>)"
proof -
  have n: "counter_n s = 63" using assms by (simp add: ft_inv_def)
  have "counting_items (put_item 63 e (pring s)) = map (item_at (pring s)) [0..<63] @ [wire e]"
    using counting_items_count [of "put_item 63 e (pring s)" 64] map_item_at_put [of 63 e "pring s"]
    by (simp add: count_put_item del: upt_Suc)
  with assms(1) n show ?thesis by (simp add: ft_inv_def del: upt_Suc)
qed

lemma ft_inv_tail [simp]: "ft_inv fwd (s\<lparr>map_tail := t\<rparr>) = ft_inv fwd s" "ft_inv fwd (s\<lparr>skip_next := b\<rparr>) = ft_inv fwd s"
  by (simp_all add: ft_inv_def)

lemma ft_inv_ringid:
  assumes "ft_inv fwd s" "dcounter s \<le> DCOUNTER_LIMIT" shows "ringid s < TRANSFER_RING_SZ"
  using assms by (simp add: ft_inv_def)

section \<open>The loops\<close>

lemma forward_entries_spec:
  assumes "\<And>i. alloc i \<noteq> None" "ft_inv fwd s" "dcounter s < DCOUNTER_LIMIT" "\<not> skip_next s"
  shows "\<exists>kept s' fw. forward_entries alloc ty curtm n es s = Some (kept, s') \<and> ft_inv (fwd @ fw) s' \<and>
    mset es = mset kept + mset fw \<and> (\<forall>e\<in>set fw. due curtm e) \<and> dcounter s' \<le> DCOUNTER_LIMIT \<and>
    (dcounter s' < DCOUNTER_LIMIT \<longleftrightarrow> \<not> skip_next s') \<and> (\<not> skip_next s' \<longrightarrow> (\<forall>e\<in>set kept. \<not> due curtm e))"
  using assms(2-4)
proof (induction es arbitrary: fwd s)
  case Nil
  then show ?case by (intro exI [of _ "[]"] exI [of _ s]) auto
next
  case (Cons e es)
  show ?case
  proof (cases "due curtm e")
    case False
    obtain kept s' fw where r: "forward_entries alloc ty curtm n es (s\<lparr>map_tail := word_of_nat (n + 1)\<rparr>) = Some (kept, s')"
      "ft_inv (fwd @ fw) s'" "mset es = mset kept + mset fw" "\<forall>e\<in>set fw. due curtm e"
      "dcounter s' \<le> DCOUNTER_LIMIT" "dcounter s' < DCOUNTER_LIMIT \<longleftrightarrow> \<not> skip_next s'"
      "\<not> skip_next s' \<longrightarrow> (\<forall>e\<in>set kept. \<not> due curtm e)"
      using Cons.IH [of fwd "s\<lparr>map_tail := word_of_nat (n + 1)\<rparr>"] Cons.prems by auto
    with False show ?thesis by (intro exI [of _ "e # kept"] exI [of _ s'] exI [of _ fw]) simp
  next
    case True
    define s1 where "s1 = (if counter_n s + 1 < TRANSFER_RING_BURST
      then s\<lparr>pring := put_item (counter_n s) e (pring s), counter_n := counter_n s + 1, dcounter := dcounter s + 1\<rparr>
      else s\<lparr>dcounter := dcounter s + 1, ft_out := ft_out s @ [put_item (counter_n s) e (pring s)],
        counter_n := 0, ringid := ringid s + 1, pring := init_counting ty (the (alloc (ringid s + 1)))\<rparr>)"
    have inv: "ft_inv (fwd @ [e]) s1"
      using ft_inv_put [OF Cons.prems(1)] ft_inv_send [OF Cons.prems(1)] by (simp add: s1_def)
    have d: "dcounter s1 = dcounter s + 1" "skip_next s1 = skip_next s" by (simp_all add: s1_def)
    have "ringid s1 < TRANSFER_RING_SZ" using ft_inv_ringid [OF inv] d Cons.prems(2) by simp
    then have step: "forward_entries alloc ty curtm n (e # es) s =
        (if dcounter s1 \<ge> DCOUNTER_LIMIT then Some (es, s1\<lparr>skip_next := True\<rparr>)
         else forward_entries alloc ty curtm n es (s1\<lparr>map_tail := word_of_nat (n + 1)\<rparr>))"
      using True assms(1) [of "ringid s + 1"] by (auto simp: s1_def Let_def)
    show ?thesis
    proof (cases "dcounter s1 \<ge> DCOUNTER_LIMIT")
      case True
      then show ?thesis
        using step inv d Cons.prems(2) \<open>due curtm e\<close>
        by (intro exI [of _ es] exI [of _ "s1\<lparr>skip_next := True\<rparr>"] exI [of _ "[e]"]) simp
    next
      case False
      obtain kept s' fw where r: "forward_entries alloc ty curtm n es (s1\<lparr>map_tail := word_of_nat (n + 1)\<rparr>) = Some (kept, s')"
        "ft_inv ((fwd @ [e]) @ fw) s'" "mset es = mset kept + mset fw" "\<forall>e\<in>set fw. due curtm e"
        "dcounter s' \<le> DCOUNTER_LIMIT" "dcounter s' < DCOUNTER_LIMIT \<longleftrightarrow> \<not> skip_next s'"
        "\<not> skip_next s' \<longrightarrow> (\<forall>e\<in>set kept. \<not> due curtm e)"
        using Cons.IH [of "fwd @ [e]" "s1\<lparr>map_tail := word_of_nat (n + 1)\<rparr>"] inv d False Cons.prems(3) by auto
      with step False \<open>due curtm e\<close> show ?thesis
        by (intro exI [of _ kept] exI [of _ s'] exI [of _ "e # fw"]) simp
    qed
  qed
qed

text \<open>All entries of the maps, as one multiset.\<close>

definition all_entries :: "nat list \<Rightarrow> (nat \<Rightarrow> entry list) \<Rightarrow> entry multiset" where
  "all_entries is mp = (\<Sum>i\<leftarrow>is. mset (mp i))"

lemma all_entries_upd: "i \<notin> set is \<Longrightarrow> all_entries is (mp(i := v)) = all_entries is mp"
  by (induction "is") (auto simp: all_entries_def)

lemma forward_maps_other:
  "forward_maps alloc ty curtm n is mp s = Some (mp', s') \<Longrightarrow> j \<notin> set is \<Longrightarrow> mp' j = mp j"
  by (induction "is" arbitrary: n mp s) (auto split: if_splits option.splits prod.splits)

lemma forward_maps_spec:
  assumes "\<And>i. alloc i \<noteq> None" "ft_inv fwd s" "dcounter s \<le> DCOUNTER_LIMIT"
    "dcounter s < DCOUNTER_LIMIT \<longleftrightarrow> \<not> skip_next s" "distinct ixs"
  shows "\<exists>mp' s' fw. forward_maps alloc ty curtm n ixs mp s = Some (mp', s') \<and> ft_inv (fwd @ fw) s' \<and>
    all_entries ixs mp = all_entries ixs mp' + mset fw \<and> (\<forall>e\<in>set fw. due curtm e) \<and>
    dcounter s' \<le> DCOUNTER_LIMIT \<and> (dcounter s' < DCOUNTER_LIMIT \<longleftrightarrow> \<not> skip_next s') \<and>
    (\<not> skip_next s' \<longrightarrow> (\<forall>i\<in>set ixs. \<forall>e\<in>set (mp' i). \<not> due curtm e))"
  using assms(2-5)
proof (induction ixs arbitrary: n mp fwd s)
  case Nil
  then show ?case by (intro exI [of _ mp] exI [of _ s] exI [of _ "[]"]) auto
next
  case (Cons i ixs)
  show ?case
  proof (cases "skip_next s")
    case True
    with Cons.prems show ?thesis by (intro exI [of _ mp] exI [of _ s] exI [of _ "[]"]) auto
  next
    case False
    with Cons.prems obtain kept s1 fw1 where r1: "forward_entries alloc ty curtm n (mp i) s = Some (kept, s1)"
      "ft_inv (fwd @ fw1) s1" "mset (mp i) = mset kept + mset fw1" "\<forall>e\<in>set fw1. due curtm e"
      "dcounter s1 \<le> DCOUNTER_LIMIT" "dcounter s1 < DCOUNTER_LIMIT \<longleftrightarrow> \<not> skip_next s1"
      "\<not> skip_next s1 \<longrightarrow> (\<forall>e\<in>set kept. \<not> due curtm e)"
      using forward_entries_spec [where alloc = alloc and fwd = fwd and s = s and es = "mp i" and n = n, OF assms(1)]
      by blast
    obtain mp' s' fw2 where r2: "forward_maps alloc ty curtm (n + 1) ixs (mp(i := kept)) s1 = Some (mp', s')"
      "ft_inv ((fwd @ fw1) @ fw2) s'" "all_entries ixs (mp(i := kept)) = all_entries ixs mp' + mset fw2"
      "\<forall>e\<in>set fw2. due curtm e" "dcounter s' \<le> DCOUNTER_LIMIT"
      "dcounter s' < DCOUNTER_LIMIT \<longleftrightarrow> \<not> skip_next s'"
      "\<not> skip_next s' \<longrightarrow> (\<forall>i\<in>set ixs. \<forall>e\<in>set (mp' i). \<not> due curtm e)"
      using Cons.IH [OF r1(2,5,6), of "n + 1" "mp(i := kept)"] Cons.prems(4)
      unfolding distinct.simps by blast
    have i: "mp' i = kept" using forward_maps_other [OF r2(1), of i] Cons.prems(4) by simp
    have skip: "skip_next s1 \<longrightarrow> skip_next s'"
      using r2(1) by (cases ixs) auto
    have "all_entries (i # ixs) mp = all_entries (i # ixs) mp' + mset (fw1 @ fw2)"
    proof -
      have "all_entries ixs mp = all_entries ixs mp' + mset fw2"
        using r2(3) all_entries_upd [of i ixs mp kept] Cons.prems(4) by simp
      with r1(3) i show ?thesis by (simp add: all_entries_def)
    qed
    with False r1 r2 i skip show ?thesis
      by (intro exI [of _ mp'] exI [of _ s'] exI [of _ "fw1 @ fw2"]) auto
  qed
qed

lemma sort_maps_perm: "c < COUNT_MAP_SZ \<Longrightarrow> distinct (sort_maps c) \<and> mset (sort_maps c) = mset [0..<COUNT_MAP_SZ]"
proof -
  assume "c < COUNT_MAP_SZ"
  then have "[0..<COUNT_MAP_SZ] = [0..<c] @ [c..<COUNT_MAP_SZ]"
    using upt_add_eq_append [of 0 c "COUNT_MAP_SZ - c"] by simp
  then show ?thesis by (simp add: sort_maps_def add.commute)
qed

lemma all_entries_perm: "mset is = mset js \<Longrightarrow> all_entries is mp = all_entries js mp"
  unfolding all_entries_def sum_mset_sum_list [symmetric] mset_map by simp

lemma counter_frame:
  "maps (SendOrBuffer D m w) = maps w" "maps (BurstFlush D w) = maps w"
  "cur (SendOrBuffer D m w) = cur w" "cur (BurstFlush D w) = cur w"
  by (simp_all add: SendOrBuffer_def BurstFlush_def count_drop_def free_all_def Let_def split: prod.splits)

lemma cur_advances:
  fixes c t :: "32 word"
  assumes "unat c < COUNT_MAP_SZ"
  shows "unat (if t = word_of_nat COUNT_MAP_SZ then 0 else if c + t \<ge> word_of_nat COUNT_MAP_SZ
     then (c + t) mod word_of_nat COUNT_MAP_SZ else c + t) < COUNT_MAP_SZ"
  using assms by (auto simp: word_le_nat_alt unat_mod)

section \<open>Properties\<close>

text \<open>C7: Forwarding loses no usage: whenever buffers can be allocated, \<open>ForwardTransfer\<close> returns; the
  entries of the sixteen maps before are exactly the entries left plus the forwarded ones; the
  forwarded ones are all due and appear, in order and field for field, in the counting packets \<open>ps\<close>;
  unless the limit of 10000 was reached no due entry is left behind; and the position for the next round
  stays within the maps. The burst buffer is empty afterwards: what it held and then the counting packets were cut into bulks
  and offered to the output ring, what the ring took is on it in order, what it left is freed in order
  and counted as dropped. The only other packet freed is the unused counting packet when nothing was due.\<close>

theorem ForwardTransfer_partitions_usage:
  assumes "ring_laws D items" "core_inv w" "\<And>i. alloc i \<noteq> None" "unat (cur w) < COUNT_MAP_SZ"
  shows "\<exists>w' fwd ps frees bs taken left. ForwardTransfer D alloc curtm junk w = Some w' \<and> core_inv w' \<and>
    all_entries [0..<COUNT_MAP_SZ] (maps w) = all_entries [0..<COUNT_MAP_SZ] (maps w') + mset fwd \<and>
    (\<forall>e\<in>set fwd. due curtm e) \<and> concat (map counting_items ps) = map wire fwd \<and>
    (length fwd < DCOUNTER_LIMIT \<longrightarrow> (\<forall>i<COUNT_MAP_SZ. \<forall>e\<in>set (maps w' i). \<not> due curtm e)) \<and>
    unat (cur w') < COUNT_MAP_SZ \<and>
    out_buf w' = [] \<and> out_buf w @ ps = concat bs \<and> (\<forall>b\<in>set bs. b \<noteq> [] \<and> length b \<le> unat (burst_to w)) \<and>
    offer (enq_bulk D) (ring_to w) bs = (ring_to w', taken, left) \<and> concat bs \<in> shuffles taken left \<and>
    items (ring_to w') = items (ring_to w) @ taken \<and> freed w' = freed w @ frees @ left \<and>
    drop_count (counter w') = drop_count (counter w) + word_of_nat (length left) \<and>
    length frees = (if fwd = [] then 1 else 0)"
proof -
  obtain b where b: "alloc 0 = Some b" using assms(3) [of 0] by auto
  let ?is = "sort_maps (unat (cur w))"
  define s0 where "s0 = \<lparr>ft_out = [], pring = init_counting (c_type w) b, counter_n = 0, dcounter = 0, ringid = 0,
    map_tail = junk, skip_next = False\<rparr>"
  have inv0: "ft_inv [] s0" by (simp add: ft_inv_def s0_def)
  note perm = sort_maps_perm [OF assms(4)]
  obtain mp s fw where r: "forward_maps alloc (c_type w) curtm 0 ?is (maps w) s0 = Some (mp, s)"
    "ft_inv fw s" "all_entries ?is (maps w) = all_entries ?is mp + mset fw" "\<forall>e\<in>set fw. due curtm e"
    "dcounter s < DCOUNTER_LIMIT \<longleftrightarrow> \<not> skip_next s"
    "\<not> skip_next s \<longrightarrow> (\<forall>i\<in>set ?is. \<forall>e\<in>set (mp i). \<not> due curtm e)"
    using forward_maps_spec [where alloc = alloc and fwd = "[]" and s = s0 and ixs = ?is and ty = "c_type w"
        and curtm = curtm and n = 0 and mp = "maps w", OF assms(3) inv0] perm
    by (auto simp: s0_def)
  define ps where "ps = ft_out s @ (if counter_n s > 0 then [pring s] else [])"
  define frees where "frees = (if dcounter s = 0 then [pring s] else [])"
  define w1 where "w1 = foldl (\<lambda>w m. SendOrBuffer D m w) w ps"
  define w2 where "w2 = free_all frees w1"
  obtain w3 where w3: "ForwardTransfer D alloc curtm junk w = Some (BurstFlush D w3)"
    "w3 = w2\<lparr>maps := mp, forward_count := forward_count w2 + word_of_nat (dcounter s),
       cur := (if map_tail s = word_of_nat COUNT_MAP_SZ then 0
         else if cur w2 + map_tail s \<ge> word_of_nat COUNT_MAP_SZ
         then (cur w2 + map_tail s) mod word_of_nat COUNT_MAP_SZ else cur w2 + map_tail s)\<rparr>"
    using r(1) b unfolding s0_def
    by (simp add: ForwardTransfer_def Let_def w2_def w1_def ps_def frees_def free_all_def)
  have dec: "concat (map counting_items ps) = map wire fw"
    using r(2) counting_items_count [of "pring s" "counter_n s"] by (auto simp: ft_inv_def ps_def)
  have w3_core: "out_buf w3 = out_buf w1" "ring_to w3 = ring_to w1" "burst_to w3 = burst_to w1"
    "counter w3 = counter w1" "freed w3 = freed w1 @ frees" by (simp_all add: w3(2) w2_def)
  note l = sends_pass [OF assms(1,2), of ps, folded w1_def]
  have h: "core_inv w3" using l by (simp add: w3_core core_inv_def)
  have none: "frees \<noteq> [] \<Longrightarrow> ps = []" using r(2) by (auto simp: frees_def ps_def ft_inv_def split: if_splits)
  define v where "v = w\<lparr>freed := freed w @ frees\<rparr>"
  have "core_passes D v ps w3"
  proof (cases "frees = []")
    case True
    then show ?thesis using l by (simp add: core_passes_def w3_core v_def)
  next
    case False
    then have "ps = []" "w1 = w" using none by (simp_all add: w1_def)
    then show ?thesis by (intro core_passes_buffered) (simp_all add: v_def w3_core)
  qed
  from core_passes_trans [OF this BurstFlush_passes [OF assms(1) h]]
  have "core_passes D v ps (BurstFlush D w3)" by simp
  from core_passes_flushed [OF assms(1) this] obtain bs taken left where
    b: "out_buf w @ ps = concat bs" "\<forall>b\<in>set bs. b \<noteq> [] \<and> length b \<le> unat (burst_to w)"
      "offer (enq_bulk D) (ring_to w) bs = (ring_to (BurstFlush D w3), taken, left)" "concat bs \<in> shuffles taken left"
      "items (ring_to (BurstFlush D w3)) = items (ring_to w) @ taken" "freed (BurstFlush D w3) = freed w @ frees @ left"
      "drop_count (counter (BurstFlush D w3)) = drop_count (counter w) + word_of_nat (length left)"
    by (auto simp: v_def)
  have "cur w2 = cur w"
  proof -
    have "cur (foldl (\<lambda>w m. SendOrBuffer D m w) w ps) = cur w"
      by (induction ps rule: rev_induct) (simp_all add: counter_frame)
    then show ?thesis by (simp add: w2_def w1_def free_all_def)
  qed
  then have c: "unat (cur w3) < COUNT_MAP_SZ" using cur_advances [OF assms(4), of "map_tail s"]
    by (simp add: w3(2) cong: if_cong split del: if_split)
  have ents: "all_entries [0..<COUNT_MAP_SZ] (maps w) = all_entries [0..<COUNT_MAP_SZ] mp + mset fw"
    using r(3) all_entries_perm [of ?is "[0..<COUNT_MAP_SZ]"] perm by simp
  have fr: "length frees = (if fw = [] then 1 else 0)" using r(2) by (auto simp: frees_def ft_inv_def)
  have nodue: "length fw < DCOUNTER_LIMIT \<longrightarrow> (\<forall>i<COUNT_MAP_SZ. \<forall>e\<in>set (mp i). \<not> due curtm e)"
    using r(2,5,6) perm mset_eq_setD [of ?is "[0..<COUNT_MAP_SZ]"] by (auto simp: ft_inv_def)
  have mp: "maps (BurstFlush D w3) = mp" "cur (BurstFlush D w3) = cur w3" by (simp_all add: counter_frame w3(2))
  show ?thesis
    by (rule exI [of _ "BurstFlush D w3"], rule exI [of _ fw], rule exI [of _ ps], rule exI [of _ frees],
        rule exI [of _ bs], rule exI [of _ taken], rule exI [of _ left], unfold mp)
      (intro conjI w3(1) BurstFlush_inv BurstFlush_frame(6) h ents r(4) dec fr nodue c b)
qed

definition demo_counter :: "mbuf list counter_core" where
  "demo_counter = core.extend (demo_core 2) \<lparr>c_type = COUNTER_INGRESS, cur = 3, maps = (\<lambda>i. if i = 5
     then [(5, \<lparr>ci_key = 100, ci_used = 7, ci_used_3g = 0, ci_used_low = 0\<rparr>)] else []),
     virtual_count = 0, forward_count = 0, counting_count = 0, traffic_bytes = 0, ring_pass = Some [], out_pass = []\<rparr>"

theorem ForwardTransfer_partitions_usage_witness:
  "\<exists>w'. ForwardTransfer (ref_dpdk 4) (\<lambda>_. Some (demo_mbuf 0 [])) 1000 0 demo_counter = Some w' \<and>
     (\<forall>i<COUNT_MAP_SZ. \<forall>e\<in>set (maps w' i). \<not> due 1000 e)"
proof -
  let ?e = "(5 :: 32 word, \<lparr>ci_key = 100, ci_used = 7, ci_used_3g = 0, ci_used_low = 0\<rparr>)"
  have inv: "core_inv demo_counter" "unat (cur demo_counter) < COUNT_MAP_SZ"
    "all_entries [0..<COUNT_MAP_SZ] (maps demo_counter) = {#?e#}"
    by (simp_all add: demo_counter_def core.defs demo_core_def core_inv_def all_entries_def upt_rec)
  have a: "Some (demo_mbuf 0 []) \<noteq> None" by simp
  obtain w' fwd where r: "ForwardTransfer (ref_dpdk 4) (\<lambda>_. Some (demo_mbuf 0 [])) 1000 0 demo_counter = Some w'"
    "{#?e#} = all_entries [0..<COUNT_MAP_SZ] (maps w') + mset fwd"
    "length fwd < DCOUNTER_LIMIT \<longrightarrow> (\<forall>i<COUNT_MAP_SZ. \<forall>e\<in>set (maps w' i). \<not> due 1000 e)"
    using ForwardTransfer_partitions_usage [OF ref_dpdk_ring_laws [of 4] inv(1) a inv(2), of 1000 0]
    unfolding inv(3) by blast
  have "size (mset fwd) \<le> 1" using r(2) by (metis size_single size_union le_add2)
  with r(1,3) show ?thesis by auto
qed

lemma map_of_set_entry: "map_of (set_entry k v es) k' = (if k' = k then Some v else map_of es k')"
  by (induction k v es rule: set_entry.induct) auto

text \<open>Counting adds the octets of a packet to exactly one figure: that of its subscriber in its service
  mode (modulo the 32 bits of the figure); every other subscriber and every other mode of the same
  subscriber keep theirs, and the subscriber is found in the map its key selects.\<close>

theorem Counting_adds_to_subscriber:
  "let w' = Counting tm k used mode w;
       old = (case map_of (maps w (unat k mod COUNT_MAP_SZ)) k of Some itm \<Rightarrow> itm
              | None \<Rightarrow> \<lparr>ci_key = tm, ci_used = 0, ci_used_3g = 0, ci_used_low = 0\<rparr>) in
   map_of (maps w' (unat k mod COUNT_MAP_SZ)) k =
     Some \<lparr>ci_key = ci_key old, ci_used = ci_used old + (if mode \<noteq> 1 \<and> mode \<noteq> 2 then ucast used else 0),
       ci_used_3g = ci_used_3g old + (if mode = 1 then ucast used else 0),
       ci_used_low = ci_used_low old + (if mode = 2 then ucast used else 0)\<rparr> \<and>
   (\<forall>k'. k' \<noteq> k \<longrightarrow> map_of (maps w' (unat k' mod COUNT_MAP_SZ)) k' = map_of (maps w (unat k' mod COUNT_MAP_SZ)) k') \<and>
   traffic_bytes w' = traffic_bytes w + ucast used"
  by (cases "map_of (maps w (unat k mod COUNT_MAP_SZ)) k")
    (simp_all add: Counting_def Let_def map_of_set_entry add_usage_def)

text \<open>The witness applies the statement to a second packet of a subscriber.\<close>

theorem Counting_adds_to_subscriber_witness:
  "map_of (maps (Counting 9 5 3 0 demo_counter) 5) 5 =
     Some \<lparr>ci_key = 100, ci_used = 10, ci_used_3g = 0, ci_used_low = 0\<rparr>"
  using Counting_adds_to_subscriber [of 9 5 3 0 demo_counter]
  by (simp add: Let_def demo_counter_def core.defs)

text \<open>The figures of one subscriber, all modes together, and the account of the pass-through output.\<close>

definition usage :: "32 word \<Rightarrow> 'r counter_core \<Rightarrow> 32 word" where
  "usage k w = (case map_of (maps w (unat k mod COUNT_MAP_SZ)) k of
     None \<Rightarrow> 0 | Some i \<Rightarrow> ci_used i + ci_used_3g i + ci_used_low i)"

definition pass_holdings :: "('r \<Rightarrow> mbuf list) \<Rightarrow> 'r counter_core \<Rightarrow> mbuf multiset" where
  "pass_holdings items w =
     (case ring_pass w of None \<Rightarrow> {#} | Some r \<Rightarrow> mset (items r)) + mset (out_pass w) + mset (freed w)"

definition pass_inv :: "'r counter_core \<Rightarrow> bool" where
  "pass_inv w \<longleftrightarrow> ring_pass w \<noteq> None \<and> length (out_pass w) < unat (burst_to w)"

definition charged :: "32 word \<Rightarrow> mbuf \<Rightarrow> bool" where
  "charged k m \<longleftrightarrow> \<not> policed_out (mb_udat m) \<and> ud_flag (mb_udat m) AND 1 \<noteq> 0 \<and> ud_teid (mb_udat m) = k"

lemma usage_Counting: "usage k (Counting tm k' v mode w) = usage k w + (if k = k' then ucast v else 0)"
proof -
  let ?i = "\<lparr>ci_key = tm, ci_used = 0, ci_used_3g = 0, ci_used_low = 0\<rparr>"
  have "usage k (Counting tm k' v mode w) = usage k w" if "k \<noteq> k'"
    using that by (simp add: usage_def Counting_def Let_def map_of_set_entry)
  moreover have "usage k (Counting tm k v mode w) = usage k w + ucast v"
    by (cases "map_of (maps w (unat k mod COUNT_MAP_SZ)) k")
      (simp_all add: usage_def Counting_def Let_def map_of_set_entry add_usage_def)
  ultimately show ?thesis by (cases "k = k'") simp_all
qed

lemma Counting_frame:
  "ring_pass (Counting tm k v mode w) = ring_pass w" "out_pass (Counting tm k v mode w) = out_pass w"
  "freed (Counting tm k v mode w) = freed w" "burst_to (Counting tm k v mode w) = burst_to w"
  by (simp_all add: Counting_def Let_def)

lemma SendOrBufferPassThrough_laws:
  assumes "ring_laws D items" "pass_inv w"
  shows "pass_inv (SendOrBufferPassThrough D m w)" (is ?i)
    "pass_holdings items (SendOrBufferPassThrough D m w) = add_mset m (pass_holdings items w)" (is ?h)
    "set (freed w) \<subseteq> set (freed (SendOrBufferPassThrough D m w))" (is ?f)
    "usage k (SendOrBufferPassThrough D m w) = usage k w" (is ?u)
proof -
  obtain r where r: "ring_pass w = Some r" using assms(2) by (auto simp: pass_inv_def)
  let ?out = "out_pass w @ [m]"
  have "?i \<and> ?h \<and> ?f \<and> ?u"
  proof (cases "length ?out < unat (burst_to w)")
    case True
    then show ?thesis using r
      by (simp add: SendOrBufferPassThrough_def pass_inv_def pass_holdings_def usage_def)
  next
    case False
    then have len: "length ?out = unat (burst_to w)" using assms(2) by (simp add: pass_inv_def)
    obtain r' ret where e: "enq_bulk D r ?out = (r', ret)" by (cases "enq_bulk D r ?out")
    then have "ret = length ?out \<and> items r' = items r @ ?out \<or> ret = 0 \<and> r' = r"
      using assms(1) by (metis fst_conv snd_conv ring_laws_def)
    then show ?thesis using r e len
      by (auto simp: SendOrBufferPassThrough_def pass_inv_def pass_holdings_def usage_def count_drop_def
        free_all_def)
  qed
  then show ?i ?h ?f ?u by blast+
qed

lemma pass_handle_laws:
  assumes "ring_laws D items" "pass_inv w"
  shows "pass_inv (pass_handle D tm w m)" (is ?i)
    "pass_holdings items (pass_handle D tm w m) = add_mset m (pass_holdings items w)" (is ?h)
    "set (freed w) \<subseteq> set (freed (pass_handle D tm w m))" (is ?f)
    "policed_out (mb_udat m) \<Longrightarrow> m \<in> set (freed (pass_handle D tm w m))"
    "usage k (pass_handle D tm w m) =
      usage k w + (if charged k m then ucast (ucast (ud_size (mb_udat m)) :: 16 word) else 0)" (is ?u)
proof -
  let ?w = "if ud_flag (mb_udat m) AND 1 \<noteq> 0
    then Counting tm (ud_teid (mb_udat m)) (ucast (ud_size (mb_udat m))) (ucast (ud_mode (mb_udat m))) w else w"
  have w: "pass_inv ?w" "pass_holdings items ?w = pass_holdings items w" "freed ?w = freed w"
    using assms(2) by (simp_all add: pass_inv_def pass_holdings_def Counting_frame)
  note l = SendOrBufferPassThrough_laws [OF assms(1) w(1), where m = m]
  have "?i \<and> ?h \<and> ?f \<and> ?u"
  proof (cases "policed_out (mb_udat m)")
    case True
    then show ?thesis using assms(2)
      by (auto simp: pass_handle_def pass_inv_def pass_holdings_def free_all_def usage_def charged_def split: option.split)
  next
    case False
    then have p: "pass_handle D tm w m = SendOrBufferPassThrough D m ?w" by (simp add: pass_handle_def Let_def)
    have "usage k ?w = usage k w + (if charged k m then ucast (ucast (ud_size (mb_udat m)) :: 16 word) else 0)"
      using False by (simp add: charged_def usage_Counting)
    then show ?thesis unfolding p using l w(2,3) by simp
  qed
  then show ?i ?h ?f ?u by blast+
  show "m \<in> set (freed (pass_handle D tm w m))" if "policed_out (mb_udat m)"
    using that by (simp add: pass_handle_def free_all_def)
qed

text \<open>The ingress and egress counters over a burst of any length: every packet is passed on in the
  output buffer or on the ring, or freed, none is lost or duplicated; every packet of a low speed
  subscriber that is not green, and of a 3G subscriber that is red, is freed; and the usage of each
  subscriber grows by exactly the octets of its own user packets that were not policed out.\<close>

theorem pass_through_counts_and_keeps_packets:
  assumes "ring_laws D items" "pass_inv w"
  shows "let w' = burst_loop (pass_handle D tm) ms w in
    pass_inv w' \<and> pass_holdings items w' = pass_holdings items w + mset ms \<and>
    (\<forall>m\<in>set ms. policed_out (mb_udat m) \<longrightarrow> m \<in> set (freed w')) \<and>
    usage k w' = usage k w + (\<Sum>m\<leftarrow>filter (charged k) ms. ucast (ucast (ud_size (mb_udat m)) :: 16 word))"
  unfolding burst_loop_foldl Let_def
proof (induction ms rule: rev_induct)
  case Nil
  from assms show ?case by simp
next
  case (snoc m ms)
  note l = pass_handle_laws [OF assms(1), where w = "foldl (pass_handle D tm) w ms" and tm = tm and m = m]
  from snoc l show ?case by (auto simp: algebra_simps)
qed

text \<open>The witness sends a counted packet, an uncounted one and a policed one.\<close>

definition demo_udat :: "2 word \<Rightarrow> 2 word \<Rightarrow> 8 word \<Rightarrow> mbuf" where
  "demo_udat mode color flag = (demo_mbuf 0 [])\<lparr>mb_udat :=
     \<lparr>ud_flag = flag, ud_size = 40, ud_color = color, ud_mode = mode, ud_teid = 5\<rparr>\<rparr>"

theorem pass_through_counts_and_keeps_packets_witness:
  "usage 5 (burst_loop (pass_handle (ref_dpdk 4) 9) [demo_udat 0 0 1, demo_udat 0 0 0, demo_udat 1 POLICER_COLOR_RED 1]
     demo_counter) = 47"
proof -
  have inv: "pass_inv demo_counter" by (simp add: pass_inv_def demo_counter_def core.defs demo_core_def)
  have u: "usage 5 demo_counter = 7" by (simp add: usage_def demo_counter_def core.defs)
  have f: "filter (charged 5) [demo_udat 0 0 1, demo_udat 0 0 0, demo_udat 1 POLICER_COLOR_RED 1] = [demo_udat 0 0 1]"
    by (simp add: charged_def policed_out_def demo_udat_def)
  have s: "ucast (ucast (ud_size (mb_udat (demo_udat 0 0 1))) :: 16 word) = (40 :: 32 word)"
    by (simp add: demo_udat_def)
  show ?thesis
    using pass_through_counts_and_keeps_packets [OF ref_dpdk_ring_laws [of 4] inv,
        of 9 "[demo_udat 0 0 1, demo_udat 0 0 0, demo_udat 1 POLICER_COLOR_RED 1]" 5]
    unfolding f u Let_def by (simp add: s)
qed

end
