(* ===== verification/Transfer_Workers.thy ===== *)
theory Transfer_Workers
  imports Counter_Worker Text_Utils "HOL-Library.Sublist"
begin

text \<open>
  The cores behind the counters: \<open>CoreTransferWorker\<close> sends counting packets over a TCP connection
  (\<open>dataplane/src/core/core_transfer_worker.cc\<close>), \<open>CoreCounterLogWorker\<close> stores them in the database
  (\<open>core_counter_log_worker.cc\<close>). Each has a cycle on its own core that feeds an internal ring and a
  virtual cycle on another thread that empties it.

  The socket and the database are parameters: the outcomes of \<open>select\<close> and \<open>send\<close> in the order they are
  asked for, and \<open>mysql_query\<close> as a function on a database state.
\<close>

section \<open>Transfer\<close>

record 'r transfer_core = "'r core" +
  tr_cpuid :: "32 word"
  tr_count :: "64 word"
  tr_bytes :: "64 word"
  tr_drop_bytes :: "64 word"
  sock_out :: "byte list"
  select_calls :: nat

definition transfer_GetN :: "key \<Rightarrow> 'r transfer_core \<Rightarrow> 32 word" where
  "transfer_GetN k w = (if k = OPT then tr_cpuid w else GetN k w)"

text \<open>The debug output of the cycle resets the statistics and skips the burst.\<close>

definition report_due :: "64 word \<Rightarrow> bool" where
  "report_due cnt \<longleftrightarrow> cnt \<noteq> 0 \<and> (cnt = - 1 \<or> cnt mod (512 * 1024 * 1024) = 0)"

definition transfer_Cycle :: "'r dpdk \<Rightarrow> 'r transfer_core \<Rightarrow> 64 word \<Rightarrow> 'r transfer_core" where
  "transfer_Cycle D w cnt =
     (if report_due cnt then w\<lparr>tr_bytes := 0, tr_drop_bytes := 0, tr_count := 0\<rparr>
      else
        let (w, input) = deq_input D w
        in if input = [] then w else burst_loop (\<lambda>w m. SendOrBuffer D m w) input w)"

text \<open>
  \<open>Send\<close>: \<open>sel n\<close> is the outcome of the \<open>n\<close>-th \<open>select\<close> and of the \<open>send\<close> behind it. \<open>Sel_Ready b f\<close>:
  \<open>select\<close> returned a positive number, \<open>b\<close> is \<open>FD_ISSET\<close>, and \<open>f n\<close> is what \<open>send\<close> returns when asked to
  send \<open>n\<close> octets; a negative one ends the process (\<open>None\<close>). Every round counts as a retry; the retries are checked
  after \<open>select\<close>, so the last \<open>select\<close> is made for nothing. The result is the returned value, the octets
  written and the number of calls of \<open>select\<close>.
\<close>

datatype sel = Sel_Err bool | Sel_Timeout | Sel_Ready bool "nat \<Rightarrow> int"

function Send_loop :: "(nat \<Rightarrow> sel) \<Rightarrow> byte list \<Rightarrow> nat \<Rightarrow> nat \<Rightarrow> byte list \<Rightarrow> (int \<times> byte list \<times> nat) option" where
  "Send_loop sel bs retrycnt allsend written =
     (let calls = retrycnt + 1 in
      if retrycnt > 10 then Some (- 1, written, calls)
      else case sel retrycnt of
        Sel_Err eintr \<Rightarrow> if eintr then Send_loop sel bs (retrycnt + 1) allsend written else Some (- 1, written, calls)
      | Sel_Timeout \<Rightarrow> Send_loop sel bs (retrycnt + 1) allsend written
      | Sel_Ready isset f \<Rightarrow>
          if \<not> isset then Send_loop sel bs (retrycnt + 1) allsend written
          else
            let sendlen = f (length bs - allsend) in
            if sendlen < 0 then None
            else
              let allsend' = allsend + nat sendlen; written' = written @ take (nat sendlen) (drop allsend bs) in
              if allsend' \<ge> length bs then Some (int allsend', written', calls)
              else Send_loop sel bs (retrycnt + 1) allsend' written')"
  by pat_completeness auto
termination by (relation "measure (\<lambda>(sel, bs, n, a, wr). 11 - n)") auto

declare Send_loop.simps [simp del]

definition Send :: "(nat \<Rightarrow> sel) \<Rightarrow> byte list \<Rightarrow> (int \<times> byte list \<times> nat) option" where
  "Send sel bs = Send_loop sel bs 0 0 []"

definition transfer_one :: "'r transfer_core \<Rightarrow> (nat \<Rightarrow> sel) \<times> mbuf \<Rightarrow> 'r transfer_core option" where
  "transfer_one w sm =
     (let (sel, m) = sm in
      case Send sel (pkt_bytes m) of
        None \<Rightarrow> None
      | Some (ret, written, calls) \<Rightarrow>
          let w = w\<lparr>sock_out := sock_out w @ written, select_calls := select_calls w + calls\<rparr>;
              w = (if ret < 0 then w\<lparr>tr_drop_bytes := tr_drop_bytes w + word_of_nat (mb_len m)\<rparr>
                   else w\<lparr>tr_bytes := tr_bytes w + word_of_nat (mb_len m)\<rparr>);
              w = w\<lparr>tr_count := tr_count w + 1\<rparr>
          in Some (free_all [m] w))"

fun transfer_all :: "'r transfer_core \<Rightarrow> ((nat \<Rightarrow> sel) \<times> mbuf) list \<Rightarrow> 'r transfer_core option" where
  "transfer_all w [] = Some w"
| "transfer_all w (sm # sms) = (case transfer_one w sm of None \<Rightarrow> None | Some w \<Rightarrow> transfer_all w sms)"

text \<open>\<open>VirtualCycle\<close>: \<open>sels n\<close> are the outcomes for the \<open>n\<close>-th packet of the burst.\<close>

definition transfer_VirtualCycle :: "'r dpdk \<Rightarrow> (nat \<Rightarrow> nat \<Rightarrow> sel) \<Rightarrow> 'r transfer_core \<Rightarrow> 'r transfer_core option" where
  "transfer_VirtualCycle D sels w =
     (case deq_burst D (ring_to w) (unat (burst_to w)) of
        (r, ms) \<Rightarrow> transfer_all (w\<lparr>ring_to := r\<rparr>) (zip (map sels [0..<length ms]) ms))"

section \<open>Counter log\<close>

record ('r, 'd) log_core = "'r core" +
  log_cpuid :: "32 word"
  log_count :: "64 word"
  db :: 'd

definition log_GetN :: "key \<Rightarrow> ('r, 'd) log_core \<Rightarrow> 32 word" where
  "log_GetN k w = (if k = OPT then log_cpuid w else GetN k w)"

definition log_Cycle :: "'r dpdk \<Rightarrow> ('r, 'd) log_core \<Rightarrow> 64 word \<Rightarrow> ('r, 'd) log_core" where
  "log_Cycle D w cnt =
     (if report_due cnt then BurstFlush D (w\<lparr>log_count := 0\<rparr>)
      else
        let (w, input) = deq_input D w
        in if input = [] then w else burst_loop (\<lambda>w m. SendOrBuffer D m w) input w)"

text \<open>A row of the table \<open>traffic_log\<close>: key, figure of the S5 side, figure of the SGi side, mode.\<close>

type_synonym log_row = "32 word \<times> 32 word \<times> 32 word \<times> nat"

definition fmt_row :: "32 word \<Rightarrow> log_row \<Rightarrow> string" where
  "fmt_row cn r = (case r of (k, s5, sgi, t) \<Rightarrow>
     (if cn = 0 then '''' else '','') @ ''('' @ dec (unat k) @ '','' @ dec (unat s5) @ '','' @ dec (unat sgi) @
       '','' @ dec t @ '')'')"

definition log_row_of :: "byte \<Rightarrow> 32 word \<Rightarrow> 32 word \<Rightarrow> nat \<Rightarrow> log_row" where
  "log_row_of ty k v t = (if ty = 0xFF then (k, 0, v, t) else (k, v, 0, t))"

text \<open>One figure: nothing is written when both sides are zero.\<close>

definition log_figure :: "log_row \<Rightarrow> 32 word \<times> string \<times> ('r, 'd) log_core \<Rightarrow> 32 word \<times> string \<times> ('r, 'd) log_core" where
  "log_figure r s = (case s of (cn, sql, w) \<Rightarrow>
     if fst (snd r) \<noteq> 0 \<or> fst (snd (snd r)) \<noteq> 0
     then (cn + 1, sql @ fmt_row cn r, w\<lparr>log_count := log_count w + 1\<rparr>) else s)"

definition log_item :: "byte \<Rightarrow> 32 word \<times> string \<times> ('r, 'd) log_core \<Rightarrow> 32 word \<times> 32 word \<times> 32 word \<times> 32 word \<Rightarrow>
    32 word \<times> string \<times> ('r, 'd) log_core" where
  "log_item ty s i = (case i of (k, used, used_3g, used_low) \<Rightarrow>
     log_figure (log_row_of ty k used_low 2) (log_figure (log_row_of ty k used_3g 1) (log_figure (log_row_of ty k used 0) s)))"

text \<open>The loop over the burst: \<open>Inl\<close> is the early return on a packet of another length.\<close>

fun log_packets :: "mbuf list \<Rightarrow> 32 word \<times> string \<times> ('r, 'd) log_core \<Rightarrow>
    ('r, 'd) log_core + 32 word \<times> string \<times> ('r, 'd) log_core" where
  "log_packets [] s = Inr s"
| "log_packets (m # ms) s =
     (if mb_len m \<noteq> sz_counting then Inl (snd (snd s))
      else
        let (cn, sql, w) = foldl (log_item (ldb m 0)) s (counting_items m)
        in log_packets ms (cn, sql, free_all [m] w))"

definition log_insert :: string where
  "log_insert = ''INSERT INTO traffic_log(`teid`,`used_s5`,`used_sgi`,`type`)VALUES''"

definition log_VirtualCycle :: "'r dpdk \<Rightarrow> ('d \<Rightarrow> string \<Rightarrow> 'd \<times> bool) \<Rightarrow> ('r, 'd) log_core \<Rightarrow> ('r, 'd) log_core \<times> int" where
  "log_VirtualCycle D query w =
     (case deq_burst D (ring_to w) (unat (burst_to w)) of (r, ms) \<Rightarrow>
        let w = w\<lparr>ring_to := r\<rparr> in
        if ms = [] then (w, 0)
        else case log_packets ms (0, log_insert, w) of
            Inl w \<Rightarrow> (w, - 1)
          | Inr (_, sql, w) \<Rightarrow> (case query (db w) sql of (d, ok) \<Rightarrow> (w\<lparr>db := d\<rparr>, if ok then 0 else - 1)))"

section \<open>Lemmas\<close>

interpretation transfer: packet_worker D "\<lambda>w m. SendOrBuffer D m w" "\<lambda>_. True" for D
  by unfold_locales (auto intro: handled_send)

text \<open>A socket whose \<open>send\<close> does not fail and never claims more than it was given.\<close>

definition sock_ok :: "(nat \<Rightarrow> sel) \<Rightarrow> bool" where
  "sock_ok sel \<longleftrightarrow> (\<forall>i b f n. sel i = Sel_Ready b f \<longrightarrow> 0 \<le> f n \<and> f n \<le> int n)"

text \<open>
  The octets the socket takes of \<open>len\<close> in its first \<open>n\<close> rounds; a packet can be delivered if the socket is ready and has taken
  them all in one of the first eleven rounds, before any error of \<open>select\<close> but an interrupt.
\<close>

fun accepted :: "(nat \<Rightarrow> sel) \<Rightarrow> nat \<Rightarrow> nat \<Rightarrow> nat" where
  "accepted sel len 0 = 0"
| "accepted sel len (Suc n) =
     (case sel n of
        Sel_Ready b f \<Rightarrow> if b then accepted sel len n + nat (f (len - accepted sel len n)) else accepted sel len n
      | _ \<Rightarrow> accepted sel len n)"

definition ready :: "sel \<Rightarrow> bool" where
  "ready s \<longleftrightarrow> (case s of Sel_Ready b f \<Rightarrow> b | _ \<Rightarrow> False)"

definition deliverable :: "(nat \<Rightarrow> sel) \<Rightarrow> nat \<Rightarrow> bool" where
  "deliverable sel len \<longleftrightarrow>
     (\<exists>n<11. ready (sel n) \<and> len \<le> accepted sel len (Suc n) \<and> (\<forall>i<n. sel i \<noteq> Sel_Err False))"

text \<open>What the loop has seen when round \<open>n\<close> starts with \<open>a\<close> octets sent.\<close>

definition round_ok :: "(nat \<Rightarrow> sel) \<Rightarrow> byte list \<Rightarrow> nat \<Rightarrow> nat \<Rightarrow> byte list \<Rightarrow> bool" where
  "round_ok sel bs n a wr \<longleftrightarrow> n \<le> 11 \<and> a = accepted sel (length bs) n \<and> a \<le> length bs \<and> wr = take a bs \<and>
     (\<forall>i<n. sel i \<noteq> Sel_Err False) \<and> (\<forall>j<n. ready (sel j) \<longrightarrow> accepted sel (length bs) (Suc j) < length bs)"

definition send_result :: "(nat \<Rightarrow> sel) \<Rightarrow> byte list \<Rightarrow> (int \<times> byte list \<times> nat) option \<Rightarrow> bool" where
  "send_result sel bs res \<longleftrightarrow> (\<exists>r wr k. res = Some (r, wr, k) \<and> k \<le> 12 \<and> prefix wr bs \<and>
     (if deliverable sel (length bs) then wr = bs \<and> r = int (length bs) else r = - 1))"

lemma round_ok_next:
  assumes "round_ok sel bs n a wr" "n \<le> 10" "sel n \<noteq> Sel_Err False"
    "a' = accepted sel (length bs) (Suc n)" "a' \<le> length bs" "ready (sel n) \<longrightarrow> a' < length bs"
  shows "round_ok sel bs (n + 1) a' (take a' bs)"
  using assms by (auto simp: round_ok_def less_Suc_eq simp del: accepted.simps)

lemma round_ok_over: "round_ok sel bs n a wr \<Longrightarrow> n > 10 \<Longrightarrow> \<not> deliverable sel (length bs)"
  by (auto simp: round_ok_def deliverable_def not_le[symmetric] simp del: accepted.simps)

lemma round_ok_error:
  assumes "round_ok sel bs n a wr" "sel n = Sel_Err False" shows "\<not> deliverable sel (length bs)"
proof
  assume "deliverable sel (length bs)"
  then obtain k where k: "ready (sel k)" "length bs \<le> accepted sel (length bs) (Suc k)" "\<forall>i<k. sel i \<noteq> Sel_Err False"
    by (auto simp: deliverable_def)
  have "k \<noteq> n" using k(1) assms(2) by (auto simp: ready_def)
  moreover have "k \<le> n" using k(3) assms(2) by (meson not_le_imp_less)
  ultimately have "k < n" by simp
  then show False using k(1,2) assms(1) unfolding round_ok_def by (meson not_less)
qed

lemma round_ok_done:
  assumes "round_ok sel bs n a wr" "n \<le> 10" "ready (sel n)" "length bs \<le> accepted sel (length bs) (Suc n)"
  shows "deliverable sel (length bs)"
  using assms unfolding deliverable_def round_ok_def by (intro exI [of _ n]) simp

lemma Send_loop_result:
  assumes "sock_ok sel" "round_ok sel bs n a wr"
  shows "send_result sel bs (Send_loop sel bs n a wr)"
  using assms(2)
proof (induction "11 - n" arbitrary: n a wr rule: less_induct)
  case less
  note inv = less(2) [unfolded round_ok_def] and unf = Send_loop.simps [of sel bs n]
  show ?case
  proof (cases "n > 10")
    case True
    then show ?thesis using inv round_ok_over [OF less(2) True]
      by (simp add: unf Let_def send_result_def take_is_prefix)
  next
    case False
    then have n: "n \<le> 10" by simp
    have again: "send_result sel bs (Send_loop sel bs (n + 1) a' (take a' bs))"
      if "sel n \<noteq> Sel_Err False" "a' = accepted sel (length bs) (Suc n)" "a' \<le> length bs" "ready (sel n) \<longrightarrow> a' < length bs" for a'
      using less(1) [OF _ round_ok_next [OF less(2) n that]] n by simp
    show ?thesis
    proof (cases "sel n")
      case (Sel_Err e)
      then show ?thesis
        using n inv again [of a] round_ok_error [OF less(2)]
        by (cases e) (simp_all add: unf Let_def send_result_def ready_def take_is_prefix)
    next
      case Sel_Timeout
      then show ?thesis using n inv again [of a] by (simp add: unf Let_def ready_def)
    next
      case (Sel_Ready b f)
      show ?thesis
      proof (cases b)
        case nb: False
        then show ?thesis using Sel_Ready n inv again [of a] by (simp add: unf Let_def ready_def)
      next
        case True
        define k where "k = nat (f (length bs - a))"
        have f: "0 \<le> f (length bs - a)" "f (length bs - a) \<le> int (length bs - a)"
          using assms(1) Sel_Ready by (auto simp: sock_ok_def)
        then have k: "a + k \<le> length bs" using inv by (simp add: k_def nat_le_iff)
        have ac: "a + k = accepted sel (length bs) (Suc n)" "ready (sel n)"
          using inv Sel_Ready True by (simp_all add: k_def ready_def)
        have t: "wr @ take k (drop a bs) = take (a + k) bs" using inv by (simp add: take_add)
        have eq: "Send_loop sel bs n a wr = (if a + k \<ge> length bs then Some (int (a + k), take (a + k) bs, n + 1)
            else Send_loop sel bs (n + 1) (a + k) (take (a + k) bs))"
          using f(1) Sel_Ready True n t by (simp add: unf Let_def flip: k_def)
        show ?thesis
        proof (cases "a + k \<ge> length bs")
          case le: True
          then show ?thesis using k n round_ok_done [OF less(2) n ac(2)] ac(1) unfolding eq
            by (simp add: send_result_def)
        next
          case lt: False
          then show ?thesis using again [of "a + k"] ac k Sel_Ready unfolding eq by simp
        qed
      qed
    qed
  qed
qed

text \<open>Packets with the outcome of their transmission and what was written of them.\<close>

definition sent_as :: "(nat \<Rightarrow> sel) \<Rightarrow> mbuf \<times> bool \<times> byte list \<Rightarrow> bool" where
  "sent_as sel x \<longleftrightarrow> (case x of (m, ok, c) \<Rightarrow> prefix c (pkt_bytes m) \<and> (ok \<longleftrightarrow> deliverable sel (mb_len m)) \<and>
     (ok \<longrightarrow> c = pkt_bytes m))"

lemma transfer_one_sent:
  assumes "sock_ok sel"
  obtains ok c k where "sent_as sel (m, ok, c)" "k \<le> 12" "transfer_one w (sel, m) = Some (free_all [m] (w\<lparr>sock_out := sock_out w @ c,
     select_calls := select_calls w + k,
     tr_count := tr_count w + 1, tr_bytes := tr_bytes w + (if ok then word_of_nat (mb_len m) else 0),
     tr_drop_bytes := tr_drop_bytes w + (if ok then 0 else word_of_nat (mb_len m))\<rparr>))"
proof -
  have "send_result sel (pkt_bytes m) (Send sel (pkt_bytes m))"
    unfolding Send_def by (rule Send_loop_result [OF assms]) (simp add: round_ok_def)
  then obtain r c k where s: "Send sel (pkt_bytes m) = Some (r, c, k)" "k \<le> 12" "prefix c (pkt_bytes m)"
    "if deliverable sel (mb_len m) then c = pkt_bytes m \<and> r = int (mb_len m) else r = - 1"
    by (auto simp: send_result_def)
  have "sent_as sel (m, \<not> r < 0, c)" using s(3,4) by (auto simp: sent_as_def split: if_splits)
  from that [OF this s(2)] show thesis by (simp add: transfer_one_def s(1) free_all_def)
qed

lemma transfer_all_sent:
  assumes "\<forall>(sel, m)\<in>set sms. sock_ok sel"
  shows "\<exists>xs w'. transfer_all w sms = Some w' \<and> map fst xs = map snd sms \<and>
    list_all2 (\<lambda>sm x. sent_as (fst sm) x) sms xs \<and>
    ring_to w' = ring_to w \<and> freed w' = freed w @ map snd sms \<and> sock_out w' = sock_out w @ concat (map (snd \<circ> snd) xs) \<and>
    select_calls w' \<le> select_calls w + 12 * length xs \<and>
    tr_count w' = tr_count w + word_of_nat (length xs) \<and>
    tr_bytes w' = tr_bytes w + (\<Sum>(m, ok, c)\<leftarrow>xs. if ok then word_of_nat (mb_len m) else 0) \<and>
    tr_drop_bytes w' = tr_drop_bytes w + (\<Sum>(m, ok, c)\<leftarrow>xs. if ok then 0 else word_of_nat (mb_len m))"
  using assms
proof (induction sms arbitrary: w)
  case Nil
  show ?case by (intro exI [of _ "[]"] exI [of _ w]) simp
next
  case (Cons sm sms)
  obtain sel m where sm: "sm = (sel, m)" by fastforce
  have sock: "sock_ok sel" and rest: "\<forall>(sel, m)\<in>set sms. sock_ok sel" using Cons.prems sm by simp_all
  obtain ok c k where one: "sent_as sel (m, ok, c)" "k \<le> 12" "transfer_one w (sel, m) = Some (free_all [m] (w\<lparr>sock_out := sock_out w @ c,
     select_calls := select_calls w + k,
     tr_count := tr_count w + 1, tr_bytes := tr_bytes w + (if ok then word_of_nat (mb_len m) else 0),
     tr_drop_bytes := tr_drop_bytes w + (if ok then 0 else word_of_nat (mb_len m))\<rparr>))" (is "_ = Some ?v")
    by (rule transfer_one_sent [OF sock], rule that)
  obtain xs w' where r: "transfer_all ?v sms = Some w'" "map fst xs = map snd sms" "list_all2 (\<lambda>sm x. sent_as (fst sm) x) sms xs"
    "ring_to w' = ring_to ?v" "freed w' = freed ?v @ map snd sms" "sock_out w' = sock_out ?v @ concat (map (snd \<circ> snd) xs)"
    "select_calls w' \<le> select_calls ?v + 12 * length xs"
    "tr_count w' = tr_count ?v + word_of_nat (length xs)"
    "tr_bytes w' = tr_bytes ?v + (\<Sum>(m, ok, c)\<leftarrow>xs. if ok then word_of_nat (mb_len m) else 0)"
    "tr_drop_bytes w' = tr_drop_bytes ?v + (\<Sum>(m, ok, c)\<leftarrow>xs. if ok then 0 else word_of_nat (mb_len m))"
    using Cons.IH [OF rest, of ?v] by (elim exE conjE) (rule that)
  then show ?case using one
    by (intro exI [of _ "(m, ok, c) # xs"] exI [of _ w']) (simp add: sm free_all_def comp_def algebra_simps)
qed

section \<open>Properties\<close>

text \<open>C37: The transfer thread, on a connection on which send does not fail: it always returns, after at most twelve
  calls of select per packet; it takes the oldest packets of its ring, at most a burst, and frees every one of them; what it
  writes to the socket is, packet by packet and in order, the octets of the packet or a first part of them.
  A packet counts as transferred exactly if the socket took all its octets within the first eleven rounds and before any error of
  select but an interrupt; then all its octets were written. Every octet of the burst is
  counted exactly once, as transferred or as dropped.\<close>

theorem transfer_thread_accounts_for_octets:
  assumes "ring_laws D items" "\<And>n. sock_ok (sels n)"
  shows "\<exists>ms xs w'. transfer_VirtualCycle D sels w = Some w' \<and> items (ring_to w) = ms @ items (ring_to w') \<and>
    length ms \<le> unat (burst_to w) \<and> freed w' = freed w @ ms \<and> map fst xs = ms \<and>
    (\<forall>i<length ms. sent_as (sels i) (xs ! i)) \<and>
    sock_out w' = sock_out w @ concat (map (snd \<circ> snd) xs) \<and>
    select_calls w' \<le> select_calls w + 12 * length ms \<and>
    tr_count w' = tr_count w + word_of_nat (length ms) \<and>
    tr_bytes w' = tr_bytes w + (\<Sum>(m, ok, c)\<leftarrow>xs. if ok then word_of_nat (mb_len m) else 0) \<and>
    tr_drop_bytes w' = tr_drop_bytes w + (\<Sum>(m, ok, c)\<leftarrow>xs. if ok then 0 else word_of_nat (mb_len m))"
proof -
  obtain r ms where e: "deq_burst D (ring_to w) (unat (burst_to w)) = (r, ms)" by fastforce
  note d = ring_laws_deq_burst [OF assms(1) e]
  let ?sms = "zip (map sels [0..<length ms]) ms"
  have "\<forall>(sel, m)\<in>set ?sms. sock_ok sel" using assms(2) by (auto simp: set_zip)
  then obtain xs w' where x: "transfer_all (w\<lparr>ring_to := r\<rparr>) ?sms = Some w'" "map fst xs = map snd ?sms"
    "list_all2 (\<lambda>sm x. sent_as (fst sm) x) ?sms xs"
    "ring_to w' = r" "freed w' = freed w @ map snd ?sms" "sock_out w' = sock_out w @ concat (map (snd \<circ> snd) xs)"
    "select_calls w' \<le> select_calls w + 12 * length xs"
    "tr_count w' = tr_count w + word_of_nat (length xs)"
    "tr_bytes w' = tr_bytes w + (\<Sum>(m, ok, c)\<leftarrow>xs. if ok then word_of_nat (mb_len m) else 0)"
    "tr_drop_bytes w' = tr_drop_bytes w + (\<Sum>(m, ok, c)\<leftarrow>xs. if ok then 0 else word_of_nat (mb_len m))"
    using transfer_all_sent [of ?sms "w\<lparr>ring_to := r\<rparr>"] by auto
  have m: "map snd ?sms = ms" by simp
  have l: "length xs = length ms" using x(2) m by (metis length_map)
  have "\<forall>i<length ms. sent_as (sels i) (xs ! i)" using x(3) by (simp add: list_all2_conv_all_nth)
  with x d l show ?thesis unfolding m
    by (intro exI [of _ ms] exI [of _ xs] exI [of _ w']) (simp add: transfer_VirtualCycle_def e)
qed

text \<open>The witness: a connection that writes at most 16 octets at a time.\<close>

definition demo_transfer :: "mbuf list transfer_core" where
  "demo_transfer = core.extend ((demo_core 2)\<lparr>ring_to := [demo_mbuf 60 [], demo_mbuf 61 []]\<rparr>)
     \<lparr>tr_cpuid = 0, tr_count = 0, tr_bytes = 0, tr_drop_bytes = 0, sock_out = [], select_calls = 0\<rparr>"

theorem transfer_thread_accounts_for_octets_witness:
  "\<exists>w'. transfer_VirtualCycle (ref_dpdk 4) (\<lambda>_ _. Sel_Ready True (\<lambda>n. int (min 16 n))) demo_transfer = Some w' \<and>
     freed w' @ ring_to w' = [demo_mbuf 60 [], demo_mbuf 61 []]"
proof -
  have s: "sock_ok (\<lambda>_. Sel_Ready True (\<lambda>n. int (min 16 n)))" by (auto simp: sock_ok_def)
  have "ring_to demo_transfer = [demo_mbuf 60 [], demo_mbuf 61 []]" "freed demo_transfer = []"
    by (simp_all add: demo_transfer_def core.defs demo_core_def)
  with transfer_thread_accounts_for_octets [OF ref_dpdk_ring_laws s, of 4 demo_transfer] show ?thesis by auto
qed

text \<open>The rows that a counting packet stands for, and the text of a statement with given rows.\<close>

definition logged :: "log_row \<Rightarrow> bool" where
  "logged r \<longleftrightarrow> fst (snd r) \<noteq> 0 \<or> fst (snd (snd r)) \<noteq> 0"

definition item_rows :: "byte \<Rightarrow> 32 word \<times> 32 word \<times> 32 word \<times> 32 word \<Rightarrow> log_row list" where
  "item_rows ty i = (case i of (k, used, used_3g, used_low) \<Rightarrow>
     [log_row_of ty k used 0, log_row_of ty k used_3g 1, log_row_of ty k used_low 2])"

definition log_rows :: "mbuf \<Rightarrow> log_row list" where
  "log_rows m = filter logged (concat (map (item_rows (ldb m 0)) (counting_items m)))"

definition log_text :: "log_row list \<Rightarrow> string" where
  "log_text rs = (case rs of [] \<Rightarrow> [] | r # rs \<Rightarrow> fmt_row 0 r @ concat (map (fmt_row 1) rs))"

lemma log_text_snoc: "log_text (rs @ [r]) = log_text rs @ fmt_row (if rs = [] then 0 else 1) r"
  by (cases rs) (simp_all add: log_text_def)

text \<open>The state after the rows \<open>rs\<close> have been written.\<close>

definition log_state :: "('r, 'd) log_core \<Rightarrow> log_row list \<Rightarrow> 32 word \<times> string \<times> ('r, 'd) log_core" where
  "log_state w rs = (word_of_nat (length rs), log_insert @ log_text rs, w\<lparr>log_count := log_count w + word_of_nat (length rs)\<rparr>)"

lemma log_figure_state:
  assumes "length rs < 2 ^ 32"
  shows "log_figure r (log_state w rs) = log_state w (rs @ filter logged [r])"
proof -
  have "fmt_row (word_of_nat (length rs)) r = fmt_row (if rs = [] then 0 else 1) r"
  proof -
    have "unat (word_of_nat (length rs) :: 32 word) = length rs" using assms by (simp add: unat_of_nat)
    then have "(word_of_nat (length rs) :: 32 word) = 0 \<longleftrightarrow> rs = []" by (metis length_0_conv unat_0 unat_eq_zero)
    then show ?thesis by (cases r) (simp add: fmt_row_def)
  qed
  then show ?thesis
    by (simp add: log_figure_def log_state_def log_text_snoc logged_def algebra_simps)
qed

lemma log_item_state:
  assumes "length rs + 3 < 2 ^ 32"
  shows "log_item ty (log_state w rs) i = log_state w (rs @ filter logged (item_rows ty i))"
proof -
  obtain k a b c where i: "i = (k, a, b, c)" by (cases i) auto
  have n: "length (filter logged [r]) \<le> 1" for r by simp
  have l: "length rs < 2 ^ 32" "length (rs @ filter logged [r]) < 2 ^ 32"
    "length ((rs @ filter logged [r]) @ filter logged [r']) < 2 ^ 32" for r r'
    using assms n [of r] n [of r'] by (simp_all only: length_append)
  have "log_item ty (log_state w rs) i = log_state w (((rs @ filter logged [log_row_of ty k a 0]) @
      filter logged [log_row_of ty k b 1]) @ filter logged [log_row_of ty k c 2])"
    unfolding i log_item_def prod.case log_figure_state [OF l(1)] log_figure_state [OF l(2)] log_figure_state [OF l(3)] ..
  then show ?thesis by (simp add: i item_rows_def)
qed

lemma log_items_state:
  assumes "length rs + 3 * length ixs < 2 ^ 32"
  shows "foldl (log_item ty) (log_state w rs) ixs = log_state w (rs @ filter logged (concat (map (item_rows ty) ixs)))"
  using assms
proof (induction ixs arbitrary: rs)
  case Nil
  show ?case by simp
next
  case (Cons i ixs)
  have "length (filter logged (item_rows ty i)) \<le> 3"
    using length_filter_le [of logged "item_rows ty i"] by (simp add: item_rows_def split: prod.splits)
  then have "length (rs @ filter logged (item_rows ty i)) + 3 * length ixs < 2 ^ 32" using Cons.prems by simp
  with Cons show ?case by (simp add: log_item_state)
qed

lemma log_rows_length: "length (log_rows m) \<le> 3 * length (counting_items m)"
proof -
  have "length (concat (map (item_rows ty) ixs)) = 3 * length ixs" for ty ixs
    by (induction ixs) (simp_all add: item_rows_def split: prod.split)
  then show ?thesis unfolding log_rows_def by (metis length_filter_le)
qed

lemma log_count_freed: "w\<lparr>log_count := a, freed := b\<rparr> = w\<lparr>freed := b, log_count := a\<rparr>"
  by (cases w) simp

lemma log_packets_Cons:
  assumes "mb_len m = sz_counting" "foldl (log_item (ldb m 0)) s (counting_items m) = log_state w rs"
  shows "log_packets (m # ms) s = log_packets ms (log_state (free_all [m] w) rs)"
  using assms by (simp add: log_state_def free_all_def log_count_freed)

lemma log_packets_state:
  assumes "length rs + 3 * (\<Sum>m\<leftarrow>ms. length (counting_items m)) < 2 ^ 32" "\<forall>m\<in>set ms. mb_len m = sz_counting"
  shows "log_packets (ms @ ns) (log_state w rs) =
    log_packets ns (log_state (free_all ms w) (rs @ concat (map log_rows ms)))"
  using assms
proof (induction ms arbitrary: w rs)
  case Nil
  show ?case by (simp add: free_all_def)
next
  case (Cons m ms)
  have l: "length rs + 3 * length (counting_items m) < 2 ^ 32" using Cons.prems by simp
  have "length (rs @ log_rows m) + 3 * (\<Sum>m\<leftarrow>ms. length (counting_items m)) < 2 ^ 32"
    using Cons.prems(1) log_rows_length [of m] by (simp add: algebra_simps)
  moreover have "log_packets ((m # ms) @ ns) (log_state w rs) = log_packets (ms @ ns) (log_state (free_all [m] w) (rs @ log_rows m))"
    unfolding append_Cons
    by (rule log_packets_Cons) (use Cons.prems(2) log_items_state [OF l] in \<open>simp_all add: log_rows_def\<close>)
  ultimately show ?case using Cons.IH [of "rs @ log_rows m" "free_all [m] w"] Cons.prems(2) by (simp add: free_all_def)
qed

text \<open>The log thread turns a burst of counting packets into one statement: for packets of the right length it
  executes \<open>INSERT\<close> with exactly one row for every figure that is not zero, in the order of the packets, their
  items and the modes, on the S5 or the SGi side by the type of the packet, counts the rows, and frees every
  packet. If a packet has another length it stops there: only the packets before it are freed, no statement
  is executed and their rows are lost.\<close>

theorem log_thread_writes_rows:
  assumes "deq_burst D (ring_to w) (unat (burst_to w)) = (r, ms @ ns)" "ms @ ns \<noteq> []"
    "\<forall>m\<in>set ms. mb_len m = sz_counting" "ns = [] \<or> mb_len (hd ns) \<noteq> sz_counting"
    "3 * (\<Sum>m\<leftarrow>ms. length (counting_items m)) < 2 ^ 32"
  shows "let rows = concat (map log_rows ms); (d, ok) = query (db w) (log_insert @ log_text rows);
      w' = w\<lparr>ring_to := r, freed := freed w @ ms, log_count := log_count w + word_of_nat (length rows)\<rparr> in
    log_VirtualCycle D query w = (if ns = [] then (w'\<lparr>db := d\<rparr>, if ok then 0 else - 1) else (w', - 1))"
proof -
  let ?rows = "concat (map log_rows ms)"
  obtain d ok where q: "query (db w) (log_insert @ log_text ?rows) = (d, ok)" by fastforce
  have s0: "(0, log_insert, w\<lparr>ring_to := r\<rparr>) = log_state (w\<lparr>ring_to := r\<rparr>) []"
    by (simp add: log_state_def log_text_def)
  have p: "log_packets (ms @ ns) (0, log_insert, w\<lparr>ring_to := r\<rparr>) =
      log_packets ns (log_state (free_all ms (w\<lparr>ring_to := r\<rparr>)) ?rows)"
    unfolding s0 using log_packets_state [of "[]" ms ns "w\<lparr>ring_to := r\<rparr>"] assms(3,5) by simp
  let ?v = "free_all ms (w\<lparr>ring_to := r\<rparr>)"
  have e: "log_VirtualCycle D query w = (case log_packets ns (log_state ?v ?rows) of Inl w \<Rightarrow> (w, - 1)
      | Inr (_, sql, w) \<Rightarrow> (case query (db w) sql of (d, ok) \<Rightarrow> (w\<lparr>db := d\<rparr>, if ok then 0 else - 1)))"
    unfolding log_VirtualCycle_def assms(1) prod.case Let_def p using assms(2) by (simp only: if_False)
  have v: "db (snd (snd (log_state ?v ?rows))) = db w" "fst (snd (log_state ?v ?rows)) = log_insert @ log_text ?rows"
    "snd (snd (log_state ?v ?rows)) = w\<lparr>ring_to := r, freed := freed w @ ms, log_count := log_count w + word_of_nat (length ?rows)\<rparr>"
    by (simp_all add: log_state_def free_all_def)
  have "log_VirtualCycle D query w = (if ns = []
      then ((snd (snd (log_state ?v ?rows)))\<lparr>db := d\<rparr>, if ok then 0 else - 1) else (snd (snd (log_state ?v ?rows)), - 1))"
  proof (cases ns)
    case Nil
    obtain x sql u where st: "log_state ?v ?rows = (x, sql, u)" by (cases "log_state ?v ?rows")
    then have "db u = db w" "sql = log_insert @ log_text ?rows" using v(1,2) by simp_all
    with Nil q st show ?thesis by (simp add: e)
  next
    case (Cons n ns')
    then show ?thesis using assms(4) by (simp add: e)
  qed
  then show ?thesis unfolding v(3) Let_def q prod.case .
qed


text \<open>The witness: one counting packet of one item with two figures, both logged on the SGi side.\<close>

definition demo_log :: "(mbuf list, string list) log_core" where
  "demo_log = core.extend ((demo_core 2)\<lparr>ring_to := [put_item 0 (5, \<lparr>ci_key = 0, ci_used = 7, ci_used_3g = 0, ci_used_low = 9\<rparr>)
       (init_counting 0xFF (demo_mbuf 0 []))]\<rparr>) \<lparr>log_cpuid = 0, log_count = 0, db = []\<rparr>"

theorem log_thread_writes_rows_witness:
  "db (fst (log_VirtualCycle (ref_dpdk 4) (\<lambda>d s. (d @ [s], True)) demo_log)) = [log_insert @ ''(5,0,7,0),(5,0,9,2)'']"
proof -
  let ?e = "(5, \<lparr>ci_key = 0, ci_used = 7, ci_used_3g = 0, ci_used_low = 9\<rparr>) :: entry"
  let ?m = "put_item 0 ?e (init_counting 0xFF (demo_mbuf 0 []))"
  have d: "deq_burst (ref_dpdk 4) (ring_to demo_log) (unat (burst_to demo_log)) = ([], [?m] @ [])" "db demo_log = []"
    by (simp_all add: demo_log_def core.defs demo_core_def ref_dpdk_sel)
  have i: "counting_items ?m = [(5, 7, 0, 9)]"
    by (simp add: counting_items_def count_put_item item_at_put_item wire_def)
  have l: "mb_len ?m = sz_counting" by (simp add: put_item_def init_counting_def Let_def)
  have len: "ldb (m\<lparr>mb_len := n\<rparr>) k = ldb m k" for m n k by (simp add: ldb_def mtod_def)
  have t: "ldb ?m 0 = 0xFF" by (simp add: put_item_def init_counting_def Let_def ldb_stores len)
  have rows: "log_rows ?m = [(5, 0, 7, 0), (5, 0, 9, 2)]"
    by (simp add: log_rows_def i t item_rows_def log_row_of_def logged_def)
  have text_eq: "log_text [(5, 0, 7, 0), (5, 0, 9, 2)] = ''(5,0,7,0),(5,0,9,2)''"
    by code_simp
  show ?thesis
    using log_thread_writes_rows [OF d(1), of "\<lambda>d s. (d @ [s], True)"] i l
    by (simp add: rows text_eq d(2) Let_def)
qed

end
