(* ===== verification/Tap_Cores.thy ===== *)
theory Tap_Cores
  imports Packet_Def Pgw_Base
begin

text \<open>
  The cores at the tap device, the host side of the gateway: \<open>CoreTapRx\<close>
  (\<open>dataplane/src/core/core_taprx.cc\<close>) forwards what the host sends and duplicates the answers of the
  control plane to the warm-up rings of the workers; \<open>CoreTapTx\<close> (\<open>core_taptx.cc\<close>) writes packets to the
  host, up to a limit per second.

  What \<open>read\<close> returned, what \<open>write\<close> returns and the time stamp counter are arguments; \<open>alloc i\<close> is the
  \<open>i\<close>-th buffer that \<open>rte_pktmbuf_alloc\<close> returns in a cycle, \<open>None\<close> when the pool is empty.
\<close>

section \<open>Receiving from the host\<close>

abbreviation TAPDUPLICTE_MAX :: nat where "TAPDUPLICTE_MAX \<equiv> 2"
abbreviation (input) GTPC_PRIVATE_EXT_SIZE :: nat where "GTPC_PRIVATE_EXT_SIZE \<equiv> 32"
abbreviation (input) GTPC_PRIVATE_EXT_MAGIC :: "32 word" where "GTPC_PRIVATE_EXT_MAGIC \<equiv> 0xDEADBEAF"
abbreviation (input) GTPC_CREATE_SESSION_RES :: "32 word" where "GTPC_CREATE_SESSION_RES \<equiv> 33"
abbreviation (input) GTPC_MODIFY_BEARER_RES :: "32 word" where "GTPC_MODIFY_BEARER_RES \<equiv> 35"
abbreviation (input) gtpc_baselen :: nat where "gtpc_baselen \<equiv> sz_ether + sz_ipv4 + sz_udp + 12"
abbreviation (input) MAXPACKET_PER_SECOND :: "64 word" where "MAXPACKET_PER_SECOND \<equiv> 1000000"

record 'r tap_core = "'r core" +
  tap_fd :: "32 word"
  ring_tap_ingress :: "'r list"
  ring_tap_egress :: "'r list"
  cur_cycle :: "64 word"
  cur_count :: "64 word"

definition taprx_SetRingAddr :: "order \<Rightarrow> 'r \<Rightarrow> 'r tap_core \<Rightarrow> 'r tap_core option" where
  "taprx_SetRingAddr d r w =
     (if d = TO then Some (w\<lparr>ring_to := r\<rparr>)
      else if d = TO_00 then
        Some (if length (ring_tap_ingress w) < TAPDUPLICTE_MAX then w\<lparr>ring_tap_ingress := ring_tap_ingress w @ [r]\<rparr> else w)
      else if d = TO_01 then
        Some (if length (ring_tap_egress w) < TAPDUPLICTE_MAX then w\<lparr>ring_tap_egress := ring_tap_egress w @ [r]\<rparr> else w)
      else if d = FROM then Some w
      else None)"

definition taprx_BeforeCycle :: "'r tap_core \<Rightarrow> 'r tap_core option" where
  "taprx_BeforeCycle w = (if length (ring_tap_egress w) \<noteq> TAPDUPLICTE_MAX then None else Some w)"

definition taprx_GetN :: "key \<Rightarrow> 'r tap_core \<Rightarrow> 32 word" where
  "taprx_GetN k w = (if k = OPT then tap_fd w else GetN k w)"

text \<open>A buffer filled with the octets that were read.\<close>

definition tap_fill :: "'r dpdk \<Rightarrow> byte list \<Rightarrow> nat \<Rightarrow> mbuf \<Rightarrow> mbuf" where
  "tap_fill D rbf n m = (stbytes 0 (take n rbf) m)\<lparr>mb_len := n, mb_ptype := L3_IPV4 D OR L4_UDP D\<rparr>"

text \<open>The test for an answer that carries the values of a tunnel in its last 32 octets.\<close>

definition warmup_packet :: "'r dpdk \<Rightarrow> mbuf \<Rightarrow> nat \<Rightarrow> bool" where
  "warmup_packet D m n \<longleftrightarrow>
     (is_gtpc D m = GTPC_CREATE_SESSION_RES \<or> is_gtpc D m = GTPC_MODIFY_BEARER_RES) \<and>
     n > GTPC_PRIVATE_EXT_SIZE + gtpc_baselen \<and>
     (let p = n - GTPC_PRIVATE_EXT_SIZE in
      unat (bswap16 (ldh m (p + 1))) = GTPC_PRIVATE_EXT_SIZE - 4 \<and> ldw m (p + 8) = GTPC_PRIVATE_EXT_MAGIC \<and>
      ldh m (p + 4) = 0)"

text \<open>
  One copy for each ring of a list; \<open>k\<close> counts the allocations. The code writes through the buffer before
  it tests it, so an empty pool has no result.
\<close>

fun duplicate :: "'r dpdk \<Rightarrow> (nat \<Rightarrow> mbuf option) \<Rightarrow> byte list \<Rightarrow> nat \<Rightarrow> nat \<Rightarrow> 'r list \<Rightarrow> ('r list \<times> mbuf list \<times> nat) option" where
  "duplicate D alloc rbf n k [] = Some ([], [], k)"
| "duplicate D alloc rbf n k (r # rs) =
     (case alloc k of
        None \<Rightarrow> None
      | Some b \<Rightarrow>
          let mi = tap_fill D rbf n b; (r', ok) = enq_one D r mi in
          case duplicate D alloc rbf n (k + 1) rs of
            None \<Rightarrow> None
          | Some (rs', fs, k') \<Rightarrow> Some (r' # rs', if ok then fs else mi # fs, k'))"

text \<open>\<open>CoreTapRx::Cycle\<close> on what \<open>read\<close> returned (\<open>[]\<close> for nothing); the integer is the return code.\<close>

definition taprx_Cycle :: "'r dpdk \<Rightarrow> (nat \<Rightarrow> mbuf option) \<Rightarrow> byte list \<Rightarrow> 'r tap_core \<Rightarrow> ('r tap_core \<times> int) option" where
  "taprx_Cycle D alloc rbf w =
     (if rbf = [] then Some (w, - 1)
      else case alloc 0 of
        None \<Rightarrow> None
      | Some b \<Rightarrow>
          let n = length rbf; m = tap_fill D rbf n b in
          case (if warmup_packet D m n then
                  (case duplicate D alloc rbf n 1 (ring_tap_egress w) of
                     None \<Rightarrow> None
                   | Some (eg, fs, k) \<Rightarrow>
                      (case duplicate D alloc rbf n k (ring_tap_ingress w) of
                         None \<Rightarrow> None
                       | Some (ing, fs', _) \<Rightarrow>
                           Some (free_all (fs @ fs') (w\<lparr>ring_tap_egress := eg, ring_tap_ingress := ing\<rparr>))))
                else Some w) of
            None \<Rightarrow> None
          | Some w \<Rightarrow>
             (case enq_one D (ring_to w) m of (r, ok) \<Rightarrow>
                if ok then Some (w\<lparr>ring_to := r\<rparr>, 0) else Some (free_all [m] (w\<lparr>ring_to := r\<rparr>), - 1)))"

section \<open>Sending to the host\<close>

definition taptx_SetRingAddr :: "order \<Rightarrow> 'r \<Rightarrow> 'r tap_core \<Rightarrow> 'r tap_core option" where
  "taptx_SetRingAddr d r w =
     (if d = TO then Some (w\<lparr>ring_to := r\<rparr>)
      else if d = FROM_00 then
        Some (if length (ring_tap_ingress w) < TAPDUPLICTE_MAX then w\<lparr>ring_tap_ingress := ring_tap_ingress w @ [r]\<rparr> else w)
      else if d = TO_00 then
        Some (if length (ring_tap_egress w) < TAPDUPLICTE_MAX then w\<lparr>ring_tap_egress := ring_tap_egress w @ [r]\<rparr> else w)
      else None)"

definition count_transfer :: "64 word \<Rightarrow> ('r, 'z) core_scheme \<Rightarrow> ('r, 'z) core_scheme" where
  "count_transfer n w = w\<lparr>counter := Inc 0 0 n 1 (counter w)\<rparr>"

text \<open>\<open>wr m\<close> is what \<open>write\<close> returns for a packet.\<close>

definition taptx_write :: "(mbuf \<Rightarrow> int) \<Rightarrow> 'r tap_core \<Rightarrow> mbuf \<Rightarrow> 'r tap_core" where
  "taptx_write wr w m =
     (let ret = wr m;
          w = (if ret > 0 then (count_transfer (word_of_int ret) w)\<lparr>cur_count := cur_count w + 1\<rparr>
               else if ret < 0 then count_drop (word_of_nat (mb_len m)) 1 w
               else w)
      in free_all [m] w)"

definition taptx_ring :: "'r dpdk \<Rightarrow> (mbuf \<Rightarrow> int) \<Rightarrow> 'r tap_core \<Rightarrow> nat \<Rightarrow> 'r tap_core" where
  "taptx_ring D wr w k =
     (case deq_burst D (ring_tap_ingress w ! k) (unat (burst_fm w)) of (r, ms) \<Rightarrow>
        let w = w\<lparr>ring_tap_ingress := (ring_tap_ingress w)[k := r]\<rparr> in
        if cur_count w > MAXPACKET_PER_SECOND then free_all ms w else foldl (taptx_write wr) w ms)"

definition taptx_Cycle :: "'r dpdk \<Rightarrow> (mbuf \<Rightarrow> int) \<Rightarrow> 64 word \<Rightarrow> 64 word \<Rightarrow> 'r tap_core \<Rightarrow> 'r tap_core" where
  "taptx_Cycle D wr tsc_hz tsc w =
     (let drain_tsc = (tsc_hz + 1000000 - 1) div 1000000 * 1000000;
          w = foldl (taptx_ring D wr) w [0..<length (ring_tap_ingress w)]
      in if cur_cycle w + drain_tsc < tsc then w\<lparr>cur_count := 0, cur_cycle := tsc\<rparr> else w)"

section \<open>Lemmas\<close>

lemma pkt_bytes_tap_fill: "pkt_bytes (tap_fill D rbf (length rbf) b) = rbf"
  by (rule nth_equalityI) (simp_all add: tap_fill_def pkt_bytes_def stbytes_def mtod_def nth_rd_bytes wr_bytes_in)

text \<open>What duplication does to one ring: a copy is queued if the ring takes it, and freed if not.\<close>

definition got_copy :: "'r dpdk \<Rightarrow> ('r \<Rightarrow> mbuf list) \<Rightarrow> byte list \<Rightarrow> mbuf list \<Rightarrow> 'r \<Rightarrow> 'r \<Rightarrow> bool" where
  "got_copy D items rbf fs r r' \<longleftrightarrow>
     (\<exists>mi. pkt_bytes mi = rbf \<and>
        (if snd (enq_one D r mi) then items r' = items r @ [mi] else r' = r \<and> mi \<in> set fs))"

lemma got_copy_mono: "got_copy D items rbf fs r r' \<Longrightarrow> set fs \<subseteq> set fs' \<Longrightarrow> got_copy D items rbf fs' r r'"
  unfolding got_copy_def by (metis subsetD)

lemma duplicate_copies:
  assumes "ring_laws D items" "\<And>i. alloc i \<noteq> None"
  shows "\<exists>rs' fs k'. duplicate D alloc rbf (length rbf) k rs = Some (rs', fs, k') \<and>
    list_all2 (got_copy D items rbf fs) rs rs' \<and> (\<forall>f\<in>set fs. pkt_bytes f = rbf)"
proof (induction rs arbitrary: k)
  case Nil
  show ?case by simp
next
  case (Cons r rs)
  obtain b where b: "alloc k = Some b" using assms(2) [of k] by auto
  let ?mi = "tap_fill D rbf (length rbf) b"
  obtain r' ok where e: "enq_one D r ?mi = (r', ok)" by fastforce
  obtain rs' fs k' where d: "duplicate D alloc rbf (length rbf) (k + 1) rs = Some (rs', fs, k')"
    "list_all2 (got_copy D items rbf fs) rs rs'" "\<forall>f\<in>set fs. pkt_bytes f = rbf"
    using Cons.IH by blast
  let ?fs = "if ok then fs else ?mi # fs"
  consider (queued) "ok" "items r' = items r @ [?mi]" | (full) "\<not> ok" "r' = r"
    by (rule ring_laws_enq_one [OF assms(1) e])
  then have "got_copy D items rbf ?fs r r'"
    by cases (auto simp: got_copy_def e intro!: exI [of _ ?mi] pkt_bytes_tap_fill)
  moreover have "list_all2 (got_copy D items rbf ?fs) rs rs'"
    using d(2) by (rule list_all2_mono) (auto elim: got_copy_mono)
  ultimately show ?case
    using b e d(1,3) by (simp add: Let_def pkt_bytes_tap_fill)
qed

text \<open>The limit of packets per second, as an invariant.\<close>

definition tap_limit :: "'r tap_core \<Rightarrow> bool" where
  "tap_limit w \<longleftrightarrow> unat (cur_count w) \<le> 1000000 + unat (burst_fm w)"

lemma taptx_write_laws:
  "freed (taptx_write wr w m) = freed w @ [m]" "burst_fm (taptx_write wr w m) = burst_fm w"
  "ring_tap_ingress (taptx_write wr w m) = ring_tap_ingress w"
  "cur_count (taptx_write wr w m) = cur_count w \<or> cur_count (taptx_write wr w m) = cur_count w + 1"
  by (simp_all add: taptx_write_def Let_def free_all_def count_transfer_def count_drop_def)

lemma taptx_writes_laws:
  "freed (foldl (taptx_write wr) w ms) = freed w @ ms \<and> burst_fm (foldl (taptx_write wr) w ms) = burst_fm w \<and>
   ring_tap_ingress (foldl (taptx_write wr) w ms) = ring_tap_ingress w \<and>
   unat (cur_count (foldl (taptx_write wr) w ms)) \<le> unat (cur_count w) + length ms"
proof (induction ms rule: rev_induct)
  case Nil
  show ?case by simp
next
  case (snoc m ms)
  have inc: "unat (x + 1 :: 64 word) \<le> unat x + 1" for x
    by (metis unat_plus_simple le_add2 nle_le unat_1 unat_word_ariths(1) mod_less_eq_dividend)
  from snoc taptx_write_laws [of wr "foldl (taptx_write wr) w ms" m] inc [of "cur_count (foldl (taptx_write wr) w ms)"]
  show ?case by auto
qed

lemma taptx_ring_laws:
  assumes "ring_laws D items" "k < length (ring_tap_ingress w)" "tap_limit w"
  obtains ms where "freed (taptx_ring D wr w k) = freed w @ ms" "tap_limit (taptx_ring D wr w k)"
    "items (ring_tap_ingress w ! k) = ms @ items (ring_tap_ingress (taptx_ring D wr w k) ! k)"
    "\<And>j. j \<noteq> k \<Longrightarrow> ring_tap_ingress (taptx_ring D wr w k) ! j = ring_tap_ingress w ! j"
    "length (ring_tap_ingress (taptx_ring D wr w k)) = length (ring_tap_ingress w)" "burst_fm (taptx_ring D wr w k) = burst_fm w"
proof -
  obtain r ms where e: "deq_burst D (ring_tap_ingress w ! k) (unat (burst_fm w)) = (r, ms)" by fastforce
  note d = ring_laws_deq_burst [OF assms(1) e]
  define v where "v = w\<lparr>ring_tap_ingress := (ring_tap_ingress w)[k := r]\<rparr>"
  have f: "freed v = freed w" "burst_fm v = burst_fm w" "cur_count v = cur_count w"
    "ring_tap_ingress v = (ring_tap_ingress w)[k := r]" by (simp_all add: v_def)
  have t: "taptx_ring D wr w k = (if cur_count v > MAXPACKET_PER_SECOND then free_all ms v else foldl (taptx_write wr) v ms)"
    by (simp add: taptx_ring_def e v_def)
  note l = taptx_writes_laws [of wr v ms]
  show thesis
  proof (cases "cur_count v > MAXPACKET_PER_SECOND")
    case True
    then show thesis using assms(2,3) d f by (intro that [of ms]) (simp_all add: t free_all_def tap_limit_def)
  next
    case False
    then have "unat (cur_count v) \<le> 1000000" by (simp add: not_less word_le_nat_alt)
    with l d(2) f have "tap_limit (foldl (taptx_write wr) v ms)" by (simp add: tap_limit_def)
    then show thesis using False assms(2) d(1) f l by (intro that [of ms]) (simp_all add: t)
  qed
qed

lemma taptx_rings_laws:
  assumes "ring_laws D items" "tap_limit w" "n \<le> length (ring_tap_ingress w)"
  shows "\<exists>ds. let w' = foldl (taptx_ring D wr) w [0..<n] in freed w' = freed w @ concat (map ds [0..<n]) \<and> tap_limit w' \<and>
    length (ring_tap_ingress w') = length (ring_tap_ingress w) \<and> burst_fm w' = burst_fm w \<and>
    (\<forall>k<n. items (ring_tap_ingress w ! k) = ds k @ items (ring_tap_ingress w' ! k)) \<and>
    (\<forall>k\<ge>n. ring_tap_ingress w' ! k = ring_tap_ingress w ! k)"
  using assms(3)
proof (induction n)
  case 0
  show ?case using assms(2) by simp
next
  case (Suc n)
  define v where "v = foldl (taptx_ring D wr) w [0..<n]"
  obtain ds where v: "freed v = freed w @ concat (map ds [0..<n])" "tap_limit v"
    "length (ring_tap_ingress v) = length (ring_tap_ingress w)" "burst_fm v = burst_fm w"
    "\<forall>k<n. items (ring_tap_ingress w ! k) = ds k @ items (ring_tap_ingress v ! k)"
    "\<forall>k\<ge>n. ring_tap_ingress v ! k = ring_tap_ingress w ! k"
    using Suc by (auto simp: Let_def v_def)
  have n: "n < length (ring_tap_ingress v)" using v(3) Suc.prems by simp
  obtain ms where m: "freed (taptx_ring D wr v n) = freed v @ ms" "tap_limit (taptx_ring D wr v n)"
    "items (ring_tap_ingress v ! n) = ms @ items (ring_tap_ingress (taptx_ring D wr v n) ! n)"
    "\<And>j. j \<noteq> n \<Longrightarrow> ring_tap_ingress (taptx_ring D wr v n) ! j = ring_tap_ingress v ! j"
    "length (ring_tap_ingress (taptx_ring D wr v n)) = length (ring_tap_ingress v)" "burst_fm (taptx_ring D wr v n) = burst_fm v"
    by (rule taptx_ring_laws [OF assms(1) n v(2)], rule that)
  have eq: "map (ds(n := ms)) [0..<n] = map ds [0..<n]" by (rule map_cong) simp_all
  have f: "foldl (taptx_ring D wr) w [0..<Suc n] = taptx_ring D wr v n" by (simp add: v_def)
  show ?case
    unfolding f Let_def using v m eq by (intro exI [of _ "ds(n := ms)"]) (auto simp: less_Suc_eq)
qed

lemma taprx_dup:
  assumes "ring_laws D items" "\<And>i. alloc i \<noteq> None" "rbf \<noteq> []" "alloc 0 = Some b"
  shows "let m = tap_fill D rbf (length rbf) b in
    \<exists>w' ret. taprx_Cycle D alloc rbf w = Some (w', ret) \<and> pkt_bytes m = rbf \<and>
      (ret = 0 \<and> items (ring_to w') = items (ring_to w) @ [m] \<or> ret = - 1 \<and> ring_to w' = ring_to w \<and> m \<in> set (freed w')) \<and>
      (if warmup_packet D m (length rbf)
       then list_all2 (got_copy D items rbf (freed w')) (ring_tap_egress w) (ring_tap_egress w') \<and>
         list_all2 (got_copy D items rbf (freed w')) (ring_tap_ingress w) (ring_tap_ingress w')
       else ring_tap_egress w' = ring_tap_egress w \<and> ring_tap_ingress w' = ring_tap_ingress w)"
proof -
  define m where "m = tap_fill D rbf (length rbf) b"
  obtain eg fs k where eg: "duplicate D alloc rbf (length rbf) 1 (ring_tap_egress w) = Some (eg, fs, k)"
    "list_all2 (got_copy D items rbf fs) (ring_tap_egress w) eg"
    using duplicate_copies [where alloc = alloc and k = 1 and rs = "ring_tap_egress w" and rbf = rbf, OF assms(1,2)]
    by (elim exE conjE, intro that)
  obtain ing fs' k' where ing: "duplicate D alloc rbf (length rbf) k (ring_tap_ingress w) = Some (ing, fs', k')"
    "list_all2 (got_copy D items rbf fs') (ring_tap_ingress w) ing"
    using duplicate_copies [where alloc = alloc and k = k and rs = "ring_tap_ingress w" and rbf = rbf, OF assms(1,2)]
    by (elim exE conjE, intro that)
  define v where "v = (if warmup_packet D m (length rbf)
    then free_all (fs @ fs') (w\<lparr>ring_tap_egress := eg, ring_tap_ingress := ing\<rparr>) else w)"
  have rv: "ring_to v = ring_to w" by (simp add: v_def free_all_def)
  obtain r ok where e: "enq_one D (ring_to w) m = (r, ok)" by fastforce
  define w' where "w' = (if ok then v\<lparr>ring_to := r\<rparr> else free_all [m] (v\<lparr>ring_to := r\<rparr>))"
  have c: "taprx_Cycle D alloc rbf w = Some (w', if ok then 0 else - 1)"
  proof -
    have "(if warmup_packet D m (length rbf) then
        (case duplicate D alloc rbf (length rbf) 1 (ring_tap_egress w) of None \<Rightarrow> None
         | Some (eg, fs, k) \<Rightarrow> (case duplicate D alloc rbf (length rbf) k (ring_tap_ingress w) of None \<Rightarrow> None
             | Some (ing, fs', _) \<Rightarrow> Some (free_all (fs @ fs') (w\<lparr>ring_tap_egress := eg, ring_tap_ingress := ing\<rparr>))))
        else Some w) = Some v"
      by (simp only: eg(1) ing(1) option.case prod.case v_def if_distrib [where f = Some])
    then show ?thesis
      using assms(3) unfolding taprx_Cycle_def assms(4) option.case Let_def m_def [symmetric]
      by (simp only: if_False option.case rv e prod.case w'_def if_distrib [where f = Some] if_distrib [where f = "\<lambda>x. (x, _)"]) simp
  qed
  have fr: "set (freed v) \<subseteq> set (freed w')" "ring_tap_egress w' = ring_tap_egress v" "ring_tap_ingress w' = ring_tap_ingress v"
    by (auto simp: w'_def free_all_def)
  consider (queued) "ok" "items r = items (ring_to w) @ [m]" | (full) "\<not> ok" "r = ring_to w"
    by (rule ring_laws_enq_one [OF assms(1) e])
  then have out: "(if ok then 0 else - 1) = (0 :: int) \<and> items (ring_to w') = items (ring_to w) @ [m] \<or>
      (if ok then 0 else - 1) = (- 1 :: int) \<and> ring_to w' = ring_to w \<and> m \<in> set (freed w')"
    by cases (simp_all add: w'_def free_all_def)
  have dup: "if warmup_packet D m (length rbf)
     then list_all2 (got_copy D items rbf (freed w')) (ring_tap_egress w) (ring_tap_egress w') \<and>
       list_all2 (got_copy D items rbf (freed w')) (ring_tap_ingress w) (ring_tap_ingress w')
     else ring_tap_egress w' = ring_tap_egress w \<and> ring_tap_ingress w' = ring_tap_ingress w"
  proof (cases "warmup_packet D m (length rbf)")
    case True
    then have "set (fs @ fs') \<subseteq> set (freed w')" using fr(1) by (auto simp: v_def free_all_def)
    then have m: "got_copy D items rbf fs x y \<Longrightarrow> got_copy D items rbf (freed w') x y"
      "got_copy D items rbf fs' x y \<Longrightarrow> got_copy D items rbf (freed w') x y" for x y
      by (auto elim: got_copy_mono)
    have "ring_tap_egress v = eg" "ring_tap_ingress v = ing" using True by (simp_all add: v_def free_all_def)
    then show ?thesis
      using True list_all2_mono [OF eg(2) m(1)] list_all2_mono [OF ing(2) m(2)] by (simp only: fr if_True)
  next
    case False
    then show ?thesis unfolding fr by (simp add: v_def)
  qed
  have pm: "pkt_bytes m = rbf" by (simp add: m_def pkt_bytes_tap_fill)
  show ?thesis
    unfolding Let_def m_def [symmetric]
    by (rule exI [of _ w'], rule exI [of _ "if ok then 0 else - 1"]) (intro conjI c pm out dup)
qed

section \<open>Properties\<close>

text \<open>What the host sends is forwarded and, if it is an answer of the control plane that carries a tunnel, duplicated:
  as long as buffers can be allocated the cycle returns; the packet is queued octet for octet on the
  output ring, or freed when the ring is full, which the return code tells; every warm-up ring of the ingress and egress
  workers that takes it gets one identical copy, and the copy is freed if the ring is full; any other packet leaves those rings alone.\<close>

theorem taprx_forwards_and_duplicates:
  assumes "ring_laws D items" "\<And>i. alloc i \<noteq> None" "rbf \<noteq> []" "alloc 0 = Some b"
  shows "let m = tap_fill D rbf (length rbf) b in
    \<exists>w' ret. taprx_Cycle D alloc rbf w = Some (w', ret) \<and> pkt_bytes m = rbf \<and>
      (ret = 0 \<and> items (ring_to w') = items (ring_to w) @ [m] \<or> ret = - 1 \<and> ring_to w' = ring_to w \<and> m \<in> set (freed w')) \<and>
      (if warmup_packet D m (length rbf)
       then list_all2 (got_copy D items rbf (freed w')) (ring_tap_egress w) (ring_tap_egress w') \<and>
         list_all2 (got_copy D items rbf (freed w')) (ring_tap_ingress w) (ring_tap_ingress w')
       else ring_tap_egress w' = ring_tap_egress w \<and> ring_tap_ingress w' = ring_tap_ingress w)"
  by (rule taprx_dup [where alloc = alloc and rbf = rbf and b = b and w = w, OF assms(1,2,3,4)])

definition demo_tap :: "mbuf list tap_core" where
  "demo_tap = core.extend (demo_core 2) \<lparr>tap_fd = 3, ring_tap_ingress = [[demo_mbuf 60 []]], ring_tap_egress = [],
     cur_cycle = 0, cur_count = 0\<rparr>"

theorem taprx_forwards_and_duplicates_witness:
  "\<exists>w' ret. taprx_Cycle (ref_dpdk 4) (\<lambda>_. Some (demo_mbuf 0 [])) [1, 2, 3] demo_tap = Some (w', ret) \<and>
     (ret = 0 \<and> map pkt_bytes (ring_to w') = [[1, 2, 3]] \<or> ret = - 1)"
proof -
  have a: "Some (demo_mbuf 0 []) \<noteq> None" "[1, 2, 3 :: byte] \<noteq> []" by simp_all
  have r: "ring_to demo_tap = []" by (simp add: demo_tap_def core.defs demo_core_def)
  show ?thesis
    using taprx_forwards_and_duplicates [where D = "ref_dpdk 4" and alloc = "\<lambda>_. Some (demo_mbuf 0 [])" and w = demo_tap,
        OF ref_dpdk_ring_laws a refl] pkt_bytes_tap_fill [of "ref_dpdk 4" "[1, 2, 3]" "demo_mbuf 0 []"]
    by (auto simp: Let_def r)
qed

text \<open>Towards the host every packet taken from a ring is freed exactly once, in order, whether it was written, refused
  or over the limit; and since the count of packets was last reset, at most one million and one burst have been
  written, whatever the write calls return.\<close>

theorem taptx_frees_all_and_keeps_limit:
  assumes "ring_laws D items" "tap_limit w"
  shows "\<exists>ds. let w' = taptx_Cycle D wr hz tsc w in tap_limit w' \<and>
    freed w' = freed w @ concat (map ds [0..<length (ring_tap_ingress w)]) \<and>
    (\<forall>k<length (ring_tap_ingress w). items (ring_tap_ingress w ! k) = ds k @ items (ring_tap_ingress w' ! k))"
proof -
  define v where "v = foldl (taptx_ring D wr) w [0..<length (ring_tap_ingress w)]"
  obtain ds where v: "freed v = freed w @ concat (map ds [0..<length (ring_tap_ingress w)])" "tap_limit v"
    "\<forall>k<length (ring_tap_ingress w). items (ring_tap_ingress w ! k) = ds k @ items (ring_tap_ingress v ! k)"
    using taptx_rings_laws [OF assms(1,2), of "length (ring_tap_ingress w)" wr] by (auto simp: Let_def v_def)
  have "taptx_Cycle D wr hz tsc w = v \<or> taptx_Cycle D wr hz tsc w = v\<lparr>cur_count := 0, cur_cycle := tsc\<rparr>"
    by (simp add: taptx_Cycle_def Let_def flip: v_def)
  with v show ?thesis by (intro exI [of _ ds]) (auto simp: Let_def tap_limit_def)
qed

theorem taptx_frees_all_and_keeps_limit_witness:
  "tap_limit (taptx_Cycle (ref_dpdk 4) (\<lambda>_. 60) 1000 2000 demo_tap)"
proof -
  have "tap_limit demo_tap" by (simp add: tap_limit_def demo_tap_def core.defs)
  from taptx_frees_all_and_keeps_limit [OF ref_dpdk_ring_laws this] show ?thesis by (auto simp: Let_def)
qed

end
