(* ===== verification/Gtpc_Packet.thy ===== *)
theory Gtpc_Packet
  imports Pgw_Prelude
begin

text \<open>
  GTP-C packets of the control plane (\<open>ctrlplane/src/pkt/gtp_alloc_packet.c\<close>, \<open>gtpc_item_func.c\<close>,
  \<open>gtpc_validate_header.c\<close>, \<open>gtpc_header.c\<close>): allocation, appending of items, parsing of a payload into
  items, iteration over them. The buffer of a packet and a received payload are memories, so that
  what lies behind their ends is some octet and never an error of the logic. \<open>malloc\<close> answers for its
  calls one by one: call 0 is the packet itself, call \<open>k + 1\<close> the list cell of item \<open>k\<close>.
\<close>

section \<open>Data\<close>

abbreviation ETHER_MAX_LEN :: nat where "ETHER_MAX_LEN \<equiv> 1514"
abbreviation GTPC_ECHO_REQ :: byte where "GTPC_ECHO_REQ \<equiv> 1"
abbreviation GTPC_ECHO_RES :: byte where "GTPC_ECHO_RES \<equiv> 2"
abbreviation GTPC_CAPABILITY_ITEM_COUNT :: nat where "GTPC_CAPABILITY_ITEM_COUNT \<equiv> 255"

text \<open>\<open>gtp_item_t\<close> and \<open>gtp_packet_t\<close>. An address with its length is the list of its octets.\<close>

record gtp_item =
  i_type :: "16 word"
  i_length :: "16 word"
  i_offset :: "16 word"

record gtp_packet =
  g_items :: "gtp_item list"
  g_count :: "16 word"
  g_length :: "16 word"
  g_offset :: "16 word"
  g_packet :: mem
  g_saddr :: "byte list"
  g_caddr :: "byte list"

text \<open>\<open>packet_t\<close>: what is exchanged with the socket threads.\<close>

record packet =
  p_data :: mem
  p_datalen :: "32 word"
  p_saddr :: "byte list"
  p_caddr :: "byte list"

text \<open>Fields in network order.\<close>

definition ldn16 :: "mem \<Rightarrow> nat \<Rightarrow> 16 word" where
  "ldn16 m a = bswap16 (ld16 m a)"

definition stn16 :: "mem \<Rightarrow> nat \<Rightarrow> 16 word \<Rightarrow> mem" where
  "stn16 m a v = st16 m a (bswap16 v)"

section \<open>Header\<close>

definition gtpc_type_headerlen :: "byte \<Rightarrow> nat" where
  "gtpc_type_headerlen ty = (if ty = GTPC_ECHO_REQ \<or> ty = GTPC_ECHO_RES then 12 - 4 else 12)"

definition gtpc_type_issupported :: "byte \<Rightarrow> bool" where
  "gtpc_type_issupported ty \<longleftrightarrow> ty \<in> set [1, 2, 3, 32, 33, 34, 35, 36, 37, 99, 100, 162, 164]"

text \<open>The version is in the three highest bits of the flags, the piggyback flag in bit 4.\<close>

definition gtpc_validate_header :: "mem \<Rightarrow> bool" where
  "gtpc_validate_header m =
     (if unat (ldn16 m 2) < 4 then False
      else let version = drop_bit 5 (m 0) in
      if version = 2 \<and> bit (m 0) 4 then False
      else if version = 1 then True
      else if \<not> gtpc_type_issupported (m 1) then False
      else gtpc_type_headerlen (m 1) \<le> 12)"

definition gtpc_validate_gtp_packet :: "gtp_packet \<Rightarrow> bool" where
  "gtpc_validate_gtp_packet p = gtpc_validate_header (g_packet p)"

section \<open>Allocation\<close>

definition gtpc_alloc_packet :: "(nat \<Rightarrow> bool) \<Rightarrow> mem \<Rightarrow> byte \<Rightarrow> gtp_packet option" where
  "gtpc_alloc_packet malloc junk ty =
     (if \<not> malloc 0 then None
      else let z = (\<lambda>i. if i < ETHER_MAX_LEN then 0 else junk i);
        (off, len, flags) = (if ty = GTPC_ECHO_REQ \<or> ty = GTPC_ECHO_RES then (12 - 4, 4, 0x40) else (12, 8, 0x48)) in
      Some \<lparr>g_items = [], g_count = 0, g_length = of_nat ETHER_MAX_LEN, g_offset = off,
        g_packet = (stn16 z 2 len)(0 := flags, 1 := ty), g_saddr = [], g_caddr = []\<rparr>)"

text \<open>Version 1: sequence number flag and protocol type set (\<open>0x32\<close>).\<close>

definition gtpc_v1_alloc_packet :: "(nat \<Rightarrow> bool) \<Rightarrow> mem \<Rightarrow> byte \<Rightarrow> gtp_packet option" where
  "gtpc_v1_alloc_packet malloc junk ty =
     (if \<not> malloc 0 then None
      else let z = (\<lambda>i. if i < ETHER_MAX_LEN then 0 else junk i) in
      Some \<lparr>g_items = [], g_count = 0, g_length = of_nat ETHER_MAX_LEN, g_offset = 8,
        g_packet = (stn16 z 2 0)(0 := 0x32, 1 := ty), g_saddr = [], g_caddr = []\<rparr>)"

text \<open>Appending: the two versions have the length field at the same place.\<close>

definition gtpc_append_item :: "(nat \<Rightarrow> bool) \<Rightarrow> byte \<Rightarrow> byte list \<Rightarrow> gtp_packet \<Rightarrow> gtp_packet option" where
  "gtpc_append_item malloc ty data p =
     (if data = [] then None
      else if unat (g_offset p) + length data \<ge> unat (g_length p) then None
      else if \<not> malloc (Suc (length (g_items p))) then None
      else let len = word_of_nat (length data); m = wr_bytes (g_packet p) (unat (g_offset p)) data in
      Some (p\<lparr>g_items := g_items p @ [\<lparr>i_type = ucast ty, i_length = len, i_offset = g_offset p\<rparr>],
              g_count := g_count p + 1, g_offset := g_offset p + len,
              g_packet := stn16 m 2 (ldn16 m 2 + len)\<rparr>))"

definition gtpc_v1_append_item :: "(nat \<Rightarrow> bool) \<Rightarrow> byte \<Rightarrow> byte list \<Rightarrow> gtp_packet \<Rightarrow> gtp_packet option" where
  "gtpc_v1_append_item malloc ty data p =
     (if data = [] then None
      else if unat (g_offset p) + length data \<ge> unat (g_length p) then None
      else if \<not> malloc (Suc (length (g_items p))) then None
      else let len = word_of_nat (length data); m = wr_bytes (g_packet p) (unat (g_offset p)) data in
      Some (p\<lparr>g_items := g_items p @ [\<lparr>i_type = ucast ty, i_length = len, i_offset = g_offset p\<rparr>],
              g_count := g_count p + 1, g_offset := g_offset p + len,
              g_packet := stn16 m 2 (ldn16 m 2 + len)\<rparr>))"

section \<open>Parsing\<close>

text \<open>
  \<open>gtpc_alloc_packet_from_payload\<close> returns the packet, or \<open>ERR\<close> with nothing allocated (\<open>None\<close>) or with
  a packet that nobody frees any more (\<open>Some\<close>).
\<close>

datatype from_payload = Accepted gtp_packet | Rejected "gtp_packet option"

text \<open>The loop: \<open>n\<close> rounds are left.\<close>

fun parse_items :: "(nat \<Rightarrow> bool) \<Rightarrow> mem \<Rightarrow> 16 word \<Rightarrow> nat \<Rightarrow> 16 word \<Rightarrow> gtp_packet \<Rightarrow> from_payload" where
  "parse_items malloc payload len 0 off p = Rejected None"
| "parse_items malloc payload len (Suc n) off p =
     (if off < len then
        let hlen = ldn16 payload (unat off + 1) + 4 in
        (case gtpc_append_item malloc (payload (unat off)) (rd_bytes payload (unat off) (unat hlen)) p of
           None \<Rightarrow> Rejected None
         | Some p' \<Rightarrow>
             let off' = off + hlen in
             if off' > len then Rejected (Some p')
             else if off' = len then Accepted p'
             else parse_items malloc payload len n off' p')
      else Rejected None)"

definition gtpc_alloc_packet_from_payload :: "(nat \<Rightarrow> bool) \<Rightarrow> mem \<Rightarrow> mem \<Rightarrow> 16 word \<Rightarrow> from_payload" where
  "gtpc_alloc_packet_from_payload malloc junk payload len =
     (if len = 0 then Rejected None
      else if \<not> gtpc_validate_header payload then Rejected None
      else if unat (ldn16 payload 2) + 4 \<noteq> unat len then Rejected None
      else let off = gtpc_type_headerlen (payload 1) in
      if off > unat len then Rejected None
      else case gtpc_alloc_packet malloc junk (payload 1) of
        None \<Rightarrow> Rejected None
      | Some p \<Rightarrow> if off = unat len then Accepted p
          else parse_items malloc payload len GTPC_CAPABILITY_ITEM_COUNT (word_of_nat off) p)"

text \<open>Iteration with a callback on type, memory, address and length, which may stop it.\<close>

fun iterate_items :: "mem \<Rightarrow> (byte \<Rightarrow> mem \<Rightarrow> nat \<Rightarrow> 16 word \<Rightarrow> 's \<Rightarrow> 's \<times> bool) \<Rightarrow> gtp_item list \<Rightarrow> 's \<Rightarrow> 's \<times> bool" where
  "iterate_items m cb [] s = (s, True)"
| "iterate_items m cb (i # xs) s =
     (case cb (ucast (i_type i)) m (unat (i_offset i)) (i_length i) s of
        (s', ok) \<Rightarrow> if ok then iterate_items m cb xs s' else (s', False))"

definition gtpc_iterate_item :: "gtp_packet \<Rightarrow> (byte \<Rightarrow> mem \<Rightarrow> nat \<Rightarrow> 16 word \<Rightarrow> 's \<Rightarrow> 's \<times> bool) \<Rightarrow> 's \<Rightarrow> 's \<times> bool" where
  "gtpc_iterate_item p cb s = iterate_items (g_packet p) cb (g_items p) s"

text \<open>Conversion to a packet for the socket thread; the allocation may fail.\<close>

definition gtpc_convert_to_packet :: "bool \<Rightarrow> mem \<Rightarrow> gtp_packet \<Rightarrow> packet option" where
  "gtpc_convert_to_packet ok junk p =
     (if \<not> ok then None
      else Some \<lparr>p_data = (\<lambda>i. if i < unat (g_offset p) then g_packet p i else junk i), p_datalen = ucast (g_offset p),
                p_saddr = g_saddr p, p_caddr = g_caddr p\<rparr>)"

section \<open>The packet as a list of items\<close>

text \<open>Every octet behind the header belongs to exactly one item, and the counters agree.\<close>

fun tiled :: "nat \<Rightarrow> gtp_item list \<Rightarrow> nat \<Rightarrow> bool" where
  "tiled a [] e \<longleftrightarrow> a = e"
| "tiled a (i # xs) e \<longleftrightarrow> unat (i_offset i) = a \<and> 0 < unat (i_length i) \<and> tiled (a + unat (i_length i)) xs e"

definition gtp_wf :: "gtp_packet \<Rightarrow> bool" where
  "gtp_wf p \<longleftrightarrow> tiled (gtpc_type_headerlen (g_packet p 1)) (g_items p) (unat (g_offset p)) \<and>
     g_length p = of_nat ETHER_MAX_LEN \<and> unat (g_offset p) < ETHER_MAX_LEN \<and>
     g_count p = word_of_nat (length (g_items p)) \<and> unat (ldn16 (g_packet p) 2) + 4 = unat (g_offset p)"

definition item_bytes :: "gtp_packet \<Rightarrow> gtp_item \<Rightarrow> byte list" where
  "item_bytes p i = rd_bytes (g_packet p) (unat (i_offset i)) (unat (i_length i))"

definition contents :: "gtp_packet \<Rightarrow> (byte \<times> byte list) list" where
  "contents p = map (\<lambda>i. (ucast (i_type i), item_bytes p i)) (g_items p)"

lemma headerlen_ge: "8 \<le> gtpc_type_headerlen ty" "gtpc_type_headerlen ty \<le> 12"
  by (simp_all add: gtpc_type_headerlen_def)

lemma tiled_le: "tiled a xs e \<Longrightarrow> a \<le> e"
  by (induction xs arbitrary: a) fastforce+

lemma tiled_bounds: "tiled a xs e \<Longrightarrow> i \<in> set xs \<Longrightarrow> a \<le> unat (i_offset i) \<and> unat (i_offset i) + unat (i_length i) \<le> e"
proof (induction xs arbitrary: a)
  case (Cons j xs)
  show ?case
  proof (cases "i = j")
    case True then show ?thesis using Cons.prems(1) tiled_le by auto
  next
    case False
    then have "a + unat (i_length j) \<le> unat (i_offset i) \<and> unat (i_offset i) + unat (i_length i) \<le> e"
      using Cons.prems by (intro Cons.IH) auto
    then show ?thesis by simp
  qed
qed simp

lemma tiled_snoc: "tiled a (xs @ [i]) e' \<longleftrightarrow> tiled a xs (unat (i_offset i)) \<and> 0 < unat (i_length i) \<and> unat (i_offset i) + unat (i_length i) = e'"
  by (induction xs arbitrary: a) auto

lemma ldn16_stn16 [simp]: "ldn16 (stn16 m a v) a = v"
  by (simp add: ldn16_def stn16_def)

lemma stn16_out: "x \<noteq> a \<Longrightarrow> x \<noteq> a + 1 \<Longrightarrow> stn16 m a v x = m x"
  by (simp add: stn16_def st16_def)

lemma ldn16_cong: "m a = m' a \<Longrightarrow> m (a + 1) = m' (a + 1) \<Longrightarrow> ldn16 m a = ldn16 m' a"
  by (simp add: ldn16_def ld16_def)

lemma rd_bytes_stn16: "a + 2 \<le> b \<Longrightarrow> rd_bytes (stn16 m a v) b n = rd_bytes m b n"
  by (rule rd_bytes_cong) (simp add: stn16_out)

lemma tiled_concat:
  "tiled a xs e \<Longrightarrow> concat (map (\<lambda>i. rd_bytes m (unat (i_offset i)) (unat (i_length i))) xs) = rd_bytes m a (e - a)"
proof (induction xs arbitrary: a)
  case (Cons i xs)
  have t: "tiled (a + unat (i_length i)) xs e" "unat (i_offset i) = a" using Cons.prems by simp_all
  have "e - a = unat (i_length i) + (e - (a + unat (i_length i)))" using tiled_le [OF t(1)] by simp
  then show ?case using Cons.IH [OF t(1)] t(2) by (simp add: rd_bytes_add)
qed simp

lemma wf_concat:
  assumes "gtp_wf p" defines "hl \<equiv> gtpc_type_headerlen (g_packet p 1)"
  shows "concat (map snd (contents p)) = rd_bytes (g_packet p) hl (unat (g_offset p) - hl)"
  using tiled_concat [of hl "g_items p" "unat (g_offset p)" "g_packet p"] assms by (simp add: gtp_wf_def contents_def item_bytes_def comp_def)

text \<open>What \<open>gtpc_append_item\<close> does, on the list view: it accepts what fits, and appends it.\<close>

lemma append_item_iff:
  "(\<exists>p'. gtpc_append_item malloc ty data p = Some p') \<longleftrightarrow>
     data \<noteq> [] \<and> unat (g_offset p) + length data < unat (g_length p) \<and> malloc (Suc (length (g_items p)))"
  by (auto simp: gtpc_append_item_def Let_def)

lemma append_item_ok:
  assumes "gtp_wf p" "gtpc_append_item malloc ty data p = Some p'"
  shows "gtp_wf p'" "contents p' = contents p @ [(ty, data)]" "unat (g_offset p') = unat (g_offset p) + length data"
    "\<And>x. x \<notin> {2, 3} \<Longrightarrow> x < unat (g_offset p) \<or> unat (g_offset p) + length data \<le> x \<Longrightarrow> g_packet p' x = g_packet p x"
    "g_saddr p' = g_saddr p" "g_caddr p' = g_caddr p" "length (g_items p') = Suc (length (g_items p))"
proof -
  let ?o = "unat (g_offset p)" and ?m = "wr_bytes (g_packet p) (unat (g_offset p)) data"
  have wf: "tiled (gtpc_type_headerlen (g_packet p 1)) (g_items p) ?o" "g_length p = of_nat ETHER_MAX_LEN" "?o < ETHER_MAX_LEN"
    "g_count p = word_of_nat (length (g_items p))" "unat (ldn16 (g_packet p) 2) + 4 = ?o"
    using assms(1) by (simp_all add: gtp_wf_def)
  have hl: "8 \<le> ?o" using tiled_le [OF wf(1)] headerlen_ge(1) [of "g_packet p 1"] by simp
  have ne: "data \<noteq> []" and fits: "?o + length data < ETHER_MAX_LEN"
    using assms(2) wf(2) by (auto simp: gtpc_append_item_def split: if_splits)
  have p': "p' = p\<lparr>g_items := g_items p @ [\<lparr>i_type = ucast ty, i_length = word_of_nat (length data), i_offset = g_offset p\<rparr>],
      g_count := g_count p + 1, g_offset := g_offset p + word_of_nat (length data),
      g_packet := stn16 ?m 2 (ldn16 ?m 2 + word_of_nat (length data))\<rparr>"
    using assms(2) by (auto simp: gtpc_append_item_def Let_def split: if_splits)
  have len: "unat (word_of_nat (length data) :: 16 word) = length data" using fits by (simp add: unsigned_of_nat take_bit_eq_mod)
  have off: "unat (g_offset p + word_of_nat (length data)) = ?o + length data"
    using fits by (simp add: unat_word_ariths len)
  have "ldn16 ?m 2 = ldn16 (g_packet p) 2" using hl by (intro ldn16_cong) simp_all
  then have h: "unat (ldn16 ?m 2 + word_of_nat (length data)) + 4 = ?o + length data"
    using wf(5) fits by (simp add: unat_word_ariths len)
  have out: "g_packet p' x = g_packet p x" if "x \<notin> {2, 3}" "x < ?o \<or> ?o + length data \<le> x" for x
    using that by (simp add: p' stn16_out)
  then show "\<And>x. x \<notin> {2, 3} \<Longrightarrow> x < ?o \<or> ?o + length data \<le> x \<Longrightarrow> g_packet p' x = g_packet p x" .
  have ty: "g_packet p' 1 = g_packet p 1" using out [of 1] hl by simp
  show "gtp_wf p'" using wf h off ne fits ty by (simp add: gtp_wf_def p' tiled_snoc len)
  show "unat (g_offset p') = ?o + length data" by (simp add: p' off)
  show "g_saddr p' = g_saddr p" "g_caddr p' = g_caddr p" "length (g_items p') = Suc (length (g_items p))" by (simp_all add: p')
  have "item_bytes p' i = item_bytes p i" if "i \<in> set (g_items p)" for i
    unfolding item_bytes_def using tiled_bounds [OF wf(1) that] headerlen_ge(1) [of "g_packet p 1"] by (intro rd_bytes_cong out) auto
  moreover have "item_bytes p' \<lparr>i_type = ucast ty, i_length = word_of_nat (length data), i_offset = g_offset p\<rparr> = data"
    using hl by (simp add: item_bytes_def p' len rd_bytes_stn16)
  moreover have "(ucast (ucast ty :: 16 word) :: byte) = ty" by (rule bit_word_eqI) (auto simp: bit_simps)
  ultimately show "contents p' = contents p @ [(ty, data)]" by (simp add: contents_def p')
qed

fun append_all :: "(nat \<Rightarrow> bool) \<Rightarrow> (byte \<times> byte list) list \<Rightarrow> gtp_packet \<Rightarrow> gtp_packet option" where
  "append_all malloc [] p = Some p"
| "append_all malloc ((ty, d) # xs) p = (case gtpc_append_item malloc ty d p of None \<Rightarrow> None | Some p' \<Rightarrow> append_all malloc xs p')"

lemma append_all_ok:
  assumes "gtp_wf p" "append_all malloc xs p = Some q"
  shows "gtp_wf q" "contents q = contents p @ xs" "unat (g_offset q) = unat (g_offset p) + length (concat (map snd xs))"
    "\<And>x. x \<notin> {2, 3} \<Longrightarrow> x < unat (g_offset p) \<Longrightarrow> g_packet q x = g_packet p x" "g_saddr q = g_saddr p" "g_caddr q = g_caddr p"
proof -
  from assms have "gtp_wf q \<and> contents q = contents p @ xs \<and> unat (g_offset q) = unat (g_offset p) + length (concat (map snd xs)) \<and>
      (\<forall>x. x \<notin> {2, 3} \<longrightarrow> x < unat (g_offset p) \<longrightarrow> g_packet q x = g_packet p x) \<and> g_saddr q = g_saddr p \<and> g_caddr q = g_caddr p"
  proof (induction xs arbitrary: p)
    case (Cons x xs)
    obtain ty d where x: "x = (ty, d)" by fastforce
    then obtain p' where a: "gtpc_append_item malloc ty d p = Some p'" and b: "append_all malloc xs p' = Some q"
      using Cons.prems(2) by (auto split: option.splits)
    note ok = append_item_ok [OF Cons.prems(1) a]
    from Cons.IH [OF ok(1) b] ok(2-6) show ?case by (simp add: x)
  qed simp
  then show "gtp_wf q" "contents q = contents p @ xs" "unat (g_offset q) = unat (g_offset p) + length (concat (map snd xs))"
    "\<And>x. x \<notin> {2, 3} \<Longrightarrow> x < unat (g_offset p) \<Longrightarrow> g_packet q x = g_packet p x" "g_saddr q = g_saddr p" "g_caddr q = g_caddr p"
    by simp_all
qed

lemma append_all_fits:
  assumes "gtp_wf p" "\<And>k. malloc k" "\<And>ty d. (ty, d) \<in> set xs \<Longrightarrow> d \<noteq> []" "unat (g_offset p) + length (concat (map snd xs)) < ETHER_MAX_LEN"
  obtains q where "append_all malloc xs p = Some q"
proof -
  have "\<exists>q. append_all malloc xs p = Some q"
    using assms(1,3,4)
  proof (induction xs arbitrary: p)
    case (Cons x xs)
    obtain ty d where x: "x = (ty, d)" by fastforce
    have "g_length p = of_nat ETHER_MAX_LEN" using Cons.prems(1) by (simp add: gtp_wf_def)
    then obtain p' where p': "gtpc_append_item malloc ty d p = Some p'"
      using append_item_iff [of malloc ty d p] Cons.prems(2) [of ty d] Cons.prems(3) assms(2) by (auto simp: x)
    note ok = append_item_ok [OF Cons.prems(1) p']
    have "\<exists>q. append_all malloc xs p' = Some q"
      using Cons.prems(2,3) ok(3) by (intro Cons.IH [OF ok(1)]) (auto simp: x)
    then show ?case by (simp add: x p')
  qed simp
  then show ?thesis using that by blast
qed

lemma alloc_packet_wf:
  assumes "gtpc_alloc_packet malloc junk ty = Some p"
  shows "gtp_wf p" "contents p = []" "g_packet p 0 = (if ty = GTPC_ECHO_REQ \<or> ty = GTPC_ECHO_RES then 0x40 else 0x48)" "g_packet p 1 = ty"
    "unat (g_offset p) = gtpc_type_headerlen ty" "\<And>x. 4 \<le> x \<Longrightarrow> x < ETHER_MAX_LEN \<Longrightarrow> g_packet p x = 0" "g_saddr p = []" "g_caddr p = []"
proof -
  let ?z = "\<lambda>i. if i < ETHER_MAX_LEN then 0 else junk i"
  have ld: "ldn16 (m(0 := a, Suc 0 := b)) 2 = ldn16 m 2" for m a b by (simp add: ldn16_def ld16_def)
  show "gtp_wf p" "contents p = []" "g_packet p 0 = (if ty = GTPC_ECHO_REQ \<or> ty = GTPC_ECHO_RES then 0x40 else 0x48)" "g_packet p 1 = ty"
    "unat (g_offset p) = gtpc_type_headerlen ty" "g_saddr p = []" "g_caddr p = []"
    using assms by (auto simp: gtpc_alloc_packet_def Let_def gtp_wf_def contents_def gtpc_type_headerlen_def ld split: if_splits)
  show "g_packet p x = 0" if "4 \<le> x" "x < ETHER_MAX_LEN" for x
    using assms that by (auto simp: gtpc_alloc_packet_def Let_def stn16_out split: if_splits)
qed

section \<open>Parsing inverts building\<close>

text \<open>A well-formed item: its length field counts the octets behind the four of its header.\<close>

definition tlv :: "byte list \<Rightarrow> bool" where
  "tlv b \<longleftrightarrow> 4 \<le> length b \<and> unat (mk16 (b ! 2) (b ! 1)) + 4 = length b"

definition typed :: "byte list \<Rightarrow> byte \<times> byte list" where
  "typed b = (b ! 0, b)"

lemma snd_typed [simp]: "map (snd \<circ> typed) bss = bss"
  by (simp add: typed_def comp_def)

lemma ldn16_nth: "rd_bytes m a n = b \<Longrightarrow> k + 1 < n \<Longrightarrow> ldn16 m (a + k) = mk16 (b ! (k + 1)) (b ! k)"
  by (auto simp: ldn16_def ld16_def add.assoc)

lemma rd_bytes_prefix: "rd_bytes m a n = b @ r \<Longrightarrow> rd_bytes m a (length b) = b"
proof -
  assume *: "rd_bytes m a n = b @ r"
  then have n: "n = length b + length r" by (metis length_append length_rd_bytes)
  from * show ?thesis by (simp add: n rd_bytes_add)
qed

lemma tlv_at:
  assumes "rd_bytes m a n = b @ r" "tlv b" "length b < 65536"
  shows "m a = b ! 0" "unat (ldn16 m (a + 1) + 4) = length b" "rd_bytes m a (length b) = b" "rd_bytes m (a + length b) (n - length b) = r"
proof -
  note p = rd_bytes_prefix [OF assms(1)]
  have l: "4 \<le> length b" "unat (mk16 (b ! 2) (b ! 1)) + 4 = length b" using assms(2) by (simp_all add: tlv_def)
  then show "m a = b ! 0" using arg_cong [OF p, of "\<lambda>x. x ! 0"] by (simp del: length_greater_0_conv)
  have "ldn16 m (a + 1) = mk16 (b ! 2) (b ! 1)" using ldn16_nth [OF p, of 1] l by (simp add: numeral_2_eq_2)
  then show "unat (ldn16 m (a + 1) + 4) = length b" using l assms(3) by (simp add: unat_word_ariths)
  show "rd_bytes m a (length b) = b" by (rule p)
  have "n = length b + length r" using assms(1) by (metis length_append length_rd_bytes)
  then show "rd_bytes m (a + length b) (n - length b) = r" using assms(1) p by (simp add: rd_bytes_add)
qed

lemma parse_items_builds:
  assumes "gtp_wf p" "unat off = unat (g_offset p)" "off < len" "bss \<noteq> []" "length bss \<le> n" "\<forall>b \<in> set bss. tlv b"
    "append_all malloc (map typed bss) p = Some q" "rd_bytes payload (unat off) (unat len - unat off) = concat bss"
  shows "parse_items malloc payload len n off p = Accepted q"
  using assms
proof (induction n arbitrary: p off bss)
  case (Suc n)
  obtain b rest where bss: "bss = b # rest" using Suc.prems(4) by (cases bss) auto
  obtain p' where a: "gtpc_append_item malloc (b ! 0) b p = Some p'" and r: "append_all malloc (map typed rest) p' = Some q"
    using Suc.prems(7) by (auto simp: bss typed_def [of b] split: option.splits)
  note ok = append_item_ok [OF Suc.prems(1) a]
  have lb: "unat off + length b < 65536" using ok(1,3) Suc.prems(2) by (simp add: gtp_wf_def)
  then have "length b < 65536" by simp
  note t = tlv_at [OF Suc.prems(8) [unfolded bss concat.simps] _ this]
  have tb: "tlv b" using Suc.prems(6) bss by simp
  define h where "h = ldn16 payload (Suc (unat off)) + 4"
  note t = t [OF tb, unfolded One_nat_def add_Suc_right add_0_right, folded h_def]
  have off': "unat (off + h) = unat off + length b"
    using lb t(2) by (simp add: unat_word_ariths)
  have len: "unat len = unat off + length b + length (concat rest)"
    using arg_cong [OF Suc.prems(8), of length] Suc.prems(3) by (simp add: bss word_less_nat_alt)
  show ?case
  proof (cases "rest = []")
    case True
    then have "off + h = len" using len off' by (simp add: word_unat_eq_iff)
    then show ?thesis using Suc.prems(3) t(1,3) a r True by (simp add: h_def [symmetric] t(2) Let_def)
  next
    case False
    have ge: "4 \<le> length (hd rest)" using Suc.prems(6) False by (cases rest) (auto simp: bss tlv_def)
    have lt: "off + h < len"
      using ge False len off' by (cases rest) (auto simp: word_less_nat_alt)
    have "parse_items malloc payload len n (off + h) p' = Accepted q"
    proof (rule Suc.IH [OF ok(1) _ lt False _ _ r])
      show "unat (off + h) = unat (g_offset p')" using off' ok(3) Suc.prems(2) by simp
      show "length rest \<le> n" "\<forall>b\<in>set rest. tlv b" using Suc.prems(5,6) bss by simp_all
      show "rd_bytes payload (unat (off + h)) (unat len - unat (off + h)) = concat rest"
        using t(4) by (simp add: off' diff_diff_left)
    qed
    with lt show ?thesis using Suc.prems(3) t(1,3) a by (simp add: h_def [symmetric] t(2) Let_def order.strict_implies_not_eq not_less order.strict_implies_order)
  qed
qed simp

text \<open>
  Conversely, what the loop accepts is a partition of the payload. An item is well-formed or shorter
  than its own header: the sum of the length field and 4 is taken modulo \<open>2^16\<close>.
\<close>

definition accepted_item :: "byte list \<Rightarrow> bool" where
  "accepted_item b \<longleftrightarrow> tlv b \<or> b \<noteq> [] \<and> length b < 4"

lemma parse_items_sound:
  assumes "gtp_wf p" "off = g_offset p" "parse_items malloc payload len n off p = Accepted q"
  shows "\<exists>bss. gtp_wf q \<and> contents q = contents p @ map typed bss \<and> rd_bytes payload (unat off) (unat len - unat off) = concat bss \<and>
    (\<forall>b \<in> set bss. accepted_item b) \<and> length bss \<le> n \<and> g_offset q = len"
  using assms
proof (induction n arbitrary: p off)
  case (Suc n)
  define h where "h = ldn16 payload (Suc (unat off)) + 4"
  define b where "b = rd_bytes payload (unat off) (unat h)"
  have lb: "length b = unat h" by (simp add: b_def)
  have lt: "off < len" using Suc.prems(3) by (auto split: if_splits)
  then obtain p' where a: "gtpc_append_item malloc (payload (unat off)) b p = Some p'" and le: "off + h \<le> len"
    and r: "off + h = len \<and> q = p' \<or> off + h < len \<and> parse_items malloc payload len n (off + h) p' = Accepted q"
    using Suc.prems(3) by (auto simp: b_def h_def Let_def split: option.splits if_splits)
  note ok = append_item_ok [OF Suc.prems(1) a]
  have ne: "b \<noteq> []" using a by (auto simp: gtpc_append_item_def)
  have u: "unat (off + h) = unat off + length b"
  proof -
    have "unat off + length b < 65536" using ok(1,3) Suc.prems(2) by (simp add: gtp_wf_def)
    then show ?thesis by (simp add: unat_word_ariths lb)
  qed
  have typed: "(payload (unat off), b) = typed b" using ne lb nth_rd_bytes [of 0 "unat h" payload "unat off"] by (cases b) (simp_all add: typed_def b_def [symmetric])
  have acc: "accepted_item b"
  proof (cases "length b < 4")
    case False
    then have "ldn16 payload (unat off + 1) = mk16 (b ! 2) (b ! 1)"
      using ldn16_nth [of payload "unat off" "unat h" b 1] lb by (simp add: b_def numeral_2_eq_2)
    then have "h = mk16 (b ! 2) (b ! 1) + 4" by (simp add: h_def)
    then have "length b = (unat (mk16 (b ! 2) (b ! 1)) + 4) mod 65536" using lb by (simp add: unat_word_ariths)
    with False unat16_less [of "mk16 (b ! 2) (b ! 1)"] show ?thesis
      by (cases "unat (mk16 (b ! 2) (b ! 1)) + 4 < 65536") (auto simp: accepted_item_def tlv_def mod_if split: if_splits)
  qed (use ne in \<open>simp add: accepted_item_def\<close>)
  have o: "off + h = g_offset p'" using u ok(3) Suc.prems(2) by (metis word_unat_eq_iff)
  have sp: "rd_bytes payload (unat off) (unat len - unat off) = b @ rd_bytes payload (unat (off + h)) (unat len - unat (off + h))"
  proof -
    have "unat len - unat off = length b + (unat len - unat (off + h))" using le lt u by (simp add: word_le_nat_alt)
    then show ?thesis by (simp add: rd_bytes_add u lb b_def)
  qed
  from r show ?case
  proof (elim disjE conjE)
    assume "off + h = len" "q = p'"
    then show ?thesis using ok(1,2) o sp acc typed by (intro exI [of _ "[b]"]) simp
  next
    assume "parse_items malloc payload len n (off + h) p' = Accepted q"
    from Suc.IH [OF ok(1) o this] obtain bss where "gtp_wf q" "contents q = contents p' @ map typed bss"
      "rd_bytes payload (unat (off + h)) (unat len - unat (off + h)) = concat bss"
      "\<forall>b \<in> set bss. accepted_item b" "length bss \<le> n" "g_offset q = len" by blast
    then show ?thesis using ok(2) sp acc typed by (intro exI [of _ "b # bss"]) simp
  qed
qed simp

lemma from_payload_builds:
  assumes "gtpc_alloc_packet malloc junk ty = Some p0" "append_all malloc (map typed bss) p0 = Some p"
    "gtpc_type_issupported ty" "\<forall>b \<in> set bss. tlv b" "length bss \<le> 255"
    "\<And>x. x < 4 \<or> gtpc_type_headerlen ty \<le> x \<and> x < unat (g_offset p) \<Longrightarrow> payload x = g_packet p x"
  shows "gtpc_alloc_packet_from_payload malloc junk payload (g_offset p) = Accepted p \<and> contents p = map typed bss"
proof -
  note w = alloc_packet_wf [OF assms(1)] and ok = append_all_ok [OF alloc_packet_wf(1) [OF assms(1)] assms(2)]
  let ?hl = "gtpc_type_headerlen ty"
  have hl: "8 \<le> ?hl" "?hl \<le> 12" by (rule headerlen_ge)+
  have off: "unat (g_offset p) = ?hl + length (concat bss)" using ok(3) w(5) by simp
  have h: "payload 0 = g_packet p0 0" "payload 1 = ty" using assms(6) ok(4) hl w(4,5) by simp_all
  have len: "unat (ldn16 payload 2) + 4 = unat (g_offset p)"
    using ok(1) ldn16_cong [of payload 2 "g_packet p"] assms(6) by (simp add: gtp_wf_def)
  have ne0: "g_offset p \<noteq> 0" using off hl by auto
  have val: "gtpc_validate_header payload"
  proof -
    have f: "payload 0 = 0x40 \<or> payload 0 = 0x48" using h(1) w(3) by auto
    then have v: "drop_bit 5 (payload 0) = (2 :: byte)" "\<not> bit (payload 0) 4"
      by (auto simp: bit_iff_odd drop_bit_eq_div)
    have "4 \<le> unat (ldn16 payload 2)" using len off hl by simp
    with v assms(3) hl h(2) show ?thesis by (simp add: gtpc_validate_header_def)
  qed
  have body: "rd_bytes payload ?hl (unat (g_offset p) - ?hl) = concat bss"
  proof -
    have "rd_bytes payload ?hl (unat (g_offset p) - ?hl) = rd_bytes (g_packet p) ?hl (unat (g_offset p) - ?hl)"
      using assms(6) off by (intro rd_bytes_cong) simp
    also have "\<dots> = concat bss" using wf_concat [OF ok(1)] ok(2,4) w(2,4,5) hl by simp
    finally show ?thesis .
  qed
  show ?thesis
  proof (cases "bss = []")
    case True
    then have "p = p0" using assms(2) by simp
    with ne0 val len off True h(2) assms(1) w(2) show ?thesis by (simp add: gtpc_alloc_packet_from_payload_def)
  next
    case False
    have u: "unat (word_of_nat ?hl :: 16 word) = ?hl" using hl by (simp add: unsigned_of_nat take_bit_eq_mod)
    have "concat bss \<noteq> []" using False assms(4) by (cases bss) (auto simp: tlv_def)
    then have lt: "word_of_nat ?hl < g_offset p" using off by (simp add: word_less_nat_alt u)
    have "parse_items malloc payload (g_offset p) 255 (word_of_nat ?hl) p0 = Accepted p"
      using w(1) _ lt False assms(5,4,2) by (rule parse_items_builds) (simp_all add: u w(5) body)
    with ne0 val len off lt h(2) assms(1) w(2) ok(2) show ?thesis
      by (auto simp: gtpc_alloc_packet_from_payload_def word_less_nat_alt u)
  qed
qed

section \<open>Properties\<close>

text \<open>C33: Parsing inverts building: a packet built from any well-formed items that fit is rebuilt, with the same items,
  counters and octets, from any payload that carries its octets (whatever tunnel identifier and sequence number
  that payload's header has, since these are not part of a packet under construction).\<close>

theorem gtpc_packet_round_trip:
  assumes "gtpc_alloc_packet malloc junk ty = Some p0" "append_all malloc (map typed bss) p0 = Some p"
    "gtpc_type_issupported ty" "\<forall>b \<in> set bss. tlv b" "length bss \<le> 255"
    "\<And>x. x < 4 \<or> gtpc_type_headerlen ty \<le> x \<and> x < unat (g_offset p) \<Longrightarrow> payload x = g_packet p x"
  shows "gtpc_alloc_packet_from_payload malloc junk payload (g_offset p) = Accepted p \<and> contents p = map typed bss"
  by (rule from_payload_builds [OF assms])

definition demo_items :: "byte list list" where
  "demo_items = [[3, 0, 1, 0, 7], [2, 0, 2, 0, 16, 0]]"

lemma items_built:
  assumes "\<forall>b \<in> set bss. tlv b" "12 + length (concat bss) < ETHER_MAX_LEN"
  obtains p0 p where "gtpc_alloc_packet (\<lambda>_. True) (\<lambda>_. 0) 33 = Some p0" "append_all (\<lambda>_. True) (map typed bss) p0 = Some p"
    "contents p = map typed bss"
proof -
  obtain p0 where p0: "gtpc_alloc_packet (\<lambda>_. True) (\<lambda>_. 0) 33 = Some p0" by (simp add: gtpc_alloc_packet_def Let_def)
  note w = alloc_packet_wf [OF p0]
  obtain p where p: "append_all (\<lambda>_. True) (map typed bss) p0 = Some p"
  proof (rule append_all_fits [OF w(1), of "\<lambda>_. True" "map typed bss"])
    show "unat (g_offset p0) + length (concat (map snd (map typed bss))) < ETHER_MAX_LEN"
      using assms(2) w(5) by (simp add: gtpc_type_headerlen_def)
  qed (use assms(1) in \<open>auto simp: typed_def tlv_def\<close>)
  then show ?thesis using that p0 append_all_ok(2) [OF w(1) p] w(2) by simp
qed

lemma demo_items_ok: "gtpc_type_issupported 33" "\<forall>b \<in> set demo_items. tlv b" "length demo_items \<le> 255"
  by (simp_all add: gtpc_type_issupported_def demo_items_def tlv_def mk16_def)

lemma demo_built:
  obtains p0 p where "gtpc_alloc_packet (\<lambda>_. True) (\<lambda>_. 0) 33 = Some p0" "append_all (\<lambda>_. True) (map typed demo_items) p0 = Some p"
proof (rule items_built [OF demo_items_ok(2)])
  show "12 + length (concat demo_items) < ETHER_MAX_LEN" by (simp add: demo_items_def)
qed (rule that)

theorem gtpc_packet_round_trip_witness:
  "\<exists>p. gtpc_alloc_packet_from_payload (\<lambda>_. True) (\<lambda>_. 0) (g_packet p) (g_offset p) = Accepted p \<and> contents p = map typed demo_items"
proof (rule demo_built)
  fix p0 p assume "gtpc_alloc_packet (\<lambda>_. True) (\<lambda>_. 0) 33 = Some p0" "append_all (\<lambda>_. True) (map typed demo_items) p0 = Some p"
  then show ?thesis using gtpc_packet_round_trip [OF _ _ demo_items_ok refl] by blast
qed

text \<open>C34: What is accepted is a partition of the payload: the parsed packet keeps its invariant (items tile the
  buffer, counters and length field agree), its items are, in order and without gap or overlap, the octets of the
  payload behind the header, at most 255 of them, each well-formed, or shorter than an item's header when its length
  field is so large that the sum with 4 wraps.\<close>

theorem gtpc_from_payload_partitions:
  assumes "gtpc_alloc_packet_from_payload malloc junk payload len = Accepted p"
  shows "gtp_wf p \<and> g_offset p = len \<and> length (g_items p) \<le> 255 \<and>
    concat (map snd (contents p)) = rd_bytes payload (gtpc_type_headerlen (payload 1)) (unat len - gtpc_type_headerlen (payload 1)) \<and>
    (\<forall>(ty, b) \<in> set (contents p). b \<noteq> [] \<and> ty = b ! 0 \<and> (tlv b \<or> length b < 4))"
proof -
  let ?hl = "gtpc_type_headerlen (payload 1)"
  have u: "unat (word_of_nat ?hl :: 16 word) = ?hl"
    using headerlen_ge(2) [of "payload 1"] by (simp add: unsigned_of_nat take_bit_eq_mod)
  obtain p0 where p0: "gtpc_alloc_packet malloc junk (payload 1) = Some p0" and
    c: "?hl = unat len \<and> p = p0 \<or> parse_items malloc payload len 255 (word_of_nat ?hl) p0 = Accepted p"
    using assms by (auto simp: gtpc_alloc_packet_from_payload_def Let_def split: if_splits option.splits)
  note w = alloc_packet_wf [OF p0]
  have o: "word_of_nat ?hl = g_offset p0" using w(5) u by (simp add: word_unat_eq_iff)
  from c obtain bss where b: "gtp_wf p" "contents p = map typed bss" "rd_bytes payload ?hl (unat len - ?hl) = concat bss"
    "\<forall>b \<in> set bss. accepted_item b" "length bss \<le> 255" "g_offset p = len"
  proof (elim disjE conjE)
    assume "?hl = unat len" "p = p0"
    then show ?thesis using w(1,2,5) by (intro that [of "[]"]) (simp_all add: word_unat_eq_iff)
  next
    assume "parse_items malloc payload len 255 (word_of_nat ?hl) p0 = Accepted p"
    from parse_items_sound [OF w(1) o this, unfolded u] show ?thesis using that w(2) by auto
  qed
  moreover have "length (g_items p) = length bss" using arg_cong [OF b(2), of length] by (simp add: contents_def)
  ultimately show ?thesis by (auto simp: typed_def accepted_item_def tlv_def)
qed

theorem gtpc_from_payload_partitions_witness:
  "\<exists>payload len p. gtpc_alloc_packet_from_payload (\<lambda>_. True) (\<lambda>_. 0) payload len = Accepted p \<and> gtp_wf p \<and> g_offset p = len \<and>
     contents p = map typed demo_items"
proof (rule demo_built)
  fix p0 p assume "gtpc_alloc_packet (\<lambda>_. True) (\<lambda>_. 0) 33 = Some p0" "append_all (\<lambda>_. True) (map typed demo_items) p0 = Some p"
  from from_payload_builds [OF this demo_items_ok refl]
  have *: "gtpc_alloc_packet_from_payload (\<lambda>_. True) (\<lambda>_. 0) (g_packet p) (g_offset p) = Accepted p" "contents p = map typed demo_items"
    by simp_all
  with gtpc_from_payload_partitions [OF *(1)] show ?thesis by blast
qed

end
