(* ===== verification/Gtpc_Items.thy ===== *)
theory Gtpc_Items
  imports Gtpc_Packet Text_Utils
begin

text \<open>
  The items of GTP-C messages (\<open>ctrlplane/src/pkt/gtpc_item_func.c\<close>, \<open>inc/gtpc_def.h\<close>): each setter fills a packed
  structure, which is modelled by the list of its octets (the whole structure, also behind the length the
  item claims), numbers in binary coded digits, the Bearer Context with its nested items, and the private
  extension that carries a tunnel to the data plane. \<open>ERR\<close> is \<open>None\<close>.
\<close>

section \<open>Octets\<close>

definition be16 :: "16 word \<Rightarrow> byte list" where
  "be16 v = [byte_of 1 v, byte_of 0 v]"

definition be32 :: "32 word \<Rightarrow> byte list" where
  "be32 v = [byte_of 3 v, byte_of 2 v, byte_of 1 v, byte_of 0 v]"

definition le32 :: "32 word \<Rightarrow> byte list" where
  "le32 v = [byte_of 0 v, byte_of 1 v, byte_of 2 v, byte_of 3 v]"

definition zeros :: "nat \<Rightarrow> byte list" where
  "zeros n = replicate n 0"

text \<open>An array of fixed size whose first octets are given.\<close>

definition padded :: "nat \<Rightarrow> byte list \<Rightarrow> byte list" where
  "padded n bs = bs @ zeros (n - length bs)"

text \<open>\<open>gtpc_comm_header_t\<close>: type, length in network order, instance in the lower four bits.\<close>

definition comm_header :: "byte \<Rightarrow> 16 word \<Rightarrow> byte \<Rightarrow> byte list" where
  "comm_header ty len inst = ty # be16 len @ [inst AND 0xF]"

text \<open>The length functions: \<open>ntohs(item->head.length) + sizeof(item->head)\<close>.\<close>

definition gtpc_item_length :: "byte list \<Rightarrow> 16 word" where
  "gtpc_item_length img = mk16 (img ! 2) (img ! 1) + 4"

text \<open>The octets of an item that are sent.\<close>

definition item_of :: "byte list \<Rightarrow> byte list" where
  "item_of img = take (unat (gtpc_item_length img)) img"

section \<open>Binary coded digits\<close>

text \<open>The lower half of an octet is the first digit; a half of all ones is empty.\<close>

fun pack_digits :: "string \<Rightarrow> byte list" where
  "pack_digits [] = []"
| "pack_digits [a] = [word_of_nat (digit_val a) OR 0xF0]"
| "pack_digits (a # b # s) = (word_of_nat (digit_val a) OR push_bit 4 (word_of_nat (digit_val b))) # pack_digits s"

definition gtpc_digits_set :: "nat \<Rightarrow> 64 word \<Rightarrow> byte list \<times> bool" where
  "gtpc_digits_set len digit =
     (let bf = dec (unat digit) in
      if length bf \<le> len * 2 then (pack_digits bf @ replicate (len - length (pack_digits bf)) 0xFF, True)
      else (replicate len 0xFF, False))"

text \<open>
  Reading: a half prints as a decimal number, so the values 10 to 14 print two digits. \<open>stale\<close> tells that
  \<open>errno\<close> is \<open>ERANGE\<close> from an earlier call, since it is not reset before \<open>strtoull\<close>.
\<close>

fun digits_text :: "byte list \<Rightarrow> string" where
  "digits_text [] = []"
| "digits_text (d # ds) =
     (let low = unat (d AND 0xF); high = unat (drop_bit 4 d) in
      (if high = 15 \<and> low = 15 then [] else if high = 15 then dec low else if low = 15 then dec high
       else dec low @ dec high) @ digits_text ds)"

definition gtpc_digits_get :: "bool \<Rightarrow> byte list \<Rightarrow> 64 word" where
  "gtpc_digits_get stale digits = (if stale then - 1 else strtoul (digits_text digits))"

section \<open>Setters\<close>

definition gtpc_imsi_set :: "64 word \<Rightarrow> byte list option" where
  "gtpc_imsi_set digits =
     (case gtpc_digits_set 8 digits of (ds, ok) \<Rightarrow> if ok then Some (comm_header 1 8 0 @ ds) else None)"

definition gtpc_recovery_set :: "byte \<Rightarrow> byte list" where
  "gtpc_recovery_set restart_counter = comm_header 3 1 0 @ [restart_counter]"

definition gtpc_cause_set :: "byte \<Rightarrow> byte list" where
  "gtpc_cause_set cause = comm_header 2 2 0 @ padded 6 [cause]"

definition gtpc_msisdn_set :: "64 word \<Rightarrow> byte list option" where
  "gtpc_msisdn_set digits =
     (case gtpc_digits_set 6 digits of (ds, ok) \<Rightarrow> if ok then Some (comm_header 76 6 0 @ ds) else None)"

definition gtpc_mei_set :: "64 word \<Rightarrow> byte list option" where
  "gtpc_mei_set digits =
     (case gtpc_digits_set 8 digits of (ds, ok) \<Rightarrow> if ok then Some (comm_header 75 8 0 @ ds) else None)"

text \<open>The flags of an F-TEID: interface type in the lower five bits, version 6 in bit 6, version 4 in bit 7.\<close>

definition gtpc_f_teid_set :: "byte \<Rightarrow> byte \<Rightarrow> 32 word \<Rightarrow> byte list option \<Rightarrow> byte list option \<Rightarrow> byte list option" where
  "gtpc_f_teid_set inst iftype teid ipv4 ipv6 =
     (case ipv4 of
        Some a \<Rightarrow> Some (comm_header 87 9 inst @ [(iftype AND 0x1F) OR 0x80] @ be32 teid @ padded 16 (take 4 a))
      | None \<Rightarrow> (case ipv6 of
          Some a \<Rightarrow> Some (comm_header 87 21 inst @ [(iftype AND 0x1F) OR 0x40] @ be32 teid @ padded 16 (take 16 a))
        | None \<Rightarrow> None))"

definition gtpc_ambr_set :: "32 word \<Rightarrow> 32 word \<Rightarrow> byte list" where
  "gtpc_ambr_set uplink downlink = comm_header 72 8 0 @ be32 uplink @ be32 downlink"

definition gtpc_charging_id_set :: "32 word \<Rightarrow> byte list" where
  "gtpc_charging_id_set cid = comm_header 94 4 0 @ be32 cid"

definition gtpc_ebi_set :: "byte \<Rightarrow> byte \<Rightarrow> byte list" where
  "gtpc_ebi_set inst ebi = comm_header 73 1 inst @ [ebi AND 0xF]"

text \<open>The instance and the option header of a PCO are those the structure had before.\<close>

definition gtpc_pco_set :: "byte list \<Rightarrow> byte list \<Rightarrow> byte \<Rightarrow> byte list option" where
  "gtpc_pco_set item pco len =
     (if unat len \<ge> 253 then None
      else Some ([78] @ be16 (ucast len) @ [item ! 3, item ! 4] @ padded 253 (take (unat len) pco)))"

definition gtpc_paa_set :: "byte \<Rightarrow> byte list \<Rightarrow> byte list option" where
  "gtpc_paa_set pdntype paa =
     (if length paa > 21 then None
      else Some (comm_header 79 (word_of_nat (length paa + 1)) 0 @ [pdntype AND 0x7] @ padded 21 paa))"

definition gtpc_apn_restriction_set :: "byte \<Rightarrow> byte list" where
  "gtpc_apn_restriction_set ty = comm_header 127 1 0 @ [ty]"

text \<open>The rates: the lower 40 bits in network order.\<close>

definition rate40 :: "64 word \<Rightarrow> byte list" where
  "rate40 r = map (\<lambda>i. byte_of i r) [4, 3, 2, 1, 0]"

definition gtpc_bearer_qos_set :: "byte \<Rightarrow> byte \<Rightarrow> 64 word \<Rightarrow> 64 word \<Rightarrow> 64 word \<Rightarrow> 64 word \<Rightarrow> byte list" where
  "gtpc_bearer_qos_set flags qci max_uplink max_downlink guaranteed_uplink guaranteed_downlink =
     comm_header 80 (26 - 4) 0 @ [flags, qci] @ rate40 max_uplink @ rate40 max_downlink @
     rate40 guaranteed_uplink @ rate40 guaranteed_downlink"

section \<open>Bearer Context\<close>

record bearer_ctx =
  bc_length :: "16 word"
  bc_child :: "byte list"
  bc_offset :: "16 word"

definition gtpc_bearer_ctx_set :: bearer_ctx where
  "gtpc_bearer_ctx_set = \<lparr>bc_length = 0, bc_child = zeros 256, bc_offset = 0\<rparr>"

definition bearer_ctx_image :: "bearer_ctx \<Rightarrow> byte list" where
  "bearer_ctx_image b = comm_header 93 (bc_length b) 0 @ bc_child b"

definition gtpc_bearer_ctx_length :: "bearer_ctx \<Rightarrow> 16 word" where
  "gtpc_bearer_ctx_length b = bc_offset b + 4"

definition gtpc_bearer_ctx_add_child :: "byte list \<Rightarrow> bearer_ctx \<Rightarrow> bearer_ctx option" where
  "gtpc_bearer_ctx_add_child child b =
     (let o' = unat (bc_offset b) in
      if o' + length child \<ge> 256 then None
      else Some \<lparr>bc_length = bc_length b + word_of_nat (length child),
                bc_child = take o' (bc_child b) @ child @ drop (o' + length child) (bc_child b),
                bc_offset = bc_offset b + word_of_nat (length child)\<rparr>)"

text \<open>The loop over the nested items of a Bearer Context at address \<open>a\<close>, of at most \<open>n\<close> rounds.\<close>

fun bearer_ctx_items :: "nat \<Rightarrow> mem \<Rightarrow> nat \<Rightarrow> (byte \<Rightarrow> mem \<Rightarrow> nat \<Rightarrow> 16 word \<Rightarrow> 's \<Rightarrow> 's \<times> bool) \<Rightarrow> 16 word \<Rightarrow> 16 word \<Rightarrow> 's \<Rightarrow> 's \<times> bool" where
  "bearer_ctx_items 0 m a cb len cur s = (s, False)"
| "bearer_ctx_items (Suc n) m a cb len cur s =
     (if cur < len then
        let c = a + 4 + unat cur; hlen = ldn16 m (c + 1) + 4 in
        (case cb (m c) m c hlen s of (s', ok) \<Rightarrow>
           if \<not> ok then (s', False)
           else let cur' = cur + hlen in
             if cur' > len then (s', False) else if cur' = len then (s', True)
             else bearer_ctx_items n m a cb len cur' s')
      else (s, False))"

definition gtpc_iterate_bearer_ctx_item :: "mem \<Rightarrow> nat \<Rightarrow> (byte \<Rightarrow> mem \<Rightarrow> nat \<Rightarrow> 16 word \<Rightarrow> 's \<Rightarrow> 's \<times> bool) \<Rightarrow> 's \<Rightarrow> 's \<times> bool" where
  "gtpc_iterate_bearer_ctx_item m a cb s =
     bearer_ctx_items GTPC_CAPABILITY_ITEM_COUNT m a cb (ldn16 m (a + 1)) 0 s"

section \<open>Private extension\<close>

text \<open>
  The values, in the order of \<open>GTPC_PEID\<close>: address and TEID of the SGW (octets of the F-TEID it sent), address
  of the terminal, its TEID (a number of the host), address of the PGW.
\<close>

definition gtpc_private_extension_set :: "byte list \<Rightarrow> byte list \<Rightarrow> byte list \<Rightarrow> 32 word \<Rightarrow> byte list \<Rightarrow> byte list" where
  "gtpc_private_extension_set sgw_ipv4 sgw_teid ue_ipv4 ue_teid pgw_ipv4 =
     comm_header 255 (32 - 4) 0 @ be16 0 @ zeros 2 @ le32 0xdeadbeaf @
     take 4 sgw_ipv4 @ take 4 sgw_teid @ take 4 ue_ipv4 @ le32 ue_teid @ take 4 pgw_ipv4"

section \<open>Numbers survive\<close>

lemma nibbles:
  assumes "a < 16" "b < 16"
  shows "unat ((word_of_nat a OR push_bit 4 (word_of_nat b) :: byte) AND 0xF) = a"
    "unat (drop_bit 4 (word_of_nat a OR push_bit 4 (word_of_nat b) :: byte)) = b"
proof -
  have "\<forall>a < 16. \<forall>b < 16. unat ((word_of_nat a OR push_bit 4 (word_of_nat b) :: byte) AND 0xF) = a \<and>
     unat (drop_bit 4 (word_of_nat a OR push_bit 4 (word_of_nat b) :: byte)) = b"
    by code_simp
  with assms show "unat ((word_of_nat a OR push_bit 4 (word_of_nat b) :: byte) AND 0xF) = a"
    "unat (drop_bit 4 (word_of_nat a OR push_bit 4 (word_of_nat b) :: byte)) = b" by auto
qed

lemma digit_nibble: "is_digit c \<Longrightarrow> digit_val c < 10 \<and> char_of (48 + digit_val c) = c"
  by (auto simp: is_digit_def digit_val_def)

lemma dec_digit_val: "is_digit c \<Longrightarrow> dec (digit_val c) = [c]"
  using digit_nibble [of c] by (simp add: dec.simps)

lemma dec_is_digit: "c \<in> set (dec n) \<Longrightarrow> is_digit c"
  using dec_digits [of c n] by (auto simp: is_digit_def of_char_mod_256)

lemma digits_text_fill: "digits_text (replicate k 0xFF) = []"
  by (induction k) (simp_all add: drop_bit_eq_div)

lemma digits_text_pack: "(\<And>c. c \<in> set s \<Longrightarrow> is_digit c) \<Longrightarrow> digits_text (pack_digits s @ replicate k 0xFF) = s"
proof (induction s rule: pack_digits.induct)
  case (2 a)
  have a: "is_digit a" using "2.prems" by simp
  then have "digit_val a < 16" using digit_nibble [of a] by simp
  moreover have "(0xF0 :: byte) = push_bit 4 (word_of_nat 15)" by simp
  ultimately show ?case using nibbles [of "digit_val a" 15] digit_nibble [OF a]
    by (simp add: Let_def dec_digit_val [OF a] digits_text_fill del: of_nat_numeral push_bit_numeral)
next
  case (3 a b s)
  have d: "is_digit a" "is_digit b" using "3.prems" by simp_all
  then show ?case using nibbles [of "digit_val a" "digit_val b"] digit_nibble [OF d(1)] digit_nibble [OF d(2)] 3
    by (simp add: Let_def dec_digit_val)
qed (simp add: digits_text_fill)

lemma length_pack_digits: "length (pack_digits s) = (length s + 1) div 2"
  by (induction s rule: pack_digits.induct) auto

lemma digits_set_ok:
  "snd (gtpc_digits_set len d) \<longleftrightarrow> length (dec (unat d)) \<le> 2 * len" "length (fst (gtpc_digits_set len d)) = len"
  by (auto simp: gtpc_digits_set_def Let_def length_pack_digits)

lemma digits_get_set:
  assumes "snd (gtpc_digits_set len d)" shows "gtpc_digits_get False (fst (gtpc_digits_set len d)) = d"
proof -
  have "unat d < 2 ^ 64" using unsigned_less [of d, where ?'a = nat] by simp
  then have "strtoul (dec (unat d)) = d" using strtoul_dec [of "unat d" "[]"] by simp
  moreover have "digits_text (fst (gtpc_digits_set len d)) = dec (unat d)"
    using assms digits_text_pack [of "dec (unat d)"] dec_is_digit by (auto simp: gtpc_digits_set_def Let_def split: if_splits)
  ultimately show ?thesis by (simp add: gtpc_digits_get_def)
qed

section \<open>The items are well-formed\<close>

lemma length_comm_header [simp]: "length (comm_header ty len inst) = 4"
  by (simp add: comm_header_def be16_def)

lemma comm_header_nth [simp]:
  "comm_header ty len inst ! 0 = ty" "comm_header ty len inst ! Suc 0 = byte_of 1 len" "comm_header ty len inst ! 2 = byte_of 0 len"
  "comm_header ty len inst ! 3 = inst AND 0xF"
  by (simp_all add: comm_header_def be16_def numeral_eq_Suc)

lemma lengths [simp]: "length (be16 v) = 2" "length (be32 w) = 4" "length (le32 w) = 4" "length (zeros n) = n" "length (rate40 r) = 5"
  "length bs \<le> n \<Longrightarrow> length (padded n bs) = n"
  by (simp_all add: be16_def be32_def le32_def zeros_def rate40_def padded_def)

lemma item_of_header:
  assumes "unat len + 4 < 65536" "length body = unat len"
  shows "item_of (comm_header ty len inst @ body @ rest) = comm_header ty len inst @ body"
    "tlv (comm_header ty len inst @ body)" "typed (comm_header ty len inst @ body) = (ty, comm_header ty len inst @ body)"
  using assms by (simp_all add: item_of_def gtpc_item_length_def nth_append tlv_def typed_def unat_word_ariths)

lemma tlv_nth: "tlv (b :: byte list) \<Longrightarrow> b \<noteq> []"
  by (auto simp: tlv_def)

end
