(* ===== verification/Gtpc_Parse.thy ===== *)
theory Gtpc_Parse
  imports Gtpc_Items
begin

text \<open>
  Reading of GTP-C messages: \<open>gtpc_parse_state_t\<close> and the callbacks \<open>on_gtpc_parse_root\<close>,
  \<open>on_gtpc_parse_bearer_context\<close> and \<open>gtpc_iterate_pco_ipcp_item\<close> of \<open>ctrlplane/src/pkt/gtpc_item_func.c\<close>.
  Structures are lists of octets; what lies behind the options of a PCO is an argument (\<open>junk\<close>).
\<close>

section \<open>State\<close>

record parse_state =
  flag :: "32 word"
  flag_v1 :: "32 word"
  msisdn :: "byte list"
  c_teid :: "byte list"
  u_teid :: "byte list"
  ambr :: "byte list"
  bqos :: "byte list"
  imsi :: "byte list"
  recovery :: "byte list"
  cause :: "byte list"
  mei :: "byte list"
  charg :: "byte list"
  ebi_r :: "byte list"
  pco :: "byte list"
  paa :: "byte list"
  apn_r :: "byte list"
  bqos_r :: "byte list"
  ebi_b :: "byte list"
  ambr_r :: "byte list"
  pdn :: "byte list"
  rat :: "byte list"

text \<open>\<open>bzero\<close> of the state: every structure at its size.\<close>

definition zero_state :: parse_state where
  "zero_state = \<lparr>flag = 0, flag_v1 = 0, msisdn = zeros 10, c_teid = zeros 25, u_teid = zeros 25, ambr = zeros 12, bqos = zeros 26,
     imsi = zeros 12, recovery = zeros 5, cause = zeros 10, mei = zeros 12, charg = zeros 8, ebi_r = zeros 5, pco = zeros 258,
     paa = zeros 26, apn_r = zeros 5, bqos_r = zeros 26, ebi_b = zeros 5, ambr_r = zeros 12, pdn = zeros 5, rat = zeros 5\<rparr>"

text \<open>The flags \<open>1 << n\<close>.\<close>

definition flag_bit :: "nat \<Rightarrow> 32 word" where
  "flag_bit n = push_bit n 1"

abbreviation HAVE_MSISDN :: "32 word" where "HAVE_MSISDN \<equiv> flag_bit 31"
abbreviation HAVE_FTEID_C :: "32 word" where "HAVE_FTEID_C \<equiv> flag_bit 30"
abbreviation HAVE_FTEID_U :: "32 word" where "HAVE_FTEID_U \<equiv> flag_bit 29"
abbreviation HAVE_AMBR :: "32 word" where "HAVE_AMBR \<equiv> flag_bit 28"
abbreviation HAVE_BQOS :: "32 word" where "HAVE_BQOS \<equiv> flag_bit 27"
abbreviation HAVE_RECORD :: "32 word" where "HAVE_RECORD \<equiv> flag_bit 26"
abbreviation HAVE_IMSI :: "32 word" where "HAVE_IMSI \<equiv> flag_bit 25"
abbreviation HAVE_RECOVERY :: "32 word" where "HAVE_RECOVERY \<equiv> flag_bit 24"
abbreviation HAVE_CAUSE :: "32 word" where "HAVE_CAUSE \<equiv> flag_bit 23"
abbreviation HAVE_MEI :: "32 word" where "HAVE_MEI \<equiv> flag_bit 22"
abbreviation HAVE_CHRGID :: "32 word" where "HAVE_CHRGID \<equiv> flag_bit 21"
abbreviation HAVE_EBI :: "32 word" where "HAVE_EBI \<equiv> flag_bit 20"
abbreviation HAVE_PCO :: "32 word" where "HAVE_PCO \<equiv> flag_bit 19"
abbreviation HAVE_PAA :: "32 word" where "HAVE_PAA \<equiv> flag_bit 18"
abbreviation HAVE_APN_R :: "32 word" where "HAVE_APN_R \<equiv> flag_bit 17"
abbreviation HAVE_BQOS_R :: "32 word" where "HAVE_BQOS_R \<equiv> flag_bit 16"
abbreviation HAVE_BCTX :: "32 word" where "HAVE_BCTX \<equiv> flag_bit 15"
abbreviation HAVE_EBI_B :: "32 word" where "HAVE_EBI_B \<equiv> flag_bit 14"
abbreviation HAVE_AMBR_R :: "32 word" where "HAVE_AMBR_R \<equiv> flag_bit 13"
abbreviation HAVE_PDN :: "32 word" where "HAVE_PDN \<equiv> flag_bit 12"
abbreviation HAVE_RAT :: "32 word" where "HAVE_RAT \<equiv> flag_bit 11"
abbreviation HAVE_PCO_IPCP_P_DNS :: "32 word" where "HAVE_PCO_IPCP_P_DNS \<equiv> flag_bit 10"
abbreviation HAVE_PCO_IPCP_S_DNS :: "32 word" where "HAVE_PCO_IPCP_S_DNS \<equiv> flag_bit 9"
abbreviation HAVE_PCO_IPV4_LINK_MTU :: "32 word" where "HAVE_PCO_IPV4_LINK_MTU \<equiv> flag_bit 8"
abbreviation HAVE_PCO_NONIP_LINK_MTU :: "32 word" where "HAVE_PCO_NONIP_LINK_MTU \<equiv> flag_bit 7"
abbreviation HAVE_PCO_DNS_IPV4 :: "32 word" where "HAVE_PCO_DNS_IPV4 \<equiv> flag_bit 6"
abbreviation HAVE_PCO_DNS_IPV6 :: "32 word" where "HAVE_PCO_DNS_IPV6 \<equiv> flag_bit 5"
abbreviation HAVE_RES_ORDER :: "32 word" where "HAVE_RES_ORDER \<equiv> flag_bit 0"

text \<open>\<open>memcpy\<close> to the front of a structure, and the setting of a flag.\<close>

definition put :: "byte list \<Rightarrow> byte list \<Rightarrow> byte list" where
  "put img data = data @ drop (length data) img"

definition have_flag :: "32 word \<Rightarrow> parse_state \<Rightarrow> parse_state" where
  "have_flag f cs = cs\<lparr>flag := flag cs OR f\<rparr>"

section \<open>Protocol configuration options\<close>

text \<open>\<open>gtpc_iterate_pco_ipcp_item\<close>: \<open>None\<close> is \<open>ERR\<close>.\<close>

definition ipcp_option :: "byte \<Rightarrow> parse_state \<Rightarrow> parse_state" where
  "ipcp_option ty cs =
     (if ty = 0x81 then cs\<lparr>flag := flag cs OR HAVE_PCO_IPCP_P_DNS, flag_v1 := flag_v1 cs OR HAVE_PCO_IPCP_P_DNS\<rparr>
      else if ty = 0x83 then cs\<lparr>flag := flag cs OR HAVE_PCO_IPCP_S_DNS, flag_v1 := flag_v1 cs OR HAVE_PCO_IPCP_S_DNS\<rparr>
      else cs)"

definition gtpc_iterate_pco_ipcp_item :: "mem \<Rightarrow> nat \<Rightarrow> parse_state \<Rightarrow> parse_state option" where
  "gtpc_iterate_pco_ipcp_item P a cs =
     (if ldn16 P (a + 2) \<noteq> 16 then None else Some (ipcp_option (P (a + 10)) (ipcp_option (P (a + 4)) cs)))"

definition pco_request :: "16 word \<Rightarrow> parse_state \<Rightarrow> parse_state" where
  "pco_request ty cs =
     (if ty = 0x000d then have_flag HAVE_PCO_DNS_IPV4 cs
      else if ty = 0x0003 then have_flag HAVE_PCO_DNS_IPV6 cs
      else if ty = 0x0010 then have_flag HAVE_PCO_IPV4_LINK_MTU cs
      else if ty = 0x0015 then have_flag HAVE_PCO_NONIP_LINK_MTU cs
      else cs)"

definition pco_option :: "mem \<Rightarrow> nat \<Rightarrow> parse_state \<Rightarrow> parse_state" where
  "pco_option P off cs =
     (if P (off + 2) = 0 \<or> flag cs AND HAVE_RES_ORDER = HAVE_RES_ORDER then pco_request (ldn16 P off) cs else cs)"

text \<open>The loop over the options, of at most \<open>n\<close> rounds; \<open>P\<close> is the array of options and what lies behind it.\<close>

fun pco_loop :: "nat \<Rightarrow> mem \<Rightarrow> nat \<Rightarrow> nat \<Rightarrow> parse_state \<Rightarrow> parse_state" where
  "pco_loop 0 P len off cs = cs"
| "pco_loop (Suc n) P len off cs =
     (if off < len then
        let pilen = P (off + 2); cs' = pco_option P off cs in
        if ldn16 P off = 0x8021 then
          (case gtpc_iterate_pco_ipcp_item P (off + 3) cs' of
             None \<Rightarrow> cs'
           | Some cs'' \<Rightarrow> pco_loop n P len (off + 3 + unat pilen) cs'')
        else pco_loop n P len (off + 3 + unat pilen) cs'
      else cs)"

text \<open>The bound \<open>ntohs(length) - 2\<close> is computed in \<open>int\<close> and converted to \<open>size_t\<close>.\<close>

definition pco_bound :: "16 word \<Rightarrow> nat" where
  "pco_bound l = (if unat l < 2 then 2 ^ 64 - (2 - unat l) else unat l - 2)"

definition parse_pco :: "mem \<Rightarrow> byte list \<Rightarrow> parse_state \<Rightarrow> parse_state" where
  "parse_pco junk data cs =
     (let cs = (have_flag HAVE_PCO cs)\<lparr>pco := put (pco cs) data\<rparr>; img = pco cs;
        P = (\<lambda>i. if i < 253 then img ! (5 + i) else junk i) in
      pco_loop 255 P (pco_bound (mk16 (img ! 2) (img ! 1))) 0 cs)"

section \<open>Callbacks\<close>

definition on_gtpc_parse_bearer_context :: "byte \<Rightarrow> mem \<Rightarrow> nat \<Rightarrow> 16 word \<Rightarrow> parse_state \<Rightarrow> parse_state \<times> bool" where
  "on_gtpc_parse_bearer_context ty m a datalen cs =
     (let n = unat datalen; data = rd_bytes m a n in
      (if ty = 87 then
         if n \<noteq> 25 \<and> n \<noteq> 25 - 12 then cs else (have_flag HAVE_FTEID_U cs)\<lparr>u_teid := put (u_teid cs) data\<rparr>
       else if ty = 80 then
         if n \<noteq> 26 then cs else (have_flag HAVE_BQOS cs)\<lparr>bqos := put (bqos cs) data\<rparr>
       else if ty = 73 then
         if n \<noteq> 5 then cs else (have_flag HAVE_EBI_B cs)\<lparr>ebi_b := put (ebi_b cs) data\<rparr>
       else if ty = 72 then
         if n \<noteq> 12 then cs else (have_flag HAVE_AMBR cs)\<lparr>ambr := put (ambr cs) data\<rparr>
       else cs, True))"

definition on_gtpc_parse_root :: "mem \<Rightarrow> byte \<Rightarrow> mem \<Rightarrow> nat \<Rightarrow> 16 word \<Rightarrow> parse_state \<Rightarrow> parse_state \<times> bool" where
  "on_gtpc_parse_root junk ty m a datalen cs =
     (let n = unat datalen; data = rd_bytes m a n in
      if ty = 93 then gtpc_iterate_bearer_ctx_item m a on_gtpc_parse_bearer_context (have_flag HAVE_BCTX cs)
      else
      (if ty = 76 then
         if n > 10 then cs else (have_flag HAVE_MSISDN cs)\<lparr>msisdn := put (msisdn cs) data\<rparr>
       else if ty = 1 then
         if n > 12 then cs else (have_flag HAVE_IMSI cs)\<lparr>imsi := put (imsi cs) data\<rparr>
       else if ty = 3 then
         if n \<noteq> 5 then cs else (have_flag HAVE_RECOVERY cs)\<lparr>recovery := put (recovery cs) data\<rparr>
       else if ty = 2 then
         if n \<noteq> 10 \<and> n \<noteq> 10 - 4 then cs else (have_flag HAVE_CAUSE cs)\<lparr>cause := put (cause cs) data\<rparr>
       else if ty = 75 then
         if n > 12 then cs else (have_flag HAVE_MEI cs)\<lparr>mei := put (mei cs) data\<rparr>
       else if ty = 87 then
         if n \<noteq> 25 \<and> n \<noteq> 25 - 12 then cs else (have_flag HAVE_FTEID_C cs)\<lparr>c_teid := put (c_teid cs) data\<rparr>
       else if ty = 72 then
         if n \<noteq> 12 then cs else (have_flag HAVE_AMBR_R cs)\<lparr>ambr_r := put (ambr_r cs) data\<rparr>
       else if ty = 94 then
         if n \<noteq> 8 then cs else (have_flag HAVE_CHRGID cs)\<lparr>charg := put (charg cs) data\<rparr>
       else if ty = 73 then
         if n \<noteq> 5 then cs else (have_flag HAVE_EBI cs)\<lparr>ebi_r := put (ebi_r cs) data\<rparr>
       else if ty = 82 then
         if n \<noteq> 5 then cs else (have_flag HAVE_RAT cs)\<lparr>rat := put (rat cs) data\<rparr>
       else if ty = 78 then
         if n \<ge> 258 then cs else parse_pco junk data cs
       else if ty = 79 then
         if n > 26 then cs else (have_flag HAVE_PAA cs)\<lparr>paa := put (paa cs) data\<rparr>
       else if ty = 127 then
         if n \<noteq> 5 then cs else (have_flag HAVE_APN_R cs)\<lparr>apn_r := put (apn_r cs) data\<rparr>
       else if ty = 80 then
         if n \<noteq> 26 then cs else (have_flag HAVE_BQOS_R cs)\<lparr>bqos_r := put (bqos_r cs) data\<rparr>
       else if ty = 99 then
         if n \<noteq> 5 then cs else (have_flag HAVE_PDN cs)\<lparr>pdn := put (pdn cs) data\<rparr>
       else cs, True))"

section \<open>Callbacks see only the octets of their item\<close>

text \<open>A callback applied to the octets of one item.\<close>

definition on_item :: "(byte \<Rightarrow> mem \<Rightarrow> nat \<Rightarrow> 16 word \<Rightarrow> 's \<Rightarrow> 's \<times> bool) \<Rightarrow> byte list \<Rightarrow> 's \<Rightarrow> 's" where
  "on_item cb b s = fst (cb (b ! 0) (mem_of 0 b) 0 (word_of_nat (length b)) s)"

lemma rd_mem_of: "length b = n \<Longrightarrow> rd_bytes (mem_of 0 b) 0 n = b"
  by (simp add: mem_of_def)

lemma unat_len16: "length b < 65536 \<Longrightarrow> unat (word_of_nat (length b) :: 16 word) = length b"
  by (simp add: unsigned_of_nat take_bit_eq_mod)

lemma bearer_context_on_item:
  assumes "rd_bytes m a (unat len) = b" "ty = b ! 0"
  shows "on_gtpc_parse_bearer_context ty m a len s = (on_item on_gtpc_parse_bearer_context b s, True)"
proof -
  have l: "length b = unat len" using assms(1) by (metis length_rd_bytes)
  have w: "word_of_nat (unat len) = len" by simp
  have "on_item on_gtpc_parse_bearer_context b s = fst (on_gtpc_parse_bearer_context ty m a len s)"
    by (simp only: on_item_def on_gtpc_parse_bearer_context_def Let_def assms l w rd_mem_of [OF l] fst_conv)
  moreover have "snd (on_gtpc_parse_bearer_context ty m a len s)" by (simp add: on_gtpc_parse_bearer_context_def Let_def)
  ultimately show ?thesis by (simp add: prod_eq_iff)
qed

lemma bearer_items_fold:
  assumes "rd_bytes m (a + 4 + unat cur) (unat len - unat cur) = concat kids" "\<forall>b \<in> set kids. tlv b" "kids \<noteq> []" "length kids \<le> n" "cur < len"
  shows "bearer_ctx_items n m a on_gtpc_parse_bearer_context len cur s =
    (foldl (\<lambda>s b. on_item on_gtpc_parse_bearer_context b s) s kids, True)"
  using assms
proof (induction n arbitrary: cur kids s)
  case (Suc n)
  obtain b rest where kids: "kids = b # rest" using Suc.prems(3) by (cases kids) auto
  let ?c = "a + 4 + unat cur"
  define h where "h = ldn16 m (Suc ?c) + 4"
  have total: "unat len = unat cur + length b + length (concat rest)"
    using arg_cong [OF Suc.prems(1), of length] Suc.prems(5) by (simp add: kids word_less_nat_alt)
  have lb: "length b < 65536" using total unat16_less [of len] by simp
  have tb: "tlv b" using Suc.prems(2) kids by simp
  note t = tlv_at [OF Suc.prems(1) [unfolded kids concat.simps] tb lb, unfolded One_nat_def add_Suc_right [of _ 0] add_0_right, folded h_def]
  have u: "unat (cur + h) = unat cur + length b" using total unat16_less [of len] t(2) by (simp add: unat_word_ariths)
  have cb: "on_gtpc_parse_bearer_context (m ?c) m ?c h s = (on_item on_gtpc_parse_bearer_context b s, True)" for s
    by (rule bearer_context_on_item) (use t in simp_all)
  have step: "bearer_ctx_items (Suc n) m a on_gtpc_parse_bearer_context len cur s =
      (if cur + h > len then (on_item on_gtpc_parse_bearer_context b s, False)
       else if cur + h = len then (on_item on_gtpc_parse_bearer_context b s, True)
       else bearer_ctx_items n m a on_gtpc_parse_bearer_context len (cur + h) (on_item on_gtpc_parse_bearer_context b s))" for s
    using Suc.prems(5) cb by (simp add: Let_def h_def)
  show ?case
  proof (cases "rest = []")
    case True
    then have "cur + h = len" using total u by (simp add: word_unat_eq_iff)
    then show ?thesis using True unfolding step kids by simp
  next
    case False
    have "0 < length (concat rest)" using False Suc.prems(2) kids by (cases rest) (auto simp: tlv_def)
    then have lt: "cur + h < len" using total u by (simp add: word_less_nat_alt)
    have "rd_bytes m (a + 4 + unat (cur + h)) (unat len - unat (cur + h)) = concat rest"
      using t(4) by (simp add: u add.assoc)
    then have "bearer_ctx_items n m a on_gtpc_parse_bearer_context len (cur + h) (on_item on_gtpc_parse_bearer_context b s) =
        (foldl (\<lambda>s b. on_item on_gtpc_parse_bearer_context b s) (on_item on_gtpc_parse_bearer_context b s) rest, True)"
      using Suc.prems(2,4) kids False lt by (intro Suc.IH) simp_all
    then show ?thesis using lt unfolding step kids by (auto dest: less_asym)
  qed
qed simp

text \<open>A Bearer Context made of well-formed items.\<close>

definition bctx_of :: "byte list list \<Rightarrow> byte list \<Rightarrow> bool" where
  "bctx_of kids b \<longleftrightarrow> tlv b \<and> b ! 0 = 93 \<and> drop 4 b = concat kids \<and> kids \<noteq> [] \<and> (\<forall>k \<in> set kids. tlv k) \<and> length kids \<le> 255"

lemma bctx_iterate:
  assumes "bctx_of kids b" "rd_bytes m a (length b) = b"
  shows "gtpc_iterate_bearer_ctx_item m a on_gtpc_parse_bearer_context s =
    (foldl (\<lambda>s b. on_item on_gtpc_parse_bearer_context b s) s kids, True)"
proof -
  have b: "tlv b" "drop 4 b = concat kids" "kids \<noteq> []" "\<forall>k \<in> set kids. tlv k" "length kids \<le> 255"
    using assms(1) by (simp_all add: bctx_of_def)
  have l: "4 \<le> length b" "unat (mk16 (b ! 2) (b ! 1)) + 4 = length b" using b(1) by (simp_all add: tlv_def)
  have "ldn16 m (a + 1) = mk16 (b ! 2) (b ! 1)" using ldn16_nth [OF assms(2), of 1] l by (simp add: numeral_2_eq_2)
  then have len: "length b = 4 + unat (ldn16 m (a + 1))" using l by (simp only: add.commute)
  note assms(2) [unfolded len rd_bytes_add]
  from arg_cong [OF this, of "drop 4"] have r: "rd_bytes m (a + 4) (unat (ldn16 m (a + 1))) = concat kids" using b(2) by simp
  have "0 < length (concat kids)" using b(3,4) by (cases kids) (auto simp: tlv_def)
  then have "0 < ldn16 m (a + 1)" using arg_cong [OF r, of length] by (simp add: word_less_nat_alt)
  then show ?thesis unfolding gtpc_iterate_bearer_ctx_item_def
    by (intro bearer_items_fold) (use b(3-5) r in simp_all)
qed

text \<open>A root item that the parser reads to its end: well-formed, and a Bearer Context is made of well-formed items.\<close>

definition root_item :: "byte list \<Rightarrow> bool" where
  "root_item b \<longleftrightarrow> tlv b \<and> (b ! 0 = 93 \<longrightarrow> (\<exists>kids. bctx_of kids b))"

abbreviation root_upd :: "mem \<Rightarrow> byte list \<Rightarrow> parse_state \<Rightarrow> parse_state" where
  "root_upd junk \<equiv> on_item (on_gtpc_parse_root junk)"

abbreviation kid_upd :: "byte list \<Rightarrow> parse_state \<Rightarrow> parse_state" where
  "kid_upd \<equiv> on_item on_gtpc_parse_bearer_context"

lemma root_upd_bctx:
  assumes "bctx_of kids b" shows "root_upd junk b s = foldl (\<lambda>s b. kid_upd b s) (have_flag HAVE_BCTX s) kids"
proof -
  have "b ! 0 = 93" using assms by (simp add: bctx_of_def)
  then show ?thesis using bctx_iterate [OF assms, of "mem_of 0 b" 0] by (simp add: on_item_def on_gtpc_parse_root_def rd_mem_of)
qed

lemma root_on_item:
  assumes "rd_bytes m a (unat len) = b" "ty = b ! 0" "root_item b"
  shows "on_gtpc_parse_root junk ty m a len s = (root_upd junk b s, True)"
proof (cases "ty = 93")
  case True
  then obtain kids where k: "bctx_of kids b" using assms(2,3) by (auto simp: root_item_def)
  have "length b = unat len" using assms(1) by (metis length_rd_bytes)
  then show ?thesis using bctx_iterate [OF k, of m a] root_upd_bctx [OF k] assms(1) True by (simp add: on_gtpc_parse_root_def)
next
  case False
  have l: "length b = unat len" using assms(1) by (metis length_rd_bytes)
  have w: "word_of_nat (unat len) = len" by simp
  have "root_upd junk b s = fst (on_gtpc_parse_root junk ty m a len s)"
    using False unfolding assms(2)
    by (simp only: on_item_def on_gtpc_parse_root_def Let_def assms(1) l w rd_mem_of [OF l] if_False fst_conv)
  moreover have "snd (on_gtpc_parse_root junk ty m a len s)" using False by (simp add: on_gtpc_parse_root_def Let_def)
  ultimately show ?thesis by (simp add: prod_eq_iff)
qed

lemma iterate_root:
  assumes "contents p = map typed bs" "\<forall>b \<in> set bs. root_item b"
  shows "gtpc_iterate_item p (on_gtpc_parse_root junk) s = (foldl (\<lambda>s b. root_upd junk b s) s bs, True)"
proof -
  have "iterate_items (g_packet p) (on_gtpc_parse_root junk) xs s = (foldl (\<lambda>s b. root_upd junk b s) s bs, True)"
    if "map (\<lambda>i. (ucast (i_type i), item_bytes p i)) xs = map typed bs" "\<forall>b \<in> set bs. root_item b" for xs
    using that
  proof (induction xs arbitrary: bs s)
    case (Cons i xs)
    then obtain b rest where bs: "bs = b # rest" by (cases bs) auto
    have i: "(ucast (i_type i) :: byte) = b ! 0" "item_bytes p i = b" using Cons.prems(1) by (simp_all add: bs typed_def)
    have "on_gtpc_parse_root junk (ucast (i_type i)) (g_packet p) (unat (i_offset i)) (i_length i) s = (root_upd junk b s, True)"
      using i Cons.prems(2) by (intro root_on_item) (simp_all add: bs item_bytes_def)
    then show ?case using Cons.IH [of rest "root_upd junk b s"] Cons.prems by (simp add: bs)
  qed simp
  with assms show ?thesis by (simp add: gtpc_iterate_item_def contents_def)
qed

section \<open>What the state holds afterwards\<close>

text \<open>Options of a PCO touch nothing but the lower eleven flags.\<close>

definition low_flags :: "parse_state \<Rightarrow> parse_state \<Rightarrow> bool" where
  "low_flags cs cs' \<longleftrightarrow> cs' = cs\<lparr>flag := flag cs', flag_v1 := flag_v1 cs'\<rparr> \<and> (\<forall>k \<ge> 11. bit (flag cs') k = bit (flag cs) k)"

lemma low_flags_refl: "low_flags cs cs"
  by (simp add: low_flags_def)

lemma low_flags_trans: "low_flags a b \<Longrightarrow> low_flags b c \<Longrightarrow> low_flags a c"
  unfolding low_flags_def by (metis (no_types, lifting) parse_state.update_convs(1,2) parse_state.surjective parse_state.select_convs)

lemma bit_flag: "bit (f OR flag_bit n) k \<longleftrightarrow> bit f k \<or> n = k \<and> k < 32"
  by (auto simp: flag_bit_def bit_simps)

lemma low_flags_request: "low_flags cs (pco_request ty cs)"
  by (auto simp: low_flags_def pco_request_def have_flag_def bit_flag)

lemma low_flags_ipcp: "gtpc_iterate_pco_ipcp_item P a cs = Some cs' \<Longrightarrow> low_flags cs cs'"
  by (auto simp: low_flags_def gtpc_iterate_pco_ipcp_item_def ipcp_option_def bit_flag split: if_splits)

lemma low_flags_pco_loop: "low_flags cs (pco_loop n P len off cs)"
proof (induction n P len off cs rule: pco_loop.induct)
  case (2 n P len off cs)
  let ?cs = "pco_option P off cs"
  have r: "low_flags cs ?cs" by (simp add: pco_option_def low_flags_request low_flags_refl)
  show ?case
  proof (cases "off < len")
    case True
    have "low_flags ?cs (pco_loop (Suc n) P len off cs)"
    proof (cases "ldn16 P off = 0x8021")
      case t: True
      show ?thesis
      proof (cases "gtpc_iterate_pco_ipcp_item P (off + 3) ?cs")
        case None then show ?thesis using True t by (simp add: low_flags_refl Let_def)
      next
        case (Some cs'')
        then have "low_flags cs'' (pco_loop n P len (off + 3 + unat (P (off + 2))) cs'')" using "2.IH"(1) True t by blast
        then show ?thesis using True t Some low_flags_trans [OF low_flags_ipcp [OF Some]] by (simp add: Let_def)
      qed
    next
      case False then show ?thesis using "2.IH"(2) True by (simp add: Let_def)
    qed
    with r show ?thesis by (rule low_flags_trans)
  qed (simp add: low_flags_refl)
qed (simp add: low_flags_refl)

lemma low_flags_fields:
  assumes "low_flags a b"
  shows "msisdn b = msisdn a" "imsi b = imsi a" "c_teid b = c_teid a" "u_teid b = u_teid a" "ambr_r b = ambr_r a" "bqos b = bqos a"
    "ebi_b b = ebi_b a" "recovery b = recovery a" "pdn b = pdn a" "11 \<le> k \<Longrightarrow> bit (flag b) k = bit (flag a) k"
proof -
  have b: "b = a\<lparr>flag := flag b, flag_v1 := flag_v1 b\<rparr>" using assms by (simp add: low_flags_def)
  show "msisdn b = msisdn a" "imsi b = imsi a" "c_teid b = c_teid a" "u_teid b = u_teid a" "ambr_r b = ambr_r a" "bqos b = bqos a"
    "ebi_b b = ebi_b a" "recovery b = recovery a" "pdn b = pdn a"
    by (subst b, simp)+
qed (use assms in \<open>simp add: low_flags_def\<close>)

lemma parse_pco_fields:
  "msisdn (parse_pco junk d s) = msisdn s" "imsi (parse_pco junk d s) = imsi s" "c_teid (parse_pco junk d s) = c_teid s"
  "u_teid (parse_pco junk d s) = u_teid s" "ambr_r (parse_pco junk d s) = ambr_r s" "bqos (parse_pco junk d s) = bqos s"
  "ebi_b (parse_pco junk d s) = ebi_b s" "recovery (parse_pco junk d s) = recovery s" "pdn (parse_pco junk d s) = pdn s"
  "11 \<le> k \<Longrightarrow> bit (flag (parse_pco junk d s)) k \<longleftrightarrow> bit (flag s) k \<or> k = 19"
  by (simp_all add: parse_pco_def Let_def low_flags_fields [OF low_flags_pco_loop] have_flag_def bit_flag) auto

text \<open>A message as a tree: plain items, and Bearer Contexts with their nested items.\<close>

datatype gitem = Plain "byte list" | Bctx byte "byte list list"

fun gbytes :: "gitem \<Rightarrow> byte list" where
  "gbytes (Plain b) = b"
| "gbytes (Bctx inst kids) = [93] @ be16 (word_of_nat (length (concat kids))) @ [inst] @ concat kids"

fun gitem_ok :: "gitem \<Rightarrow> bool" where
  "gitem_ok (Plain b) \<longleftrightarrow> tlv b \<and> b ! 0 \<noteq> 93 \<and> length b < ETHER_MAX_LEN"
| "gitem_ok (Bctx inst kids) \<longleftrightarrow> kids \<noteq> [] \<and> (\<forall>k \<in> set kids. tlv k) \<and> length kids \<le> 255 \<and> length (concat kids) + 4 < ETHER_MAX_LEN"

fun plain :: "gitem \<Rightarrow> byte list list" where
  "plain (Plain b) = [b]"
| "plain (Bctx inst kids) = []"

fun nested :: "gitem \<Rightarrow> byte list list" where
  "nested (Plain b) = []"
| "nested (Bctx inst kids) = kids"

lemma gbytes_bctx:
  assumes "gitem_ok (Bctx inst kids)" shows "bctx_of kids (gbytes (Bctx inst kids))"
proof -
  have "unat (word_of_nat (length (concat kids)) :: 16 word) = length (concat kids)" using assms by (intro unat_len16) simp
  then show ?thesis using assms by (simp add: bctx_of_def tlv_def be16_def numeral_eq_Suc)
qed

lemma gitem_root: "gitem_ok g \<Longrightarrow> root_item (gbytes g)"
  using gbytes_bctx by (cases g) (auto simp: root_item_def bctx_of_def)

text \<open>The items of one type and of an accepted size.\<close>

definition sized :: "byte \<Rightarrow> (nat \<Rightarrow> bool) \<Rightarrow> byte list \<Rightarrow> bool" where
  "sized ty ok b \<longleftrightarrow> b ! 0 = ty \<and> ok (length b)"

lemmas upd_defs = on_item_def on_gtpc_parse_root_def on_gtpc_parse_bearer_context_def Let_def have_flag_def sized_def

lemma kid_upd_fields:
  assumes "length b < 65536"
  shows "msisdn (kid_upd b s) = msisdn s" "imsi (kid_upd b s) = imsi s" "c_teid (kid_upd b s) = c_teid s"
    "ambr_r (kid_upd b s) = ambr_r s" "recovery (kid_upd b s) = recovery s" "pdn (kid_upd b s) = pdn s"
    "u_teid (kid_upd b s) = (if sized 87 (\<lambda>n. n = 25 \<or> n = 13) b then put (u_teid s) b else u_teid s)"
    "bqos (kid_upd b s) = (if sized 80 (\<lambda>n. n = 26) b then put (bqos s) b else bqos s)"
    "ebi_b (kid_upd b s) = (if sized 73 (\<lambda>n. n = 5) b then put (ebi_b s) b else ebi_b s)"
    "bit (flag (kid_upd b s)) 29 \<longleftrightarrow> bit (flag s) 29 \<or> sized 87 (\<lambda>n. n = 25 \<or> n = 13) b"
    "bit (flag (kid_upd b s)) 27 \<longleftrightarrow> bit (flag s) 27 \<or> sized 80 (\<lambda>n. n = 26) b"
    "bit (flag (kid_upd b s)) 14 \<longleftrightarrow> bit (flag s) 14 \<or> sized 73 (\<lambda>n. n = 5) b"
    "k \<in> {31, 30, 25, 13, 24, 12} \<Longrightarrow> bit (flag (kid_upd b s)) k = bit (flag s) k"
  using assms by (auto simp: upd_defs unat_len16 rd_mem_of bit_flag)

lemma plain_upd_fields:
  assumes "length b < 65536" "b ! 0 \<noteq> 93"
  shows "msisdn (root_upd junk b s) = (if sized 76 (\<lambda>n. n \<le> 10) b then put (msisdn s) b else msisdn s)"
    "imsi (root_upd junk b s) = (if sized 1 (\<lambda>n. n \<le> 12) b then put (imsi s) b else imsi s)"
    "c_teid (root_upd junk b s) = (if sized 87 (\<lambda>n. n = 25 \<or> n = 13) b then put (c_teid s) b else c_teid s)"
    "ambr_r (root_upd junk b s) = (if sized 72 (\<lambda>n. n = 12) b then put (ambr_r s) b else ambr_r s)"
    "recovery (root_upd junk b s) = (if sized 3 (\<lambda>n. n = 5) b then put (recovery s) b else recovery s)"
    "pdn (root_upd junk b s) = (if sized 99 (\<lambda>n. n = 5) b then put (pdn s) b else pdn s)"
    "u_teid (root_upd junk b s) = u_teid s" "bqos (root_upd junk b s) = bqos s" "ebi_b (root_upd junk b s) = ebi_b s"
  using assms by (simp_all add: upd_defs unat_len16 rd_mem_of parse_pco_fields not_le)

lemma plain_upd_flags:
  assumes "length b < 65536" "b ! 0 \<noteq> 93"
  shows "bit (flag (root_upd junk b s)) 31 \<longleftrightarrow> bit (flag s) 31 \<or> sized 76 (\<lambda>n. n \<le> 10) b"
    "bit (flag (root_upd junk b s)) 30 \<longleftrightarrow> bit (flag s) 30 \<or> sized 87 (\<lambda>n. n = 25 \<or> n = 13) b"
    "bit (flag (root_upd junk b s)) 25 \<longleftrightarrow> bit (flag s) 25 \<or> sized 1 (\<lambda>n. n \<le> 12) b"
    "bit (flag (root_upd junk b s)) 24 \<longleftrightarrow> bit (flag s) 24 \<or> sized 3 (\<lambda>n. n = 5) b"
    "bit (flag (root_upd junk b s)) 13 \<longleftrightarrow> bit (flag s) 13 \<or> sized 72 (\<lambda>n. n = 12) b"
    "bit (flag (root_upd junk b s)) 12 \<longleftrightarrow> bit (flag s) 12 \<or> sized 99 (\<lambda>n. n = 5) b"
    "k \<in> {29, 27, 14} \<Longrightarrow> bit (flag (root_upd junk b s)) k = bit (flag s) k"
  using assms by (auto simp: upd_defs unat_len16 rd_mem_of parse_pco_fields bit_flag)

section \<open>Collecting\<close>

text \<open>
  One component of the state that collects items: what a plain item and a nested item do to it. The client
  lemma says what it holds after a whole message.
\<close>

definition roots :: "gitem list \<Rightarrow> byte list list" where
  "roots gs = concat (map plain gs)"

definition nesteds :: "gitem list \<Rightarrow> byte list list" where
  "nesteds gs = concat (map nested gs)"

definition parse_items_of :: "mem \<Rightarrow> gitem list \<Rightarrow> parse_state \<Rightarrow> parse_state" where
  "parse_items_of junk gs s = foldl (\<lambda>s g. root_upd junk (gbytes g) s) s gs"

locale collected =
  fixes f :: "parse_state \<Rightarrow> 'a" and comb :: "'a \<Rightarrow> byte list \<Rightarrow> 'a" and root kid :: "byte list \<Rightarrow> bool"
  assumes context_flag: "f (have_flag HAVE_BCTX s) = f s"
    and root_law: "length b < 65536 \<Longrightarrow> b ! 0 \<noteq> 93 \<Longrightarrow> f (root_upd junk b s) = (if root b then comb (f s) b else f s)"
    and kid_law: "length b < 65536 \<Longrightarrow> f (kid_upd b s) = (if kid b then comb (f s) b else f s)"
begin

lemma kids: "\<forall>b \<in> set bs. length b < 65536 \<Longrightarrow> f (foldl (\<lambda>s b. kid_upd b s) s bs) = foldl comb (f s) (filter kid bs)"
  by (induction bs arbitrary: s) (simp_all add: kid_law)

lemma one: "gitem_ok g \<Longrightarrow> f (root_upd junk (gbytes g) s) = foldl comb (f s) (filter root (plain g) @ filter kid (nested g))"
proof (cases g)
  case (Plain b)
  moreover assume "gitem_ok g"
  ultimately show ?thesis using root_law [of b junk s] by simp
next
  case (Bctx inst ks)
  moreover assume ok: "gitem_ok g"
  moreover have "\<forall>b \<in> set ks. length b < 65536"
  proof
    fix b assume "b \<in> set ks"
    then have "length b \<le> length (concat ks)" by (simp add: length_concat member_le_sum_list)
    moreover have "length (concat ks) < 65536" using ok Bctx by simp
    ultimately show "length b < 65536" by simp
  qed
  ultimately show ?thesis using gbytes_bctx [of inst ks] kids [of ks "have_flag HAVE_BCTX s"]
    by (simp add: root_upd_bctx context_flag del: gbytes.simps)
qed

lemma collects:
  "\<forall>g \<in> set gs. gitem_ok g \<Longrightarrow>
     f (parse_items_of junk gs s) = foldl comb (f s) (concat (map (\<lambda>g. filter root (plain g) @ filter kid (nested g)) gs))"
  by (induction gs arbitrary: s) (simp_all add: parse_items_of_def one)

lemma collects_roots:
  "\<forall>g \<in> set gs. gitem_ok g \<Longrightarrow> (\<And>b. \<not> kid b) \<Longrightarrow> f (parse_items_of junk gs s) = foldl comb (f s) (filter root (roots gs))"
  by (simp add: collects roots_def filter_concat comp_def)

lemma collects_nesteds:
  "\<forall>g \<in> set gs. gitem_ok g \<Longrightarrow> (\<And>b. \<not> root b) \<Longrightarrow> f (parse_items_of junk gs s) = foldl comb (f s) (filter kid (nesteds gs))"
  by (simp add: collects nesteds_def filter_concat comp_def)

end

abbreviation (input) never :: "byte list \<Rightarrow> bool" where "never \<equiv> \<lambda>_. False"
abbreviation (input) seen :: "bool \<Rightarrow> byte list \<Rightarrow> bool" where "seen \<equiv> \<lambda>_ _. True"

lemma seen_fold: "foldl (\<lambda>_ _. True) v xs \<longleftrightarrow> v \<or> xs \<noteq> []"
  by (induction xs arbitrary: v) auto

lemmas collected_facts = have_flag_def bit_flag plain_upd_fields plain_upd_flags kid_upd_fields

interpretation got_msisdn: collected msisdn put "sized 76 (\<lambda>n. n \<le> 10)" never
  by unfold_locales (simp_all add: collected_facts)
interpretation got_imsi: collected imsi put "sized 1 (\<lambda>n. n \<le> 12)" never
  by unfold_locales (simp_all add: collected_facts)
interpretation got_c_teid: collected c_teid put "sized 87 (\<lambda>n. n = 25 \<or> n = 13)" never
  by unfold_locales (simp_all add: collected_facts)
interpretation got_ambr: collected ambr_r put "sized 72 (\<lambda>n. n = 12)" never
  by unfold_locales (simp_all add: collected_facts)
interpretation got_recovery: collected recovery put "sized 3 (\<lambda>n. n = 5)" never
  by unfold_locales (simp_all add: collected_facts)
interpretation got_pdn: collected pdn put "sized 99 (\<lambda>n. n = 5)" never
  by unfold_locales (simp_all add: collected_facts)
interpretation got_u_teid: collected u_teid put never "sized 87 (\<lambda>n. n = 25 \<or> n = 13)"
  by unfold_locales (simp_all add: collected_facts)
interpretation got_bqos: collected bqos put never "sized 80 (\<lambda>n. n = 26)"
  by unfold_locales (simp_all add: collected_facts)
interpretation got_ebi: collected ebi_b put never "sized 73 (\<lambda>n. n = 5)"
  by unfold_locales (simp_all add: collected_facts)
interpretation has_msisdn: collected "\<lambda>s. bit (flag s) 31" seen "sized 76 (\<lambda>n. n \<le> 10)" never
  by unfold_locales (simp_all add: collected_facts)
interpretation has_imsi: collected "\<lambda>s. bit (flag s) 25" seen "sized 1 (\<lambda>n. n \<le> 12)" never
  by unfold_locales (simp_all add: collected_facts)
interpretation has_c_teid: collected "\<lambda>s. bit (flag s) 30" seen "sized 87 (\<lambda>n. n = 25 \<or> n = 13)" never
  by unfold_locales (simp_all add: collected_facts)
interpretation has_ambr: collected "\<lambda>s. bit (flag s) 13" seen "sized 72 (\<lambda>n. n = 12)" never
  by unfold_locales (simp_all add: collected_facts)
interpretation has_u_teid: collected "\<lambda>s. bit (flag s) 29" seen never "sized 87 (\<lambda>n. n = 25 \<or> n = 13)"
  by unfold_locales (simp_all add: collected_facts)
interpretation has_bqos: collected "\<lambda>s. bit (flag s) 27" seen never "sized 80 (\<lambda>n. n = 26)"
  by unfold_locales (simp_all add: collected_facts)

lemma iterate_gitems:
  assumes "contents p = map (typed \<circ> gbytes) gs" "\<forall>g \<in> set gs. gitem_ok g"
  shows "gtpc_iterate_item p (on_gtpc_parse_root junk) s = (parse_items_of junk gs s, True)"
  using iterate_root [of p "map gbytes gs" junk s] assms gitem_root by (simp add: parse_items_of_def foldl_map)

end
