(* ===== verification/Gtpc_Message.thy ===== *)
theory Gtpc_Message
  imports Gtpc_Parse
begin

text \<open>
  What the parser of GTP-C messages collects: the requests in the protocol configuration options, and
  the items of a whole message.
\<close>

section \<open>Protocol configuration options\<close>

text \<open>Requests in a PCO: identifiers with contents.\<close>

definition pco_enc :: "16 word \<times> byte list \<Rightarrow> byte list" where
  "pco_enc o1 = be16 (fst o1) @ [word_of_nat (length (snd o1))] @ snd o1"

definition pco_seen :: "16 word \<times> byte list \<Rightarrow> parse_state \<Rightarrow> parse_state" where
  "pco_seen o1 cs = (if snd o1 = [] then pco_request (fst o1) cs else cs)"

lemma bit_flag_bit: "bit (flag_bit n) k \<longleftrightarrow> n = k \<and> k < 32"
  by (auto simp: flag_bit_def bit_simps)

lemma and_flag_bit:
  assumes "n < 32" shows "f AND flag_bit n = flag_bit n \<longleftrightarrow> bit f n"
proof
  assume "f AND flag_bit n = flag_bit n"
  from arg_cong [OF this, of "\<lambda>w. bit w n"] show "bit f n" using assms by (simp add: bit_and_iff bit_flag_bit)
next
  assume "bit f n"
  then show "f AND flag_bit n = flag_bit n" by (intro bit_word_eqI) (auto simp: bit_and_iff bit_flag_bit)
qed

lemmas res_order = and_flag_bit [of 0, simplified]

lemma bit0_request: "bit (flag (pco_request ty cs)) 0 = bit (flag cs) 0"
  unfolding pco_request_def have_flag_def by (simp add: bit_flag)

lemma pco_loop_options:
  assumes "rd_bytes P off (length (concat (map pco_enc os))) = concat (map pco_enc os)"
    "len + 1 = off + length (concat (map pco_enc os))" "length os \<le> n"
    "\<forall>o1 \<in> set os. length (snd o1) < 256 \<and> fst o1 \<noteq> 0x8021" "\<not> bit (flag cs) 0"
  shows "pco_loop n P len off cs = foldl (\<lambda>cs o1. pco_seen o1 cs) cs os"
  using assms
proof (induction n arbitrary: off os cs)
  case (Suc n)
  show ?case
  proof (cases os)
    case Nil
    then show ?thesis using Suc.prems(2) by simp
  next
    case (Cons o1 rest)
    let ?b = "pco_enc o1" and ?R = "concat (map pco_enc rest)"
    have n: "length (snd o1) < 256" "fst o1 \<noteq> 0x8021" using Suc.prems(4) Cons by simp_all
    have lb: "length ?b = 3 + length (snd o1)" by (simp add: pco_enc_def)
    have cat: "rd_bytes P off (length ?b + length ?R) = ?b @ ?R" using Suc.prems(1) Cons by simp
    have b: "rd_bytes P off (length ?b) = ?b" by (rule rd_bytes_prefix [OF cat])
    have r: "rd_bytes P (off + length ?b) (length ?R) = ?R" using cat b by (simp add: rd_bytes_add)
    have ty: "ldn16 P off = fst o1" using ldn16_nth [OF b, of 0] lb by (simp add: pco_enc_def be16_def)
    have u: "unat (word_of_nat (length (snd o1)) :: byte) = length (snd o1)"
      using n(1) by (simp add: unsigned_of_nat take_bit_eq_mod)
    have pl: "P (off + 2) = word_of_nat (length (snd o1))"
      using nth_rd_bytes [of 2 "length ?b" P off] lb unfolding b by (simp add: pco_enc_def be16_def numeral_2_eq_2)
    have z: "(word_of_nat (length (snd o1)) :: byte) = 0 \<longleftrightarrow> snd o1 = []" unfolding word_unat_eq_iff u by simp
    have upl: "unat (P (Suc (Suc off))) = length (snd o1)" using pl u by simp
    have opt: "pco_option P off cs = pco_seen o1 cs" using Suc.prems(5) z pl ty by (simp add: pco_option_def pco_seen_def res_order)
    have lt: "off < len" using Suc.prems(2) lb Cons by simp
    have "pco_loop n P len (off + length ?b) (pco_seen o1 cs) = foldl (\<lambda>cs o1. pco_seen o1 cs) (pco_seen o1 cs) rest"
    proof (rule Suc.IH)
      show "\<not> bit (flag (pco_seen o1 cs)) 0" using Suc.prems(5) by (simp add: pco_seen_def bit0_request)
      show "rd_bytes P (off + length ?b) (length (concat (map pco_enc rest))) = concat (map pco_enc rest)" by (rule r)
    qed (use Suc.prems Cons in simp_all)
    then show ?thesis using lt n(2) upl by (simp add: Let_def opt ty lb Cons add.assoc)
  qed
qed auto

section \<open>Properties\<close>

definition INCLUDED_ALL :: "32 word" where
  "INCLUDED_ALL = HAVE_MSISDN OR HAVE_FTEID_C OR HAVE_FTEID_U OR HAVE_AMBR_R OR HAVE_BQOS"

lemma included_all_iff:
  "f AND INCLUDED_ALL = INCLUDED_ALL \<longleftrightarrow> bit f 31 \<and> bit f 30 \<and> bit f 29 \<and> bit f 13 \<and> bit f 27"
proof
  assume *: "f AND INCLUDED_ALL = INCLUDED_ALL"
  have "bit INCLUDED_ALL k \<Longrightarrow> bit f k" for k using arg_cong [OF *, of "\<lambda>w. bit w k"] by (simp add: bit_and_iff)
  moreover have "bit INCLUDED_ALL k" if "k \<in> {31, 30, 29, 13, 27}" for k using that by (auto simp: INCLUDED_ALL_def bit_or_iff bit_flag_bit)
  ultimately show "bit f 31 \<and> bit f 30 \<and> bit f 29 \<and> bit f 13 \<and> bit f 27" by simp
next
  assume "bit f 31 \<and> bit f 30 \<and> bit f 29 \<and> bit f 13 \<and> bit f 27"
  then show "f AND INCLUDED_ALL = INCLUDED_ALL"
    by (intro bit_word_eqI) (auto simp: INCLUDED_ALL_def bit_and_iff bit_or_iff bit_flag_bit)
qed

lemma collected_items:
  assumes "contents p = map (typed \<circ> gbytes) gs" "\<forall>g \<in> set gs. gitem_ok g"
  shows "\<exists>cs. gtpc_iterate_item p (on_gtpc_parse_root junk) zero_state = (cs, True) \<and>
    msisdn cs = foldl put (zeros 10) (filter (sized 76 (\<lambda>n. n \<le> 10)) (roots gs)) \<and>
    imsi cs = foldl put (zeros 12) (filter (sized 1 (\<lambda>n. n \<le> 12)) (roots gs)) \<and>
    c_teid cs = foldl put (zeros 25) (filter (sized 87 (\<lambda>n. n = 25 \<or> n = 13)) (roots gs)) \<and>
    u_teid cs = foldl put (zeros 25) (filter (sized 87 (\<lambda>n. n = 25 \<or> n = 13)) (nesteds gs)) \<and>
    ebi_b cs = foldl put (zeros 5) (filter (sized 73 (\<lambda>n. n = 5)) (nesteds gs)) \<and>
    (flag cs AND INCLUDED_ALL = INCLUDED_ALL \<longleftrightarrow>
      (\<exists>b \<in> set (roots gs). sized 76 (\<lambda>n. n \<le> 10) b) \<and> (\<exists>b \<in> set (roots gs). sized 87 (\<lambda>n. n = 25 \<or> n = 13) b) \<and>
      (\<exists>b \<in> set (nesteds gs). sized 87 (\<lambda>n. n = 25 \<or> n = 13) b) \<and> (\<exists>b \<in> set (roots gs). sized 72 (\<lambda>n. n = 12) b) \<and>
      (\<exists>b \<in> set (nesteds gs). sized 80 (\<lambda>n. n = 26) b))"
proof (intro exI conjI)
  let ?cs = "parse_items_of junk gs zero_state"
  note ok = assms(2)
  have z: "flag zero_state = 0" by (simp add: zero_state_def)
  show "gtpc_iterate_item p (on_gtpc_parse_root junk) zero_state = (?cs, True)" by (rule iterate_gitems [OF assms])
  show "msisdn ?cs = foldl put (zeros 10) (filter (sized 76 (\<lambda>n. n \<le> 10)) (roots gs))"
    using got_msisdn.collects_roots [OF ok] by (simp add: zero_state_def)
  show "imsi ?cs = foldl put (zeros 12) (filter (sized 1 (\<lambda>n. n \<le> 12)) (roots gs))"
    using got_imsi.collects_roots [OF ok] by (simp add: zero_state_def)
  show "c_teid ?cs = foldl put (zeros 25) (filter (sized 87 (\<lambda>n. n = 25 \<or> n = 13)) (roots gs))"
    using got_c_teid.collects_roots [OF ok] by (simp add: zero_state_def)
  show "u_teid ?cs = foldl put (zeros 25) (filter (sized 87 (\<lambda>n. n = 25 \<or> n = 13)) (nesteds gs))"
    using got_u_teid.collects_nesteds [OF ok] by (simp add: zero_state_def)
  show "ebi_b ?cs = foldl put (zeros 5) (filter (sized 73 (\<lambda>n. n = 5)) (nesteds gs))"
    using got_ebi.collects_nesteds [OF ok] by (simp add: zero_state_def)
  have bits: "bit (flag ?cs) 31 \<longleftrightarrow> (\<exists>b \<in> set (roots gs). sized 76 (\<lambda>n. n \<le> 10) b)"
    "bit (flag ?cs) 30 \<longleftrightarrow> (\<exists>b \<in> set (roots gs). sized 87 (\<lambda>n. n = 25 \<or> n = 13) b)"
    "bit (flag ?cs) 13 \<longleftrightarrow> (\<exists>b \<in> set (roots gs). sized 72 (\<lambda>n. n = 12) b)"
    "bit (flag ?cs) 29 \<longleftrightarrow> (\<exists>b \<in> set (nesteds gs). sized 87 (\<lambda>n. n = 25 \<or> n = 13) b)"
    "bit (flag ?cs) 27 \<longleftrightarrow> (\<exists>b \<in> set (nesteds gs). sized 80 (\<lambda>n. n = 26) b)"
    using has_msisdn.collects_roots [OF ok] has_c_teid.collects_roots [OF ok] has_ambr.collects_roots [OF ok]
      has_u_teid.collects_nesteds [OF ok] has_bqos.collects_nesteds [OF ok]
    by (simp_all add: z seen_fold filter_empty_conv)
  show "flag ?cs AND INCLUDED_ALL = INCLUDED_ALL \<longleftrightarrow>
      (\<exists>b \<in> set (roots gs). sized 76 (\<lambda>n. n \<le> 10) b) \<and> (\<exists>b \<in> set (roots gs). sized 87 (\<lambda>n. n = 25 \<or> n = 13) b) \<and>
      (\<exists>b \<in> set (nesteds gs). sized 87 (\<lambda>n. n = 25 \<or> n = 13) b) \<and> (\<exists>b \<in> set (roots gs). sized 72 (\<lambda>n. n = 12) b) \<and>
      (\<exists>b \<in> set (nesteds gs). sized 80 (\<lambda>n. n = 26) b)"
    unfolding included_all_iff bits by blast
qed

text \<open>Reading a message collects its items: for any packet made of plain items and Bearer Contexts of well-formed items,
  the iteration succeeds, whatever the order and whatever other items there are; each structure of the state holds the items
  of its type and of an accepted size (the last one in front), those of Bearer Contexts apart from those of the root, and each
  flag tells whether such an item was there. A Create Session Request is complete iff it has the five mandatory items.\<close>

theorem parse_collects_items:
  assumes "contents p = map (typed \<circ> gbytes) gs" "\<forall>g \<in> set gs. gitem_ok g"
  shows "\<exists>cs. gtpc_iterate_item p (on_gtpc_parse_root junk) zero_state = (cs, True) \<and>
    msisdn cs = foldl put (zeros 10) (filter (sized 76 (\<lambda>n. n \<le> 10)) (roots gs)) \<and>
    imsi cs = foldl put (zeros 12) (filter (sized 1 (\<lambda>n. n \<le> 12)) (roots gs)) \<and>
    c_teid cs = foldl put (zeros 25) (filter (sized 87 (\<lambda>n. n = 25 \<or> n = 13)) (roots gs)) \<and>
    u_teid cs = foldl put (zeros 25) (filter (sized 87 (\<lambda>n. n = 25 \<or> n = 13)) (nesteds gs)) \<and>
    ebi_b cs = foldl put (zeros 5) (filter (sized 73 (\<lambda>n. n = 5)) (nesteds gs)) \<and>
    (flag cs AND INCLUDED_ALL = INCLUDED_ALL \<longleftrightarrow>
      (\<exists>b \<in> set (roots gs). sized 76 (\<lambda>n. n \<le> 10) b) \<and> (\<exists>b \<in> set (roots gs). sized 87 (\<lambda>n. n = 25 \<or> n = 13) b) \<and>
      (\<exists>b \<in> set (nesteds gs). sized 87 (\<lambda>n. n = 25 \<or> n = 13) b) \<and> (\<exists>b \<in> set (roots gs). sized 72 (\<lambda>n. n = 12) b) \<and>
      (\<exists>b \<in> set (nesteds gs). sized 80 (\<lambda>n. n = 26) b))"
  by (rule collected_items [OF assms])

lemma demo_packet:
  obtains p where "contents p = map (typed \<circ> gbytes) (map Plain demo_items)" "gtp_wf p"
proof (rule demo_built)
  fix p0 p assume *: "gtpc_alloc_packet (\<lambda>_. True) (\<lambda>_. 0) 33 = Some p0" "append_all (\<lambda>_. True) (map typed demo_items) p0 = Some p"
  note w = alloc_packet_wf [OF *(1)]
  show ?thesis using append_all_ok(1,2) [OF w(1) *(2)] w(2) by (intro that [of p]) (simp_all add: comp_def)
qed

lemma demo_gitems: "\<forall>g \<in> set (map Plain demo_items). gitem_ok g"
  using demo_items_ok(2) by (simp add: demo_items_def)

theorem parse_collects_items_witness:
  "\<exists>p cs. contents p = map (typed \<circ> gbytes) (map Plain demo_items) \<and>
     gtpc_iterate_item p (on_gtpc_parse_root (\<lambda>_. 0)) zero_state = (cs, True) \<and> flag cs AND INCLUDED_ALL \<noteq> INCLUDED_ALL"
proof (rule demo_packet)
  fix p assume p: "contents p = map (typed \<circ> gbytes) (map Plain demo_items)"
  from parse_collects_items [OF p demo_gitems, of "\<lambda>_. 0"]
  show ?thesis using p by (auto simp: nesteds_def demo_items_def)
qed

text \<open>The subscriber's numbers survive: an IMSI and an MSISDN that the setters accept and that are the only ones in a
  message are read back as the same numbers, as long as no earlier call left \<open>ERANGE\<close> in \<open>errno\<close>; otherwise every number
  reads as \<open>2^64 - 1\<close>.\<close>

theorem subscriber_numbers_survive:
  assumes "gtpc_imsi_set i = Some a" "gtpc_msisdn_set n = Some b" "contents p = map (typed \<circ> gbytes) gs" "\<forall>g \<in> set gs. gitem_ok g"
    "filter (sized 1 (\<lambda>n. n \<le> 12)) (roots gs) = [a]" "filter (sized 76 (\<lambda>n. n \<le> 10)) (roots gs) = [b]"
  shows "\<exists>cs. gtpc_iterate_item p (on_gtpc_parse_root junk) zero_state = (cs, True) \<and>
    gtpc_digits_get stale (drop 4 (imsi cs)) = (if stale then - 1 else i) \<and>
    gtpc_digits_get stale (drop 4 (msisdn cs)) = (if stale then - 1 else n)"
proof (intro exI conjI)
  let ?cs = "parse_items_of junk gs zero_state"
  show "gtpc_iterate_item p (on_gtpc_parse_root junk) zero_state = (?cs, True)" by (rule iterate_gitems [OF assms(3,4)])
  have a: "a = comm_header 1 8 0 @ fst (gtpc_digits_set 8 i)" "snd (gtpc_digits_set 8 i)"
    using assms(1) by (auto simp: gtpc_imsi_set_def split: prod.splits if_splits)
  have b: "b = comm_header 76 6 0 @ fst (gtpc_digits_set 6 n)" "snd (gtpc_digits_set 6 n)"
    using assms(2) by (auto simp: gtpc_msisdn_set_def split: prod.splits if_splits)
  have "imsi ?cs = put (zeros 12) a" using got_imsi.collects_roots [OF assms(4)] assms(5) by (simp add: zero_state_def)
  then have "drop 4 (imsi ?cs) = fst (gtpc_digits_set 8 i)" by (simp add: a(1) put_def digits_set_ok(2) zeros_def)
  then show "gtpc_digits_get stale (drop 4 (imsi ?cs)) = (if stale then - 1 else i)"
    using digits_get_set [OF a(2)] by (simp add: gtpc_digits_get_def)
  have "msisdn ?cs = put (zeros 10) b" using got_msisdn.collects_roots [OF assms(4)] assms(6) by (simp add: zero_state_def)
  then have "drop 4 (msisdn ?cs) = fst (gtpc_digits_set 6 n)" by (simp add: b(1) put_def digits_set_ok(2) zeros_def)
  then show "gtpc_digits_get stale (drop 4 (msisdn ?cs)) = (if stale then - 1 else n)"
    using digits_get_set [OF b(2)] by (simp add: gtpc_digits_get_def)
qed

text \<open>A request with the numbers of a subscriber.\<close>

lemma digits_item_tlv: "length ds = unat l \<Longrightarrow> unat l < 256 \<Longrightarrow> tlv (comm_header ty l 0 @ ds)"
  using item_of_header(2) [of l ds ty 0] by simp

theorem subscriber_numbers_survive_witness:
  "\<exists>a b p cs. gtpc_imsi_set 440101234567890 = Some a \<and> gtpc_msisdn_set 819012345678 = Some b \<and>
     contents p = map (typed \<circ> gbytes) [Plain a, Plain b] \<and>
     gtpc_iterate_item p (on_gtpc_parse_root (\<lambda>_. 0)) zero_state = (cs, True) \<and>
     gtpc_digits_get False (drop 4 (imsi cs)) = 440101234567890 \<and> gtpc_digits_get False (drop 4 (msisdn cs)) = 819012345678"
proof -
  let ?i = "440101234567890 :: 64 word" and ?n = "819012345678 :: 64 word"
  have "length (dec (unat ?i)) \<le> 2 * 8" "length (dec (unat ?n)) \<le> 2 * 6" by (simp_all add: dec.simps)
  then have ok: "snd (gtpc_digits_set 8 ?i)" "snd (gtpc_digits_set 6 ?n)" by (simp_all only: digits_set_ok)
  define a b where "a = comm_header 1 8 0 @ fst (gtpc_digits_set 8 ?i)" and "b = comm_header 76 6 0 @ fst (gtpc_digits_set 6 ?n)"
  have set: "gtpc_imsi_set ?i = Some a" "gtpc_msisdn_set ?n = Some b"
    using ok unfolding gtpc_imsi_set_def gtpc_msisdn_set_def a_def b_def by (auto split: prod.splits)
  have len: "length a = 12" "length b = 10" "a ! 0 = 1" "b ! 0 = 76" by (simp_all add: a_def b_def digits_set_ok nth_append)
  have t: "tlv a" "tlv b" unfolding a_def b_def by (rule digits_item_tlv; simp add: digits_set_ok)+
  obtain p where p: "contents p = map (typed \<circ> gbytes) [Plain a, Plain b]"
    by (rule items_built [of "[a, b]"]) (use t len in simp_all)
  have g: "\<forall>g \<in> set [Plain a, Plain b]. gitem_ok g" using t len by simp
  have f: "filter (sized 1 (\<lambda>n. n \<le> 12)) (roots [Plain a, Plain b]) = [a]"
    "filter (sized 76 (\<lambda>n. n \<le> 10)) (roots [Plain a, Plain b]) = [b]"
    using len by (simp_all add: roots_def sized_def)
  from subscriber_numbers_survive [OF set p g f, of "\<lambda>_. 0" False] set p show ?thesis by auto
qed

text \<open>The requests in the protocol configuration options are recorded: for options that fit in the structure, none of them
  an IPCP negotiation, in a request (not in an answer), the parser sets exactly the flags of the known options that come without
  contents, and reads nothing behind the structure.\<close>

theorem pco_requests_recorded:
  assumes "os \<noteq> []" "\<forall>o1 \<in> set os. length (snd o1) < 256 \<and> fst o1 \<noteq> 0x8021" "length (concat (map pco_enc os)) \<le> 252"
    "\<not> bit (flag cs) 0" "data = [78] @ be16 (word_of_nat (1 + length (concat (map pco_enc os)))) @ [inst, head] @ concat (map pco_enc os)"
    "length (pco cs) = 258"
  shows "parse_pco junk data cs =
    foldl (\<lambda>cs o1. pco_seen o1 cs) ((have_flag HAVE_PCO cs)\<lparr>pco := put (pco cs) data\<rparr>) os"
proof -
  let ?b = "concat (map pco_enc os)" and ?img = "put (pco cs) data"
  let ?P = "\<lambda>i. if i < 253 then ?img ! (5 + i) else junk i"
  have enc: "3 \<le> length (pco_enc o1)" for o1 by (simp add: pco_enc_def)
  have ge: "length os * 3 \<le> length ?b" using enc by (induction os) (simp_all add: add_mono)
  have u: "unat (word_of_nat (Suc (length ?b)) :: 16 word) = Suc (length ?b)"
    using assms(3) by (simp only: unsigned_of_nat take_bit_eq_mod) simp
  have h: "mk16 (?img ! 2) (?img ! 1) = word_of_nat (Suc (length ?b))"
    unfolding put_def assms(5) by (simp add: be16_def numeral_2_eq_2)
  have "pco_loop 255 ?P (unat (word_of_nat (Suc (length ?b)) :: 16 word) - 2) 0 ((have_flag HAVE_PCO cs)\<lparr>pco := ?img\<rparr>) =
    foldl (\<lambda>cs o1. pco_seen o1 cs) ((have_flag HAVE_PCO cs)\<lparr>pco := ?img\<rparr>) os"
  proof (rule pco_loop_options)
    show "rd_bytes ?P 0 (length ?b) = ?b"
      using assms(3) by (intro nth_equalityI) (simp_all add: put_def assms(5) be16_def nth_append)
    show "unat (word_of_nat (Suc (length ?b)) :: 16 word) - 2 + 1 = 0 + length ?b" using ge assms(1) unfolding u by (cases os) auto
    show "length os \<le> 255" using ge assms(3) by linarith
    show "\<not> bit (flag ((have_flag HAVE_PCO cs)\<lparr>pco := ?img\<rparr>)) 0" using assms(4) by (simp add: have_flag_def bit_flag)
  qed (rule assms(2))
  moreover have "2 \<le> unat (word_of_nat (Suc (length ?b)) :: 16 word)" using ge assms(1) unfolding u by (cases os) auto
  ultimately show ?thesis
    using h by (simp add: parse_pco_def Let_def pco_bound_def have_flag_def cong: if_cong)
qed

theorem pco_requests_recorded_witness:
  "parse_pco (\<lambda>_. 0) ([78] @ be16 4 @ [0, 0x80] @ pco_enc (0x000d, [])) zero_state =
     pco_request 0x000d ((have_flag HAVE_PCO zero_state)\<lparr>pco := put (pco zero_state) ([78] @ be16 4 @ [0, 0x80] @ pco_enc (0x000d, []))\<rparr>)"
  using pco_requests_recorded [where os = "[(0x000d, [])]" and cs = zero_state and inst = 0 and head = "0x80" and junk = "\<lambda>_. 0", OF _ _ _ _ refl]
  by (simp add: zero_state_def pco_enc_def pco_seen_def)

end
