(* ===== verification/Ctrl_Node.thy ===== *)
theory Ctrl_Node
  imports Gtpc_Packet "HOL-Library.Sublist"
begin

text \<open>
  The threads of the control plane are nodes with two bounded queues (\<open>ctrlplane/inc/pgw_def.h\<close>): \<open>pgw_enq\<close> and
  \<open>pgw_deq_burst\<close> (\<open>src/cmn\<close>), the address helpers of packets, and the dispatch of received packets to nodes
  (\<open>event_rx\<close>). Packets handed to \<open>pgw_free_packet\<close>, and packets a full queue refuses and nobody frees, are
  recorded in the state.
\<close>

section \<open>Queues\<close>

abbreviation (input) RING_SIZE_MAX :: "64 word" where "RING_SIZE_MAX \<equiv> 20 * 1024"

datatype direction = INGRESS | EGRESS

record node =
  ingress_queue :: "packet list"
  ingress_count :: "64 word"
  ingress_drops :: "64 word"
  egress_queue :: "packet list"
  egress_count :: "64 word"
  egress_drops :: "64 word"
  refused :: "packet list"

definition pgw_enq :: "direction \<Rightarrow> packet \<Rightarrow> node \<Rightarrow> node" where
  "pgw_enq order p n =
     (if order = INGRESS then
        if ingress_count n \<ge> RING_SIZE_MAX then n\<lparr>ingress_drops := ingress_drops n + 1, refused := refused n @ [p]\<rparr>
        else n\<lparr>ingress_count := ingress_count n + 1, ingress_queue := ingress_queue n @ [p]\<rparr>
      else
        if egress_count n \<ge> RING_SIZE_MAX then n\<lparr>egress_drops := egress_drops n + 1, refused := refused n @ [p]\<rparr>
        else n\<lparr>egress_count := egress_count n + 1, egress_queue := egress_queue n @ [p]\<rparr>)"

text \<open>The loop of \<open>pgw_deq_burst\<close> tests its bound after a packet was taken; \<open>r\<close> packets have been taken.\<close>

fun deq_loop :: "nat \<Rightarrow> nat \<Rightarrow> packet list \<Rightarrow> packet list \<times> packet list" where
  "deq_loop r len [] = ([], [])"
| "deq_loop r len (p # q) =
     (if Suc r \<ge> len then ([p], q) else case deq_loop (Suc r) len q of (taken, rest) \<Rightarrow> (p # taken, rest))"

definition pgw_deq_burst :: "direction \<Rightarrow> nat \<Rightarrow> node \<Rightarrow> packet list \<times> node" where
  "pgw_deq_burst order len n =
     (if order = INGRESS then
        case deq_loop 0 len (ingress_queue n) of (taken, rest) \<Rightarrow>
          (taken, n\<lparr>ingress_queue := rest, ingress_count := ingress_count n - word_of_nat (length taken)\<rparr>)
      else
        case deq_loop 0 len (egress_queue n) of (taken, rest) \<Rightarrow>
          (taken, n\<lparr>egress_queue := rest, egress_count := egress_count n - word_of_nat (length taken)\<rparr>))"

definition pgw_swap_address :: "packet \<Rightarrow> packet" where
  "pgw_swap_address p = p\<lparr>p_saddr := p_caddr p, p_caddr := p_saddr p\<rparr>"

definition pgw_duplicate_packet :: "bool \<Rightarrow> mem \<Rightarrow> packet \<Rightarrow> packet option" where
  "pgw_duplicate_packet ok junk p =
     (if \<not> ok then None else Some (p\<lparr>p_data := (\<lambda>i. if i < unat (p_datalen p) then p_data p i else junk i)\<rparr>))"

definition gtpc_copy_packet_addr :: "gtp_packet \<Rightarrow> gtp_packet \<Rightarrow> gtp_packet" where
  "gtpc_copy_packet_addr dpkt spkt = dpkt\<lparr>g_saddr := g_saddr spkt, g_caddr := g_caddr spkt\<rparr>"

section \<open>Dispatch\<close>

text \<open>The nodes, by their index; the build with one node for Create Session Requests has no extra one.\<close>

datatype node_id = GTPU_ECHO | GTPC_ECHO | TIMER | CREATE_SESSION nat | MODIFY_BEARER | GTPC_OTHER | GTPU_OTHER | TX

text \<open>
  The node for a packet received on a port: \<open>q.seqno\<close> is the word at offset 8 as the host reads it. The number of nodes for
  Create Session Requests is 2, and 1 with \<open>SINGLE_CREATE_SESSION\<close>.
\<close>

definition rx_node :: "nat \<Rightarrow> 16 word \<Rightarrow> mem \<Rightarrow> node_id option" where
  "rx_node sessions port m =
     (let version = drop_bit 5 (m 0); ty = m 1 in
      if port = 2152 then
        if version = 1 then if ty = 1 \<or> ty = 2 then Some GTPU_ECHO else Some GTPU_OTHER else None
      else if port = 2123 \<and> version = 2 then
        if ty = 1 \<or> ty = 2 then Some GTPC_ECHO
        else if ty = 32 then Some (CREATE_SESSION (unat (ld32 m 8) mod sessions))
        else if ty = 34 then Some MODIFY_BEARER
        else if ty = 36 \<or> ty = 99 \<or> ty = 162 \<or> ty = 164 then Some GTPC_OTHER
        else None
      else if port = 2123 \<and> version = 1 then
        if m 0 AND 0x07 \<noteq> 0 then Some GTPC_OTHER else None
      else None)"

record rx_state =
  rx_nodes :: "node_id \<Rightarrow> node"
  rx_freed :: "packet list"

text \<open>\<open>None\<close> is the panic when no memory is left; the return code tells whether the packet was queued.\<close>

definition event_rx :: "nat \<Rightarrow> bool \<Rightarrow> bool \<Rightarrow> 16 word \<Rightarrow> packet \<Rightarrow> rx_state \<Rightarrow> (rx_state \<times> bool) option" where
  "event_rx sessions started ok port pkt s =
     (if \<not> started then Some (s, False)
      else if \<not> ok then None
      else case rx_node sessions port (p_data pkt) of
        None \<Rightarrow> Some (s\<lparr>rx_freed := rx_freed s @ [pkt]\<rparr>, False)
      | Some i \<Rightarrow> Some (s\<lparr>rx_nodes := (rx_nodes s)(i := pgw_enq INGRESS pkt (rx_nodes s i))\<rparr>, True))"

section \<open>Queues are bounded and keep their order\<close>

definition node_ok :: "node \<Rightarrow> bool" where
  "node_ok n \<longleftrightarrow> unat (ingress_count n) = length (ingress_queue n) \<and> unat (egress_count n) = length (egress_queue n) \<and>
     length (ingress_queue n) \<le> 20 * 1024 \<and> length (egress_queue n) \<le> 20 * 1024"

lemma deq_loop_take: "deq_loop r len q = (take (max 1 (len - r)) q, drop (max 1 (len - r)) q)"
proof (induction r len q rule: deq_loop.induct)
  case (2 r len p q)
  show ?case
  proof (cases "Suc r \<ge> len")
    case True
    then have "max 1 (len - r) = 1" by simp
    with True show ?thesis by simp
  next
    case False
    then have "max 1 (len - r) = Suc (max 1 (len - Suc r))" by simp
    with False 2 show ?thesis by simp
  qed
qed simp

text \<open>One side of a node, for either direction.\<close>

definition side :: "direction \<Rightarrow> node \<Rightarrow> packet list" where
  "side dir n = (if dir = INGRESS then ingress_queue n else egress_queue n)"

lemma enq_side:
  assumes "node_ok n"
  shows "node_ok (pgw_enq dir p n)"
    "side dir (pgw_enq dir p n) = (if length (side dir n) < 20 * 1024 then side dir n @ [p] else side dir n)"
    "refused (pgw_enq dir p n) = (if length (side dir n) < 20 * 1024 then refused n else refused n @ [p])"
    "dir' \<noteq> dir \<Longrightarrow> side dir' (pgw_enq dir p n) = side dir' n"
proof -
  have c: "20480 \<le> ingress_count n \<longleftrightarrow> \<not> length (ingress_queue n) < 20480" "20480 \<le> egress_count n \<longleftrightarrow> \<not> length (egress_queue n) < 20480"
    using assms by (simp_all add: node_ok_def word_le_nat_alt not_less)
  have s: "unat (w + 1) = Suc (unat w)" if "unat w < 20480" for w :: "64 word"
    using that by (simp add: unat_word_ariths)
  show "node_ok (pgw_enq dir p n)" using assms by (simp add: pgw_enq_def c) (auto simp: node_ok_def s)
  show "side dir (pgw_enq dir p n) = (if length (side dir n) < 20 * 1024 then side dir n @ [p] else side dir n)"
    "refused (pgw_enq dir p n) = (if length (side dir n) < 20 * 1024 then refused n else refused n @ [p])"
    by (auto simp: pgw_enq_def c side_def)
  show "side dir' (pgw_enq dir p n) = side dir' n" if "dir' \<noteq> dir"
    using that by (cases dir; cases dir') (auto simp: pgw_enq_def side_def)
qed

lemma deq_side:
  assumes "node_ok n" "pgw_deq_burst dir len n = (taken, n')"
  shows "node_ok n'" "taken @ side dir n' = side dir n" "length taken = min (max 1 len) (length (side dir n))"
    "refused n' = refused n" "dir' \<noteq> dir \<Longrightarrow> side dir' n' = side dir' n"
proof -
  have s: "unat (w - word_of_nat k) = unat w - k" if "k \<le> unat w" for w :: "64 word" and k
  proof -
    have "unat (word_of_nat k :: 64 word) = k"
      using that unsigned_less [of w, where ?'a = nat] by (simp add: unsigned_of_nat take_bit_eq_mod)
    then show ?thesis using that by (simp add: unat_sub_if')
  qed
  have l: "length (take k xs) \<le> unat w" if "unat w = length xs" for k and xs :: "packet list" and w :: "64 word" using that by simp
  have ok: "unat (ingress_count n) = length (ingress_queue n)" "unat (egress_count n) = length (egress_queue n)"
    "length (ingress_queue n) \<le> 20480" "length (egress_queue n) \<le> 20480" using assms(1) by (simp_all add: node_ok_def)
  show "taken @ side dir n' = side dir n" "length taken = min (max 1 len) (length (side dir n))" "refused n' = refused n"
    using assms(2) by (auto simp: pgw_deq_burst_def deq_loop_take side_def min.commute split: if_splits)
  show "node_ok n'"
  proof (cases dir)
    case INGRESS
    then have "taken = take (max 1 len) (ingress_queue n)" "n' = n\<lparr>ingress_queue := drop (max 1 len) (ingress_queue n), ingress_count := ingress_count n - word_of_nat (length taken)\<rparr>"
      using assms(2) by (auto simp: pgw_deq_burst_def deq_loop_take)
    moreover note s [OF l [OF ok(1), of "max 1 len"]]
    ultimately show ?thesis using ok by (simp add: node_ok_def) linarith
  next
    case EGRESS
    then have "taken = take (max 1 len) (egress_queue n)" "n' = n\<lparr>egress_queue := drop (max 1 len) (egress_queue n), egress_count := egress_count n - word_of_nat (length taken)\<rparr>"
      using assms(2) by (auto simp: pgw_deq_burst_def deq_loop_take)
    moreover note s [OF l [OF ok(2), of "max 1 len"]]
    ultimately show ?thesis using ok by (simp add: node_ok_def) linarith
  qed
  show "side dir' n' = side dir' n" if "dir' \<noteq> dir"
  proof -
    have "dir' = INGRESS \<longleftrightarrow> dir \<noteq> INGRESS" using that by (metis direction.exhaust)
    then show ?thesis using assms(2) by (auto simp: pgw_deq_burst_def deq_loop_take side_def split: if_splits)
  qed
qed

text \<open>The operations on a node as a history, each on one of its sides.\<close>

datatype node_op = Enq direction packet | Deq direction nat

fun node_run :: "node_op list \<Rightarrow> node \<Rightarrow> (direction \<times> packet) list \<times> node" where
  "node_run [] n = ([], n)"
| "node_run (Enq dir p # ops) n = node_run ops (pgw_enq dir p n)"
| "node_run (Deq dir len # ops) n =
     (case pgw_deq_burst dir len n of (taken, n') \<Rightarrow>
      case node_run ops n' of (out, n'') \<Rightarrow> (map (Pair dir) taken @ out, n''))"

fun enqueued :: "direction \<Rightarrow> node_op list \<Rightarrow> packet list" where
  "enqueued dir [] = []"
| "enqueued dir (Enq d p # ops) = (if d = dir then p # enqueued dir ops else enqueued dir ops)"
| "enqueued dir (Deq d len # ops) = enqueued dir ops"

definition out_of :: "direction \<Rightarrow> (direction \<times> packet) list \<Rightarrow> packet list" where
  "out_of dir out = map snd (filter (\<lambda>x. fst x = dir) out)"

lemma out_of_append: "out_of dir (map (Pair d) taken @ out) = (if d = dir then taken @ out_of dir out else out_of dir out)"
  by (simp add: out_of_def comp_def)

lemma node_run_ok:
  assumes "node_ok n" "node_run ops n = (out, n')"
  shows "node_ok n' \<and> (\<exists>acc. subseq acc (enqueued dir ops) \<and> out_of dir out @ side dir n' = side dir n @ acc)"
  using assms
proof (induction ops arbitrary: n out)
  case Nil
  then show ?case by (auto simp: out_of_def)
next
  case (Cons op ops)
  show ?case
  proof (cases op)
    case (Enq d p)
    note e = enq_side [where dir = d and p = p, OF Cons.prems(1)]
    obtain acc where a: "node_ok n'" "subseq acc (enqueued dir ops)" "out_of dir out @ side dir n' = side dir (pgw_enq d p n) @ acc"
      using Cons.IH [OF e(1)] Cons.prems(2) Enq by auto
    show ?thesis
    proof (cases "d = dir \<and> length (side dir n) < 20 * 1024")
      case True
      then show ?thesis using a e(2) Enq by (intro conjI exI [of _ "p # acc"]) simp_all
    next
      case False
      then have "side dir (pgw_enq d p n) = side dir n" using e(2) e(4) [of dir] by (cases "dir = d") auto
      then show ?thesis using a Enq by (intro conjI exI [of _ acc]) (auto intro: subseq_Cons')
    qed
  next
    case (Deq d len)
    obtain taken m out' where t: "pgw_deq_burst d len n = (taken, m)" "node_run ops m = (out', n')" "out = map (Pair d) taken @ out'"
      using Cons.prems(2) Deq by (auto split: prod.splits)
    note e = deq_side [OF Cons.prems(1) t(1)]
    obtain acc where a: "node_ok n'" "subseq acc (enqueued dir ops)" "out_of dir out' @ side dir n' = side dir m @ acc"
      using Cons.IH [OF e(1) t(2)] by auto
    have "out_of dir out @ side dir n' = side dir n @ acc"
    proof (cases "d = dir")
      case True
      then have "side dir n = taken @ side dir m" using e(2) by simp
      then show ?thesis using a(3) True by (simp add: t(3) out_of_append)
    next
      case False
      then show ?thesis using a(3) e(5) [of dir] by (simp add: t(3) out_of_append)
    qed
    then show ?thesis using a Deq by auto
  qed
qed

lemma node_run_account:
  assumes "node_ok n" "node_run ops n = (out, n')"
  shows "length (refused n') + length out + length (side INGRESS n') + length (side EGRESS n') =
    length (refused n) + length (side INGRESS n) + length (side EGRESS n) + length (enqueued INGRESS ops) + length (enqueued EGRESS ops)"
  using assms
proof (induction ops arbitrary: n out)
  case (Cons op ops)
  show ?case
  proof (cases op)
    case (Enq d p)
    note e = enq_side [where dir = d and p = p, OF Cons.prems(1)]
    have "length (refused n') + length out + length (side INGRESS n') + length (side EGRESS n') =
      length (refused (pgw_enq d p n)) + length (side INGRESS (pgw_enq d p n)) + length (side EGRESS (pgw_enq d p n)) +
      length (enqueued INGRESS ops) + length (enqueued EGRESS ops)"
      using Cons.IH [OF e(1)] Cons.prems(2) Enq by simp
    then show ?thesis using e(2,3) e(4) [of INGRESS] e(4) [of EGRESS] Enq by (cases d) auto
  next
    case (Deq d len)
    obtain taken m out' where t: "pgw_deq_burst d len n = (taken, m)" "node_run ops m = (out', n')" "out = map (Pair d) taken @ out'"
      using Cons.prems(2) Deq by (auto split: prod.splits)
    note e = deq_side [OF Cons.prems(1) t(1)]
    have "length taken + length (side d m) = length (side d n)" using arg_cong [OF e(2), of length] by simp
    then show ?thesis using Cons.IH [OF e(1) t(2)] e(4) e(5) [of INGRESS] e(5) [of EGRESS] Deq t(3) by (cases d) auto
  qed
qed auto

section \<open>Properties\<close>

text \<open>The queues of a node are bounded and fair: after any history of enqueues and bursts, on both sides, the counters are
  the lengths of the queues and none exceeds its bound; on each side what was taken out, followed by what is still
  queued, is what was queued before and then the accepted packets in the order they came; and every packet ever handed in was
  taken, is queued, or was refused by a full queue. A burst takes at least one packet when there is one.\<close>

theorem node_queues_keep_order:
  assumes "node_ok n" "node_run ops n = (out, n')"
  shows "node_ok n' \<and> (\<exists>acc. subseq acc (enqueued dir ops) \<and> out_of dir out @ side dir n' = side dir n @ acc) \<and>
    length (refused n') + length out + length (side INGRESS n') + length (side EGRESS n') =
      length (refused n) + length (side INGRESS n) + length (side EGRESS n) + length (enqueued INGRESS ops) + length (enqueued EGRESS ops) \<and>
    length (fst (pgw_deq_burst dir len n')) = min (max 1 len) (length (side dir n'))"
  using node_run_ok [OF assms, of dir] node_run_account [OF assms] deq_side(3) [of n' dir len "fst (pgw_deq_burst dir len n')" "snd (pgw_deq_burst dir len n')"]
  by simp

definition empty_node :: node where
  "empty_node = \<lparr>ingress_queue = [], ingress_count = 0, ingress_drops = 0, egress_queue = [], egress_count = 0, egress_drops = 0, refused = []\<rparr>"

definition demo_msg :: "byte \<Rightarrow> packet" where
  "demo_msg ty = \<lparr>p_data = (\<lambda>_. 0)(0 := 0x48, 1 := ty), p_datalen = 12, p_saddr = [1], p_caddr = [2]\<rparr>"

theorem node_queues_keep_order_witness:
  "\<exists>out n'. node_run [Enq INGRESS (demo_msg 32), Enq INGRESS (demo_msg 34), Deq INGRESS 1] empty_node = (out, n') \<and>
     node_ok n' \<and> out = [(INGRESS, demo_msg 32)] \<and> side INGRESS n' = [demo_msg 34]"
proof -
  let ?ops = "[Enq INGRESS (demo_msg 32), Enq INGRESS (demo_msg 34), Deq INGRESS 1]"
  obtain out n' where r: "node_run ?ops empty_node = (out, n')" by fastforce
  have ok: "node_ok empty_node" by (simp add: node_ok_def empty_node_def)
  from node_queues_keep_order [OF ok r, of INGRESS] have "node_ok n'" by simp
  moreover have "out = [(INGRESS, demo_msg 32)]" "side INGRESS n' = [demo_msg 34]"
    using r by (auto simp: empty_node_def pgw_enq_def pgw_deq_burst_def side_def word_le_nat_alt)
  ultimately show ?thesis using r by blast
qed

text \<open>Received packets are dispatched by port, version and type: once the threads run and memory is left, a packet goes to the
  ingress queue of the one node that handles its kind, no other node changes, and the code reports success; a packet of no such
  kind is freed and reported as an error. Create Session Requests go to one of the nodes for them.\<close>

theorem event_rx_dispatches:
  assumes "event_rx sessions True True port pkt s = Some (s', ret)"
  shows "(if ret then \<exists>i. rx_node sessions port (p_data pkt) = Some i \<and> rx_freed s' = rx_freed s \<and>
        rx_nodes s' i = pgw_enq INGRESS pkt (rx_nodes s i) \<and> (\<forall>j. j \<noteq> i \<longrightarrow> rx_nodes s' j = rx_nodes s j)
      else rx_nodes s' = rx_nodes s \<and> rx_freed s' = rx_freed s @ [pkt]) \<and>
    (ret \<longleftrightarrow> (let version = drop_bit 5 (p_data pkt 0); ty = p_data pkt 1 in
       port = 2152 \<and> version = 1 \<or> port = 2123 \<and> version = 2 \<and> ty \<in> {1, 2, 32, 34, 36, 99, 162, 164} \<or>
       port = 2123 \<and> version = 1 \<and> p_data pkt 0 AND 0x07 \<noteq> 0)) \<and>
    (\<forall>k. 0 < sessions \<longrightarrow> rx_node sessions port (p_data pkt) = Some (CREATE_SESSION k) \<longrightarrow> k < sessions)"
proof -
  have r: "ret \<longleftrightarrow> rx_node sessions port (p_data pkt) \<noteq> None" using assms by (auto simp: event_rx_def split: option.splits)
  have "if ret then \<exists>i. rx_node sessions port (p_data pkt) = Some i \<and> rx_freed s' = rx_freed s \<and>
        rx_nodes s' i = pgw_enq INGRESS pkt (rx_nodes s i) \<and> (\<forall>j. j \<noteq> i \<longrightarrow> rx_nodes s' j = rx_nodes s j)
      else rx_nodes s' = rx_nodes s \<and> rx_freed s' = rx_freed s @ [pkt]"
    using assms by (auto simp: event_rx_def split: option.splits)
  moreover have "ret \<longleftrightarrow> (let version = drop_bit 5 (p_data pkt 0); ty = p_data pkt 1 in
       port = 2152 \<and> version = 1 \<or> port = 2123 \<and> version = 2 \<and> ty \<in> {1, 2, 32, 34, 36, 99, 162, 164} \<or>
       port = 2123 \<and> version = 1 \<and> p_data pkt 0 AND 0x07 \<noteq> 0)"
    unfolding r rx_node_def Let_def by (auto split: if_splits)
  moreover have "k < sessions" if "0 < sessions" "rx_node sessions port (p_data pkt) = Some (CREATE_SESSION k)" for k
    using that by (auto simp: rx_node_def Let_def split: if_splits)
  ultimately show ?thesis by blast
qed

theorem event_rx_dispatches_witness:
  "\<exists>s' ret. event_rx 2 True True 2123 (demo_msg 34) \<lparr>rx_nodes = (\<lambda>_. empty_node), rx_freed = []\<rparr> = Some (s', ret) \<and> ret"
proof -
  obtain s' ret where e: "event_rx 2 True True 2123 (demo_msg 34) \<lparr>rx_nodes = (\<lambda>_. empty_node), rx_freed = []\<rparr> = Some (s', ret)"
    by (cases "rx_node 2 2123 (p_data (demo_msg 34))") (auto simp: event_rx_def)
  have "drop_bit 5 (0x48 :: byte) = 2" by (simp add: drop_bit_eq_div)
  then have ret using event_rx_dispatches [OF e] by (simp add: demo_msg_def Let_def)
  with e show ?thesis by blast
qed

end
