(* ===== verification/Gtpc_Session.thy ===== *)
theory Gtpc_Session
  imports Gtpc_Message Ctrl_Node "HOL-Library.Monad_Syntax"
begin

text \<open>
  Sessions: the handlers of Create Session, Modify Bearer and Delete Session Requests
  (\<open>ctrlplane/src/pgw/event/event_gtpc_create_session.c\<close>, \<open>event_gtpc_modify_bearer.c\<close>,
  \<open>event_gtpc_delete_session.c\<close>). The database is a parameter: what a query and a prepared statement answer; so are
  \<open>inet_aton\<close>, the results of \<open>malloc\<close>, memory behind buffers, and a stale \<open>errno\<close>. \<open>pgw_panic\<close> is \<open>None\<close>.
\<close>

section \<open>Data\<close>

text \<open>A row of the table \<open>tunnel\<close>, in the order of the columns of the lookups.\<close>

record tunnel_row =
  t_pgw_teid :: "64 word"
  t_ueipv4 :: string
  t_bitrate_s5 :: "64 word"
  t_bitrate_sgi :: "64 word"
  t_pgw_gtpu_ipv :: string
  t_pgw_gtpc_ipv :: string
  t_dns :: string
  t_ebi :: "64 word"
  t_imsi :: "64 word"
  t_msisdn :: "64 word"
  t_sgw_gtpc_teid :: "64 word"

text \<open>The part of \<open>gtpc_parse_state_t\<close> that is not read from items; addresses are four octets in network order.\<close>

record session =
  ps :: parse_state
  gtph_seqno :: "byte list"
  gtph_teid :: "32 word"
  ue_ipv :: string
  ue_ipv_n :: "byte list"
  sgw_c_teid :: "32 word"
  pgw_teid :: "32 word"
  pgw_u_ipv :: string
  pgw_u_ipv_n :: "byte list"
  pgw_c_ipv :: string
  pgw_c_ipv_n :: "byte list"
  imsi_num :: "64 word"
  msisdn_num :: "64 word"
  bitrate_s5 :: "64 word"
  bitrate_sgi :: "64 word"
  ebi :: byte

definition zero_session :: session where
  "zero_session = \<lparr>ps = zero_state, gtph_seqno = zeros 3, gtph_teid = 0, ue_ipv = [], ue_ipv_n = zeros 4, sgw_c_teid = 0, pgw_teid = 0,
     pgw_u_ipv = [], pgw_u_ipv_n = zeros 4, pgw_c_ipv = [], pgw_c_ipv_n = zeros 4, imsi_num = 0, msisdn_num = 0,
     bitrate_s5 = 0, bitrate_sgi = 0, ebi = 0\<rparr>"

datatype statement = IMSI_LOOKUP | MSISDN_LOOKUP | TEID_ACTIVE_LOOKUP | TEID_LOOKUP

text \<open>
  What surrounds a handler. \<open>e_rows\<close> answers a prepared statement with a bound number; \<open>None\<close> when it cannot be reset or
  bound, which is a panic. An execution that fails yields no row.
\<close>

record 'd env =
  e_malloc_req :: "nat \<Rightarrow> bool"
  e_malloc_res :: "nat \<Rightarrow> bool"
  e_convert :: bool
  e_junk :: mem
  e_stale :: bool
  e_aton :: "string \<Rightarrow> byte list option"
  e_query :: "'d \<Rightarrow> string \<Rightarrow> 'd \<times> bool"
  e_rows :: "'d \<Rightarrow> statement \<Rightarrow> 64 word \<Rightarrow> tunnel_row list option"
  e_server_ip :: "string option"
  e_recovery :: byte
  e_ext_set_num :: byte
  e_pgw_unit_num :: byte
  e_ipv64 :: bool

section \<open>Fields of the structures\<close>

definition teid_grekey :: "byte list \<Rightarrow> byte list" where
  "teid_grekey f = take 4 (drop 5 f)"

definition blk :: "byte list \<Rightarrow> byte list" where
  "blk f = drop 9 f"

definition word_le :: "byte list \<Rightarrow> 32 word" where
  "word_le b = mk32 (b ! 0) (b ! 1) (b ! 2) (b ! 3)"

definition word_be :: "byte list \<Rightarrow> 32 word" where
  "word_be b = bswap32 (word_le b)"

definition low4 :: "byte list \<Rightarrow> byte" where
  "low4 item = (item ! 4) AND 0xF"

text \<open>\<open>inet_ntoa\<close> of the first four octets of an address.\<close>

definition ntoa :: "byte list \<Rightarrow> string" where
  "ntoa b = dotted (b ! 0) (b ! 1) (b ! 2) (b ! 3)"

section \<open>Database\<close>

text \<open>\<open>STRMINCPY\<close> copies at most 31 characters and no terminator: of a longer old text the rest stays.\<close>

definition STRMINCPY :: "string \<Rightarrow> string \<Rightarrow> string" where
  "STRMINCPY old src = (let k = min 31 (length src) in take k src @ drop k old)"

definition aton_into :: "(string \<Rightarrow> byte list option) \<Rightarrow> string \<Rightarrow> byte list \<Rightarrow> byte list" where
  "aton_into aton txt old = (case aton txt of None \<Rightarrow> old | Some a \<Rightarrow> a)"

definition on_tunnel_record :: "(string \<Rightarrow> byte list option) \<Rightarrow> session \<Rightarrow> tunnel_row \<Rightarrow> session" where
  "on_tunnel_record aton cs r =
     (let ue = STRMINCPY (ue_ipv cs) (t_ueipv4 r); pu = STRMINCPY (pgw_u_ipv cs) (t_pgw_gtpu_ipv r);
        pc = STRMINCPY (pgw_c_ipv cs) (t_pgw_gtpc_ipv r) in
      cs\<lparr>sgw_c_teid := ucast (t_sgw_gtpc_teid r), pgw_teid := ucast (t_pgw_teid r), imsi_num := t_imsi r, msisdn_num := t_msisdn r,
         bitrate_s5 := t_bitrate_s5 r, bitrate_sgi := t_bitrate_sgi r, ebi := ucast (t_ebi r),
         ue_ipv := ue, pgw_u_ipv := pu, pgw_c_ipv := pc,
         ue_ipv_n := aton_into aton ue (ue_ipv_n cs), pgw_u_ipv_n := aton_into aton pu (pgw_u_ipv_n cs),
         pgw_c_ipv_n := aton_into aton pc (pgw_c_ipv_n cs), ps := have_flag HAVE_RECORD (ps cs)\<rparr>)"

definition has :: "32 word \<Rightarrow> session \<Rightarrow> bool" where
  "has f cs \<longleftrightarrow> flag (ps cs) AND f \<noteq> 0"

text \<open>The statements, as text.\<close>

definition quoted :: "string \<Rightarrow> string" where
  "quoted s = CHR 0x27 # s @ [CHR 0x27]"

definition sql_text :: "string list \<Rightarrow> string" where
  "sql_text parts = take 510 (concat parts)"

abbreviation (input) num :: "'a::len word \<Rightarrow> string" where "num w \<equiv> dec (unat w)"

definition pgwip_sql :: "string \<Rightarrow> 64 word \<Rightarrow> string" where
  "pgwip_sql ip i = sql_text [''UPDATE tunnel SET pgw_gtpc_ipv='', quoted ip, '',pgw_gtpu_ipv='', quoted ip, '' WHERE imsi= '', num i]"

definition imsi_msisdn_sql :: "64 word \<Rightarrow> 64 word \<Rightarrow> string" where
  "imsi_msisdn_sql n i = sql_text [''UPDATE tunnel SET msisdn='', num n, '' WHERE imsi = '', num i]"

definition restart_sql :: "session \<Rightarrow> string list" where
  "restart_sql cs = (if has HAVE_RECOVERY cs then ['', `restart_counter`='', num (recovery (ps cs) ! 4)] else [])"

definition create_session_sql :: "session \<Rightarrow> 64 word \<Rightarrow> string" where
  "create_session_sql cs i =
     sql_text ([''UPDATE tunnel SET `sgw_gtpc_teid`='', num (word_le (teid_grekey (c_teid (ps cs)))),
       '', `sgw_gtpc_ipv`='', quoted (ntoa (blk (c_teid (ps cs)))),
       '', `sgw_gtpu_teid`='', num (word_le (teid_grekey (u_teid (ps cs)))),
       '', `sgw_gtpu_ipv`='', quoted (ntoa (blk (u_teid (ps cs)))),
       '',  `qci`='', num (bqos (ps cs) ! 5), '', `active` = 1, `ebi`='', num (low4 (ebi_b (ps cs))),
       '', `pgw_teid`='', num (pgw_teid cs), '', `latest_gtp_version`=2''] @
       restart_sql cs @ [''  WHERE imsi = '', num i, '' ''])"

definition modify_bearer_sql :: "session \<Rightarrow> string" where
  "modify_bearer_sql cs =
     sql_text ([''UPDATE tunnel SET `sgw_gtpc_teid`='', num (word_le (teid_grekey (c_teid (ps cs)))),
       '', `sgw_gtpc_ipv`='', quoted (ntoa (blk (c_teid (ps cs)))),
       '',  `sgw_gtpu_teid`='', num (word_le (teid_grekey (u_teid (ps cs)))),
       '', `sgw_gtpu_ipv`='', quoted (ntoa (blk (u_teid (ps cs)))), '', `pgw_teid`='', num (pgw_teid cs)] @
       (if has HAVE_RAT cs then ['', `rat`='', num (rat (ps cs) ! 4), '', `active` = 1, `latest_gtp_version`=2'']
        else ['',  `active` = 1, `latest_gtp_version`=2'']) @
       restart_sql cs @ [''  WHERE imsi = '', num (imsi_num cs), '' ''])"

definition rat_only_sql :: "session \<Rightarrow> string" where
  "rat_only_sql cs =
     sql_text ([''UPDATE tunnel SET `rat`='', num (rat (ps cs) ! 4), '',`active` = 1, `latest_gtp_version`=2''] @
       (if has HAVE_RECOVERY cs then restart_sql cs @ [''  WHERE imsi = ''] else ['' WHERE imsi = '']) @ [num (imsi_num cs), '' ''])"

definition bearer_ebi_sql :: "session \<Rightarrow> string" where
  "bearer_ebi_sql cs = sql_text [''UPDATE tunnel SET `ebi`='', num (low4 (ebi_b (ps cs))), '' WHERE imsi = '', num (imsi_num cs), '' '']"

definition delete_session_sql :: "session \<Rightarrow> string" where
  "delete_session_sql cs =
     sql_text [''UPDATE tunnel SET `active` = 0 WHERE pgw_teid = '', num (gtph_teid cs), '' AND ebi = '', num (low4 (ebi_r (ps cs))), '' '']"

section \<open>Answers\<close>

definition PCO_DNS_IPV6_VAL :: "byte list" where
  "PCO_DNS_IPV6_VAL =
     [0x00, 0x03, 0x10, 0x20, 0x01, 0x48, 0x60, 0x48, 0x60, 0x00, 0x00, 0x00, 0x00, 0x00, 0x00, 0x00, 0x00, 0x88, 0x88,
      0x00, 0x03, 0x10, 0x20, 0x01, 0x48, 0x60, 0x48, 0x60, 0x00, 0x00, 0x00, 0x00, 0x00, 0x00, 0x00, 0x00, 0x88, 0x44]"

definition PCO_DNS_IPV4_VAL :: "byte list" where
  "PCO_DNS_IPV4_VAL = [0x00, 0x0d, 0x04, 0x08, 0x08, 0x08, 0x08, 0x00, 0x0d, 0x04, 0x08, 0x08, 0x04, 0x04]"

definition PCO_DNS_IPV64_VAL :: "byte list" where
  "PCO_DNS_IPV64_VAL = PCO_DNS_IPV6_VAL @ PCO_DNS_IPV4_VAL"

definition PCO_MTU_IPV4_VAL :: "byte list" where
  "PCO_MTU_IPV4_VAL = [0x00, 0x10, 0x02, 0x05, 0xb8]"

definition PCO_MTU_NONIP_VAL :: "byte list" where
  "PCO_MTU_NONIP_VAL = [0x00, 0x15, 0x02, 0x05, 0xb8]"

definition PCO_DNS_IPCP_IPV4_VAL :: "byte list" where
  "PCO_DNS_IPCP_IPV4_VAL =
     [0x80, 0x21, 0x10, 0x03, 0x00, 0x00, 0x10, 0x81, 0x06, 0x08, 0x08, 0x08, 0x08, 0x83, 0x06, 0x08, 0x08, 0x04, 0x04]"

text \<open>All bits of a set of flags.\<close>

definition all_of :: "32 word \<Rightarrow> session \<Rightarrow> bool" where
  "all_of f cs \<longleftrightarrow> flag (ps cs) AND f = f"

definition pco_dns :: "bool \<Rightarrow> session \<Rightarrow> byte list" where
  "pco_dns ipv64 cs =
     (if all_of (HAVE_PCO_DNS_IPV4 OR HAVE_PCO_DNS_IPV6) cs then
        if all_of HAVE_PDN cs then
          if ipv64 then PCO_DNS_IPV64_VAL
          else if (pdn (ps cs) ! 4) AND 7 = 3 then PCO_DNS_IPV4_VAL else PCO_DNS_IPV64_VAL
        else PCO_DNS_IPV64_VAL
      else if all_of HAVE_PCO_DNS_IPV6 cs then PCO_DNS_IPV6_VAL
      else if all_of HAVE_PCO_DNS_IPV4 cs then PCO_DNS_IPV4_VAL else [])"

definition pco_mtu :: "session \<Rightarrow> byte list" where
  "pco_mtu cs =
     (if all_of HAVE_PCO_NONIP_LINK_MTU cs then PCO_MTU_NONIP_VAL
      else if all_of HAVE_PCO_IPV4_LINK_MTU cs then PCO_MTU_IPV4_VAL else [])"

definition pco_ipcp :: "session \<Rightarrow> byte list" where
  "pco_ipcp cs = (if all_of (HAVE_PCO_IPCP_S_DNS OR HAVE_PCO_IPCP_P_DNS) cs then PCO_DNS_IPCP_IPV4_VAL else [])"

definition PCO_ALL :: "32 word" where
  "PCO_ALL = HAVE_PCO_IPV4_LINK_MTU OR HAVE_PCO_NONIP_LINK_MTU OR HAVE_PCO_DNS_IPV6 OR HAVE_PCO_DNS_IPV4"

definition setup_pco :: "bool \<Rightarrow> session \<Rightarrow> byte list option" where
  "setup_pco ipv64 cs =
     (if has PCO_ALL cs then
        let buf = pco_dns ipv64 cs @ pco_mtu cs @ pco_ipcp cs;
          head = (if pco_mtu cs \<noteq> [] \<or> pco_ipcp cs \<noteq> [] then 0x80 else 0) in
        if length buf > 1 then gtpc_pco_set (zeros 4 @ [head] @ zeros 253) (padded 255 buf) (word_of_nat (length buf + 1))
        else None
      else None)"

text \<open>The address of the terminal: the first octet of the network is 10, and must be free in the database.\<close>

definition paa_ue :: "'d env \<Rightarrow> session \<Rightarrow> byte list option" where
  "paa_ue E cs =
     (if all_of HAVE_PDN cs then
        if ue_ipv_n cs ! 0 \<noteq> 0 then None
        else let v4 = 0x0a # take 3 (drop 1 (ue_ipv_n cs)); ty = (pdn (ps cs) ! 4) AND 7;
          v6 = [0x40, 0x24, 0x01, 0xf1, 0x00, push_bit 4 (e_ext_set_num E AND 0xF) OR (e_pgw_unit_num E AND 0xF)] @
               take 3 (drop 1 (ue_ipv_n cs)) @ zeros 7 @ [0x01] in
          if ty = 1 then gtpc_paa_set 1 v4
          else if ty = 2 then gtpc_paa_set 2 v6
          else if e_ipv64 E then gtpc_paa_set 3 (v6 @ v4) else gtpc_paa_set 1 v4
      else gtpc_paa_set 1 (zeros 4))"

text \<open>\<open>gtpc_append_item\<close> of a structure with the length its header claims, under the type of the call.\<close>

definition append_struct :: "(nat \<Rightarrow> bool) \<Rightarrow> byte \<Rightarrow> byte list \<Rightarrow> gtp_packet \<Rightarrow> gtp_packet option" where
  "append_struct malloc ty img p = gtpc_append_item malloc ty (item_of img) p"

definition append_bctx :: "(nat \<Rightarrow> bool) \<Rightarrow> bearer_ctx \<Rightarrow> gtp_packet \<Rightarrow> gtp_packet option" where
  "append_bctx malloc b p = gtpc_append_item malloc 93 (take (unat (gtpc_bearer_ctx_length b)) (bearer_ctx_image b)) p"

definition add_struct :: "byte list \<Rightarrow> bearer_ctx \<Rightarrow> bearer_ctx option" where
  "add_struct img b = gtpc_bearer_ctx_add_child (item_of img) b"

definition private_ext :: "session \<Rightarrow> byte list" where
  "private_ext cs =
     gtpc_private_extension_set (blk (u_teid (ps cs))) (teid_grekey (u_teid (ps cs))) (ue_ipv_n cs) (pgw_teid cs) (pgw_u_ipv_n cs)"

definition append_opt :: "(nat \<Rightarrow> bool) \<Rightarrow> byte \<Rightarrow> byte list option \<Rightarrow> gtp_packet \<Rightarrow> gtp_packet option" where
  "append_opt malloc ty img p = (case img of None \<Rightarrow> Some p | Some i \<Rightarrow> append_struct malloc ty i p)"

definition create_accept :: "'d env \<Rightarrow> session \<Rightarrow> gtp_packet option" where
  "create_accept E cs =
     do {
       let M = e_malloc_res E;
       l0 \<leftarrow> gtpc_alloc_packet M (e_junk E) 33;
       let cause = gtpc_cause_set 16;
       cfteid \<leftarrow> gtpc_f_teid_set 1 7 (pgw_teid cs) (Some (pgw_c_ipv_n cs)) None;
       paa \<leftarrow> paa_ue E cs;
       let apn = gtpc_apn_restriction_set 0;
       let am = gtpc_ambr_set (word_be (drop 4 (ambr_r (ps cs)))) (word_be (drop 8 (ambr_r (ps cs))));
       ufteid \<leftarrow> gtpc_f_teid_set 2 5 (pgw_teid cs) (Some (pgw_u_ipv_n cs)) None;
       b1 \<leftarrow> add_struct cause gtpc_bearer_ctx_set;
       b2 \<leftarrow> add_struct (gtpc_ebi_set 0 (low4 (ebi_b (ps cs)))) b1;
       b3 \<leftarrow> add_struct ufteid b2;
       b4 \<leftarrow> add_struct (gtpc_charging_id_set (pgw_teid cs)) b3;
       l1 \<leftarrow> append_struct M 2 cause l0;
       l2 \<leftarrow> append_struct M 87 cfteid l1;
       l3 \<leftarrow> append_struct M 79 paa l2;
       l4 \<leftarrow> append_struct M 127 apn l3;
       l5 \<leftarrow> append_struct M 72 am l4;
       l6 \<leftarrow> append_opt M 78 (setup_pco (e_ipv64 E) cs) l5;
       l7 \<leftarrow> append_bctx M b4 l6;
       l8 \<leftarrow> append_struct M 3 (gtpc_recovery_set (e_recovery E)) l7;
       gtpc_append_item M 255 (private_ext cs) l8
     }"

definition create_denied :: "'d env \<Rightarrow> session \<Rightarrow> gtp_packet option" where
  "create_denied E cs =
     do {
       let M = e_malloc_res E;
       l0 \<leftarrow> gtpc_alloc_packet M (e_junk E) 33;
       let cause = gtpc_cause_set 93;
       b1 \<leftarrow> add_struct cause gtpc_bearer_ctx_set;
       b2 \<leftarrow> add_struct (gtpc_ebi_set 0 0) b1;
       l1 \<leftarrow> append_struct M 2 cause l0;
       append_bctx M b2 l1
     }"

definition modify_accept :: "'d env \<Rightarrow> session \<Rightarrow> gtp_packet option" where
  "modify_accept E cs =
     do {
       let M = e_malloc_res E;
       l0 \<leftarrow> gtpc_alloc_packet M (e_junk E) 35;
       let cause = gtpc_cause_set 16;
       ms \<leftarrow> gtpc_msisdn_set (msisdn_num cs);
       b1 \<leftarrow> add_struct cause gtpc_bearer_ctx_set;
       b2 \<leftarrow> add_struct (gtpc_ebi_set 0 (low4 (ebi_b (ps cs)))) b1;
       b3 \<leftarrow> add_struct (gtpc_charging_id_set (pgw_teid cs)) b2;
       l1 \<leftarrow> append_struct M 2 cause l0;
       l2 \<leftarrow> append_struct M 76 ms l1;
       l3 \<leftarrow> append_struct M 73 (gtpc_ebi_set 0 5) l2;
       l4 \<leftarrow> append_struct M 127 (gtpc_apn_restriction_set 0) l3;
       l5 \<leftarrow> append_opt M 78 (setup_pco (e_ipv64 E) cs) l4;
       l6 \<leftarrow> append_bctx M b3 l5;
       l7 \<leftarrow> append_struct M 3 (gtpc_recovery_set (e_recovery E)) l6;
       if word_le (teid_grekey (c_teid (ps cs))) \<noteq> 0 \<and> word_le (teid_grekey (u_teid (ps cs))) \<noteq> 0
       then gtpc_append_item M 255 (private_ext cs) l7 else Some l7
     }"

definition modify_denied :: "'d env \<Rightarrow> session \<Rightarrow> gtp_packet option" where
  "modify_denied E cs =
     do { l0 \<leftarrow> gtpc_alloc_packet (e_malloc_res E) (e_junk E) 35; append_struct (e_malloc_res E) 2 (gtpc_cause_set 93) l0 }"

definition delete_accept :: "'d env \<Rightarrow> session \<Rightarrow> gtp_packet option" where
  "delete_accept E cs =
     do {
       let M = e_malloc_res E;
       l0 \<leftarrow> gtpc_alloc_packet M (e_junk E) 37;
       l1 \<leftarrow> append_struct M 2 (gtpc_cause_set 16) l0;
       l2 \<leftarrow> append_opt M 78 (setup_pco (e_ipv64 E) cs) l1;
       append_struct M 3 (gtpc_recovery_set (e_recovery E)) l2
     }"

definition delete_denied :: "'d env \<Rightarrow> session \<Rightarrow> gtp_packet option" where
  "delete_denied E cs =
     do {
       let M = e_malloc_res E;
       l0 \<leftarrow> gtpc_alloc_packet M (e_junk E) 37;
       l1 \<leftarrow> append_struct M 2 (gtpc_cause_set 93) l0;
       append_struct M 3 (gtpc_recovery_set (e_recovery E)) l1
     }"

text \<open>
  The end of every answer: addresses of the request, tunnel identifier and sequence number into the header, addresses swapped,
  to the egress queue. An answer that could not be built is an error without a reply.
\<close>

definition send_answer :: "'d env \<Rightarrow> gtp_packet \<Rightarrow> byte list \<Rightarrow> session \<Rightarrow> gtp_packet option \<Rightarrow> 'd \<times> node \<Rightarrow> (('d \<times> node) \<times> bool) option" where
  "send_answer E rpkt teid cs ans st =
     (case ans of
        None \<Rightarrow> Some (st, False)
      | Some l \<Rightarrow>
          (case gtpc_convert_to_packet (e_convert E) (e_junk E) (gtpc_copy_packet_addr l rpkt) of
             None \<Rightarrow> None
           | Some c \<Rightarrow>
               let c' = c\<lparr>p_data := wr_bytes (wr_bytes (p_data c) 4 teid) 8 (gtph_seqno cs)\<rparr> in
               Some ((fst st, pgw_enq EGRESS (pgw_swap_address c') (snd st)), True)))"

section \<open>Handlers\<close>

text \<open>Parsing of the request, common to the handlers (Create Session does not look at the tunnel identifier of the header).\<close>

definition read_request :: "'d env \<Rightarrow> packet \<Rightarrow> gtp_packet \<Rightarrow> gtp_packet \<times> session" where
  "read_request E pckt p =
     (let p' = p\<lparr>g_saddr := p_saddr pckt, g_caddr := p_caddr pckt\<rparr> in
      (p', zero_session\<lparr>gtph_seqno := rd_bytes (p_data pckt) 8 3, gtph_teid := bswap32 (ld32 (p_data pckt) 4),
           ps := fst (gtpc_iterate_item p' (on_gtpc_parse_root (e_junk E)) zero_state)\<rparr>))"

definition with_ebi :: "session \<Rightarrow> session" where
  "with_ebi cs = cs\<lparr>pgw_teid := (pgw_teid cs AND 0x0fffffff) OR (0xf0000000 AND push_bit 28 (ucast (low4 (ebi_b (ps cs)))))\<rparr>"

definition digits_erange :: "byte list \<Rightarrow> bool" where
  "digits_erange ds \<longleftrightarrow> dec_val (digits_text ds) > 2 ^ 64 - 1"

definition records :: "'d env \<Rightarrow> session \<Rightarrow> tunnel_row list \<Rightarrow> session" where
  "records E cs rows = foldl (on_tunnel_record (e_aton E)) cs rows"

text \<open>The lookup of a Create Session Request: by IMSI, then by MSISDN. \<open>Inl\<close>: no record.\<close>

definition create_lookup :: "'d env \<Rightarrow> 'd \<Rightarrow> 64 word \<Rightarrow> 64 word \<Rightarrow> session \<Rightarrow> (session + session \<times> 64 word) option" where
  "create_lookup E d i n cs =
     (case e_rows E d IMSI_LOOKUP i of
        None \<Rightarrow> None
      | Some rows \<Rightarrow>
          let cs1 = records E cs rows in
          if has HAVE_RECORD cs1 then Some (Inr (cs1, i))
          else (case e_rows E d MSISDN_LOOKUP n of
             None \<Rightarrow> None
           | Some rows' \<Rightarrow>
               let cs2 = records E cs1 rows' in
               Some (if has HAVE_RECORD cs2 then Inr (cs2, imsi_num cs2) else Inl cs2)))"

definition opt_query :: "'d env \<Rightarrow> bool \<Rightarrow> string \<Rightarrow> 'd \<Rightarrow> 'd \<times> bool" where
  "opt_query E need sql d = (if need then e_query E d sql else (d, True))"

definition on_create_session :: "'d env \<Rightarrow> packet \<Rightarrow> 'd \<times> node \<Rightarrow> (('d \<times> node) \<times> bool) option" where
  "on_create_session E pckt st =
     (case gtpc_alloc_packet_from_payload (e_malloc_req E) (e_junk E) (p_data pckt) (ucast (p_datalen pckt)) of
        Rejected _ \<Rightarrow> Some (st, False)
      | Accepted p \<Rightarrow>
          let (p, cs) = read_request E pckt p; (d0, nd) = st;
            answer = (\<lambda>d cs ans. send_answer E p (teid_grekey (c_teid (ps cs))) cs ans (d, nd)) in
          if flag (ps cs) AND INCLUDED_ALL \<noteq> INCLUDED_ALL then answer d0 cs (create_denied E cs)
          else
            let n = gtpc_digits_get (e_stale E) (drop 4 (msisdn (ps cs)));
              i = gtpc_digits_get (e_stale E \<or> digits_erange (drop 4 (msisdn (ps cs)))) (drop 4 (imsi (ps cs)));
              (d1, ok1) = (case e_server_ip E of None \<Rightarrow> (d0, True) | Some ip \<Rightarrow> e_query E d0 (pgwip_sql ip i)) in
            if \<not> ok1 then answer d1 cs (create_denied E cs)
            else let (d2, ok2) = opt_query E (i \<noteq> 0 \<and> n \<noteq> 0) (imsi_msisdn_sql n i) d1 in
            if \<not> ok2 then answer d2 cs (create_denied E cs)
            else (case create_lookup E d2 i n cs of
               None \<Rightarrow> None
             | Some (Inl cs') \<Rightarrow> answer d2 cs' (create_denied E cs')
             | Some (Inr (cs', i')) \<Rightarrow>
                 let cs'' = with_ebi cs'; (d3, ok3) = e_query E d2 (create_session_sql cs'' i') in
                 answer d3 cs'' (if ok3 then create_accept E cs'' else create_denied E cs'')))"

definition on_modify_bearer :: "'d env \<Rightarrow> packet \<Rightarrow> 'd \<times> node \<Rightarrow> (('d \<times> node) \<times> bool) option" where
  "on_modify_bearer E pckt st =
     (case gtpc_alloc_packet_from_payload (e_malloc_req E) (e_junk E) (p_data pckt) (ucast (p_datalen pckt)) of
        Rejected _ \<Rightarrow> Some (st, False)
      | Accepted p \<Rightarrow>
          let (p, cs) = read_request E pckt p; (d0, nd) = st;
            answer = (\<lambda>d cs ans. send_answer E p (le32 (sgw_c_teid cs)) cs ans (d, nd)) in
          (case e_rows E d0 TEID_ACTIVE_LOOKUP (ucast (gtph_teid cs)) of
             None \<Rightarrow> None
           | Some rows \<Rightarrow>
               let cs = records E cs rows in
               if \<not> has HAVE_RECORD cs then answer d0 cs (modify_denied E cs)
               else
                 let cs = with_ebi cs; c = word_le (teid_grekey (c_teid (ps cs))); moved = (c \<noteq> 0 \<and> word_le (teid_grekey (u_teid (ps cs))) \<noteq> 0);
                   (d1, ok1) = (if moved then e_query E d0 (modify_bearer_sql cs)
                                else opt_query E (has HAVE_RAT cs) (rat_only_sql cs) d0) in
                 if \<not> ok1 then answer d1 cs (modify_denied E cs)
                 else
                   let cs = (if moved then cs\<lparr>sgw_c_teid := c\<rparr> else cs);
                     (d2, ok2) = opt_query E (has HAVE_EBI_B cs) (bearer_ebi_sql cs) d1 in
                   answer d2 cs (if ok2 then modify_accept E cs else modify_denied E cs)))"

definition event_gtpc_delete_session_req :: "'d env \<Rightarrow> packet \<Rightarrow> 'd \<times> node \<Rightarrow> (('d \<times> node) \<times> bool) option" where
  "event_gtpc_delete_session_req E pckt st =
     (case gtpc_alloc_packet_from_payload (e_malloc_req E) (e_junk E) (p_data pckt) (ucast (p_datalen pckt)) of
        Rejected _ \<Rightarrow> Some (st, False)
      | Accepted p \<Rightarrow>
          let (p, cs) = read_request E pckt p; (d0, nd) = st;
            answer = (\<lambda>d cs ans. send_answer E p (le32 (sgw_c_teid cs)) cs ans (d, nd)) in
          (case e_rows E d0 TEID_LOOKUP (ucast (gtph_teid cs)) of
             None \<Rightarrow> None
           | Some rows \<Rightarrow>
               let cs = records E cs rows in
               if \<not> has HAVE_RECORD cs then answer d0 cs (delete_denied E cs)
               else let (d1, ok) = e_query E d0 (delete_session_sql cs) in
                 answer d1 cs (if ok then delete_accept E cs else delete_denied E cs)))"

text \<open>A burst of requests at a node: each is handled and freed.\<close>

fun handle_all :: "(packet \<Rightarrow> 'd \<times> node \<Rightarrow> (('d \<times> node) \<times> bool) option) \<Rightarrow> packet list \<Rightarrow> 'd \<times> node \<Rightarrow> ('d \<times> node) option" where
  "handle_all h [] st = Some st"
| "handle_all h (p # q) st = (case h p st of None \<Rightarrow> None | Some (st', _) \<Rightarrow> handle_all h q st')"

definition event_gtpc_create_session_req :: "'d env \<Rightarrow> 'd \<times> node \<Rightarrow> (('d \<times> node) \<times> bool) option" where
  "event_gtpc_create_session_req E st =
     (case pgw_deq_burst INGRESS 32 (snd st) of (pkts, nd) \<Rightarrow>
        if pkts \<noteq> [] then map_option (\<lambda>s. (s, True)) (handle_all (on_create_session E) pkts (fst st, nd))
        else Some ((fst st, nd), False))"

definition event_gtpc_modify_bearer_req :: "'d env \<Rightarrow> 'd \<times> node \<Rightarrow> (('d \<times> node) \<times> bool) option" where
  "event_gtpc_modify_bearer_req E st =
     (case pgw_deq_burst INGRESS 32 (snd st) of (pkts, nd) \<Rightarrow>
        if pkts \<noteq> [] then map_option (\<lambda>s. (s, True)) (handle_all (on_modify_bearer E) pkts (fst st, nd))
        else Some ((fst st, nd), False))"

end
