(* ===== verification/Gtpc_Bearer.thy ===== *)
theory Gtpc_Bearer
  imports Gtpc_Session
begin

text \<open>
  The other requests of GTP-C version 2: the handlers of Delete Bearer Requests, Suspend and Resume Notifications
  (\<open>ctrlplane/src/pgw/event/event_gtpc_delete_bearer.c\<close>, \<open>event_gtpc_suspend_notification.c\<close>,
  \<open>event_gtpc_resume_notification.c\<close>). They look a session up by the tunnel identifier of the header.
\<close>

definition suspend_sql :: "session \<Rightarrow> string" where
  "suspend_sql cs = sql_text [''UPDATE tunnel SET active=0, `latest_gtp_version`=2 WHERE pgw_teid = '', num (gtph_teid cs)]"

definition resume_sql :: "64 word \<Rightarrow> string" where
  "resume_sql i = sql_text [''UPDATE tunnel SET active=1, `latest_gtp_version`=2 WHERE imsi = '', num i]"

section \<open>Answers\<close>

definition delete_bearer_accept :: "'d env \<Rightarrow> session \<Rightarrow> gtp_packet option" where
  "delete_bearer_accept E cs =
     do {
       let M = e_malloc_res E;
       l0 \<leftarrow> gtpc_alloc_packet M (e_junk E) 100;
       l1 \<leftarrow> append_struct M 2 (gtpc_cause_set 16) l0;
       l2 \<leftarrow> append_struct M 73 (gtpc_ebi_set 0 (ebi cs)) l1;
       append_opt M 78 (setup_pco (e_ipv64 E) cs) l2
     }"

text \<open>
  A denial is a Delete Session Response, and returns the PCO of the request with the length it claims: when this exceeds the
  structure, what lies behind it.
\<close>

definition struct_bytes :: "mem \<Rightarrow> byte list \<Rightarrow> byte list" where
  "struct_bytes junk img = rd_bytes (\<lambda>i. if i < length img then img ! i else junk i) 0 (unat (gtpc_item_length img))"

definition delete_bearer_denied :: "'d env \<Rightarrow> session \<Rightarrow> gtp_packet option" where
  "delete_bearer_denied E cs =
     do {
       let M = e_malloc_res E;
       l0 \<leftarrow> gtpc_alloc_packet M (e_junk E) 37;
       l1 \<leftarrow> append_struct M 2 (gtpc_cause_set 93) l0;
       l2 \<leftarrow> append_struct M 73 (gtpc_ebi_set 0 (ebi cs)) l1;
       l3 \<leftarrow> append_struct M 3 (gtpc_recovery_set (e_recovery E)) l2;
       if all_of HAVE_PCO cs then gtpc_append_item M 78 (struct_bytes (e_junk E) (pco (ps cs))) l3 else Some l3
     }"

definition suspend_answer :: "'d env \<Rightarrow> byte \<Rightarrow> gtp_packet option" where
  "suspend_answer E c =
     do { l0 \<leftarrow> gtpc_alloc_packet (e_malloc_res E) (e_junk E) 163; append_struct (e_malloc_res E) 2 (gtpc_cause_set c) l0 }"

definition resume_answer :: "'d env \<Rightarrow> byte \<Rightarrow> gtp_packet option" where
  "resume_answer E c =
     do { l0 \<leftarrow> gtpc_alloc_packet (e_malloc_res E) (e_junk E) 165; append_struct (e_malloc_res E) 2 (gtpc_cause_set c) l0 }"

section \<open>Handlers\<close>

definition event_gtpc_delete_bearer_req :: "'d env \<Rightarrow> packet \<Rightarrow> 'd \<times> node \<Rightarrow> (('d \<times> node) \<times> bool) option" where
  "event_gtpc_delete_bearer_req E pckt st =
     (case gtpc_alloc_packet_from_payload (e_malloc_req E) (e_junk E) (p_data pckt) (ucast (p_datalen pckt)) of
        Rejected _ \<Rightarrow> Some (st, False)
      | Accepted p \<Rightarrow>
          let (p, cs) = read_request E pckt p; (d0, nd) = st;
            answer = (\<lambda>d cs ans. send_answer E p (le32 (sgw_c_teid cs)) cs ans (d, nd)) in
          (case e_rows E d0 TEID_LOOKUP (ucast (gtph_teid cs)) of
             None \<Rightarrow> None
           | Some rows \<Rightarrow>
               let cs = records E cs rows in
               if \<not> has HAVE_RECORD cs then answer d0 cs (delete_bearer_denied E cs)
               else let (d1, ok) = e_query E d0 (delete_session_sql cs) in
                 answer d1 cs (if ok then delete_bearer_accept E cs else delete_bearer_denied E cs)))"

definition event_gtpc_suspend_notification_req :: "'d env \<Rightarrow> packet \<Rightarrow> 'd \<times> node \<Rightarrow> (('d \<times> node) \<times> bool) option" where
  "event_gtpc_suspend_notification_req E pckt st =
     (case gtpc_alloc_packet_from_payload (e_malloc_req E) (e_junk E) (p_data pckt) (ucast (p_datalen pckt)) of
        Rejected _ \<Rightarrow> Some (st, False)
      | Accepted p \<Rightarrow>
          let (p, cs) = read_request E pckt p; (d0, nd) = st;
            answer = (\<lambda>d cs c. send_answer E p (le32 (sgw_c_teid cs)) cs (suspend_answer E c) (d, nd)) in
          (case e_rows E d0 TEID_LOOKUP (ucast (gtph_teid cs)) of
             None \<Rightarrow> None
           | Some rows \<Rightarrow>
               let cs = records E cs rows in
               if \<not> has HAVE_RECORD cs then answer d0 cs 93
               else let (d1, ok) = e_query E d0 (suspend_sql cs) in answer d1 cs (if ok then 16 else 93)))"

definition event_gtpc_resume_notification_req :: "'d env \<Rightarrow> packet \<Rightarrow> 'd \<times> node \<Rightarrow> (('d \<times> node) \<times> bool) option" where
  "event_gtpc_resume_notification_req E pckt st =
     (case gtpc_alloc_packet_from_payload (e_malloc_req E) (e_junk E) (p_data pckt) (ucast (p_datalen pckt)) of
        Rejected _ \<Rightarrow> Some (st, False)
      | Accepted p \<Rightarrow>
          let (p, cs) = read_request E pckt p; (d0, nd) = st;
            answer = (\<lambda>d cs c. send_answer E p (le32 (sgw_c_teid cs)) cs (resume_answer E c) (d, nd)) in
          if \<not> all_of HAVE_IMSI cs then answer d0 cs 93
          else (case e_rows E d0 TEID_LOOKUP (ucast (gtph_teid cs)) of
             None \<Rightarrow> None
           | Some rows \<Rightarrow>
               let cs = records E cs rows in
               if \<not> has HAVE_RECORD cs then answer d0 cs 93
               else let (d1, ok) = e_query E d0 (resume_sql (gtpc_digits_get (e_stale E) (drop 4 (imsi (ps cs))))) in
                 answer d1 cs (if ok then 16 else 93)))"

end
