(* ===== verification/Gtpc_V1.thy ===== *)
theory Gtpc_V1
  imports Gtpc_Session
begin

text \<open>
  GTP-C version 1: the parser \<open>on_gtpcv1_parse_root\<close> (\<open>ctrlplane/src/pkt/gtpc_item_func_v1.c\<close>) and the handler of
  Create, Update and Delete PDP Context Requests (\<open>ctrlplane/src/pgw/event/event_gtpc_v1_any.c\<close>). The two loops over a
  message advance a 16 bit offset by what the message claims and may not end: they are partial functions, \<open>None\<close> when
  they do not return.
\<close>

section \<open>Data\<close>

text \<open>\<open>gtpc_parse_state_t\<close>: what version 1 adds to a session. The sequence number has two octets here.\<close>

record v1_state =
  base :: session
  seqno :: "16 word"
  reqtype_v1 :: byte
  qos :: "byte list"
  qos_len :: byte
  nsapi :: byte
  cause_v1 :: byte

definition zero_v1 :: v1_state where
  "zero_v1 = \<lparr>base = zero_session, seqno = 0, reqtype_v1 = 0, qos = zeros 256, qos_len = 0, nsapi = 0, cause_v1 = 0\<rparr>"

abbreviation vps :: "v1_state \<Rightarrow> parse_state" where "vps v \<equiv> ps (base v)"

definition on_ps :: "(parse_state \<Rightarrow> parse_state) \<Rightarrow> v1_state \<Rightarrow> v1_state" where
  "on_ps f v = v\<lparr>base := (base v)\<lparr>ps := f (vps v)\<rparr>\<rparr>"

abbreviation HAVE_V1 :: "32 word" where "HAVE_V1 \<equiv> flag_bit 1"
abbreviation HAVE_V1_MSISDN :: "32 word" where "HAVE_V1_MSISDN \<equiv> flag_bit 30"
abbreviation HAVE_V1_TEID_DATA :: "32 word" where "HAVE_V1_TEID_DATA \<equiv> flag_bit 29"
abbreviation HAVE_V1_TEID_CTRL :: "32 word" where "HAVE_V1_TEID_CTRL \<equiv> flag_bit 28"
abbreviation HAVE_V1_IPADR_DATA :: "32 word" where "HAVE_V1_IPADR_DATA \<equiv> flag_bit 27"
abbreviation HAVE_V1_IPADR_CTRL :: "32 word" where "HAVE_V1_IPADR_CTRL \<equiv> flag_bit 26"
abbreviation HAVE_V1_IMSI :: "32 word" where "HAVE_V1_IMSI \<equiv> flag_bit 25"
abbreviation HAVE_V1_QOS :: "32 word" where "HAVE_V1_QOS \<equiv> flag_bit 24"
abbreviation HAVE_V1_PCO :: "32 word" where "HAVE_V1_PCO \<equiv> flag_bit 23"
abbreviation HAVE_V1_NSAPI :: "32 word" where "HAVE_V1_NSAPI \<equiv> flag_bit 22"
abbreviation HAVE_V1_CAUSE :: "32 word" where "HAVE_V1_CAUSE \<equiv> flag_bit 21"

definition REQUIRED_CREATE_PDP :: "32 word" where
  "REQUIRED_CREATE_PDP = HAVE_V1 OR HAVE_V1_MSISDN OR HAVE_V1_TEID_DATA OR HAVE_V1_TEID_CTRL OR HAVE_V1_IPADR_DATA OR
     HAVE_V1_IPADR_CTRL OR HAVE_V1_IMSI"

definition REQUIRED_UPDATE_PDP :: "32 word" where
  "REQUIRED_UPDATE_PDP = HAVE_V1 OR HAVE_V1_TEID_DATA OR HAVE_V1_IPADR_DATA OR HAVE_V1_IPADR_CTRL"

definition REQUIRED_DELETE_PDP :: "32 word" where
  "REQUIRED_DELETE_PDP = HAVE_V1 OR HAVE_V1_NSAPI"

definition have_v1 :: "32 word \<Rightarrow> parse_state \<Rightarrow> parse_state" where
  "have_v1 f cs = cs\<lparr>flag_v1 := flag_v1 cs OR f\<rparr>"

section \<open>Information elements\<close>

text \<open>
  The table \<open>msgs_gtpc_v1\<close>, by the type of an element: its type (0: unknown), its length with the type when this is fixed,
  and whether it has a parser.
\<close>

definition v1_fixed :: "(byte \<times> nat) list" where
  "v1_fixed = [(1, 2), (2, 9), (3, 7), (4, 5), (5, 5), (8, 2), (9, 29), (11, 2), (12, 4), (13, 2), (14, 2), (15, 2), (16, 5), (17, 5),
     (18, 6), (19, 2), (20, 2), (21, 2), (22, 10), (23, 2), (24, 2), (25, 3), (26, 3), (27, 3), (28, 3), (29, 2), (127, 5)]"

definition msgs_gtpc_v1 :: "byte \<Rightarrow> byte \<times> nat \<times> bool" where
  "msgs_gtpc_v1 i =
     (case map_of v1_fixed i of
        Some n \<Rightarrow> (i, n, i = 1 \<or> i = 2 \<or> i = 16 \<or> i = 17 \<or> i = 20)
      | None \<Rightarrow>
          if 128 \<le> i \<and> i \<le> 184 \<or> i = 251 \<or> i = 255 then (i, 0, i = 132 \<or> i = 133 \<or> i = 134 \<or> i = 135)
          else (0, 0, False))"

text \<open>\<open>memcpy\<close> to a field of a structure.\<close>

definition put_at :: "nat \<Rightarrow> byte list \<Rightarrow> byte list \<Rightarrow> byte list" where
  "put_at k img data = take k img @ data @ drop (k + length data) img"

text \<open>Protocol configuration options, whatever their contents. At most 255 rounds.\<close>

definition pco_request_v1 :: "16 word \<Rightarrow> parse_state \<Rightarrow> parse_state" where
  "pco_request_v1 ty cs =
     (if ty = 0x000d then have_v1 HAVE_PCO_DNS_IPV4 cs
      else if ty = 0x0003 then have_v1 HAVE_PCO_DNS_IPV6 cs
      else if ty = 0x0010 then have_v1 HAVE_PCO_IPV4_LINK_MTU cs
      else if ty = 0x0015 then have_v1 HAVE_PCO_NONIP_LINK_MTU cs
      else cs)"

fun pco_loop_v1 :: "nat \<Rightarrow> mem \<Rightarrow> nat \<Rightarrow> nat \<Rightarrow> parse_state \<Rightarrow> parse_state" where
  "pco_loop_v1 0 P len off cs = cs"
| "pco_loop_v1 (Suc n) P len off cs =
     (if off < len then
        if ldn16 P off = 0x8021 then
          (case gtpc_iterate_pco_ipcp_item P (off + 3) cs of
             None \<Rightarrow> cs
           | Some cs' \<Rightarrow> pco_loop_v1 n P len (off + 3 + unat (P (off + 2))) cs')
        else pco_loop_v1 n P len (off + 3 + unat (P (off + 2))) (pco_request_v1 (ldn16 P off) cs)
      else cs)"

text \<open>
  The options are copied behind the four octets of a version 2 header; the test against the whole structure lets up to three
  octets pass its end, into the PAA that follows it.
\<close>

definition parse_pco_v1 :: "mem \<Rightarrow> byte list \<Rightarrow> parse_state \<Rightarrow> parse_state" where
  "parse_pco_v1 junk data cs =
     (let img = put_at 4 (pco cs @ paa cs) data; P = (\<lambda>i. if 5 + i < 258 + 26 then img ! (5 + i) else junk i) in
      pco_loop_v1 255 P (length data - 1) 0 ((have_v1 HAVE_V1_PCO cs)\<lparr>pco := take 258 img, paa := drop 258 img\<rparr>))"

definition on_gtpcv1_parse_root :: "mem \<Rightarrow> byte \<Rightarrow> mem \<Rightarrow> nat \<Rightarrow> 16 word \<Rightarrow> v1_state \<Rightarrow> v1_state \<times> bool" where
  "on_gtpcv1_parse_root junk ty m a datalen v0 =
     (let n = unat datalen; v = on_ps (have_v1 HAVE_V1) v0 in
      if n = 0 then (v0, False)
      else if ty = 1 then
        (if n \<noteq> 1 then v else (on_ps (have_v1 HAVE_V1_CAUSE) v)\<lparr>cause_v1 := m (a + 1)\<rparr>, True)
      else if ty = 17 then
        (if n \<noteq> 4 then v else on_ps (\<lambda>cs. (have_v1 HAVE_V1_TEID_CTRL cs)\<lparr>c_teid := put_at 5 (c_teid cs) (rd_bytes m (a + 1) n)\<rparr>) v, True)
      else if ty = 16 then
        (if n \<noteq> 4 then v else on_ps (\<lambda>cs. (have_v1 HAVE_V1_TEID_DATA cs)\<lparr>u_teid := put_at 5 (u_teid cs) (rd_bytes m (a + 1) n)\<rparr>) v, True)
      else if ty = 2 then
        (if n \<noteq> 8 then v else on_ps (\<lambda>cs. (have_v1 HAVE_V1_IMSI cs)\<lparr>imsi := put_at 4 (imsi cs) (rd_bytes m (a + 1) 8)\<rparr>) v, True)
      else if ty = 134 then
        (if n \<noteq> 7 then v else on_ps (\<lambda>cs. (have_v1 HAVE_V1_MSISDN cs)\<lparr>msisdn := put_at 4 (msisdn cs) (rd_bytes m (a + 4) 6)\<rparr>) v, True)
      else if ty = 133 then
        (if n \<noteq> 4 then v
         else if flag_v1 (vps v) AND HAVE_V1_IPADR_CTRL \<noteq> 0 then
           on_ps (\<lambda>cs. (have_v1 HAVE_V1_IPADR_DATA cs)\<lparr>u_teid := put_at 9 (u_teid cs) (rd_bytes m (a + 3) n)\<rparr>) v
         else on_ps (\<lambda>cs. (have_v1 HAVE_V1_IPADR_CTRL cs)\<lparr>c_teid := put_at 9 (c_teid cs) (rd_bytes m (a + 3) n)\<rparr>) v, True)
      else if ty = 135 then
        (if n < 256 then (on_ps (have_v1 HAVE_V1_QOS) v)\<lparr>qos := padded 256 (rd_bytes m (a + 3) n), qos_len := word_of_nat n\<rparr> else v, True)
      else if ty = 20 then
        (if n \<noteq> 1 then v else (on_ps (have_v1 HAVE_V1_NSAPI) v)\<lparr>nsapi := m (a + 1) AND 0xF\<rparr>, True)
      else if ty = 132 then
        (if n \<ge> 258 then v else on_ps (parse_pco_v1 junk (rd_bytes m (a + 3) n)) v, True)
      else (v, False))"

section \<open>The message\<close>

text \<open>Extension headers: their length in units of four octets, and at their end the type of the next. \<open>before\<close> is the octet in front of the buffer.\<close>

partial_function (option) skip_extensions :: "byte \<Rightarrow> mem \<Rightarrow> 32 word \<Rightarrow> 16 word \<Rightarrow> 16 word option" where
  "skip_extensions before m len off =
     (if ucast off < len then
        let off' = off + push_bit 2 (ucast (m (unat off))) in
        if (if off' = 0 then before else m (unat off' - 1)) = 0 then Some off' else skip_extensions before m len off'
      else Some off)"

text \<open>One element: the state and the length of the element, or \<open>ERR\<close>.\<close>

definition v1_element :: "mem \<Rightarrow> mem \<Rightarrow> 16 word \<Rightarrow> v1_state \<Rightarrow> (v1_state \<times> 16 word) option" where
  "v1_element junk m off v =
     (case msgs_gtpc_v1 (m (unat off)) of (ty, fixed, parser) \<Rightarrow>
        if ty = 0 then None
        else
          let l = ldn16 m (unat off + 1);
            extlen = (if fixed = 0 then l + 3 else word_of_nat fixed); datalen = (if fixed = 0 then l else word_of_nat fixed - 1) in
          if parser then
            (case on_gtpcv1_parse_root junk ty m (unat off) datalen v of (v', ok) \<Rightarrow> if ok then Some (v', extlen) else None)
          else Some (v, extlen))"

partial_function (option) v1_elements :: "mem \<Rightarrow> mem \<Rightarrow> 32 word \<Rightarrow> 16 word \<Rightarrow> v1_state \<Rightarrow> (unit + v1_state) option" where
  "v1_elements junk m len off v =
     (if ucast off < len then
        (case v1_element junk m off v of
           None \<Rightarrow> Some (Inl ())
         | Some r \<Rightarrow> v1_elements junk m len (off + snd r) (fst r))
      else Some (Inr v))"

text \<open>The reading of a message: the flags of the first octet, the sequence number, the elements.\<close>

definition v1_read :: "mem \<Rightarrow> packet \<Rightarrow> (unit + v1_state) option" where
  "v1_read junk pckt =
     (let m = p_data pckt; v = zero_v1\<lparr>seqno := (if bit (m 0) 1 then ldn16 m 8 else 0)\<rparr>;
        off = (if bit (m 0) 1 \<or> bit (m 0) 0 \<or> bit (m 0) 2 then 8 + 4 else 8) in
      do {
        off' \<leftarrow> (if bit (m 0) 2 then skip_extensions (junk 0) m (p_datalen pckt) off else Some off);
        v1_elements junk m (p_datalen pckt) off' v
      })"

text \<open>The type of the answer.\<close>

definition v1_response :: "byte \<Rightarrow> byte option" where
  "v1_response ty = (if ty \<in> set [1, 4, 6, 16, 18, 20, 22, 27, 29] then Some (ty + 1) else None)"

section \<open>Database\<close>

definition sgw_tunnel_sql :: "session \<Rightarrow> string list" where
  "sgw_tunnel_sql cs =
     [''UPDATE tunnel SET `sgw_gtpc_teid`='', num (word_le (teid_grekey (c_teid (ps cs)))),
      '', `sgw_gtpc_ipv`='', quoted (ntoa (blk (c_teid (ps cs)))),
      '', `sgw_gtpu_teid`='', num (word_le (teid_grekey (u_teid (ps cs)))),
      '', `sgw_gtpu_ipv`='', quoted (ntoa (blk (u_teid (ps cs)))), '', '']"

definition create_pdp_sql :: "session \<Rightarrow> 64 word \<Rightarrow> string" where
  "create_pdp_sql cs i =
     sql_text (sgw_tunnel_sql cs @
       ['' `qci`=0, `active` = 1, `ebi`=0, `pgw_teid`='', num (pgw_teid cs), '', `imsi`='', num i,
        '', `rat`=1 ,`latest_gtp_version`=1  WHERE imsi = '', num i, '' ''])"

definition update_pdp_sql :: "session \<Rightarrow> string" where
  "update_pdp_sql cs =
     sql_text (sgw_tunnel_sql cs @ ['' `rat`=1, `active` = 1, `latest_gtp_version`=1  WHERE imsi = '', num (imsi_num cs), '' ''])"

definition delete_pdp_sql :: "v1_state \<Rightarrow> string" where
  "delete_pdp_sql v =
     sql_text [''UPDATE tunnel SET `active` = 0 WHERE pgw_teid = '', num (gtph_teid (base v)), '' AND ebi = '', num (nsapi v), '' '']"

text \<open>A lookup, and then what is done with a record.\<close>

definition v1_lookup :: "'d env \<Rightarrow> statement \<Rightarrow> 64 word \<Rightarrow> 'd \<Rightarrow> v1_state \<Rightarrow> v1_state option" where
  "v1_lookup E s n d v = (case e_rows E d s n of None \<Rightarrow> None | Some rows \<Rightarrow> Some (v\<lparr>base := records E (base v) rows\<rparr>))"

definition v1_imsi :: "'d env \<Rightarrow> v1_state \<Rightarrow> 64 word" where
  "v1_imsi E v = gtpc_digits_get (e_stale E \<or> digits_erange (drop 4 (msisdn (vps v)))) (drop 4 (imsi (vps v)))"

definition on_create_pdp_ctx :: "'d env \<Rightarrow> 'd \<Rightarrow> v1_state \<Rightarrow> ('d \<times> v1_state \<times> bool) option" where
  "on_create_pdp_ctx E d v =
     do {
       v' \<leftarrow> v1_lookup E IMSI_LOOKUP (v1_imsi E v) d v;
       if \<not> has HAVE_RECORD (base v') then Some (d, v', False)
       else let (d', ok) = e_query E d (create_pdp_sql (base v') (v1_imsi E v)) in Some (d', v', ok)
     }"

definition on_update_pdp_ctx :: "'d env \<Rightarrow> 'd \<Rightarrow> v1_state \<Rightarrow> ('d \<times> v1_state \<times> bool) option" where
  "on_update_pdp_ctx E d v =
     do {
       v' \<leftarrow> v1_lookup E TEID_ACTIVE_LOOKUP (ucast (bswap32 (gtph_teid (base v)))) d v;
       let cs = base v';
       if \<not> has HAVE_RECORD cs then Some (d, v', False)
       else if flag_v1 (ps cs) AND (HAVE_V1_TEID_DATA OR HAVE_V1_TEID_CTRL) = HAVE_V1_TEID_DATA OR HAVE_V1_TEID_CTRL then
         let (d', ok) = e_query E d (update_pdp_sql cs) in
         Some (d', (if ok then v'\<lparr>base := cs\<lparr>sgw_c_teid := word_be (teid_grekey (c_teid (ps cs)))\<rparr>\<rparr> else v'), ok)
       else Some (d, v'\<lparr>base := cs\<lparr>sgw_c_teid := bswap32 (sgw_c_teid cs)\<rparr>\<rparr>, True)
     }"

definition on_delete_pdp_ctx :: "'d env \<Rightarrow> 'd \<Rightarrow> v1_state \<Rightarrow> ('d \<times> v1_state \<times> bool) option" where
  "on_delete_pdp_ctx E d v =
     do {
       v' \<leftarrow> v1_lookup E TEID_LOOKUP (ucast (gtph_teid (base v))) d v;
       if \<not> has HAVE_RECORD (base v') then Some (d, v', False)
       else let (d', ok) = e_query E d (delete_pdp_sql v') in Some (d', v', ok)
     }"

section \<open>Answers\<close>

definition has_v1 :: "32 word \<Rightarrow> v1_state \<Rightarrow> bool" where
  "has_v1 f v \<longleftrightarrow> flag_v1 (vps v) AND f \<noteq> 0"

definition all_v1 :: "32 word \<Rightarrow> v1_state \<Rightarrow> bool" where
  "all_v1 f v \<longleftrightarrow> flag_v1 (vps v) AND f = f"

definition pco_dns_v1 :: "v1_state \<Rightarrow> byte list" where
  "pco_dns_v1 v =
     (if all_v1 (HAVE_PCO_DNS_IPV4 OR HAVE_PCO_DNS_IPV6) v then PCO_DNS_IPV4_VAL
      else if all_v1 HAVE_PCO_DNS_IPV6 v then PCO_DNS_IPV6_VAL
      else if all_v1 HAVE_PCO_DNS_IPV4 v then PCO_DNS_IPV4_VAL else [])"

definition pco_mtu_v1 :: "v1_state \<Rightarrow> byte list" where
  "pco_mtu_v1 v =
     (if all_v1 HAVE_PCO_NONIP_LINK_MTU v then PCO_MTU_NONIP_VAL
      else if all_v1 HAVE_PCO_IPV4_LINK_MTU v then PCO_MTU_IPV4_VAL else [])"

definition pco_ipcp_v1 :: "v1_state \<Rightarrow> byte list" where
  "pco_ipcp_v1 v = (if all_v1 (HAVE_PCO_IPCP_S_DNS OR HAVE_PCO_IPCP_P_DNS) v then PCO_DNS_IPCP_IPV4_VAL else [])"

text \<open>The octets of the PCO that are sent: type, length, head and options.\<close>

definition setup_pco_v1 :: "v1_state \<Rightarrow> byte list option" where
  "setup_pco_v1 v =
     (if has_v1 (PCO_ALL OR HAVE_PCO_IPCP_P_DNS OR HAVE_PCO_IPCP_S_DNS) v then
        let buf = pco_dns_v1 v @ pco_mtu_v1 v @ pco_ipcp_v1 v;
          head = (if pco_mtu_v1 v \<noteq> [] \<or> pco_ipcp_v1 v \<noteq> [] then 0x80 else 0) in
        if length buf > 1 then
          if length buf + 1 \<ge> 253 then None
          else Some ([132] @ be16 (word_of_nat (length buf + 1)) @ [head] @ buf)
        else None
      else None)"

definition v1_pco :: "v1_state \<Rightarrow> byte list list" where
  "v1_pco v = (if has_v1 HAVE_V1_PCO v then case setup_pco_v1 v of None \<Rightarrow> [] | Some p \<Rightarrow> [p] else [])"

definition gsn_address :: "byte list \<Rightarrow> byte list" where
  "gsn_address a = [133] @ be16 4 @ a"

definition v1_qos :: "v1_state \<Rightarrow> byte list list" where
  "v1_qos v = (if has_v1 HAVE_V1_QOS v then [[135], be16 (ucast (qos_len v)), take (unat (qos_len v)) (qos v)] else [])"

definition v1_start :: "byte \<Rightarrow> v1_state \<Rightarrow> byte list list" where
  "v1_start c v = [be16 (seqno v), [0, 0], [1, c]]"

text \<open>The upper half of the octet of the NSAPI is not initialised.\<close>

definition create_pdp_items :: "'d env \<Rightarrow> v1_state \<Rightarrow> byte list list" where
  "create_pdp_items E v =
     v1_start 0x80 v @ [[8, 0], [14, 1], 16 # be32 (pgw_teid (base v)), 17 # be32 (pgw_teid (base v))] @
     (if has_v1 HAVE_V1_NSAPI v then [[20, (e_junk E 1 AND 0xF0) OR (nsapi v AND 0xF)]] else []) @
     [127 # be32 0, [128] @ be16 6 @ [0xF1, 0x21, (ue_ipv_n (base v) ! 0) OR 0x0a] @ take 3 (drop 1 (ue_ipv_n (base v)))] @ v1_pco v @
     [gsn_address (pgw_c_ipv_n (base v)), gsn_address (pgw_u_ipv_n (base v)), gsn_address (pgw_c_ipv_n (base v)), gsn_address (pgw_u_ipv_n (base v))] @
     v1_qos v"

definition update_pdp_items :: "v1_state \<Rightarrow> byte list list" where
  "update_pdp_items v =
     v1_start 0x80 v @ [[14, 1], 16 # be32 (pgw_teid (base v)), 17 # be32 (pgw_teid (base v)), 127 # be32 0] @ v1_pco v @
     [gsn_address (pgw_c_ipv_n (base v)), gsn_address (pgw_u_ipv_n (base v))] @ v1_qos v"

text \<open>
  Every answer: allocation, the items, the tunnel identifier, conversion, swapped addresses, the egress queue. Whatever
  fails is a panic.
\<close>

fun v1_append_all :: "(nat \<Rightarrow> bool) \<Rightarrow> byte list list \<Rightarrow> gtp_packet \<Rightarrow> gtp_packet option" where
  "v1_append_all malloc [] p = Some p"
| "v1_append_all malloc (d # ds) p = gtpc_v1_append_item malloc 0 d p \<bind> v1_append_all malloc ds"

definition v1_send :: "'d env \<Rightarrow> gtp_packet \<Rightarrow> v1_state \<Rightarrow> byte list list \<Rightarrow> 32 word \<Rightarrow> 'd \<times> node \<Rightarrow> (('d \<times> node) \<times> bool) option" where
  "v1_send E rpkt v items teid st =
     do {
       l0 \<leftarrow> gtpc_v1_alloc_packet (e_malloc_res E) (e_junk E) (reqtype_v1 v);
       l1 \<leftarrow> v1_append_all (e_malloc_res E) items (gtpc_copy_packet_addr l0 rpkt);
       c \<leftarrow> gtpc_convert_to_packet (e_convert E) (e_junk E) (l1\<lparr>g_packet := wr_bytes (g_packet l1) 4 (be32 teid)\<rparr>);
       Some ((fst st, pgw_enq EGRESS (pgw_swap_address c) (snd st)), True)
     }"

definition accept_create_pdp_ctx :: "'d env \<Rightarrow> gtp_packet \<Rightarrow> v1_state \<Rightarrow> 'd \<times> node \<Rightarrow> (('d \<times> node) \<times> bool) option" where
  "accept_create_pdp_ctx E rpkt v st = v1_send E rpkt v (create_pdp_items E v) (word_be (teid_grekey (c_teid (vps v)))) st"

definition accept_update_pdp_ctx :: "'d env \<Rightarrow> gtp_packet \<Rightarrow> v1_state \<Rightarrow> 'd \<times> node \<Rightarrow> (('d \<times> node) \<times> bool) option" where
  "accept_update_pdp_ctx E rpkt v st = v1_send E rpkt v (update_pdp_items v) (sgw_c_teid (base v)) st"

definition accept_delete_pdp_ctx :: "'d env \<Rightarrow> gtp_packet \<Rightarrow> v1_state \<Rightarrow> 'd \<times> node \<Rightarrow> (('d \<times> node) \<times> bool) option" where
  "accept_delete_pdp_ctx E rpkt v st = v1_send E rpkt v (v1_start 0x80 v @ v1_pco v) (bswap32 (sgw_c_teid (base v))) st"

definition v1_denied :: "'d env \<Rightarrow> gtp_packet \<Rightarrow> v1_state \<Rightarrow> 'd \<times> node \<Rightarrow> (('d \<times> node) \<times> bool) option" where
  "v1_denied E rpkt v st = v1_send E rpkt v (v1_start 0xC7 v) (word_be (teid_grekey (c_teid (vps v)))) st"

section \<open>Handler\<close>

text \<open>A request with its required elements is tried and accepted or denied.\<close>

definition v1_try :: "'d env \<Rightarrow> gtp_packet \<Rightarrow> ('d \<Rightarrow> v1_state \<Rightarrow> ('d \<times> v1_state \<times> bool) option) \<Rightarrow>
    (v1_state \<Rightarrow> 'd \<times> node \<Rightarrow> (('d \<times> node) \<times> bool) option) \<Rightarrow> v1_state \<Rightarrow> 'd \<times> node \<Rightarrow> (('d \<times> node) \<times> bool) option" where
  "v1_try E p on accept v st =
     do { r \<leftarrow> on (fst st) v; case r of (d, v', ok) \<Rightarrow> if ok then accept v' (d, snd st) else v1_denied E p v' (d, snd st) }"

definition event_gtpc_v1_any_req :: "'d env \<Rightarrow> packet \<Rightarrow> 'd \<times> node \<Rightarrow> (('d \<times> node) \<times> bool) option" where
  "event_gtpc_v1_any_req E pckt st =
     do {
       r \<leftarrow> v1_read (e_junk E) pckt;
       let ty = p_data pckt 1;
       case (r, v1_response ty) of
         (Inr v, Some res) \<Rightarrow>
           (let v = v\<lparr>base := (base v)\<lparr>gtph_teid := ld32 (p_data pckt) 4\<rparr>, reqtype_v1 := res\<rparr> in
            case gtpc_alloc_packet (e_malloc_req E) (e_junk E) 0 of
              None \<Rightarrow> Some (st, False)
            | Some p \<Rightarrow>
                let p = p\<lparr>g_saddr := p_saddr pckt, g_caddr := p_caddr pckt\<rparr> in
                if ty = 16 \<and> all_v1 REQUIRED_CREATE_PDP v then v1_try E p (on_create_pdp_ctx E) (accept_create_pdp_ctx E p) v st
                else if ty = 18 \<and> all_v1 REQUIRED_UPDATE_PDP v then v1_try E p (on_update_pdp_ctx E) (accept_update_pdp_ctx E p) v st
                else if ty = 20 \<and> all_v1 REQUIRED_DELETE_PDP v then v1_try E p (on_delete_pdp_ctx E) (accept_delete_pdp_ctx E p) v st
                else v1_denied E p v st)
       | _ \<Rightarrow> Some (st, False)
     }"

end
