(* ===== verification/Session_Answers.thy ===== *)
theory Session_Answers
  imports Gtpc_Session
begin

text \<open>
  What the handlers of \<open>Gtpc_Session\<close> guarantee: structures are filled within their sizes, every answer is a
  well-formed message that parses back, goes to the peer of the request with its sequence number, and carries
  the items of the procedure.
\<close>

section \<open>Structures keep their sizes\<close>

text \<open>Every \<open>memcpy\<close> to the state stays within its structure.\<close>

definition ps_sized :: "parse_state \<Rightarrow> bool" where
  "ps_sized cs \<longleftrightarrow> length (msisdn cs) = 10 \<and> length (c_teid cs) = 25 \<and> length (u_teid cs) = 25 \<and> length (ambr cs) = 12 \<and>
     length (bqos cs) = 26 \<and> length (imsi cs) = 12 \<and> length (recovery cs) = 5 \<and> length (cause cs) = 10 \<and> length (mei cs) = 12 \<and>
     length (charg cs) = 8 \<and> length (ebi_r cs) = 5 \<and> length (pco cs) = 258 \<and> length (paa cs) = 26 \<and> length (apn_r cs) = 5 \<and>
     length (bqos_r cs) = 26 \<and> length (ebi_b cs) = 5 \<and> length (ambr_r cs) = 12 \<and> length (pdn cs) = 5 \<and> length (rat cs) = 5"

lemma length_put: "length data \<le> length img \<Longrightarrow> length (put img data) = length img"
  by (simp add: put_def)

lemma ps_sized_zero: "ps_sized zero_state"
  by (simp add: ps_sized_def zero_state_def)

lemma ps_sized_flags [simp]: "ps_sized (cs\<lparr>flag := f\<rparr>) = ps_sized cs" "ps_sized (cs\<lparr>flag_v1 := f\<rparr>) = ps_sized cs" "ps_sized (have_flag g cs) = ps_sized cs"
  by (simp_all add: ps_sized_def have_flag_def)

lemma ps_sized_put:
  "ps_sized cs \<Longrightarrow> length d \<le> 10 \<Longrightarrow> ps_sized (cs\<lparr>msisdn := put (msisdn cs) d\<rparr>)"
  "ps_sized cs \<Longrightarrow> length d \<le> 25 \<Longrightarrow> ps_sized (cs\<lparr>c_teid := put (c_teid cs) d\<rparr>)"
  "ps_sized cs \<Longrightarrow> length d \<le> 25 \<Longrightarrow> ps_sized (cs\<lparr>u_teid := put (u_teid cs) d\<rparr>)"
  "ps_sized cs \<Longrightarrow> length d \<le> 12 \<Longrightarrow> ps_sized (cs\<lparr>ambr := put (ambr cs) d\<rparr>)"
  "ps_sized cs \<Longrightarrow> length d \<le> 26 \<Longrightarrow> ps_sized (cs\<lparr>bqos := put (bqos cs) d\<rparr>)"
  "ps_sized cs \<Longrightarrow> length d \<le> 12 \<Longrightarrow> ps_sized (cs\<lparr>imsi := put (imsi cs) d\<rparr>)"
  "ps_sized cs \<Longrightarrow> length d \<le> 5 \<Longrightarrow> ps_sized (cs\<lparr>recovery := put (recovery cs) d\<rparr>)"
  "ps_sized cs \<Longrightarrow> length d \<le> 10 \<Longrightarrow> ps_sized (cs\<lparr>cause := put (cause cs) d\<rparr>)"
  "ps_sized cs \<Longrightarrow> length d \<le> 12 \<Longrightarrow> ps_sized (cs\<lparr>mei := put (mei cs) d\<rparr>)"
  "ps_sized cs \<Longrightarrow> length d \<le> 8 \<Longrightarrow> ps_sized (cs\<lparr>charg := put (charg cs) d\<rparr>)"
  "ps_sized cs \<Longrightarrow> length d \<le> 5 \<Longrightarrow> ps_sized (cs\<lparr>ebi_r := put (ebi_r cs) d\<rparr>)"
  "ps_sized cs \<Longrightarrow> length d \<le> 258 \<Longrightarrow> ps_sized (cs\<lparr>pco := put (pco cs) d\<rparr>)"
  "ps_sized cs \<Longrightarrow> length d \<le> 26 \<Longrightarrow> ps_sized (cs\<lparr>paa := put (paa cs) d\<rparr>)"
  "ps_sized cs \<Longrightarrow> length d \<le> 5 \<Longrightarrow> ps_sized (cs\<lparr>apn_r := put (apn_r cs) d\<rparr>)"
  "ps_sized cs \<Longrightarrow> length d \<le> 26 \<Longrightarrow> ps_sized (cs\<lparr>bqos_r := put (bqos_r cs) d\<rparr>)"
  "ps_sized cs \<Longrightarrow> length d \<le> 5 \<Longrightarrow> ps_sized (cs\<lparr>ebi_b := put (ebi_b cs) d\<rparr>)"
  "ps_sized cs \<Longrightarrow> length d \<le> 12 \<Longrightarrow> ps_sized (cs\<lparr>ambr_r := put (ambr_r cs) d\<rparr>)"
  "ps_sized cs \<Longrightarrow> length d \<le> 5 \<Longrightarrow> ps_sized (cs\<lparr>pdn := put (pdn cs) d\<rparr>)"
  "ps_sized cs \<Longrightarrow> length d \<le> 5 \<Longrightarrow> ps_sized (cs\<lparr>rat := put (rat cs) d\<rparr>)"
  by (simp_all add: ps_sized_def length_put)

lemma have_flag_fields [simp]:
  "msisdn (have_flag g cs) = msisdn cs"
  "c_teid (have_flag g cs) = c_teid cs"
  "u_teid (have_flag g cs) = u_teid cs"
  "ambr (have_flag g cs) = ambr cs"
  "bqos (have_flag g cs) = bqos cs"
  "imsi (have_flag g cs) = imsi cs"
  "recovery (have_flag g cs) = recovery cs"
  "cause (have_flag g cs) = cause cs"
  "mei (have_flag g cs) = mei cs"
  "charg (have_flag g cs) = charg cs"
  "ebi_r (have_flag g cs) = ebi_r cs"
  "pco (have_flag g cs) = pco cs"
  "paa (have_flag g cs) = paa cs"
  "apn_r (have_flag g cs) = apn_r cs"
  "bqos_r (have_flag g cs) = bqos_r cs"
  "ebi_b (have_flag g cs) = ebi_b cs"
  "ambr_r (have_flag g cs) = ambr_r cs"
  "pdn (have_flag g cs) = pdn cs"
  "rat (have_flag g cs) = rat cs"
  by (simp_all add: have_flag_def)

lemma ps_sized_if: "(c \<Longrightarrow> ps_sized x) \<Longrightarrow> (\<not> c \<Longrightarrow> ps_sized y) \<Longrightarrow> ps_sized (if c then x else y)"
  by simp

lemma ps_sized_ipcp: "gtpc_iterate_pco_ipcp_item P a cs = Some cs' \<Longrightarrow> ps_sized cs' = ps_sized cs"
  by (auto simp: gtpc_iterate_pco_ipcp_item_def ipcp_option_def split: if_splits)

lemma ps_sized_option: "ps_sized (pco_option P off cs) = ps_sized cs"
  by (simp add: pco_option_def pco_request_def)

lemma ps_sized_pco_loop: "ps_sized (pco_loop n P len off cs) = ps_sized cs"
  by (induction n arbitrary: off cs) (simp_all add: Let_def ps_sized_option ps_sized_ipcp split: option.split)

lemmas ps_sized_have = ps_sized_put [of "have_flag g cs" for g cs, unfolded have_flag_fields ps_sized_flags]

lemma ps_sized_parse_pco: "ps_sized cs \<Longrightarrow> length data < 258 \<Longrightarrow> ps_sized (parse_pco junk data cs)"
  by (simp add: parse_pco_def Let_def ps_sized_pco_loop ps_sized_have)

lemma ps_sized_bearer_context:
  assumes "ps_sized cs" shows "ps_sized (fst (on_gtpc_parse_bearer_context ty m a len cs))"
  using assms unfolding on_gtpc_parse_bearer_context_def Let_def fst_conv by (intro ps_sized_if ps_sized_have) auto

lemma bearer_ctx_items_inv:
  assumes "\<And>ty m a len s. I s \<Longrightarrow> I (fst (cb ty m a len s))" "I s" shows "I (fst (bearer_ctx_items n m a cb len cur s))"
  using assms(2)
proof (induction n arbitrary: cur s)
  case (Suc n)
  let ?c = "a + 4 + unat cur"
  let ?r = "cb (m ?c) m ?c (ldn16 m (?c + 1) + 4) s"
  have "I (fst ?r)" by (rule assms(1) [OF Suc.prems])
  then have "I (fst (bearer_ctx_items n m a cb len cur' (fst ?r)))" for cur' by (rule Suc.IH)
  with \<open>I (fst ?r)\<close> Suc.prems show ?case unfolding bearer_ctx_items.simps Let_def by (cases ?r) simp
qed simp

lemma ps_sized_root:
  assumes "ps_sized cs" shows "ps_sized (fst (on_gtpc_parse_root junk ty m a len cs))"
proof (cases "ty = 93")
  case True
  have "ps_sized (fst (gtpc_iterate_bearer_ctx_item m a on_gtpc_parse_bearer_context (have_flag HAVE_BCTX cs)))"
    unfolding gtpc_iterate_bearer_ctx_item_def
    by (rule bearer_ctx_items_inv [of ps_sized]) (simp_all add: assms ps_sized_bearer_context)
  then show ?thesis unfolding on_gtpc_parse_root_def Let_def by (simp only: True simp_thms if_True)
next
  case False
  show ?thesis unfolding on_gtpc_parse_root_def Let_def
    by (simp only: False if_False fst_conv, intro ps_sized_if assms ps_sized_parse_pco ps_sized_have) auto
qed

lemma iterate_items_inv:
  assumes "\<And>ty m a len s. I s \<Longrightarrow> I (fst (cb ty m a len s))" "I s" shows "I (fst (iterate_items m cb xs s))"
  using assms(2)
proof (induction xs arbitrary: s)
  case (Cons x xs)
  let ?r = "cb (ucast (i_type x)) m (unat (i_offset x)) (i_length x) s"
  have "I (fst ?r)" by (rule assms(1) [OF Cons.prems])
  then show ?case using Cons.IH [of "fst ?r"] by (cases ?r) simp
qed simp

lemma ps_sized_iterate: "ps_sized cs \<Longrightarrow> ps_sized (fst (gtpc_iterate_item p (on_gtpc_parse_root junk) cs))"
  unfolding gtpc_iterate_item_def by (rule iterate_items_inv) (rule ps_sized_root)

section \<open>No item claims a record\<close>

definition no_record :: "parse_state \<Rightarrow> bool" where
  "no_record cs \<longleftrightarrow> \<not> bit (flag cs) 26"

lemma no_record_fields [simp]:
  "no_record (cs\<lparr>flag_v1 := v0\<rparr>) = no_record cs"
  "no_record (cs\<lparr>msisdn := v1\<rparr>) = no_record cs"
  "no_record (cs\<lparr>c_teid := v2\<rparr>) = no_record cs"
  "no_record (cs\<lparr>u_teid := v3\<rparr>) = no_record cs"
  "no_record (cs\<lparr>ambr := v4\<rparr>) = no_record cs"
  "no_record (cs\<lparr>bqos := v5\<rparr>) = no_record cs"
  "no_record (cs\<lparr>imsi := v6\<rparr>) = no_record cs"
  "no_record (cs\<lparr>recovery := v7\<rparr>) = no_record cs"
  "no_record (cs\<lparr>cause := v8\<rparr>) = no_record cs"
  "no_record (cs\<lparr>mei := v9\<rparr>) = no_record cs"
  "no_record (cs\<lparr>charg := v10\<rparr>) = no_record cs"
  "no_record (cs\<lparr>ebi_r := v11\<rparr>) = no_record cs"
  "no_record (cs\<lparr>pco := v12\<rparr>) = no_record cs"
  "no_record (cs\<lparr>paa := v13\<rparr>) = no_record cs"
  "no_record (cs\<lparr>apn_r := v14\<rparr>) = no_record cs"
  "no_record (cs\<lparr>bqos_r := v15\<rparr>) = no_record cs"
  "no_record (cs\<lparr>ebi_b := v16\<rparr>) = no_record cs"
  "no_record (cs\<lparr>ambr_r := v17\<rparr>) = no_record cs"
  "no_record (cs\<lparr>pdn := v18\<rparr>) = no_record cs"
  "no_record (cs\<lparr>rat := v19\<rparr>) = no_record cs"
  by (simp_all add: no_record_def)

lemma no_record_have: "no_record cs \<Longrightarrow> n \<noteq> 26 \<Longrightarrow> no_record (have_flag (flag_bit n) cs)"
  by (simp add: no_record_def have_flag_def bit_flag)

lemma no_record_low: "low_flags cs cs' \<Longrightarrow> no_record cs' = no_record cs"
  by (simp add: no_record_def low_flags_def)

lemma no_record_if: "(c \<Longrightarrow> no_record x) \<Longrightarrow> (\<not> c \<Longrightarrow> no_record y) \<Longrightarrow> no_record (if c then x else y)"
  by simp

lemma no_record_parse_pco: "no_record cs \<Longrightarrow> no_record (parse_pco junk data cs)"
  by (simp add: parse_pco_def Let_def no_record_low [OF low_flags_pco_loop] no_record_have)

lemma no_record_bearer_context: "no_record cs \<Longrightarrow> no_record (fst (on_gtpc_parse_bearer_context ty m a len cs))"
  unfolding on_gtpc_parse_bearer_context_def Let_def fst_conv by (intro no_record_if) (simp_all add: no_record_have)

lemma no_record_root:
  assumes "no_record cs" shows "no_record (fst (on_gtpc_parse_root junk ty m a len cs))"
proof (cases "ty = 93")
  case True
  have "no_record (fst (gtpc_iterate_bearer_ctx_item m a on_gtpc_parse_bearer_context (have_flag HAVE_BCTX cs)))"
    unfolding gtpc_iterate_bearer_ctx_item_def
    by (rule bearer_ctx_items_inv [of no_record]) (simp_all add: assms no_record_bearer_context no_record_have)
  then show ?thesis unfolding on_gtpc_parse_root_def Let_def by (simp only: True simp_thms if_True)
next
  case False
  show ?thesis unfolding on_gtpc_parse_root_def Let_def
    by (simp only: False if_False fst_conv, intro no_record_if) (simp_all add: assms no_record_have no_record_parse_pco)
qed

lemma request_no_record: "\<not> has HAVE_RECORD (snd (read_request E pckt p))"
proof -
  have "no_record (fst (gtpc_iterate_item q (on_gtpc_parse_root (e_junk E)) zero_state))" for q
    unfolding gtpc_iterate_item_def
    by (rule iterate_items_inv [of no_record], rule no_record_root) (simp_all add: no_record_def zero_state_def)
  then have "no_record (ps (snd (read_request E pckt p)))" by (simp add: read_request_def Let_def)
  then have "flag (ps (snd (read_request E pckt p))) AND flag_bit 26 = 0"
    by (intro bit_word_eqI) (auto simp: no_record_def bit_and_iff bit_flag_bit)
  then show ?thesis by (simp add: has_def)
qed

section \<open>Items of answers\<close>

text \<open>What a setter's structure contributes to a message: a well-formed item.\<close>

definition f_teid_item :: "byte \<Rightarrow> byte \<Rightarrow> 32 word \<Rightarrow> byte list \<Rightarrow> byte list" where
  "f_teid_item inst ift teid a = comm_header 87 9 inst @ [(ift AND 0x1F) OR 0x80] @ be32 teid @ a"

definition paa_item :: "byte \<Rightarrow> byte list \<Rightarrow> byte list" where
  "paa_item ty a = comm_header 79 (word_of_nat (length a + 1)) 0 @ [ty AND 7] @ a"

definition pco_item :: "byte \<Rightarrow> byte list \<Rightarrow> byte list" where
  "pco_item head opts = comm_header 78 (word_of_nat (length opts + 1)) 0 @ [head] @ opts"

definition cause_item :: "byte \<Rightarrow> byte list" where
  "cause_item c = comm_header 2 2 0 @ [c, 0]"

lemma be_nth [simp]: "be16 v ! 0 = byte_of 1 v" "be16 v ! Suc 0 = byte_of 0 v"
  by (simp_all add: be16_def)

lemma unat_small: "n < 65536 \<Longrightarrow> unat (word_of_nat n :: 16 word) = n" "n < 256 \<Longrightarrow> unat (word_of_nat n :: byte) = n"
  by (simp_all add: unsigned_of_nat take_bit_eq_mod)

lemma item_img:
  assumes "img = comm_header ty len inst @ body @ rest" "length body = unat len" "unat len < 65000"
  shows "item_of img = comm_header ty len inst @ body" "tlv (comm_header ty len inst @ body)"
  unfolding assms(1) by (rule item_of_header; use assms in simp)+

lemma item_of_cause: "item_of (gtpc_cause_set c) = cause_item c" "tlv (cause_item c)"
proof -
  have "padded 6 [c] = [c, 0] @ zeros 4" by (simp add: padded_def zeros_def eval_nat_numeral)
  then show "item_of (gtpc_cause_set c) = cause_item c" "tlv (cause_item c)"
    using item_img(1) [OF refl, of "[c, 0]" 2 2 0 "zeros 4"] item_img(2) [OF refl, of "[c, 0]" 2 2 0]
    by (simp_all add: gtpc_cause_set_def cause_item_def)
qed

lemma item_of_f_teid:
  assumes "length a = 4"
  shows "\<exists>img. gtpc_f_teid_set inst ift teid (Some a) None = Some img \<and> item_of img = f_teid_item inst ift teid a" "tlv (f_teid_item inst ift teid a)"
  using item_img(1) [OF refl, of "[(ift AND 0x1F) OR 0x80] @ be32 teid @ a" 9 87 inst "zeros 12"] item_img(2) [OF refl, of "[(ift AND 0x1F) OR 0x80] @ be32 teid @ a" 9 87 inst] assms
  by (simp_all add: gtpc_f_teid_set_def padded_def f_teid_item_def)

lemma item_of_paa:
  assumes "length a \<le> 21"
  shows "\<exists>img. gtpc_paa_set ty a = Some img \<and> item_of img = paa_item ty a" "tlv (paa_item ty a)"
proof -
  define l :: "16 word" where "l = word_of_nat (length a + 1)"
  have "unat l = length a + 1" unfolding l_def using assms by (intro unat_small) simp
  with item_img(1) [OF refl, of "[ty AND 7] @ a" l 79 0 "zeros (21 - length a)"] item_img(2) [OF refl, of "[ty AND 7] @ a" l 79 0] assms
  show "\<exists>img. gtpc_paa_set ty a = Some img \<and> item_of img = paa_item ty a" "tlv (paa_item ty a)"
    unfolding gtpc_paa_set_def paa_item_def l_def [symmetric] by (simp_all add: padded_def)
qed

lemma item_of_small:
  "item_of (gtpc_recovery_set r) = gtpc_recovery_set r" "tlv (gtpc_recovery_set r)"
  "item_of (gtpc_apn_restriction_set r) = gtpc_apn_restriction_set r" "tlv (gtpc_apn_restriction_set r)"
  "item_of (gtpc_ebi_set inst r) = gtpc_ebi_set inst r" "tlv (gtpc_ebi_set inst r)"
  "item_of (gtpc_ambr_set u d) = gtpc_ambr_set u d" "tlv (gtpc_ambr_set u d)"
  "item_of (gtpc_charging_id_set u) = gtpc_charging_id_set u" "tlv (gtpc_charging_id_set u)"
  using item_img(1) [OF refl, of "[r]" 1 3 0 "[]"] item_img(2) [OF refl, of "[r]" 1 3 0] item_img(1) [OF refl, of "[r]" 1 127 0 "[]"] item_img(2) [OF refl, of "[r]" 1 127 0] item_img(1) [OF refl, of "[r AND 0xF]" 1 73 inst "[]"] item_img(2) [OF refl, of "[r AND 0xF]" 1 73 inst]
    item_img(1) [OF refl, of "be32 u @ be32 d" 8 72 0 "[]"] item_img(2) [OF refl, of "be32 u @ be32 d" 8 72 0] item_img(1) [OF refl, of "be32 u" 4 94 0 "[]"] item_img(2) [OF refl, of "be32 u" 4 94 0]
  by (simp_all add: gtpc_recovery_set_def gtpc_apn_restriction_set_def gtpc_ebi_set_def gtpc_ambr_set_def gtpc_charging_id_set_def)

lemma item_of_msisdn:
  assumes "gtpc_msisdn_set n = Some img" shows "item_of img = img" "tlv img" "img ! 0 = 76" "length img = 10"
proof -
  have img: "img = comm_header 76 6 0 @ fst (gtpc_digits_set 6 n)"
    using assms by (auto simp: gtpc_msisdn_set_def split: prod.splits if_splits)
  from item_img [of img 76 6 0 "fst (gtpc_digits_set 6 n)" "[]"] digits_set_ok(2) [of 6 n]
  show "item_of img = img" "tlv img" "img ! 0 = 76" "length img = 10" by (simp_all add: img nth_append)
qed

lemma item_of_pco:
  assumes "length opts \<le> 250"
  shows "\<exists>img. gtpc_pco_set (zeros 4 @ [head] @ zeros 253) (padded 255 opts) (word_of_nat (length opts + 1)) = Some img \<and> item_of img = pco_item head opts"
    "tlv (pco_item head opts)"
proof -
  define n :: "16 word" where "n = word_of_nat (length opts + 1)"
  define l :: byte where "l = word_of_nat (length opts + 1)"
  have u: "unat n = length opts + 1" "unat l = length opts + 1" unfolding n_def l_def using assms by (simp_all only: unat_small)
  then have c: "ucast l = n" using assms by (simp add: word_unat_eq_iff unsigned_ucast_eq take_bit_eq_mod)
  have t: "take (unat l) (padded 255 opts) = opts @ [0]" using assms by (simp add: u padded_def zeros_def)
  have "gtpc_pco_set (zeros 4 @ [head] @ zeros 253) (padded 255 opts) l =
      Some (comm_header 78 n 0 @ ([head] @ opts) @ ([0] @ zeros (253 - (length opts + 1))))"
    using assms u unfolding gtpc_pco_set_def t c by (simp add: comm_header_def nth_append padded_def) (simp add: zeros_def)
  with item_img [OF refl, of "[head] @ opts" n 78 0] u assms
  show "\<exists>img. gtpc_pco_set (zeros 4 @ [head] @ zeros 253) (padded 255 opts) (word_of_nat (length opts + 1)) = Some img \<and> item_of img = pco_item head opts"
    "tlv (pco_item head opts)"
    unfolding pco_item_def n_def [symmetric] l_def [symmetric] by simp_all
qed

section \<open>Bearer Contexts of answers\<close>

definition bctx_holds :: "byte list list \<Rightarrow> bearer_ctx \<Rightarrow> bool" where
  "bctx_holds kids b \<longleftrightarrow> length (concat kids) < 256 \<and> bc_length b = word_of_nat (length (concat kids)) \<and>
     bc_offset b = word_of_nat (length (concat kids)) \<and> length (bc_child b) = 256 \<and> take (length (concat kids)) (bc_child b) = concat kids"

lemma bctx_holds_set: "bctx_holds [] gtpc_bearer_ctx_set"
  by (simp add: bctx_holds_def gtpc_bearer_ctx_set_def)

lemma bctx_add:
  assumes "bctx_holds kids b" "length (concat kids) + length c < 256"
  obtains b' where "gtpc_bearer_ctx_add_child c b = Some b'" "bctx_holds (kids @ [c]) b'"
proof -
  let ?n = "length (concat kids)"
  have b: "bc_length b = word_of_nat ?n" "bc_offset b = word_of_nat ?n" "length (bc_child b) = 256" "take ?n (bc_child b) = concat kids"
    using assms(1) by (simp_all add: bctx_holds_def)
  have o: "unat (bc_offset b) = ?n" unfolding b(2) using assms(2) by (intro unat_small) simp
  let ?b = "\<lparr>bc_length = word_of_nat (?n + length c), bc_child = concat kids @ c @ drop (?n + length c) (bc_child b),
    bc_offset = word_of_nat (?n + length c)\<rparr>"
  have "gtpc_bearer_ctx_add_child c b = Some ?b"
    unfolding gtpc_bearer_ctx_add_child_def Let_def o using assms(2) b by simp
  moreover have "bctx_holds (kids @ [c]) ?b" using assms(2) b by (simp add: bctx_holds_def)
  ultimately show ?thesis by (rule that)
qed

lemma bctx_image:
  assumes "bctx_holds kids b"
  shows "take (unat (gtpc_bearer_ctx_length b)) (bearer_ctx_image b) = gbytes (Bctx 0 kids)"
proof -
  let ?n = "length (concat kids)"
  have b: "bc_length b = word_of_nat ?n" "bc_offset b = word_of_nat ?n" "take ?n (bc_child b) = concat kids" "?n < 256"
    using assms by (simp_all add: bctx_holds_def)
  have "unat (bc_offset b) = ?n" unfolding b(2) using b(4) by (intro unat_small) simp
  then have "unat (gtpc_bearer_ctx_length b) = ?n + 4" using b(4) by (simp add: gtpc_bearer_ctx_length_def unat_word_ariths)
  then have "take (unat (gtpc_bearer_ctx_length b)) (bearer_ctx_image b) = comm_header 93 (word_of_nat ?n) 0 @ concat kids"
    using b by (simp add: bearer_ctx_image_def)
  then show ?thesis by (simp add: comm_header_def)
qed

section \<open>The state of a handler\<close>

definition session_ok :: "session \<Rightarrow> bool" where
  "session_ok cs \<longleftrightarrow> ps_sized (ps cs) \<and> length (gtph_seqno cs) = 3 \<and> length (ue_ipv_n cs) = 4 \<and>
     length (pgw_u_ipv_n cs) = 4 \<and> length (pgw_c_ipv_n cs) = 4"

text \<open>What is assumed of the surroundings: \<open>inet_aton\<close> yields four octets.\<close>

definition aton_ok :: "(string \<Rightarrow> byte list option) \<Rightarrow> bool" where
  "aton_ok aton \<longleftrightarrow> (\<forall>s a. aton s = Some a \<longrightarrow> length a = 4)"

lemma session_ok_record: "aton_ok aton \<Longrightarrow> session_ok cs \<Longrightarrow> session_ok (on_tunnel_record aton cs r)"
  by (auto simp: session_ok_def on_tunnel_record_def Let_def aton_into_def aton_ok_def split: option.split)

lemma session_ok_records: "aton_ok (e_aton E) \<Longrightarrow> session_ok cs \<Longrightarrow> session_ok (records E cs rows)"
  unfolding records_def by (induction rows arbitrary: cs) (simp_all add: session_ok_record)

lemma session_ok_teids [simp]:
  "session_ok (cs\<lparr>pgw_teid := t\<rparr>) = session_ok cs" "session_ok (cs\<lparr>sgw_c_teid := t\<rparr>) = session_ok cs" "session_ok (with_ebi cs) = session_ok cs"
  by (simp_all add: session_ok_def with_ebi_def)

lemma session_ok_request: "session_ok (snd (read_request E pckt p))"
  by (simp add: read_request_def Let_def session_ok_def zero_session_def ps_sized_iterate ps_sized_zero)

section \<open>Items of a Create Session Response\<close>

definition ue_paa :: "'d env \<Rightarrow> session \<Rightarrow> byte \<times> byte list" where
  "ue_paa E cs =
     (if all_of HAVE_PDN cs then
        let v4 = 0x0a # drop 1 (ue_ipv_n cs); ty = (pdn (ps cs) ! 4) AND 7;
          v6 = [0x40, 0x24, 0x01, 0xf1, 0x00, push_bit 4 (e_ext_set_num E AND 0xF) OR (e_pgw_unit_num E AND 0xF)] @
               drop 1 (ue_ipv_n cs) @ zeros 7 @ [0x01] in
        if ty = 2 then (2, v6) else if ty \<noteq> 1 \<and> e_ipv64 E then (3, v6 @ v4) else (1, v4)
      else (1, zeros 4))"

definition pco_opts :: "bool \<Rightarrow> session \<Rightarrow> byte list" where
  "pco_opts ipv64 cs = (if has PCO_ALL cs then pco_dns ipv64 cs @ pco_mtu cs @ pco_ipcp cs else [])"

definition pco_answer :: "bool \<Rightarrow> session \<Rightarrow> gitem list" where
  "pco_answer ipv64 cs =
     (if pco_opts ipv64 cs = [] then []
      else [Plain (pco_item (if pco_mtu cs \<noteq> [] \<or> pco_ipcp cs \<noteq> [] then 0x80 else 0) (pco_opts ipv64 cs))])"

definition create_items :: "'d env \<Rightarrow> session \<Rightarrow> gitem list" where
  "create_items E cs =
     [Plain (cause_item 16), Plain (f_teid_item 1 7 (pgw_teid cs) (pgw_c_ipv_n cs)), Plain (case_prod paa_item (ue_paa E cs)),
      Plain (gtpc_apn_restriction_set 0),
      Plain (gtpc_ambr_set (word_be (drop 4 (ambr_r (ps cs)))) (word_be (drop 8 (ambr_r (ps cs)))))] @
     pco_answer (e_ipv64 E) cs @
     [Bctx 0 [cause_item 16, gtpc_ebi_set 0 (low4 (ebi_b (ps cs))), f_teid_item 2 5 (pgw_teid cs) (pgw_u_ipv_n cs),
              gtpc_charging_id_set (pgw_teid cs)],
      Plain (gtpc_recovery_set (e_recovery E)), Plain (private_ext cs)]"

lemma paa_ue_item:
  assumes "session_ok cs"
  shows "all_of HAVE_PDN cs \<and> ue_ipv_n cs ! 0 \<noteq> 0 \<Longrightarrow> paa_ue E cs = None"
    "\<not> (all_of HAVE_PDN cs \<and> ue_ipv_n cs ! 0 \<noteq> 0) \<Longrightarrow>
       \<exists>img. paa_ue E cs = Some img \<and> item_of img = case_prod paa_item (ue_paa E cs)"
    "tlv (case_prod paa_item (ue_paa E cs))" "length (case_prod paa_item (ue_paa E cs)) \<le> 26"
proof -
  have l: "length (drop 1 (ue_ipv_n cs)) = 3" "take 3 (drop 1 (ue_ipv_n cs)) = drop 1 (ue_ipv_n cs)" using assms by (simp_all add: session_ok_def)
  then have len: "length (snd (ue_paa E cs)) \<le> 21" unfolding ue_paa_def by (auto simp: Let_def)
  then show "tlv (case_prod paa_item (ue_paa E cs))" "length (case_prod paa_item (ue_paa E cs)) \<le> 26"
    using item_of_paa(2) [of "snd (ue_paa E cs)" "fst (ue_paa E cs)"] by (simp_all add: case_prod_beta paa_item_def)
  show "paa_ue E cs = None" if "all_of HAVE_PDN cs \<and> ue_ipv_n cs ! 0 \<noteq> 0" using that by (simp add: paa_ue_def)
  show "\<exists>img. paa_ue E cs = Some img \<and> item_of img = case_prod paa_item (ue_paa E cs)"
    if "\<not> (all_of HAVE_PDN cs \<and> ue_ipv_n cs ! 0 \<noteq> 0)"
  proof -
    have "paa_ue E cs = gtpc_paa_set (fst (ue_paa E cs)) (snd (ue_paa E cs))"
      using that unfolding paa_ue_def ue_paa_def l(2) Let_def by auto
    with item_of_paa(1) [OF len, of "fst (ue_paa E cs)"] show ?thesis by (simp add: case_prod_beta)
  qed
qed

lemma pco_vals: "length (pco_dns v cs) \<in> {0, 14, 38, 52}" "length (pco_mtu cs) \<in> {0, 5}" "length (pco_ipcp cs) \<in> {0, 19}"
  by (simp_all add: pco_dns_def pco_mtu_def pco_ipcp_def PCO_DNS_IPV64_VAL_def PCO_DNS_IPV4_VAL_def PCO_DNS_IPV6_VAL_def
      PCO_MTU_NONIP_VAL_def PCO_MTU_IPV4_VAL_def PCO_DNS_IPCP_IPV4_VAL_def)

lemma length_pco_opts: "length (pco_opts v cs) \<le> 76" "pco_opts v cs = [] \<or> 1 < length (pco_opts v cs)"
proof -
  have l: "length (pco_dns v cs @ pco_mtu cs @ pco_ipcp cs) \<le> 76 \<and>
     (pco_dns v cs @ pco_mtu cs @ pco_ipcp cs = [] \<or> 1 < length (pco_dns v cs @ pco_mtu cs @ pco_ipcp cs))"
    using pco_vals(1) [of v cs] pco_vals(2,3) [of cs] by auto
  then show "length (pco_opts v cs) \<le> 76" "pco_opts v cs = [] \<or> 1 < length (pco_opts v cs)" by (simp_all add: pco_opts_def)
qed

lemma setup_pco_item:
  "pco_opts v cs = [] \<Longrightarrow> setup_pco v cs = None"
  "pco_opts v cs \<noteq> [] \<Longrightarrow> \<exists>img. setup_pco v cs = Some img \<and> pco_answer v cs = [Plain (item_of img)] \<and> item_of img ! 0 = 78 \<and> tlv (item_of img)"
proof -
  show "setup_pco v cs = None" if "pco_opts v cs = []" using that by (auto simp: setup_pco_def pco_opts_def Let_def split: if_splits)
  assume ne: "pco_opts v cs \<noteq> []"
  then have h: "has PCO_ALL cs" "pco_opts v cs = pco_dns v cs @ pco_mtu cs @ pco_ipcp cs" by (auto simp: pco_opts_def split: if_splits)
  define hd0 where "hd0 = (if pco_mtu cs \<noteq> [] \<or> pco_ipcp cs \<noteq> [] then 0x80 else (0 :: byte))"
  have "length (pco_opts v cs) \<le> 250" using length_pco_opts(1) [of v cs] by simp
  note i = item_of_pco [OF this, of hd0]
  have "setup_pco v cs = gtpc_pco_set (zeros 4 @ [hd0] @ zeros 253) (padded 255 (pco_opts v cs)) (word_of_nat (length (pco_opts v cs) + 1))"
    using ne length_pco_opts(2) [of v cs] h unfolding setup_pco_def Let_def h(2) [symmetric] hd0_def [symmetric] by simp
  then obtain img where "setup_pco v cs = Some img" "item_of img = pco_item hd0 (pco_opts v cs)" using i(1) by auto
  moreover have "pco_answer v cs = [Plain (pco_item hd0 (pco_opts v cs))]" using ne by (simp only: pco_answer_def hd0_def if_False)
  moreover have "pco_item hd0 (pco_opts v cs) ! 0 = 78" by (simp add: pco_item_def nth_append)
  ultimately show "\<exists>img. setup_pco v cs = Some img \<and> pco_answer v cs = [Plain (item_of img)] \<and> item_of img ! 0 = 78 \<and> tlv (item_of img)"
    using i(2) by simp
qed

section \<open>Answers are built from their items\<close>

definition gpack :: "gitem list \<Rightarrow> (byte \<times> byte list) list" where
  "gpack gs = map (typed \<circ> gbytes) gs"

lemma append_all_Cons: "append_all M ((ty, d) # xs) p = gtpc_append_item M ty d p \<bind> append_all M xs"
  by (cases "gtpc_append_item M ty d p") simp_all

lemma append_all_append: "append_all M (xs @ ys) p = append_all M xs p \<bind> append_all M ys"
  by (induction M xs p rule: append_all.induct) (auto split: option.split)

lemma append_all_one: "gtpc_append_item M ty d p = append_all M [(ty, d)] p"
  by (simp split: option.split)

lemma append_struct_item: "item_of img = b \<Longrightarrow> b ! 0 = ty \<Longrightarrow> append_struct M ty img = append_all M (gpack [Plain b])"
  unfolding append_struct_def fun_eq_iff append_all_one by (simp add: gpack_def typed_def)

lemma append_bctx_item: "bctx_holds kids b \<Longrightarrow> append_bctx M b = append_all M (gpack [Bctx 0 kids])"
  unfolding append_bctx_def fun_eq_iff append_all_one by (simp add: gpack_def typed_def bctx_image)

lemma append_pco_item: "append_opt M 78 (setup_pco v cs) = append_all M (gpack (pco_answer v cs))"
proof (cases "pco_opts v cs = []")
  case True
  then show ?thesis by (simp add: append_opt_def setup_pco_item fun_eq_iff pco_answer_def gpack_def)
next
  case False
  with setup_pco_item(2) [of v cs] obtain img where "setup_pco v cs = Some img" "pco_answer v cs = [Plain (item_of img)]" "item_of img ! 0 = 78"
    by auto
  then show ?thesis by (simp add: append_opt_def append_struct_item fun_eq_iff)
qed

lemma gpack_append: "gpack (xs @ ys) = gpack xs @ gpack ys"
  by (simp add: gpack_def)

lemma append_all_gpack: "append_all M (gpack (xs @ ys)) = (\<lambda>p. append_all M (gpack xs) p \<bind> append_all M (gpack ys))"
  by (simp add: gpack_append append_all_append fun_eq_iff)

lemma item_types: "cause_item c ! 0 = 2" "f_teid_item inst ift t a ! 0 = 87" "paa_item ty a ! 0 = 79" "gtpc_apn_restriction_set r ! 0 = 127"
  "gtpc_ambr_set u d ! 0 = 72" "gtpc_recovery_set r ! 0 = 3" "gtpc_ebi_set inst r ! 0 = 73" "gtpc_charging_id_set u ! 0 = 94"
  "gtpc_private_extension_set b0 b1 b2 w b3 ! 0 = 255"
  by (simp_all add: cause_item_def f_teid_item_def paa_item_def gtpc_apn_restriction_set_def gtpc_ambr_set_def gtpc_recovery_set_def
      gtpc_ebi_set_def gtpc_charging_id_set_def gtpc_private_extension_set_def nth_append)

lemma item_lengths: "length (cause_item c) = 6" "length a = 4 \<Longrightarrow> length (f_teid_item inst ift t a) = 13"
  "length (gtpc_apn_restriction_set r) = 5" "length (gtpc_ambr_set u d) = 12" "length (gtpc_recovery_set r) = 5"
  "length (gtpc_ebi_set inst r) = 5" "length (gtpc_charging_id_set u) = 8"
  by (simp_all add: cause_item_def f_teid_item_def gtpc_apn_restriction_set_def gtpc_ambr_set_def gtpc_recovery_set_def
      gtpc_ebi_set_def gtpc_charging_id_set_def)

lemma private_ext_item: "gtpc_append_item M 255 (private_ext cs) = append_all M (gpack [Plain (private_ext cs)])"
  unfolding fun_eq_iff append_all_one by (simp add: gpack_def typed_def private_ext_def item_types)

definition create_kids :: "session \<Rightarrow> byte list list" where
  "create_kids cs = [cause_item 16, gtpc_ebi_set 0 (low4 (ebi_b (ps cs))), f_teid_item 2 5 (pgw_teid cs) (pgw_u_ipv_n cs),
     gtpc_charging_id_set (pgw_teid cs)]"

text \<open>Adding structures to a fresh Bearer Context.\<close>

fun add_structs :: "byte list list \<Rightarrow> bearer_ctx \<Rightarrow> bearer_ctx option" where
  "add_structs [] b = Some b"
| "add_structs (img # imgs) b = add_struct img b \<bind> add_structs imgs"

lemma add_structs_hold:
  assumes "bctx_holds kids b" "length (concat kids) + length (concat (map item_of imgs)) < 256"
  shows "\<exists>b'. add_structs imgs b = Some b' \<and> bctx_holds (kids @ map item_of imgs) b'"
  using assms
proof (induction imgs arbitrary: kids b)
  case (Cons img imgs)
  obtain b' where b': "gtpc_bearer_ctx_add_child (item_of img) b = Some b'" "bctx_holds (kids @ [item_of img]) b'"
    using bctx_add [OF Cons.prems(1), of "item_of img"] Cons.prems(2) by auto
  have "length (concat (kids @ [item_of img])) + length (concat (map item_of imgs)) < 256" using Cons.prems(2) by simp
  from Cons.IH [OF b'(2) this] b'(1) show ?case by (simp add: add_struct_def)
qed simp

lemma create_accept_items:
  assumes "session_ok cs"
  shows "create_accept E cs =
    (if all_of HAVE_PDN cs \<and> ue_ipv_n cs ! 0 \<noteq> 0 then None
     else gtpc_alloc_packet (e_malloc_res E) (e_junk E) 33 \<bind> append_all (e_malloc_res E) (gpack (create_items E cs)))"
proof (cases "all_of HAVE_PDN cs \<and> ue_ipv_n cs ! 0 \<noteq> 0")
  case True
  have "\<exists>img. gtpc_f_teid_set 1 7 (pgw_teid cs) (Some (pgw_c_ipv_n cs)) None = Some img"
    using item_of_f_teid(1) [of "pgw_c_ipv_n cs" 1 7 "pgw_teid cs"] assms unfolding session_ok_def by blast
  with True paa_ue_item(1) [OF assms True, of E] show ?thesis
    by (cases "gtpc_alloc_packet (e_malloc_res E) (e_junk E) 33") (auto simp: create_accept_def Let_def)
next
  case False
  have l: "length (pgw_c_ipv_n cs) = 4" "length (pgw_u_ipv_n cs) = 4" using assms by (simp_all add: session_ok_def)
  obtain cf where cf: "gtpc_f_teid_set 1 7 (pgw_teid cs) (Some (pgw_c_ipv_n cs)) None = Some cf" "item_of cf = f_teid_item 1 7 (pgw_teid cs) (pgw_c_ipv_n cs)"
    using item_of_f_teid(1) [OF l(1)] by blast
  obtain uf where uf: "gtpc_f_teid_set 2 5 (pgw_teid cs) (Some (pgw_u_ipv_n cs)) None = Some uf" "item_of uf = f_teid_item 2 5 (pgw_teid cs) (pgw_u_ipv_n cs)"
    using item_of_f_teid(1) [OF l(2)] by blast
  obtain pa where pa: "paa_ue E cs = Some pa" "item_of pa = case_prod paa_item (ue_paa E cs)" using paa_ue_item(2) [OF assms False] by blast
  let ?imgs = "[gtpc_cause_set 16, gtpc_ebi_set 0 (low4 (ebi_b (ps cs))), uf, gtpc_charging_id_set (pgw_teid cs)]"
  have k: "map item_of ?imgs = create_kids cs" by (simp add: create_kids_def uf(2) item_of_cause item_of_small)
  have "length (concat (map item_of ?imgs)) < 256" unfolding k by (simp add: create_kids_def item_lengths l)
  with add_structs_hold [OF bctx_holds_set, of ?imgs] obtain b where "add_structs ?imgs gtpc_bearer_ctx_set = Some b" "bctx_holds (create_kids cs) b"
    unfolding k by auto
  then obtain b1 b2 b3 where b: "add_struct (gtpc_cause_set 16) gtpc_bearer_ctx_set = Some b1"
    "add_struct (gtpc_ebi_set 0 (low4 (ebi_b (ps cs)))) b1 = Some b2" "add_struct uf b2 = Some b3"
    "add_struct (gtpc_charging_id_set (pgw_teid cs)) b3 = Some b" "bctx_holds (create_kids cs) b"
    by (auto simp: bind_eq_Some_conv)
  have items: "create_items E cs = [Plain (cause_item 16)] @ [Plain (f_teid_item 1 7 (pgw_teid cs) (pgw_c_ipv_n cs))] @
      [Plain (case_prod paa_item (ue_paa E cs))] @ [Plain (gtpc_apn_restriction_set 0)] @
      [Plain (gtpc_ambr_set (word_be (drop 4 (ambr_r (ps cs)))) (word_be (drop 8 (ambr_r (ps cs)))))] @ pco_answer (e_ipv64 E) cs @
      [Bctx 0 (create_kids cs)] @ [Plain (gtpc_recovery_set (e_recovery E))] @ [Plain (private_ext cs)]"
    by (simp add: create_items_def create_kids_def)
  have paa0: "case_prod paa_item (ue_paa E cs) ! 0 = 79" by (simp add: case_prod_beta item_types)
  show ?thesis unfolding if_not_P [OF False] items append_all_gpack create_accept_def Let_def append_pco_item private_ext_item
    using cf uf pa b(1-4) paa0
    by (simp add: append_struct_item append_bctx_item [OF b(5)] item_of_cause item_of_small item_types)
qed

definition create_denial :: "gitem list" where
  "create_denial = [Plain (cause_item 93), Bctx 0 [cause_item 93, gtpc_ebi_set 0 0]]"

definition moved :: "session \<Rightarrow> bool" where
  "moved cs \<longleftrightarrow> word_le (teid_grekey (c_teid (ps cs))) \<noteq> 0 \<and> word_le (teid_grekey (u_teid (ps cs))) \<noteq> 0"

definition modify_items :: "'d env \<Rightarrow> byte list \<Rightarrow> session \<Rightarrow> gitem list" where
  "modify_items E number cs =
     [Plain (cause_item 16), Plain number, Plain (gtpc_ebi_set 0 5), Plain (gtpc_apn_restriction_set 0)] @ pco_answer (e_ipv64 E) cs @
     [Bctx 0 [cause_item 16, gtpc_ebi_set 0 (low4 (ebi_b (ps cs))), gtpc_charging_id_set (pgw_teid cs)],
      Plain (gtpc_recovery_set (e_recovery E))] @ (if moved cs then [Plain (private_ext cs)] else [])"

definition delete_items :: "'d env \<Rightarrow> session \<Rightarrow> gitem list" where
  "delete_items E cs = [Plain (cause_item 16)] @ pco_answer (e_ipv64 E) cs @ [Plain (gtpc_recovery_set (e_recovery E))]"

lemma create_denied_items:
  "create_denied E cs = gtpc_alloc_packet (e_malloc_res E) (e_junk E) 33 \<bind> append_all (e_malloc_res E) (gpack create_denial)"
proof -
  let ?imgs = "[gtpc_cause_set 93, gtpc_ebi_set 0 0]"
  have "length (concat (map item_of ?imgs)) < 256" by (simp add: item_of_cause item_of_small item_lengths)
  with add_structs_hold [OF bctx_holds_set, of ?imgs] obtain b
    where "add_structs ?imgs gtpc_bearer_ctx_set = Some b" "bctx_holds [cause_item 93, gtpc_ebi_set 0 0] b"
    by (auto simp: item_of_cause item_of_small)
  then obtain b1 where b: "add_struct (gtpc_cause_set 93) gtpc_bearer_ctx_set = Some b1" "add_struct (gtpc_ebi_set 0 0) b1 = Some b"
    "bctx_holds [cause_item 93, gtpc_ebi_set 0 0] b" by (auto simp: bind_eq_Some_conv)
  have items: "create_denial = [Plain (cause_item 93)] @ [Bctx 0 [cause_item 93, gtpc_ebi_set 0 0]]" by (simp add: create_denial_def)
  show ?thesis unfolding items append_all_gpack create_denied_def Let_def
    using b(1,2) by (simp add: append_bctx_item [OF b(3)] append_struct_item item_of_cause item_types)
qed

lemma modify_accept_items:
  "modify_accept E cs =
    (case gtpc_msisdn_set (msisdn_num cs) of
       None \<Rightarrow> None
     | Some number \<Rightarrow> gtpc_alloc_packet (e_malloc_res E) (e_junk E) 35 \<bind> append_all (e_malloc_res E) (gpack (modify_items E number cs)))"
proof (cases "gtpc_msisdn_set (msisdn_num cs)")
  case None
  then show ?thesis by (cases "gtpc_alloc_packet (e_malloc_res E) (e_junk E) 35") (simp_all add: modify_accept_def Let_def)
next
  case (Some number)
  let ?imgs = "[gtpc_cause_set 16, gtpc_ebi_set 0 (low4 (ebi_b (ps cs))), gtpc_charging_id_set (pgw_teid cs)]"
  let ?kids = "[cause_item 16, gtpc_ebi_set 0 (low4 (ebi_b (ps cs))), gtpc_charging_id_set (pgw_teid cs)]"
  have "length (concat (map item_of ?imgs)) < 256" by (simp add: item_of_cause item_of_small item_lengths)
  with add_structs_hold [OF bctx_holds_set, of ?imgs] obtain b where "add_structs ?imgs gtpc_bearer_ctx_set = Some b" "bctx_holds ?kids b"
    by (auto simp: item_of_cause item_of_small)
  then obtain b1 b2 where b: "add_struct (gtpc_cause_set 16) gtpc_bearer_ctx_set = Some b1"
    "add_struct (gtpc_ebi_set 0 (low4 (ebi_b (ps cs)))) b1 = Some b2" "add_struct (gtpc_charging_id_set (pgw_teid cs)) b2 = Some b"
    "bctx_holds ?kids b" by (auto simp: bind_eq_Some_conv)
  note n = item_of_msisdn [OF Some]
  have items: "modify_items E number cs = [Plain (cause_item 16)] @ [Plain number] @ [Plain (gtpc_ebi_set 0 5)] @
      [Plain (gtpc_apn_restriction_set 0)] @ pco_answer (e_ipv64 E) cs @ [Bctx 0 ?kids] @ [Plain (gtpc_recovery_set (e_recovery E))] @
      (if moved cs then [Plain (private_ext cs)] else [])"
    by (simp add: modify_items_def)
  have last: "append_all M (gpack (if moved cs then [Plain (private_ext cs)] else [])) =
      (\<lambda>l. if word_le (teid_grekey (c_teid (ps cs))) \<noteq> 0 \<and> word_le (teid_grekey (u_teid (ps cs))) \<noteq> 0
           then gtpc_append_item M 255 (private_ext cs) l else Some l)" for M
    unfolding private_ext_item moved_def fun_eq_iff by (simp add: gpack_def)
  show ?thesis unfolding Some option.case items append_all_gpack modify_accept_def Let_def append_pco_item last
    using Some n b(1-3) by (simp add: append_bctx_item [OF b(4)] append_struct_item item_of_cause item_of_small item_types)
qed

lemma modify_denied_items:
  "modify_denied E cs = gtpc_alloc_packet (e_malloc_res E) (e_junk E) 35 \<bind> append_all (e_malloc_res E) (gpack [Plain (cause_item 93)])"
  by (simp add: modify_denied_def append_struct_item item_of_cause item_types)

lemma delete_accept_items:
  "delete_accept E cs = gtpc_alloc_packet (e_malloc_res E) (e_junk E) 37 \<bind> append_all (e_malloc_res E) (gpack (delete_items E cs))"
  unfolding delete_items_def append_all_gpack delete_accept_def Let_def append_pco_item
  by (simp add: append_struct_item item_of_cause item_of_small item_types)

lemma delete_denied_items:
  "delete_denied E cs = gtpc_alloc_packet (e_malloc_res E) (e_junk E) 37 \<bind>
     append_all (e_malloc_res E) (gpack ([Plain (cause_item 93)] @ [Plain (gtpc_recovery_set (e_recovery E))]))"
  unfolding append_all_gpack delete_denied_def Let_def
  by (simp add: append_struct_item item_of_cause item_of_small item_types)

section \<open>Answers are well-formed\<close>

lemma private_ext_ok: "session_ok cs \<Longrightarrow> tlv (private_ext cs) \<and> length (private_ext cs) = 32"
  by (simp add: session_ok_def ps_sized_def private_ext_def gtpc_private_extension_set_def blk_def teid_grekey_def tlv_def nth_append)

definition glen :: "gitem list \<Rightarrow> nat" where
  "glen gs = length (concat (map gbytes gs))"

lemma glen_simps [simp]: "glen [] = 0" "glen (g # gs) = length (gbytes g) + glen gs" "glen (xs @ ys) = glen xs + glen ys"
  by (simp_all add: glen_def)

lemma pco_answer_ok: "\<forall>g \<in> set (pco_answer v cs). gitem_ok g" "glen (pco_answer v cs) \<le> 81" "length (pco_answer v cs) \<le> 1"
proof -
  have "length (pco_opts v cs) \<le> 250" using length_pco_opts(1) [of v cs] by simp
  note i = item_of_pco(2) [OF this]
  have l: "length (pco_item h (pco_opts v cs)) \<le> 81" for h using length_pco_opts(1) [of v cs] by (simp add: pco_item_def)
  have t: "pco_item h (pco_opts v cs) ! 0 = 78" for h by (simp add: pco_item_def nth_append)
  have l': "length (pco_item h (pco_opts v cs)) < 1514" for h using l [of h] by linarith
  show "\<forall>g \<in> set (pco_answer v cs). gitem_ok g" "glen (pco_answer v cs) \<le> 81" "length (pco_answer v cs) \<le> 1"
    using i l t l' by (simp_all add: pco_answer_def)
qed

definition answer_ok :: "gitem list \<Rightarrow> bool" where
  "answer_ok gs \<longleftrightarrow> (\<forall>g \<in> set gs. gitem_ok g) \<and> glen gs \<le> 300 \<and> length gs \<le> 255"

lemmas small_items = item_of_cause(2) item_of_small item_types item_lengths

lemma create_items_ok:
  assumes "session_ok cs" shows "answer_ok (create_items E cs)"
proof -
  have l: "length (pgw_c_ipv_n cs) = 4" "length (pgw_u_ipv_n cs) = 4" using assms by (simp_all add: session_ok_def)
  have paa: "case_prod paa_item (ue_paa E cs) ! 0 = 79" by (simp add: case_prod_beta item_types)
  have p: "private_ext cs ! 0 = 255" by (simp add: private_ext_def item_types)
  note pa = paa_ue_item(3,4) [OF assms, of E] and pr = private_ext_ok [OF assms] and pc = pco_answer_ok [of "e_ipv64 E" cs]
  have "gitem_ok (Plain (case_prod paa_item (ue_paa E cs)))" using pa paa by simp
  moreover have "gitem_ok (Plain (private_ext cs))" using pr p by simp
  ultimately have "\<forall>g \<in> set (create_items E cs). gitem_ok g"
    using pc(1) l by (simp add: create_items_def small_items item_of_f_teid(2) ball_Un)
  moreover have "glen (create_items E cs) \<le> 300" using pc(2) pa(2) pr l by (simp add: create_items_def small_items)
  moreover have "length (create_items E cs) \<le> 255" using pc(3) by (simp add: create_items_def)
  ultimately show ?thesis by (simp add: answer_ok_def)
qed

lemma modify_items_ok:
  assumes "session_ok cs" "gtpc_msisdn_set n = Some number" shows "answer_ok (modify_items E number cs)"
proof -
  have p: "private_ext cs ! 0 = 255" by (simp add: private_ext_def item_types)
  note pr = private_ext_ok [OF assms(1)] and pc = pco_answer_ok [of "e_ipv64 E" cs] and nm = item_of_msisdn [OF assms(2)]
  have "\<forall>g \<in> set (modify_items E number cs). gitem_ok g"
    using pc(1) pr p nm by (simp add: modify_items_def small_items ball_Un)
  moreover have "glen (modify_items E number cs) \<le> 300" using pc(2) pr nm by (simp add: modify_items_def small_items)
  moreover have "length (modify_items E number cs) \<le> 255" using pc(3) by (simp add: modify_items_def)
  ultimately show ?thesis by (simp add: answer_ok_def)
qed

lemma other_answers_ok:
  "answer_ok create_denial" "answer_ok [Plain (cause_item 93)]" "answer_ok (delete_items E cs)"
  "answer_ok ([Plain (cause_item 93)] @ [Plain (gtpc_recovery_set r)])"
  using pco_answer_ok [of "e_ipv64 E" cs]
  by (simp_all add: answer_ok_def create_denial_def delete_items_def small_items ball_Un)

section \<open>Sending\<close>

text \<open>A message with the given octets is accepted, with these items, by whoever parses it and has memory.\<close>

lemma ucast_16_32: "ucast (ucast w :: 32 word) = w" "unat (ucast w :: 32 word) = unat w" for w :: "16 word"
proof -
  show "ucast (ucast w :: 32 word) = w" by (rule bit_word_eqI) (auto simp: bit_simps)
  show "unat (ucast w :: 32 word) = unat w" by (simp add: unsigned_ucast_eq take_bit_word_eq_self)
qed

lemma alloc_packet_some: "malloc 0 \<Longrightarrow> \<exists>p. gtpc_alloc_packet malloc junk ty = Some p"
  by (simp add: gtpc_alloc_packet_def Let_def split_beta)

lemma payload_parses:
  assumes "payload 0 = 0x48" "payload 1 = ty" "gtpc_type_issupported ty" "ty \<noteq> GTPC_ECHO_REQ" "ty \<noteq> GTPC_ECHO_RES"
    "unat (ldn16 payload 2) + 4 = unat len" "unat len = 12 + length (concat bss)" "unat len < ETHER_MAX_LEN"
    "rd_bytes payload 12 (length (concat bss)) = concat bss" "\<forall>b \<in> set bss. tlv b" "length bss \<le> 255" "\<And>k. malloc k"
  shows "\<exists>q. gtpc_alloc_packet_from_payload malloc junk payload len = Accepted q \<and> contents q = map typed bss"
proof -
  obtain p0 where p0: "gtpc_alloc_packet malloc junk ty = Some p0" using alloc_packet_some assms(12) by blast
  note w = alloc_packet_wf [OF p0]
  have hl: "gtpc_type_headerlen ty = 12" using assms(4,5) by (simp add: gtpc_type_headerlen_def)
  obtain p where p: "append_all malloc (map typed bss) p0 = Some p"
  proof (rule append_all_fits [OF w(1), of malloc "map typed bss"])
    show "unat (g_offset p0) + length (concat (map snd (map typed bss))) < ETHER_MAX_LEN" using assms(7,8) w(5) hl by simp
  qed (use assms(10,12) in \<open>auto simp: typed_def tlv_def\<close>)
  note ok = append_all_ok [OF w(1) p]
  have off: "unat (g_offset p) = 12 + length (concat bss)" using ok(3) w(5) hl by simp
  then have len: "g_offset p = len" using assms(7) by (simp add: word_unat_eq_iff)
  have l16: "ldn16 payload 2 = ldn16 (g_packet p) 2" using ok(1) assms(6,7) off by (simp add: gtp_wf_def word_unat_eq_iff)
  have l: "payload 2 = g_packet p 2" "payload 3 = g_packet p 3"
    using arg_cong [OF l16, of "byte_of 1"] arg_cong [OF l16, of "byte_of 0"] by (simp_all add: ldn16_def ld16_def bswap16_def numeral_eq_Suc)
  have hd: "g_packet p 0 = 0x48" "g_packet p 1 = ty" using ok(4) w(3,4,5) hl assms(4,5) by simp_all
  have body: "rd_bytes (g_packet p) 12 (length (concat bss)) = concat bss"
    using wf_concat [OF ok(1)] ok(2) w(2) hd(2) hl off by simp
  have "payload x = g_packet p x" if "x < 4 \<or> gtpc_type_headerlen ty \<le> x \<and> x < unat (g_offset p)" for x
  proof (cases "x < 4")
    case True
    then have "x = 0 \<or> x = 1 \<or> x = 2 \<or> x = 3" by auto
    then show ?thesis using assms(1,2) hd l by auto
  next
    case False
    then have x: "12 \<le> x" "x < 12 + length (concat bss)" using that hl off by auto
    then have "rd_bytes payload 12 (length (concat bss)) ! (x - 12) = rd_bytes (g_packet p) 12 (length (concat bss)) ! (x - 12)"
      using body assms(9) by simp
    then show ?thesis using x by simp
  qed
  from from_payload_builds [OF p0 p assms(3,10,11) this] show ?thesis unfolding len by blast
qed

text \<open>An answer with the given tunnel identifier, type and items to a request.\<close>

definition reply_to :: "packet \<Rightarrow> byte list \<Rightarrow> byte \<Rightarrow> gitem list \<Rightarrow> packet \<Rightarrow> bool" where
  "reply_to req teid ty gs c \<longleftrightarrow>
     p_saddr c = p_caddr req \<and> p_caddr c = p_saddr req \<and> p_data c 0 = 0x48 \<and> p_data c 1 = ty \<and>
     rd_bytes (p_data c) 4 4 = teid \<and> rd_bytes (p_data c) 8 3 = rd_bytes (p_data req) 8 3 \<and>
     unat (p_datalen c) = 12 + glen gs \<and> unat (ldn16 (p_data c) 2) + 4 = unat (p_datalen c) \<and> rd_bytes (p_data c) 12 (glen gs) = concat (map gbytes gs) \<and>
     (\<forall>malloc junk. (\<forall>k. malloc k) \<longrightarrow> gtpc_type_issupported ty \<longrightarrow>
        (\<exists>q. gtpc_alloc_packet_from_payload malloc junk (p_data c) (ucast (p_datalen c)) = Accepted q \<and> contents q = gpack gs))"

definition memory_ok :: "'d env \<Rightarrow> bool" where
  "memory_ok E \<longleftrightarrow> (\<forall>k. e_malloc_res E k) \<and> e_convert E"

lemma gitem_tlv: "gitem_ok g \<Longrightarrow> tlv (gbytes g)"
  using gbytes_bctx by (cases g) (auto simp: bctx_of_def simp del: gbytes.simps(2))

lemma answer_built:
  assumes "\<And>k. M k" "answer_ok gs"
  obtains l where "(gtpc_alloc_packet M junk ty \<bind> append_all M (gpack gs)) = Some l"
proof -
  obtain p0 where p0: "gtpc_alloc_packet M junk ty = Some p0" using alloc_packet_some assms(1) by blast
  note w = alloc_packet_wf [OF p0]
  obtain l where "append_all M (gpack gs) p0 = Some l"
  proof (rule append_all_fits [OF w(1), of M "gpack gs"])
    show "d \<noteq> []" if "(t, d) \<in> set (gpack gs)" for t d
      using that assms(2) gitem_tlv tlv_nth by (fastforce simp: gpack_def typed_def answer_ok_def)
    have "map snd (gpack gs) = map gbytes gs" by (simp add: gpack_def typed_def)
    then show "unat (g_offset p0) + length (concat (map snd (gpack gs))) < ETHER_MAX_LEN"
      using assms(2) w(5) headerlen_ge(2) [of ty] by (simp add: answer_ok_def glen_def)
  qed (rule assms(1))
  with p0 show ?thesis by (intro that) simp
qed

lemma send_answer_reply:
  assumes "memory_ok E" "answer_ok gs" "ty \<noteq> GTPC_ECHO_REQ" "ty \<noteq> GTPC_ECHO_RES" "length teid = 4"
    "gtph_seqno cs = rd_bytes (p_data req) 8 3" "g_saddr rp = p_saddr req" "g_caddr rp = p_caddr req"
    "ans = gtpc_alloc_packet (e_malloc_res E) (e_junk E) ty \<bind> append_all (e_malloc_res E) (gpack gs)"
  shows "\<exists>c. send_answer E rp teid cs ans (d, nd) = Some ((d, pgw_enq EGRESS c nd), True) \<and> reply_to req teid ty gs c"
proof -
  have mem: "\<And>k. e_malloc_res E k" "e_convert E" using assms(1) by (simp_all add: memory_ok_def)
  obtain l where "(gtpc_alloc_packet (e_malloc_res E) (e_junk E) ty \<bind> append_all (e_malloc_res E) (gpack gs)) = Some l"
    by (rule answer_built [OF mem(1) assms(2)])
  then obtain p0 where p0: "gtpc_alloc_packet (e_malloc_res E) (e_junk E) ty = Some p0"
    and l: "append_all (e_malloc_res E) (gpack gs) p0 = Some l" and ans: "ans = Some l"
    using assms(9) by (auto simp: bind_eq_Some_conv)
  note w = alloc_packet_wf [OF p0] and ok = append_all_ok [OF alloc_packet_wf(1) [OF p0] l]
  have hl: "gtpc_type_headerlen ty = 12" using assms(3,4) by (simp add: gtpc_type_headerlen_def)
  have sm: "map snd (gpack gs) = map gbytes gs" by (simp add: gpack_def typed_def)
  have g: "glen gs \<le> 300" "\<forall>b \<in> set (map gbytes gs). tlv b" "length (map gbytes gs) \<le> 255"
    using assms(2) gitem_tlv by (auto simp: answer_ok_def)
  have off: "unat (g_offset l) = 12 + glen gs" using ok(3) w(5) hl sm by (simp add: glen_def)
  have hd: "g_packet l 0 = 0x48" "g_packet l 1 = ty" using ok(4) w(3,4,5) hl assms(3,4) by simp_all
  have body: "rd_bytes (g_packet l) 12 (glen gs) = concat (map gbytes gs)"
    using wf_concat [OF ok(1)] ok(2) w(2) hd(2) hl off sm by simp
  define m where "m = wr_bytes (wr_bytes (\<lambda>i. if i < unat (g_offset l) then g_packet l i else e_junk E i) 4 teid) 8 (gtph_seqno cs)"
  have out: "m x = g_packet l x" if "x < 4 \<or> 11 \<le> x" "x < 12 + glen gs" for x
    using that assms(5,6) off by (auto simp: m_def)
  define c where "c = \<lparr>p_data = m, p_datalen = ucast (g_offset l), p_saddr = p_caddr req, p_caddr = p_saddr req\<rparr>"
  have send: "send_answer E rp teid cs ans (d, nd) = Some ((d, pgw_enq EGRESS c nd), True)"
    using assms(7,8) mem(2) ans by (simp add: send_answer_def gtpc_convert_to_packet_def gtpc_copy_packet_addr_def Let_def pgw_swap_address_def c_def m_def cong: if_cong)
  have len: "ucast (p_datalen c) = g_offset l" "unat (p_datalen c) = 12 + glen gs"
    using off by (simp_all add: c_def ucast_16_32)
  have b: "rd_bytes m 12 (glen gs) = concat (map gbytes gs)" using body out by (auto intro: trans [OF rd_bytes_cong])
  have l2: "ldn16 m 2 = ldn16 (g_packet l) 2" using out by (intro ldn16_cong) simp_all
  have seq: "rd_bytes m 8 3 = rd_bytes (p_data req) 8 3" "rd_bytes m 4 4 = teid"
    using assms(5,6) by (simp_all add: m_def rd_wr_bytes_disjoint)
  have "\<exists>q. gtpc_alloc_packet_from_payload malloc junk m (g_offset l) = Accepted q \<and> contents q = gpack gs" if "\<And>k. malloc k" "gtpc_type_issupported ty" for malloc junk
    unfolding gpack_def map_map [symmetric]
  proof (rule payload_parses [where ty = ty])
    show "m 0 = 0x48" "m 1 = ty" using out hd by simp_all
    show "unat (ldn16 m 2) + 4 = unat (g_offset l)" unfolding l2 using ok(1) by (simp add: gtp_wf_def)
    show "unat (g_offset l) = 12 + length (concat (map gbytes gs))" "unat (g_offset l) < ETHER_MAX_LEN"
      "rd_bytes m 12 (length (concat (map gbytes gs))) = concat (map gbytes gs)"
      using off g(1) b by (simp_all flip: glen_def)
  qed (use assms(3,4) g that in simp_all)
  moreover have "unat (ldn16 m 2) + 4 = 12 + glen gs" using ok(1) off by (simp add: gtp_wf_def l2)
  ultimately have "reply_to req teid ty gs c" unfolding reply_to_def len using b seq out hd len by (simp add: c_def)
  with send show ?thesis by blast
qed

section \<open>Every well-formed request is answered once\<close>

text \<open>
  The surroundings: memory, \<open>inet_aton\<close> yields four octets, statements can be executed, and a lookup finds at most
  one record, whose number has at most twelve digits and whose address starts with a zero octet (if it is one).
\<close>

definition row_ok :: "'d env \<Rightarrow> tunnel_row \<Rightarrow> bool" where
  "row_ok E r \<longleftrightarrow> length (dec (unat (t_msisdn r))) \<le> 12 \<and> (\<forall>a. e_aton E (take 31 (t_ueipv4 r)) = Some a \<longrightarrow> a ! 0 = 0)"

definition env_ok :: "'d env \<Rightarrow> bool" where
  "env_ok E \<longleftrightarrow> memory_ok E \<and> aton_ok (e_aton E) \<and>
     (\<forall>d s n. \<exists>rows. e_rows E d s n = Some rows \<and> length rows \<le> 1 \<and> (\<forall>r \<in> set rows. row_ok E r))"

text \<open>The state of a handler before and after a lookup.\<close>

definition fresh :: "packet \<Rightarrow> session \<Rightarrow> bool" where
  "fresh req cs \<longleftrightarrow> session_ok cs \<and> gtph_seqno cs = rd_bytes (p_data req) 8 3 \<and> ue_ipv cs = [] \<and> ue_ipv_n cs ! 0 = 0 \<and> msisdn_num cs = 0"

definition found :: "packet \<Rightarrow> session \<Rightarrow> bool" where
  "found req cs \<longleftrightarrow> session_ok cs \<and> gtph_seqno cs = rd_bytes (p_data req) 8 3 \<and> ue_ipv_n cs ! 0 = 0 \<and>
     length (dec (unat (msisdn_num cs))) \<le> 12"

lemma fresh_found: "fresh req cs \<Longrightarrow> found req cs"
  by (simp add: fresh_def found_def dec.simps)

lemma found_upd [simp]:
  "found req (with_ebi cs) = found req cs" "found req (cs\<lparr>sgw_c_teid := t\<rparr>) = found req cs"
  by (simp_all add: found_def) (simp add: with_ebi_def)

lemma fresh_request: "fresh pckt (snd (read_request E pckt p))"
  using session_ok_request [of E pckt p] by (simp add: fresh_def read_request_def Let_def zero_session_def zeros_def)

lemma request_addrs: "g_saddr (fst (read_request E pckt p)) = p_saddr pckt" "g_caddr (fst (read_request E pckt p)) = p_caddr pckt"
  by (simp_all add: read_request_def Let_def)

lemma found_records:
  assumes "env_ok E" "fresh req cs" "e_rows E d s n = Some rows"
  shows "found req (records E cs rows)" "rows = [] \<Longrightarrow> records E cs rows = cs" "rows \<noteq> [] \<Longrightarrow> has HAVE_RECORD (records E cs rows)"
proof -
  have "\<exists>rows. e_rows E d s n = Some rows \<and> length rows \<le> 1 \<and> (\<forall>r \<in> set rows. row_ok E r)" and "aton_ok (e_aton E)"
    using assms(1) by (simp_all add: env_ok_def)
  then have "length rows \<le> 1" "\<forall>r \<in> set rows. row_ok E r" using assms(3) by auto
  then consider "rows = []" | r where "rows = [r]" "row_ok E r" by (cases rows) auto
  then show "found req (records E cs rows)"
  proof cases
    case 1
    then show ?thesis using fresh_found [OF assms(2)] by (simp add: records_def)
  next
    case 2
    have "session_ok (records E cs rows)" using assms(2) \<open>aton_ok (e_aton E)\<close> by (intro session_ok_records) (simp_all add: fresh_def)
    then show ?thesis using 2 assms(2)
      by (auto simp: found_def fresh_def records_def on_tunnel_record_def Let_def row_ok_def STRMINCPY_def aton_into_def min_def split: option.splits)
  qed
  show "rows = [] \<Longrightarrow> records E cs rows = cs" by (simp add: records_def)
  have "flag_bit 26 AND flag_bit 26 \<noteq> 0" by (simp add: flag_bit_def)
  then show "has HAVE_RECORD (records E cs rows)" if "rows \<noteq> []"
    using that \<open>length rows \<le> 1\<close>
    by (cases rows) (auto simp: records_def on_tunnel_record_def Let_def has_def have_flag_def bit.conj_disj_distrib2)
qed

text \<open>The answers of the three handlers.\<close>

definition verdict :: "byte \<Rightarrow> gitem list \<Rightarrow> bool" where
  "verdict k gs \<longleftrightarrow> answer_ok gs \<and> hd gs = Plain (cause_item k) \<and> gs \<noteq> []"

definition replies :: "byte \<Rightarrow> packet \<Rightarrow> packet \<Rightarrow> bool" where
  "replies ty req c \<longleftrightarrow> (\<exists>teid gs k. reply_to req teid ty gs c \<and> verdict k gs \<and> k \<in> {16, 93})"

definition answered_by :: "(packet \<Rightarrow> packet \<Rightarrow> bool) \<Rightarrow> packet \<Rightarrow> node \<Rightarrow> (('d \<times> node) \<times> bool) option \<Rightarrow> bool" where
  "answered_by rep req nd r \<longleftrightarrow> (\<exists>d c. r = Some ((d, pgw_enq EGRESS c nd), True) \<and> rep req c)"

abbreviation answered :: "byte \<Rightarrow> packet \<Rightarrow> node \<Rightarrow> (('d \<times> node) \<times> bool) option \<Rightarrow> bool" where
  "answered ty \<equiv> answered_by (replies ty)"

lemma answeredI:
  assumes "memory_ok E" "found req cs" "g_saddr rp = p_saddr req" "g_caddr rp = p_caddr req" "verdict k gs" "k \<in> {16, 93}"
    "ans = gtpc_alloc_packet (e_malloc_res E) (e_junk E) ty \<bind> append_all (e_malloc_res E) (gpack gs)" "2 < ty" "length teid = 4"
  shows "answered ty req nd (send_answer E rp teid cs ans (d, nd))"
proof -
  have "ty \<noteq> GTPC_ECHO_REQ" "ty \<noteq> GTPC_ECHO_RES" using assms(8) by auto
  moreover have "answer_ok gs" using assms(5) by (simp add: verdict_def)
  ultimately obtain c where "send_answer E rp teid cs ans (d, nd) = Some ((d, pgw_enq EGRESS c nd), True)" "reply_to req teid ty gs c"
    using send_answer_reply [of E gs ty teid cs req rp ans d nd] assms(1-4,7,9) by (auto simp: found_def)
  with assms(5,6) show ?thesis unfolding answered_by_def replies_def by blast
qed

lemma verdicts:
  "session_ok cs \<Longrightarrow> verdict 16 (create_items E cs)" "verdict 93 create_denial"
  "session_ok cs \<Longrightarrow> gtpc_msisdn_set n = Some number \<Longrightarrow> verdict 16 (modify_items E number cs)" "verdict 93 [Plain (cause_item 93)]"
  "verdict 16 (delete_items E cs)" "verdict 93 ([Plain (cause_item 93)] @ [Plain (gtpc_recovery_set r)])"
proof -
  have h: "hd (create_items E cs) = Plain (cause_item 16) \<and> create_items E cs \<noteq> []" "hd create_denial = Plain (cause_item 93) \<and> create_denial \<noteq> []"
    "hd (modify_items E number cs) = Plain (cause_item 16) \<and> modify_items E number cs \<noteq> []"
    "hd (delete_items E cs) = Plain (cause_item 16) \<and> delete_items E cs \<noteq> []"
    by (simp_all add: create_items_def create_denial_def modify_items_def delete_items_def)
  show "session_ok cs \<Longrightarrow> verdict 16 (create_items E cs)" "verdict 93 create_denial"
    "session_ok cs \<Longrightarrow> gtpc_msisdn_set n = Some number \<Longrightarrow> verdict 16 (modify_items E number cs)" "verdict 93 [Plain (cause_item 93)]"
    "verdict 16 (delete_items E cs)" "verdict 93 ([Plain (cause_item 93)] @ [Plain (gtpc_recovery_set r)])"
    unfolding verdict_def using h create_items_ok modify_items_ok other_answers_ok by simp_all
qed

lemma length_teid: "session_ok cs \<Longrightarrow> length (teid_grekey (c_teid (ps cs))) = 4"
  by (simp add: session_ok_def ps_sized_def teid_grekey_def)

text \<open>Both answers of a handler, sent under a tunnel identifier.\<close>

definition answers_with :: "'d env \<Rightarrow> byte \<Rightarrow> packet \<Rightarrow> gtp_packet option \<Rightarrow> bool" where
  "answers_with E ty req ans \<longleftrightarrow> (\<forall>rp teid cs d nd. found req cs \<longrightarrow> g_saddr rp = p_saddr req \<longrightarrow> g_caddr rp = p_caddr req \<longrightarrow> length teid = 4 \<longrightarrow>
     answered ty req nd (send_answer E rp teid cs ans (d, nd)))"

lemma answers_withI:
  assumes "memory_ok E" "verdict k gs" "k \<in> {16, 93}" "2 < ty"
    "ans = gtpc_alloc_packet (e_malloc_res E) (e_junk E) ty \<bind> append_all (e_malloc_res E) (gpack gs)"
  shows "answers_with E ty req ans"
  unfolding answers_with_def using answeredI [OF assms(1) _ _ _ assms(2,3,5,4)] by blast

lemma handler_answers:
  assumes "memory_ok E"
  shows "found req cs \<Longrightarrow> answers_with E 33 req (create_accept E cs)" "answers_with E 33 req (create_denied E cs)"
    "found req cs \<Longrightarrow> answers_with E 35 req (modify_accept E cs)" "answers_with E 35 req (modify_denied E cs)"
    "answers_with E 37 req (delete_accept E cs)" "answers_with E 37 req (delete_denied E cs)"
proof -
  show "answers_with E 33 req (create_accept E cs)" if "found req cs"
    using that create_accept_items [of cs E] by (intro answers_withI [OF assms verdicts(1)]) (simp_all add: found_def)
  show "answers_with E 33 req (create_denied E cs)" by (rule answers_withI [OF assms verdicts(2) _ _ create_denied_items]) simp_all
  show "answers_with E 35 req (modify_accept E cs)" if f: "found req cs"
  proof -
    have "snd (gtpc_digits_set 6 (msisdn_num cs))" using f by (simp add: found_def digits_set_ok(1))
    then obtain number where n: "gtpc_msisdn_set (msisdn_num cs) = Some number" by (simp add: gtpc_msisdn_set_def split_beta)
    then show ?thesis using f modify_accept_items [of E cs] by (intro answers_withI [OF assms verdicts(3) [OF _ n]]) (simp_all add: found_def)
  qed
  show "answers_with E 35 req (modify_denied E cs)" by (rule answers_withI [OF assms verdicts(4) _ _ modify_denied_items]) simp_all
  show "answers_with E 37 req (delete_accept E cs)" by (rule answers_withI [OF assms verdicts(5) _ _ delete_accept_items]) simp_all
  show "answers_with E 37 req (delete_denied E cs)" by (rule answers_withI [OF assms verdicts(6) _ _ delete_denied_items]) simp_all
qed

lemma rows_some:
  assumes "env_ok E" obtains rows where "e_rows E d s n = Some rows"
  using assms unfolding env_ok_def by blast

lemma create_lookup_found:
  assumes "env_ok E" "fresh req cs"
  shows "\<exists>r. create_lookup E d i n cs = Some r \<and> (case r of Inl cs' \<Rightarrow> found req cs' | Inr (cs', i') \<Rightarrow> found req cs')"
proof -
  obtain rows where r: "e_rows E d IMSI_LOOKUP i = Some rows" by (rule rows_some [OF assms(1)])
  obtain rows' where r': "e_rows E d MSISDN_LOOKUP n = Some rows'" by (rule rows_some [OF assms(1)])
  note f = found_records [OF assms r] and f' = found_records [OF assms r']
  show ?thesis
  proof (cases "has HAVE_RECORD (records E cs rows)")
    case True
    then show ?thesis using r f(1) by (simp add: create_lookup_def Let_def)
  next
    case False
    then have "records E cs rows = cs" using f(2,3) by blast
    then show ?thesis using False r r' f'(1) by (simp add: create_lookup_def Let_def)
  qed
qed

lemma create_answered:
  assumes "env_ok E" "gtpc_alloc_packet_from_payload (e_malloc_req E) (e_junk E) (p_data pckt) (ucast (p_datalen pckt)) = Accepted p"
  shows "answered 33 pckt nd (on_create_session E pckt (d, nd))"
proof -
  have mem: "memory_ok E" using assms(1) by (simp add: env_ok_def)
  obtain q cs where rr: "read_request E pckt p = (q, cs)" by fastforce
  have fr: "fresh pckt cs" and ad: "g_saddr q = p_saddr pckt" "g_caddr q = p_caddr pckt"
    using fresh_request [of pckt E p] request_addrs [of E pckt p] by (simp_all add: rr)
  have deny: "answered 33 pckt nd (send_answer E q (teid_grekey (c_teid (ps cs'))) cs' (create_denied E cs') (d', nd))"
    and accept: "answered 33 pckt nd (send_answer E q (teid_grekey (c_teid (ps cs'))) cs' (create_accept E cs') (d', nd))"
    if "found pckt cs'" for cs' d'
    using handler_answers(2) [OF mem, of pckt cs'] handler_answers(1) [OF mem that] that ad length_teid [of cs']
    by (simp_all add: answers_with_def found_def)
  note fd = fresh_found [OF fr]
  show ?thesis
  proof (cases "flag (ps cs) AND INCLUDED_ALL = INCLUDED_ALL")
    case False
    then show ?thesis using deny [OF fd] by (simp add: on_create_session_def assms(2) rr)
  next
    case True
    define n where "n = gtpc_digits_get (e_stale E) (drop 4 (msisdn (ps cs)))"
    define i where "i = gtpc_digits_get (e_stale E \<or> digits_erange (drop 4 (msisdn (ps cs)))) (drop 4 (imsi (ps cs)))"
    obtain d1 ok1 where q1: "(case e_server_ip E of None \<Rightarrow> (d, True) | Some ip \<Rightarrow> e_query E d (pgwip_sql ip i)) = (d1, ok1)" by fastforce
    obtain d2 ok2 where q2: "opt_query E (i \<noteq> 0 \<and> n \<noteq> 0) (imsi_msisdn_sql n i) d1 = (d2, ok2)" by fastforce
    obtain r where r: "create_lookup E d2 i n cs = Some r" "case r of Inl cs' \<Rightarrow> found pckt cs' | Inr (cs', i') \<Rightarrow> found pckt cs'"
      using create_lookup_found [OF assms(1) fr] by blast
    have *: "on_create_session E pckt (d, nd) =
        (if \<not> ok1 then send_answer E q (teid_grekey (c_teid (ps cs))) cs (create_denied E cs) (d1, nd)
         else if \<not> ok2 then send_answer E q (teid_grekey (c_teid (ps cs))) cs (create_denied E cs) (d2, nd)
         else case r of
           Inl cs' \<Rightarrow> send_answer E q (teid_grekey (c_teid (ps cs'))) cs' (create_denied E cs') (d2, nd)
         | Inr (cs', i') \<Rightarrow>
             let cs'' = with_ebi cs'; (d3, ok3) = e_query E d2 (create_session_sql cs'' i') in
             send_answer E q (teid_grekey (c_teid (ps cs''))) cs'' (if ok3 then create_accept E cs'' else create_denied E cs'') (d3, nd))"
      using True q2 r(1) by (simp add: on_create_session_def assms(2) rr Let_def q1 split: sum.split
        flip: n_def i_def)
    show ?thesis using r(2) deny [OF fd] unfolding *
      by (auto simp: Let_def deny accept split: sum.split prod.split)
  qed
qed

lemma modify_answered:
  assumes "env_ok E" "gtpc_alloc_packet_from_payload (e_malloc_req E) (e_junk E) (p_data pckt) (ucast (p_datalen pckt)) = Accepted p"
  shows "answered 35 pckt nd (on_modify_bearer E pckt (d, nd))"
proof -
  have mem: "memory_ok E" using assms(1) by (simp add: env_ok_def)
  obtain q cs0 where rr: "read_request E pckt p = (q, cs0)" by fastforce
  have fr: "fresh pckt cs0" and ad: "g_saddr q = p_saddr pckt" "g_caddr q = p_caddr pckt"
    using fresh_request [of pckt E p] request_addrs [of E pckt p] by (simp_all add: rr)
  have deny: "answered 35 pckt nd (send_answer E q (le32 t) cs' (modify_denied E cs') (d', nd))"
    and accept: "answered 35 pckt nd (send_answer E q (le32 t) cs' (modify_accept E cs') (d', nd))"
    if "found pckt cs'" for t cs' d'
    using handler_answers(4) [OF mem, of pckt cs'] handler_answers(3) [OF mem that] that ad by (simp_all add: answers_with_def)
  obtain rows where r: "e_rows E d TEID_ACTIVE_LOOKUP (ucast (gtph_teid cs0)) = Some rows" by (rule rows_some [OF assms(1)])
  define cs where "cs = records E cs0 rows"
  have f: "found pckt cs" unfolding cs_def by (rule found_records(1) [OF assms(1) fr r])
  have "answered 35 pckt nd (case Q of (d1, ok1) \<Rightarrow>
      if \<not> ok1 then send_answer E q (le32 (sgw_c_teid (with_ebi cs))) (with_ebi cs) (modify_denied E (with_ebi cs)) (d1, nd)
      else let cs = (if mv then (with_ebi cs)\<lparr>sgw_c_teid := c\<rparr> else with_ebi cs);
             (d2, ok2) = opt_query E (has HAVE_EBI_B cs) (bearer_ebi_sql cs) d1 in
           send_answer E q (le32 (sgw_c_teid cs)) cs (if ok2 then modify_accept E cs else modify_denied E cs) (d2, nd))" for Q mv c
    using f by (auto simp: Let_def deny accept split: prod.split)
  then show ?thesis using deny [OF f]
    by (simp add: on_modify_bearer_def assms(2) rr r Let_def flip: cs_def)
qed

lemma delete_answered:
  assumes "env_ok E" "gtpc_alloc_packet_from_payload (e_malloc_req E) (e_junk E) (p_data pckt) (ucast (p_datalen pckt)) = Accepted p"
  shows "answered 37 pckt nd (event_gtpc_delete_session_req E pckt (d, nd))"
proof -
  have mem: "memory_ok E" using assms(1) by (simp add: env_ok_def)
  obtain q cs0 where rr: "read_request E pckt p = (q, cs0)" by fastforce
  have fr: "fresh pckt cs0" and ad: "g_saddr q = p_saddr pckt" "g_caddr q = p_caddr pckt"
    using fresh_request [of pckt E p] request_addrs [of E pckt p] by (simp_all add: rr)
  have send: "answered 37 pckt nd (send_answer E q (le32 t) cs' (delete_denied E cs') (d', nd))"
    "answered 37 pckt nd (send_answer E q (le32 t) cs' (delete_accept E cs') (d', nd))"
    if "found pckt cs'" for t cs' d'
    using handler_answers(5,6) [OF mem, of pckt cs'] that ad by (simp_all add: answers_with_def)
  obtain rows where r: "e_rows E d TEID_LOOKUP (ucast (gtph_teid cs0)) = Some rows" by (rule rows_some [OF assms(1)])
  have "found pckt (records E cs0 rows)" by (rule found_records(1) [OF assms(1) fr r])
  then show ?thesis
    by (auto simp: event_gtpc_delete_session_req_def assms(2) rr r Let_def send split: prod.split)
qed

section \<open>Bursts\<close>

text \<open>
  What the handlers have in common: a request that parses is answered, one that does not changes nothing.
\<close>

definition request_of :: "'d env \<Rightarrow> packet \<Rightarrow> from_payload" where
  "request_of E pckt = gtpc_alloc_packet_from_payload (e_malloc_req E) (e_junk E) (p_data pckt) (ucast (p_datalen pckt))"

definition well_formed :: "'d env \<Rightarrow> packet \<Rightarrow> bool" where
  "well_formed E pckt \<longleftrightarrow> (\<exists>p. request_of E pckt = Accepted p)"

locale answering =
  fixes h :: "'d env \<Rightarrow> packet \<Rightarrow> 'd \<times> node \<Rightarrow> (('d \<times> node) \<times> bool) option" and good :: "'d env \<Rightarrow> packet \<Rightarrow> bool"
    and wants :: "'d env \<Rightarrow> packet \<Rightarrow> bool" and rep :: "packet \<Rightarrow> packet \<Rightarrow> bool"
  assumes accepted: "env_ok E \<Longrightarrow> good E pckt \<Longrightarrow> wants E pckt \<Longrightarrow> answered_by rep pckt nd (h E pckt (d, nd))"
    and rejected: "env_ok E \<Longrightarrow> good E pckt \<Longrightarrow> \<not> wants E pckt \<Longrightarrow> \<exists>b. h E pckt (d, nd) = Some ((d, nd), b)"
begin

lemma burst:
  assumes "env_ok E" "node_ok nd" "length (side EGRESS nd) + length pkts \<le> 20 * 1024" "\<forall>p \<in> set pkts. good E p"
  shows "\<exists>d' nd' out. handle_all (h E) pkts (d, nd) = Some (d', nd') \<and> node_ok nd' \<and> side INGRESS nd' = side INGRESS nd \<and>
    refused nd' = refused nd \<and> side EGRESS nd' = side EGRESS nd @ out \<and> list_all2 rep (filter (wants E) pkts) out"
  using assms(2-)
proof (induction pkts arbitrary: d nd)
  case (Cons p pkts)
  have g: "good E p" "\<forall>p \<in> set pkts. good E p" using Cons.prems(3) by simp_all
  show ?case
  proof (cases "wants E p")
    case True
    from accepted [OF assms(1) g(1) True] obtain d1 c where h: "h E p (d, nd) = Some ((d1, pgw_enq EGRESS c nd), True)" "rep p c"
      unfolding answered_by_def by blast
    have room: "length (side EGRESS nd) < 20 * 1024" using Cons.prems(2) by simp
    note e = enq_side [OF Cons.prems(1), where dir = EGRESS and p = c]
    have "length (side EGRESS (pgw_enq EGRESS c nd)) + length pkts \<le> 20 * 1024" using e(2) room Cons.prems(2) by simp
    from Cons.IH [OF e(1) this g(2), of d1] obtain d' nd' out where
      "handle_all (h E) pkts (d1, pgw_enq EGRESS c nd) = Some (d', nd')" "node_ok nd'" "side INGRESS nd' = side INGRESS nd"
      "refused nd' = refused nd" "side EGRESS nd' = side EGRESS nd @ c # out" "list_all2 rep (filter (wants E) pkts) out"
      using e room by auto
    then show ?thesis using h True by (intro exI [of _ d'] exI [of _ nd'] exI [of _ "c # out"]) simp
  next
    case False
    from rejected [OF assms(1) g(1) False] obtain b where "h E p (d, nd) = Some ((d, nd), b)" by blast
    then show ?thesis using Cons.IH [OF Cons.prems(1) _ g(2), of d] Cons.prems(2) False by simp
  qed
qed simp

end

text \<open>A handler that answers every request that parses and turns down the others.\<close>

lemma answeringI:
  fixes h :: "'d env \<Rightarrow> packet \<Rightarrow> 'd \<times> node \<Rightarrow> (('d \<times> node) \<times> bool) option"
  assumes "\<And>E pckt p d nd. env_ok E \<Longrightarrow> request_of E pckt = Accepted p \<Longrightarrow> answered_by rep pckt nd (h E pckt (d, nd))"
    "\<And>E pckt x st. request_of E pckt = Rejected x \<Longrightarrow> h E pckt st = Some (st, False)"
  shows "answering h (\<lambda>E pckt. True) well_formed rep"
proof
  fix E :: "'d env" and pckt nd and d :: 'd
  assume E: "env_ok E"
  show "answered_by rep pckt nd (h E pckt (d, nd))" if "well_formed E pckt" using assms(1) [OF E] that by (auto simp: well_formed_def)
  show "\<exists>b. h E pckt (d, nd) = Some ((d, nd), b)" if "\<not> well_formed E pckt"
    using assms(2) that by (cases "request_of E pckt") (auto simp: well_formed_def)
qed

lemma request_rejected:
  assumes "request_of E pckt = Rejected x"
  shows "on_create_session E pckt st = Some (st, False)" "on_modify_bearer E pckt st = Some (st, False)"
    "event_gtpc_delete_session_req E pckt st = Some (st, False)"
  using assms by (simp_all add: request_of_def on_create_session_def on_modify_bearer_def event_gtpc_delete_session_req_def)

interpretation create_req: answering on_create_session "\<lambda>E pckt. True" well_formed "replies 33"
  by (rule answeringI) (simp_all add: request_rejected, simp add: request_of_def create_answered)

interpretation modify_req: answering on_modify_bearer "\<lambda>E pckt. True" well_formed "replies 35"
  by (rule answeringI) (simp_all add: request_rejected, simp add: request_of_def modify_answered)

interpretation delete_req: answering event_gtpc_delete_session_req "\<lambda>E pckt. True" well_formed "replies 37"
  by (rule answeringI) (simp_all add: request_rejected, simp add: request_of_def delete_answered)

section \<open>Acceptance\<close>

text \<open>The numbers a Create Session Request carries, and the first two updates of the database.\<close>

definition msisdn_of :: "'d env \<Rightarrow> session \<Rightarrow> 64 word" where
  "msisdn_of E cs = gtpc_digits_get (e_stale E) (drop 4 (msisdn (ps cs)))"

definition imsi_of :: "'d env \<Rightarrow> session \<Rightarrow> 64 word" where
  "imsi_of E cs = gtpc_digits_get (e_stale E \<or> digits_erange (drop 4 (msisdn (ps cs)))) (drop 4 (imsi (ps cs)))"

definition prepared :: "'d env \<Rightarrow> session \<Rightarrow> 'd \<Rightarrow> 'd \<Rightarrow> bool" where
  "prepared E cs d d2 \<longleftrightarrow> (\<exists>d1. (case e_server_ip E of None \<Rightarrow> (d, True) | Some ip \<Rightarrow> e_query E d (pgwip_sql ip (imsi_of E cs))) = (d1, True) \<and>
     (if imsi_of E cs \<noteq> 0 \<and> msisdn_of E cs \<noteq> 0 then e_query E d1 (imsi_msisdn_sql (msisdn_of E cs) (imsi_of E cs)) else (d1, True)) = (d2, True))"

lemma create_accepts:
  assumes "env_ok E" "request_of E pckt = Accepted p" "read_request E pckt p = (q, cs)" "flag (ps cs) AND INCLUDED_ALL = INCLUDED_ALL"
    "prepared E cs d d2" "e_rows E d2 IMSI_LOOKUP (imsi_of E cs) = Some [r]" "cs' = with_ebi (on_tunnel_record (e_aton E) cs r)"
    "e_query E d2 (create_session_sql cs' (imsi_of E cs)) = (d3, True)"
  shows "\<exists>c. on_create_session E pckt (d, nd) = Some ((d3, pgw_enq EGRESS c nd), True) \<and>
    reply_to pckt (teid_grekey (c_teid (ps cs))) 33 (create_items E cs') c" "session_ok cs'"
proof -
  have fr: "fresh pckt cs" and ad: "g_saddr q = p_saddr pckt" "g_caddr q = p_caddr pckt"
    using fresh_request [of pckt E p] request_addrs [of E pckt p] by (simp_all add: assms(3))
  note f = found_records [OF assms(1) fr assms(6)]
  have rec: "records E cs [r] = on_tunnel_record (e_aton E) cs r" by (simp add: records_def)
  have lk: "create_lookup E d2 (imsi_of E cs) n cs = Some (Inr (on_tunnel_record (e_aton E) cs r, imsi_of E cs))" for n
    using f(3) assms(6) by (simp add: create_lookup_def rec)
  have fd: "found pckt cs'" using f(1) by (simp add: assms(7) rec)
  then show ok: "session_ok cs'" by (simp add: found_def)
  have ct: "c_teid (ps cs') = c_teid (ps cs)" by (simp add: assms(7) with_ebi_def on_tunnel_record_def Let_def)
  have "on_create_session E pckt (d, nd) = send_answer E q (teid_grekey (c_teid (ps cs))) cs' (create_accept E cs') (d3, nd)"
    using assms(2,4,5,8) lk unfolding prepared_def request_of_def
    by (auto simp: on_create_session_def assms(3) opt_query_def ct Let_def simp flip: msisdn_of_def imsi_of_def assms(7))
  moreover have "create_accept E cs' = gtpc_alloc_packet (e_malloc_res E) (e_junk E) 33 \<bind> append_all (e_malloc_res E) (gpack (create_items E cs'))"
    using create_accept_items [OF ok, of E] fd by (simp add: found_def)
  ultimately show "\<exists>c. on_create_session E pckt (d, nd) = Some ((d3, pgw_enq EGRESS c nd), True) \<and>
      reply_to pckt (teid_grekey (c_teid (ps cs))) 33 (create_items E cs') c"
    using send_answer_reply [of E "create_items E cs'" 33 "teid_grekey (c_teid (ps cs))" cs' pckt q "create_accept E cs'" d3 nd]
      create_items_ok [OF ok, of E] assms(1) fd ad length_teid [OF ok]
    by (simp add: env_ok_def found_def gtpc_type_issupported_def ct)
qed

end
