(* ===== verification/V1_Elements.thy ===== *)
theory V1_Elements
  imports Gtpc_V1 Session_Answers
begin

text \<open>
  Reading of GTP-C version 1 messages: what the elements of a message mean, apart from their places in memory; that the
  loop over the elements of a well-formed message ends and collects exactly this; and messages on which it never ends.
\<close>

section \<open>Elements\<close>

text \<open>An element is its type and its contents; the table says whether a length is written between them.\<close>

definition v1_size :: "byte \<Rightarrow> nat" where
  "v1_size ty = fst (snd (msgs_gtpc_v1 ty))"

definition ie_bytes :: "byte \<times> byte list \<Rightarrow> byte list" where
  "ie_bytes e = (if v1_size (fst e) = 0 then [fst e] @ be16 (word_of_nat (length (snd e))) @ snd e else fst e # snd e)"

definition v1_parsed :: "byte list" where
  "v1_parsed = [1, 2, 16, 17, 20, 132, 133, 134, 135]"

definition ie_ok :: "byte \<times> byte list \<Rightarrow> bool" where
  "ie_ok e \<longleftrightarrow> fst (msgs_gtpc_v1 (fst e)) \<noteq> 0 \<and>
     (if v1_size (fst e) = 0 then length (snd e) < 65533 \<and> (fst e \<in> set v1_parsed \<longrightarrow> snd e \<noteq> [])
      else length (snd e) + 1 = v1_size (fst e))"

text \<open>What an element adds to the state.\<close>

definition v1_effect :: "mem \<Rightarrow> byte \<times> byte list \<Rightarrow> v1_state \<Rightarrow> v1_state" where
  "v1_effect junk e v0 =
     (let ty = fst e; pl = snd e; v = on_ps (have_v1 HAVE_V1) v0 in
      if ty = 1 then (on_ps (have_v1 HAVE_V1_CAUSE) v)\<lparr>cause_v1 := pl ! 0\<rparr>
      else if ty = 17 then on_ps (\<lambda>cs. (have_v1 HAVE_V1_TEID_CTRL cs)\<lparr>c_teid := put_at 5 (c_teid cs) pl\<rparr>) v
      else if ty = 16 then on_ps (\<lambda>cs. (have_v1 HAVE_V1_TEID_DATA cs)\<lparr>u_teid := put_at 5 (u_teid cs) pl\<rparr>) v
      else if ty = 2 then on_ps (\<lambda>cs. (have_v1 HAVE_V1_IMSI cs)\<lparr>imsi := put_at 4 (imsi cs) pl\<rparr>) v
      else if ty = 134 then
        (if length pl \<noteq> 7 then v else on_ps (\<lambda>cs. (have_v1 HAVE_V1_MSISDN cs)\<lparr>msisdn := put_at 4 (msisdn cs) (drop 1 pl)\<rparr>) v)
      else if ty = 133 then
        (if length pl \<noteq> 4 then v
         else if flag_v1 (vps v) AND HAVE_V1_IPADR_CTRL \<noteq> 0 then
           on_ps (\<lambda>cs. (have_v1 HAVE_V1_IPADR_DATA cs)\<lparr>u_teid := put_at 9 (u_teid cs) pl\<rparr>) v
         else on_ps (\<lambda>cs. (have_v1 HAVE_V1_IPADR_CTRL cs)\<lparr>c_teid := put_at 9 (c_teid cs) pl\<rparr>) v)
      else if ty = 135 then
        (if length pl < 256 then (on_ps (have_v1 HAVE_V1_QOS) v)\<lparr>qos := padded 256 pl, qos_len := word_of_nat (length pl)\<rparr> else v)
      else if ty = 20 then (on_ps (have_v1 HAVE_V1_NSAPI) v)\<lparr>nsapi := (pl ! 0) AND 0xF\<rparr>
      else if ty = 132 then (if length pl \<ge> 258 then v else on_ps (parse_pco_v1 junk pl) v)
      else v0)"

text \<open>The parser of the table, on the contents of an element.\<close>

lemma v1_sizes [simp]:
  "v1_size 1 = 2" "v1_size 2 = 9" "v1_size 16 = 5" "v1_size 17 = 5" "v1_size 20 = 2"
  "v1_size 132 = 0" "v1_size 133 = 0" "v1_size 134 = 0" "v1_size 135 = 0" "v1_size 127 = 5" "v1_size 128 = 0" "v1_size 8 = 2" "v1_size 14 = 2"
  by (simp_all add: v1_size_def msgs_gtpc_v1_def v1_fixed_def)

lemma v1_size_le: "v1_size ty \<le> 29"
  by (simp add: v1_size_def msgs_gtpc_v1_def v1_fixed_def split: option.split)

lemma msgs_type: "fst (msgs_gtpc_v1 ty) \<noteq> 0 \<Longrightarrow> fst (msgs_gtpc_v1 ty) = ty"
  by (auto simp: msgs_gtpc_v1_def split: option.splits if_splits)

lemma msgs_parser: "snd (snd (msgs_gtpc_v1 ty)) \<longleftrightarrow> ty \<in> set v1_parsed"
  by (auto simp: msgs_gtpc_v1_def v1_parsed_def v1_fixed_def)

lemma parse_root_effect:
  assumes "ie_ok (ty, pl)" "ty \<in> set v1_parsed" "rd_bytes m (a + (if v1_size ty = 0 then 3 else 1)) (length pl) = pl"
  shows "on_gtpcv1_parse_root junk ty m a (word_of_nat (length pl)) v = (v1_effect junk (ty, pl) v, True)"
proof -
  have len: "length pl < 65536" using assms(1) v1_size_le [of ty] by (simp add: ie_ok_def split: if_splits)
  then have u: "unat (word_of_nat (length pl) :: 16 word) = length pl" by (simp add: unsigned_of_nat take_bit_eq_mod)
  have ne: "length pl \<noteq> 0" using assms(1,2) by (auto simp: ie_ok_def v1_parsed_def split: if_splits)
  have d: "rd_bytes m (a + 4) 6 = drop 1 pl" if "v1_size ty = 0" "length pl = 7"
  proof -
    have "rd_bytes m (a + 3) (1 + 6) = pl" using assms(3) that by simp
    from arg_cong [OF this [unfolded rd_bytes_add], of "drop 1"] show ?thesis by (simp add: add.commute)
  qed
  have hd: "m (Suc a) = pl ! 0" if "v1_size ty \<noteq> 0" using that assms(3) ne nth_rd_bytes [of 0 "length pl" m "a + 1"] by simp
  from assms(2) consider "ty = 1" | "ty = 2" | "ty = 16" | "ty = 17" | "ty = 20" | "ty = 132" | "ty = 133" | "ty = 134" | "ty = 135"
    by (auto simp: v1_parsed_def)
  then show ?thesis
  proof cases
    case 7
    then have "rd_bytes m (a + 3) 4 = pl" if "length pl = 4" using that assms(3) by simp
    then show ?thesis using 7 u ne by (simp add: on_gtpcv1_parse_root_def v1_effect_def Let_def)
  next
    case 8 then show ?thesis using u ne d by (simp add: on_gtpcv1_parse_root_def v1_effect_def Let_def)
  qed (use assms(1,3) u ne hd in \<open>simp_all add: on_gtpcv1_parse_root_def v1_effect_def Let_def ie_ok_def\<close>)
qed

lemma ie_length: "ie_ok e \<Longrightarrow> length (ie_bytes e) < 65536 \<and> 1 < length (ie_bytes e) + (if v1_size (fst e) = 1 then 1 else 0)"
  using v1_size_le [of "fst e"] by (auto simp: ie_bytes_def ie_ok_def split: if_splits)

lemma element_effect:
  assumes "ie_ok e" "rd_bytes m (unat off) (length (ie_bytes e)) = ie_bytes e"
  shows "v1_element junk m off v = Some (v1_effect junk e v, word_of_nat (length (ie_bytes e)))"
proof -
  obtain ty pl where e: "e = (ty, pl)" by fastforce
  have t: "fst (msgs_gtpc_v1 ty) = ty" "ty \<noteq> 0" using assms(1) msgs_type by (auto simp: ie_ok_def e)
  let ?b = "ie_bytes e"
  have lb: "0 < length ?b" by (simp add: ie_bytes_def e)
  have hd: "m (unat off) = ty" using nth_rd_bytes [of 0 "length ?b" m "unat off"] lb unfolding assms(2) by (simp add: ie_bytes_def e split: if_splits)
  have pl: "rd_bytes m (unat off + (if v1_size ty = 0 then 3 else 1)) (length pl) = pl"
  proof (cases "v1_size ty = 0")
    case True
    then have "rd_bytes m (unat off) (3 + length pl) = ([ty] @ be16 (word_of_nat (length pl))) @ pl" using assms(2) by (simp add: ie_bytes_def e numeral_3_eq_3)
    from arg_cong [OF this [unfolded rd_bytes_add], of "drop 3"] show ?thesis using True by simp
  next
    case False
    then have "rd_bytes m (unat off) (1 + length pl) = [ty] @ pl" using assms(2) by (simp add: ie_bytes_def e)
    from arg_cong [OF this [unfolded rd_bytes_add], of "drop 1"] show ?thesis using False by simp
  qed
  obtain f p where msg: "msgs_gtpc_v1 ty = (ty, f, p)" using t(1) by (metis prod.collapse)
  have f: "f = v1_size ty" "p = (ty \<in> set v1_parsed)" using msg msgs_parser [of ty] by (simp_all add: v1_size_def)
  have dl: "(if v1_size ty = 0 then ldn16 m (unat off + 1) else word_of_nat (v1_size ty) - 1) = word_of_nat (length pl)"
    "(if v1_size ty = 0 then ldn16 m (unat off + 1) + 3 else word_of_nat (v1_size ty)) = word_of_nat (length ?b)"
  proof -
    have l: "ldn16 m (unat off + 1) = word_of_nat (length pl)" if "v1_size ty = 0"
      using ldn16_nth [OF assms(2), of 1] that by (simp add: ie_bytes_def e be16_def)
    have "v1_size ty = length pl + 1" if "v1_size ty \<noteq> 0" using that assms(1) by (simp add: ie_ok_def e)
    with l show "(if v1_size ty = 0 then ldn16 m (unat off + 1) else word_of_nat (v1_size ty) - 1) = word_of_nat (length pl)"
      "(if v1_size ty = 0 then ldn16 m (unat off + 1) + 3 else word_of_nat (v1_size ty)) = word_of_nat (length ?b)"
      by (auto simp: ie_bytes_def e)
  qed
  show ?thesis
  proof (cases "ty \<in> set v1_parsed")
    case True
    then show ?thesis using parse_root_effect [OF assms(1) [unfolded e] True pl, of junk v] t
      by (simp only: v1_element_def hd msg prod.case f if_False if_True Let_def dl e)
  next
    case False
    then have "v1_effect junk (ty, pl) v = v" by (simp add: v1_effect_def v1_parsed_def Let_def)
    then show ?thesis using False t by (simp only: v1_element_def hd msg prod.case f if_False if_True Let_def dl e)
  qed
qed

section \<open>The loop over the elements ends\<close>

lemma elements_prefix:
  assumes "\<forall>e \<in> set es. ie_ok e" "rd_bytes m (unat off) (length (concat (map ie_bytes es))) = concat (map ie_bytes es)"
    "unat off + length (concat (map ie_bytes es)) \<le> unat len" "unat len < 65536"
  shows "v1_elements junk m len off v =
    v1_elements junk m len (off + word_of_nat (length (concat (map ie_bytes es)))) (foldl (\<lambda>v e. v1_effect junk e v) v es)"
  using assms
proof (induction es arbitrary: off v)
  case (Cons e es)
  let ?b = "ie_bytes e" and ?R = "concat (map ie_bytes es)"
  have ok: "ie_ok e" using Cons.prems(1) by simp
  have "rd_bytes m (unat off) (length ?b + length ?R) = ?b @ ?R" using Cons.prems(2) by simp
  then have b: "rd_bytes m (unat off) (length ?b) = ?b" and r: "rd_bytes m (unat off + length ?b) (length ?R) = ?R"
    by (simp_all add: rd_bytes_add)
  have lb: "0 < length ?b" by (simp add: ie_bytes_def)
  have "unat off < unat len" using Cons.prems(3) lb by (simp del: length_greater_0_conv)
  then have lt: "ucast off < len" by (simp add: word_less_nat_alt unsigned_ucast_eq take_bit_word_eq_self)
  define w :: "16 word" where "w = word_of_nat (length ?b)"
  have u: "unat w = length ?b" using ie_length [OF ok] by (simp add: w_def unsigned_of_nat take_bit_eq_mod)
  then have o: "unat (off + w) = unat off + length ?b" using Cons.prems(3,4) by (simp add: unat_word_ariths)
  have "v1_elements junk m len (off + w) (v1_effect junk e v) =
      v1_elements junk m len (off + w + word_of_nat (length ?R)) (foldl (\<lambda>v e. v1_effect junk e v) (v1_effect junk e v) es)"
    using Cons.prems r o by (intro Cons.IH) simp_all
  then show ?case using lt element_effect [OF ok b, of junk v, folded w_def]
    by (simp add: v1_elements.simps [of junk m len off] w_def add.assoc)
qed simp

lemma effects_collected:
  assumes "\<forall>e \<in> set es. ie_ok e" "rd_bytes m (unat off) (length (concat (map ie_bytes es))) = concat (map ie_bytes es)"
    "unat len = unat off + length (concat (map ie_bytes es))" "unat len < 65536"
  shows "v1_elements junk m len off v = Some (Inr (foldl (\<lambda>v e. v1_effect junk e v) v es))"
proof -
  let ?w = "word_of_nat (length (concat (map ie_bytes es))) :: 16 word"
  have "unat ?w = length (concat (map ie_bytes es))" using assms(3,4) by (simp add: unsigned_of_nat take_bit_eq_mod)
  then have "unat (off + ?w) = unat len" using assms(3,4) by (simp add: unat_word_ariths)
  then have "\<not> ucast (off + ?w) < len" by (simp add: word_less_nat_alt unsigned_ucast_eq take_bit_word_eq_self)
  then show ?thesis using elements_prefix [OF assms(1,2) _ assms(4)] assms(3) by (simp add: v1_elements.simps [of junk m len "off + ?w"])
qed

text \<open>
  A length of \<open>0xFFFD\<close> makes an element of length 0: the loop stays where it is.
\<close>

lemma element_of_length_0:
  assumes "v1_size (m (unat off)) = 0" "fst (msgs_gtpc_v1 (m (unat off))) \<noteq> 0" "ldn16 m (unat off + 1) = 0xFFFD"
  shows "\<exists>v'. v1_element junk m off v = Some (v', 0)"
proof -
  let ?ty = "m (unat off)"
  obtain p where msg: "msgs_gtpc_v1 ?ty = (?ty, 0, p)" using assms(1) msgs_type [OF assms(2)] by (metis prod.collapse v1_size_def)
  have z: "?ty \<noteq> 0" using assms(2) by (metis fst_conv msg)
  have p: "p \<longleftrightarrow> ?ty \<in> set v1_parsed" using msgs_parser [of ?ty] msg by simp
  have "snd (on_gtpcv1_parse_root junk ?ty m (unat off) 0xFFFD v)" if p
  proof -
    from that p assms(1) consider "?ty = 132" | "?ty = 133" | "?ty = 134" | "?ty = 135" by (auto simp: v1_parsed_def)
    then show ?thesis by cases (simp_all add: on_gtpcv1_parse_root_def Let_def)
  qed
  then have "\<exists>v'. on_gtpcv1_parse_root junk ?ty m (unat off) 0xFFFD v = (v', True)" if p using that by (metis prod.collapse)
  then show ?thesis using z by (cases p) (auto simp: v1_element_def msg assms(3) [simplified])
qed

lemma elements_stuck:
  assumes "ucast off < len" "\<And>v. \<exists>v'. v1_element junk m off v = Some (v', 0)"
  shows "v1_elements junk m len off v = None"
proof (rule ccontr)
  let ?P = "\<lambda>j n l x w y. (j, n, l, x) \<noteq> (junk, m, len, off)"
  assume "v1_elements junk m len off v \<noteq> None"
  then obtain r where r: "v1_elements junk m len off v = Some r" by auto
  have "?P junk m len off v r"
  proof (rule v1_elements.raw_induct [of ?P, OF _ r])
    fix f :: "mem \<Rightarrow> mem \<Rightarrow> 32 word \<Rightarrow> 16 word \<Rightarrow> v1_state \<Rightarrow> (unit + v1_state) option" and j n l x w y
    assume f: "\<And>j n l x w y. f j n l x w = Some y \<Longrightarrow> ?P j n l x w y"
      and y: "(if ucast x < l then case v1_element j n x w of None \<Rightarrow> Some (Inl ()) | Some r \<Rightarrow> f j n l (x + snd r) (fst r) else Some (Inr w)) = Some y"
    show "?P j n l x w y"
    proof
      assume eq: "(j, n, l, x) = (junk, m, len, off)"
      obtain v' where "v1_element junk m off w = Some (v', 0)" using assms(2) by blast
      then have "f junk m len off v' = Some y" using y eq assms(1) by simp
      from f [OF this] show False by simp
    qed
  qed
  then show False by simp
qed

lemma extensions_stuck:
  assumes "ucast off < len" "off \<noteq> 0" "m (unat off) = 0" "m (unat off - 1) \<noteq> 0"
  shows "skip_extensions before m len off = None"
proof (rule ccontr)
  let ?P = "\<lambda>b n l x y. (b, n, l, x) \<noteq> (before, m, len, off)"
  assume "skip_extensions before m len off \<noteq> None"
  then obtain r where r: "skip_extensions before m len off = Some r" by auto
  have "?P before m len off r"
  proof (rule skip_extensions.raw_induct [of ?P, OF _ r])
    fix f :: "byte \<Rightarrow> mem \<Rightarrow> 32 word \<Rightarrow> 16 word \<Rightarrow> 16 word option" and b n l x y
    assume f: "\<And>b n l x y. f b n l x = Some y \<Longrightarrow> ?P b n l x y"
      and y: "(if ucast x < l then let x' = x + push_bit 2 (ucast (n (unat x))) in
          if (if x' = 0 then b else n (unat x' - 1)) = 0 then Some x' else f b n l x' else Some x) = Some y"
    show "?P b n l x y"
    proof
      assume eq: "(b, n, l, x) = (before, m, len, off)"
      then have "f before m len off = Some y" using y assms by simp
      from f [OF this] show False by simp
    qed
  qed
  then show False by simp
qed

section \<open>Structures keep their sizes\<close>

definition v1_sized :: "v1_state \<Rightarrow> bool" where
  "v1_sized v \<longleftrightarrow> session_ok (base v) \<and> length (qos v) = 256"

lemma length_put_at: "k + length d \<le> length img \<Longrightarrow> length (put_at k img d) = length img"
  by (simp add: put_at_def)

lemma ps_sized_have_v1 [simp]: "ps_sized (have_v1 f cs) = ps_sized cs"
  by (simp add: have_v1_def)

lemma have_v1_fields [simp]:
  "c_teid (have_v1 f cs) = c_teid cs" "u_teid (have_v1 f cs) = u_teid cs" "imsi (have_v1 f cs) = imsi cs"
  "msisdn (have_v1 f cs) = msisdn cs" "pco (have_v1 f cs) = pco cs" "paa (have_v1 f cs) = paa cs" "flag (have_v1 f cs) = flag cs"
  by (simp_all add: have_v1_def)

lemma ps_sized_put_at:
  "ps_sized cs \<Longrightarrow> k + length d \<le> 25 \<Longrightarrow> ps_sized (cs\<lparr>c_teid := put_at k (c_teid cs) d\<rparr>)"
  "ps_sized cs \<Longrightarrow> k + length d \<le> 25 \<Longrightarrow> ps_sized (cs\<lparr>u_teid := put_at k (u_teid cs) d\<rparr>)"
  "ps_sized cs \<Longrightarrow> k + length d \<le> 12 \<Longrightarrow> ps_sized (cs\<lparr>imsi := put_at k (imsi cs) d\<rparr>)"
  "ps_sized cs \<Longrightarrow> k + length d \<le> 10 \<Longrightarrow> ps_sized (cs\<lparr>msisdn := put_at k (msisdn cs) d\<rparr>)"
  by (simp_all add: ps_sized_def length_put_at)

lemmas ps_sized_v1 = ps_sized_put_at [of "have_v1 f cs" for f cs, unfolded have_v1_fields ps_sized_have_v1]

lemma ps_sized_pco_loop_v1: "ps_sized (pco_loop_v1 n P len off cs) = ps_sized cs"
  by (induction n arbitrary: off cs) (simp_all add: pco_request_v1_def ps_sized_ipcp split: option.split)

lemma ps_sized_parse_pco_v1:
  assumes "ps_sized cs" "length d < 258" shows "ps_sized (parse_pco_v1 junk d cs)"
  using assms unfolding parse_pco_v1_def Let_def ps_sized_pco_loop_v1 by (simp add: ps_sized_def length_put_at have_v1_def)

lemma v1_sized_on_ps: "v1_sized v \<Longrightarrow> (ps_sized (vps v) \<Longrightarrow> ps_sized (f (vps v))) \<Longrightarrow> v1_sized (on_ps f v)"
  by (simp add: v1_sized_def on_ps_def session_ok_def)

lemma v1_sized_fields [simp]:
  "v1_sized (v\<lparr>cause_v1 := c\<rparr>) = v1_sized v" "v1_sized (v\<lparr>nsapi := c\<rparr>) = v1_sized v" "v1_sized (v\<lparr>qos_len := c\<rparr>) = v1_sized v"
  "v1_sized (v\<lparr>seqno := s\<rparr>) = v1_sized v" "v1_sized (v\<lparr>reqtype_v1 := c\<rparr>) = v1_sized v"
  by (simp_all add: v1_sized_def)

lemma v1_sized_qos: "v1_sized v \<Longrightarrow> length q = 256 \<Longrightarrow> v1_sized (v\<lparr>qos := q\<rparr>)"
  by (simp add: v1_sized_def)

lemma v1_sized_if: "(c \<Longrightarrow> v1_sized x) \<Longrightarrow> (\<not> c \<Longrightarrow> v1_sized y) \<Longrightarrow> v1_sized (if c then x else y)"
  by simp

lemma v1_sized_zero: "v1_sized zero_v1"
  by (simp add: v1_sized_def zero_v1_def session_ok_def zero_session_def ps_sized_zero)

lemma v1_sized_root:
  assumes "v1_sized v" shows "v1_sized (fst (on_gtpcv1_parse_root junk ty m a len v))"
proof -
  have h: "v1_sized (on_ps (have_v1 f) w)" if "v1_sized w" for f w using that by (intro v1_sized_on_ps) simp_all
  show ?thesis unfolding on_gtpcv1_parse_root_def Let_def if_distrib [of fst] fst_conv
    by (intro v1_sized_if) (auto intro!: h assms v1_sized_on_ps v1_sized_qos ps_sized_v1 ps_sized_parse_pco_v1 simp: padded_def)
qed

section \<open>Messages\<close>

text \<open>Where the elements start, in a message without extension headers.\<close>

definition v1_head :: "mem \<Rightarrow> nat" where
  "v1_head m = (if bit (m 0) 1 \<or> bit (m 0) 0 then 12 else 8)"

lemma read_elements:
  assumes "\<not> bit (p_data pckt 0) 2"
  shows "v1_read junk pckt = v1_elements junk (p_data pckt) (p_datalen pckt) (word_of_nat (v1_head (p_data pckt)))
    (zero_v1\<lparr>seqno := (if bit (p_data pckt 0) 1 then ldn16 (p_data pckt) 8 else 0)\<rparr>)"
  using assms by (simp add: v1_read_def v1_head_def Let_def)

lemma message_read:
  assumes "\<not> bit (p_data pckt 0) 2" "\<forall>e \<in> set es. ie_ok e" "unat (p_datalen pckt) < 65536"
    "unat (p_datalen pckt) = v1_head (p_data pckt) + length (concat (map ie_bytes es))"
    "rd_bytes (p_data pckt) (v1_head (p_data pckt)) (length (concat (map ie_bytes es))) = concat (map ie_bytes es)"
  shows "v1_read junk pckt = Some (Inr (foldl (\<lambda>v e. v1_effect junk e v)
    (zero_v1\<lparr>seqno := (if bit (p_data pckt 0) 1 then ldn16 (p_data pckt) 8 else 0)\<rparr>) es))"
proof -
  have "unat (word_of_nat (v1_head (p_data pckt)) :: 16 word) = v1_head (p_data pckt)" by (simp add: v1_head_def)
  then show ?thesis unfolding read_elements [OF assms(1)] using assms(2-5) by (intro effects_collected) simp_all
qed

lemma message_stuck:
  assumes "\<not> bit (p_data pckt 0) 2" "\<forall>e \<in> set es. ie_ok e" "unat (p_datalen pckt) < 65536" "B = concat (map ie_bytes es)"
    "rd_bytes (p_data pckt) (v1_head (p_data pckt)) (length B) = B" "off = v1_head (p_data pckt) + length B" "off < unat (p_datalen pckt)"
    "v1_size (p_data pckt off) = 0" "fst (msgs_gtpc_v1 (p_data pckt off)) \<noteq> 0" "ldn16 (p_data pckt) (off + 1) = 0xFFFD"
  shows "v1_read junk pckt = None"
proof -
  let ?h = "word_of_nat (v1_head (p_data pckt)) :: 16 word" and ?w = "word_of_nat (length B) :: 16 word"
  have h: "unat ?h = v1_head (p_data pckt)" by (simp add: v1_head_def)
  have "unat ?w = length B" using assms(3,6,7) by (simp add: unsigned_of_nat take_bit_eq_mod)
  then have u: "unat (?h + ?w) = off" using h assms(3,6,7) by (simp add: unat_word_ariths)
  then have lt: "ucast (?h + ?w) < p_datalen pckt" using assms(7) by (simp add: word_less_nat_alt unsigned_ucast_eq take_bit_word_eq_self)
  have "v1_elements junk (p_data pckt) (p_datalen pckt) (?h + ?w) v = None" for v
    by (rule elements_stuck [OF lt]) (rule element_of_length_0; use u assms(8-10) in simp)
  then show ?thesis unfolding read_elements [OF assms(1)]
    using elements_prefix [of es "p_data pckt" ?h "p_datalen pckt"] assms(2-7) h by simp
qed

lemma effect_keeps:
  assumes "fst e \<noteq> 1" shows "cause_v1 (v1_effect junk e v) = cause_v1 v" "seqno (v1_effect junk e v) = seqno v"
  using assms by (simp_all add: v1_effect_def Let_def on_ps_def)

lemma effects_keep:
  assumes "\<forall>e \<in> set es. fst e \<noteq> 1"
  shows "cause_v1 (foldl (\<lambda>v e. v1_effect junk e v) v es) = cause_v1 v" "seqno (foldl (\<lambda>v e. v1_effect junk e v) v es) = seqno v"
  using assms by (induction es arbitrary: v) (simp_all add: effect_keeps)

end
