(* ===== verification/V1_Answers.thy ===== *)
theory V1_Answers
  imports V1_Elements
begin

text \<open>
  The answers of GTP-C version 1: every request that can be read gets exactly one answer, of the type that belongs to it,
  with its sequence number, made of well-formed elements that the same reader accepts.
\<close>

section \<open>What reading leaves untouched\<close>

lemma elements_inv:
  assumes "v1_elements junk m len off v = Some (Inr v')" "I v" "\<And>off v r. I v \<Longrightarrow> v1_element junk m off v = Some r \<Longrightarrow> I (fst r)"
  shows "I v'"
proof -
  let ?P = "\<lambda>j n l x w y. j = junk \<longrightarrow> n = m \<longrightarrow> I w \<longrightarrow> y = (Inr v' :: unit + v1_state) \<longrightarrow> I v'"
  have "?P junk m len off v (Inr v')"
  proof (rule v1_elements.raw_induct [of ?P, OF _ assms(1)])
    fix f :: "mem \<Rightarrow> mem \<Rightarrow> 32 word \<Rightarrow> 16 word \<Rightarrow> v1_state \<Rightarrow> (unit + v1_state) option" and j n l x w y
    assume f: "\<And>j n l x w y. f j n l x w = Some y \<Longrightarrow> ?P j n l x w y"
      and y: "(if ucast x < l then case v1_element j n x w of None \<Rightarrow> Some (Inl ()) | Some r \<Rightarrow> f j n l (x + snd r) (fst r) else Some (Inr w)) = Some y"
    show "?P j n l x w y"
    proof (cases "v1_element j n x w")
      case None then show ?thesis using y by (auto split: if_splits)
    next
      case (Some r)
      then show ?thesis using y f [of junk m l "x + snd r" "fst r" y] assms(3) [of w x r] by (auto split: if_splits)
    qed
  qed
  then show ?thesis using assms(2) by simp
qed

text \<open>The state while a message is read: sizes, no record of the database, the sequence number, a length of the QoS profile.\<close>

definition v1_fresh :: "16 word \<Rightarrow> v1_state \<Rightarrow> bool" where
  "v1_fresh sq v \<longleftrightarrow> v1_sized v \<and> no_record (vps v) \<and> base v = zero_session\<lparr>ps := vps v\<rparr> \<and> seqno v = sq \<and> (has_v1 HAVE_V1_QOS v \<longrightarrow> qos_len v \<noteq> 0)"

text \<open>Bits of \<open>flag_v1\<close> from 11 on, other than those the element sets, stay.\<close>

lemma low_flags_v1: "bit (flag_v1 (pco_request_v1 ty cs)) 24 = bit (flag_v1 cs) 24" "no_record (pco_request_v1 ty cs) = no_record cs"
  "bit (flag_v1 (have_v1 (flag_bit n) cs)) 24 = (bit (flag_v1 cs) 24 \<or> n = 24)" "no_record (have_v1 f cs) = no_record cs"
  by (auto simp: pco_request_v1_def have_v1_def bit_flag no_record_def)

lemma ipcp_v1:
  assumes "gtpc_iterate_pco_ipcp_item P a cs = Some cs'"
  shows "bit (flag_v1 cs') 24 = bit (flag_v1 cs) 24" "no_record cs' = no_record cs"
  using assms by (auto simp: gtpc_iterate_pco_ipcp_item_def ipcp_option_def no_record_def bit_flag split: if_splits)

lemma pco_loop_v1_flags:
  "bit (flag_v1 (pco_loop_v1 n P len off cs)) 24 = bit (flag_v1 cs) 24" "no_record (pco_loop_v1 n P len off cs) = no_record cs"
  by (induction n arbitrary: off cs) (auto simp: low_flags_v1 ipcp_v1 split: option.split)

lemma parse_pco_v1_flags:
  "bit (flag_v1 (parse_pco_v1 junk d cs)) 24 = bit (flag_v1 cs) 24" "no_record (parse_pco_v1 junk d cs) = no_record cs"
  by (simp_all add: parse_pco_v1_def Let_def pco_loop_v1_flags low_flags_v1)

lemma has_qos: "has_v1 HAVE_V1_QOS v \<longleftrightarrow> bit (flag_v1 (vps v)) 24"
proof -
  have "flag_v1 (vps v) AND flag_bit 24 \<noteq> 0 \<longleftrightarrow> bit (flag_v1 (vps v)) 24"
  proof
    show "bit (flag_v1 (vps v)) 24" if "flag_v1 (vps v) AND flag_bit 24 \<noteq> 0"
      using that bit_word_eqI [of "flag_v1 (vps v) AND flag_bit 24" 0] by (auto simp: bit_and_iff bit_flag_bit)
    show "flag_v1 (vps v) AND flag_bit 24 \<noteq> 0" if b: "bit (flag_v1 (vps v)) 24"
    proof
      assume "flag_v1 (vps v) AND flag_bit 24 = 0"
      from arg_cong [OF this, of "\<lambda>w. bit w 24"] b show False by (simp add: bit_and_iff bit_flag_bit)
    qed
  qed
  then show ?thesis by (simp add: has_v1_def)
qed

definition v1_tame :: "16 word \<Rightarrow> v1_state \<Rightarrow> bool" where
  "v1_tame sq v \<longleftrightarrow> no_record (vps v) \<and> base v = zero_session\<lparr>ps := vps v\<rparr> \<and> seqno v = sq \<and> (bit (flag_v1 (vps v)) 24 \<longrightarrow> qos_len v \<noteq> 0)"

lemma v1_tame_on_ps:
  "v1_tame sq v \<Longrightarrow> bit (flag_v1 (f (vps v))) 24 = bit (flag_v1 (vps v)) 24 \<Longrightarrow> no_record (f (vps v)) = no_record (vps v) \<Longrightarrow> v1_tame sq (on_ps f v)"
  by (cases "base v") (simp add: v1_tame_def on_ps_def zero_session_def)

lemma v1_tame_fields [simp]: "v1_tame sq (v\<lparr>cause_v1 := c\<rparr>) = v1_tame sq v" "v1_tame sq (v\<lparr>nsapi := c\<rparr>) = v1_tame sq v"
  by (simp_all add: v1_tame_def)

lemma v1_tame_if: "(c \<Longrightarrow> v1_tame sq x) \<Longrightarrow> (\<not> c \<Longrightarrow> v1_tame sq y) \<Longrightarrow> v1_tame sq (if c then x else y)"
  by simp

lemma v1_tame_root:
  assumes "v1_tame sq v" shows "v1_tame sq (fst (on_gtpcv1_parse_root junk ty m a len v))"
proof -
  note t = v1_tame_on_ps
  have q: "v1_tame sq ((on_ps (have_v1 (flag_bit 24)) w)\<lparr>qos := x, qos_len := word_of_nat n\<rparr>)" if "v1_tame sq w" "0 < n" "n < 256" for w x n
  proof -
    have "unat (word_of_nat n :: byte) = n" using that by (intro unat_small) simp
    then have "(word_of_nat n :: byte) \<noteq> 0" using that(2) by auto
    then show ?thesis using that(1) by (cases "base w") (simp add: v1_tame_def on_ps_def low_flags_v1 zero_session_def)
  qed
  show ?thesis unfolding on_gtpcv1_parse_root_def Let_def if_distrib [of fst] fst_conv
    by (intro v1_tame_if) (auto intro!: q [where n = "unat len", simplified] assms t simp: low_flags_v1 parse_pco_v1_flags)
qed

lemma fresh_element:
  assumes "v1_fresh sq v" "v1_element junk m off v = Some r" shows "v1_fresh sq (fst r)"
proof -
  have "fst r = v \<or> (\<exists>ty l. fst r = fst (on_gtpcv1_parse_root junk ty m (unat off) l v))"
    using assms(2) by (auto simp: v1_element_def Let_def split: prod.splits if_splits) (metis fst_conv)+
  then show ?thesis using assms(1) v1_sized_root [of v junk] v1_tame_root [of sq v junk]
    by (auto simp: v1_fresh_def v1_tame_def has_qos)
qed

definition v1_seqno :: "packet \<Rightarrow> 16 word" where
  "v1_seqno req = (if bit (p_data req 0) 1 then ldn16 (p_data req) 8 else 0)"

lemma read_fresh:
  assumes "v1_read junk pckt = Some (Inr v)" shows "v1_fresh (v1_seqno pckt) v"
proof -
  let ?v = "zero_v1\<lparr>seqno := v1_seqno pckt\<rparr>"
  from assms obtain off where "v1_elements junk (p_data pckt) (p_datalen pckt) off ?v = Some (Inr v)"
    unfolding v1_read_def Let_def v1_seqno_def [symmetric] by (auto simp: bind_eq_Some_conv)
  moreover have "v1_fresh (v1_seqno pckt) ?v"
    using v1_sized_zero by (simp add: v1_fresh_def has_v1_def) (simp add: zero_v1_def zero_session_def zero_state_def no_record_def)
  ultimately show ?thesis by (rule elements_inv) (rule fresh_element)
qed

section \<open>Building an answer\<close>

text \<open>A packet under construction, with the octets behind its header.\<close>

definition v1_holds :: "byte \<Rightarrow> byte list \<Rightarrow> gtp_packet \<Rightarrow> bool" where
  "v1_holds ty body p \<longleftrightarrow> g_length p = of_nat ETHER_MAX_LEN \<and> unat (g_offset p) = 8 + length body \<and> 8 + length body < ETHER_MAX_LEN \<and>
     rd_bytes (g_packet p) 8 (length body) = body \<and> ldn16 (g_packet p) 2 = word_of_nat (length body) \<and> g_packet p 0 = 0x32 \<and> g_packet p 1 = ty"

lemma v1_append_holds:
  assumes "v1_holds ty body p" "data \<noteq> []" "8 + length body + length data < ETHER_MAX_LEN" "\<And>k. malloc k"
  obtains p' where "gtpc_v1_append_item malloc t data p = Some p'" "v1_holds ty (body @ data) p'" "g_saddr p' = g_saddr p" "g_caddr p' = g_caddr p"
proof -
  let ?o = "unat (g_offset p)" and ?l = "word_of_nat (length data) :: 16 word" and ?m = "wr_bytes (g_packet p) (unat (g_offset p)) data"
  have h: "g_length p = of_nat ETHER_MAX_LEN" "?o = 8 + length body" "rd_bytes (g_packet p) 8 (length body) = body"
    "ldn16 (g_packet p) 2 = word_of_nat (length body)" "g_packet p 0 = 0x32" "g_packet p 1 = ty"
    using assms(1) by (simp_all add: v1_holds_def)
  define p' where "p' = p\<lparr>g_items := g_items p @ [\<lparr>i_type = ucast t, i_length = ?l, i_offset = g_offset p\<rparr>],
      g_count := g_count p + 1, g_offset := g_offset p + ?l, g_packet := stn16 ?m 2 (ldn16 ?m 2 + ?l)\<rparr>"
  have a: "gtpc_v1_append_item malloc t data p = Some p'"
    using assms(2-4) h(1,2) by (simp add: gtpc_v1_append_item_def p'_def Let_def)
  have len: "unat ?l = length data" using assms(3) by (simp add: unsigned_of_nat take_bit_eq_mod)
  have off: "unat (g_offset p + ?l) = 8 + length (body @ data)" using assms(3) h(2) by (simp add: unat_word_ariths len)
  have l: "ldn16 ?m 2 = ldn16 (g_packet p) 2" using h(2) by (intro ldn16_cong) simp_all
  have "rd_bytes (stn16 ?m 2 w) 8 (length body + length data) = body @ data" for w
    using h(2,3) by (simp add: rd_bytes_stn16 rd_bytes_add rd_wr_bytes_disjoint)
  then have b: "v1_holds ty (body @ data) p'"
    using assms(3) h off l by (simp add: v1_holds_def p'_def stn16_out)
  have "g_saddr p' = g_saddr p" "g_caddr p' = g_caddr p" by (simp_all add: p'_def)
  with a b show ?thesis by (rule that)
qed

lemma v1_append_all_holds:
  assumes "v1_holds ty body p" "\<forall>d \<in> set ds. d \<noteq> []" "8 + length body + length (concat ds) < ETHER_MAX_LEN" "\<And>k. malloc k"
  shows "\<exists>q. v1_append_all malloc ds p = Some q \<and> v1_holds ty (body @ concat ds) q \<and> g_saddr q = g_saddr p \<and> g_caddr q = g_caddr p"
  using assms(1-3)
proof (induction ds arbitrary: body p)
  case (Cons d ds)
  obtain p' where p': "gtpc_v1_append_item malloc 0 d p = Some p'" "v1_holds ty (body @ d) p'" "g_saddr p' = g_saddr p" "g_caddr p' = g_caddr p"
    using v1_append_holds [OF Cons.prems(1), of d malloc 0] Cons.prems(2,3) assms(4) by auto
  from Cons.IH [OF p'(2)] Cons.prems(2,3) p' show ?case by auto
qed simp

lemma v1_alloc_holds:
  assumes "gtpc_v1_alloc_packet malloc junk ty = Some p" shows "v1_holds ty [] p"
  using assms by (auto simp: gtpc_v1_alloc_packet_def v1_holds_def Let_def split: if_splits intro!: trans [OF ldn16_cong ldn16_stn16])

definition v1_reply_to :: "packet \<Rightarrow> byte list \<Rightarrow> byte \<Rightarrow> byte list \<Rightarrow> packet \<Rightarrow> bool" where
  "v1_reply_to req teid ty body c \<longleftrightarrow>
     p_saddr c = p_caddr req \<and> p_caddr c = p_saddr req \<and> p_data c 0 = 0x32 \<and> p_data c 1 = ty \<and> rd_bytes (p_data c) 4 4 = teid \<and>
     unat (p_datalen c) = 8 + length body \<and> unat (ldn16 (p_data c) 2) = length body \<and> rd_bytes (p_data c) 8 (length body) = body"

lemma v1_send_reply:
  assumes "memory_ok E" "\<forall>d \<in> set items. d \<noteq> []" "8 + length (concat items) < ETHER_MAX_LEN" "g_saddr rp = p_saddr req" "g_caddr rp = p_caddr req"
  shows "\<exists>c. v1_send E rp v items teid (d, nd) = Some ((d, pgw_enq EGRESS c nd), True) \<and> v1_reply_to req (be32 teid) (reqtype_v1 v) (concat items) c"
proof -
  have mem: "\<And>k. e_malloc_res E k" "e_convert E" using assms(1) by (simp_all add: memory_ok_def)
  obtain l0 where l0: "gtpc_v1_alloc_packet (e_malloc_res E) (e_junk E) (reqtype_v1 v) = Some l0" using mem(1) [of 0] by (simp add: gtpc_v1_alloc_packet_def Let_def)
  let ?l = "gtpc_copy_packet_addr l0 rp"
  have "v1_holds (reqtype_v1 v) [] ?l" using v1_alloc_holds [OF l0] by (simp add: v1_holds_def gtpc_copy_packet_addr_def)
  from v1_append_all_holds [OF this assms(2), of "e_malloc_res E"] assms(3) mem(1)
  obtain l where l: "v1_append_all (e_malloc_res E) items ?l = Some l" "v1_holds (reqtype_v1 v) (concat items) l"
    "g_saddr l = g_saddr rp" "g_caddr l = g_caddr rp" by (auto simp: gtpc_copy_packet_addr_def)
  let ?n = "length (concat items)"
  have h: "unat (g_offset l) = 8 + ?n" "rd_bytes (g_packet l) 8 ?n = concat items" "ldn16 (g_packet l) 2 = word_of_nat ?n"
    "g_packet l 0 = 0x32" "g_packet l 1 = reqtype_v1 v" using l(2) by (simp_all add: v1_holds_def)
  define m where "m = (\<lambda>i. if i < 8 + ?n then wr_bytes (g_packet l) 4 (be32 teid) i else e_junk E i)"
  define c where "c = \<lparr>p_data = m, p_datalen = ucast (g_offset l), p_saddr = p_caddr req, p_caddr = p_saddr req\<rparr>"
  have send: "v1_send E rp v items teid (d, nd) = Some ((d, pgw_enq EGRESS c nd), True)"
    using l0 l(1,3,4) mem(2) assms(4,5) h(1)
    by (simp add: v1_send_def gtpc_convert_to_packet_def pgw_swap_address_def c_def m_def cong: if_cong)
  have out: "m x = g_packet l x" if "x < 4 \<or> 8 \<le> x" "x < 8 + ?n" for x using that by (auto simp: m_def)
  have "rd_bytes m 8 ?n = concat items" using out h(2) by (auto intro: trans [OF rd_bytes_cong])
  moreover have "ldn16 m 2 = word_of_nat ?n" using h(3) out by (auto intro: trans [OF ldn16_cong])
  moreover have "unat (word_of_nat ?n :: 16 word) = ?n" using assms(3) by (intro unat_small) simp
  moreover have "rd_bytes m 4 4 = be32 teid"
    by (rule trans [OF rd_bytes_cong rd_wr_bytes_same [of "be32 teid" 4 "g_packet l" 4]]) (simp_all add: m_def)
  ultimately have "v1_reply_to req (be32 teid) (reqtype_v1 v) (concat items) c"
    using h out by (simp add: v1_reply_to_def c_def ucast_16_32)
  with send show ?thesis by blast
qed

section \<open>Answers are made of elements\<close>

definition pco_ies :: "v1_state \<Rightarrow> (byte \<times> byte list) list" where
  "pco_ies v =
     (let buf = pco_dns_v1 v @ pco_mtu_v1 v @ pco_ipcp_v1 v; head = (if pco_mtu_v1 v \<noteq> [] \<or> pco_ipcp_v1 v \<noteq> [] then 0x80 else 0) in
      if has_v1 HAVE_V1_PCO v \<and> has_v1 (PCO_ALL OR HAVE_PCO_IPCP_P_DNS OR HAVE_PCO_IPCP_S_DNS) v \<and> buf \<noteq> [] then [(132, head # buf)] else [])"

definition qos_ies :: "v1_state \<Rightarrow> (byte \<times> byte list) list" where
  "qos_ies v = (if has_v1 HAVE_V1_QOS v then [(135, take (unat (qos_len v)) (qos v))] else [])"

definition create_pdp_ies :: "'d env \<Rightarrow> v1_state \<Rightarrow> (byte \<times> byte list) list" where
  "create_pdp_ies E v =
     [(1, [0x80]), (8, [0]), (14, [1]), (16, be32 (pgw_teid (base v))), (17, be32 (pgw_teid (base v)))] @
     (if has_v1 HAVE_V1_NSAPI v then [(20, [(e_junk E 1 AND 0xF0) OR (nsapi v AND 0xF)])] else []) @
     [(127, be32 0), (128, [0xF1, 0x21, (ue_ipv_n (base v) ! 0) OR 0x0a] @ take 3 (drop 1 (ue_ipv_n (base v))))] @ pco_ies v @
     [(133, pgw_c_ipv_n (base v)), (133, pgw_u_ipv_n (base v)), (133, pgw_c_ipv_n (base v)), (133, pgw_u_ipv_n (base v))] @ qos_ies v"

definition update_pdp_ies :: "v1_state \<Rightarrow> (byte \<times> byte list) list" where
  "update_pdp_ies v =
     [(1, [0x80]), (14, [1]), (16, be32 (pgw_teid (base v))), (17, be32 (pgw_teid (base v))), (127, be32 0)] @ pco_ies v @
     [(133, pgw_c_ipv_n (base v)), (133, pgw_u_ipv_n (base v))] @ qos_ies v"

lemma pco_vals_v1: "length (pco_dns_v1 v) \<in> {0, 14, 38}" "length (pco_mtu_v1 v) \<in> {0, 5}" "length (pco_ipcp_v1 v) \<in> {0, 19}"
  by (simp_all add: pco_dns_v1_def pco_mtu_v1_def pco_ipcp_v1_def PCO_DNS_IPV4_VAL_def PCO_DNS_IPV6_VAL_def
      PCO_MTU_NONIP_VAL_def PCO_MTU_IPV4_VAL_def PCO_DNS_IPCP_IPV4_VAL_def)

text \<open>What an answer needs of the state.\<close>

definition v1_ready :: "v1_state \<Rightarrow> bool" where
  "v1_ready v \<longleftrightarrow> v1_sized v \<and> (has_v1 HAVE_V1_QOS v \<longrightarrow> qos_len v \<noteq> 0)"

text \<open>The octets appended one after the other, and the elements they make up.\<close>

definition ies_of :: "16 word \<Rightarrow> byte list list \<Rightarrow> (byte \<times> byte list) list \<Rightarrow> bool" where
  "ies_of sq items es \<longleftrightarrow> concat items = be16 sq @ [0, 0] @ concat (map ie_bytes es) \<and> (\<forall>d \<in> set items. d \<noteq> []) \<and>
     (\<forall>e \<in> set es. ie_ok e) \<and> length (concat items) < 1000"

lemma be16_ne [simp]: "be16 w \<noteq> []" "[] \<noteq> be16 w"
  by (simp_all add: be16_def)

lemma ie_known:
  "ie_ok (1, [c])" "ie_ok (8, [c])" "ie_ok (14, [c])" "ie_ok (20, [c])" "ie_ok (16, be32 t)" "ie_ok (17, be32 t)" "ie_ok (127, be32 t)"
  "length a = 4 \<Longrightarrow> ie_ok (133, a)" "length b = 6 \<Longrightarrow> ie_ok (128, b)" "q \<noteq> [] \<Longrightarrow> length q < 65533 \<Longrightarrow> ie_ok (132, q)"
  "q \<noteq> [] \<Longrightarrow> length q < 65533 \<Longrightarrow> ie_ok (135, q)"
  by (auto simp: ie_ok_def msgs_gtpc_v1_def v1_fixed_def v1_parsed_def)

lemma pco_part:
  "concat (v1_pco v) = concat (map ie_bytes (pco_ies v))" "\<forall>d \<in> set (v1_pco v). d \<noteq> []" "\<forall>e \<in> set (pco_ies v). ie_ok e"
  "length (concat (v1_pco v)) \<le> 66"
proof -
  let ?buf = "pco_dns_v1 v @ pco_mtu_v1 v @ pco_ipcp_v1 v"
  have l: "?buf = [] \<or> 1 < length ?buf" "length ?buf \<le> 62" using pco_vals_v1 [of v] by auto
  then have z: "1 < length ?buf \<longleftrightarrow> ?buf \<noteq> []" by auto
  have eq: "v1_pco v = map ie_bytes (pco_ies v)"
    using l(2) z unfolding v1_pco_def setup_pco_v1_def pco_ies_def Let_def by (auto simp: ie_bytes_def)
  show "concat (v1_pco v) = concat (map ie_bytes (pco_ies v))" by (simp add: eq)
  show "\<forall>d \<in> set (v1_pco v). d \<noteq> []" by (auto simp: eq ie_bytes_def)
  show "\<forall>e \<in> set (pco_ies v). ie_ok e" "length (concat (v1_pco v)) \<le> 66" using l(2) by (auto simp: eq pco_ies_def Let_def ie_bytes_def intro: ie_known)
qed

lemma qos_part:
  assumes "v1_ready v"
  shows "concat (v1_qos v) = concat (map ie_bytes (qos_ies v))" "\<forall>d \<in> set (v1_qos v). d \<noteq> []" "\<forall>e \<in> set (qos_ies v). ie_ok e"
    "length (concat (v1_qos v)) \<le> 258"
proof -
  have q: "length (qos v) = 256" "has_v1 HAVE_V1_QOS v \<Longrightarrow> qos_len v \<noteq> 0" using assms by (auto simp: v1_ready_def v1_sized_def)
  have u: "unat (qos_len v) < 256" using unsigned_less [of "qos_len v", where ?'a = nat] by simp
  have w: "word_of_nat (unat (qos_len v)) = (ucast (qos_len v) :: 16 word)" by simp
  have ne: "take (unat (qos_len v)) (qos v) \<noteq> []" if "has_v1 HAVE_V1_QOS v" using q(1) q(2) [OF that] by (auto simp: unat_eq_0)
  show "concat (v1_qos v) = concat (map ie_bytes (qos_ies v))" using q(1) u w by (simp add: v1_qos_def qos_ies_def ie_bytes_def min_def)
  show "\<forall>d \<in> set (v1_qos v). d \<noteq> []" "\<forall>e \<in> set (qos_ies v). ie_ok e" using ne u by (auto simp: v1_qos_def qos_ies_def intro!: ie_known)
  show "length (concat (v1_qos v)) \<le> 258" using u by (simp add: v1_qos_def min_le_iff_disj)
qed

lemma start_ies: "ies_of (seqno v) (v1_start c v) [(1, [c])]"
  by (simp add: ies_of_def v1_start_def ie_bytes_def ie_known)

lemma delete_ies: "ies_of (seqno v) (v1_start c v @ v1_pco v) ((1, [c]) # pco_ies v)"
  using pco_part [of v] by (auto simp: ies_of_def v1_start_def ie_bytes_def ie_known)

lemma create_ies:
  assumes "v1_ready v" shows "ies_of (seqno v) (create_pdp_items E v) (create_pdp_ies E v)"
proof -
  have l: "length (ue_ipv_n (base v)) = 4" "length (pgw_c_ipv_n (base v)) = 4" "length (pgw_u_ipv_n (base v)) = 4"
    using assms by (simp_all add: v1_ready_def v1_sized_def session_ok_def)
  note p = pco_part [of v] and q = qos_part [OF assms]
  show ?thesis unfolding ies_of_def
  proof (intro conjI)
    show "concat (create_pdp_items E v) = be16 (seqno v) @ [0, 0] @ concat (map ie_bytes (create_pdp_ies E v))"
      using l p(1) q(1) by (simp add: create_pdp_items_def create_pdp_ies_def v1_start_def ie_bytes_def gsn_address_def)
    show "\<forall>d \<in> set (create_pdp_items E v). d \<noteq> []" using p(2) q(2) by (auto simp: create_pdp_items_def v1_start_def gsn_address_def)
    show "\<forall>e \<in> set (create_pdp_ies E v). ie_ok e" using l p(3) q(3) by (auto simp: create_pdp_ies_def ie_known)
    show "length (concat (create_pdp_items E v)) < 1000" using l p(4) q(4) by (simp add: create_pdp_items_def v1_start_def gsn_address_def)
  qed
qed

lemma update_ies:
  assumes "v1_ready v" shows "ies_of (seqno v) (update_pdp_items v) (update_pdp_ies v)"
proof -
  have l: "length (pgw_c_ipv_n (base v)) = 4" "length (pgw_u_ipv_n (base v)) = 4"
    using assms by (simp_all add: v1_ready_def v1_sized_def session_ok_def)
  note p = pco_part [of v] and q = qos_part [OF assms]
  show ?thesis unfolding ies_of_def
  proof (intro conjI)
    show "concat (update_pdp_items v) = be16 (seqno v) @ [0, 0] @ concat (map ie_bytes (update_pdp_ies v))"
      using l p(1) q(1) by (simp add: update_pdp_items_def update_pdp_ies_def v1_start_def ie_bytes_def gsn_address_def)
    show "\<forall>d \<in> set (update_pdp_items v). d \<noteq> []" using p(2) q(2) by (auto simp: update_pdp_items_def v1_start_def gsn_address_def)
    show "\<forall>e \<in> set (update_pdp_ies v). ie_ok e" using l p(3) q(3) by (auto simp: update_pdp_ies_def ie_known)
    show "length (concat (update_pdp_items v)) < 1000" using l p(4) q(4) by (simp add: update_pdp_items_def v1_start_def gsn_address_def)
  qed
qed

section \<open>Every request that can be read is answered once\<close>

definition v1_replies :: "packet \<Rightarrow> packet \<Rightarrow> bool" where
  "v1_replies req c \<longleftrightarrow> (\<exists>teid k es. v1_reply_to req (be32 teid) (p_data req 1 + 1) (be16 (v1_seqno req) @ [0, 0] @ concat (map ie_bytes ((1, [k]) # es))) c \<and>
     k \<in> {0x80, 0xC7} \<and> (\<forall>e \<in> set es. ie_ok e) \<and>
     (\<forall>junk. \<exists>v. v1_read junk c = Some (Inr v) \<and> cause_v1 v = k \<and> seqno v = v1_seqno req))"

definition v1_wants :: "'d env \<Rightarrow> packet \<Rightarrow> bool" where
  "v1_wants E req \<longleftrightarrow> (\<exists>v. v1_read (e_junk E) req = Some (Inr v)) \<and> v1_response (p_data req 1) \<noteq> None \<and> e_malloc_req E 0"

text \<open>An answer is a message that the reader accepts.\<close>

lemma reply_readable:
  assumes "v1_reply_to req teid ty (be16 sq @ [0, 0] @ concat (map ie_bytes es)) c" "\<forall>e \<in> set es. ie_ok e" "length (concat (map ie_bytes es)) < 1000"
  shows "v1_read junk c = Some (Inr (foldl (\<lambda>v e. v1_effect junk e v) (zero_v1\<lparr>seqno := sq\<rparr>) es))"
proof -
  let ?B = "concat (map ie_bytes es)"
  have r: "p_data c 0 = 0x32" "unat (p_datalen c) = 12 + length ?B" "rd_bytes (p_data c) 8 (2 + (2 + length ?B)) = be16 sq @ [0, 0] @ ?B"
    using assms(1) by (simp_all add: v1_reply_to_def)
  have s: "rd_bytes (p_data c) 8 2 = be16 sq" and b: "rd_bytes (p_data c) 12 (length ?B) = ?B"
    using arg_cong [OF r(3) [unfolded rd_bytes_add], of "take 2"] arg_cong [OF r(3) [unfolded rd_bytes_add], of "drop 4"] by simp_all
  have "ldn16 (p_data c) 8 = sq" using ldn16_nth [OF s, of 0] by (simp add: be16_def)
  moreover have f: "bit (0x32 :: byte) 1" "\<not> bit (0x32 :: byte) 2" by (simp_all add: bit_numeral_rec)
  moreover have "v1_head (p_data c) = 12" using f by (simp add: v1_head_def r(1))
  ultimately show ?thesis using message_read [of c es junk] assms(2,3) r(1,2) b by simp
qed

lemma v1_sendI:
  assumes "memory_ok E" "ies_of (seqno v) items ((1, [k]) # es)" "\<forall>e \<in> set es. fst e \<noteq> 1" "k \<in> {0x80, 0xC7}" "seqno v = v1_seqno req" "reqtype_v1 v = p_data req 1 + 1"
    "g_saddr rp = p_saddr req" "g_caddr rp = p_caddr req"
  shows "answered_by v1_replies req nd (v1_send E rp v items teid (d, nd))"
proof -
  have l: "length (concat items) < 1000" using assms(2) unfolding ies_of_def by blast
  then have "8 + length (concat items) < ETHER_MAX_LEN" by linarith
  moreover have "\<forall>d \<in> set items. d \<noteq> []" and c: "concat items = be16 (v1_seqno req) @ [0, 0] @ concat (map ie_bytes ((1, [k]) # es))"
    and es: "\<forall>e \<in> set ((1, [k]) # es). ie_ok e"
    using assms(2,5) by (simp_all add: ies_of_def)
  ultimately obtain c where
    r: "v1_send E rp v items teid (d, nd) = Some ((d, pgw_enq EGRESS c nd), True)" "v1_reply_to req (be32 teid) (p_data req 1 + 1) (concat items) c"
    using v1_send_reply [OF assms(1) _ _ assms(7,8), of items v teid d nd] assms(6) by auto
  have "length (concat (map ie_bytes ((1, [k]) # es))) < 1000" using l unfolding c by simp
  note rd = reply_readable [OF r(2) [unfolded c] es this]
  have "\<exists>v. v1_read junk c = Some (Inr v) \<and> cause_v1 v = k \<and> seqno v = v1_seqno req" for junk
    unfolding rd foldl_Cons using assms(3) by (simp add: effects_keep) (simp add: v1_effect_def on_ps_def)
  then show ?thesis using assms(4) es r unfolding answered_by_def v1_replies_def c by (auto intro!: exI [of _ c])
qed

lemma v1_answers:
  assumes "memory_ok E" "v1_ready v" "seqno v = v1_seqno req" "reqtype_v1 v = p_data req 1 + 1" "g_saddr rp = p_saddr req" "g_caddr rp = p_caddr req"
  shows "answered_by v1_replies req nd (v1_denied E rp v (d, nd))" "answered_by v1_replies req nd (accept_create_pdp_ctx E rp v (d, nd))"
    "answered_by v1_replies req nd (accept_update_pdp_ctx E rp v (d, nd))" "answered_by v1_replies req nd (accept_delete_pdp_ctx E rp v (d, nd))"
proof -
  note s = v1_sendI [OF assms(1) _ _ _ assms(3-6)]
  have p: "\<forall>e \<in> set (pco_ies v). fst e \<noteq> 1" "\<forall>e \<in> set (qos_ies v). fst e \<noteq> 1" by (simp_all add: pco_ies_def qos_ies_def Let_def)
  show "answered_by v1_replies req nd (v1_denied E rp v (d, nd))" unfolding v1_denied_def by (rule s [OF start_ies]) simp_all
  show "answered_by v1_replies req nd (accept_create_pdp_ctx E rp v (d, nd))" unfolding accept_create_pdp_ctx_def
    by (rule s [OF create_ies [OF assms(2), of E, unfolded create_pdp_ies_def append_Cons]]) (use p in auto)
  show "answered_by v1_replies req nd (accept_update_pdp_ctx E rp v (d, nd))" unfolding accept_update_pdp_ctx_def
    by (rule s [OF update_ies [OF assms(2), unfolded update_pdp_ies_def append_Cons]]) (use p in auto)
  show "answered_by v1_replies req nd (accept_delete_pdp_ctx E rp v (d, nd))" unfolding accept_delete_pdp_ctx_def by (rule s [OF delete_ies]) (use p in simp_all)
qed

text \<open>The database is asked, and the state changes only in the session.\<close>

definition v1_same :: "v1_state \<Rightarrow> v1_state \<Rightarrow> bool" where
  "v1_same v v' \<longleftrightarrow> (v1_ready v \<longrightarrow> v1_ready v') \<and> seqno v' = seqno v \<and> reqtype_v1 v' = reqtype_v1 v"

lemma records_flag_v1: "flag_v1 (ps (records E cs rows)) = flag_v1 (ps cs)"
  unfolding records_def by (induction rows arbitrary: cs) (simp_all add: on_tunnel_record_def Let_def have_flag_def)

lemma v1_lookup_same:
  assumes "env_ok E" obtains v' where "v1_lookup E s n d v = Some v'" "v1_same v v'"
proof -
  obtain rows where r: "e_rows E d s n = Some rows" by (rule rows_some [OF assms])
  have "aton_ok (e_aton E)" using assms by (simp add: env_ok_def)
  then have "v1_same v (v\<lparr>base := records E (base v) rows\<rparr>)"
    by (auto simp: v1_same_def v1_ready_def v1_sized_def has_v1_def records_flag_v1 intro: session_ok_records)
  with r show ?thesis by (intro that [of "v\<lparr>base := records E (base v) rows\<rparr>"]) (simp_all add: v1_lookup_def)
qed

lemma v1_same_teid: "v1_same v v' \<Longrightarrow> v1_same v (v'\<lparr>base := (base v')\<lparr>sgw_c_teid := t\<rparr>\<rparr>)"
  by (simp add: v1_same_def v1_ready_def v1_sized_def has_v1_def)

lemma v1_contexts_same:
  assumes "env_ok E"
  shows "\<exists>d' v' ok. on_create_pdp_ctx E d v = Some (d', v', ok) \<and> v1_same v v'"
    "\<exists>d' v' ok. on_update_pdp_ctx E d v = Some (d', v', ok) \<and> v1_same v v'"
    "\<exists>d' v' ok. on_delete_pdp_ctx E d v = Some (d', v', ok) \<and> v1_same v v'"
proof -
  obtain v1 where "v1_lookup E IMSI_LOOKUP (v1_imsi E v) d v = Some v1" "v1_same v v1" by (rule v1_lookup_same [OF assms])
  then show "\<exists>d' v' ok. on_create_pdp_ctx E d v = Some (d', v', ok) \<and> v1_same v v'"
    by (auto simp: on_create_pdp_ctx_def split: prod.split)
  obtain v2 where "v1_lookup E TEID_ACTIVE_LOOKUP (ucast (bswap32 (gtph_teid (base v)))) d v = Some v2" "v1_same v v2" by (rule v1_lookup_same [OF assms])
  then show "\<exists>d' v' ok. on_update_pdp_ctx E d v = Some (d', v', ok) \<and> v1_same v v'"
    using v1_same_teid [of v v2] by (auto simp: on_update_pdp_ctx_def Let_def split: prod.split)
  obtain v3 where "v1_lookup E TEID_LOOKUP (ucast (gtph_teid (base v))) d v = Some v3" "v1_same v v3" by (rule v1_lookup_same [OF assms])
  then show "\<exists>d' v' ok. on_delete_pdp_ctx E d v = Some (d', v', ok) \<and> v1_same v v'"
    by (auto simp: on_delete_pdp_ctx_def split: prod.split)
qed

lemma v1_any_answered:
  assumes "env_ok E" "v1_wants E req"
  shows "answered_by v1_replies req nd (event_gtpc_v1_any_req E req (d, nd))"
proof -
  have mem: "memory_ok E" using assms(1) by (simp add: env_ok_def)
  obtain v0 res where r: "v1_read (e_junk E) req = Some (Inr v0)" "v1_response (p_data req 1) = Some res" "e_malloc_req E 0"
    using assms(2) by (auto simp: v1_wants_def)
  have res: "res = p_data req 1 + 1" using r(2) by (auto simp: v1_response_def split: if_splits)
  obtain p0 where p0: "gtpc_alloc_packet (e_malloc_req E) (e_junk E) 0 = Some p0" using alloc_packet_some [of "e_malloc_req E"] r(3) by blast
  define p where "p = p0\<lparr>g_saddr := p_saddr req, g_caddr := p_caddr req\<rparr>"
  define v where "v = v0\<lparr>base := (base v0)\<lparr>gtph_teid := ld32 (p_data req) 4\<rparr>, reqtype_v1 := res\<rparr>"
  have rd: "v1_ready v" "seqno v = v1_seqno req" "reqtype_v1 v = p_data req 1 + 1"
    using read_fresh [OF r(1)] res by (simp_all add: v_def v1_fresh_def v1_ready_def v1_sized_def session_ok_def has_v1_def)
  have ans: "answered_by v1_replies req nd (v1_denied E p v' (d', nd))" "answered_by v1_replies req nd (accept_create_pdp_ctx E p v' (d', nd))"
    "answered_by v1_replies req nd (accept_update_pdp_ctx E p v' (d', nd))" "answered_by v1_replies req nd (accept_delete_pdp_ctx E p v' (d', nd))"
    if "v1_same v v'" for v' d'
    by (rule v1_answers [OF mem]; use that rd in \<open>simp add: v1_same_def p_def\<close>)+
  have den: "answered_by v1_replies req nd (v1_denied E p v (d, nd))" by (rule ans(1)) (simp add: v1_same_def)
  have "answered_by v1_replies req nd (v1_try E p (on_create_pdp_ctx E) (accept_create_pdp_ctx E p) v (d, nd))"
    "answered_by v1_replies req nd (v1_try E p (on_update_pdp_ctx E) (accept_update_pdp_ctx E p) v (d, nd))"
    "answered_by v1_replies req nd (v1_try E p (on_delete_pdp_ctx E) (accept_delete_pdp_ctx E p) v (d, nd))"
    using v1_contexts_same [OF assms(1), of d v] ans by (auto simp: v1_try_def)
  then show ?thesis using den r(1,2) p0 by (simp add: event_gtpc_v1_any_req_def Let_def flip: p_def v_def)
qed

lemma v1_any_rejected:
  assumes "v1_read (e_junk E) req \<noteq> None" "\<not> v1_wants E req"
  shows "event_gtpc_v1_any_req E req st = Some (st, False)"
proof -
  obtain r where r: "v1_read (e_junk E) req = Some r" using assms(1) by auto
  have "gtpc_alloc_packet (e_malloc_req E) (e_junk E) 0 = None" if "\<not> e_malloc_req E 0" using that by (simp add: gtpc_alloc_packet_def)
  then show ?thesis using assms(2) r by (auto simp: event_gtpc_v1_any_req_def v1_wants_def Let_def split: sum.split option.split)
qed

interpretation v1_req: answering event_gtpc_v1_any_req "\<lambda>E req. v1_read (e_junk E) req \<noteq> None" v1_wants v1_replies
  by unfold_locales (simp_all only: v1_any_answered v1_any_rejected simp_thms option.inject prod.inject not_False_eq_True, blast)

end
