(* ===== verification/Other_Dispatch.thy ===== *)
theory Other_Dispatch
  imports Gtpc_Bearer V1_Answers
begin

text \<open>
  The node for all other GTP-C requests (\<open>ctrlplane/src/pgw/event/event_gtpc_other.c\<close>): the dispatch by version and type,
  and what its handlers guarantee together.
\<close>

section \<open>Dispatch\<close>

definition on_gtpc_other :: "'d env \<Rightarrow> packet \<Rightarrow> 'd \<times> node \<Rightarrow> (('d \<times> node) \<times> bool) option" where
  "on_gtpc_other E pckt st =
     (if drop_bit 5 (p_data pckt 0) = 2 then
        if p_data pckt 1 = 36 then event_gtpc_delete_session_req E pckt st
        else if p_data pckt 1 = 99 then event_gtpc_delete_bearer_req E pckt st
        else if p_data pckt 1 = 164 then event_gtpc_resume_notification_req E pckt st
        else if p_data pckt 1 = 162 then event_gtpc_suspend_notification_req E pckt st
        else Some (st, True)
      else event_gtpc_v1_any_req E pckt st)"

definition event_gtpc_other_req :: "'d env \<Rightarrow> 'd \<times> node \<Rightarrow> (('d \<times> node) \<times> bool) option" where
  "event_gtpc_other_req E st =
     (case pgw_deq_burst INGRESS 32 (snd st) of (pkts, nd) \<Rightarrow>
        if pkts \<noteq> [] then map_option (\<lambda>s. (s, True)) (handle_all (on_gtpc_other E) pkts (fst st, nd))
        else Some ((fst st, nd), False))"

section \<open>The PCO of a request\<close>

text \<open>A PCO that was read is the front of its structure, as long as its header says.\<close>

definition pco_kept :: "parse_state \<Rightarrow> bool" where
  "pco_kept cs \<longleftrightarrow> (bit (flag cs) 19 \<longrightarrow> (\<exists>d. tlv d \<and> d ! 0 = 78 \<and> length d < 258 \<and> take (length d) (pco cs) = d))"

lemma pco_kept_fields [simp]:
  "pco_kept (cs\<lparr>msisdn := x\<rparr>) = pco_kept cs" "pco_kept (cs\<lparr>c_teid := x\<rparr>) = pco_kept cs" "pco_kept (cs\<lparr>u_teid := x\<rparr>) = pco_kept cs"
  "pco_kept (cs\<lparr>ambr := x\<rparr>) = pco_kept cs" "pco_kept (cs\<lparr>bqos := x\<rparr>) = pco_kept cs" "pco_kept (cs\<lparr>imsi := x\<rparr>) = pco_kept cs"
  "pco_kept (cs\<lparr>recovery := x\<rparr>) = pco_kept cs" "pco_kept (cs\<lparr>cause := x\<rparr>) = pco_kept cs" "pco_kept (cs\<lparr>mei := x\<rparr>) = pco_kept cs"
  "pco_kept (cs\<lparr>charg := x\<rparr>) = pco_kept cs" "pco_kept (cs\<lparr>ebi_r := x\<rparr>) = pco_kept cs" "pco_kept (cs\<lparr>paa := x\<rparr>) = pco_kept cs"
  "pco_kept (cs\<lparr>apn_r := x\<rparr>) = pco_kept cs" "pco_kept (cs\<lparr>bqos_r := x\<rparr>) = pco_kept cs" "pco_kept (cs\<lparr>ebi_b := x\<rparr>) = pco_kept cs"
  "pco_kept (cs\<lparr>ambr_r := x\<rparr>) = pco_kept cs" "pco_kept (cs\<lparr>pdn := x\<rparr>) = pco_kept cs" "pco_kept (cs\<lparr>rat := x\<rparr>) = pco_kept cs"
  by (simp_all add: pco_kept_def)

lemma pco_kept_have: "n \<noteq> 19 \<Longrightarrow> pco_kept (have_flag (flag_bit n) cs) = pco_kept cs"
  by (simp add: pco_kept_def have_flag_def bit_flag)

lemma pco_kept_if: "(c \<Longrightarrow> pco_kept x) \<Longrightarrow> (\<not> c \<Longrightarrow> pco_kept y) \<Longrightarrow> pco_kept (if c then x else y)"
  by simp

lemma pco_kept_low:
  assumes "low_flags cs cs'" shows "pco_kept cs' = pco_kept cs"
proof -
  obtain f g where "cs' = cs\<lparr>flag := f, flag_v1 := g\<rparr>" using assms unfolding low_flags_def by blast
  then have "pco cs' = pco cs" by simp
  moreover have "bit (flag cs') 19 = bit (flag cs) 19" using assms by (simp add: low_flags_def)
  ultimately show ?thesis by (simp add: pco_kept_def)
qed

lemma pco_kept_parse:
  assumes "tlv d" "d ! 0 = 78" "length d < 258" shows "pco_kept (parse_pco junk d cs)"
  using assms unfolding parse_pco_def Let_def pco_kept_low [OF low_flags_pco_loop]
  by (auto simp: pco_kept_def put_def intro!: exI [of _ d])

lemma pco_kept_bearer_context: "pco_kept cs \<Longrightarrow> pco_kept (fst (on_gtpc_parse_bearer_context ty m a len cs))"
  unfolding on_gtpc_parse_bearer_context_def Let_def fst_conv by (intro pco_kept_if) (simp_all add: pco_kept_have)

lemma pco_kept_root:
  assumes "pco_kept cs" "tlv (rd_bytes m a (unat len))" "rd_bytes m a (unat len) ! 0 = ty"
  shows "pco_kept (fst (on_gtpc_parse_root junk ty m a len cs))"
proof (cases "ty = 93")
  case True
  have "pco_kept (fst (gtpc_iterate_bearer_ctx_item m a on_gtpc_parse_bearer_context (have_flag HAVE_BCTX cs)))"
    unfolding gtpc_iterate_bearer_ctx_item_def
    by (rule bearer_ctx_items_inv [of pco_kept]) (simp_all add: assms(1) pco_kept_bearer_context pco_kept_have)
  then show ?thesis unfolding on_gtpc_parse_root_def Let_def by (simp only: True simp_thms if_True)
next
  case False
  show ?thesis unfolding on_gtpc_parse_root_def Let_def
    by (simp only: False if_False fst_conv, intro pco_kept_if) (simp_all add: assms pco_kept_have pco_kept_parse)
qed

text \<open>A request whose items are as long as their headers say.\<close>

definition plain_items :: "'d env \<Rightarrow> packet \<Rightarrow> bool" where
  "plain_items E pckt \<longleftrightarrow> (\<forall>p. request_of E pckt = Accepted p \<longrightarrow> (\<exists>bs. contents p = map typed bs \<and> (\<forall>b \<in> set bs. tlv b)))"

lemma iterate_kept:
  assumes "contents p = map typed bs" "\<forall>b \<in> set bs. tlv b" "pco_kept cs"
  shows "pco_kept (fst (gtpc_iterate_item p (on_gtpc_parse_root junk) cs))"
proof -
  have "pco_kept (fst (iterate_items (g_packet p) (on_gtpc_parse_root junk) xs cs))"
    if "map (\<lambda>i. (ucast (i_type i), item_bytes p i)) xs = map typed bs" "\<forall>b \<in> set bs. tlv b" "pco_kept cs" for xs cs
    using that
  proof (induction xs arbitrary: bs cs)
    case (Cons i xs)
    then obtain b rest where bs: "bs = b # rest" by (cases bs) auto
    have i: "(ucast (i_type i) :: byte) = b ! 0" "rd_bytes (g_packet p) (unat (i_offset i)) (unat (i_length i)) = b"
      using Cons.prems(1) by (simp_all add: bs typed_def item_bytes_def)
    let ?r = "on_gtpc_parse_root junk (ucast (i_type i)) (g_packet p) (unat (i_offset i)) (i_length i) cs"
    have "pco_kept (fst ?r)" using i Cons.prems(2,3) by (intro pco_kept_root) (simp_all add: bs)
    then show ?case using Cons.IH [of rest "fst ?r"] Cons.prems by (cases ?r) (simp add: bs)
  qed simp
  with assms show ?thesis by (simp add: gtpc_iterate_item_def contents_def)
qed

lemma request_kept:
  assumes "request_of E pckt = Accepted p" "plain_items E pckt" shows "pco_kept (ps (snd (read_request E pckt p)))"
proof -
  from assms obtain bs where b: "contents p = map typed bs" "\<forall>b \<in> set bs. tlv b" unfolding plain_items_def by blast
  have "contents (p\<lparr>g_saddr := s, g_caddr := c\<rparr>) = contents p" for s c by (simp add: contents_def item_bytes_def)
  moreover have "pco_kept zero_state" by (simp add: pco_kept_def zero_state_def)
  ultimately show ?thesis using iterate_kept [of "p\<lparr>g_saddr := p_saddr pckt, g_caddr := p_caddr pckt\<rparr>" bs zero_state "e_junk E"] b
    by (simp add: read_request_def Let_def)
qed

lemma records_kept: "pco_kept (ps (records E cs rows)) = pco_kept (ps cs)"
  unfolding records_def by (induction rows arbitrary: cs) (simp_all add: on_tunnel_record_def Let_def pco_kept_have)

section \<open>Answers\<close>

definition delete_bearer_items :: "'d env \<Rightarrow> session \<Rightarrow> gitem list" where
  "delete_bearer_items E cs = [Plain (cause_item 16)] @ [Plain (gtpc_ebi_set 0 (ebi cs))] @ pco_answer (e_ipv64 E) cs"

definition delete_bearer_denial :: "'d env \<Rightarrow> byte list list \<Rightarrow> session \<Rightarrow> gitem list" where
  "delete_bearer_denial E ds cs =
     [Plain (cause_item 93)] @ [Plain (gtpc_ebi_set 0 (ebi cs))] @ [Plain (gtpc_recovery_set (e_recovery E))] @ map Plain ds"

lemma struct_bytes_tlv:
  assumes "tlv d" "length d < 258" "take (length d) img = d" shows "struct_bytes junk img = d"
proof -
  have l: "4 \<le> length d" "unat (mk16 (d ! 2) (d ! 1)) + 4 = length d" using assms(1) by (simp_all add: tlv_def)
  have n: "img ! k = d ! k" if "k < length d" for k using that assms(3) by (metis nth_take)
  have len: "length d \<le> length img" using assms(3) by (metis length_take min.cobounded1)
  have "unat (gtpc_item_length img) = length d" using l assms(2) n [of 1] n [of 2] by (simp add: gtpc_item_length_def unat_word_ariths)
  then show ?thesis using len n by (intro nth_equalityI) (simp_all add: struct_bytes_def)
qed

lemma delete_bearer_accept_items:
  "delete_bearer_accept E cs = gtpc_alloc_packet (e_malloc_res E) (e_junk E) 100 \<bind> append_all (e_malloc_res E) (gpack (delete_bearer_items E cs))"
  unfolding delete_bearer_items_def append_all_gpack delete_bearer_accept_def Let_def append_pco_item
  by (simp add: append_struct_item item_of_cause item_of_small item_types)

lemma delete_bearer_denied_items:
  assumes "pco_kept (ps cs)"
  obtains ds where "delete_bearer_denied E cs =
      gtpc_alloc_packet (e_malloc_res E) (e_junk E) 37 \<bind> append_all (e_malloc_res E) (gpack (delete_bearer_denial E ds cs))"
    "\<forall>d \<in> set ds. tlv d \<and> d ! 0 = 78 \<and> length d < 258" "length ds \<le> 1"
proof -
  have h: "all_of HAVE_PCO cs \<longleftrightarrow> bit (flag (ps cs)) 19" unfolding all_of_def by (rule and_flag_bit) simp
  show ?thesis
  proof (cases "all_of HAVE_PCO cs")
    case True
    with assms h obtain d where d: "tlv d" "d ! 0 = 78" "length d < 258" "take (length d) (pco (ps cs)) = d" unfolding pco_kept_def by blast
    have last: "gtpc_append_item M 78 (struct_bytes (e_junk E) (pco (ps cs))) = append_all M (gpack (map Plain [d]))" for M
      unfolding struct_bytes_tlv [OF d(1,3,4)] fun_eq_iff append_all_one using d(2) by (simp add: gpack_def typed_def)
    show ?thesis by (rule that [of "[d]"], unfold delete_bearer_denial_def append_all_gpack delete_bearer_denied_def Let_def last [symmetric])
        (use True d in \<open>simp_all add: append_struct_item item_of_cause item_of_small item_types\<close>)
  next
    case False
    have last: "append_all M (gpack (map Plain [])) = Some" for M by (simp add: gpack_def fun_eq_iff)
    show ?thesis by (rule that [of "[]"], unfold delete_bearer_denial_def append_all_gpack delete_bearer_denied_def Let_def last)
        (use False in \<open>simp_all add: append_struct_item item_of_cause item_of_small item_types\<close>)
  qed
qed

lemma notification_items:
  "suspend_answer E c = gtpc_alloc_packet (e_malloc_res E) (e_junk E) 163 \<bind> append_all (e_malloc_res E) (gpack [Plain (cause_item c)])"
  "resume_answer E c = gtpc_alloc_packet (e_malloc_res E) (e_junk E) 165 \<bind> append_all (e_malloc_res E) (gpack [Plain (cause_item c)])"
  by (simp_all add: suspend_answer_def resume_answer_def append_struct_item item_of_cause item_types)

lemma bearer_verdicts:
  "verdict c [Plain (cause_item c)]" "verdict 16 (delete_bearer_items E cs)"
  "\<forall>d \<in> set ds. tlv d \<and> d ! 0 = 78 \<and> length d < 258 \<Longrightarrow> length ds \<le> 1 \<Longrightarrow> verdict 93 (delete_bearer_denial E ds cs)"
proof -
  show "verdict c [Plain (cause_item c)]" by (simp add: verdict_def answer_ok_def small_items)
  show "verdict 16 (delete_bearer_items E cs)"
    using pco_answer_ok [of "e_ipv64 E" cs] by (simp add: verdict_def answer_ok_def delete_bearer_items_def small_items ball_Un)
  assume d: "\<forall>d \<in> set ds. tlv d \<and> d ! 0 = 78 \<and> length d < 258" "length ds \<le> 1"
  then have "glen (map Plain ds) \<le> 257" by (cases ds) (auto simp: less_eq_Suc_le)
  moreover have "\<forall>g \<in> set (map Plain ds). gitem_ok g" using d(1) by fastforce
  ultimately show "verdict 93 (delete_bearer_denial E ds cs)"
    using d(2) by (simp add: verdict_def answer_ok_def delete_bearer_denial_def small_items ball_Un)
qed

text \<open>An answer of type \<open>ty\<close> that starts with the Cause \<open>k\<close>.\<close>

definition replies_cause :: "byte \<Rightarrow> byte \<Rightarrow> packet \<Rightarrow> packet \<Rightarrow> bool" where
  "replies_cause ty k req c \<longleftrightarrow> (\<exists>teid gs. reply_to req teid ty gs c \<and> verdict k gs)"

lemma answered_causeI:
  assumes "memory_ok E" "found req cs" "g_saddr rp = p_saddr req" "g_caddr rp = p_caddr req" "verdict k gs"
    "ans = gtpc_alloc_packet (e_malloc_res E) (e_junk E) ty \<bind> append_all (e_malloc_res E) (gpack gs)" "2 < ty" "length teid = 4"
  shows "answered_by (replies_cause ty k) req nd (send_answer E rp teid cs ans (d, nd))"
proof -
  have "ty \<noteq> GTPC_ECHO_REQ" "ty \<noteq> GTPC_ECHO_RES" using assms(7) by auto
  moreover have "answer_ok gs" using assms(5) by (simp add: verdict_def)
  ultimately obtain c where "send_answer E rp teid cs ans (d, nd) = Some ((d, pgw_enq EGRESS c nd), True)" "reply_to req teid ty gs c"
    using send_answer_reply [of E gs ty teid cs req rp ans d nd] assms(1-4,6,8) by (auto simp: found_def)
  with assms(5) show ?thesis unfolding answered_by_def replies_cause_def by blast
qed

lemma delete_bearer_sends:
  assumes "memory_ok E" "found req cs" "g_saddr rp = p_saddr req" "g_caddr rp = p_caddr req" "length teid = 4"
  shows "answered_by (replies_cause 100 16) req nd (send_answer E rp teid cs (delete_bearer_accept E cs) (d, nd))"
    "pco_kept (ps cs) \<Longrightarrow> answered_by (replies_cause 37 93) req nd (send_answer E rp teid cs (delete_bearer_denied E cs) (d, nd))"
proof -
  show "answered_by (replies_cause 100 16) req nd (send_answer E rp teid cs (delete_bearer_accept E cs) (d, nd))"
    by (rule answered_causeI [OF assms(1-4) bearer_verdicts(2) delete_bearer_accept_items _ assms(5)]) simp
  show "answered_by (replies_cause 37 93) req nd (send_answer E rp teid cs (delete_bearer_denied E cs) (d, nd))" if k: "pco_kept (ps cs)"
  proof -
    obtain ds where "delete_bearer_denied E cs =
        gtpc_alloc_packet (e_malloc_res E) (e_junk E) 37 \<bind> append_all (e_malloc_res E) (gpack (delete_bearer_denial E ds cs))"
      "\<forall>d \<in> set ds. tlv d \<and> d ! 0 = 78 \<and> length d < 258" "length ds \<le> 1" by (rule delete_bearer_denied_items [OF k])
    then show ?thesis by (intro answered_causeI [OF assms(1-4) bearer_verdicts(3) _ _ assms(5)]) simp_all
  qed
qed

lemma bearer_answers:
  assumes "memory_ok E" "c \<in> {16, 93}"
  shows "answers_with E 163 req (suspend_answer E c)" "answers_with E 165 req (resume_answer E c)"
  by (rule answers_withI [OF assms(1) bearer_verdicts(1) assms(2) _ notification_items(1)], simp,
      rule answers_withI [OF assms(1) bearer_verdicts(1) assms(2) _ notification_items(2)], simp)

section \<open>Every handler answers\<close>

lemma answered_mono: "answered_by R req nd r \<Longrightarrow> (\<And>c. R req c \<Longrightarrow> R' req c) \<Longrightarrow> answered_by R' req nd r"
  unfolding answered_by_def by blast

definition delete_bearer_replies :: "packet \<Rightarrow> packet \<Rightarrow> bool" where
  "delete_bearer_replies req c \<longleftrightarrow> replies_cause 100 16 req c \<or> replies_cause 37 93 req c"

lemma delete_bearer_answered:
  assumes "env_ok E" "request_of E pckt = Accepted p" "plain_items E pckt"
  shows "answered_by delete_bearer_replies pckt nd (event_gtpc_delete_bearer_req E pckt (d, nd))"
proof -
  have mem: "memory_ok E" using assms(1) by (simp add: env_ok_def)
  obtain q cs0 where rr: "read_request E pckt p = (q, cs0)" by fastforce
  have fr: "fresh pckt cs0" and ad: "g_saddr q = p_saddr pckt" "g_caddr q = p_caddr pckt"
    using fresh_request [of pckt E p] request_addrs [of E pckt p] by (simp_all add: rr)
  obtain rows where r: "e_rows E d TEID_LOOKUP (ucast (gtph_teid cs0)) = Some rows" by (rule rows_some [OF assms(1)])
  let ?cs = "records E cs0 rows"
  have f: "found pckt ?cs" by (rule found_records(1) [OF assms(1) fr r])
  have k: "pco_kept (ps ?cs)" using request_kept [OF assms(2,3)] by (simp add: rr records_kept)
  have l: "length (le32 (sgw_c_teid ?cs)) = 4" by simp
  note snd = delete_bearer_sends [OF mem f ad l]
  have "answered_by delete_bearer_replies pckt nd (send_answer E q (le32 (sgw_c_teid ?cs)) ?cs (delete_bearer_denied E ?cs) (d', nd))"
    "answered_by delete_bearer_replies pckt nd (send_answer E q (le32 (sgw_c_teid ?cs)) ?cs (delete_bearer_accept E ?cs) (d', nd))" for d'
    by (rule answered_mono [OF snd(2) [OF k]] answered_mono [OF snd(1)], simp add: delete_bearer_replies_def)+
  then show ?thesis using assms(2)
    by (simp add: event_gtpc_delete_bearer_req_def request_of_def rr r Let_def split: prod.split)
qed

lemma notifications_answered:
  assumes "env_ok E" "request_of E pckt = Accepted p"
  shows "answered 163 pckt nd (event_gtpc_suspend_notification_req E pckt (d, nd))"
    "answered 165 pckt nd (event_gtpc_resume_notification_req E pckt (d, nd))"
proof -
  have mem: "memory_ok E" using assms(1) by (simp add: env_ok_def)
  obtain q cs0 where rr: "read_request E pckt p = (q, cs0)" by fastforce
  have fr: "fresh pckt cs0" and ad: "g_saddr q = p_saddr pckt" "g_caddr q = p_caddr pckt"
    using fresh_request [of pckt E p] request_addrs [of E pckt p] by (simp_all add: rr)
  obtain rows where r: "e_rows E d TEID_LOOKUP (ucast (gtph_teid cs0)) = Some rows" by (rule rows_some [OF assms(1)])
  have send: "answered 163 pckt nd (send_answer E q (le32 t) cs (suspend_answer E c) (d', nd))"
    "answered 165 pckt nd (send_answer E q (le32 t) cs (resume_answer E c) (d', nd))" if "found pckt cs" "c \<in> {16, 93}" for t cs c d'
    using bearer_answers [OF mem that(2), of pckt] that(1) ad by (simp_all add: answers_with_def)
  note f = found_records(1) [OF assms(1) fr r] and f0 = fresh_found [OF fr]
  show "answered 163 pckt nd (event_gtpc_suspend_notification_req E pckt (d, nd))"
    using assms(2) send [OF f] by (auto simp: event_gtpc_suspend_notification_req_def request_of_def rr r Let_def split: prod.split)
  show "answered 165 pckt nd (event_gtpc_resume_notification_req E pckt (d, nd))"
    using assms(2) send [OF f] send [OF f0] by (auto simp: event_gtpc_resume_notification_req_def request_of_def rr r Let_def split: prod.split)
qed

lemma bearer_rejected:
  assumes "request_of E pckt = Rejected x"
  shows "event_gtpc_delete_bearer_req E pckt st = Some (st, False)" "event_gtpc_suspend_notification_req E pckt st = Some (st, False)"
    "event_gtpc_resume_notification_req E pckt st = Some (st, False)"
  using assms by (simp_all add: request_of_def event_gtpc_delete_bearer_req_def event_gtpc_suspend_notification_req_def event_gtpc_resume_notification_req_def)

text \<open>
  What the node answers, and with what. A Delete Bearer Request that is accepted gets a Delete Bearer Response; one that is denied
  gets a Delete Session Response.
\<close>

definition other_types :: "byte \<Rightarrow> byte list" where
  "other_types ty = (if ty = 36 then [37] else if ty = 99 then [100] else if ty = 164 then [165] else if ty = 162 then [163] else [])"

definition other_replies :: "packet \<Rightarrow> packet \<Rightarrow> bool" where
  "other_replies req c \<longleftrightarrow>
     (if drop_bit 5 (p_data req 0) \<noteq> 2 then v1_replies req c
      else if p_data req 1 = 99 then delete_bearer_replies req c
      else \<exists>ty \<in> set (other_types (p_data req 1)). replies ty req c)"

definition other_wants :: "'d env \<Rightarrow> packet \<Rightarrow> bool" where
  "other_wants E req \<longleftrightarrow> (if drop_bit 5 (p_data req 0) = 2 then other_types (p_data req 1) \<noteq> [] \<and> well_formed E req else v1_wants E req)"

text \<open>The node survives a request of version 1 that it finishes reading, and a Delete Bearer Request whose items do not lie about their length.\<close>

definition other_good :: "'d env \<Rightarrow> packet \<Rightarrow> bool" where
  "other_good E req \<longleftrightarrow> (if drop_bit 5 (p_data req 0) = 2 then p_data req 1 = 99 \<longrightarrow> plain_items E req else v1_read (e_junk E) req \<noteq> None)"

lemma other_answered:
  assumes "env_ok E" "other_good E req" "other_wants E req"
  shows "answered_by other_replies req nd (on_gtpc_other E req (d, nd))"
proof (cases "drop_bit 5 (p_data req 0) = 2")
  case True
  then obtain p where p: "request_of E req = Accepted p" "other_types (p_data req 1) \<noteq> []" using assms(3) by (auto simp: other_wants_def well_formed_def)
  have one: "replies ty req c \<Longrightarrow> ty \<in> set (other_types (p_data req 1)) \<Longrightarrow> p_data req 1 \<noteq> 99 \<Longrightarrow> other_replies req c" for ty c
    using True by (auto simp: other_replies_def)
  from p(2) consider "p_data req 1 = 36" | "p_data req 1 = 99" | "p_data req 1 = 164" | "p_data req 1 = 162"
    by (auto simp: other_types_def split: if_splits)
  then show ?thesis
  proof cases
    case 1
    have "answered_by other_replies req nd (event_gtpc_delete_session_req E req (d, nd))"
      by (rule answered_mono [OF delete_answered [OF assms(1) p(1) [unfolded request_of_def]]]) (rule one, simp_all add: 1 [simplified] other_types_def)
    then show ?thesis using True 1 by (simp add: on_gtpc_other_def)
  next
    case 2
    have "plain_items E req" using assms(2) True 2 by (simp add: other_good_def)
    then have "answered_by other_replies req nd (event_gtpc_delete_bearer_req E req (d, nd))"
      by (rule answered_mono [OF delete_bearer_answered [OF assms(1) p(1)]]) (use True in \<open>simp add: other_replies_def 2 [simplified]\<close>)
    then show ?thesis using True 2 by (simp add: on_gtpc_other_def)
  next
    case 3
    have "answered_by other_replies req nd (event_gtpc_resume_notification_req E req (d, nd))"
      by (rule answered_mono [OF notifications_answered(2) [OF assms(1) p(1)]]) (rule one, simp_all add: 3 [simplified] other_types_def)
    then show ?thesis using True 3 by (simp add: on_gtpc_other_def)
  next
    case 4
    have "answered_by other_replies req nd (event_gtpc_suspend_notification_req E req (d, nd))"
      by (rule answered_mono [OF notifications_answered(1) [OF assms(1) p(1)]]) (rule one, simp_all add: 4 [simplified] other_types_def)
    then show ?thesis using True 4 by (simp add: on_gtpc_other_def)
  qed
next
  case False
  then have "answered_by v1_replies req nd (event_gtpc_v1_any_req E req (d, nd))"
    using assms by (intro v1_any_answered) (simp_all add: other_wants_def)
  then show ?thesis using False by (simp add: on_gtpc_other_def other_replies_def answered_by_def)
qed

lemma other_rejected:
  assumes "other_good E req" "\<not> other_wants E req" shows "\<exists>b. on_gtpc_other E req st = Some (st, b)"
proof (cases "drop_bit 5 (p_data req 0) = 2")
  case True
  show ?thesis
  proof (cases "request_of E req")
    case (Rejected x)
    show ?thesis using True request_rejected(3) [OF Rejected] bearer_rejected [OF Rejected] by (auto simp: on_gtpc_other_def)
  next
    case (Accepted p)
    then have "other_types (p_data req 1) = []" using assms(2) True by (simp add: other_wants_def well_formed_def)
    then show ?thesis using True by (auto simp: on_gtpc_other_def other_types_def split: if_splits)
  qed
next
  case False
  then show ?thesis using assms v1_any_rejected [of E req st] by (auto simp: on_gtpc_other_def other_good_def other_wants_def)
qed

interpretation other_req: answering on_gtpc_other other_good other_wants other_replies
  by unfold_locales (simp_all add: other_answered other_rejected)

end
