(* ===== verification/Session_Properties.thy ===== *)
theory Session_Properties
  imports Session_Answers
begin

text \<open>
  The properties of the session handlers, and an instance of each: a Create Session Request and a database with one record.
\<close>

section \<open>A request\<close>

definition demo_request :: "gitem list" where
  "demo_request = [Plain ([76, 0, 6, 0] @ [0x21, 0x43, 0x65, 0x87, 0x09, 0x21]), Plain (f_teid_item 0 6 0x11223344 [10, 0, 0, 9]),
     Plain (gtpc_ambr_set 1000 2000),
     Bctx 0 [gtpc_ebi_set 0 6, f_teid_item 0 4 0x55667788 [10, 0, 0, 10], gtpc_bearer_qos_set 0 9 0 0 0 0]]"

lemma demo_request_ok: "\<forall>g \<in> set demo_request. gitem_ok g" "12 + glen demo_request < 1514" "length demo_request \<le> 255"
proof -
  have q: "tlv (gtpc_bearer_qos_set 0 9 0 0 0 0)" "length (gtpc_bearer_qos_set 0 9 0 0 0 0) = 26"
    by (simp_all add: gtpc_bearer_qos_set_def tlv_def nth_append)
  have n: "tlv ([76, 0, 6, 0] @ [0x21, 0x43, 0x65, 0x87, 0x09, 0x21])" by (simp add: tlv_def mk16_def)
  have l: "length [10, 0, 0, 9 :: byte] = 4" "length [10, 0, 0, 10 :: byte] = 4" by simp_all
  show "\<forall>g \<in> set demo_request. gitem_ok g" "12 + glen demo_request < 1514" "length demo_request \<le> 255"
    using q n item_of_f_teid(2) [OF l(1)] item_of_f_teid(2) [OF l(2)]
    by (simp_all add: demo_request_def small_items item_of_f_teid(2))
qed

definition demo_row :: tunnel_row where
  "demo_row = \<lparr>t_pgw_teid = 0xABCDEF01, t_ueipv4 = ''0.1.2.3'', t_bitrate_s5 = 0, t_bitrate_sgi = 0, t_pgw_gtpu_ipv = ''10.0.0.1'',
     t_pgw_gtpc_ipv = ''10.0.0.1'', t_dns = [], t_ebi = 0, t_imsi = 1, t_msisdn = 2, t_sgw_gtpc_teid = 3\<rparr>"

definition demo_env :: "tunnel_row list \<Rightarrow> unit env" where
  "demo_env rows = \<lparr>e_malloc_req = (\<lambda>_. True), e_malloc_res = (\<lambda>_. True), e_convert = True, e_junk = (\<lambda>_. 0), e_stale = False,
     e_aton = (\<lambda>s. if s = [] then None else if hd s = CHR ''0'' then Some [0, 1, 2, 3] else Some [10, 0, 0, 1]), e_query = (\<lambda>d s. (d, True)),
     e_rows = (\<lambda>d s n. Some rows), e_server_ip = None, e_recovery = 7, e_ext_set_num = 0, e_pgw_unit_num = 0, e_ipv64 = False\<rparr>"

lemma demo_env_ok: "env_ok (demo_env [])" "env_ok (demo_env [demo_row])"
proof -
  have "length (dec 2) = 1" by (simp add: dec.simps)
  then show "env_ok (demo_env [])" "env_ok (demo_env [demo_row])"
    by (simp_all add: env_ok_def memory_ok_def aton_ok_def demo_env_def row_ok_def demo_row_def)
qed

text \<open>A packet that carries given items.\<close>

lemma demo_carries:
  assumes "\<forall>g \<in> set gs. gitem_ok g" "12 + glen gs < 1514" "length gs \<le> 255"
  obtains pckt p where "request_of (demo_env rows) pckt = Accepted p" "contents p = gpack gs"
proof -
  have t: "\<forall>b \<in> set (map gbytes gs). tlv b" using assms(1) gitem_tlv by auto
  obtain p0 p where p: "gtpc_alloc_packet (\<lambda>_. True) (\<lambda>_. 0) 33 = Some p0" "append_all (\<lambda>_. True) (map typed (map gbytes gs)) p0 = Some p"
    using items_built [OF t] assms(2) unfolding glen_def by blast
  let ?pckt = "\<lparr>p_data = g_packet p, p_datalen = ucast (g_offset p), p_saddr = [1], p_caddr = [2]\<rparr>"
  have "gtpc_type_issupported 33" by (simp add: gtpc_type_issupported_def)
  from from_payload_builds [OF p this t _ refl] assms(3)
  have "request_of (demo_env rows) ?pckt = Accepted p" "contents p = gpack gs"
    by (simp_all add: request_of_def demo_env_def ucast_16_32 gpack_def)
  then show ?thesis by (rule that)
qed

lemma demo_parsed:
  assumes "contents p = gpack gs" "\<forall>g \<in> set gs. gitem_ok g"
  shows "ps (snd (read_request E pckt p)) = parse_items_of (e_junk E) gs zero_state"
proof -
  have "contents (p\<lparr>g_saddr := p_saddr pckt, g_caddr := p_caddr pckt\<rparr>) = map (typed \<circ> gbytes) gs"
    using assms(1) by (simp add: contents_def item_bytes_def gpack_def)
  from iterate_gitems [OF this assms(2)] show ?thesis by (simp add: read_request_def Let_def)
qed

lemma demo_complete: "flag (parse_items_of junk demo_request zero_state) AND INCLUDED_ALL = INCLUDED_ALL"
proof -
  let ?cs = "parse_items_of junk demo_request zero_state"
  note ok = demo_request_ok(1)
  have l: "length [10, 0, 0, 9 :: byte] = 4" "length [10, 0, 0, 10 :: byte] = 4" by simp_all
  have q: "gtpc_bearer_qos_set 0 9 0 0 0 0 ! 0 = 80" "length (gtpc_bearer_qos_set 0 9 0 0 0 0) = 26" by (simp_all add: gtpc_bearer_qos_set_def nth_append)
  show ?thesis unfolding included_all_iff
    using has_msisdn.collects_roots [OF ok] has_c_teid.collects_roots [OF ok] has_ambr.collects_roots [OF ok]
      has_u_teid.collects_nesteds [OF ok] has_bqos.collects_nesteds [OF ok] q
    by (simp add: seen_fold roots_def nesteds_def demo_request_def sized_def small_items)
qed

section \<open>Properties\<close>

text \<open>C35: Copies into the parse state fit: whatever items a packet has, with whatever lengths, the copy of an item never exceeds the
  structure it goes to, so after all items every structure of the parse state (addresses, digits, F-TEIDs, PAA, AMBR, Bearer QoS, PCO and the others)
  still has its size. This is about the destinations of the copies; it does not say that the octets read lie inside the item, and the loop over the
  Protocol Configuration Options does read behind a short one.\<close>

theorem items_fit_structures: "ps_sized (fst (gtpc_iterate_item p (on_gtpc_parse_root junk) zero_state))"
  by (rule ps_sized_iterate [OF ps_sized_zero])

text \<open>C8: A node answers a burst: the thread for Create Session takes up to 32 requests from its queue, in order; every request
  that parses gets exactly one answer, in the order of the requests, to the address it came from, with its sequence number, that
  parses again and starts with a Cause (accepted or denied), and nothing is sent for the others; the same holds of Modify Bearer.
  The code returns OK iff there was a request, and it does not panic, as long as there is memory and room and the database keeps its constraints.\<close>

theorem bursts_answered_in_order:
  assumes "env_ok E" "node_ok nd" "length (side EGRESS nd) + 32 \<le> 20 * 1024"
    "(handler, ty) \<in> {(event_gtpc_create_session_req, 33), (event_gtpc_modify_bearer_req, 35)}"
  shows "\<exists>d' nd' out. handler E (d, nd) = Some ((d', nd'), side INGRESS nd \<noteq> []) \<and> node_ok nd' \<and>
    side INGRESS nd' = drop 32 (side INGRESS nd) \<and> refused nd' = refused nd \<and> side EGRESS nd' = side EGRESS nd @ out \<and>
    list_all2 (replies ty) (filter (well_formed E) (take 32 (side INGRESS nd))) out"
proof -
  obtain pkts nd1 where q: "pgw_deq_burst INGRESS 32 nd = (pkts, nd1)" by fastforce
  note dq = deq_side [OF assms(2) q]
  have sd: "side EGRESS nd1 = side EGRESS nd" by (rule dq(5)) simp
  have tk: "pkts = take 32 (side INGRESS nd)" "side INGRESS nd1 = drop 32 (side INGRESS nd)"
    using dq(2,3) by (auto simp: append_eq_conv_conj min_def split: if_splits)
  have room: "length (side EGRESS nd1) + length pkts \<le> 20 * 1024" using assms(3) sd tk by simp
  from assms(4) consider "handler = event_gtpc_create_session_req" "ty = 33" | "handler = event_gtpc_modify_bearer_req" "ty = 35" by auto
  then show ?thesis
  proof cases
    case 1
    from create_req.burst [OF assms(1) dq(1) room, of d] show ?thesis
      using q sd tk dq(4) 1 by (cases "pkts = []") (auto simp: event_gtpc_create_session_req_def)
  next
    case 2
    from modify_req.burst [OF assms(1) dq(1) room, of d] show ?thesis
      using q sd tk dq(4) 2 by (cases "pkts = []") (auto simp: event_gtpc_modify_bearer_req_def)
  qed
qed

theorem bursts_answered_in_order_witness:
  "\<exists>pckt d' nd' out. well_formed (demo_env []) pckt \<and>
     event_gtpc_create_session_req (demo_env []) ((), empty_node\<lparr>ingress_queue := [pckt], ingress_count := 1\<rparr>) = Some ((d', nd'), True) \<and>
     side INGRESS nd' = [] \<and> side EGRESS nd' = out \<and> list_all2 (replies 33) [pckt] out"
proof -
  obtain pckt p where r: "request_of (demo_env []) pckt = Accepted p" using demo_carries [OF demo_request_ok, of "[]"] by blast
  let ?nd = "empty_node\<lparr>ingress_queue := [pckt], ingress_count := 1\<rparr>"
  have n: "node_ok ?nd" "length (side EGRESS ?nd) + 32 \<le> 20 * 1024" "side INGRESS ?nd = [pckt]" "side EGRESS ?nd = []"
    by (simp_all add: node_ok_def empty_node_def side_def)
  have w: "well_formed (demo_env []) pckt" using r by (simp add: well_formed_def)
  from bursts_answered_in_order [OF demo_env_ok(1) n(1,2), of event_gtpc_create_session_req 33 "()"] n(3,4) w
  show ?thesis by auto
qed



text \<open>Otherwise the request is denied: one that lacks a mandatory item (whatever the database holds, which stays as it is), and
  one of a subscriber that is found neither by IMSI nor by MSISDN, gets an answer with the Cause of denied access, and a Bearer
  Context with that Cause and bearer 0.\<close>

theorem create_session_denied:
  assumes "env_ok E" "request_of E pckt = Accepted p" "read_request E pckt p = (q, cs)"
    "flag (ps cs) AND INCLUDED_ALL \<noteq> INCLUDED_ALL \<and> d' = d \<or>
     flag (ps cs) AND INCLUDED_ALL = INCLUDED_ALL \<and> prepared E cs d d' \<and> e_rows E d' IMSI_LOOKUP (imsi_of E cs) = Some [] \<and>
       e_rows E d' MSISDN_LOOKUP (msisdn_of E cs) = Some []"
  shows "\<exists>c. on_create_session E pckt (d, nd) = Some ((d', pgw_enq EGRESS c nd), True) \<and>
    reply_to pckt (teid_grekey (c_teid (ps cs))) 33 [Plain (cause_item 93), Bctx 0 [cause_item 93, gtpc_ebi_set 0 0]] c"
proof -
  have fr: "fresh pckt cs" and ad: "g_saddr q = p_saddr pckt" "g_caddr q = p_caddr pckt"
    using fresh_request [of pckt E p] request_addrs [of E pckt p] by (simp_all add: assms(3))
  then have ok: "session_ok cs" "gtph_seqno cs = rd_bytes (p_data pckt) 8 3" by (simp_all add: fresh_def)
  have "on_create_session E pckt (d, nd) = send_answer E q (teid_grekey (c_teid (ps cs))) cs (create_denied E cs) (d', nd)"
    using assms(4)
  proof (elim disjE conjE)
    assume "flag (ps cs) AND INCLUDED_ALL \<noteq> INCLUDED_ALL" "d' = d"
    then show ?thesis using assms(2) unfolding request_of_def by (simp add: on_create_session_def assms(3))
  next
    assume *: "flag (ps cs) AND INCLUDED_ALL = INCLUDED_ALL" "prepared E cs d d'" "e_rows E d' IMSI_LOOKUP (imsi_of E cs) = Some []"
      "e_rows E d' MSISDN_LOOKUP (msisdn_of E cs) = Some []"
    have "create_lookup E d' (imsi_of E cs) (msisdn_of E cs) cs = Some (Inl cs)"
      using *(3,4) request_no_record [of E pckt p] assms(3) by (simp add: create_lookup_def records_def)
    then show ?thesis using assms(2) *(1,2) unfolding prepared_def request_of_def
      by (auto simp: on_create_session_def assms(3) opt_query_def Let_def simp flip: msisdn_of_def imsi_of_def)
  qed
  then show ?thesis
    using send_answer_reply [of E create_denial 33 "teid_grekey (c_teid (ps cs))" cs pckt q "create_denied E cs" d' nd]
      other_answers_ok(1) assms(1) ad ok length_teid [OF ok(1)] create_denied_items [of E cs]
    by (simp add: env_ok_def gtpc_type_issupported_def create_denial_def)
qed

theorem create_session_denied_witness:
  "\<exists>pckt c t. on_create_session (demo_env []) pckt ((), empty_node) = Some (((), pgw_enq EGRESS c empty_node), True) \<and>
     reply_to pckt t 33 [Plain (cause_item 93), Bctx 0 [cause_item 93, gtpc_ebi_set 0 0]] c"
proof -
  let ?E = "demo_env []"
  obtain pckt p where r: "request_of ?E pckt = Accepted p" and c: "contents p = gpack demo_request" using demo_carries [OF demo_request_ok, of "[]"] by blast
  obtain q cs where rr: "read_request ?E pckt p = (q, cs)" by fastforce
  have "ps cs = parse_items_of (e_junk ?E) demo_request zero_state" using demo_parsed [OF c demo_request_ok(1), of ?E pckt] by (simp add: rr)
  then have f: "flag (ps cs) AND INCLUDED_ALL = INCLUDED_ALL" by (simp add: demo_complete)
  have e: "e_query ?E () s = ((), True)" "e_server_ip ?E = None" "e_rows ?E () st k = Some []" for s st k by (simp_all add: demo_env_def)
  have "prepared ?E cs () ()" by (simp add: prepared_def e)
  with create_session_denied [OF demo_env_ok(1) r rr, of "()" "()" empty_node] f e(3) show ?thesis by blast
qed

end
