(* ===== verification/Other_Properties.thy ===== *)
theory Other_Properties
  imports Other_Dispatch Session_Properties
begin

text \<open>
  The properties of GTP-C version 1 and of the node for other requests, with an instance of each.
\<close>

section \<open>Messages\<close>

definition demo_v1 :: "byte \<Rightarrow> 32 word \<Rightarrow> byte list \<Rightarrow> packet" where
  "demo_v1 ty t body =
     \<lparr>p_data = mem_of 0 ([0x32, ty] @ be16 (word_of_nat (4 + length body)) @ be32 t @ [0, 7, 0, 0] @ body), p_datalen = word_of_nat (12 + length body),
      p_saddr = [1], p_caddr = [2]\<rparr>"

lemma demo_v1_bytes:
  assumes "length body < 1000"
  shows "p_data (demo_v1 ty t body) 0 = 0x32" "p_data (demo_v1 ty t body) 1 = ty" "rd_bytes (p_data (demo_v1 ty t body)) 4 4 = be32 t"
    "v1_head (p_data (demo_v1 ty t body)) = 12" "rd_bytes (p_data (demo_v1 ty t body)) 12 (length body) = body"
    "unat (p_datalen (demo_v1 ty t body)) = 12 + length body" "\<not> bit (p_data (demo_v1 ty t body) 0) 2"
proof -
  let ?m = "p_data (demo_v1 ty t body)" and ?h = "[0x32, ty] @ be16 (word_of_nat (4 + length body))"
  have all: "rd_bytes ?m 0 (4 + (4 + (4 + length body))) = ?h @ be32 t @ [0, 7, 0, 0] @ body" by (simp add: demo_v1_def mem_of_def)
  show "?m 0 = 0x32" "?m 1 = ty"
    using arg_cong [OF all, of "\<lambda>b. b ! 0"] arg_cong [OF all, of "\<lambda>b. b ! 1"] by simp_all
  have "bit (0x32 :: byte) 1" "\<not> bit (0x32 :: byte) 2" by (simp_all add: bit_numeral_rec)
  then show "v1_head ?m = 12" "\<not> bit (?m 0) 2" using \<open>?m 0 = 0x32\<close> by (simp_all add: v1_head_def)
  show "rd_bytes ?m 4 4 = be32 t" "rd_bytes ?m 12 (length body) = body"
    using arg_cong [OF all [unfolded rd_bytes_add], of "\<lambda>b. take 4 (drop 4 b)"] arg_cong [OF all [unfolded rd_bytes_add], of "drop 12"] by simp_all
  have "unat (word_of_nat (12 + length body) :: 32 word) = 12 + length body" using assms by (subst unsigned_of_nat) (simp add: take_bit_eq_mod)
  then show "unat (p_datalen (demo_v1 ty t body)) = 12 + length body" by (simp add: demo_v1_def)
qed

text \<open>A complete Create PDP Context Request.\<close>

definition demo_ies :: "(byte \<times> byte list) list" where
  "demo_ies = [(2, [0x21, 0x43, 0x65, 0x87, 0x09, 0x21, 0x43, 0xF5]), (134, [0x91, 0x18, 0x09, 0x21, 0x43, 0x65, 0x87]),
     (16, [0x55, 0x66, 0x77, 0x88]), (17, [0x11, 0x22, 0x33, 0x44]), (133, [10, 0, 0, 9]), (133, [10, 0, 0, 10]), (20, [5]), (135, [1, 2, 3])]"

lemma demo_ies_ok: "\<forall>e \<in> set demo_ies. ie_ok e" "length (concat (map ie_bytes demo_ies)) < 1000"
  by (simp_all add: demo_ies_def ie_ok_def ie_bytes_def msgs_gtpc_v1_def v1_fixed_def v1_parsed_def)

lemma demo_read:
  "v1_read junk (demo_v1 ty t (concat (map ie_bytes demo_ies))) = Some (Inr (foldl (\<lambda>v e. v1_effect junk e v)
     (zero_v1\<lparr>seqno := ldn16 (p_data (demo_v1 ty t (concat (map ie_bytes demo_ies)))) 8\<rparr>) demo_ies))"
proof -
  note d = demo_v1_bytes [OF demo_ies_ok(2), of ty t]
  have "bit (0x32 :: byte) 1" by (simp add: bit_numeral_rec)
  then show ?thesis using message_read [OF d(7) demo_ies_ok(1), of junk] d(1,4-6) demo_ies_ok(2) by simp
qed

lemma demo_state:
  fixes junk :: mem and sq :: "16 word"
  defines "v \<equiv> foldl (\<lambda>v e. v1_effect junk e v) (zero_v1\<lparr>seqno := sq\<rparr>) demo_ies"
  shows "all_v1 REQUIRED_CREATE_PDP v" "teid_grekey (c_teid (vps v)) = [0x11, 0x22, 0x33, 0x44]"
  unfolding v_def demo_ies_def
  by (simp_all add: v1_effect_def Let_def on_ps_def have_v1_def zero_v1_def zero_session_def zero_state_def put_at_def teid_grekey_def zeros_def
      all_v1_def REQUIRED_CREATE_PDP_def flag_bit_def)

section \<open>Properties\<close>

text \<open>C12: A GTP-C version 1 message without extension headers whose elements are well-formed is read to its end: the loop over the
  elements terminates, at the end of the message, and the state is the effect of its elements, one after the other.\<close>

theorem v1_message_collected:
  assumes "\<not> bit (p_data pckt 0) 2" "\<forall>e \<in> set es. ie_ok e" "unat (p_datalen pckt) < 65536" "B = concat (map ie_bytes es)"
    "unat (p_datalen pckt) = v1_head (p_data pckt) + length B" "rd_bytes (p_data pckt) (v1_head (p_data pckt)) (length B) = B"
  shows "\<exists>v. v1_read junk pckt = Some (Inr v) \<and> v1_sized v \<and>
    v = foldl (\<lambda>v e. v1_effect junk e v) (zero_v1\<lparr>seqno := v1_seqno pckt\<rparr>) es"
proof -
  from message_read [OF assms(1-3), of junk] assms(4-6)
  have r: "v1_read junk pckt = Some (Inr (foldl (\<lambda>v e. v1_effect junk e v) (zero_v1\<lparr>seqno := v1_seqno pckt\<rparr>) es))"
    by (simp add: v1_seqno_def)
  with read_fresh [OF r] show ?thesis by (simp add: v1_fresh_def)
qed

theorem v1_message_collected_witness:
  "\<exists>v. v1_read (\<lambda>_. 0) (demo_v1 16 0 (concat (map ie_bytes demo_ies))) = Some (Inr v) \<and> v1_sized v \<and> all_v1 REQUIRED_CREATE_PDP v \<and> teid_grekey (c_teid (vps v)) = [0x11, 0x22, 0x33, 0x44]"
proof -
  note d = demo_v1_bytes [OF demo_ies_ok(2), of 16 0]
  let ?p = "demo_v1 16 0 (concat (map ie_bytes demo_ies))"
  have "\<exists>v. v1_read (\<lambda>_. 0) ?p = Some (Inr v) \<and> v1_sized v \<and> v = foldl (\<lambda>v e. v1_effect (\<lambda>_. 0) e v) (zero_v1\<lparr>seqno := v1_seqno ?p\<rparr>) demo_ies"
    by (rule v1_message_collected [OF d(7) demo_ies_ok(1) _ refl]) (use d demo_ies_ok(2) in simp_all)
  then obtain v where v: "v1_read (\<lambda>_. 0) ?p = Some (Inr v)" "v1_sized v"
    "v = foldl (\<lambda>v e. v1_effect (\<lambda>_. 0) e v) (zero_v1\<lparr>seqno := v1_seqno ?p\<rparr>) demo_ies" by blast
  with demo_state show ?thesis by (metis v1_state.surjective)
qed

text \<open>C13: A message can stop the node for good. An element of variable length that claims \<open>0xFFFD\<close> octets is taken for one of length
  0, behind any number of well-formed elements: the loop never gets past it and the handler does not return. The same holds of an
  extension header of length 0.\<close>

theorem v1_zero_element_never_returns:
  assumes "\<not> bit (p_data pckt 0) 2" "\<forall>e \<in> set es. ie_ok e" "unat (p_datalen pckt) < 65536" "B = concat (map ie_bytes es)"
    "rd_bytes (p_data pckt) (v1_head (p_data pckt)) (length B) = B" "off = v1_head (p_data pckt) + length B" "off < unat (p_datalen pckt)"
    "v1_size (p_data pckt off) = 0" "fst (msgs_gtpc_v1 (p_data pckt off)) \<noteq> 0" "ldn16 (p_data pckt) (off + 1) = 0xFFFD"
    "bit (p_data ext 0) 2" "12 < p_datalen ext" "p_data ext 11 \<noteq> 0" "p_data ext 12 = 0"
  shows "event_gtpc_v1_any_req E pckt st = None \<and> event_gtpc_v1_any_req E ext st = None"
proof -
  have "v1_read (e_junk E) pckt = None" by (rule message_stuck [OF assms(1-10)])
  moreover have "skip_extensions (e_junk E 0) (p_data ext) (p_datalen ext) 12 = None"
    by (rule extensions_stuck) (use assms(12-14) in simp_all)
  then have "v1_read (e_junk E) ext = None" using assms(11) by (simp add: v1_read_def Let_def)
  ultimately show ?thesis by (simp add: event_gtpc_v1_any_req_def)
qed
theorem v1_zero_element_never_returns_witness:
  "event_gtpc_v1_any_req (demo_env []) (demo_v1 16 0 [131, 0xFF, 0xFD]) ((), empty_node) = None \<and>
   event_gtpc_v1_any_req (demo_env []) \<lparr>p_data = mem_of 0 [0x34, 16, 0, 0, 0, 0, 0, 0, 0, 0, 0, 1, 0], p_datalen = 13, p_saddr = [1], p_caddr = [2]\<rparr> ((), empty_node) = None"
proof -
  let ?b = "[131, 0xFF, 0xFD] :: byte list" and ?e = "\<lparr>p_data = mem_of 0 [0x34, 16, 0, 0, 0, 0, 0, 0, 0, 0, 0, 1, 0], p_datalen = 13, p_saddr = [1], p_caddr = [2]\<rparr>"
  note d = demo_v1_bytes [of ?b 16 0, simplified]
  have b: "rd_bytes (p_data (demo_v1 16 0 ?b)) 12 3 = ?b" using d(5) by (simp add: eval_nat_numeral)
  then have o: "p_data (demo_v1 16 0 ?b) 12 = 131" using nth_rd_bytes [of 0 3 "p_data (demo_v1 16 0 ?b)" 12] by simp
  have l: "ldn16 (p_data (demo_v1 16 0 ?b)) 13 = 0xFFFD" using ldn16_nth [OF b, of 1] by (simp add: mk16_def)
  have e: "bit (p_data ?e 0) 2" "12 < p_datalen ?e" "p_data ?e 11 \<noteq> 0" "p_data ?e 12 = 0"
    by (simp_all add: mem_of_def wr_bytes_def bit_numeral_rec)
  show ?thesis
    by (rule v1_zero_element_never_returns [where es = "[]" and off = 12 and ext = ?e, OF d(7) _ _ refl _ _ _ _ _ _ e])
      (use d o l in \<open>simp_all add: v1_size_def msgs_gtpc_v1_def v1_fixed_def\<close>)
qed



section \<open>Contexts\<close>

lemma be32_word_be: "length t = 4 \<Longrightarrow> be32 (word_be t) = t"
proof -
  assume "length t = 4"
  then have "[t ! 0, t ! 1, t ! 2, t ! 3] = t" by (intro nth_equalityI) (auto simp: less_Suc_eq numeral_eq_Suc)
  then show ?thesis by (simp add: be32_def word_be_def word_le_def)
qed



lemma no_record_has: "no_record (ps cs) \<Longrightarrow> \<not> has HAVE_RECORD cs"
proof -
  assume "no_record (ps cs)"
  then have "flag (ps cs) AND flag_bit 26 = 0" by (intro bit_word_eqI) (auto simp: no_record_def bit_and_iff bit_flag_bit)
  then show ?thesis by (simp add: has_def)
qed

text \<open>The reply the handler sends, from the items and the identifier it chose.\<close>

lemma v1_sent:
  assumes "env_ok E" "v1_ready v" "ies_of (seqno v) items es" "g_saddr p = p_saddr req" "g_caddr p = p_caddr req"
  shows "\<exists>c. v1_send E p v items teid (d, nd) = Some ((d, pgw_enq EGRESS c nd), True) \<and>
    v1_reply_to req (be32 teid) (reqtype_v1 v) (be16 (seqno v) @ [0, 0] @ concat (map ie_bytes es)) c"
proof -
  have i: "concat items = be16 (seqno v) @ [0, 0] @ concat (map ie_bytes es)" "\<forall>d \<in> set items. d \<noteq> []" "length (concat items) < 1000"
    using assms(3) unfolding ies_of_def by blast+
  then have "8 + length (concat items) < ETHER_MAX_LEN" by linarith
  with v1_send_reply [OF _ i(2) this assms(4,5), of E v teid d nd] assms(1) show ?thesis unfolding i(1) by (simp add: env_ok_def)
qed

section \<open>Properties of contexts\<close>



text \<open>A Delete PDP Context Request is looked up under the wrong identifier: the octets of the header are not brought into the order of
  the host, as they are for an Update. The request for the session with identifier \<open>t\<close> asks for the one with the octets of \<open>t\<close> reversed;
  where this is nobody's, the session stays as it is in the database and the SGSN is told that there are no resources.\<close>

theorem delete_pdp_misses_session:
  assumes "env_ok E" "e_malloc_req E 0" "p_data pckt 1 = 20" "rd_bytes (p_data pckt) 4 4 = be32 t" "v1_read (e_junk E) pckt = Some (Inr v)"
    "e_rows E d TEID_LOOKUP (ucast (bswap32 t)) = Some []"
  shows "\<exists>reply. event_gtpc_v1_any_req E pckt (d, nd) = Some ((d, pgw_enq EGRESS reply nd), True) \<and>
    v1_reply_to pckt (teid_grekey (c_teid (vps v))) 21 (be16 (v1_seqno pckt) @ [0, 0] @ concat (map ie_bytes [(1, [0xC7])])) reply"
proof -
  have fr: "v1_sized v" "no_record (vps v)" "seqno v = v1_seqno pckt" "has_v1 HAVE_V1_QOS v \<longrightarrow> qos_len v \<noteq> 0"
    using read_fresh [OF assms(5)] unfolding v1_fresh_def by blast+
  obtain p0 where p0: "gtpc_alloc_packet (e_malloc_req E) (e_junk E) 0 = Some p0" using alloc_packet_some [of "e_malloc_req E"] assms(2) by blast
  define p where "p = p0\<lparr>g_saddr := p_saddr pckt, g_caddr := p_caddr pckt\<rparr>"
  have "p_data pckt 4 = byte_of 3 t \<and> p_data pckt 5 = byte_of 2 t \<and> p_data pckt 6 = byte_of 1 t \<and> p_data pckt 7 = byte_of 0 t"
    using arg_cong [OF assms(4), of "\<lambda>b. (b ! 0, b ! 1, b ! 2, b ! 3)"] by (simp add: be32_def)
  then have t: "ld32 (p_data pckt) 4 = bswap32 t" by (simp add: ld32_def bswap32_def)
  define v1 where "v1 = v\<lparr>base := (base v)\<lparr>gtph_teid := bswap32 t\<rparr>, reqtype_v1 := 21\<rparr>"
  have nr: "\<not> has HAVE_RECORD (base v1)" using fr(2) by (intro no_record_has) (simp add: v1_def)
  have "on_delete_pdp_ctx E d v1 = Some (d, v1, False)"
    using assms(6) nr by (simp add: on_delete_pdp_ctx_def v1_lookup_def v1_def records_def)
  then have run: "event_gtpc_v1_any_req E pckt (d, nd) = v1_denied E p v1 (d, nd)"
    using assms(3,5) p0 by (simp add: event_gtpc_v1_any_req_def v1_response_def v1_try_def t flip: p_def v1_def)
  have rd: "v1_ready v1" using fr by (simp add: v1_ready_def v1_sized_def v1_def session_ok_def has_v1_def)
  have "be32 (word_be (teid_grekey (c_teid (vps v1)))) = teid_grekey (c_teid (vps v))"
    using fr(1) length_teid [of "base v"] by (simp add: be32_word_be v1_sized_def v1_def)
  with v1_sent [OF assms(1) rd start_ies [where c = "0xC7"], where p = p and req = pckt and teid = "word_be (teid_grekey (c_teid (vps v1)))" and d = d and nd = nd]
  show ?thesis unfolding run v1_denied_def by (auto simp: p_def v1_def fr(3))
qed

theorem delete_pdp_misses_session_witness:
  "\<exists>E :: unit env. e_rows E () TEID_LOOKUP 0xABCDEF01 = Some [demo_row] \<and>
     (\<exists>reply. event_gtpc_v1_any_req E (demo_v1 20 0xABCDEF01 (concat (map ie_bytes demo_ies))) ((), empty_node) = Some (((), pgw_enq EGRESS reply empty_node), True) \<and>
        v1_reply_to (demo_v1 20 0xABCDEF01 (concat (map ie_bytes demo_ies))) [0x11, 0x22, 0x33, 0x44] 21
          (be16 (v1_seqno (demo_v1 20 0xABCDEF01 (concat (map ie_bytes demo_ies)))) @ [0, 0] @ concat (map ie_bytes [(1, [0xC7])])) reply)"
proof -
  let ?p = "demo_v1 20 0xABCDEF01 (concat (map ie_bytes demo_ies))"
  let ?E = "(demo_env [])\<lparr>e_rows := \<lambda>d s n. Some (if n = 0xABCDEF01 then [demo_row] else [])\<rparr>"
  note d = demo_v1_bytes [OF demo_ies_ok(2), of 20 "0xABCDEF01"]
  define v where "v = foldl (\<lambda>v e. v1_effect (e_junk ?E) e v) (zero_v1\<lparr>seqno := ldn16 (p_data ?p) 8\<rparr>) demo_ies"
  have v: "v1_read (e_junk ?E) ?p = Some (Inr v)" unfolding v_def by (rule demo_read)
  have s: "teid_grekey (c_teid (vps v)) = [0x11, 0x22, 0x33, 0x44]" unfolding v_def by (rule demo_state)
  have ok: "env_ok ?E" using demo_env_ok(2) by (simp add: env_ok_def memory_ok_def demo_env_def row_ok_def)
  have e: "e_malloc_req ?E 0" "e_rows ?E () TEID_LOOKUP (ucast (bswap32 (0xABCDEF01 :: 32 word))) = Some []"
    "e_rows ?E () TEID_LOOKUP 0xABCDEF01 = Some [demo_row]"
    by (simp_all add: demo_env_def bswap32_def byte_of_def mk32_def)
  from delete_pdp_misses_session [OF ok e(1) d(2,3) v e(2), of empty_node] e(3) show ?thesis unfolding s by blast
qed

end
