(* ===== verification/Ctrl_Peers.thy ===== *)
theory Ctrl_Peers
  imports Session_Table
begin

text \<open>
  The table of known serving gateways (\<open>ctrlplane/src/cmn/sgw_peers.c\<close>, the build that keeps it as a list): every
  peer by its address, with the restart counter it announced first and a time. The magic octets behind the structure guard
  against a wild free and are not modelled.
\<close>

section \<open>Data and operations\<close>

record sgw_peer =
  peer_ip :: "32 word"
  peer_counter :: "32 word"
  peer_expire :: "32 word"

record sgw_peers =
  peers :: "sgw_peer list"
  peers_count :: "32 word"
  peers_updated :: "32 word"

definition pgw_create_sgw_peers :: "bool \<Rightarrow> 32 word \<Rightarrow> sgw_peers option" where
  "pgw_create_sgw_peers malloc now = (if \<not> malloc then None else Some \<lparr>peers = [], peers_count = 0, peers_updated = now\<rparr>)"

text \<open>The search of \<open>pgw_set_sgw_peer\<close>; \<open>None\<close> when the address is not in the list.\<close>

fun set_peer :: "32 word \<Rightarrow> 32 word \<Rightarrow> 32 word \<Rightarrow> sgw_peer list \<Rightarrow> sgw_peer list option" where
  "set_peer ip counter expire [] = None"
| "set_peer ip counter expire (p # ps) =
     (if peer_ip p = ip then Some (p\<lparr>peer_counter := counter, peer_expire := expire\<rparr> # ps)
      else map_option ((#) p) (set_peer ip counter expire ps))"

definition pgw_set_sgw_peer :: "bool \<Rightarrow> sgw_peers \<Rightarrow> 32 word \<Rightarrow> 32 word \<Rightarrow> 32 word \<Rightarrow> sgw_peers \<times> bool" where
  "pgw_set_sgw_peer malloc P ip counter expire =
     (if ip = 0 then (P, False)
      else case set_peer ip counter expire (peers P) of
        Some ps \<Rightarrow> (P\<lparr>peers := ps\<rparr>, True)
      | None \<Rightarrow>
          if \<not> malloc then (P, False)
          else (P\<lparr>peers := peers P @ [\<lparr>peer_ip = ip, peer_counter = counter, peer_expire = expire\<rparr>],
                  peers_count := peers_count P + 1\<rparr>, True))"

text \<open>
  A callback gets the peer itself and may change it. The address with all bits set stands for every peer; otherwise the first
  match ends the search.
\<close>

fun visit_peers :: "32 word \<Rightarrow> ('u \<Rightarrow> sgw_peer \<Rightarrow> 'u \<times> sgw_peer) \<Rightarrow> 'u \<Rightarrow> sgw_peer list \<Rightarrow> 'u \<times> sgw_peer list \<times> bool" where
  "visit_peers ip callback u [] = (u, [], False)"
| "visit_peers ip callback u (p # ps) =
     (if ip = - 1 then
        case callback u p of (u, p) \<Rightarrow> case visit_peers ip callback u ps of (u, ps, _) \<Rightarrow> (u, p # ps, True)
      else if peer_ip p = ip then case callback u p of (u, p) \<Rightarrow> (u, p # ps, True)
      else case visit_peers ip callback u ps of (u, ps, exists) \<Rightarrow> (u, p # ps, exists))"

definition pgw_get_sgw_peer :: "sgw_peers \<Rightarrow> 32 word \<Rightarrow> ('u \<Rightarrow> sgw_peer \<Rightarrow> 'u \<times> sgw_peer) \<Rightarrow> 'u \<Rightarrow> 'u \<times> sgw_peers \<times> bool" where
  "pgw_get_sgw_peer P ip callback u =
     (case visit_peers ip callback u (peers P) of (u, ps, exists) \<Rightarrow> (u, P\<lparr>peers := ps\<rparr>, exists))"

fun delete_peer :: "32 word \<Rightarrow> sgw_peer list \<Rightarrow> sgw_peer list" where
  "delete_peer ip [] = []"
| "delete_peer ip (p # ps) = (if peer_ip p = ip then ps else p # delete_peer ip ps)"

definition pgw_delete_sgw_peer :: "sgw_peers \<Rightarrow> 32 word \<Rightarrow> sgw_peers" where
  "pgw_delete_sgw_peer P ip = P\<lparr>peers := delete_peer ip (peers P)\<rparr>"

section \<open>The table as a map\<close>

definition peers_inv :: "sgw_peers \<Rightarrow> bool" where
  "peers_inv P \<longleftrightarrow> distinct (map peer_ip (peers P)) \<and> 0 \<notin> set (map peer_ip (peers P))"

definition peer_of :: "sgw_peer list \<Rightarrow> 32 word \<Rightarrow> (32 word \<times> 32 word) option" where
  "peer_of ps = map_of (map (\<lambda>p. (peer_ip p, (peer_counter p, peer_expire p))) ps)"

lemma peer_of_simps [simp]:
  "peer_of [] = Map.empty"
  "peer_of (p # ps) = (peer_of ps)(peer_ip p \<mapsto> (peer_counter p, peer_expire p))"
  by (simp_all add: peer_of_def)

lemma peer_of_None: "peer_of ps ip = None \<longleftrightarrow> ip \<notin> peer_ip ` set ps"
  by (simp add: peer_of_def map_of_eq_None_iff image_image)

lemma peer_of_snoc: "peer_of ps (peer_ip p) = None \<Longrightarrow> peer_of (ps @ [p]) = (peer_of ps)(peer_ip p \<mapsto> (peer_counter p, peer_expire p))"
  by (induction ps) (auto split: if_splits intro: fun_upd_twist)

lemma set_peer_None: "set_peer ip c e ps = None \<longleftrightarrow> peer_of ps ip = None"
  by (induction ps) auto

lemma set_peer_Some:
  assumes "set_peer ip c e ps = Some ps'"
  shows "peer_of ps' = (peer_of ps)(ip \<mapsto> (c, e)) \<and> map peer_ip ps' = map peer_ip ps"
  using assms by (induction ps arbitrary: ps') (auto simp: fun_upd_twist split: if_splits)

lemma delete_peer_laws:
  "distinct (map peer_ip ps) \<Longrightarrow> peer_of (delete_peer ip ps) = (peer_of ps)(ip := None)"
  "set (delete_peer ip ps) \<subseteq> set ps"
  "distinct (map peer_ip ps) \<Longrightarrow> distinct (map peer_ip (delete_peer ip ps))"
proof -
  show s: "set (delete_peer ip ps) \<subseteq> set ps" for ps by (induction ps) auto
  show "distinct (map peer_ip (delete_peer ip ps))" if "distinct (map peer_ip ps)"
    using that s by (induction ps) fastforce+
  show "peer_of (delete_peer ip ps) = (peer_of ps)(ip := None)" if "distinct (map peer_ip ps)"
    using that
  proof (induction ps)
    case (Cons p ps)
    then show ?case by (cases "peer_ip p = ip") (auto simp: fun_upd_twist peer_of_None fun_upd_idem)
  qed simp
qed

text \<open>A visit with one address is a lookup, and writes back what the callback made of the peer.\<close>

lemma visit_one:
  assumes "ip \<noteq> - 1" "\<And>u p. peer_ip (snd (f u p)) = peer_ip p"
  shows "case visit_peers ip f u ps of (u', ps', exists) \<Rightarrow>
    map peer_ip ps' = map peer_ip ps \<and> exists = (peer_of ps ip \<noteq> None) \<and>
    (case peer_of ps ip of None \<Rightarrow> u' = u \<and> ps' = ps
     | Some (c, e) \<Rightarrow> let (v, p) = f u \<lparr>peer_ip = ip, peer_counter = c, peer_expire = e\<rparr> in
         u' = v \<and> peer_of ps' = (peer_of ps)(ip \<mapsto> (peer_counter p, peer_expire p)))"
proof (induction ps)
  case (Cons p ps)
  show ?case
  proof (cases "peer_ip p = ip")
    case True
    then have p: "\<lparr>peer_ip = ip, peer_counter = peer_counter p, peer_expire = peer_expire p\<rparr> = p" by simp
    obtain v q where "f u p = (v, q)" by fastforce
    moreover from this have "peer_ip q = ip" using assms(2) [of u p] True by simp
    ultimately show ?thesis using True assms(1) by (simp add: p)
  next
    case False
    then show ?thesis using Cons assms(1) by (auto simp: fun_upd_twist split: prod.splits option.splits)
  qed
qed simp


section \<open>Interface\<close>

definition lookup_peer :: "sgw_peers \<Rightarrow> 32 word \<Rightarrow> (32 word \<times> 32 word) option" where
  "lookup_peer P ip = fst (pgw_get_sgw_peer P ip (\<lambda>u p. (Some (peer_counter p, peer_expire p), p)) None)"

definition store_peer :: "sgw_peers \<Rightarrow> 32 word \<Rightarrow> 32 word \<times> 32 word \<Rightarrow> sgw_peers" where
  "store_peer P ip v = fst (pgw_set_sgw_peer True P ip (fst v) (snd v))"

definition peer_key :: "sgw_peers \<Rightarrow> 32 word \<Rightarrow> bool" where
  "peer_key P ip \<longleftrightarrow> ip \<noteq> 0 \<and> ip \<noteq> - 1"

lemma lookup_peer_of: "ip \<noteq> - 1 \<Longrightarrow> lookup_peer P ip = peer_of (peers P) ip"
  using visit_one [of ip "\<lambda>u p. (Some (peer_counter p, peer_expire p), p)" "peers P" None]
  by (auto simp: lookup_peer_def pgw_get_sgw_peer_def split: prod.splits option.splits)

lemma store_peer_of: "ip \<noteq> 0 \<Longrightarrow> peer_of (peers (store_peer P ip v)) = (peer_of (peers P))(ip \<mapsto> v)"
  using set_peer_Some [of ip "fst v" "snd v" "peers P"] peer_of_snoc [of "peers P" "\<lparr>peer_ip = ip, peer_counter = fst v, peer_expire = snd v\<rparr>"]
  by (auto simp: store_peer_def pgw_set_sgw_peer_def set_peer_None split: option.splits)

lemma store_peer_inv: "peers_inv P \<Longrightarrow> ip \<noteq> 0 \<Longrightarrow> peers_inv (store_peer P ip v)"
  using set_peer_Some [of ip "fst v" "snd v" "peers P"] set_peer_None [of ip "fst v" "snd v" "peers P"]
  by (auto simp: store_peer_def pgw_set_sgw_peer_def peers_inv_def peer_of_None split: option.splits simp flip: set_map)

interpretation sgw: session_table peers_inv peer_key lookup_peer store_peer pgw_delete_sgw_peer id
proof
  fix P :: sgw_peers and ip ip' v
  assume inv: "peers_inv P" and k: "peer_key P ip"
  show "peers_inv (store_peer P ip v)" using inv k by (simp add: store_peer_inv peer_key_def)
  show "peers_inv (pgw_delete_sgw_peer P ip)"
    using inv delete_peer_laws(2,3) [where ps = "peers P" and ip = ip] by (auto simp: peers_inv_def pgw_delete_sgw_peer_def)
  assume k': "peer_key P ip'"
  show "lookup_peer (store_peer P ip v) ip' = (if ip' = ip then Some (id v) else lookup_peer P ip')"
    using k k' by (simp add: peer_key_def lookup_peer_of store_peer_of)
  show "lookup_peer (pgw_delete_sgw_peer P ip) ip' = (if ip' = ip then None else lookup_peer P ip')"
    using inv k' by (simp add: peer_key_def lookup_peer_of pgw_delete_sgw_peer_def delete_peer_laws peers_inv_def)
qed (simp_all add: peer_key_def)

section \<open>Properties\<close>

text \<open>The table of serving gateways answers with the last event: after any sequence of sets and deletes of peers, on addresses that are
  neither zero nor the one that stands for every peer, the lookup of an address finds the counter and the time set last for it, and nothing
  when it was deleted last; no address is ever listed twice.\<close>

theorem peer_table_answers_last_event:
  assumes "peers_inv P" "\<forall>e \<in> set es. peer_key P (tevent_key e)" "peer_key P ip"
  shows "lookup_peer (foldl sgw.apply_event P es) ip = expected id (lookup_peer P ip) ip es \<and>
    distinct (map peer_ip (peers (foldl sgw.apply_event P es)))"
  using sgw.find_apply_events [OF assms(1) _ assms(3), of es] sgw.apply_events_inv [OF assms(1), of es] assms(2)
  by (simp add: peers_inv_def)

theorem peer_table_answers_last_event_witness:
  "\<exists>P. pgw_create_sgw_peers True 0 = Some P \<and>
     lookup_peer (foldl sgw.apply_event P [Store 5 (7, 100), Store 6 (1, 100), Store 5 (8, 200), Erase 6]) 5 = Some (8, 200)"
proof -
  let ?P = "\<lparr>peers = [], peers_count = 0, peers_updated = 0\<rparr>" and ?es = "[Store 5 (7, 100), Store 6 (1, 100), Store 5 (8, 200), Erase 6]"
  have "peers_inv ?P" "\<forall>e \<in> set ?es. peer_key ?P (tevent_key e)" "peer_key ?P 5" by (simp_all add: peers_inv_def peer_key_def)
  from peer_table_answers_last_event [OF this] show ?thesis by (simp add: pgw_create_sgw_peers_def)
qed

end
