(* ===== verification/Ctrl_Echo.thy ===== *)
theory Ctrl_Echo
  imports Ctrl_Peers Gtpc_Session
begin

text \<open>
  Echo messages of the control plane (\<open>ctrlplane/src/pgw/event/event_gtpc_echo.c\<close>, \<open>event_gtpu_echo.c\<close>): an Echo Request is
  answered, an Echo Response marks the peer alive in the table \<open>keepalive\<close>, and the restart counter of a serving gateway is
  compared with the one it announced first. The clock, the results of \<open>malloc\<close> and the database are parameters; \<open>pgw_panic\<close>
  is \<open>None\<close>.
\<close>

section \<open>State\<close>

text \<open>The results of the calls are indexed by the position of the packet in its burst.\<close>

record 'd echo_env =
  ee_query :: "'d \<Rightarrow> string \<Rightarrow> 'd \<times> bool"
  ee_dup :: "nat \<Rightarrow> bool"
  ee_junk :: mem
  ee_peer_malloc :: "nat \<Rightarrow> bool"
  ee_now :: "nat \<Rightarrow> 32 word"
  ee_server_id :: string

record 'd echo_state =
  ec_db :: 'd
  ec_peers :: "sgw_peers option"
  ec_node :: node
  ec_freed :: "packet list"

text \<open>The fields of a \<open>struct sockaddr_in\<close>: the port in host order, the address as its four octets.\<close>

definition sin_port :: "byte list \<Rightarrow> 16 word" where
  "sin_port a = mk16 (a ! 3) (a ! 2)"

definition sin_addr :: "byte list \<Rightarrow> byte list" where
  "sin_addr a = take 4 (drop 4 a)"

definition status_sql :: "string \<Rightarrow> string \<Rightarrow> string \<Rightarrow> string \<Rightarrow> string \<Rightarrow> string \<Rightarrow> string" where
  "status_sql stat src_ip src_port dst_ip dst_port server_id =
     take 1022 (concat [''UPDATE  keepalive SET stat = '', stat, '', updated_at = NOW() WHERE src_ip='', quoted src_ip,
       '' AND src_port= '', src_port, '' AND  dst_ip='', quoted dst_ip, '' AND dst_port= '', dst_port, '' AND server_id='', quoted server_id, '' ''])"

definition change_status_sql :: "string \<Rightarrow> byte list \<Rightarrow> byte list \<Rightarrow> string \<Rightarrow> string" where
  "change_status_sql stat src dst server_id =
     status_sql stat (ntoa (sin_addr src)) (num (sin_port src)) (ntoa (sin_addr dst)) (num (sin_port dst)) server_id"

definition echo_restart_sql :: "32 word \<Rightarrow> 32 word \<Rightarrow> string" where
  "echo_restart_sql ip counter =
     take 254 (concat [''UPDATE tunnel SET active=0, `latest_gtp_version`=2 WHERE sgw_gtpc_ipv = '', quoted (ntoa (le32 ip)),
       '' AND `restart_counter` < '', num counter])"

section \<open>Restart counters\<close>

record observer =
  ot_result :: bool
  ot_ip :: "32 word"
  ot_counter :: "32 word"
  ot_expire :: "32 word"

definition on_sgw_peer_find_extend :: "32 word \<Rightarrow> observer \<Rightarrow> sgw_peer \<Rightarrow> observer \<times> sgw_peer" where
  "on_sgw_peer_find_extend in_expire c p =
     (c\<lparr>ot_counter := peer_counter p, ot_ip := peer_ip p, ot_expire := peer_expire p, ot_result := True\<rparr>, p\<lparr>peer_expire := in_expire\<rparr>)"

definition observer_sgw_peers :: "'d echo_env \<Rightarrow> nat \<Rightarrow> 32 word \<Rightarrow> 32 word \<Rightarrow> 'd echo_state \<Rightarrow> 'd echo_state option" where
  "observer_sgw_peers E m ipv4 counter s =
     (if ipv4 = 0 \<or> counter = - 1 then Some s
      else case ec_peers s of
        None \<Rightarrow> Some s
      | Some P \<Rightarrow>
          (case pgw_get_sgw_peer P ipv4 (on_sgw_peer_find_extend (ee_now E m)) \<lparr>ot_result = False, ot_ip = 0, ot_counter = 0, ot_expire = 0\<rparr> of
             (c, P, found) \<Rightarrow>
               if \<not> found \<or> \<not> ot_result c then
                 case pgw_set_sgw_peer (ee_peer_malloc E m) P ipv4 counter (ee_now E m) of
                   (P, ok) \<Rightarrow> if ok then Some (s\<lparr>ec_peers := Some P\<rparr>) else None
               else if ot_counter c \<noteq> counter then
                 Some (s\<lparr>ec_peers := Some P, ec_db := fst (ee_query E (ec_db s) (echo_restart_sql ipv4 counter))\<rparr>)
               else Some (s\<lparr>ec_peers := Some P\<rparr>)))"

section \<open>Echo of GTP-C\<close>

text \<open>
  The Recovery item of a request, right behind a header with or without a tunnel identifier and alone in the message: its
  counter is read and set to 0 in the packet. Without one, the counter read before stays.
\<close>

definition recovery_at :: "mem \<Rightarrow> nat" where
  "recovery_at d = (if bit (d 0) 3 then 12 else 8)"

definition has_recovery :: "mem \<Rightarrow> bool" where
  "has_recovery d \<longleftrightarrow> unat (ldn16 d 2) = recovery_at d - 4 + 5 \<and> d (recovery_at d) = 3"

definition take_recovery :: "32 word \<Rightarrow> packet \<Rightarrow> 32 word \<times> packet" where
  "take_recovery restart_counter p =
     (let d = p_data p in
      if has_recovery d then (ucast (d (recovery_at d + 4)), p\<lparr>p_data := d(recovery_at d + 4 := 0)\<rparr>) else (restart_counter, p))"

definition echo_reply :: "packet \<Rightarrow> packet" where
  "echo_reply p = pgw_swap_address (p\<lparr>p_data := (p_data p)(1 := 2)\<rparr>)"

text \<open>Both echo nodes answer a request with a copy of it and then with the response.\<close>

definition send_echo :: "'d echo_env \<Rightarrow> nat \<Rightarrow> packet \<Rightarrow> 'd echo_state \<Rightarrow> 'd echo_state option" where
  "send_echo E m p s =
     (case pgw_duplicate_packet (ee_dup E m) (ee_junk E) p of
        None \<Rightarrow> None
      | Some pkt \<Rightarrow> Some (s\<lparr>ec_node := pgw_enq EGRESS (echo_reply p) (pgw_enq EGRESS (pgw_swap_address pkt) (ec_node s))\<rparr>))"

definition echo_response :: "'d echo_env \<Rightarrow> packet \<Rightarrow> 'd echo_state \<Rightarrow> 'd echo_state" where
  "echo_response E p s =
     s\<lparr>ec_db := fst (ee_query E (ec_db s) (change_status_sql ''2'' (p_caddr p) (p_saddr p) (ee_server_id E))),
       ec_freed := ec_freed s @ [p]\<rparr>"

fun gtpc_echo_loop :: "'d echo_env \<Rightarrow> nat \<Rightarrow> 32 word \<Rightarrow> packet list \<Rightarrow> 'd echo_state \<Rightarrow> 'd echo_state option" where
  "gtpc_echo_loop E m restart_counter [] s = Some s"
| "gtpc_echo_loop E m restart_counter (p # pkts) s =
     (if p_data p 1 = 1 then
        let (restart_counter, p) = take_recovery restart_counter p in
        do {
          s \<leftarrow> (if restart_counter \<noteq> - 1 then observer_sgw_peers E m (word_le (sin_addr (p_saddr p))) restart_counter s else Some s);
          s \<leftarrow> send_echo E m p s;
          gtpc_echo_loop E (Suc m) restart_counter pkts s
        }
      else if p_data p 1 = 2 then gtpc_echo_loop E (Suc m) restart_counter pkts (echo_response E p s)
      else gtpc_echo_loop E (Suc m) restart_counter pkts s)"

definition event_gtpc_echo_req :: "'d echo_env \<Rightarrow> 'd echo_state \<Rightarrow> ('d echo_state \<times> bool) option" where
  "event_gtpc_echo_req E s =
     (case pgw_deq_burst INGRESS 32 (ec_node s) of (pkts, nd) \<Rightarrow>
        if pkts \<noteq> [] then map_option (\<lambda>s. (s, True)) (gtpc_echo_loop E 0 (- 1) pkts (s\<lparr>ec_node := nd\<rparr>))
        else Some (s\<lparr>ec_node := nd\<rparr>, False))"

section \<open>Echo of GTP-U\<close>

fun gtpu_echo_loop :: "'d echo_env \<Rightarrow> nat \<Rightarrow> packet list \<Rightarrow> 'd echo_state \<Rightarrow> 'd echo_state option" where
  "gtpu_echo_loop E m [] s = Some s"
| "gtpu_echo_loop E m (p # pkts) s =
     (if p_data p 1 = 1 then do { s \<leftarrow> send_echo E m p s; gtpu_echo_loop E (Suc m) pkts s }
      else if p_data p 1 = 2 then gtpu_echo_loop E (Suc m) pkts (echo_response E p s)
      else gtpu_echo_loop E (Suc m) pkts s)"

definition event_gtpu_echo_req :: "'d echo_env \<Rightarrow> 'd echo_state \<Rightarrow> ('d echo_state \<times> bool) option" where
  "event_gtpu_echo_req E s =
     (case pgw_deq_burst INGRESS 32 (ec_node s) of (pkts, nd) \<Rightarrow>
        if pkts \<noteq> [] then map_option (\<lambda>s. (s, True)) (gtpu_echo_loop E 0 pkts (s\<lparr>ec_node := nd\<rparr>))
        else Some (s\<lparr>ec_node := nd\<rparr>, False))"


section \<open>What a burst does\<close>

text \<open>
  The table of peers refines a map from addresses to counters. A request is observed with the counter it carries, or with the
  last one before it in its burst.
\<close>

definition known :: "sgw_peers \<Rightarrow> 32 word \<Rightarrow> 32 word option" where
  "known P ip = map_option fst (peer_of (peers P) ip)"

definition observed :: "32 word \<Rightarrow> 32 word \<Rightarrow> (32 word \<rightharpoonup> 32 word) \<Rightarrow> (32 word \<rightharpoonup> 32 word) \<times> string list" where
  "observed ip counter k =
     (if ip = 0 \<or> counter = - 1 then (k, [])
      else case k ip of
        None \<Rightarrow> (k(ip \<mapsto> counter), [])
      | Some c \<Rightarrow> (k, if c = counter then [] else [echo_restart_sql ip counter]))"

definition source_ip :: "packet \<Rightarrow> 32 word" where
  "source_ip p = word_le (sin_addr (p_saddr p))"

fun echo_requests :: "32 word \<Rightarrow> packet list \<Rightarrow> (32 word \<times> packet) list" where
  "echo_requests c [] = []"
| "echo_requests c (p # pkts) =
     (if p_data p 1 = 1 then take_recovery c p # echo_requests (fst (take_recovery c p)) pkts else echo_requests c pkts)"

fun echo_effect :: "string \<Rightarrow> 32 word \<Rightarrow> packet list \<Rightarrow> (32 word \<rightharpoonup> 32 word) \<Rightarrow> (32 word \<rightharpoonup> 32 word) \<times> string list" where
  "echo_effect sid c [] k = (k, [])"
| "echo_effect sid c (p # pkts) k =
     (if p_data p 1 = 1 then
        let c = fst (take_recovery c p); (k, q) = observed (source_ip p) c k; (k, qs) = echo_effect sid c pkts k in (k, q @ qs)
      else if p_data p 1 = 2 then
        let (k, qs) = echo_effect sid c pkts k in (k, change_status_sql ''2'' (p_caddr p) (p_saddr p) sid # qs)
      else echo_effect sid c pkts k)"

definition run_queries :: "('d \<Rightarrow> string \<Rightarrow> 'd \<times> bool) \<Rightarrow> 'd \<Rightarrow> string list \<Rightarrow> 'd" where
  "run_queries query d qs = foldl (\<lambda>d q. fst (query d q)) d qs"

definition echo_pair :: "mem \<Rightarrow> packet \<Rightarrow> packet list" where
  "echo_pair junk p =
     [pgw_swap_address (p\<lparr>p_data := (\<lambda>i. if i < unat (p_datalen p) then p_data p i else junk i)\<rparr>), echo_reply p]"

lemma run_queries_simps [simp]:
  "run_queries f d [] = d" "run_queries f d (q # qs) = run_queries f (fst (f d q)) qs"
  "run_queries f d (qs @ qs') = run_queries f (run_queries f d qs) qs'"
  by (simp_all add: run_queries_def)

lemma take_recovery_source [simp]: "p_saddr (snd (take_recovery c p)) = p_saddr p"
  by (simp add: take_recovery_def Let_def)

lemma observer_refines:
  assumes "ee_peer_malloc E m" "ec_peers s = Some P" "peers_inv P" "ip \<noteq> - 1" "c \<noteq> - 1"
  shows "\<exists>P'. observer_sgw_peers E m ip c s =
      Some (s\<lparr>ec_peers := Some P', ec_db := run_queries (ee_query E) (ec_db s) (snd (observed ip c (known P)))\<rparr>) \<and>
    peers_inv P' \<and> known P' = fst (observed ip c (known P))"
proof (cases "ip = 0")
  case True
  then show ?thesis using assms by (intro exI [of _ P]) (simp add: observer_sgw_peers_def observed_def)
next
  case False
  let ?f = "on_sgw_peer_find_extend (ee_now E m)" and ?c0 = "\<lparr>ot_result = False, ot_ip = 0, ot_counter = 0, ot_expire = 0\<rparr>"
  obtain v ps' e where v: "visit_peers ip ?f ?c0 (peers P) = (v, ps', e)" by (cases "visit_peers ip ?f ?c0 (peers P)")
  note one = visit_one [of ip ?f "peers P" ?c0, OF assms(4), unfolded v, simplified on_sgw_peer_find_extend_def, simplified]
  show ?thesis
  proof (cases "peer_of (peers P) ip")
    case None
    then have n: "v = ?c0" "ps' = peers P" "\<not> e" using one by simp_all
    let ?P = "P\<lparr>peers := peers P @ [\<lparr>peer_ip = ip, peer_counter = c, peer_expire = ee_now E m\<rparr>], peers_count := peers_count P + 1\<rparr>"
    have "set_peer ip c (ee_now E m) (peers P) = None" using None by (simp add: set_peer_None)
    moreover have "peers_inv ?P" using assms(3) None False by (auto simp: peers_inv_def peer_of_None)
    moreover have "known ?P = fst (observed ip c (known P))"
      using None False assms(5) by (auto simp: known_def observed_def peer_of_snoc)
    ultimately show ?thesis using False assms(1,2,5) None v n
      by (intro exI [of _ ?P]) (simp add: observer_sgw_peers_def pgw_get_sgw_peer_def pgw_set_sgw_peer_def observed_def known_def)
  next
    case (Some ce)
    then obtain c' x where ce: "peer_of (peers P) ip = Some (c', x)" by (cases ce) auto
    then have n: "ot_result v" "ot_counter v = c'" "e" "peer_of ps' = (peer_of (peers P))(ip \<mapsto> (c', ee_now E m))"
      "map peer_ip ps' = map peer_ip (peers P)"
      using one by simp_all
    let ?P = "P\<lparr>peers := ps'\<rparr>"
    have "peers_inv ?P" using assms(3) n(5) by (simp add: peers_inv_def)
    moreover have "known ?P = fst (observed ip c (known P))"
      using ce False assms(5) n(4) by (auto simp: known_def observed_def)
    ultimately show ?thesis using False assms(2,5) ce v n(1-3)
      by (intro exI [of _ ?P]) (simp add: observer_sgw_peers_def pgw_get_sgw_peer_def observed_def known_def)
  qed
qed

lemma send_echo_sends:
  assumes "ee_dup E m" "node_ok (ec_node s)" "length (side EGRESS (ec_node s)) + 2 \<le> 20 * 1024"
  shows "\<exists>nd. send_echo E m p s = Some (s\<lparr>ec_node := nd\<rparr>) \<and> node_ok nd \<and>
    side EGRESS nd = side EGRESS (ec_node s) @ echo_pair (ee_junk E) p \<and> side INGRESS nd = side INGRESS (ec_node s) \<and>
    refused nd = refused (ec_node s)"
proof -
  define dup where "dup = pgw_swap_address (p\<lparr>p_data := (\<lambda>i. if i < unat (p_datalen p) then p_data p i else ee_junk E i)\<rparr>)"
  note a = enq_side [where dir = EGRESS and p = dup, OF assms(2)]
  note b = enq_side [where dir = EGRESS and p = "echo_reply p", OF a(1)]
  have "send_echo E m p s = Some (s\<lparr>ec_node := pgw_enq EGRESS (echo_reply p) (pgw_enq EGRESS dup (ec_node s))\<rparr>)"
    using assms(1) by (simp add: send_echo_def pgw_duplicate_packet_def dup_def)
  then show ?thesis using assms(3) a b by (intro exI conjI) (assumption, simp_all add: echo_pair_def dup_def [symmetric])
qed


text \<open>What both nodes owe for a burst: the answers in order, the responses freed, nothing refused.\<close>

definition echoed :: "mem \<Rightarrow> packet list \<Rightarrow> packet list \<Rightarrow> 'd echo_state \<Rightarrow> 'd echo_state \<Rightarrow> bool" where
  "echoed junk reqs pkts s s' \<longleftrightarrow> node_ok (ec_node s') \<and>
     side EGRESS (ec_node s') = side EGRESS (ec_node s) @ concat (map (echo_pair junk) reqs) \<and>
     side INGRESS (ec_node s') = side INGRESS (ec_node s) \<and> refused (ec_node s') = refused (ec_node s) \<and>
     ec_freed s' = ec_freed s @ filter (\<lambda>p. p_data p 1 = 2) pkts"

lemma echoed_send:
  assumes "ee_dup E m" "node_ok (ec_node s)" "length (side EGRESS (ec_node s)) + 2 \<le> 20 * 1024"
  obtains nd where "send_echo E m p s = Some (s\<lparr>ec_node := nd\<rparr>)" "node_ok nd"
    "length (side EGRESS nd) = length (side EGRESS (ec_node s)) + 2"
    "\<And>reqs pkts s'. echoed (ee_junk E) reqs pkts (s\<lparr>ec_node := nd\<rparr>) s' \<Longrightarrow> q = p \<or> p_data q 1 = 1 \<Longrightarrow> p_data q 1 \<noteq> 2 \<Longrightarrow>
       echoed (ee_junk E) (p # reqs) (q # pkts) s s'"
  using send_echo_sends [OF assms, of p] by (auto simp: echoed_def echo_pair_def)

lemma gtpc_echo_loop_echoes:
  assumes "\<forall>m. ee_dup E m \<and> ee_peer_malloc E m" "ec_peers s = Some P" "peers_inv P" "node_ok (ec_node s)"
    "length (side EGRESS (ec_node s)) + 2 * length pkts \<le> 20 * 1024" "\<forall>p \<in> set pkts. source_ip p \<noteq> - 1"
  shows "\<exists>s' P'. gtpc_echo_loop E m c pkts s = Some s' \<and> echoed (ee_junk E) (map snd (echo_requests c pkts)) pkts s s' \<and>
    ec_peers s' = Some P' \<and> peers_inv P' \<and> known P' = fst (echo_effect (ee_server_id E) c pkts (known P)) \<and>
    ec_db s' = run_queries (ee_query E) (ec_db s) (snd (echo_effect (ee_server_id E) c pkts (known P)))"
  using assms
proof (induction pkts arbitrary: m c s P)
  case Nil
  then show ?case by (auto simp: echoed_def)
next
  case (Cons p pkts)
  show ?case
  proof (cases "p_data p 1 = 1")
    case True
    obtain c1 p1 where r: "take_recovery c p = (c1, p1)" by fastforce
    have src: "p_saddr p1 = p_saddr p" using take_recovery_source [of c p] r by simp
    let ?ob = "observed (source_ip p) c1 (known P)"
    let ?s = "\<lambda>P'. s\<lparr>ec_peers := Some P', ec_db := run_queries (ee_query E) (ec_db s) (snd ?ob)\<rparr>"
    obtain P1 where P1: "(if c1 \<noteq> - 1 then observer_sgw_peers E m (source_ip p) c1 s else Some s) = Some (?s P1)"
      "peers_inv P1" "known P1 = fst ?ob"
    proof (cases "c1 = - 1")
      case True
      then show ?thesis using Cons.prems(2,3) by (intro that [of P]) (simp_all add: observed_def)
    next
      case False
      then show ?thesis using observer_refines [of E m s P "source_ip p" c1] Cons.prems that by auto
    qed
    obtain nd where nd: "send_echo E m p1 (?s P1) = Some ((?s P1)\<lparr>ec_node := nd\<rparr>)" "node_ok nd"
      "length (side EGRESS nd) = length (side EGRESS (ec_node (?s P1))) + 2"
      "\<And>reqs pkts s'. echoed (ee_junk E) reqs pkts ((?s P1)\<lparr>ec_node := nd\<rparr>) s' \<Longrightarrow> p = p1 \<or> p_data p 1 = 1 \<Longrightarrow> p_data p 1 \<noteq> 2 \<Longrightarrow>
         echoed (ee_junk E) (p1 # reqs) (p # pkts) (?s P1) s'"
      using Cons.prems by (rule_tac echoed_send [of E m "?s P1" p1 p]) simp_all
    obtain s' P' where s': "gtpc_echo_loop E (Suc m) c1 pkts ((?s P1)\<lparr>ec_node := nd\<rparr>) = Some s'"
      "echoed (ee_junk E) (map snd (echo_requests c1 pkts)) pkts ((?s P1)\<lparr>ec_node := nd\<rparr>) s'"
      "ec_peers s' = Some P'" "peers_inv P'" "known P' = fst (echo_effect (ee_server_id E) c1 pkts (known P1))"
      "ec_db s' = run_queries (ee_query E) (ec_db (?s P1)) (snd (echo_effect (ee_server_id E) c1 pkts (known P1)))"
      using Cons.IH [of "(?s P1)\<lparr>ec_node := nd\<rparr>" P1 "Suc m" c1] Cons.prems P1(2) nd(2,3) by auto
    have "gtpc_echo_loop E m c (p # pkts) s = (if c1 \<noteq> - 1 then observer_sgw_peers E m (source_ip p) c1 s else Some s) \<bind>
        (\<lambda>s. send_echo E m p1 s \<bind> gtpc_echo_loop E (Suc m) c1 pkts)"
      using True r src by (simp add: source_ip_def)
    then have "gtpc_echo_loop E m c (p # pkts) s = Some s'" using nd(1) s'(1) by (simp add: P1(1))
    moreover have "echoed (ee_junk E) (map snd (echo_requests c (p # pkts))) (p # pkts) s s'"
      using nd(4) [OF s'(2)] True r by (simp add: echoed_def)
    ultimately show ?thesis using s'(3-6) P1(3) True r by (auto simp: Let_def split: prod.splits)
  next
    case False
    define s1 where "s1 = (if p_data p 1 = 2 then echo_response E p s else s)"
    have s1: "ec_peers s1 = Some P" "ec_node s1 = ec_node s" using Cons.prems(2) by (simp_all add: s1_def echo_response_def)
    obtain s' P' where s': "gtpc_echo_loop E (Suc m) c pkts s1 = Some s'"
      "echoed (ee_junk E) (map snd (echo_requests c pkts)) pkts s1 s'"
      "ec_peers s' = Some P'" "peers_inv P'" "known P' = fst (echo_effect (ee_server_id E) c pkts (known P))"
      "ec_db s' = run_queries (ee_query E) (ec_db s1) (snd (echo_effect (ee_server_id E) c pkts (known P)))"
      using Cons.IH [of s1 P "Suc m" c] Cons.prems s1 by auto
    have "gtpc_echo_loop E m c (p # pkts) s = Some s'" using False s'(1) by (simp add: s1_def split: if_splits)
    moreover have "echoed (ee_junk E) (map snd (echo_requests c (p # pkts))) (p # pkts) s s'"
      using s'(2) False by (auto simp: s1_def echoed_def echo_response_def)
    ultimately show ?thesis using s'(3-6) False by (auto simp: s1_def echo_response_def split: prod.splits)
  qed
qed


lemma gtpu_echo_loop_echoes:
  assumes "\<forall>m. ee_dup E m" "node_ok (ec_node s)" "length (side EGRESS (ec_node s)) + 2 * length pkts \<le> 20 * 1024"
  shows "\<exists>s'. gtpu_echo_loop E m pkts s = Some s' \<and> echoed (ee_junk E) (filter (\<lambda>p. p_data p 1 = 1) pkts) pkts s s' \<and>
    ec_db s' = run_queries (ee_query E) (ec_db s)
      (map (\<lambda>p. change_status_sql ''2'' (p_caddr p) (p_saddr p) (ee_server_id E)) (filter (\<lambda>p. p_data p 1 = 2) pkts))"
  using assms
proof (induction pkts arbitrary: m s)
  case Nil
  then show ?case by (auto simp: echoed_def)
next
  case (Cons p pkts)
  show ?case
  proof (cases "p_data p 1 = 1")
    case True
    obtain nd where nd: "send_echo E m p s = Some (s\<lparr>ec_node := nd\<rparr>)" "node_ok nd"
      "length (side EGRESS nd) = length (side EGRESS (ec_node s)) + 2"
      "\<And>reqs pkts s'. echoed (ee_junk E) reqs pkts (s\<lparr>ec_node := nd\<rparr>) s' \<Longrightarrow> p = p \<or> p_data p 1 = 1 \<Longrightarrow> p_data p 1 \<noteq> 2 \<Longrightarrow>
         echoed (ee_junk E) (p # reqs) (p # pkts) s s'"
      using Cons.prems by (rule_tac echoed_send [of E m s p p]) simp_all
    show ?thesis using Cons.IH [of "s\<lparr>ec_node := nd\<rparr>" "Suc m"] Cons.prems nd True by auto
  next
    case False
    define s1 where "s1 = (if p_data p 1 = 2 then echo_response E p s else s)"
    have "ec_node s1 = ec_node s" by (simp add: s1_def echo_response_def)
    then show ?thesis using Cons.IH [of s1 "Suc m"] Cons.prems False by (auto simp: s1_def echoed_def echo_response_def split: if_splits)
  qed
qed


lemma burst_taken:
  assumes "node_ok n"
  obtains nd where "pgw_deq_burst INGRESS 32 n = (take 32 (side INGRESS n), nd)" "node_ok nd"
    "side INGRESS nd = drop 32 (side INGRESS n)" "side EGRESS nd = side EGRESS n" "refused nd = refused n"
proof -
  obtain taken nd where t: "pgw_deq_burst INGRESS 32 n = (taken, nd)" by fastforce
  have "taken = take 32 (side INGRESS n)" "side INGRESS nd = drop 32 (side INGRESS n)"
    using t by (auto simp: pgw_deq_burst_def deq_loop_take side_def)
  then show ?thesis using t deq_side(1,4) [OF assms t] deq_side(5) [OF assms t, of EGRESS] by (intro that [of nd]) simp_all
qed

lemma gtpc_echo_event:
  assumes "\<forall>m. ee_dup E m \<and> ee_peer_malloc E m" "ec_peers s = Some P" "peers_inv P" "node_ok (ec_node s)"
    "side INGRESS (ec_node s) \<noteq> []" "length (side EGRESS (ec_node s)) + 64 \<le> 20 * 1024"
    "pkts = take 32 (side INGRESS (ec_node s))" "\<forall>p \<in> set pkts. source_ip p \<noteq> - 1" "echo_effect (ee_server_id E) (- 1) pkts (known P) = (k, qs)"
  shows "\<exists>s' P'. event_gtpc_echo_req E s = Some (s', True) \<and> ec_peers s' = Some P' \<and> peers_inv P' \<and> known P' = k \<and>
    ec_db s' = run_queries (ee_query E) (ec_db s) qs \<and> ec_freed s' = ec_freed s @ filter (\<lambda>p. p_data p 1 = 2) pkts \<and>
    side EGRESS (ec_node s') = side EGRESS (ec_node s) @ concat (map (\<lambda>r. echo_pair (ee_junk E) (snd r)) (echo_requests (- 1) pkts)) \<and>
    side INGRESS (ec_node s') = drop 32 (side INGRESS (ec_node s)) \<and> refused (ec_node s') = refused (ec_node s) \<and> node_ok (ec_node s')"
proof -
  obtain nd where t: "pgw_deq_burst INGRESS 32 (ec_node s) = (pkts, nd)" "node_ok nd"
    "side INGRESS nd = drop 32 (side INGRESS (ec_node s))" "side EGRESS nd = side EGRESS (ec_node s)" "refused nd = refused (ec_node s)"
    using burst_taken [OF assms(4)] assms(7) by blast
  have tk: "pkts \<noteq> []" "length pkts \<le> 32" using assms(5,7) by simp_all
  have "\<exists>s' P'. gtpc_echo_loop E 0 (- 1) pkts (s\<lparr>ec_node := nd\<rparr>) = Some s' \<and>
    echoed (ee_junk E) (map snd (echo_requests (- 1) pkts)) pkts (s\<lparr>ec_node := nd\<rparr>) s' \<and>
    ec_peers s' = Some P' \<and> peers_inv P' \<and> known P' = fst (echo_effect (ee_server_id E) (- 1) pkts (known P)) \<and>
    ec_db s' = run_queries (ee_query E) (ec_db (s\<lparr>ec_node := nd\<rparr>)) (snd (echo_effect (ee_server_id E) (- 1) pkts (known P)))"
    using assms(1,2,3,6,8) t(2,4) tk(2) by (intro gtpc_echo_loop_echoes) simp_all
  then obtain s' P' where l: "gtpc_echo_loop E 0 (- 1) pkts (s\<lparr>ec_node := nd\<rparr>) = Some s'"
    "echoed (ee_junk E) (map snd (echo_requests (- 1) pkts)) pkts (s\<lparr>ec_node := nd\<rparr>) s'" "ec_peers s' = Some P'" "peers_inv P'"
    "known P' = k" "ec_db s' = run_queries (ee_query E) (ec_db s) qs"
    unfolding assms(9) by auto
  have "event_gtpc_echo_req E s = Some (s', True)" using t(1) tk(1) l(1) by (simp add: event_gtpc_echo_req_def)
  then show ?thesis using l(2-6) t(3-5) by (intro exI [of _ s'] exI [of _ P']) (simp add: echoed_def comp_def)
qed

section \<open>Properties\<close>

text \<open>
  The answer of type \<open>ty\<close> to a request: addresses swapped, every octet of the message kept but the type and the restart counter,
  which is 0.
\<close>

definition echo_answers :: "byte \<Rightarrow> packet \<Rightarrow> packet \<Rightarrow> bool" where
  "echo_answers ty p a \<longleftrightarrow> p_saddr a = p_caddr p \<and> p_caddr a = p_saddr p \<and> p_datalen a = p_datalen p \<and>
     (\<forall>i < unat (p_datalen p). p_data a i =
        (if i = 1 then ty else if has_recovery (p_data p) \<and> i = recovery_at (p_data p) + 4 then 0 else p_data p i))"

definition restart_counter_of :: "packet \<Rightarrow> 32 word" where
  "restart_counter_of p = ucast (p_data p (recovery_at (p_data p) + 4))"

text \<open>The peers after a burst of requests that all carry a counter, and the statements the burst causes given those peers.\<close>

definition peers_after :: "packet list \<Rightarrow> (32 word \<rightharpoonup> 32 word) \<Rightarrow> (32 word \<rightharpoonup> 32 word)" where
  "peers_after pkts k ip =
     (case k ip of
        Some c \<Rightarrow> Some c
      | None \<Rightarrow> if ip = 0 then None
          else map_option restart_counter_of (find (\<lambda>p. p_data p 1 = 1 \<and> source_ip p = ip) pkts))"

definition echo_statements :: "string \<Rightarrow> (32 word \<rightharpoonup> 32 word) \<Rightarrow> packet \<Rightarrow> string list" where
  "echo_statements sid k p =
     (if p_data p 1 = 1 then
        (if source_ip p \<noteq> 0 \<and> k (source_ip p) \<noteq> Some (restart_counter_of p)
         then [echo_restart_sql (source_ip p) (restart_counter_of p)] else [])
      else if p_data p 1 = 2 then [change_status_sql ''2'' (p_caddr p) (p_saddr p) sid] else [])"

lemma restart_counter_of_neq: "restart_counter_of p \<noteq> - 1"
proof -
  have "\<not> bit (restart_counter_of p) 31" by (auto simp: restart_counter_of_def bit_unsigned_iff dest: bit_imp_le_length)
  moreover have "bit (- 1 :: 32 word) 31" by (simp add: bit_minus_1_iff)
  ultimately show ?thesis by metis
qed

lemma peers_after_request:
  assumes "p_data p 1 = 1" "observed (source_ip p) (restart_counter_of p) k = (k1, q)"
  shows "peers_after pkts k1 = peers_after (p # pkts) k" "q = echo_statements sid (peers_after (p # pkts) k) p"
proof -
  let ?ip = "source_ip p" and ?c = "restart_counter_of p"
  consider (zero) "?ip = 0" "k1 = k" "q = []" | (new) "?ip \<noteq> 0" "k ?ip = None" "k1 = k(?ip \<mapsto> ?c)" "q = []"
    | (old) c where "?ip \<noteq> 0" "k ?ip = Some c" "k1 = k" "q = (if c = ?c then [] else [echo_restart_sql ?ip ?c])"
    using assms(2) restart_counter_of_neq [of p] by (cases "k ?ip") (auto simp: observed_def split: if_splits)
  note cs = this
  have at: "peers_after (p # pkts) k ip = (if ip = ?ip \<and> ip \<noteq> 0 \<and> k ip = None then Some ?c else peers_after pkts k ip)" for ip
    using assms(1) by (simp add: peers_after_def split: option.splits)
  have upd: "peers_after pkts (k(x \<mapsto> c)) ip = (if ip = x then Some c else peers_after pkts k ip)"
    and kn: "k ip = Some c \<Longrightarrow> peers_after pkts k ip = Some c" for x c ip
    by (simp_all add: peers_after_def)
  show "peers_after pkts k1 = peers_after (p # pkts) k"
    using cs by cases (rule ext, auto simp: at upd)+
  show "q = echo_statements sid (peers_after (p # pkts) k) p"
    using cs by cases (simp_all add: echo_statements_def assms(1) at kn del: One_nat_def)
qed

lemma echo_effect_recovered:
  assumes "\<forall>p\<in>set pkts. p_data p 1 = 1 \<longrightarrow> has_recovery (p_data p)"
  shows "echo_effect sid c pkts k =
    (peers_after pkts k, concat (map (echo_statements sid (peers_after pkts k)) pkts))"
  using assms
proof (induction pkts arbitrary: c k)
  case Nil
  show ?case by (simp add: peers_after_def fun_eq_iff split: option.splits)
next
  case (Cons p pkts)
  have IH: "echo_effect sid c pkts k = (peers_after pkts k, concat (map (echo_statements sid (peers_after pkts k)) pkts))" for c k
    using Cons by simp
  show ?case
  proof (cases "p_data p 1 = 1")
    case True
    then have t: "fst (take_recovery c p) = restart_counter_of p"
      using Cons.prems by (simp add: take_recovery_def restart_counter_of_def Let_def)
    obtain k1 q where o: "observed (source_ip p) (restart_counter_of p) k = (k1, q)" by fastforce
    note pa = peers_after_request(1) [OF True o, of pkts] peers_after_request(2) [OF True o, of sid pkts]
    show ?thesis using True by (simp add: t o IH pa Let_def)
  next
    case False
    then have "peers_after (p # pkts) k = peers_after pkts k" by (intro ext) (simp add: peers_after_def split: option.split)
    then show ?thesis using False by (simp add: echo_statements_def [of sid _ p] IH)
  qed
qed

lemma echo_requests_answered:
  "\<exists>cs. concat (map (\<lambda>r. echo_pair junk (snd r)) (echo_requests c pkts)) = concat (map (\<lambda>(a, b). [a, b]) cs) \<and>
    list_all2 (\<lambda>p (a, b). echo_answers 1 p a \<and> echo_answers 2 p b) (filter (\<lambda>p. p_data p 1 = 1) pkts) cs"
proof (induction pkts arbitrary: c)
  case Nil
  show ?case by (rule exI [of _ "[]"]) simp
next
  case (Cons p pkts)
  show ?case
  proof (cases "p_data p 1 = 1")
    case True
    obtain cs where cs: "concat (map (\<lambda>r. echo_pair junk (snd r)) (echo_requests (fst (take_recovery c p)) pkts)) = concat (map (\<lambda>(a, b). [a, b]) cs)"
      "list_all2 (\<lambda>p (a, b). echo_answers 1 p a \<and> echo_answers 2 p b) (filter (\<lambda>p. p_data p 1 = 1) pkts) cs"
      using Cons.IH by blast
    let ?q = "snd (take_recovery c p)"
    let ?a = "pgw_swap_address (?q\<lparr>p_data := (\<lambda>i. if i < unat (p_datalen ?q) then p_data ?q i else junk i)\<rparr>)"
    have "recovery_at (p_data p) \<noteq> 0" by (simp add: recovery_at_def)
    then have "echo_answers 1 p ?a" "echo_answers 2 p (echo_reply ?q)"
      using True by (auto simp: echo_answers_def take_recovery_def Let_def pgw_swap_address_def echo_reply_def)
    then show ?thesis using True cs by (intro exI [of _ "(?a, echo_reply ?q) # cs"]) (simp add: echo_pair_def)
  next
    case False
    then show ?thesis using Cons.IH [of c] by simp
  qed
qed

text \<open>C15: A burst at the node for GTP-C echoes, when memory and room in the queue are left. Every Echo Request is
  answered, in the order of the burst, by two packets for the address it came from: each has all octets of the request but the restart
  counter, which is 0; the first keeps the type of a request and the second has the type of a response. Every Echo Response is freed, nothing else
  is. If every request of the burst carries a restart counter, then a peer that was known keeps its recorded counter, a new one (with an address that is not 0) is
  recorded with the counter of its first request, and the database is sent, in the order of the burst, one statement for each response, which marks its
  peer alive, and one for each request whose counter is not the recorded one, which deactivates the sessions of its peer.\<close>

theorem gtpc_echo_burst_answered:
  assumes "\<forall>m. ee_dup E m \<and> ee_peer_malloc E m" "ec_peers s = Some P" "peers_inv P" "node_ok (ec_node s)"
    "side INGRESS (ec_node s) \<noteq> []" "length (side EGRESS (ec_node s)) + 64 \<le> 20 * 1024"
    "pkts = take 32 (side INGRESS (ec_node s))" "\<forall>p \<in> set pkts. source_ip p \<noteq> - 1"
  shows "\<exists>s' P' cs. event_gtpc_echo_req E s = Some (s', True) \<and> ec_peers s' = Some P' \<and> peers_inv P' \<and>
    side EGRESS (ec_node s') = side EGRESS (ec_node s) @ concat (map (\<lambda>(a, b). [a, b]) cs) \<and>
    list_all2 (\<lambda>p (a, b). echo_answers 1 p a \<and> echo_answers 2 p b) (filter (\<lambda>p. p_data p 1 = 1) pkts) cs \<and>
    ec_freed s' = ec_freed s @ filter (\<lambda>p. p_data p 1 = 2) pkts \<and>
    side INGRESS (ec_node s') = drop 32 (side INGRESS (ec_node s)) \<and> refused (ec_node s') = refused (ec_node s) \<and> node_ok (ec_node s') \<and>
    ((\<forall>p\<in>set pkts. p_data p 1 = 1 \<longrightarrow> has_recovery (p_data p)) \<longrightarrow>
      known P' = peers_after pkts (known P) \<and>
      ec_db s' = run_queries (ee_query E) (ec_db s) (concat (map (echo_statements (ee_server_id E) (known P')) pkts)))"
proof -
  obtain k qs where e: "echo_effect (ee_server_id E) (- 1) pkts (known P) = (k, qs)" by fastforce
  obtain s' P' where r: "event_gtpc_echo_req E s = Some (s', True)" "ec_peers s' = Some P'" "peers_inv P'" "known P' = k"
    "ec_db s' = run_queries (ee_query E) (ec_db s) qs" "ec_freed s' = ec_freed s @ filter (\<lambda>p. p_data p 1 = 2) pkts"
    "side EGRESS (ec_node s') = side EGRESS (ec_node s) @ concat (map (\<lambda>r. echo_pair (ee_junk E) (snd r)) (echo_requests (- 1) pkts))"
    "side INGRESS (ec_node s') = drop 32 (side INGRESS (ec_node s))" "refused (ec_node s') = refused (ec_node s)" "node_ok (ec_node s')"
    using gtpc_echo_event [OF assms e] by blast
  obtain cs where cs: "concat (map (\<lambda>r. echo_pair (ee_junk E) (snd r)) (echo_requests (- 1) pkts)) = concat (map (\<lambda>(a, b). [a, b]) cs)"
    "list_all2 (\<lambda>p (a, b). echo_answers 1 p a \<and> echo_answers 2 p b) (filter (\<lambda>p. p_data p 1 = 1) pkts) cs"
    using echo_requests_answered by blast
  have "known P' = peers_after pkts (known P) \<and>
      ec_db s' = run_queries (ee_query E) (ec_db s) (concat (map (echo_statements (ee_server_id E) (known P')) pkts))"
    if "\<forall>p\<in>set pkts. p_data p 1 = 1 \<longrightarrow> has_recovery (p_data p)"
    using echo_effect_recovered [OF that, of "ee_server_id E" "- 1" "known P"] e r(4,5) by simp
  with r cs show ?thesis by (intro exI [of _ s'] exI [of _ P'] exI [of _ cs]) simp
qed

definition demo_echo_env :: "string list echo_env" where
  "demo_echo_env = \<lparr>ee_query = (\<lambda>d q. (d @ [q], True)), ee_dup = (\<lambda>_. True), ee_junk = (\<lambda>_. 0), ee_peer_malloc = (\<lambda>_. True),
     ee_now = (\<lambda>_. 1000), ee_server_id = ''s1''\<rparr>"

definition demo_sockaddr :: "byte \<Rightarrow> byte list" where
  "demo_sockaddr x = [2, 0, 0x08, 0x4B, 10, 0, 0, x, 0, 0, 0, 0, 0, 0, 0, 0]"

text \<open>A request with a Recovery item, and one that ends behind its header.\<close>

definition demo_echo :: "byte \<Rightarrow> byte option \<Rightarrow> packet" where
  "demo_echo x r = \<lparr>p_data = mem_of 0 (case r of None \<Rightarrow> [0x40, 1, 0, 4, 0, 0, 1, 0] | Some c \<Rightarrow> [0x40, 1, 0, 9, 0, 0, 1, 0, 3, 0, 1, 0, c]),
     p_datalen = (if r = None then 8 else 13), p_saddr = demo_sockaddr x, p_caddr = demo_sockaddr 1\<rparr>"

definition demo_echo_state :: "packet list \<Rightarrow> sgw_peer list \<Rightarrow> string list echo_state" where
  "demo_echo_state q tbl = \<lparr>ec_db = [], ec_peers = Some \<lparr>peers = tbl, peers_count = 0, peers_updated = 0\<rparr>,
     ec_node = empty_node\<lparr>ingress_queue := q, ingress_count := word_of_nat (length q)\<rparr>, ec_freed = []\<rparr>"


lemma demo_echo_facts:
  "p_data (demo_echo x r) 1 = 1" "has_recovery (p_data (demo_echo x r)) = (r \<noteq> None)"
  "take_recovery c (demo_echo x (Some d)) = (ucast d, (demo_echo x (Some d))\<lparr>p_data := (p_data (demo_echo x (Some d)))(12 := 0)\<rparr>)"
  "take_recovery c (demo_echo x None) = (c, demo_echo x None)"
  "source_ip (demo_echo x r) = mk32 10 0 0 x"
proof -
  have b: "\<not> bit (0x40 :: byte) 3" by (simp add: bit_numeral_rec)
  have n: "ldn16 m 2 = mk16 (m 3) (m 2)" for m by (simp add: ldn16_def ld16_def bswap16_mk16)
  show h: "p_data (demo_echo x r) 1 = 1" "has_recovery (p_data (demo_echo x r)) = (r \<noteq> None)" for r
    by (auto simp: demo_echo_def has_recovery_def recovery_at_def b mem_of_def wr_bytes_def n mk16_def split: option.splits)
  show "take_recovery c (demo_echo x (Some d)) = (ucast d, (demo_echo x (Some d))\<lparr>p_data := (p_data (demo_echo x (Some d)))(12 := 0)\<rparr>)"
    using h(2) [of "Some d"] by (simp add: take_recovery_def recovery_at_def demo_echo_def b mem_of_def wr_bytes_def)
  show "take_recovery c (demo_echo x None) = (c, demo_echo x None)" using h(2) [of None] by (simp add: take_recovery_def)
  show "source_ip (demo_echo x r) = mk32 10 0 0 x"
    by (simp add: source_ip_def demo_echo_def demo_sockaddr_def sin_addr_def word_le_def)
qed

lemma demo_ip:
  "mk32 10 0 0 x \<noteq> (- 1 :: 32 word)" "mk32 10 0 0 x \<noteq> (0 :: 32 word)" "mk32 10 0 0 x = (mk32 10 0 0 y :: 32 word) \<longleftrightarrow> x = y"
proof -
  have "byte_of 0 (mk32 10 0 0 x :: 32 word) = 10" by (simp add: byte_of_mk32)
  moreover have "byte_of 0 (- 1 :: 32 word) = 255" "byte_of 0 (0 :: 32 word) = 0" by code_simp+
  ultimately show "mk32 10 0 0 x \<noteq> (- 1 :: 32 word)" "mk32 10 0 0 x \<noteq> (0 :: 32 word)" by force+
  show "mk32 10 0 0 x = (mk32 10 0 0 y :: 32 word) \<longleftrightarrow> x = y" by (simp add: mk32_eq_iff)
qed


lemma demo_echo_state_ok:
  assumes "length q \<le> 32" "distinct (map peer_ip tbl)" "0 \<notin> set (map peer_ip tbl)"
  shows "\<forall>m. ee_dup demo_echo_env m \<and> ee_peer_malloc demo_echo_env m" "peers_inv \<lparr>peers = tbl, peers_count = 0, peers_updated = 0\<rparr>"
    "ec_peers (demo_echo_state q tbl) = Some \<lparr>peers = tbl, peers_count = 0, peers_updated = 0\<rparr>" "node_ok (ec_node (demo_echo_state q tbl))"
    "side INGRESS (ec_node (demo_echo_state q tbl)) = q" "side EGRESS (ec_node (demo_echo_state q tbl)) = []"
proof -
  have "unat (word_of_nat (length q) :: 64 word) = length q" using assms(1) by (simp add: unsigned_of_nat take_bit_eq_mod)
  then show "node_ok (ec_node (demo_echo_state q tbl))" using assms(1) by (simp add: demo_echo_state_def node_ok_def empty_node_def)
qed (use assms in \<open>simp_all add: demo_echo_env_def demo_echo_state_def peers_inv_def side_def empty_node_def\<close>)

theorem gtpc_echo_burst_answered_witness:
  "\<exists>s' P'. event_gtpc_echo_req demo_echo_env (demo_echo_state [demo_echo 2 (Some 7)] []) = Some (s', True) \<and>
     ec_peers s' = Some P' \<and> known P' (mk32 10 0 0 2) = Some 7 \<and> ec_db s' = [] \<and> length (side EGRESS (ec_node s')) = 2"
proof -
  let ?q = "[demo_echo 2 (Some 7)]" and ?P = "\<lparr>peers = [], peers_count = 0, peers_updated = 0\<rparr>"
  have ok: "length ?q \<le> 32" "distinct (map peer_ip [])" "0 \<notin> set (map peer_ip [])" by simp_all
  note d = demo_echo_state_ok [OF ok]
  have q: "?q = take 32 (side INGRESS (ec_node (demo_echo_state ?q [])))" "side INGRESS (ec_node (demo_echo_state ?q [])) \<noteq> []"
    "length (side EGRESS (ec_node (demo_echo_state ?q []))) + 64 \<le> 20 * 1024" "\<forall>p \<in> set ?q. source_ip p \<noteq> - 1"
    by (simp_all add: d demo_echo_facts demo_ip)
  have c: "restart_counter_of (demo_echo 2 (Some 7)) = 7"
    using demo_echo_facts(3) [of 0 2 7] demo_echo_facts(2) [of 2 "Some 7"] by (simp add: take_recovery_def restart_counter_of_def Let_def)
  have k: "peers_after ?q (known ?P) (mk32 10 0 0 2) = Some 7"
    by (simp add: peers_after_def known_def demo_echo_facts demo_ip c del: One_nat_def)
  obtain s' P' cs where r: "event_gtpc_echo_req demo_echo_env (demo_echo_state ?q []) = Some (s', True)" "ec_peers s' = Some P'"
    "side EGRESS (ec_node s') = concat (map (\<lambda>(a, b). [a, b]) cs)"
    "list_all2 (\<lambda>p (a, b). echo_answers 1 p a \<and> echo_answers 2 p b) (filter (\<lambda>p. p_data p 1 = 1) ?q) cs"
    "known P' = peers_after ?q (known ?P)"
    "ec_db s' = run_queries (ee_query demo_echo_env) (ec_db (demo_echo_state ?q [])) (concat (map (echo_statements ''s1'' (known P')) ?q))"
    using gtpc_echo_burst_answered [OF d(1,3,2,4) q(2,3,1,4)] d(6)
    by (auto simp: demo_echo_facts demo_echo_env_def simp del: One_nat_def)
  have "length cs = 1" using r(4) by (auto simp: demo_echo_facts list_all2_Cons1 simp del: One_nat_def)
  then have "length (side EGRESS (ec_node s')) = 2" unfolding r(3) by (cases cs) auto
  moreover have "known P' (mk32 10 0 0 2) = Some 7" using r(5) k by simp
  moreover from this have "ec_db s' = []"
    unfolding r(6) by (simp add: echo_statements_def demo_echo_facts c demo_echo_state_def del: One_nat_def)
  ultimately show ?thesis using r(1,2) by blast
qed

text \<open>C16: The restart counter of one serving gateway is held against another: the node keeps the counter of a request for the requests behind
  it in the burst that carry none. When two known peers send an Echo Request in one burst, the second without a Recovery item, and the first
  repeats its recorded counter, the sessions of the second are deactivated as if it had announced the counter of the first.\<close>

theorem restart_counter_kept_for_next_peer:
  assumes "\<forall>m. ee_dup E m \<and> ee_peer_malloc E m" "ec_peers s = Some P" "peers_inv P" "node_ok (ec_node s)"
    "side INGRESS (ec_node s) = [a, b]" "length (side EGRESS (ec_node s)) + 64 \<le> 20 * 1024"
    "p_data a 1 = 1" "p_data b 1 = 1" "has_recovery (p_data a)" "\<not> has_recovery (p_data b)"
    "source_ip a \<notin> {0, - 1}" "source_ip b \<notin> {0, - 1}"
    "known P (source_ip a) = Some (ucast (p_data a (recovery_at (p_data a) + 4)))" "known P (source_ip b) = Some c"
    "c \<noteq> ucast (p_data a (recovery_at (p_data a) + 4))"
  shows "\<exists>s'. event_gtpc_echo_req E s = Some (s', True) \<and>
    ec_db s' = fst (ee_query E (ec_db s) (echo_restart_sql (source_ip b) (ucast (p_data a (recovery_at (p_data a) + 4)))))"
proof -
  let ?c = "ucast (p_data a (recovery_at (p_data a) + 4)) :: 32 word"
  have "\<not> bit ?c 31" by (auto simp: bit_unsigned_iff dest: bit_imp_le_length)
  moreover have "bit (- 1 :: 32 word) 31" by (simp add: bit_minus_1_iff)
  ultimately have c: "?c \<noteq> - 1" by metis
  have t: "fst (take_recovery (- 1) a) = ?c" "fst (take_recovery ?c b) = ?c" using assms(9,10) by (simp_all add: take_recovery_def Let_def)
  have e: "echo_effect (ee_server_id E) (- 1) [a, b] (known P) = (known P, [echo_restart_sql (source_ip b) ?c])"
    using assms(7,8,11-15) by (simp add: Let_def t observed_def c)
  have "side INGRESS (ec_node s) \<noteq> []" "[a, b] = take 32 (side INGRESS (ec_node s))" "\<forall>p \<in> set [a, b]. source_ip p \<noteq> - 1"
    using assms(5,11,12) by simp_all
  from gtpc_echo_event [OF assms(1-4) this(1) assms(6) this(2,3) e] show ?thesis by auto
qed


theorem restart_counter_kept_for_next_peer_witness:
  "\<exists>s'. event_gtpc_echo_req demo_echo_env (demo_echo_state [demo_echo 2 (Some 7), demo_echo 3 None]
       [\<lparr>peer_ip = mk32 10 0 0 2, peer_counter = 7, peer_expire = 0\<rparr>, \<lparr>peer_ip = mk32 10 0 0 3, peer_counter = 1, peer_expire = 0\<rparr>]) = Some (s', True) \<and>
     ec_db s' = [echo_restart_sql (mk32 10 0 0 3) 7]"
proof -
  let ?q = "[demo_echo 2 (Some 7), demo_echo 3 None]"
    and ?t = "[\<lparr>peer_ip = mk32 10 0 0 2, peer_counter = 7, peer_expire = 0\<rparr>, \<lparr>peer_ip = mk32 10 0 0 3, peer_counter = 1, peer_expire = 0\<rparr>]"
  have ok: "length ?q \<le> 32" "distinct (map peer_ip ?t)" "0 \<notin> set (map peer_ip ?t)"
    using demo_ip(2) [of 2] demo_ip(2) [of 3] demo_ip(3) [of 2 3] by simp_all
  note d = demo_echo_state_ok [OF ok]
  have k: "fst (take_recovery 0 (demo_echo 2 (Some 7))) = 7" by (simp add: demo_echo_facts)
  then have c: "ucast (p_data (demo_echo 2 (Some 7)) (recovery_at (p_data (demo_echo 2 (Some 7))) + 4)) = (7 :: 32 word)"
    using demo_echo_facts(2) [of 2 "Some 7"] by (simp add: take_recovery_def Let_def)
  have "\<exists>s'. event_gtpc_echo_req demo_echo_env (demo_echo_state ?q ?t) = Some (s', True) \<and>
    ec_db s' = fst (ee_query demo_echo_env (ec_db (demo_echo_state ?q ?t)) (echo_restart_sql (source_ip (demo_echo 3 None))
      (ucast (p_data (demo_echo 2 (Some 7)) (recovery_at (p_data (demo_echo 2 (Some 7))) + 4)))))"
    by (rule restart_counter_kept_for_next_peer [OF d(1,3,2,4,5), where c = 1]; unfold c demo_echo_facts d(6))
      (simp_all add: demo_ip known_def)
  then show ?thesis unfolding c demo_echo_facts by (simp add: demo_echo_env_def demo_echo_state_def)
qed

end
