(* ===== verification/Ctrl_User.thy ===== *)
theory Ctrl_User
  imports Ip_Checksum Ctrl_Echo
begin

text \<open>
  User plane messages that reach the control plane (\<open>ctrlplane/src/pgw/event/event_gtpu_other.c\<close>, \<open>src/pkt/gtpu_validate_header.c\<close>):
  a Router Solicitation of a terminal is answered with a Router Advertisement that carries its prefix, an Error Indication of a serving
  gateway deactivates a tunnel, everything else is freed. The functions \<open>_checksum\<close> and \<open>_wrapsum\<close> of this file are those of the data
  plane (\<open>Ip_Checksum\<close>).
\<close>

section \<open>State\<close>

definition gtpu_validate_header :: "mem \<Rightarrow> bool" where
  "gtpu_validate_header m =
     (if drop_bit 5 (m 0) \<noteq> 1 then False
      else if \<not> bit (m 0) 4 then False
      else if bit (m 0) 0 then False
      else m 1 = 1 \<or> m 1 = 255 \<or> m 1 = 2)"

text \<open>
  The lookup of this node selects the tunnel identifier of the user plane where the others select that of the control plane; \<open>None\<close> is a
  failed reset or bind, which is a panic.
\<close>

record 'd user_env =
  ue_query :: "'d \<Rightarrow> string \<Rightarrow> 'd \<times> bool"
  ue_rows :: "'d \<Rightarrow> 64 word \<Rightarrow> tunnel_row list option"
  ue_aton :: "string \<Rightarrow> byte list option"
  ue_alloc :: "nat \<Rightarrow> bool"
  ue_junk :: mem
  ue_ext_set_num :: byte
  ue_pgw_unit_num :: byte

text \<open>Packets that nobody owns any more and nobody freed are in \<open>us_lost\<close>.\<close>

record 'd user_state =
  us_db :: 'd
  us_node :: node
  us_freed :: "packet list"
  us_lost :: "packet list"

section \<open>Router Advertisements\<close>

definition ipv6_src_addr :: "byte list" where
  "ipv6_src_addr = [0xfe, 0x80, 0, 0, 0, 0, 0, 0, 0, 0, 0, 0, 0, 0, 0, 0x02]"

definition ipv6_dst_addr :: "byte list" where
  "ipv6_dst_addr = [0xff, 0x02, 0, 0, 0, 0, 0, 0, 0, 0, 0, 0, 0, 0, 0, 0x01]"

text \<open>The IPv6 header follows the eight octets of the GTP-U header, the ICMPv6 message is at offset 48.\<close>

definition router_solicit :: "16 word \<Rightarrow> mem \<Rightarrow> bool" where
  "router_solicit mlen d \<longleftrightarrow> ldn16 d 2 \<ge> mlen \<and> d 8 = 0x60 \<and> d 14 = 58 \<and> ldn16 d 12 \<ge> 8 \<and> d 48 = 133"

text \<open>The answer before its tunnel, prefix and checksum are known: a copy of the request in a buffer of 104 octets, with the fields set.\<close>

definition advert_copy :: "mem \<Rightarrow> packet \<Rightarrow> mem" where
  "advert_copy junk p = (\<lambda>i. if i < 104 then if i < unat (p_datalen p) then p_data p i else 0 else junk i)"

definition advert_icmp :: "mem \<Rightarrow> mem" where
  "advert_icmp m =
     (let m = m(48 := 134); m = st16 m 50 0; m = m(52 := 0x40); m = m(53 := 0x40 OR 0x18); m = stn16 m 54 1800;
        m = st32 m 56 0; m = st32 m 60 0;
        m = wr_bytes m 64 (zeros 8); m = m(64 := 5); m = m(65 := 1); m = wr_bytes m 68 (be32 1500);
        m = wr_bytes m 72 (zeros 32); m = m(72 := 3); m = m(73 := 4); m = m(74 := 64); m = m(75 := 0x40);
        m = wr_bytes m 76 (be32 86400) in
      wr_bytes m 80 (be32 43200))"

definition advert_template :: "mem \<Rightarrow> packet \<Rightarrow> mem" where
  "advert_template junk p =
     (let m = wr_bytes (advert_copy junk p) 16 ipv6_src_addr; m = wr_bytes m 32 ipv6_dst_addr; m = stn16 m 12 (16 + 8 + 32) in
      stn16 (advert_icmp m) 2 (40 + 16 + 8 + 32))"

text \<open>The sum runs over a buffer with the pseudo header, as far as it is filled here, and the message behind it.\<close>

definition checksum_buffer :: "mem \<Rightarrow> mem" where
  "checksum_buffer m = mem_of 0 (ipv6_src_addr @ ipv6_dst_addr @ rd_bytes m 12 2 @ [0, m 14] @ rd_bytes m 48 (unat (ldn16 m 12)))"

definition advert_sum :: "mem \<Rightarrow> 32 word" where
  "advert_sum m = checksum (checksum_buffer m) 0 (36 + ldn16 m 12) 0"

definition ue_prefix :: "'d user_env \<Rightarrow> byte list \<Rightarrow> byte list" where
  "ue_prefix E ue =
     [0x24, 0x01, 0xf1, 0x00, push_bit 4 (ue_ext_set_num E AND 0xF) OR (ue_pgw_unit_num E AND 0xF)] @ take 3 (drop 1 ue) @ zeros 8"

definition advert :: "'d user_env \<Rightarrow> session \<Rightarrow> mem \<Rightarrow> mem" where
  "advert E cs m =
     (let m = st32 m 4 (sgw_c_teid cs); m = wr_bytes m 88 (ue_prefix E (ue_ipv_n cs)) in
      st16 m 50 (wrapsum (advert_sum m)))"

text \<open>
  The flag tells whether the burst goes on: an address with a first octet other than zero leaves the loop over the burst, after the
  answer was allocated.
\<close>

definition answer_solicit :: "'d user_env \<Rightarrow> nat \<Rightarrow> packet \<Rightarrow> 'd user_state \<Rightarrow> ('d user_state \<times> bool) option" where
  "answer_solicit E n p s =
     (if \<not> ue_alloc E n then None
      else let m = advert_template (ue_junk E) p; packet = pgw_swap_address (p\<lparr>p_data := m, p_datalen := ucast (ldn16 m 2) + 8\<rparr>) in
        case ue_rows E (us_db s) (ucast (bswap32 (ld32 m 4))) of
          None \<Rightarrow> None
        | Some rows \<Rightarrow>
            let cs = foldl (on_tunnel_record (ue_aton E)) zero_session rows in
            if \<not> has HAVE_RECORD cs then Some (s\<lparr>us_freed := us_freed s @ [packet]\<rparr>, True)
            else if ue_ipv_n cs ! 0 \<noteq> 0 then
              Some (s\<lparr>us_lost := us_lost s @ [packet\<lparr>p_data := st32 m 4 (sgw_c_teid cs)\<rparr>]\<rparr>, False)
            else Some (s\<lparr>us_node := pgw_enq EGRESS (packet\<lparr>p_data := advert E cs m\<rparr>) (us_node s)\<rparr>, True))"

section \<open>Error Indications\<close>

definition error_ind_sql :: "byte list \<Rightarrow> byte list \<Rightarrow> string" where
  "error_ind_sql teid peer =
     sql_text [''UPDATE tunnel SET `active` = 0 WHERE sgw_gtpu_teid = '', num (word_be teid), '' AND sgw_gtpu_ipv = '', quoted (ntoa peer), '' '']"

definition errind_header :: "mem \<Rightarrow> 16 word" where
  "errind_header d = 8 + (if d 0 AND 0x07 \<noteq> 0 then 4 else 0)"

definition error_indication :: "'d user_env \<Rightarrow> packet \<Rightarrow> 'd user_state \<Rightarrow> 'd user_state" where
  "error_indication E p s =
     (let mlen = unat (errind_header (p_data p)) in
      if mlen + 12 = unat (p_datalen p) then
        s\<lparr>us_db := fst (ue_query E (us_db s) (error_ind_sql (rd_bytes (p_data p) (mlen + 1) 4) (rd_bytes (p_data p) (mlen + 8) 4)))\<rparr>
      else s)"

section \<open>The node\<close>

definition user_free :: "packet \<Rightarrow> 'd user_state \<Rightarrow> 'd user_state" where
  "user_free p s = s\<lparr>us_freed := us_freed s @ [p]\<rparr>"

text \<open>The least length of a solicitation is a variable of the function, and an Error Indication overwrites it.\<close>

fun gtpu_other_loop :: "'d user_env \<Rightarrow> nat \<Rightarrow> 16 word \<Rightarrow> packet list \<Rightarrow> 'd user_state \<Rightarrow> 'd user_state option" where
  "gtpu_other_loop E n mlen [] s = Some s"
| "gtpu_other_loop E n mlen (p # pkts) s =
     (if p_data p 1 = 255 then
        if router_solicit mlen (p_data p) then
          case answer_solicit E n p s of
            None \<Rightarrow> None
          | Some (s, True) \<Rightarrow> gtpu_other_loop E (Suc n) mlen pkts (user_free p s)
          | Some (s, False) \<Rightarrow> Some (s\<lparr>us_lost := us_lost s @ p # pkts\<rparr>)
        else gtpu_other_loop E (Suc n) mlen pkts (user_free p s)
      else if p_data p 1 = 26 then
        gtpu_other_loop E (Suc n) (errind_header (p_data p)) pkts (user_free p (error_indication E p s))
      else gtpu_other_loop E (Suc n) mlen pkts (user_free p s))"

definition event_gtpu_other_req :: "'d user_env \<Rightarrow> 'd user_state \<Rightarrow> ('d user_state \<times> bool) option" where
  "event_gtpu_other_req E s =
     (case pgw_deq_burst INGRESS 32 (us_node s) of (pkts, nd) \<Rightarrow>
        if pkts \<noteq> [] then map_option (\<lambda>s. (s, True)) (gtpu_other_loop E 0 (8 + 40) pkts (s\<lparr>us_node := nd\<rparr>))
        else Some (s\<lparr>us_node := nd\<rparr>, False))"


section \<open>What an advertisement holds\<close>

lemma wr_at: "wr_bytes m a bs x = (if a \<le> x \<and> x < a + length bs then bs ! (x - a) else m x)"
  by (simp add: wr_bytes_def)

lemma icmp_frame: "x < 48 \<Longrightarrow> advert_icmp m x = m x"
  by (simp add: advert_icmp_def Let_def stn16_def st16_def st32_def)

lemma icmp_octets:
  "advert_icmp m 48 = 134" "advert_icmp m 50 = 0" "advert_icmp m 51 = 0"
  "rd_bytes (advert_icmp m) 64 8 = [5, 1, 0, 0] @ be32 1500"
  "rd_bytes (advert_icmp m) 72 16 = [3, 4, 64, 0x40] @ be32 86400 @ be32 43200 @ [0, 0, 0, 0]"
proof -
  note defs = advert_icmp_def Let_def stn16_def st16_def st32_def wr_at be32_def zeros_def
  show "advert_icmp m 48 = 134" "advert_icmp m 50 = 0" "advert_icmp m 51 = 0" by (simp_all add: defs byte_of_def)
  show "rd_bytes (advert_icmp m) 64 8 = [5, 1, 0, 0] @ be32 1500" by (simp add: defs rd_bytes_expand)
  show "rd_bytes (advert_icmp m) 72 16 = [3, 4, 64, 0x40] @ be32 86400 @ be32 43200 @ [0, 0, 0, 0]" by (simp add: defs rd_bytes_expand)
qed


lemma template_octets:
  fixes junk p
  defines "m \<equiv> advert_template junk p"
  shows "m 12 = 0" "m 13 = 56" "m 2 = 0" "m 3 = 96" "m 48 = 134" "m 50 = 0" "m 51 = 0" "rd_bytes m 16 32 = ipv6_src_addr @ ipv6_dst_addr"
    "rd_bytes m 64 8 = [5, 1, 0, 0] @ be32 1500" "rd_bytes m 72 16 = [3, 4, 64, 0x40] @ be32 86400 @ be32 43200 @ [0, 0, 0, 0]"
    "x \<in> {0, 1} \<union> {4..<12} \<union> {14, 15} \<Longrightarrow> m x = advert_copy junk p x"
proof -
  define M where "M = stn16 (wr_bytes (wr_bytes (advert_copy junk p) 16 ipv6_src_addr) 32 ipv6_dst_addr) 12 56"
  have l: "length ipv6_src_addr = 16" "length ipv6_dst_addr = 16" by (simp_all add: ipv6_src_addr_def ipv6_dst_addr_def)
  have "m = stn16 (advert_icmp M) 2 96" by (simp add: m_def advert_template_def Let_def M_def)
  then have m: "m x = (if x = 2 then 0 else if x = 3 then 96 else advert_icmp M x)" for x
    by (simp add: stn16_def st16_def byte_of_def bswap16_def mk16_def)
  have M: "M 12 = 0" "M 13 = 56" "16 \<le> x \<Longrightarrow> M x = wr_bytes (wr_bytes (advert_copy junk p) 16 ipv6_src_addr) 32 ipv6_dst_addr x"
    "x < 16 \<Longrightarrow> x \<noteq> 12 \<Longrightarrow> x \<noteq> 13 \<Longrightarrow> M x = advert_copy junk p x" for x
    by (simp_all add: M_def stn16_def st16_def byte_of_def bswap16_def mk16_def)
  show "m 12 = 0" "m 13 = 56" "m 2 = 0" "m 3 = 96" "m 48 = 134" "m 50 = 0" "m 51 = 0" by (simp_all add: m icmp_frame icmp_octets M)
  have "rd_bytes m 16 32 = rd_bytes (wr_bytes (wr_bytes (advert_copy junk p) 16 ipv6_src_addr) 32 ipv6_dst_addr) 16 (16 + 16)"
    by (simp, rule rd_bytes_cong) (simp add: m icmp_frame M(3))
  also have "\<dots> = ipv6_src_addr @ ipv6_dst_addr"
    unfolding rd_bytes_add by (simp add: l rd_wr_bytes_disjoint)
  finally show "rd_bytes m 16 32 = ipv6_src_addr @ ipv6_dst_addr" .
  have "rd_bytes m a n = rd_bytes (advert_icmp M) a n" if "4 \<le> a" for a n using that by (intro rd_bytes_cong) (simp add: m)
  then show "rd_bytes m 64 8 = [5, 1, 0, 0] @ be32 1500" "rd_bytes m 72 16 = [3, 4, 64, 0x40] @ be32 86400 @ be32 43200 @ [0, 0, 0, 0]"
    by (simp_all add: icmp_octets)
  show "m x = advert_copy junk p x" if "x \<in> {0, 1} \<union> {4..<12} \<union> {14, 15}"
    using that by (auto simp: m icmp_frame M(4))
qed

text \<open>A tunnel, prefix and checksum change nothing else.\<close>

lemma advert_other:
  assumes "length (ue_ipv_n cs) = 4"
  shows "x < 4 \<or> 8 \<le> x \<and> x < 88 \<and> x \<noteq> 50 \<and> x \<noteq> 51 \<or> 104 \<le> x \<Longrightarrow> advert E cs m x = m x"
    "rd_bytes (advert E cs m) 4 4 = le32 (sgw_c_teid cs)" "rd_bytes (advert E cs m) 88 16 = ue_prefix E (ue_ipv_n cs)"
proof -
  have l: "length (ue_prefix E (ue_ipv_n cs)) = 16" using assms by (simp add: ue_prefix_def zeros_def)
  show "advert E cs m x = m x" if "x < 4 \<or> 8 \<le> x \<and> x < 88 \<and> x \<noteq> 50 \<and> x \<noteq> 51 \<or> 104 \<le> x"
    using that l by (auto simp: advert_def Let_def st16_def st32_def wr_at)
  show "rd_bytes (advert E cs m) 4 4 = le32 (sgw_c_teid cs)"
    by (simp add: rd_bytes_expand advert_def Let_def st16_def st32_def le32_def wr_at)
  have "rd_bytes (advert E cs m) 88 16 = rd_bytes (wr_bytes (st32 m 4 (sgw_c_teid cs)) 88 (ue_prefix E (ue_ipv_n cs))) 88 16"
    by (rule rd_bytes_cong) (simp add: advert_def Let_def st16_def)
  then show "rd_bytes (advert E cs m) 88 16 = ue_prefix E (ue_ipv_n cs)" using l by simp
qed


lemma buffer_octets:
  assumes "m 12 = 0" "m 13 = 56"
  shows "36 \<le> x \<Longrightarrow> x < 92 \<Longrightarrow> checksum_buffer m x = m (x + 12)" "x < 36 \<Longrightarrow> checksum_buffer m x = (ipv6_src_addr @ ipv6_dst_addr @ [0, 56, 0, m 14]) ! x"
    "advert_sum m = NOT (checksum_fold (checksum_loop (checksum_buffer m) 0 (2 * 46) 0))"
proof -
  have "ldn16 m 12 = mk16 56 0" using assms by (simp add: ldn16_def ld16_def)
  then have n: "ldn16 m 12 = 56" by (simp add: mk16_def)
  have r: "rd_bytes m 12 2 = [0, 56]" using assms by (simp add: rd_bytes_expand)
  define h where "h = ipv6_src_addr @ ipv6_dst_addr @ [0, 56, 0, m 14]"
  have l: "length h = 36" by (simp add: h_def ipv6_src_addr_def ipv6_dst_addr_def)
  have b: "checksum_buffer m = wr_bytes (\<lambda>_. 0) 0 (h @ rd_bytes m 48 56)" by (simp add: checksum_buffer_def mem_of_def n r h_def)
  show "checksum_buffer m x = m (x + 12)" if "36 \<le> x" "x < 92" using that l by (simp add: b wr_at nth_append add.commute)
  show "checksum_buffer m x = (ipv6_src_addr @ ipv6_dst_addr @ [0, 56, 0, m 14]) ! x" if "x < 36"
    using that l by (simp add: b wr_at nth_append h_def [symmetric])
  show "advert_sum m = NOT (checksum_fold (checksum_loop (checksum_buffer m) 0 (2 * 46) 0))" by (simp add: advert_sum_def n checksum_def)
qed

lemma advert_checksum:
  assumes "m 12 = 0" "m 13 = 56" "m 50 = 0" "m 51 = 0"
  shows "wrapsum (advert_sum (advert E cs m)) = 0"
proof -
  define m1 where "m1 = wr_bytes (st32 m 4 (sgw_c_teid cs)) 88 (ue_prefix E (ue_ipv_n cs))"
  define m2 where "m2 = st16 m1 50 (wrapsum (advert_sum m1))"
  let ?B = "checksum_buffer m1" and ?B2 = "checksum_buffer m2"
  have m1: "m1 12 = 0" "m1 13 = 56" "m1 50 = 0" "m1 51 = 0" using assms by (simp_all add: m1_def st32_def)
  have m2: "m2 12 = 0" "m2 13 = 56" "m2 14 = m1 14" using m1 by (simp_all add: m2_def st16_def)
  have at: "m2 x = (if x = 50 then byte_of 0 (wrapsum (advert_sum m1)) else if x = 51 then byte_of 1 (wrapsum (advert_sum m1)) else m1 x)" for x
    by (simp add: m2_def st16_def)
  note b1 = buffer_octets [OF m1(1,2)] and b2 = buffer_octets [OF m2(1,2)]
  let ?s = "\<lambda>v. st16 ?B (0 + 2 * 19) v"
  have "?s 0 x = ?B x" for x using b1(1) [of 38] b1(1) [of 39] m1 by (simp add: st16_def byte_of_def)
  then have z: "checksum_loop (?s 0) 0 (2 * 46) 0 = checksum_loop ?B 0 (2 * 46) 0" by (intro checksum_loop_cong) simp
  have "?B2 x = ?s (wrapsum (advert_sum m1)) x" if "x < 92" for x
    using that b1(1) [of x] b1(2) [of x] b2(1) [of x] b2(2) [of x] m2(3) at [of "x + 12"] by (cases "x < 36") (auto simp: st16_def)
  then have e: "checksum_loop ?B2 0 (2 * 46) 0 = checksum_loop (?s (wrapsum (advert_sum m1))) 0 (2 * 46) 0" by (intro checksum_loop_cong) simp
  have "wrapsum (advert_sum m2) = 0"
    using checksum_verifies_words [of 19 46 ?B 0] unfolding z b1(3) [symmetric] e [symmetric] b2(3) [symmetric] by simp
  then show ?thesis by (simp add: advert_def Let_def m2_def m1_def)
qed


section \<open>What a burst does\<close>

definition solicited :: "packet \<Rightarrow> bool" where
  "solicited p \<longleftrightarrow> p_data p 1 = 255 \<and> router_solicit 48 (p_data p)"

definition terminal :: "'d user_env \<Rightarrow> 'd \<Rightarrow> packet \<Rightarrow> session option" where
  "terminal E d p = map_option (foldl (on_tunnel_record (ue_aton E)) zero_session) (ue_rows E d (ucast (word_be (rd_bytes (p_data p) 4 4))))"

text \<open>An advertisement for a session: to the sender of the solicitation, through the tunnel, with the prefix of the terminal and a checksum
  that verifies.\<close>

definition advertises :: "'d user_env \<Rightarrow> session \<Rightarrow> packet \<Rightarrow> packet \<Rightarrow> bool" where
  "advertises E cs p r \<longleftrightarrow> p_saddr r = p_caddr p \<and> p_caddr r = p_saddr p \<and> p_datalen r = 104 \<and>
     p_data r 0 = p_data p 0 \<and> p_data r 1 = 255 \<and> rd_bytes (p_data r) 2 2 = [0, 96] \<and> rd_bytes (p_data r) 4 4 = le32 (sgw_c_teid cs) \<and>
     p_data r 8 = 0x60 \<and> rd_bytes (p_data r) 12 2 = [0, 56] \<and> p_data r 14 = 58 \<and> rd_bytes (p_data r) 16 32 = ipv6_src_addr @ ipv6_dst_addr \<and>
     p_data r 48 = 134 \<and> rd_bytes (p_data r) 64 8 = [5, 1, 0, 0] @ be32 1500 \<and>
     rd_bytes (p_data r) 72 16 = [3, 4, 64, 0x40] @ be32 86400 @ be32 43200 @ [0, 0, 0, 0] \<and>
     rd_bytes (p_data r) 88 16 = ue_prefix E (ue_ipv_n cs) \<and> wrapsum (advert_sum (p_data r)) = 0"

lemma ue_length:
  assumes "\<forall>t a. aton t = Some a \<longrightarrow> length a = 4" "length (ue_ipv_n cs) = 4"
  shows "length (ue_ipv_n (foldl (on_tunnel_record aton) cs rows)) = 4"
  using assms(2)
  by (induction rows arbitrary: cs) (use assms(1) in \<open>auto simp: on_tunnel_record_def aton_into_def Let_def split: option.splits\<close>)

lemma template_teid:
  assumes "8 \<le> unat (p_datalen p)"
  shows "bswap32 (ld32 (advert_template junk p) 4) = word_be (rd_bytes (p_data p) 4 4)" "ldn16 (advert_template junk p) 2 = 96"
proof -
  have "advert_template junk p x = p_data p x" if "x \<in> {4..<8}" for x
    using that assms template_octets(11) [of x junk p] by (simp add: advert_copy_def)
  then show "bswap32 (ld32 (advert_template junk p) 4) = word_be (rd_bytes (p_data p) 4 4)"
    by (simp add: word_be_def word_le_def ld32_def)
  have "ldn16 (advert_template junk p) 2 = mk16 96 0" using template_octets(3,4) [where junk = junk and p = p] by (simp add: ldn16_def ld16_def)
  then show "ldn16 (advert_template junk p) 2 = 96" by (simp add: mk16_def)
qed

lemma advertisement_ok:
  assumes "solicited p" "unat (p_datalen p) = 8 + unat (ldn16 (p_data p) 2)" "length (ue_ipv_n cs) = 4"
  shows "advertises E cs p (pgw_swap_address (p\<lparr>p_data := advert E cs (advert_template junk p), p_datalen := 104\<rparr>))"
proof -
  let ?m = "advert_template junk p" and ?a = "advert E cs (advert_template junk p)"
  have s: "p_data p 1 = 255" "p_data p 8 = 0x60" "p_data p 14 = 58" "48 \<le> unat (ldn16 (p_data p) 2)"
    using assms(1) by (simp_all add: solicited_def router_solicit_def word_le_nat_alt)
  note t = template_octets [where junk = junk and p = p] and o = advert_other [where E = E, OF assms(3)]
  have c: "?m x = p_data p x" if "x \<in> {0, 1} \<union> {4..<12} \<union> {14, 15}" for x
    using that t(11) [OF that] s(4) assms(2) by (auto simp: advert_copy_def)
  have k: "rd_bytes ?a a n = rd_bytes ?m a n" if "a + n \<le> 4 \<or> 8 \<le> a \<and> a + n \<le> 50 \<or> 52 \<le> a \<and> a + n \<le> 88" for a n
    using that by (intro rd_bytes_cong o(1)) auto
  have "rd_bytes ?m 2 2 = [0, 96]" "rd_bytes ?m 12 2 = [0, 56]" using t by (simp_all add: rd_bytes_expand)
  then show ?thesis using s o(2,3) t c k [of 2 2] k [of 12 2] k [of 16 32] k [of 64 8] k [of 72 16] advert_checksum [OF t(1,2,6,7), of E cs]
    by (simp add: advertises_def pgw_swap_address_def o(1))
qed


text \<open>What a burst leaves, without Error Indications: the solicitations of known terminals are answered, all packets are freed.\<close>

definition answerable :: "'d user_env \<Rightarrow> 'd \<Rightarrow> packet \<Rightarrow> bool" where
  "answerable E d p \<longleftrightarrow> p_data p 1 \<noteq> 26 \<and> unat (p_datalen p) = 8 + unat (ldn16 (p_data p) 2) \<and>
     (\<exists>cs. terminal E d p = Some cs \<and> (has HAVE_RECORD cs \<longrightarrow> ue_ipv_n cs ! 0 = 0))"

definition known_terminal :: "'d user_env \<Rightarrow> 'd \<Rightarrow> packet \<Rightarrow> bool" where
  "known_terminal E d p \<longleftrightarrow> solicited p \<and> (\<exists>cs. terminal E d p = Some cs \<and> has HAVE_RECORD cs)"

lemma solicit_answered:
  assumes "solicited p" "answerable E (us_db s) p" "ue_alloc E n" "\<forall>t a. ue_aton E t = Some a \<longrightarrow> length a = 4"
  shows "if known_terminal E (us_db s) p
    then \<exists>r cs. answer_solicit E n p s = Some (s\<lparr>us_node := pgw_enq EGRESS r (us_node s)\<rparr>, True) \<and> terminal E (us_db s) p = Some cs \<and> advertises E cs p r
    else \<exists>r. answer_solicit E n p s = Some (s\<lparr>us_freed := us_freed s @ [r]\<rparr>, True)"
proof -
  obtain rows where r: "ue_rows E (us_db s) (ucast (word_be (rd_bytes (p_data p) 4 4))) = Some rows"
    using assms(2) by (auto simp: answerable_def terminal_def)
  define cs where "cs = foldl (on_tunnel_record (ue_aton E)) zero_session rows"
  have t: "terminal E (us_db s) p = Some cs" by (simp add: terminal_def r cs_def)
  have d: "unat (p_datalen p) = 8 + unat (ldn16 (p_data p) 2)" "has HAVE_RECORD cs \<Longrightarrow> ue_ipv_n cs ! 0 = 0"
    using assms(2) t by (auto simp: answerable_def)
  have len: "length (ue_ipv_n cs) = 4" unfolding cs_def by (rule ue_length [OF assms(4)]) (simp add: zero_session_def zeros_def)
  have "8 \<le> unat (p_datalen p)" using d(1) by simp
  note m = template_teid [OF this]
  define r where "r = pgw_swap_address (p\<lparr>p_data := advert_template (ue_junk E) p, p_datalen := 104\<rparr>)"
  have a: "answer_solicit E n p s = (if \<not> has HAVE_RECORD cs then Some (s\<lparr>us_freed := us_freed s @ [r]\<rparr>, True)
      else Some (s\<lparr>us_node := pgw_enq EGRESS (r\<lparr>p_data := advert E cs (advert_template (ue_junk E) p)\<rparr>) (us_node s)\<rparr>, True))"
    using assms(3) d(2) r m by (simp add: answer_solicit_def cs_def [symmetric] r_def Let_def)
  show ?thesis
  proof (cases "has HAVE_RECORD cs")
    case True
    have "advertises E cs p (r\<lparr>p_data := advert E cs (advert_template (ue_junk E) p)\<rparr>)"
      using advertisement_ok [OF assms(1) d(1) len, of E "ue_junk E"] by (cases p) (simp add: r_def pgw_swap_address_def)
    then show ?thesis using True a t assms(1) by (auto simp: known_terminal_def)
  next
    case False
    then show ?thesis using a t by (auto simp: known_terminal_def)
  qed
qed


lemma gtpu_other_loop_answers:
  assumes "\<forall>n. ue_alloc E n" "\<forall>t a. ue_aton E t = Some a \<longrightarrow> length a = 4" "node_ok (us_node s)"
    "length (side EGRESS (us_node s)) + length pkts \<le> 20 * 1024" "\<forall>p \<in> set pkts. answerable E (us_db s) p"
  shows "\<exists>s' out. gtpu_other_loop E n 48 pkts s = Some s' \<and> us_db s' = us_db s \<and> us_lost s' = us_lost s \<and>
    set (us_freed s) \<union> set pkts \<subseteq> set (us_freed s') \<and> node_ok (us_node s') \<and>
    side EGRESS (us_node s') = side EGRESS (us_node s) @ out \<and> side INGRESS (us_node s') = side INGRESS (us_node s) \<and>
    list_all2 (\<lambda>p r. \<exists>cs. terminal E (us_db s) p = Some cs \<and> advertises E cs p r) (filter (known_terminal E (us_db s)) pkts) out"
  using assms(3-5)
proof (induction pkts arbitrary: n s)
  case (Cons p pkts)
  let ?goal = "\<lambda>pkts s s' out. us_db s' = us_db s \<and> us_lost s' = us_lost s \<and>
    set (us_freed s) \<union> set pkts \<subseteq> set (us_freed s') \<and> node_ok (us_node s') \<and>
    side EGRESS (us_node s') = side EGRESS (us_node s) @ out \<and> side INGRESS (us_node s') = side INGRESS (us_node s) \<and>
    list_all2 (\<lambda>p r. \<exists>cs. terminal E (us_db s) p = Some cs \<and> advertises E cs p r) (filter (known_terminal E (us_db s)) pkts) out"
  have an: "answerable E (us_db s) p" "p_data p 1 \<noteq> 26" using Cons.prems(3) by (auto simp: answerable_def)
  show ?case
  proof (cases "known_terminal E (us_db s) p")
    case True
    then have so: "solicited p" by (simp add: known_terminal_def)
    obtain r cs where r: "answer_solicit E n p s = Some (s\<lparr>us_node := pgw_enq EGRESS r (us_node s)\<rparr>, True)"
      "terminal E (us_db s) p = Some cs" "advertises E cs p r"
      using solicit_answered [OF so an(1) _ assms(2), of n] assms(1) True by auto
    note e = enq_side [where dir = EGRESS and p = r, OF Cons.prems(1)]
    let ?s = "user_free p (s\<lparr>us_node := pgw_enq EGRESS r (us_node s)\<rparr>)"
    have ing: "side INGRESS (us_node ?s) = side INGRESS (us_node s)" using e(4) [of INGRESS] by (simp add: user_free_def)
    obtain s' out where s': "gtpu_other_loop E (Suc n) 48 pkts ?s = Some s'" "?goal pkts ?s s' out"
      using Cons.IH [of ?s "Suc n"] Cons.prems e(1,2) by (auto simp: user_free_def)
    have "gtpu_other_loop E n 48 (p # pkts) s = Some s'" using so r(1) s'(1) by (simp add: solicited_def)
    moreover have "?goal (p # pkts) s s' (r # out)" using s'(2) True r(2,3) e(2) Cons.prems(2) ing by (auto simp: user_free_def)
    ultimately show ?thesis by blast
  next
    case False
    obtain s1 where s1: "gtpu_other_loop E n 48 (p # pkts) s = gtpu_other_loop E (Suc n) 48 pkts (user_free p s1)"
      "us_db s1 = us_db s" "us_lost s1 = us_lost s" "us_node s1 = us_node s" "set (us_freed s) \<subseteq> set (us_freed s1)"
    proof (cases "solicited p")
      case True
      then obtain r where "answer_solicit E n p s = Some (s\<lparr>us_freed := us_freed s @ [r]\<rparr>, True)"
        using solicit_answered [OF True an(1) _ assms(2), of n] assms(1) False by auto
      then show ?thesis using True by (intro that [of "s\<lparr>us_freed := us_freed s @ [r]\<rparr>"]) (auto simp: solicited_def)
    next
      case False
      then show ?thesis using an(2) by (intro that [of s]) (auto simp: solicited_def)
    qed
    obtain s' out where s': "gtpu_other_loop E (Suc n) 48 pkts (user_free p s1) = Some s'" "?goal pkts (user_free p s1) s' out"
      using Cons.IH [of "user_free p s1" "Suc n"] Cons.prems s1 by (auto simp: user_free_def)
    have "?goal (p # pkts) s s' out" using s'(2) False s1(2-5) by (auto simp: user_free_def)
    then show ?thesis using s1(1) s'(1) by auto
  qed
qed auto


section \<open>Properties\<close>

text \<open>C17: Terminals are told their prefix: when memory and room are left and no address in the database collides, a burst of user plane
  packets without Error Indications, with the lengths their headers claim, is handled completely. Every Router Solicitation of a known tunnel
  is answered, in order: the answer goes back to its sender and into the tunnel of the terminal, is a Router Advertisement with the prefix
  made from the address of the terminal, and its checksum verifies. Every packet of the burst is freed, none is lost, and the database
  does not change.\<close>

theorem solicitations_answered:
  assumes "\<forall>n. ue_alloc E n" "\<forall>t a. ue_aton E t = Some a \<longrightarrow> length a = 4" "node_ok (us_node s)" "side INGRESS (us_node s) \<noteq> []"
    "length (side EGRESS (us_node s)) + 32 \<le> 20 * 1024" "pkts = take 32 (side INGRESS (us_node s))" "\<forall>p \<in> set pkts. answerable E (us_db s) p"
  shows "\<exists>s' out. event_gtpu_other_req E s = Some (s', True) \<and> us_db s' = us_db s \<and> us_lost s' = us_lost s \<and>
    set (us_freed s) \<union> set pkts \<subseteq> set (us_freed s') \<and> node_ok (us_node s') \<and>
    side INGRESS (us_node s') = drop 32 (side INGRESS (us_node s)) \<and> side EGRESS (us_node s') = side EGRESS (us_node s) @ out \<and>
    list_all2 (\<lambda>p r. \<exists>cs. terminal E (us_db s) p = Some cs \<and> advertises E cs p r) (filter (known_terminal E (us_db s)) pkts) out"
proof -
  obtain nd where t: "pgw_deq_burst INGRESS 32 (us_node s) = (pkts, nd)" "node_ok nd"
    "side INGRESS nd = drop 32 (side INGRESS (us_node s))" "side EGRESS nd = side EGRESS (us_node s)" "refused nd = refused (us_node s)"
    using burst_taken [OF assms(3)] assms(6) by blast
  have "pkts \<noteq> []" "length pkts \<le> 32" using assms(4,6) by simp_all
  with gtpu_other_loop_answers [of E "s\<lparr>us_node := nd\<rparr>" pkts 0, OF assms(1,2)] assms(5,7) t show ?thesis
    by (auto simp: event_gtpu_other_req_def)
qed

text \<open>C18: The control plane promises what it keeps: the prefix advertised to a terminal is the one in the address that the answer to the
  Create Session Request assigned to it, for IPv6 sessions and for IPv4v6 sessions alike.\<close>

theorem advertised_prefix_is_assigned:
  assumes "advertises E cs p r" "length (ue_ipv_n cs) = 4" "ue_ipv_n cs' = ue_ipv_n cs" "e_ext_set_num E' = ue_ext_set_num E" "e_pgw_unit_num E' = ue_pgw_unit_num E"
    "paa_ue E' cs' = Some item" "all_of HAVE_PDN cs'" "(pdn (ps cs') ! 4) AND 7 = 2 \<or> (pdn (ps cs') ! 4) AND 7 = 3 \<and> e_ipv64 E'"
  shows "rd_bytes (p_data r) 88 8 = take 8 (drop 6 item) \<and> item ! 5 = p_data r 74"
proof -
  have n: "length (comm_header 79 l 0) = 4" for l by (simp add: comm_header_def be16_def)
  define v where "v = 0x40 # take 8 (ue_prefix E (ue_ipv_n cs))"
  have l: "length (take 3 (drop (Suc 0) (ue_ipv_n cs))) = 3" using assms(2) by simp
  have "ue_ipv_n cs ! 0 = 0" using assms(6,7,3) by (auto simp: paa_ue_def split: if_splits)
  then obtain t x h where "item = comm_header 79 h 0 @ [t] @ v @ x"
    using assms(3-8) l by (auto simp: paa_ue_def gtpc_paa_set_def Let_def ue_prefix_def v_def padded_def split: if_splits)
  then have p: "item ! 5 = 0x40" "take 8 (drop 6 item) = take 8 (ue_prefix E (ue_ipv_n cs))"
    using l by (simp_all add: n v_def nth_append ue_prefix_def zeros_def)
  have "rd_bytes (p_data r) 88 16 = ue_prefix E (ue_ipv_n cs)" "rd_bytes (p_data r) 72 16 ! 2 = 64"
    using assms(1) by (simp_all add: advertises_def)
  moreover have "rd_bytes (p_data r) 88 8 = take 8 (rd_bytes (p_data r) 88 16)"
    using rd_bytes_add [of "p_data r" 88 8 8] by simp
  ultimately show ?thesis using p by simp
qed


text \<open>A solicitation, as a terminal sends it through its tunnel.\<close>

definition demo_tunnel_row :: tunnel_row where
  "demo_tunnel_row = \<lparr>t_pgw_teid = 7, t_ueipv4 = ''0.1.2.3'', t_bitrate_s5 = 0, t_bitrate_sgi = 0, t_pgw_gtpu_ipv = [], t_pgw_gtpc_ipv = [], t_dns = [],
     t_ebi = 5, t_imsi = 1, t_msisdn = 1, t_sgw_gtpc_teid = 9\<rparr>"

definition demo_user_env :: "byte \<Rightarrow> unit user_env" where
  "demo_user_env x = \<lparr>ue_query = (\<lambda>d q. (d, True)), ue_rows = (\<lambda>d t. Some [demo_tunnel_row]), ue_aton = (\<lambda>_. Some [x, 1, 2, 3]), ue_alloc = (\<lambda>_. True),
     ue_junk = (\<lambda>_. 0), ue_ext_set_num = 1, ue_pgw_unit_num = 2\<rparr>"

definition demo_solicit :: packet where
  "demo_solicit = \<lparr>p_data = mem_of 0 ([0x30, 255, 0, 48, 0, 0, 0, 7, 0x60, 0, 0, 0, 0, 8, 58, 255] @ replicate 32 0 @ [133]),
     p_datalen = 56, p_saddr = demo_sockaddr 2, p_caddr = demo_sockaddr 1\<rparr>"

definition demo_user_state :: "packet list \<Rightarrow> unit user_state" where
  "demo_user_state q = \<lparr>us_db = (), us_node = empty_node\<lparr>ingress_queue := q, ingress_count := word_of_nat (length q)\<rparr>, us_freed = [], us_lost = []\<rparr>"

lemma demo_solicit_facts:
  "solicited demo_solicit" "p_data demo_solicit 1 = 255" "unat (p_datalen demo_solicit) = 8 + unat (ldn16 (p_data demo_solicit) 2)"
proof -
  have n: "ldn16 m a = mk16 (m (a + 1)) (m a)" for m a by (simp add: ldn16_def ld16_def)
  show "p_data demo_solicit 1 = 255" by (simp add: demo_solicit_def mem_of_def wr_at)
  moreover have "ldn16 (p_data demo_solicit) 2 = 48" "ldn16 (p_data demo_solicit) 12 = 8" "p_data demo_solicit 8 = 0x60" "p_data demo_solicit 14 = 58"
    "p_data demo_solicit 48 = 133"
    by (simp_all add: n demo_solicit_def mem_of_def wr_at mk16_def nth_append)
  ultimately show "solicited demo_solicit" "unat (p_datalen demo_solicit) = 8 + unat (ldn16 (p_data demo_solicit) 2)"
    by (simp_all add: solicited_def router_solicit_def) (simp add: demo_solicit_def)
qed

lemma demo_terminal:
  "\<exists>cs. terminal (demo_user_env x) d p = Some cs \<and> has HAVE_RECORD cs \<and> ue_ipv_n cs = [x, 1, 2, 3]"
  by (simp add: terminal_def demo_user_env_def on_tunnel_record_def Let_def has_def have_flag_def aton_into_def bit_flag zero_session_def zero_state_def flag_bit_def)


lemma demo_user_ok:
  "\<forall>n. ue_alloc (demo_user_env x) n" "\<forall>t a. ue_aton (demo_user_env x) t = Some a \<longrightarrow> length a = 4"
  "length q \<le> 32 \<Longrightarrow> node_ok (us_node (demo_user_state q))" "side INGRESS (us_node (demo_user_state q)) = q" "side EGRESS (us_node (demo_user_state q)) = []"
  "us_db (demo_user_state q) = ()"
proof -
  have "unat (word_of_nat (length q) :: 64 word) = length q" if "length q \<le> 32" using that by (simp add: unsigned_of_nat take_bit_eq_mod)
  then show "length q \<le> 32 \<Longrightarrow> node_ok (us_node (demo_user_state q))" by (simp add: demo_user_state_def node_ok_def empty_node_def)
qed (simp_all add: demo_user_env_def demo_user_state_def side_def empty_node_def)

theorem solicitations_answered_witness:
  "\<exists>s' r cs. event_gtpu_other_req (demo_user_env 0) (demo_user_state [demo_solicit]) = Some (s', True) \<and>
     side EGRESS (us_node s') = [r] \<and> ue_ipv_n cs = [0, 1, 2, 3] \<and> advertises (demo_user_env 0) cs demo_solicit r"
proof -
  let ?E = "demo_user_env 0" and ?s = "demo_user_state [demo_solicit]"
  obtain cs where cs: "terminal ?E () demo_solicit = Some cs" "has HAVE_RECORD cs" "ue_ipv_n cs = [0, 1, 2, 3]" using demo_terminal by blast
  have a: "answerable ?E () demo_solicit" "known_terminal ?E () demo_solicit"
    using cs demo_solicit_facts by (simp_all add: answerable_def known_terminal_def)
  have "\<exists>s' out. event_gtpu_other_req ?E ?s = Some (s', True) \<and> us_db s' = us_db ?s \<and> us_lost s' = us_lost ?s \<and>
    set (us_freed ?s) \<union> set [demo_solicit] \<subseteq> set (us_freed s') \<and> node_ok (us_node s') \<and>
    side INGRESS (us_node s') = drop 32 (side INGRESS (us_node ?s)) \<and> side EGRESS (us_node s') = side EGRESS (us_node ?s) @ out \<and>
    list_all2 (\<lambda>p r. \<exists>cs. terminal ?E (us_db ?s) p = Some cs \<and> advertises ?E cs p r) (filter (known_terminal ?E (us_db ?s)) [demo_solicit]) out"
    by (rule solicitations_answered [OF demo_user_ok(1,2,3)]) (simp_all add: demo_user_ok a)
  then obtain s' out where s': "event_gtpu_other_req ?E ?s = Some (s', True)" "side EGRESS (us_node s') = out"
    "list_all2 (\<lambda>p r. \<exists>cs. terminal ?E () p = Some cs \<and> advertises ?E cs p r) [demo_solicit] out"
    using a(2) by (auto simp: demo_user_ok)
  from s'(3) obtain r where "out = [r]" "advertises ?E cs demo_solicit r" using cs(1) by (auto simp: list_all2_Cons1)
  then show ?thesis using s' cs(3) by blast
qed

theorem advertised_prefix_is_assigned_witness:
  "\<exists>E cs r item. ue_ipv_n cs = [0, 1, 2, 3] \<and> advertises (demo_user_env 0) cs demo_solicit r \<and> paa_ue (E :: unit env) cs = Some item \<and>
     rd_bytes (p_data r) 88 8 = take 8 (drop 6 item)"
proof -
  define cs where "cs = zero_session\<lparr>ue_ipv_n := [0, 1, 2, 3], ps := have_flag HAVE_PDN (zero_state\<lparr>pdn := [99, 0, 1, 0, 2]\<rparr>)\<rparr>"
  define E :: "unit env" where "E = \<lparr>e_malloc_req = (\<lambda>_. True), e_malloc_res = (\<lambda>_. True), e_convert = True, e_junk = (\<lambda>_. 0), e_stale = False, e_aton = (\<lambda>s. None),
     e_query = (\<lambda>d s. (d, True)), e_rows = (\<lambda>d s n. Some []), e_server_ip = None, e_recovery = 7, e_ext_set_num = 1, e_pgw_unit_num = 2, e_ipv64 = False\<rparr>"
  have l: "length (ue_ipv_n cs) = 4" by (simp add: cs_def)
  obtain r where r: "advertises (demo_user_env 0) cs demo_solicit r" using advertisement_ok [OF demo_solicit_facts(1,3) l] by blast
  have e: "e_ext_set_num E = ue_ext_set_num (demo_user_env 0)" "e_pgw_unit_num E = ue_pgw_unit_num (demo_user_env 0)" by (simp_all add: E_def demo_user_env_def)
  have f: "all_of HAVE_PDN cs" "(pdn (ps cs) ! 4) AND 7 = 2" by (simp_all add: cs_def all_of_def have_flag_def zero_state_def)
  obtain item where i: "paa_ue E cs = Some item" using f by (auto simp: paa_ue_def gtpc_paa_set_def zeros_def cs_def)
  from advertised_prefix_is_assigned [OF r l refl e i f(1)] f(2) have "rd_bytes (p_data r) 88 8 = take 8 (drop 6 item)" by simp
  then show ?thesis using r i by (intro exI [of _ E] exI [of _ cs]) (auto simp: cs_def)
qed

text \<open>One address stops the node: when the database holds an address with a first octet other than zero for the tunnel of a Router
  Solicitation, the loop over the burst is left. Nothing behind the solicitation in the burst is handled, and the solicitation, the answer
  prepared for it and all packets behind it stay allocated for ever.\<close>

theorem solicitation_loses_burst:
  assumes "node_ok (us_node s)" "take 32 (side INGRESS (us_node s)) = p # pkts" "solicited p" "8 \<le> unat (p_datalen p)" "ue_alloc E 0"
    "terminal E (us_db s) p = Some cs" "has HAVE_RECORD cs" "ue_ipv_n cs ! 0 \<noteq> 0"
  shows "\<exists>s' r. event_gtpu_other_req E s = Some (s', True) \<and> us_lost s' = us_lost s @ r # p # pkts \<and> us_freed s' = us_freed s \<and> us_db s' = us_db s \<and>
    side EGRESS (us_node s') = side EGRESS (us_node s)"
proof -
  obtain nd where t: "pgw_deq_burst INGRESS 32 (us_node s) = (p # pkts, nd)" "side EGRESS nd = side EGRESS (us_node s)"
    using burst_taken [OF assms(1)] assms(2) by metis
  obtain rows where r: "ue_rows E (us_db s) (ucast (word_be (rd_bytes (p_data p) 4 4))) = Some rows" "cs = foldl (on_tunnel_record (ue_aton E)) zero_session rows"
    using assms(6) by (auto simp: terminal_def)
  note m = template_teid [OF assms(4)]
  have "\<exists>r. answer_solicit E 0 p (s\<lparr>us_node := nd\<rparr>) = Some (s\<lparr>us_node := nd, us_lost := us_lost s @ [r]\<rparr>, False)"
    using assms(5,7,8) r by (simp add: answer_solicit_def m Let_def) (rule exI, rule refl)
  then show ?thesis using t assms(3) by (auto simp: event_gtpu_other_req_def solicited_def)
qed

theorem solicitation_loses_burst_witness:
  "\<exists>s' r. event_gtpu_other_req (demo_user_env 10) (demo_user_state [demo_solicit, demo_solicit]) = Some (s', True) \<and>
     us_lost s' = [r, demo_solicit, demo_solicit]"
proof -
  let ?s = "demo_user_state [demo_solicit, demo_solicit]"
  obtain cs where cs: "terminal (demo_user_env 10) (us_db ?s) demo_solicit = Some cs" "has HAVE_RECORD cs" "ue_ipv_n cs = [10, 1, 2, 3]" using demo_terminal by blast
  have "node_ok (us_node ?s)" "take 32 (side INGRESS (us_node ?s)) = demo_solicit # [demo_solicit]" by (simp_all add: demo_user_ok)
  from solicitation_loses_burst [OF this demo_solicit_facts(1) _ _ cs(1,2)] cs(3) demo_solicit_facts(3) demo_user_ok(1) [of 10]
  show ?thesis by (auto simp: demo_user_state_def)
qed

end
