(* ===== verification/Ctrl_Receive.thy ===== *)
theory Ctrl_Receive
  imports Ctrl_User
begin

text \<open>
  Reception (\<open>__on_receive\<close> of \<open>ctrlplane/src/cmn/start.c\<close>): the server thread of a port peeks at the header of the next datagram,
  checks it, and reads the length the header claims; what it reads goes to \<open>event_rx\<close>. A socket is the list of the datagrams that wait
  in it, with their sources: a read takes one datagram and cuts it at the size of the buffer, a peek leaves it there.
\<close>

section \<open>The server thread\<close>

type_synonym datagram = "byte list \<times> byte list"

definition claimed_length :: "mem \<Rightarrow> nat" where
  "claimed_length m = unat (ldn16 m 2)"

text \<open>The checks of a header, and the length to read: the length field does not count the first eight octets of GTP-U, nor the first
  four of GTP-C; on any other port a whole header of GTP-C is read.\<close>

definition header_valid :: "16 word \<Rightarrow> mem \<Rightarrow> bool" where
  "header_valid port m = (if port = 2152 then gtpu_validate_header m else if port = 2123 then gtpc_validate_header m else True)"

definition read_length :: "16 word \<Rightarrow> mem \<Rightarrow> nat" where
  "read_length port m = (if port = 2152 then 8 + claimed_length m else if port = 2123 then 4 + claimed_length m else 12)"

text \<open>Every error reads four octets once more, whether or not the datagram at fault has been read already.\<close>

definition on_receive :: "bool \<Rightarrow> 16 word \<Rightarrow> byte list \<Rightarrow> mem \<Rightarrow> datagram list \<Rightarrow> datagram list \<times> packet option" where
  "on_receive sockname port own junk q =
     (case q of [] \<Rightarrow> ([], None)
      | (d, src) # q \<Rightarrow>
          if length d < 8 then (q, None)
          else let m = (\<lambda>i. if i < length d then d ! i else junk i); len = read_length port m in
            if claimed_length m < 4 \<or> claimed_length m > 1514 then (q, None)
            else if \<not> header_valid port m then (q, None)
            else if min len (length d) < 4 \<or> min len (length d) \<noteq> len then (drop 1 q, None)
            else if \<not> sockname then (drop 1 q, None)
            else (q, Some \<lparr>p_data = (\<lambda>i. if i < len then d ! i else junk i), p_datalen = word_of_nat len, p_saddr = src, p_caddr = own\<rparr>))"

lemma on_receive_consumes: "q \<noteq> [] \<Longrightarrow> length (fst (on_receive sockname port own junk q)) < length q"
  by (cases q) (auto simp: on_receive_def Let_def split: prod.splits)

text \<open>The events of a socket until no datagram waits; \<open>None\<close> is the panic without memory.\<close>

function receive_all :: "nat \<Rightarrow> bool \<Rightarrow> 16 word \<Rightarrow> byte list \<Rightarrow> mem \<Rightarrow> datagram list \<Rightarrow> rx_state \<Rightarrow> rx_state option" where
  "receive_all sessions alloc port own junk q s =
     (if q = [] then Some s
      else case on_receive True port own junk q of
        (q', None) \<Rightarrow> receive_all sessions alloc port own junk q' s
      | (q', Some pkt) \<Rightarrow>
          (case event_rx sessions True alloc port pkt s of
             None \<Rightarrow> None
           | Some (s', _) \<Rightarrow> receive_all sessions alloc port own junk q' s'))"
  by pat_completeness auto
termination
proof (relation "measure (\<lambda>(sessions, alloc, port, own, junk, q, s). length q)", goal_cases)
  case (2 sessions alloc port own junk q s q' pkt)
  then show ?case using on_receive_consumes [of q True port own junk] by (metis (no_types, lifting) case_prod_conv fst_conv in_measure)
next
  case (3 sessions alloc port own junk q s q' pkt x2 y s' b)
  then show ?case using on_receive_consumes [of q True port own junk] by (metis (no_types, lifting) case_prod_conv fst_conv in_measure)
qed simp

declare receive_all.simps [simp del]

section \<open>What is delivered\<close>

definition wellformed :: "16 word \<Rightarrow> byte list \<Rightarrow> bool" where
  "wellformed port d \<longleftrightarrow> 8 \<le> length d \<and> (let m = (\<lambda>i. if i < length d then d ! i else 0) in
     4 \<le> claimed_length m \<and> claimed_length m \<le> 1514 \<and> header_valid port m \<and> read_length port m \<le> length d)"

fun packet_of :: "16 word \<Rightarrow> byte list \<Rightarrow> mem \<Rightarrow> datagram \<Rightarrow> packet" where
  "packet_of port own junk (d, src) =
     (let len = read_length port (\<lambda>i. if i < length d then d ! i else 0) in
      \<lparr>p_data = (\<lambda>i. if i < len then d ! i else junk i), p_datalen = word_of_nat len, p_saddr = src, p_caddr = own\<rparr>)"

lemma header_cong:
  assumes "\<And>i. i < 4 \<Longrightarrow> m i = m' i"
  shows "claimed_length m = claimed_length m'" "header_valid port m = header_valid port m'" "read_length port m = read_length port m'"
proof -
  have l: "ldn16 m 2 = ldn16 m' 2" using assms [of 2] assms [of 3] by (simp add: ldn16_def ld16_def)
  have o: "m 0 = m' 0" "m (Suc 0) = m' (Suc 0)" using assms by simp_all
  show c: "claimed_length m = claimed_length m'" by (simp add: claimed_length_def l)
  then show "read_length port m = read_length port m'" by (simp add: read_length_def)
  show "header_valid port m = header_valid port m'" by (simp add: header_valid_def gtpu_validate_header_def gtpc_validate_header_def l o)
qed

lemma on_receive_delivers:
  "wellformed port (fst x) \<Longrightarrow> on_receive True port own junk (x # q) = (q, Some (packet_of port own junk x))"
  "\<not> wellformed port (fst x) \<Longrightarrow> snd (on_receive True port own junk (x # q)) = None"
proof -
  obtain d src where x: "x = (d, src)" by fastforce
  let ?m = "\<lambda>i. if i < length d then d ! i else junk i" and ?z = "\<lambda>i. if i < length d then d ! i else 0"
  have h: "8 \<le> length d \<Longrightarrow> claimed_length ?m = claimed_length ?z" "8 \<le> length d \<Longrightarrow> header_valid port ?m = header_valid port ?z"
    "8 \<le> length d \<Longrightarrow> read_length port ?m = read_length port ?z"
    by (rule header_cong; simp)+
  have r: "4 \<le> read_length port ?z" if "4 \<le> claimed_length ?z" using that by (simp add: read_length_def)
  show "on_receive True port own junk (x # q) = (q, Some (packet_of port own junk x))" if "wellformed port (fst x)"
    using that r by (simp add: x wellformed_def Let_def on_receive_def h)
  show "snd (on_receive True port own junk (x # q)) = None" if "\<not> wellformed port (fst x)"
    using that by (auto simp: x wellformed_def Let_def on_receive_def h)
qed


lemma receive_all_Nil [simp]: "receive_all sessions alloc port own junk [] s = Some s"
  by (simp add: receive_all.simps)

lemma receive_all_step:
  "wellformed port (fst x) \<Longrightarrow> receive_all sessions alloc port own junk (x # q) s =
     (case event_rx sessions True alloc port (packet_of port own junk x) s of None \<Rightarrow> None
      | Some (s', _) \<Rightarrow> receive_all sessions alloc port own junk q s')"
  "\<not> wellformed port (fst x) \<Longrightarrow> receive_all sessions alloc port own junk (x # q) s =
     receive_all sessions alloc port own junk (fst (on_receive True port own junk (x # q))) s"
  using on_receive_delivers [of port x own junk q]
  by (auto simp: receive_all.simps [of _ _ _ _ _ "x # q"] split: prod.splits option.splits)

lemma packet_header:
  assumes "wellformed port (fst x)"
  shows "unat (p_datalen (packet_of port own junk x)) = read_length port (p_data (packet_of port own junk x))"
    "header_valid port (p_data (packet_of port own junk x))"
proof -
  obtain d src where x: "x = (d, src)" by fastforce
  let ?z = "\<lambda>i. if i < length d then d ! i else 0" and ?d = "p_data (packet_of port own junk x)"
  have w: "8 \<le> length d" "4 \<le> claimed_length ?z" "claimed_length ?z \<le> 1514" "header_valid port ?z" "read_length port ?z \<le> length d"
    using assms by (simp_all add: x wellformed_def Let_def)
  have r: "8 \<le> read_length port ?z" "read_length port ?z < 2 ^ 16" using w(2,3) by (simp_all add: read_length_def)
  have m: "?d i = ?z i" if "i < 4" for i using that r w(1) by (simp add: x Let_def)
  note h = header_cong [of ?d ?z, OF m]
  have "p_datalen (packet_of port own junk x) = word_of_nat (read_length port ?z)" by (simp add: x Let_def)
  then show "unat (p_datalen (packet_of port own junk x)) = read_length port ?d"
    using r(2) h(3) [of port] by (simp add: unsigned_of_nat take_bit_eq_mod)
  show "header_valid port ?d" using w(4) by (simp add: h(2))
qed

lemma event_rx_queues:
  assumes "\<And>i. node_ok (rx_nodes s i)" "\<And>i. length (side INGRESS (rx_nodes s i)) < 20 * 1024"
  shows "\<exists>s' r. event_rx sessions True True port p s = Some (s', r) \<and> (\<forall>i. node_ok (rx_nodes s' i)) \<and>
    (\<forall>i. side INGRESS (rx_nodes s' i) = side INGRESS (rx_nodes s i) @ (if rx_node sessions port (p_data p) = Some i then [p] else [])) \<and>
    rx_freed s' = rx_freed s @ (if rx_node sessions port (p_data p) = None then [p] else [])"
proof (cases "rx_node sessions port (p_data p)")
  case None
  then show ?thesis using assms(1) by (auto simp: event_rx_def)
next
  case (Some j)
  then show ?thesis
    using assms enq_side(1,2) [OF assms(1) [of j], of INGRESS p] by (auto simp: event_rx_def)
qed

section \<open>Properties\<close>

text \<open>Reception is complete and fair: when every waiting datagram has a valid header, claims between 4 and 1514 octets and is no shorter than
  it claims, and the queues have room, then all of them are received; on every node exactly the packets of its kind arrive, cut at the length they
  claim, in the order in which they came, and the others are freed.\<close>

theorem datagrams_received_in_order:
  assumes "\<forall>x \<in> set q. wellformed port (fst x)" "\<forall>i. node_ok (rx_nodes s i) \<and> length (side INGRESS (rx_nodes s i)) + length q \<le> 20 * 1024"
  shows "\<exists>s'. receive_all sessions True port own junk q s = Some s' \<and>
    (\<forall>i. node_ok (rx_nodes s' i) \<and> side INGRESS (rx_nodes s' i) = side INGRESS (rx_nodes s i) @
       filter (\<lambda>p. rx_node sessions port (p_data p) = Some i) (map (packet_of port own junk) q)) \<and>
    rx_freed s' = rx_freed s @ filter (\<lambda>p. rx_node sessions port (p_data p) = None) (map (packet_of port own junk) q)"
  using assms
proof (induction q arbitrary: s)
  case (Cons x q)
  let ?p = "packet_of port own junk x"
  have "node_ok (rx_nodes s i)" "length (side INGRESS (rx_nodes s i)) < 20 * 1024" for i
    using spec [OF Cons.prems(2), of i] by simp_all
  then obtain s1 r where s1: "event_rx sessions True True port ?p s = Some (s1, r)" "\<forall>i. node_ok (rx_nodes s1 i)"
    "\<forall>i. side INGRESS (rx_nodes s1 i) = side INGRESS (rx_nodes s i) @ (if rx_node sessions port (p_data ?p) = Some i then [?p] else [])"
    "rx_freed s1 = rx_freed s @ (if rx_node sessions port (p_data ?p) = None then [?p] else [])"
    using event_rx_queues [of s sessions port ?p] by blast
  have "\<forall>i. node_ok (rx_nodes s1 i) \<and> length (side INGRESS (rx_nodes s1 i)) + length q \<le> 20 * 1024"
  proof
    fix i
    have "length (side INGRESS (rx_nodes s i)) + length (x # q) \<le> 20 * 1024" using Cons.prems(2) by blast
    then show "node_ok (rx_nodes s1 i) \<and> length (side INGRESS (rx_nodes s1 i)) + length q \<le> 20 * 1024" using s1(2,3) by simp
  qed
  moreover have "\<forall>x \<in> set q. wellformed port (fst x)" "wellformed port (fst x)" using Cons.prems(1) by simp_all
  ultimately show ?case using Cons.IH [of s1] s1 by (auto simp: receive_all_step(1))
qed auto

text \<open>The node for user plane messages gets solicitations only: whatever datagrams come in on the GTP-U port, malformed ones included, what is
  added to that node is a user packet with the length its header claims, and never an Error Indication, which the check of the header
  refuses. Together with the answers to solicitations this makes the handling of Error Indications unreachable.\<close>

theorem error_indications_never_arrive:
  assumes "receive_all sessions alloc 2152 own junk q s = Some s'" "p \<in> set (ingress_queue (rx_nodes s' GTPU_OTHER))"
  shows "p \<in> set (ingress_queue (rx_nodes s GTPU_OTHER)) \<or>
    p_data p 1 = 255 \<and> unat (p_datalen p) = 8 + unat (ldn16 (p_data p) 2)"
  using assms(1)
proof (induction "length q" arbitrary: q s rule: less_induct)
  case less
  show ?case
  proof (cases q)
    case Nil
    then show ?thesis using less.prems assms(2) by simp
  next
    case (Cons x q')
    let ?p = "packet_of 2152 own junk x"
    show ?thesis
    proof (cases "wellformed 2152 (fst x)")
      case True
      obtain s1 r where s1: "event_rx sessions True alloc 2152 ?p s = Some (s1, r)" "receive_all sessions alloc 2152 own junk q' s1 = Some s'"
        using less.prems True by (auto simp: Cons receive_all_step(1) split: option.splits)
      have "p \<in> set (ingress_queue (rx_nodes s1 GTPU_OTHER)) \<or> p_data p 1 = 255 \<and> unat (p_datalen p) = 8 + unat (ldn16 (p_data p) 2)"
        using less.hyps [OF _ s1(2)] by (simp add: Cons)
      moreover have "rx_node sessions 2152 (p_data ?p) = Some GTPU_OTHER \<Longrightarrow> p_data ?p 1 = 255"
        using packet_header(2) [OF True, of own junk] by (auto simp: header_valid_def gtpu_validate_header_def rx_node_def Let_def split: if_splits)
      moreover have "unat (p_datalen ?p) = 8 + unat (ldn16 (p_data ?p) 2)"
        using packet_header(1) [OF True, of own junk] by (simp add: read_length_def claimed_length_def)
      ultimately show ?thesis using s1(1) by (auto simp: event_rx_def pgw_enq_def split: if_splits option.splits)
    next
      case False
      have "length (fst (on_receive True 2152 own junk q)) < length q" using on_receive_consumes [of q True 2152 own junk] Cons by simp
      then show ?thesis using less.hyps less.prems False unfolding Cons by (simp add: receive_all_step(2))
    qed
  qed
qed


text \<open>A truncated datagram takes the next one with it: when a datagram has a valid header and is shorter than it claims, it has been read before this is
  noticed, and the error path reads once more; the datagram behind it is thrown away unseen, whatever it holds.\<close>

theorem truncated_datagram_swallows_next:
  assumes "8 \<le> length d" "m = (\<lambda>i. if i < length d then d ! i else 0)" "4 \<le> claimed_length m" "claimed_length m \<le> 1514" "header_valid port m"
    "length d < read_length port m"
  shows "on_receive sockname port own junk ((d, src) # x # q) = (q, None) \<and>
    receive_all sessions alloc port own junk ((d, src) # x # q) s = receive_all sessions alloc port own junk q s"
proof -
  let ?m = "\<lambda>i. if i < length d then d ! i else junk i"
  have h: "claimed_length ?m = claimed_length m" "header_valid port ?m = header_valid port m" "read_length port ?m = read_length port m"
    using assms(1) unfolding assms(2) by (rule_tac header_cong; simp)+
  have r: "on_receive b port own junk ((d, src) # x # q) = (q, None)" for b
    using assms(1,3-6) by (simp add: on_receive_def Let_def h)
  have "\<not> wellformed port (fst (d, src))" using assms(6) unfolding assms(2) by (simp add: wellformed_def)
  then show ?thesis using r by (simp add: receive_all_step(2))
qed

definition demo_rx :: rx_state where
  "demo_rx = \<lparr>rx_nodes = (\<lambda>_. empty_node), rx_freed = []\<rparr>"

text \<open>A user packet with a solicitation, the same one cut off, and an Error Indication.\<close>

definition demo_gpdu :: "byte list" where
  "demo_gpdu = [0x30, 255, 0, 4, 0, 0, 0, 7, 1, 2, 3, 4]"

lemma demo_gpdu_facts:
  "wellformed 2152 demo_gpdu" "rx_node 2 2152 (p_data (packet_of 2152 own junk (demo_gpdu, src))) = Some GTPU_OTHER"
proof -
  have n: "ldn16 m a = mk16 (m (a + 1)) (m a)" for m a by (simp add: ldn16_def ld16_def)
  have v: "drop_bit 5 (0x30 :: byte) = 1" "bit (0x30 :: byte) 4" "\<not> bit (0x30 :: byte) 0" by (simp_all add: drop_bit_eq_div bit_numeral_rec)
  show w: "wellformed 2152 demo_gpdu"
    by (simp add: wellformed_def claimed_length_def read_length_def header_valid_def gtpu_validate_header_def demo_gpdu_def n mk16_def v)
  have "read_length 2152 (\<lambda>i. if i < length demo_gpdu then demo_gpdu ! i else 0) = 12"
    by (simp add: read_length_def claimed_length_def demo_gpdu_def n mk16_def)
  then show "rx_node 2 2152 (p_data (packet_of 2152 own junk (demo_gpdu, src))) = Some GTPU_OTHER"
    by (simp add: rx_node_def Let_def) (simp add: demo_gpdu_def v)
qed

theorem datagrams_received_in_order_witness:
  "\<exists>s'. receive_all 2 True 2152 [] (\<lambda>_. 0) [(demo_gpdu, [1]), (demo_gpdu, [2])] demo_rx = Some s' \<and>
     map p_saddr (side INGRESS (rx_nodes s' GTPU_OTHER)) = [[1], [2]]"
proof -
  let ?q = "[(demo_gpdu, [1]), (demo_gpdu, [2])]"
  have "\<forall>x \<in> set ?q. wellformed 2152 (fst x)" "\<forall>i. node_ok (rx_nodes demo_rx i) \<and> length (side INGRESS (rx_nodes demo_rx i)) + length ?q \<le> 20 * 1024"
    using demo_gpdu_facts(1) by (simp_all add: demo_rx_def node_ok_def empty_node_def side_def)
  from datagrams_received_in_order [OF this, of 2 "[]" "\<lambda>_. 0"] obtain s' where
    s': "receive_all 2 True 2152 [] (\<lambda>_. 0) ?q demo_rx = Some s'"
    "side INGRESS (rx_nodes s' GTPU_OTHER) = side INGRESS (rx_nodes demo_rx GTPU_OTHER) @
       filter (\<lambda>p. rx_node 2 2152 (p_data p) = Some GTPU_OTHER) (map (packet_of 2152 [] (\<lambda>_. 0)) ?q)" by blast
  have "filter (\<lambda>p. rx_node 2 2152 (p_data p) = Some GTPU_OTHER) (map (packet_of 2152 [] (\<lambda>_. 0)) ?q) = map (packet_of 2152 [] (\<lambda>_. 0)) ?q"
    using demo_gpdu_facts(2) by (simp del: packet_of.simps)
  then show ?thesis using s' by (simp add: Let_def demo_rx_def side_def empty_node_def)
qed

theorem error_indications_never_arrive_witness:
  "\<exists>s' p. receive_all 2 True 2152 [] (\<lambda>_. 0) [(demo_gpdu, [1])] demo_rx = Some s' \<and> p \<in> set (ingress_queue (rx_nodes s' GTPU_OTHER)) \<and> p_data p 1 = 255"
proof -
  let ?p = "packet_of 2152 [] (\<lambda>_. 0) (demo_gpdu, [1])"
  obtain s' r where e: "event_rx 2 True True 2152 ?p demo_rx = Some (s', r)" "?p \<in> set (ingress_queue (rx_nodes s' GTPU_OTHER))"
    using demo_gpdu_facts(2) [of "[]" "\<lambda>_. 0" "[1]"]
    by (simp add: event_rx_def pgw_enq_def demo_rx_def empty_node_def word_le_nat_alt del: packet_of.simps)
  then have r: "receive_all 2 True 2152 [] (\<lambda>_. 0) [(demo_gpdu, [1])] demo_rx = Some s'"
    using demo_gpdu_facts(1) by (simp add: receive_all_step(1) del: packet_of.simps)
  from error_indications_never_arrive [OF r e(2)] have "p_data ?p 1 = 255" by (simp add: demo_rx_def empty_node_def del: packet_of.simps)
  with r e(2) show ?thesis by blast
qed

theorem truncated_datagram_swallows_next_witness:
  "receive_all 2 True 2152 [] (\<lambda>_. 0) [(take 11 demo_gpdu, [9]), (demo_gpdu, [1])] demo_rx = Some demo_rx"
proof -
  let ?d = "take 11 demo_gpdu"
  have n: "ldn16 m a = mk16 (m (a + 1)) (m a)" for m a by (simp add: ldn16_def ld16_def)
  have v: "drop_bit 5 (0x30 :: byte) = 1" "bit (0x30 :: byte) 4" "\<not> bit (0x30 :: byte) 0" by (simp_all add: drop_bit_eq_div bit_numeral_rec)
  have "8 \<le> length ?d" "4 \<le> claimed_length (\<lambda>i. if i < length ?d then ?d ! i else 0)" "claimed_length (\<lambda>i. if i < length ?d then ?d ! i else 0) \<le> 1514"
    "header_valid 2152 (\<lambda>i. if i < length ?d then ?d ! i else 0)" "length ?d < read_length 2152 (\<lambda>i. if i < length ?d then ?d ! i else 0)"
    by (simp_all add: demo_gpdu_def claimed_length_def read_length_def header_valid_def gtpu_validate_header_def n mk16_def v)
  from truncated_datagram_swallows_next [OF this(1) refl this(2-5), of True "[]" "\<lambda>_. 0" "[9]" "(demo_gpdu, [1])" "[]" 2 True demo_rx]
  show ?thesis by simp
qed

end
