(* ===== verification/Ctrl_Tx.thy ===== *)
theory Ctrl_Tx
  imports Ctrl_Receive
begin

text \<open>
  Sending (\<open>ctrlplane/src/cmn/send.c\<close>, \<open>src/pgw/event/event_tx.c\<close>): the node that transmits takes bursts
  from the egress queues of all others and sends them from the socket their source address names. What \<open>select\<close> and \<open>sendto\<close> answer are
  parameters.
\<close>

section \<open>Sockets\<close>

datatype retcd = RC_OK | RC_ERR | RC_NOTFOUND

datatype server = SERVER_GTPC | SERVER_GTPU

text \<open>One turn of the loop: \<open>select\<close> is interrupted, fails, times out, reports another descriptor, or reports this one and \<open>sendto\<close> answers.\<close>

datatype turn = Interrupted | SelectFailed | TimedOut | NotSet | Sendto int

text \<open>The result is the list of what was handed to \<open>sendto\<close>, and whether the function returns success. \<open>retrycnt\<close> is tested after \<open>select\<close>.\<close>

function send_loop :: "(nat \<Rightarrow> turn) \<Rightarrow> mem \<Rightarrow> int \<Rightarrow> int \<Rightarrow> nat \<Rightarrow> byte list list \<times> bool" where
  "send_loop sel data len allsend retrycnt =
     (if retrycnt > 10 then ([], False)
      else case sel retrycnt of
        Interrupted \<Rightarrow> send_loop sel data len allsend (Suc retrycnt)
      | SelectFailed \<Rightarrow> ([], False)
      | NotSet \<Rightarrow> send_loop sel data len allsend (Suc retrycnt)
      | TimedOut \<Rightarrow> ([], True)
      | Sendto sendlen \<Rightarrow>
          let out = rd_bytes data (nat allsend) (nat (len - allsend)) in
          if sendlen < 0 then ([out], False)
          else if allsend + sendlen \<ge> len then ([out], True)
          else case send_loop sel data len (allsend + sendlen) (Suc retrycnt) of (outs, ok) \<Rightarrow> (out # outs, ok))"
  by pat_completeness auto
termination
  by (relation "measure (\<lambda>(sel, data, len, allsend, retrycnt). 11 - retrycnt)") auto

declare send_loop.simps [simp del]

record 'd tx_env =
  te_turn :: "nat \<Rightarrow> nat \<Rightarrow> turn"
  te_query :: "'d \<Rightarrow> string \<Rightarrow> 'd \<times> bool"
  te_server_id :: string
  te_gtpc_addr :: "byte list"
  te_gtpu_addr :: "byte list"

record 'd tx_state =
  tx_nodes :: "node_id \<Rightarrow> node"
  tx_db :: 'd
  tx_out :: "(server \<times> byte list \<times> byte list) list"
  tx_freed :: "packet list"

text \<open>The octets of a source address that are compared: the port and the address.\<close>

definition same_addr :: "byte list \<Rightarrow> byte list \<Rightarrow> bool" where
  "same_addr a b \<longleftrightarrow> sin_addr a = sin_addr b \<and> take 2 (drop 2 a) = take 2 (drop 2 b)"

definition pgw_send_sock :: "(nat \<Rightarrow> turn) \<Rightarrow> server \<Rightarrow> packet \<Rightarrow> 'd tx_state \<Rightarrow> retcd \<times> 'd tx_state" where
  "pgw_send_sock sel sock p s =
     (case send_loop sel (p_data p) (sint (p_datalen p)) 0 0 of (outs, ok) \<Rightarrow>
        (if ok then RC_OK else RC_ERR, s\<lparr>tx_out := tx_out s @ map (\<lambda>b. (sock, p_caddr p, b)) outs\<rparr>))"

definition pgw_send :: "'d tx_env \<Rightarrow> (nat \<Rightarrow> turn) \<Rightarrow> packet \<Rightarrow> 'd tx_state \<Rightarrow> retcd \<times> 'd tx_state" where
  "pgw_send E sel p s =
     (if same_addr (te_gtpc_addr E) (p_saddr p) then pgw_send_sock sel SERVER_GTPC p s
      else if same_addr (te_gtpu_addr E) (p_saddr p) then pgw_send_sock sel SERVER_GTPU p s
      else (RC_NOTFOUND, s))"

section \<open>The transmitting node\<close>

definition invalid_status_sql :: "byte list \<Rightarrow> string \<Rightarrow> string" where
  "invalid_status_sql src server_id =
     take 254 (concat [''UPDATE  keepalive SET stat = -1, updated_at = NOW() WHERE src_ip='', quoted (ntoa (sin_addr src)),
       '' AND src_port= '', num (sin_port src), '' AND server_id='', quoted server_id, '' ''])"

text \<open>A probe of the timer goes out by the port of its source, anything else by the whole source address.\<close>

definition tx_packet :: "'d tx_env \<Rightarrow> node_id \<Rightarrow> nat \<Rightarrow> packet \<Rightarrow> 'd tx_state \<Rightarrow> 'd tx_state" where
  "tx_packet E i k p s =
     (let (ret, s) =
        (if i = TIMER then
           if sin_port (p_saddr p) = 2152 then pgw_send_sock (te_turn E k) SERVER_GTPU p s
           else if sin_port (p_saddr p) = 2123 then pgw_send_sock (te_turn E k) SERVER_GTPC p s
           else (RC_NOTFOUND, s)
         else pgw_send E (te_turn E k) p s);
        s = (if ret = RC_NOTFOUND then s\<lparr>tx_db := fst (te_query E (tx_db s) (invalid_status_sql (p_saddr p) (te_server_id E)))\<rparr> else s) in
      s\<lparr>tx_freed := tx_freed s @ [p]\<rparr>)"

fun tx_burst :: "'d tx_env \<Rightarrow> node_id \<Rightarrow> nat \<Rightarrow> packet list \<Rightarrow> 'd tx_state \<Rightarrow> 'd tx_state" where
  "tx_burst E i k [] s = s"
| "tx_burst E i k (p # pkts) s = tx_burst E i (Suc k) pkts (tx_packet E i k p s)"

text \<open>\<open>k\<close> packets have been sent; the nodes are visited in this order.\<close>

fun tx_loop :: "'d tx_env \<Rightarrow> node_id list \<Rightarrow> nat \<Rightarrow> 'd tx_state \<Rightarrow> nat \<times> 'd tx_state" where
  "tx_loop E [] k s = (k, s)"
| "tx_loop E (i # is) k s =
     (case pgw_deq_burst EGRESS 32 (tx_nodes s i) of (pkts, nd) \<Rightarrow>
        tx_loop E is (k + length pkts) (tx_burst E i k pkts (s\<lparr>tx_nodes := (tx_nodes s)(i := nd)\<rparr>)))"

definition tx_order :: "nat \<Rightarrow> node_id list" where
  "tx_order sessions = [GTPU_ECHO, GTPC_ECHO, TIMER] @ map CREATE_SESSION [0..<sessions] @ [MODIFY_BEARER, GTPC_OTHER, GTPU_OTHER]"

definition event_tx :: "'d tx_env \<Rightarrow> nat \<Rightarrow> 'd tx_state \<Rightarrow> 'd tx_state \<times> bool" where
  "event_tx E sessions s = (case tx_loop E (tx_order sessions) 0 s of (k, s) \<Rightarrow> (s, k > 0))"


section \<open>What is sent\<close>

definition payload :: "packet \<Rightarrow> byte list" where
  "payload p = rd_bytes (p_data p) 0 (nat (sint (p_datalen p)))"

definition socket_of :: "'d tx_env \<Rightarrow> node_id \<Rightarrow> packet \<Rightarrow> server option" where
  "socket_of E i p =
     (if i = TIMER then if sin_port (p_saddr p) = 2152 then Some SERVER_GTPU else if sin_port (p_saddr p) = 2123 then Some SERVER_GTPC else None
      else if same_addr (te_gtpc_addr E) (p_saddr p) then Some SERVER_GTPC
      else if same_addr (te_gtpu_addr E) (p_saddr p) then Some SERVER_GTPU else None)"

definition sent :: "'d tx_env \<Rightarrow> node_id \<times> packet \<Rightarrow> (server \<times> byte list \<times> byte list) list" where
  "sent E x = (case socket_of E (fst x) (snd x) of None \<Rightarrow> [] | Some sock \<Rightarrow> [(sock, p_caddr (snd x), payload (snd x))])"

definition waiting_out :: "(node_id \<Rightarrow> node) \<Rightarrow> node_id list \<Rightarrow> (node_id \<times> packet) list" where
  "waiting_out nodes is = concat (map (\<lambda>i. map (Pair i) (take 32 (side EGRESS (nodes i)))) is)"

text \<open>The sockets take every packet whole, at the first turn.\<close>

fun takes_all :: "'d tx_env \<Rightarrow> nat \<Rightarrow> packet list \<Rightarrow> bool" where
  "takes_all E k [] \<longleftrightarrow> True"
| "takes_all E k (p # pkts) \<longleftrightarrow> 0 \<le> sint (p_datalen p) \<and> te_turn E k 0 = Sendto (sint (p_datalen p)) \<and> takes_all E (Suc k) pkts"

lemma takes_all_append: "takes_all E k (xs @ ys) \<longleftrightarrow> takes_all E k xs \<and> takes_all E (k + length xs) ys"
  by (induction xs arbitrary: k) auto

lemma tx_packet_sends:
  assumes "0 \<le> sint (p_datalen p)" "te_turn E k 0 = Sendto (sint (p_datalen p))"
  shows "tx_out (tx_packet E i k p s) = tx_out s @ sent E (i, p)" "tx_freed (tx_packet E i k p s) = tx_freed s @ [p]"
    "tx_nodes (tx_packet E i k p s) = tx_nodes s"
proof -
  have "send_loop (te_turn E k) (p_data p) (sint (p_datalen p)) 0 0 = ([payload p], True)"
    using assms by (simp add: send_loop.simps payload_def)
  then show "tx_out (tx_packet E i k p s) = tx_out s @ sent E (i, p)" "tx_freed (tx_packet E i k p s) = tx_freed s @ [p]"
    "tx_nodes (tx_packet E i k p s) = tx_nodes s"
    by (simp_all add: tx_packet_def pgw_send_def pgw_send_sock_def sent_def socket_of_def)
qed

lemma tx_burst_sends:
  assumes "takes_all E k pkts"
  shows "tx_out (tx_burst E i k pkts s) = tx_out s @ concat (map (\<lambda>p. sent E (i, p)) pkts)"
    "tx_freed (tx_burst E i k pkts s) = tx_freed s @ pkts" "tx_nodes (tx_burst E i k pkts s) = tx_nodes s"
  using assms by (induction pkts arbitrary: k s) (simp_all add: tx_packet_sends)

lemma waiting_out_upd: "i \<notin> set is \<Longrightarrow> waiting_out (nodes(i := nd)) is = waiting_out nodes is"
  by (induction "is") (auto simp: waiting_out_def)

lemma tx_loop_sends:
  assumes "distinct is" "\<forall>i. node_ok (tx_nodes s i)" "takes_all E k (map snd (waiting_out (tx_nodes s) is))" "tx_loop E is k s = (k', s')"
  shows "tx_out s' = tx_out s @ concat (map (sent E) (waiting_out (tx_nodes s) is)) \<and> tx_freed s' = tx_freed s @ map snd (waiting_out (tx_nodes s) is) \<and>
    k' = k + length (waiting_out (tx_nodes s) is) \<and> (\<forall>i. node_ok (tx_nodes s' i) \<and> side INGRESS (tx_nodes s' i) = side INGRESS (tx_nodes s i) \<and>
      side EGRESS (tx_nodes s' i) = drop (if i \<in> set is then 32 else 0) (side EGRESS (tx_nodes s i)))"
  using assms
proof (induction "is" arbitrary: k s)
  case (Cons i "is")
  let ?n = "tx_nodes s i"
  obtain pkts nd where t: "pgw_deq_burst EGRESS 32 ?n = (pkts, nd)" by fastforce
  have ok: "node_ok ?n" using Cons.prems(2) by simp
  have d: "pkts = take 32 (side EGRESS ?n)" "side EGRESS nd = drop 32 (side EGRESS ?n)"
    using t by (auto simp: pgw_deq_burst_def deq_loop_take side_def)
  have nd: "node_ok nd" "side INGRESS nd = side INGRESS ?n" using deq_side(1) [OF ok t] deq_side(5) [OF ok t, of INGRESS] by simp_all
  let ?s = "tx_burst E i k pkts (s\<lparr>tx_nodes := (tx_nodes s)(i := nd)\<rparr>)"
  have du: "waiting_out (tx_nodes s) (i # is) = map (Pair i) pkts @ waiting_out (tx_nodes s) is" by (simp add: waiting_out_def d)
  have w: "takes_all E k pkts" "takes_all E (k + length pkts) (map snd (waiting_out (tx_nodes s) is))"
    using Cons.prems(3) by (simp_all add: du takes_all_append comp_def)
  note b = tx_burst_sends [OF w(1), of i "s\<lparr>tx_nodes := (tx_nodes s)(i := nd)\<rparr>"]
  have i: "i \<notin> set is" using Cons.prems(1) by simp
  have e: "waiting_out (tx_nodes ?s) is = waiting_out (tx_nodes s) is" using i by (simp add: b waiting_out_upd)
  have l: "tx_loop E is (k + length pkts) ?s = (k', s')" using Cons.prems(4) t by simp
  have "tx_out s' = tx_out ?s @ concat (map (sent E) (waiting_out (tx_nodes ?s) is)) \<and> tx_freed s' = tx_freed ?s @ map snd (waiting_out (tx_nodes ?s) is) \<and>
    k' = k + length pkts + length (waiting_out (tx_nodes ?s) is) \<and> (\<forall>j. node_ok (tx_nodes s' j) \<and> side INGRESS (tx_nodes s' j) = side INGRESS (tx_nodes ?s j) \<and>
      side EGRESS (tx_nodes s' j) = drop (if j \<in> set is then 32 else 0) (side EGRESS (tx_nodes ?s j)))"
  proof (rule Cons.IH [OF _ _ _ l])
    show "distinct is" using Cons.prems(1) by simp
    show "\<forall>j. node_ok (tx_nodes ?s j)" using Cons.prems(2) nd(1) by (simp add: b(3))
    show "takes_all E (k + length pkts) (map snd (waiting_out (tx_nodes ?s) is))" unfolding e by (rule w(2))
  qed
  then show ?case using nd(2) d(2) i by (auto simp: b waiting_out_upd [OF i] du comp_def)
qed (simp add: waiting_out_def)

lemma tx_order_distinct: "distinct (tx_order n)" "set (tx_order n) = {GTPU_ECHO, GTPC_ECHO, TIMER, MODIFY_BEARER, GTPC_OTHER, GTPU_OTHER} \<union> CREATE_SESSION ` {..<n}"
  by (auto simp: tx_order_def distinct_map inj_on_def)


lemma send_loop_bounded: "length (fst (send_loop sel data len a k)) \<le> 11 - k"
proof (induction sel data len a k rule: send_loop.induct)
  case (1 sel data len a k)
  show ?case
  proof (cases "k > 10")
    case True
    then show ?thesis by (simp add: send_loop.simps)
  next
    case False
    show ?thesis
    proof (cases "sel k")
      case (Sendto n)
      then have "length (fst (send_loop sel data len (a + n) (Suc k))) \<le> 11 - Suc k" if "0 \<le> n" "a + n < len"
        using 1(3) [OF False Sendto refl] that by simp
      then show ?thesis using Sendto False by (auto simp: send_loop.simps [of _ _ _ _ k] Let_def split: prod.splits)
    qed (use 1(1,2) [OF False] False in \<open>auto simp: send_loop.simps [of _ _ _ _ k]\<close>)
  qed
qed

lemma send_loop_success:
  "snd (send_loop sel data len a k) \<Longrightarrow> (\<exists>j \<le> 10. sel j = TimedOut) \<or>
     (\<exists>j n a'. j \<le> 10 \<and> sel j = Sendto n \<and> 0 \<le> n \<and> len \<le> a' + n \<and> fst (send_loop sel data len a k) \<noteq> [] \<and>
        last (fst (send_loop sel data len a k)) = rd_bytes data (nat a') (nat (len - a')))"
proof (induction sel data len a k rule: send_loop.induct)
  case (1 sel data len a k)
  then have k: "\<not> k > 10" by (auto simp: send_loop.simps [of _ _ _ _ k])
  show ?case
  proof (cases "sel k")
    case (Sendto n)
    show ?thesis
    proof (cases "n < 0 \<or> len \<le> a + n")
      case True
      with 1(4) Sendto k have "0 \<le> n" "len \<le> a + n" "fst (send_loop sel data len a k) = [rd_bytes data (nat a) (nat (len - a))]"
        by (auto simp: send_loop.simps [of _ _ _ _ k] Let_def split: if_splits)
      then show ?thesis using Sendto k by (intro disjI2 exI [of _ k] exI [of _ n] exI [of _ a]) simp
    next
      case False
      then have e: "send_loop sel data len a k = (rd_bytes data (nat a) (nat (len - a)) # fst (send_loop sel data len (a + n) (Suc k)), snd (send_loop sel data len (a + n) (Suc k)))"
        using Sendto k by (simp add: send_loop.simps [of _ _ _ _ k] Let_def split: prod.splits)
      then show ?thesis using 1(3) [OF k Sendto refl] 1(4) False by auto
    qed
  next
    case TimedOut
    then show ?thesis using k by (intro disjI1 exI [of _ k]) simp
  qed (use 1 k in \<open>auto simp: send_loop.simps [of _ _ _ _ k]\<close>)
qed

lemma event_tx_sends:
  assumes "\<forall>i. node_ok (tx_nodes s i)" "takes_all E 0 (map snd (waiting_out (tx_nodes s) (tx_order n)))" "event_tx E n s = (s', work)"
  shows "tx_out s' = tx_out s @ concat (map (sent E) (waiting_out (tx_nodes s) (tx_order n))) \<and>
    tx_freed s' = tx_freed s @ map snd (waiting_out (tx_nodes s) (tx_order n)) \<and> (work \<longleftrightarrow> waiting_out (tx_nodes s) (tx_order n) \<noteq> []) \<and>
    (\<forall>i. node_ok (tx_nodes s' i) \<and> side INGRESS (tx_nodes s' i) = side INGRESS (tx_nodes s i) \<and>
       side EGRESS (tx_nodes s' i) = drop (if i \<in> set (tx_order n) then 32 else 0) (side EGRESS (tx_nodes s i)))"
proof -
  obtain k where "tx_loop E (tx_order n) 0 s = (k, s')" "work \<longleftrightarrow> 0 < k" using assms(3) by (auto simp: event_tx_def split: prod.splits)
  with tx_loop_sends [OF tx_order_distinct(1) assms(1,2)] show ?thesis by simp
qed

section \<open>Properties\<close>

text \<open>C19: Answers leave in order: when the sockets take every packet, one turn of the transmitting node takes up to 32 packets from each of the other
  nodes, sends every one of them whole to its destination, from the socket its source address names, in the order of the nodes and of their queues;
  packets with a source that is no address of the server are not sent. All of them are freed, nothing else changes in the queues, and the node
  reports work exactly when a packet was there.\<close>

theorem tx_sends_all_nodes:
  assumes "\<forall>i. node_ok (tx_nodes s i)" "takes_all E 0 (map snd (waiting_out (tx_nodes s) (tx_order n)))" "event_tx E n s = (s', work)"
  shows "tx_out s' = tx_out s @ concat (map (sent E) (waiting_out (tx_nodes s) (tx_order n))) \<and>
    tx_freed s' = tx_freed s @ map snd (waiting_out (tx_nodes s) (tx_order n)) \<and> (work \<longleftrightarrow> waiting_out (tx_nodes s) (tx_order n) \<noteq> []) \<and>
    (\<forall>i. node_ok (tx_nodes s' i) \<and> side INGRESS (tx_nodes s' i) = side INGRESS (tx_nodes s i) \<and>
       side EGRESS (tx_nodes s' i) = drop (if i \<in> set (tx_order n) then 32 else 0) (side EGRESS (tx_nodes s i)))"
  by (rule event_tx_sends [OF assms])

text \<open>A send ends after at most eleven turns, and a timeout counts as success: whatever the sockets answer, at most eleven calls of \<open>sendto\<close> are made; the function
  returns success only when the last one completed the packet or \<open>select\<close> timed out; and when it times out at once, nothing was sent and
  success is reported.\<close>

theorem send_bounded_and_timeout_succeeds:
  shows "length (fst (send_loop sel data len 0 0)) \<le> 11 \<and>
    (snd (send_loop sel data len 0 0) \<longrightarrow> (\<exists>j \<le> 10. sel j = TimedOut) \<or>
       (\<exists>n a. 0 \<le> n \<and> len \<le> a + n \<and> fst (send_loop sel data len 0 0) \<noteq> [] \<and>
          last (fst (send_loop sel data len 0 0)) = rd_bytes data (nat a) (nat (len - a)))) \<and>
    (sel 0 = TimedOut \<longrightarrow> pgw_send_sock sel sock p s = (RC_OK, s))"
proof (intro conjI impI)
  show "length (fst (send_loop sel data len 0 0)) \<le> 11" using send_loop_bounded [of sel data len 0 0] by simp
  show "(\<exists>j \<le> 10. sel j = TimedOut) \<or> (\<exists>n a. 0 \<le> n \<and> len \<le> a + n \<and> fst (send_loop sel data len 0 0) \<noteq> [] \<and>
      last (fst (send_loop sel data len 0 0)) = rd_bytes data (nat a) (nat (len - a)))"
    if "snd (send_loop sel data len 0 0)" using send_loop_success [OF that] by blast
  show "pgw_send_sock sel sock p s = (RC_OK, s)" if "sel 0 = TimedOut" using that by (simp add: pgw_send_sock_def send_loop.simps)
qed


definition demo_tx_env :: "unit tx_env" where
  "demo_tx_env = \<lparr>te_turn = (\<lambda>_ _. Sendto 12), te_query = (\<lambda>d q. (d, True)), te_server_id = ''s1'', te_gtpc_addr = demo_sockaddr 1,
     te_gtpu_addr = demo_sockaddr 9\<rparr>"

definition demo_answer_packet :: packet where
  "demo_answer_packet = \<lparr>p_data = (\<lambda>_. 0), p_datalen = 12, p_saddr = demo_sockaddr 1, p_caddr = demo_sockaddr 2\<rparr>"

definition demo_tx_state :: "unit tx_state" where
  "demo_tx_state = \<lparr>tx_nodes = (\<lambda>_. empty_node)(MODIFY_BEARER := empty_node\<lparr>egress_queue := [demo_answer_packet], egress_count := 1\<rparr>),
     tx_db = (), tx_out = [], tx_freed = []\<rparr>"

theorem tx_sends_all_nodes_witness:
  "\<exists>s'. event_tx demo_tx_env 2 demo_tx_state = (s', True) \<and> tx_out s' = [(SERVER_GTPC, demo_sockaddr 2, replicate 12 0)] \<and>
     tx_freed s' = [demo_answer_packet]"
proof -
  obtain s' w where e: "event_tx demo_tx_env 2 demo_tx_state = (s', w)" by fastforce
  have d: "waiting_out (tx_nodes demo_tx_state) (tx_order 2) = [(MODIFY_BEARER, demo_answer_packet)]"
    by (simp add: waiting_out_def demo_tx_state_def tx_order_def side_def empty_node_def)
  have ok: "\<forall>i. node_ok (tx_nodes demo_tx_state i)" by (simp add: demo_tx_state_def node_ok_def empty_node_def)
  have t: "takes_all demo_tx_env 0 (map snd (waiting_out (tx_nodes demo_tx_state) (tx_order 2)))"
    unfolding d by (simp add: demo_tx_env_def demo_answer_packet_def)
  have "payload demo_answer_packet = replicate 12 0"
    by (rule nth_equalityI) (simp_all add: payload_def demo_answer_packet_def)
  then have "sent demo_tx_env (MODIFY_BEARER, demo_answer_packet) = [(SERVER_GTPC, demo_sockaddr 2, replicate 12 0)]"
    by (simp add: sent_def socket_of_def same_addr_def demo_tx_env_def) (simp add: demo_answer_packet_def)
  with tx_sends_all_nodes [OF ok t e] have "tx_out s' = [(SERVER_GTPC, demo_sockaddr 2, replicate 12 0)] \<and> tx_freed s' = [demo_answer_packet] \<and> w"
    unfolding d by (simp add: demo_tx_state_def)
  then show ?thesis using e by auto
qed

theorem send_bounded_and_timeout_succeeds_witness:
  "\<exists>sel. sel 0 = TimedOut \<and> pgw_send_sock sel SERVER_GTPC demo_answer_packet demo_tx_state = (RC_OK, demo_tx_state) \<and>
     tx_out demo_tx_state = []"
proof -
  let ?sel = "\<lambda>_ :: nat. TimedOut"
  have "pgw_send_sock ?sel SERVER_GTPC demo_answer_packet demo_tx_state = (RC_OK, demo_tx_state)"
    using send_bounded_and_timeout_succeeds [of ?sel "\<lambda>_. 0" 12 SERVER_GTPC demo_answer_packet demo_tx_state] by blast
  then show ?thesis by (intro exI [of _ ?sel]) (simp add: demo_tx_state_def)
qed

end
