(* ===== verification/Ctrl_Timer.thy ===== *)
theory Ctrl_Timer
  imports Ctrl_Tx
begin

text \<open>
  Probes (\<open>ctrlplane/src/pgw/event/event_timer.c\<close>): for every peer in the table \<open>keepalive\<close> that is due, the timer queues an Echo Request and
  marks the peer as waiting. The rows of the table, \<open>inet_pton\<close>, the database and the results of \<open>malloc\<close> are parameters; \<open>pgw_panic\<close> is
  \<open>None\<close>.
\<close>

section \<open>Data\<close>

text \<open>The columns the code uses of a row; the texts of addresses are shorter than the 64 octets of \<open>upkey_t\<close>.\<close>

record keepalive =
  k_dst_ip :: string
  k_dst_port :: "64 word"
  k_src_ip :: string
  k_src_port :: "64 word"
  k_proto :: "64 word"
  k_server_type :: "64 word"

record upkey =
  uk_src_ip :: string
  uk_src_port :: "32 word"
  uk_dst_ip :: string
  uk_dst_port :: "32 word"

record 'd timer_env =
  ti_rows :: "'d \<Rightarrow> keepalive list option"
  ti_query :: "'d \<Rightarrow> string \<Rightarrow> 'd \<times> bool"
  ti_pton :: "string \<Rightarrow> byte list option"
  ti_malloc :: "nat \<Rightarrow> bool"
  ti_junk :: mem
  ti_server_id :: string

text \<open>The sequence numbers are static variables of the function.\<close>

record 'd timer_state =
  tm_db :: 'd
  tm_node :: node
  tm_upkeys :: "upkey list"
  tm_gtpc_seqnum :: "32 word"
  tm_gtpu_seqnum :: "32 word"

definition sockaddr_of :: "(string \<Rightarrow> byte list option) \<Rightarrow> string \<Rightarrow> 64 word \<Rightarrow> byte list" where
  "sockaddr_of pton ip port =
     [2, 0] @ be16 (ucast port) @ (case pton ip of None \<Rightarrow> zeros 4 | Some a \<Rightarrow> a) @ zeros 8"

section \<open>Probes\<close>

definition next_seqnum :: "32 word \<Rightarrow> 32 word" where
  "next_seqnum n = (if n + 1 \<ge> 0x7fff then 1 else n + 1)"

text \<open>The buffer is cleared; a sequence number of GTP-C is the three octets behind the length, in network order.\<close>

definition gtpc_probe :: "mem \<Rightarrow> 32 word \<Rightarrow> mem" where
  "gtpc_probe junk seqno =
     wr_bytes (\<lambda>i. if i < 13 then 0 else junk i) 0
       ([0x40, 1] @ be16 9 @ [byte_of 2 seqno, byte_of 1 seqno, byte_of 0 seqno, 0] @ [3] @ be16 1 @ [0, 8])"

definition gtpu_probe :: "mem \<Rightarrow> 32 word \<Rightarrow> mem" where
  "gtpu_probe junk seqno = wr_bytes (\<lambda>i. if i < 13 then 0 else junk i) 0 ([0x32, 1] @ be16 4 @ zeros 4 @ be16 (ucast seqno) @ zeros 2)"

text \<open>The callback for a row. Its return code is ignored by the caller: rows of slave servers are skipped.\<close>

definition on_rec :: "'d timer_env \<Rightarrow> nat \<Rightarrow> keepalive \<Rightarrow> 'd timer_state \<Rightarrow> 'd timer_state option" where
  "on_rec E n r s =
     (if k_server_type r \<noteq> 0 then Some s
      else if \<not> ti_malloc E (2 * n) then None
      else let pkt = (\<lambda>m len. \<lparr>p_data = m, p_datalen = len, p_saddr = sockaddr_of (ti_pton E) (k_src_ip r) (k_src_port r),
             p_caddr = sockaddr_of (ti_pton E) (k_dst_ip r) (k_dst_port r)\<rparr>) in
        if \<not> ti_malloc E (2 * n + 1) then None
        else let ukey = \<lparr>uk_src_ip = k_src_ip r, uk_src_port = ucast (k_src_port r), uk_dst_ip = k_dst_ip r, uk_dst_port = ucast (k_dst_port r)\<rparr>;
            s = s\<lparr>tm_upkeys := tm_upkeys s @ [ukey]\<rparr> in
          if k_proto r = 1 then
            Some (s\<lparr>tm_gtpc_seqnum := next_seqnum (tm_gtpc_seqnum s),
                    tm_node := pgw_enq EGRESS (pkt (gtpc_probe (ti_junk E) (tm_gtpc_seqnum s)) 13) (tm_node s)\<rparr>)
          else if k_proto r = 0 then
            Some (s\<lparr>tm_gtpu_seqnum := next_seqnum (tm_gtpu_seqnum s),
                    tm_node := pgw_enq EGRESS (pkt (gtpu_probe (ti_junk E) (tm_gtpu_seqnum s)) 12) (tm_node s)\<rparr>)
          else None)"

fun on_recs :: "'d timer_env \<Rightarrow> nat \<Rightarrow> keepalive list \<Rightarrow> 'd timer_state \<Rightarrow> 'd timer_state option" where
  "on_recs E n [] s = Some s"
| "on_recs E n (r # rows) s = (case on_rec E n r s of None \<Rightarrow> None | Some s' \<Rightarrow> on_recs E (Suc n) rows s')"

definition upkey_sql :: "'d timer_env \<Rightarrow> upkey \<Rightarrow> string" where
  "upkey_sql E u = status_sql ''1'' (uk_src_ip u) (num (uk_src_port u)) (uk_dst_ip u) (num (uk_dst_port u)) (ti_server_id E)"

fun upkeys_loop :: "'d timer_env \<Rightarrow> upkey list \<Rightarrow> 'd timer_state \<Rightarrow> 'd timer_state option" where
  "upkeys_loop E [] s = Some s"
| "upkeys_loop E (u # us) s =
     (case ti_query E (tm_db s) (upkey_sql E u) of (d, ok) \<Rightarrow>
        if ok then upkeys_loop E us (s\<lparr>tm_db := d, tm_upkeys := us\<rparr>) else None)"

definition event_timer :: "'d timer_env \<Rightarrow> 'd timer_state \<Rightarrow> 'd timer_state option" where
  "event_timer E s =
     (case ti_rows E (tm_db s) of None \<Rightarrow> None
      | Some rows \<Rightarrow> (case on_recs E 0 rows s of None \<Rightarrow> None | Some s \<Rightarrow> upkeys_loop E (tm_upkeys s) s))"


section \<open>What a probe holds\<close>

text \<open>A probe is a datagram that this program would accept itself, and hand to its echo node.\<close>

definition probes :: "'d timer_env \<Rightarrow> keepalive \<Rightarrow> packet \<Rightarrow> bool" where
  "probes E r p \<longleftrightarrow> p_saddr p = sockaddr_of (ti_pton E) (k_src_ip r) (k_src_port r) \<and> p_caddr p = sockaddr_of (ti_pton E) (k_dst_ip r) (k_dst_port r) \<and>
     (if k_proto r = 1 then wellformed 2123 (payload p) \<and> (\<forall>n. rx_node n 2123 (p_data p) = Some GTPC_ECHO) \<and> p_data p 1 = 1 \<and> has_recovery (p_data p)
      else wellformed 2152 (payload p) \<and> (\<forall>n. rx_node n 2152 (p_data p) = Some GTPU_ECHO) \<and> p_data p 1 = 1)"

lemma ldn16_octets: "ldn16 m a = mk16 (m (a + 1)) (m a)"
  by (simp add: ldn16_def ld16_def)

lemma flag_octets:
  "drop_bit 5 (0x40 :: byte) = 2" "\<not> bit (0x40 :: byte) 4" "\<not> bit (0x40 :: byte) 3" "drop_bit 5 (0x32 :: byte) = 1" "bit (0x32 :: byte) 4" "\<not> bit (0x32 :: byte) 0"
  by (simp_all add: drop_bit_eq_div bit_numeral_rec)

lemma wellformed_payload:
  assumes "8 \<le> nat (sint (p_datalen p))"
  shows "wellformed port (payload p) \<longleftrightarrow> 4 \<le> claimed_length (p_data p) \<and> claimed_length (p_data p) \<le> 1514 \<and> header_valid port (p_data p) \<and>
    read_length port (p_data p) \<le> nat (sint (p_datalen p))"
proof -
  define z where "z = (\<lambda>i. if i < length (payload p) then payload p ! i else 0)"
  have "z i = p_data p i" if "i < 4" for i using that assms by (simp add: z_def payload_def)
  note h = header_cong [of z "p_data p", OF this]
  have l: "length (payload p) = nat (sint (p_datalen p))" by (simp add: payload_def)
  show ?thesis unfolding wellformed_def Let_def z_def [symmetric] using assms by (simp add: h l)
qed

lemma gtpc_probe_ok:
  fixes p :: packet
  assumes "p_data p = gtpc_probe junk seqno" "p_datalen p = 13"
  shows "wellformed 2123 (payload p)" "rx_node n 2123 (p_data p) = Some GTPC_ECHO" "p_data p 1 = 1" "has_recovery (p_data p)"
proof -
  have o: "p_data p 0 = 0x40" "p_data p 1 = 1" "p_data p 2 = 0" "p_data p 3 = 9" "p_data p 8 = 3"
    unfolding assms(1) by (simp_all add: gtpc_probe_def wr_at be16_def byte_of_def)
  have l: "ldn16 (p_data p) 2 = 9" using o by (simp add: ldn16_octets mk16_def)
  show "wellformed 2123 (payload p)"
    using o l by (subst wellformed_payload) (simp_all add: assms(2) claimed_length_def read_length_def header_valid_def gtpc_validate_header_def flag_octets gtpc_type_issupported_def gtpc_type_headerlen_def)
  show "rx_node n 2123 (p_data p) = Some GTPC_ECHO" using o by (simp add: rx_node_def flag_octets)
  show "has_recovery (p_data p)" using o l by (simp add: has_recovery_def recovery_at_def flag_octets)
  show "p_data p 1 = 1" by (rule o(2))
qed

lemma gtpu_probe_ok:
  fixes p :: packet
  assumes "p_data p = gtpu_probe junk seqno" "p_datalen p = 12"
  shows "wellformed 2152 (payload p)" "rx_node n 2152 (p_data p) = Some GTPU_ECHO" "p_data p 1 = 1"
proof -
  have o: "p_data p 0 = 0x32" "p_data p 1 = 1" "p_data p 2 = 0" "p_data p 3 = 4"
    unfolding assms(1) by (simp_all add: gtpu_probe_def wr_at be16_def byte_of_def)
  have l: "ldn16 (p_data p) 2 = 4" using o by (simp add: ldn16_octets mk16_def)
  show "wellformed 2152 (payload p)"
    using o l by (subst wellformed_payload) (simp_all add: assms(2) claimed_length_def read_length_def header_valid_def gtpu_validate_header_def flag_octets)
  show "rx_node n 2152 (p_data p) = Some GTPU_ECHO" using o by (simp add: rx_node_def flag_octets)
  show "p_data p 1 = 1" by (rule o(2))
qed

definition seqnums_ok :: "'d timer_state \<Rightarrow> bool" where
  "seqnums_ok s \<longleftrightarrow> tm_gtpc_seqnum s \<in> {1..<0x7fff} \<and> tm_gtpu_seqnum s \<in> {1..<0x7fff}"

lemma next_seqnum_ok: "n \<in> {1..<0x7fff} \<Longrightarrow> next_seqnum n \<in> {1..<0x7fff}"
proof -
  assume "n \<in> {1..<0x7fff}"
  then have "1 \<le> unat n" "unat n < 0x7fff" by (simp_all add: word_le_nat_alt word_less_nat_alt)
  then have "unat (n + 1) = unat n + 1" by (simp add: unat_word_ariths)
  then show ?thesis using \<open>1 \<le> unat n\<close> by (auto simp: next_seqnum_def word_le_nat_alt word_less_nat_alt)
qed

definition key_of_row :: "keepalive \<Rightarrow> upkey" where
  "key_of_row r = \<lparr>uk_src_ip = k_src_ip r, uk_src_port = ucast (k_src_port r), uk_dst_ip = k_dst_ip r, uk_dst_port = ucast (k_dst_port r)\<rparr>"

lemma on_recs_probe:
  assumes "\<forall>n. ti_malloc E n" "\<forall>r \<in> set rows. k_server_type r = 0 \<longrightarrow> k_proto r \<in> {0, 1}" "node_ok (tm_node s)"
    "length (side EGRESS (tm_node s)) + length rows \<le> 20 * 1024" "seqnums_ok s"
  shows "\<exists>s' out. on_recs E n rows s = Some s' \<and> seqnums_ok s' \<and> tm_db s' = tm_db s \<and> node_ok (tm_node s') \<and>
    tm_upkeys s' = tm_upkeys s @ map key_of_row (filter (\<lambda>r. k_server_type r = 0) rows) \<and>
    side EGRESS (tm_node s') = side EGRESS (tm_node s) @ out \<and> list_all2 (probes E) (filter (\<lambda>r. k_server_type r = 0) rows) out"
  using assms(2-5)
proof (induction rows arbitrary: n s)
  case (Cons r rows)
  show ?case
  proof (cases "k_server_type r = 0")
    case False
    then have "on_rec E n r s = Some s" by (simp add: on_rec_def)
    then show ?thesis using False Cons.IH [of s "Suc n"] Cons.prems by simp
  next
    case True
    then have pr: "k_proto r = 1 \<or> k_proto r = 0" using Cons.prems(1) by auto
    let ?pkt = "\<lambda>m len. \<lparr>p_data = m, p_datalen = len, p_saddr = sockaddr_of (ti_pton E) (k_src_ip r) (k_src_port r),
             p_caddr = sockaddr_of (ti_pton E) (k_dst_ip r) (k_dst_port r)\<rparr>"
    define p where "p = (if k_proto r = 1 then ?pkt (gtpc_probe (ti_junk E) (tm_gtpc_seqnum s)) 13 else ?pkt (gtpu_probe (ti_junk E) (tm_gtpu_seqnum s)) 12)"
    have po: "probes E r p"
      using gtpc_probe_ok [of p "ti_junk E" "tm_gtpc_seqnum s"] gtpu_probe_ok [of p "ti_junk E" "tm_gtpu_seqnum s"] by (auto simp: probes_def p_def)
    obtain s1 where s1: "on_rec E n r s = Some s1" "tm_node s1 = pgw_enq EGRESS p (tm_node s)" "tm_upkeys s1 = tm_upkeys s @ [key_of_row r]"
      "tm_db s1 = tm_db s" "seqnums_ok s1"
      using pr Cons.prems(4) assms(1) True next_seqnum_ok
      by (auto simp: on_rec_def p_def key_of_row_def seqnums_ok_def Let_def simp del: atLeastLessThan_iff)
    note e = enq_side(1,2) [OF Cons.prems(2), of EGRESS p]
    obtain s' out where s': "on_recs E (Suc n) rows s1 = Some s'" "seqnums_ok s'" "tm_db s' = tm_db s1" "node_ok (tm_node s')"
      "tm_upkeys s' = tm_upkeys s1 @ map key_of_row (filter (\<lambda>r. k_server_type r = 0) rows)"
      "side EGRESS (tm_node s') = side EGRESS (tm_node s1) @ out" "list_all2 (probes E) (filter (\<lambda>r. k_server_type r = 0) rows) out"
      using Cons.IH [of s1 "Suc n"] Cons.prems(1,3) e s1(2,5) by (auto simp: s1(2))
    have "side EGRESS (tm_node s') = side EGRESS (tm_node s) @ p # out" using s'(6) e(2) Cons.prems(3) by (simp add: s1(2))
    then show ?thesis using s' s1 po True by (intro exI [of _ s'] exI [of _ "p # out"]) simp
  qed
qed auto

lemma upkeys_loop_run:
  assumes "\<forall>d q. snd (ti_query E d q)" "tm_upkeys s = us"
  shows "\<exists>s'. upkeys_loop E us s = Some s' \<and> tm_upkeys s' = [] \<and> tm_node s' = tm_node s \<and> seqnums_ok s' = seqnums_ok s \<and>
    tm_db s' = run_queries (ti_query E) (tm_db s) (map (upkey_sql E) us)"
  using assms(2)
proof (induction us arbitrary: s)
  case (Cons u us)
  obtain d where q: "ti_query E (tm_db s) (upkey_sql E u) = (d, True)" using assms(1) by (metis prod.collapse)
  show ?case using Cons.IH [of "s\<lparr>tm_db := d, tm_upkeys := us\<rparr>"] by (simp add: q seqnums_ok_def)
qed simp


section \<open>Properties\<close>

text \<open>C20: Peers that are due are probed: when memory, room and the database are there, one run of the timer queues one Echo Request for every row of a master
  server, in the order of the rows, from and to the addresses of the row, and marks each as waiting. Every probe is a datagram that this program would
  receive and hand to its own echo node; the list of pending keys is empty again, and the sequence numbers stay between 1 and 0x7ffe.\<close>

theorem timer_probes_due_peers:
  assumes "ti_rows E (tm_db s) = Some rows" "\<forall>r \<in> set rows. k_server_type r = 0 \<longrightarrow> k_proto r \<in> {0, 1}" "\<forall>n. ti_malloc E n"
    "\<forall>d q. snd (ti_query E d q)" "node_ok (tm_node s)" "length (side EGRESS (tm_node s)) + length rows \<le> 20 * 1024" "seqnums_ok s" "tm_upkeys s = []"
  shows "\<exists>s' out. event_timer E s = Some s' \<and> seqnums_ok s' \<and> tm_upkeys s' = [] \<and> node_ok (tm_node s') \<and>
    side EGRESS (tm_node s') = side EGRESS (tm_node s) @ out \<and> list_all2 (probes E) (filter (\<lambda>r. k_server_type r = 0) rows) out \<and>
    tm_db s' = run_queries (ti_query E) (tm_db s) (map (upkey_sql E \<circ> key_of_row) (filter (\<lambda>r. k_server_type r = 0) rows))"
proof -
  obtain s1 out where s1: "on_recs E 0 rows s = Some s1" "seqnums_ok s1" "tm_db s1 = tm_db s" "node_ok (tm_node s1)"
    "tm_upkeys s1 = map key_of_row (filter (\<lambda>r. k_server_type r = 0) rows)"
    "side EGRESS (tm_node s1) = side EGRESS (tm_node s) @ out" "list_all2 (probes E) (filter (\<lambda>r. k_server_type r = 0) rows) out"
    using on_recs_probe [OF assms(3,2,5,6,7), of 0] assms(8) by auto
  obtain s' where "upkeys_loop E (tm_upkeys s1) s1 = Some s'" "tm_upkeys s' = []" "tm_node s' = tm_node s1" "seqnums_ok s' = seqnums_ok s1"
    "tm_db s' = run_queries (ti_query E) (tm_db s1) (map (upkey_sql E) (tm_upkeys s1))"
    using upkeys_loop_run [OF assms(4) refl, of s1] by blast
  then show ?thesis using s1 assms(1) by (intro exI [of _ s'] exI [of _ out]) (simp add: event_timer_def comp_def)
qed

definition demo_keepalive :: "64 word \<Rightarrow> keepalive" where
  "demo_keepalive proto = \<lparr>k_dst_ip = ''10.0.0.2'', k_dst_port = 2123, k_src_ip = ''10.0.0.1'', k_src_port = 2123, k_proto = proto, k_server_type = 0\<rparr>"

definition demo_timer_env :: "string list timer_env" where
  "demo_timer_env = \<lparr>ti_rows = (\<lambda>_. Some [demo_keepalive 1, demo_keepalive 0]), ti_query = (\<lambda>d q. (d @ [q], True)), ti_pton = (\<lambda>_. Some [10, 0, 0, 1]),
     ti_malloc = (\<lambda>_. True), ti_junk = (\<lambda>_. 0), ti_server_id = ''s1''\<rparr>"

theorem timer_probes_due_peers_witness:
  "\<exists>s' p1 p2. event_timer demo_timer_env \<lparr>tm_db = [], tm_node = empty_node, tm_upkeys = [], tm_gtpc_seqnum = 1, tm_gtpu_seqnum = 0x7ffe\<rparr> = Some s' \<and>
     seqnums_ok s' \<and> side EGRESS (tm_node s') = [p1, p2] \<and> probes demo_timer_env (demo_keepalive 1) p1 \<and> probes demo_timer_env (demo_keepalive 0) p2 \<and>
     length (tm_db s') = 2"
proof -
  let ?s = "\<lparr>tm_db = [], tm_node = empty_node, tm_upkeys = [], tm_gtpc_seqnum = 1, tm_gtpu_seqnum = 0x7ffe\<rparr> :: string list timer_state"
    and ?rows = "[demo_keepalive 1, demo_keepalive 0]"
  have a: "ti_rows demo_timer_env (tm_db ?s) = Some ?rows" "\<forall>r \<in> set ?rows. k_server_type r = 0 \<longrightarrow> k_proto r \<in> {0, 1}" "\<forall>n. ti_malloc demo_timer_env n"
    "\<forall>d q. snd (ti_query demo_timer_env d q)" "node_ok (tm_node ?s)" "length (side EGRESS (tm_node ?s)) + length ?rows \<le> 20 * 1024" "seqnums_ok ?s" "tm_upkeys ?s = []"
    by (simp_all add: demo_timer_env_def demo_keepalive_def node_ok_def empty_node_def side_def seqnums_ok_def)
  have f: "filter (\<lambda>r. k_server_type r = 0) ?rows = ?rows" by (simp add: demo_keepalive_def)
  from timer_probes_due_peers [OF a, unfolded f] obtain s' out where s': "event_timer demo_timer_env ?s = Some s'" "seqnums_ok s'"
    "side EGRESS (tm_node s') = out" "list_all2 (probes demo_timer_env) ?rows out"
    "tm_db s' = run_queries (ti_query demo_timer_env) [] (map (upkey_sql demo_timer_env \<circ> key_of_row) ?rows)"
    by (auto simp: side_def empty_node_def)
  moreover obtain p1 p2 where "out = [p1, p2]" "probes demo_timer_env (demo_keepalive 1) p1" "probes demo_timer_env (demo_keepalive 0) p2"
    using s'(4) by (auto simp: list_all2_Cons1)
  moreover have "length (tm_db s') = 2" using s'(5) by (simp add: demo_timer_env_def)
  ultimately show ?thesis by blast
qed

end
