(* ===== verification/Ctrl_Properties.thy ===== *)
theory Ctrl_Properties
  imports Ctrl_Timer
begin

text \<open>
  An echo through the whole control plane: the server thread of the GTP-C port, the dispatch, the echo node and the transmitting node,
  one after the other.
\<close>

text \<open>What an Echo Request is turned into: the octets of the datagram up to the claimed length, with another type and the restart counter cleared.\<close>

definition echo_octets :: "byte \<Rightarrow> byte list \<Rightarrow> byte list" where
  "echo_octets ty d =
     (let m = (\<lambda>i. if i < length d then d ! i else 0); len = 4 + claimed_length m in
      map (\<lambda>i. if i = 1 then ty else if has_recovery m \<and> i = recovery_at m + 4 then 0 else d ! i) [0..<len])"

lemma has_recovery_cong:
  assumes "\<And>i. i < k \<Longrightarrow> m i = m' i" "k = 4 + claimed_length m'" "4 \<le> claimed_length m'"
  shows "has_recovery m = has_recovery m'" "has_recovery m' \<Longrightarrow> recovery_at m = recovery_at m' \<and> recovery_at m' + 4 < k"
proof -
  have o: "m 0 = m' 0" "m 2 = m' 2" "m 3 = m' 3" using assms by simp_all
  have r: "recovery_at m = recovery_at m'" using o by (simp add: recovery_at_def)
  have l: "ldn16 m 2 = ldn16 m' 2" using o by (simp add: ldn16_octets)
  have "recovery_at m' + 4 < k" if "unat (ldn16 m' 2) = recovery_at m' - 4 + 5"
    using that assms(2) by (auto simp: claimed_length_def recovery_at_def)
  then show "has_recovery m = has_recovery m'" "has_recovery m' \<Longrightarrow> recovery_at m = recovery_at m' \<and> recovery_at m' + 4 < k"
    using assms(1) [of "recovery_at m'"] by (auto simp: has_recovery_def r l)
qed

lemma echo_payloads:
  fixes d src own junk junk'
  defines "p \<equiv> packet_of 2123 own junk (d, src)" and "m \<equiv> (\<lambda>i. if i < length d then d ! i else 0)"
  assumes "wellformed 2123 d" "d ! 1 = 1"
  shows "0 \<le> sint (p_datalen p)" "nat (sint (p_datalen p)) = 4 + claimed_length m"
    "map payload (echo_pair junk' (snd (take_recovery c p))) = [echo_octets 1 d, echo_octets 2 d]"
proof -
  let ?q = "snd (take_recovery c p)"
  define len where "len = 4 + claimed_length m"
  have w: "8 \<le> len" "4 \<le> claimed_length m" "len \<le> 1518" "len \<le> length d"
    using assms(3) by (simp_all add: wellformed_def Let_def m_def len_def read_length_def)
  have dl: "p_datalen p = word_of_nat len" "p_data p = (\<lambda>i. if i < len then d ! i else junk i)"
    by (simp_all add: p_def Let_def m_def len_def read_length_def)
  have u: "unat (word_of_nat len :: 32 word) = len" using w(3) by (simp add: unsigned_of_nat take_bit_eq_mod)
  have s: "sint (word_of_nat len :: 32 word) = int len"
    using w(3) by (simp add: signed_of_nat signed_take_bit_int_eq_self)
  show "0 \<le> sint (p_datalen p)" "nat (sint (p_datalen p)) = 4 + claimed_length m" by (simp_all add: dl(1) s len_def [symmetric])
  have e: "p_data p i = m i" if "i < len" for i using that w(4) by (simp add: dl m_def)
  note h = has_recovery_cong [OF e len_def w(2)]
  have q: "p_datalen ?q = word_of_nat len" "p_data ?q i = (if has_recovery m \<and> i = recovery_at m + 4 then 0 else d ! i)" if "i < len" for i
    using that h w(4) by (auto simp: take_recovery_def Let_def dl)
  have z: "recovery_at m + 4 \<noteq> 1" by (simp add: recovery_at_def)
  have l: "p_datalen ?q = word_of_nat len" by (rule q(1) [of 0]) (use w in simp)
  have o: "echo_octets ty d = map (\<lambda>i. if i = 1 then ty else if has_recovery m \<and> i = recovery_at m + 4 then 0 else d ! i) [0..<len]" for ty
    by (simp add: echo_octets_def Let_def len_def m_def)
  have "rd_bytes x 0 len = map (\<lambda>i. if i = 1 then ty else if has_recovery m \<and> i = recovery_at m + 4 then 0 else d ! i) [0..<len]"
    if "\<And>i. i < len \<Longrightarrow> x i = (if i = 1 then ty else p_data ?q i)" for x ty
    using that q(2) by (intro nth_equalityI) auto
  then show "map payload (echo_pair junk' ?q) = [echo_octets 1 d, echo_octets 2 d]"
    using q(2) [of 1] w(1) z assms(4) by (simp add: echo_pair_def echo_reply_def pgw_swap_address_def payload_def l s u o)
qed


lemma counter_not_unset: "(ucast (x :: byte) :: 32 word) \<noteq> - 1"
proof -
  have "\<not> bit (ucast x :: 32 word) 31" by (auto simp: bit_unsigned_iff dest: bit_imp_le_length)
  moreover have "bit (- 1 :: 32 word) 31" by (simp add: bit_minus_1_iff)
  ultimately show ?thesis by metis
qed

lemma echo_sent:
  fixes d src own junk
  assumes "wellformed 2123 d" "d ! 1 = 1" "te_gtpc_addr TE = own"
    "\<forall>k < 2. te_turn TE k 0 = Sendto (int (4 + claimed_length (\<lambda>i. if i < length d then d ! i else 0)))"
    "nodes = (\<lambda>_. empty_node)(GTPC_ECHO := nd)" "side EGRESS nd = echo_pair junk' (snd (take_recovery c (packet_of 2123 own junk (d, src))))" "node_ok nd"
  shows "\<exists>s'. event_tx TE n \<lparr>tx_nodes = nodes, tx_db = db, tx_out = [], tx_freed = []\<rparr> = (s', True) \<and>
    tx_out s' = [(SERVER_GTPC, src, echo_octets 1 d), (SERVER_GTPC, src, echo_octets 2 d)]"
proof -
  let ?s = "\<lparr>tx_nodes = nodes, tx_db = db, tx_out = [], tx_freed = []\<rparr>" and ?p = "packet_of 2123 own junk (d, src)"
  let ?q = "snd (take_recovery c ?p)"
  obtain a b where ab: "echo_pair junk' ?q = [a, b]" by (simp add: echo_pair_def)
  note pl = echo_payloads [OF assms(1,2), where own = own and junk = junk and src = src]
  have adr: "p_saddr x = own \<and> p_caddr x = src \<and> p_datalen x = p_datalen ?p" if "x \<in> {a, b}" for x
    using that ab by (auto simp: echo_pair_def echo_reply_def pgw_swap_address_def take_recovery_def Let_def)
  have du: "waiting_out (tx_nodes ?s) (tx_order n) = [(GTPC_ECHO, a), (GTPC_ECHO, b)]"
    using assms(5,6) ab by (simp add: waiting_out_def tx_order_def comp_def side_def empty_node_def)
  have ok: "\<forall>i. node_ok (tx_nodes ?s i)" using assms(5,7) by (simp add: node_ok_def empty_node_def)
  have t: "takes_all TE 0 (map snd (waiting_out (tx_nodes ?s) (tx_order n)))"
    unfolding du using pl(1,2) assms(4) adr by (simp add: nat_eq_iff2)
  obtain s' w where e: "event_tx TE n ?s = (s', w)" by fastforce
  have sn: "sent TE (GTPC_ECHO, x) = [(SERVER_GTPC, src, payload x)]" if "x \<in> {a, b}" for x
    using adr [OF that] assms(3) by (simp add: sent_def socket_of_def same_addr_def)
  have "payload a = echo_octets 1 d" "payload b = echo_octets 2 d" using pl(3) [where junk' = junk' and c = c] unfolding ab by (simp_all del: packet_of.simps)
  then show ?thesis using event_tx_sends [OF ok t e] e unfolding du by (simp add: sn)
qed

text \<open>C14: An Echo Request makes its way through the control plane: a datagram on the GTP-C port that the receiver finds well formed and that is an Echo Request
  of GTP version 2, from a peer whose address is not the broadcast address, is received, dispatched, answered and sent, when memory is left, the threads are idle
  and the socket takes the packets. Exactly two datagrams leave, from the GTP-C socket to the sender of the request: a copy of the request, and the response,
  which is the request with the type of a response; in both the restart counter is 0 when the request carried one. If moreover the request has a Recovery
  item, the peer was not known before and its address is not 0, then the peer is known afterwards, with the restart counter it sent.\<close>

theorem echo_round_trip:
  fixes d src own junk
  assumes "wellformed 2123 d" "d ! 1 = 1" "drop_bit 5 (d ! 0) = 2" "word_le (sin_addr src) \<noteq> - 1" "te_gtpc_addr TE = own"
    "\<forall>k < 2. te_turn TE k 0 = Sendto (int (4 + claimed_length (\<lambda>i. if i < length d then d ! i else 0)))"
    "\<forall>m. ee_dup E m \<and> ee_peer_malloc E m" "peers_inv P"
  shows "\<exists>rx es ts P'. receive_all n True 2123 own junk [(d, src)] \<lparr>rx_nodes = \<lambda>_. empty_node, rx_freed = []\<rparr> = Some rx \<and>
    event_gtpc_echo_req E \<lparr>ec_db = db, ec_peers = Some P, ec_node = rx_nodes rx GTPC_ECHO, ec_freed = []\<rparr> = Some (es, True) \<and>
    event_tx TE n \<lparr>tx_nodes = (rx_nodes rx)(GTPC_ECHO := ec_node es), tx_db = ec_db es, tx_out = [], tx_freed = []\<rparr> = (ts, True) \<and>
    tx_out ts = [(SERVER_GTPC, src, echo_octets 1 d), (SERVER_GTPC, src, echo_octets 2 d)] \<and>
    ec_peers es = Some P' \<and> (known P (word_le (sin_addr src)) = None \<and> has_recovery (p_data (packet_of 2123 own junk (d, src))) \<and> word_le (sin_addr src) \<noteq> 0 \<longrightarrow>
      known P' (word_le (sin_addr src)) = Some (fst (take_recovery (- 1) (packet_of 2123 own junk (d, src)))))"
proof -
  let ?p = "packet_of 2123 own junk (d, src)"
  have w: "8 \<le> length d" using assms(1) by (simp add: wellformed_def)
  have o: "p_data ?p i = d ! i" if "i < 8" for i
    using that assms(1) by (simp add: wellformed_def Let_def read_length_def)
  have n: "rx_node n 2123 (p_data ?p) = Some GTPC_ECHO" using assms(2,3) o [of 0] o [of 1] by (simp add: rx_node_def del: packet_of.simps)
  define rx where "rx = \<lparr>rx_nodes = (\<lambda>_. empty_node)(GTPC_ECHO := pgw_enq INGRESS ?p empty_node), rx_freed = []\<rparr>"
  have rx: "receive_all n True 2123 own junk [(d, src)] \<lparr>rx_nodes = \<lambda>_. empty_node, rx_freed = []\<rparr> = Some rx"
    using assms(1) n by (simp add: receive_all_step(1) event_rx_def rx_def del: packet_of.simps)
  have nd: "node_ok (rx_nodes rx GTPC_ECHO)" "side INGRESS (rx_nodes rx GTPC_ECHO) = [?p]" "side EGRESS (rx_nodes rx GTPC_ECHO) = []"
    by (simp_all add: rx_def empty_node_def pgw_enq_def node_ok_def side_def word_le_nat_alt del: packet_of.simps)
  let ?es = "\<lparr>ec_db = db, ec_peers = Some P, ec_node = rx_nodes rx GTPC_ECHO, ec_freed = []\<rparr>"
  obtain k qs where eff: "echo_effect (ee_server_id E) (- 1) [?p] (known P) = (k, qs)" by fastforce
  have ty: "p_data ?p 1 = 1" "source_ip ?p = word_le (sin_addr src)"
    using o [of 1] assms(2) by (simp del: packet_of.simps) (simp add: source_ip_def Let_def)
  obtain es P' where es: "event_gtpc_echo_req E ?es = Some (es, True)" "ec_peers es = Some P'" "known P' = k"
    "side EGRESS (ec_node es) = echo_pair (ee_junk E) (snd (take_recovery (- 1) ?p))" "node_ok (ec_node es)"
  proof -
    have "\<exists>s' P'. event_gtpc_echo_req E ?es = Some (s', True) \<and> ec_peers s' = Some P' \<and> peers_inv P' \<and> known P' = k \<and>
      ec_db s' = run_queries (ee_query E) (ec_db ?es) qs \<and> ec_freed s' = ec_freed ?es @ filter (\<lambda>p. p_data p 1 = 2) [?p] \<and>
      side EGRESS (ec_node s') = side EGRESS (ec_node ?es) @ concat (map (\<lambda>r. echo_pair (ee_junk E) (snd r)) (echo_requests (- 1) [?p])) \<and>
      side INGRESS (ec_node s') = drop 32 (side INGRESS (ec_node ?es)) \<and> refused (ec_node s') = refused (ec_node ?es) \<and> node_ok (ec_node s')"
      by (rule gtpc_echo_event [OF assms(7) _ assms(8)]) (use nd eff ty assms(4) in \<open>simp_all del: packet_of.simps One_nat_def\<close>)
    then show ?thesis using nd(3) ty(1) by (elim exE conjE, intro that) (simp_all del: packet_of.simps One_nat_def)
  qed
  obtain ts where ts: "event_tx TE n \<lparr>tx_nodes = (rx_nodes rx)(GTPC_ECHO := ec_node es), tx_db = ec_db es, tx_out = [], tx_freed = []\<rparr> = (ts, True)"
    "tx_out ts = [(SERVER_GTPC, src, echo_octets 1 d), (SERVER_GTPC, src, echo_octets 2 d)]"
    using echo_sent [OF assms(1,2,5,6) _ es(4,5), of "(rx_nodes rx)(GTPC_ECHO := ec_node es)" n "ec_db es"] by (auto simp: rx_def)
  have kn: "known P' (word_le (sin_addr src)) = Some (fst (take_recovery (- 1) ?p))"
    if "known P (word_le (sin_addr src)) = None" "has_recovery (p_data ?p)" "word_le (sin_addr src) \<noteq> 0"
  proof -
    let ?c = "fst (take_recovery (- 1) ?p)"
    have "?c \<noteq> - 1" using that(2) counter_not_unset by (simp add: take_recovery_def Let_def del: packet_of.simps)
    then have "k = (known P)(word_le (sin_addr src) \<mapsto> ?c)"
      using eff ty that(1,3) by (simp add: Let_def observed_def del: packet_of.simps One_nat_def)
    then show ?thesis by (simp add: es(3))
  qed
  show ?thesis
  proof (intro exI conjI impI)
    show "receive_all n True 2123 own junk [(d, src)] \<lparr>rx_nodes = \<lambda>_. empty_node, rx_freed = []\<rparr> = Some rx" by (rule rx)
    show "event_gtpc_echo_req E ?es = Some (es, True)" "ec_peers es = Some P'" by (rule es)+
    show "event_tx TE n \<lparr>tx_nodes = (rx_nodes rx)(GTPC_ECHO := ec_node es), tx_db = ec_db es, tx_out = [], tx_freed = []\<rparr> = (ts, True)"
      "tx_out ts = [(SERVER_GTPC, src, echo_octets 1 d), (SERVER_GTPC, src, echo_octets 2 d)]" by (rule ts)+
  qed (elim conjE, rule kn)
qed


theorem echo_round_trip_witness:
  "\<exists>rx es ts. receive_all 2 True 2123 (demo_sockaddr 1) (\<lambda>_. 0) [([0x40, 1, 0, 9, 0, 0, 1, 0, 3, 0, 1, 0, 7], demo_sockaddr 2)]
       \<lparr>rx_nodes = \<lambda>_. empty_node, rx_freed = []\<rparr> = Some rx \<and>
     event_gtpc_echo_req demo_echo_env \<lparr>ec_db = [], ec_peers = Some \<lparr>peers = [], peers_count = 0, peers_updated = 0\<rparr>, ec_node = rx_nodes rx GTPC_ECHO, ec_freed = []\<rparr> = Some (es, True) \<and>
     event_tx \<lparr>te_turn = (\<lambda>_ _. Sendto 13), te_query = (\<lambda>d q. (d, True)), te_server_id = [], te_gtpc_addr = demo_sockaddr 1, te_gtpu_addr = []\<rparr> 2
       \<lparr>tx_nodes = (rx_nodes rx)(GTPC_ECHO := ec_node es), tx_db = ec_db es, tx_out = [], tx_freed = []\<rparr> = (ts, True) \<and>
     tx_out ts = [(SERVER_GTPC, demo_sockaddr 2, [0x40, 1, 0, 9, 0, 0, 1, 0, 3, 0, 1, 0, 0]), (SERVER_GTPC, demo_sockaddr 2, [0x40, 2, 0, 9, 0, 0, 1, 0, 3, 0, 1, 0, 0])]"
proof -
  let ?d = "[0x40, 1, 0, 9, 0, 0, 1, 0, 3, 0, 1, 0, 7] :: byte list"
  let ?TE = "\<lparr>te_turn = (\<lambda>_ _. Sendto 13), te_query = (\<lambda>d q. (d, True)), te_server_id = [], te_gtpc_addr = demo_sockaddr 1, te_gtpu_addr = []\<rparr> :: string list tx_env"
  define m where "m = (\<lambda>i. if i < length ?d then ?d ! i else 0)"
  have l: "ldn16 m 2 = 9" by (simp add: ldn16_octets m_def mk16_def)
  have r: "has_recovery m" "recovery_at m = 8" using l by (simp_all add: has_recovery_def recovery_at_def m_def flag_octets)
  have w: "wellformed 2123 ?d"
    unfolding wellformed_def Let_def m_def [symmetric] using l
    by (simp add: claimed_length_def read_length_def header_valid_def gtpc_validate_header_def)
      (simp add: m_def flag_octets gtpc_type_issupported_def gtpc_type_headerlen_def)
  have c: "claimed_length (\<lambda>i. if i < length ?d then ?d ! i else 0) = 9" unfolding m_def [symmetric] using l by (simp add: claimed_length_def)
  have k: "[0..<13] = [0, 1, 2, 3, 4, 5, 6, 7, 8, 9, 10, 11, 12]" by (simp add: upt_rec)
  have o: "echo_octets ty ?d = [0x40, ty, 0, 9, 0, 0, 1, 0, 3, 0, 1, 0, 0]" for ty
    unfolding echo_octets_def Let_def m_def [symmetric] using r l by (simp add: claimed_length_def k)
  have s: "word_le (sin_addr (demo_sockaddr 2)) \<noteq> - 1" using demo_ip(1) [of 2] by (simp add: demo_sockaddr_def sin_addr_def word_le_def)
  have p: "peers_inv \<lparr>peers = [], peers_count = 0, peers_updated = 0\<rparr>" by (simp add: peers_inv_def)
  have t: "\<forall>k < 2. te_turn ?TE k 0 = Sendto (int (4 + claimed_length (\<lambda>i. if i < length ?d then ?d ! i else 0)))" unfolding c by simp
  have f: "?d ! 1 = 1" "drop_bit 5 (?d ! 0) = 2" by (simp_all add: flag_octets)
  have e: "\<forall>m. ee_dup demo_echo_env m \<and> ee_peer_malloc demo_echo_env m" by (simp add: demo_echo_env_def)
  have a: "te_gtpc_addr ?TE = demo_sockaddr 1" by simp
  from echo_round_trip [OF w f s a t e p, of 2 "\<lambda>_. 0" "[]"] show ?thesis unfolding o by blast
qed

end
