(* ===== verification/Proxy_Routes.thy ===== *)
theory Proxy_Routes
  imports "HOL-Library.AList" Ctrl_Tx Gtpc_V1
begin

text \<open>
  The tables of the GTP-C proxy (\<open>ctrlplane/src/proxy/routes.cc\<close>, \<open>route.cc\<close>, \<open>proxy_stats.cc\<close>, \<open>database_connection.cc\<close>): which group
  of gateways serves a subscriber, which serving gateway waits for which answer, and statistics by address. A \<open>std::map\<close> is an association
  list with distinct keys; nothing depends on its order. What the two databases and the clock answer are parameters.
\<close>

section \<open>Data\<close>

text \<open>\<open>atoi\<close>, as the 32 bits of its result. \<open>GROUP\<close> is an enumeration without negative values, an \<open>unsigned int\<close>.\<close>

definition atoi :: "string \<Rightarrow> 32 word" where
  "atoi s = ucast (strtoul s)"

record route_int =
  ri_host :: string
  ri_cnt :: "64 word"
  ri_port :: "32 word"

datatype psock = EXTSOCK | INTSOCK | STSSOCK

record route_ext =
  re_host :: "byte list"
  re_cnt :: "64 word"
  re_sock :: psock

record route_session =
  rs_host :: "byte list"
  rs_imsi :: "64 word"
  rs_seqno :: "32 word"
  rs_teid :: "32 word"
  rs_created :: "32 word"

record proxy_stat =
  st_ip :: "32 word"
  st_group :: "16 word"
  req_bytes :: "64 word"
  req_cnt :: "64 word"
  res_bytes :: "64 word"
  res_cnt :: "64 word"
  st_delay :: "64 word"
  req_reject_bytes :: "64 word"
  res_reject_bytes :: "64 word"
  req_reject_cnt :: "64 word"
  res_reject_cnt :: "64 word"
  st_created :: "32 word"

record routes =
  grouproutes :: "(32 word \<times> route_int list) list"
  sgw_routes :: "(32 word \<times> route_ext) list"
  sessions :: "(64 word \<times> route_session) list"
  stats :: "(64 word \<times> proxy_stat) list"
  uptime :: "32 word"

section \<open>Statistics\<close>

definition new_stat :: "32 word \<Rightarrow> 32 word \<Rightarrow> 16 word \<Rightarrow> 64 word \<Rightarrow> 64 word \<Rightarrow> 64 word \<Rightarrow> 64 word \<Rightarrow> 64 word \<Rightarrow> proxy_stat" where
  "new_stat now ip grp rq rs delay rqb rsb =
     \<lparr>st_ip = ip, st_group = grp, req_bytes = rqb, req_cnt = rq, res_bytes = rsb, res_cnt = rs, st_delay = delay,
      req_reject_bytes = 0, res_reject_bytes = 0, req_reject_cnt = 0, res_reject_cnt = 0, st_created = now\<rparr>"

definition stat_Add :: "32 word \<Rightarrow> 64 word \<Rightarrow> 64 word \<Rightarrow> 64 word \<Rightarrow> proxy_stat \<Rightarrow> proxy_stat" where
  "stat_Add now rqb rsb delay st =
     st\<lparr>req_bytes := req_bytes st + rqb, res_bytes := res_bytes st + rsb,
        req_cnt := (if rqb \<noteq> 0 then req_cnt st + 1 else req_cnt st), res_cnt := (if rsb \<noteq> 0 then res_cnt st + 1 else res_cnt st),
        st_delay := st_delay st + delay, st_created := now\<rparr>"

text \<open>The second test is on the sum, not on what was added.\<close>

definition stat_Reject :: "32 word \<Rightarrow> 64 word \<Rightarrow> 64 word \<Rightarrow> proxy_stat \<Rightarrow> proxy_stat" where
  "stat_Reject now rqb rsb st =
     (let sum = res_reject_bytes st + rsb in
      st\<lparr>req_reject_bytes := req_reject_bytes st + rqb, req_reject_cnt := (if rqb \<noteq> 0 then req_reject_cnt st + 1 else req_reject_cnt st),
         res_reject_bytes := sum, res_reject_cnt := (if sum \<noteq> 0 then res_reject_cnt st + 1 else res_reject_cnt st), st_created := now\<rparr>)"

definition StatAdd :: "32 word \<Rightarrow> 32 word \<Rightarrow> 16 word \<Rightarrow> 64 word \<Rightarrow> 64 word \<Rightarrow> 64 word \<Rightarrow> routes \<Rightarrow> routes" where
  "StatAdd now ip grp rqb rsb delay r =
     (let k = ucast ip in
      r\<lparr>stats := AList.update k
         (case map_of (stats r) k of
            None \<Rightarrow> new_stat now ip grp (if rqb \<noteq> 0 then 1 else 0) (if rsb \<noteq> 0 then 1 else 0) delay rqb rsb
          | Some st \<Rightarrow> stat_Add now rqb rsb delay st) (stats r)\<rparr>)"

definition StatReject :: "32 word \<Rightarrow> 32 word \<Rightarrow> 16 word \<Rightarrow> 64 word \<Rightarrow> 64 word \<Rightarrow> routes \<Rightarrow> routes" where
  "StatReject now ip grp rqb rsb r =
     (let k = ucast ip in
      r\<lparr>stats := AList.update k
         (stat_Reject now rqb rsb (case map_of (stats r) k of None \<Rightarrow> new_stat now ip grp 0 0 0 0 0 | Some st \<Rightarrow> st)) (stats r)\<rparr>)"

definition StatExpire :: "32 word \<Rightarrow> 32 word \<Rightarrow> routes \<Rightarrow> routes" where
  "StatExpire time elapsed r = r\<lparr>stats := filter (\<lambda>(k, st). \<not> st_created st < time - elapsed) (stats r)\<rparr>"

text \<open>What the macro \<open>ADDCOUNT\<close> adds for an entry, and the counters of a reply; the first four are not sums.\<close>

definition stat_value :: "nat \<Rightarrow> nat \<Rightarrow> proxy_stat \<Rightarrow> 64 word" where
  "stat_value e sz i =
     (if e = 5 then req_bytes i else if e = 6 then res_bytes i else if e = 7 then req_cnt i else if e = 8 then res_cnt i
      else if e = 9 then st_delay i else if e = 10 then req_reject_cnt i else if e = 11 then res_reject_cnt i
      else if e = 12 then word_of_nat sz else 0)"

definition stat_matches :: "32 word \<Rightarrow> 16 word \<Rightarrow> 64 word \<Rightarrow> bool" where
  "stat_matches ip grp k =
     (let k_ip = ucast (drop_bit 32 k); k_group = ucast (drop_bit 16 k) in
      if ip \<noteq> - 1 \<and> grp \<noteq> - 1 then ip = k_ip \<and> grp = k_group
      else if ip \<noteq> - 1 \<and> grp = - 1 then ip = k_ip
      else True)"

definition StatCount :: "32 word \<Rightarrow> 32 word \<Rightarrow> nat \<Rightarrow> 32 word \<Rightarrow> 16 word \<Rightarrow> routes \<Rightarrow> 64 word" where
  "StatCount pid now e ip grp r =
     (if e = 1 then ucast pid else if e = 2 then ucast (uptime r) else if e = 3 then ucast now else if e = 4 then 1000000
      else sum_list (map (\<lambda>(k, st). stat_value e (length (sessions r)) st) (filter (\<lambda>(k, st). stat_matches ip grp k) (stats r))))"

section \<open>Routes and sessions\<close>

definition SetExtRoute :: "byte list \<Rightarrow> routes \<Rightarrow> routes" where
  "SetExtRoute addr r =
     r\<lparr>sgw_routes := AList.update (word_le (sin_addr addr)) \<lparr>re_host = addr, re_cnt = 0, re_sock = EXTSOCK\<rparr> (sgw_routes r)\<rparr>"

definition session_key :: "32 word \<Rightarrow> 32 word \<Rightarrow> 64 word" where
  "session_key sq teid = push_bit 32 (ucast sq) OR ucast teid"

text \<open>A session that is there is not replaced.\<close>

definition SetSession :: "32 word \<Rightarrow> 64 word \<Rightarrow> 32 word \<Rightarrow> 32 word \<Rightarrow> byte list \<Rightarrow> routes \<Rightarrow> routes" where
  "SetSession now im sq teid addr r =
     (let k = session_key sq teid in
      if map_of (sessions r) k = None then
        r\<lparr>sessions := AList.update k \<lparr>rs_host = addr, rs_imsi = im, rs_seqno = sq, rs_teid = teid, rs_created = now\<rparr> (sessions r)\<rparr>
      else r)"

definition FindSessionBySeqnoTeid :: "32 word \<Rightarrow> 32 word \<Rightarrow> routes \<Rightarrow> route_session option" where
  "FindSessionBySeqnoTeid sq teid r = map_of (sessions r) (session_key sq teid)"

definition FindInternlRouteByGroupFromCache :: "32 word \<Rightarrow> routes \<Rightarrow> route_int list option" where
  "FindInternlRouteByGroupFromCache gid r =
     (case map_of (grouproutes r) gid of None \<Rightarrow> None | Some rts \<Rightarrow> if rts = [] then None else Some rts)"

text \<open>
  \<open>DatabaseConnection::Select\<close>: no result, or the number of columns and the rows, given to a callback until it refuses one (\<open>None\<close>).
\<close>

type_synonym select = "string \<Rightarrow> (nat \<times> string list list) option"

fun fetch :: "(string list \<Rightarrow> 's \<Rightarrow> 's option) \<Rightarrow> string list list \<Rightarrow> 's \<Rightarrow> 's" where
  "fetch f [] s = s"
| "fetch f (row # rows) s = (case f row s of None \<Rightarrow> s | Some s' \<Rightarrow> fetch f rows s')"

definition Select :: "select \<Rightarrow> string \<Rightarrow> (nat \<Rightarrow> string list \<Rightarrow> 's \<Rightarrow> 's option) \<Rightarrow> 's \<Rightarrow> 's" where
  "Select con sql f s = (case con sql of None \<Rightarrow> s | Some (coln, rows) \<Rightarrow> fetch (f coln) rows s)"

definition group_sql :: "64 word \<Rightarrow> string" where
  "group_sql im = ''SELECT `pgw_group_id` FROM subscribers WHERE imsi = '' @ num im"

definition FindGroupByImsi :: "select \<Rightarrow> 64 word \<Rightarrow> 32 word \<times> bool" where
  "FindGroupByImsi con im =
     (let fgid = Select con (group_sql im) (\<lambda>coln row fgid. if coln \<noteq> 1 then None else Some (atoi (row ! 0))) (- 1) in
      (fgid, fgid \<noteq> - 1))"

definition add_route :: "nat \<Rightarrow> string list \<Rightarrow> (32 word \<times> route_int list) list \<Rightarrow> (32 word \<times> route_int list) list option" where
  "add_route coln row g =
     (if coln \<noteq> 2 then None
      else let gid = atoi (row ! 0); rt = \<lparr>ri_host = row ! 1, ri_cnt = 0, ri_port = 2123\<rparr> in
        Some (AList.update gid (case map_of g gid of Some rts \<Rightarrow> rts @ [rt] | None \<Rightarrow> [rt]) g))"

definition Cache :: "select \<Rightarrow> routes \<Rightarrow> routes" where
  "Cache con r = r\<lparr>grouproutes := Select con ''SELECT `pgw_group_id`, `dst_ip` FROM proxy'' add_route []\<rparr>"

section \<open>Properties of the tables\<close>

text \<open>After a successful reload, a grp has the routes of its rows, in their order.\<close>

lemma fetch_routes:
  "map_of (fetch (add_route 2) rows g) gid =
     (case filter (\<lambda>row. atoi (row ! 0) = gid) rows of [] \<Rightarrow> map_of g gid
      | mine \<Rightarrow> Some (case_option [] id (map_of g gid) @ map (\<lambda>row. \<lparr>ri_host = row ! 1, ri_cnt = 0, ri_port = 2123\<rparr>) mine))"
  by (induction rows arbitrary: g) (auto simp: add_route_def Let_def AList.update_conv' split: list.splits option.splits)

text \<open>Sessions are only added.\<close>

lemma SetSession_keeps: "map_of (sessions r) k = Some x \<Longrightarrow> map_of (sessions (SetSession now im sq teid addr r)) k = Some x"
  by (auto simp: SetSession_def Let_def AList.update_conv')

lemma SetSession_new:
  "FindSessionBySeqnoTeid sq teid r = None \<Longrightarrow>
   map_of (sessions (SetSession now im sq teid addr r)) (session_key sq teid) =
     Some \<lparr>rs_host = addr, rs_imsi = im, rs_seqno = sq, rs_teid = teid, rs_created = now\<rparr>"
  by (simp add: SetSession_def Let_def AList.update_conv' FindSessionBySeqnoTeid_def)

lemma session_key_inj: "session_key s t = session_key s' t' \<longleftrightarrow> s = s' \<and> t = t'"
proof
  assume e: "session_key s t = session_key s' t'"
  have b: "bit (session_key s t) n = (if n < 32 then bit t n else n < 64 \<and> bit s (n - 32))" for s t :: "32 word" and n
    by (auto simp: session_key_def bit_simps dest: bit_imp_le_length)
  have "bit t n = bit t' n" for n
    using b [of s t n] b [of s' t' n] e by (cases "n < 32") (auto dest: bit_imp_le_length)
  moreover have "bit s n = bit s' n" for n
    using b [of s t "n + 32"] b [of s' t' "n + 32"] e by (cases "n < 32") (auto dest: bit_imp_le_length)
  ultimately show "s = s' \<and> t = t'" by (simp add: bit_eq_iff)
qed simp

lemma tables_of_stats [simp]:
  "sessions (StatAdd now ip g a b c r) = sessions r" "sessions (StatReject now ip g a b r) = sessions r"
  "sessions (StatExpire now e r) = sessions r" "sessions (SetExtRoute addr r) = sessions r" "sessions (Cache con r) = sessions r"
  "grouproutes (StatAdd now ip g a b c r) = grouproutes r" "grouproutes (StatReject now ip g a b r) = grouproutes r"
  "grouproutes (SetExtRoute addr r) = grouproutes r" "grouproutes (SetSession now im sq te addr r) = grouproutes r"
  "stats (SetExtRoute addr r) = stats r" "stats (SetSession now im sq te addr r) = stats r" "stats (Cache con r) = stats r"
  by (simp_all add: StatAdd_def StatReject_def StatExpire_def SetExtRoute_def SetSession_def Cache_def Let_def)

text \<open>Every key of the statistics is a bare address, in the low half of the key.\<close>

definition stat_keys_ok :: "routes \<Rightarrow> bool" where
  "stat_keys_ok r \<longleftrightarrow> (\<forall>k \<in> fst ` set (stats r). \<exists>ip :: 32 word. k = ucast ip)"

lemma stat_keys [intro]:
  "stat_keys_ok r \<Longrightarrow> stat_keys_ok (StatAdd now ip g a b c r)" "stat_keys_ok r \<Longrightarrow> stat_keys_ok (StatReject now ip g a b r)"
  "stat_keys_ok r \<Longrightarrow> stat_keys_ok (StatExpire now e r)" "stat_keys_ok r \<Longrightarrow> stat_keys_ok (SetExtRoute addr r)"
  "stat_keys_ok r \<Longrightarrow> stat_keys_ok (SetSession now im sq te addr r)" "stat_keys_ok r \<Longrightarrow> stat_keys_ok (Cache con r)"
  by (auto simp: stat_keys_ok_def StatAdd_def StatReject_def StatExpire_def Let_def dom_update)

lemma stat_matches_bare: "ip \<noteq> - 1 \<Longrightarrow> ip \<noteq> 0 \<Longrightarrow> \<not> stat_matches ip grp (ucast (ip' :: 32 word))"
proof -
  have "drop_bit 32 (ucast ip' :: 64 word) = 0" by (rule bit_eqI) (auto simp: bit_simps dest: bit_imp_le_length)
  then show "ip \<noteq> - 1 \<Longrightarrow> ip \<noteq> 0 \<Longrightarrow> ?thesis" by (simp add: stat_matches_def)
qed

lemma StatCount_filtered:
  assumes "stat_keys_ok r" "ip \<noteq> - 1" "ip \<noteq> 0" "e \<notin> {1, 2, 3, 4}"
  shows "StatCount pid now e ip grp r = 0"
proof -
  have "filter (\<lambda>(k, st). stat_matches ip grp k) (stats r) = []"
    using assms(1-3) by (fastforce simp: filter_empty_conv stat_keys_ok_def stat_matches_bare)
  then show ?thesis using assms(4) by (simp add: StatCount_def)
qed

end
