(* ===== verification/Proxy_Event.thy ===== *)
theory Proxy_Event
  imports Proxy_Routes Ctrl_Receive
begin

text \<open>
  The callbacks of the GTP-C proxy (\<open>ctrlplane/src/proxy/proxy_event.cc\<close>). Requests of serving gateways arrive at the external socket and
  go to a gateway of the group of their subscriber; answers arrive at the internal socket and go to the serving gateway that waits for them;
  a third socket answers questions about statistics. A socket is the list of the datagrams that wait in it; a peek leaves a datagram there.
  \<open>None\<close> is a callback that does not return or reads through a pointer that was never set.
\<close>

section \<open>State\<close>

text \<open>What the calls of an event answer, and what its uninitialised variables hold.\<close>

record proxy_env =
  pe_select :: select
  pe_select_n :: select
  pe_pton :: "string \<Rightarrow> byte list option"
  pe_turn :: "nat \<Rightarrow> turn"
  pe_sockname :: "(32 word) option"
  pe_malloc :: "nat \<Rightarrow> bool"
  pe_stale :: bool
  pe_now :: "32 word"
  pe_pid :: "32 word"
  pe_junk :: mem
  pe_state :: v1_state
  pe_gid :: "32 word"
  pe_sa :: "32 word"

record proxy =
  px_routes :: routes
  px_ext :: "datagram list"
  px_int :: "datagram list"
  px_sts :: "datagram list"
  px_out :: "(psock \<times> byte list \<times> byte list) list"
  px_leaked :: nat
  px_reload :: "32 word"
  px_counter :: "64 word"
  px_counter_session :: "64 word"

abbreviation src_ip :: "byte list \<Rightarrow> 32 word" where "src_ip a \<equiv> word_le (sin_addr a)"

definition on_routes :: "(routes \<Rightarrow> routes) \<Rightarrow> proxy \<Rightarrow> proxy" where
  "on_routes f s = s\<lparr>px_routes := f (px_routes s)\<rparr>"

section \<open>Messages\<close>

definition ModifyEchoReq :: "mem \<Rightarrow> mem" where
  "ModifyEchoReq m =
     (if bit (m 0) 3 then
        (if unat (ldn16 m 2) = 13 \<and> m 12 = 3 then m(16 := 0) else m)
      else if unat (ldn16 m 2) = 9 \<and> m 8 = 3 then m(12 := 0) else m)(1 := 2)"

text \<open>The state of the parser is not cleared before a message is read. A packet without an IMSI is not freed.\<close>

definition ParseImsi :: "proxy_env \<Rightarrow> mem \<Rightarrow> 32 word \<Rightarrow> (v1_state \<times> bool \<times> nat) option" where
  "ParseImsi E m len =
     (if drop_bit 5 (m 0) = 2 then
        Some (case gtpc_alloc_packet_from_payload (pe_malloc E) (pe_junk E) m (ucast len) of
          Rejected lost \<Rightarrow> (pe_state E, False, if lost = None then 0 else 1)
        | Accepted p \<Rightarrow>
            let v = on_ps (\<lambda>cs. fst (gtpc_iterate_item p (on_gtpc_parse_root (pe_junk E)) cs)) (pe_state E) in
            if flag (vps v) AND HAVE_IMSI \<noteq> HAVE_IMSI then (v, False, 1)
            else if flag (vps v) AND HAVE_FTEID_C \<noteq> HAVE_FTEID_C then (v, False, 0)
            else (v, True, 0))
      else do {
        off \<leftarrow> (let off = (if bit (m 0) 1 \<or> bit (m 0) 0 \<or> bit (m 0) 2 then 8 + 4 else 8) in
          if bit (m 0) 2 then skip_extensions (pe_junk E 0) m len off else Some off);
        r \<leftarrow> v1_elements (pe_junk E) m len off (pe_state E);
        Some (case r of Inl _ \<Rightarrow> (pe_state E, False, 0) | Inr v \<Rightarrow> (v, flag_v1 (vps v) AND HAVE_V1_IMSI = HAVE_V1_IMSI, 0))
      })"

section \<open>Receiving\<close>

text \<open>The checks on the header that both sockets share, and the length that is then read.\<close>

definition proxy_header_ok :: "mem \<Rightarrow> bool" where
  "proxy_header_ok m \<longleftrightarrow> \<not> (claimed_length m < 4 \<or> claimed_length m > ETHER_MAX_LEN) \<and> gtpc_validate_header m"

definition proxy_length :: "mem \<Rightarrow> nat" where
  "proxy_length m =
     4 + claimed_length m + (if drop_bit 5 (m 0) = 1 \<and> (bit (m 0) 1 \<or> bit (m 0) 0 \<or> bit (m 0) 2) then 4 else 0)"

text \<open>The types that pass, for a type of version 2 that passes besides an Echo Request.\<close>

definition proxy_type_ok :: "byte \<Rightarrow> mem \<Rightarrow> bool" where
  "proxy_type_ok ty m =
     (if drop_bit 5 (m 0) = 2 then m 1 = ty \<or> m 1 = 1
      else if drop_bit 5 (m 0) = 1 then 16 \<le> m 1 \<and> m 1 \<le> 21
      else False)"

definition proxy_send :: "proxy_env \<Rightarrow> psock \<Rightarrow> byte list \<Rightarrow> mem \<Rightarrow> nat \<Rightarrow> proxy \<Rightarrow> bool \<times> proxy" where
  "proxy_send E sock dst m len s =
     (case send_loop (pe_turn E) m (int len) 0 0 of (outs, ok) \<Rightarrow> (ok, s\<lparr>px_out := px_out s @ map (\<lambda>b. (sock, dst, b)) outs\<rparr>))"

definition buffer :: "mem \<Rightarrow> byte list \<Rightarrow> nat \<Rightarrow> mem" where
  "buffer junk d len = (\<lambda>i. if i < len \<and> i < length d then d ! i else junk i)"

text \<open>A request from outside, read into \<open>m\<close>: an Echo Request is answered, the rest is parsed, remembered and passed on.\<close>

definition ext_forward :: "proxy_env \<Rightarrow> byte list \<Rightarrow> mem \<Rightarrow> nat \<Rightarrow> proxy \<Rightarrow> proxy option" where
  "ext_forward E src m len s =
     (let reject = (\<lambda>gid. on_routes (StatReject (pe_now E) (src_ip src) (ucast gid) (word_of_nat len) 0));
          count = (\<lambda>gid. on_routes (StatAdd (pe_now E) (src_ip src) (ucast gid) (word_of_nat len) 0 0)) in
      if m 1 = 1 then
        (case proxy_send E EXTSOCK src (ModifyEchoReq m) len s of (ok, s) \<Rightarrow> Some (if ok then count (pe_gid E) s else reject (pe_gid E) s))
      else case ParseImsi E m (word_of_nat len) of
        None \<Rightarrow> None
      | Some (v, ok, lost) \<Rightarrow>
          let s = s\<lparr>px_leaked := px_leaked s + lost\<rparr> in
          if \<not> ok then Some (reject (pe_gid E) s)
          else let im = gtpc_digits_get (pe_stale E) (drop 4 (imsi (vps v))); (gid, found) = FindGroupByImsi (pe_select_n E) im in
            if \<not> found then Some (reject gid s)
            else case FindInternlRouteByGroupFromCache gid (px_routes s) of
              None \<Rightarrow> Some (reject gid s)
            | Some rts \<Rightarrow>
                let teid = word_le (take 4 (drop 5 (c_teid (vps v))));
                    s = on_routes (SetSession (pe_now E) im (ld32 m 8 AND 0xFFFFFF) teid src) s;
                    dst = [2, 0] @ be16 (ucast (ri_port (rts ! 0))) @ (case pe_pton E (ri_host (rts ! 0)) of None \<Rightarrow> zeros 4 | Some a \<Rightarrow> a) @ zeros 8 in
                (case proxy_send E INTSOCK dst m len s of (ok, s) \<Rightarrow> Some (if ok then count gid s else reject gid s)))"

definition OnRecieveExt :: "proxy_env \<Rightarrow> proxy \<Rightarrow> proxy option" where
  "OnRecieveExt E s =
     (case px_ext s of
        [] \<Rightarrow> None
      | (d, src) # q \<Rightarrow>
          if length d < 8 then None
          else let m = buffer (pe_junk E) d 8; len = proxy_length m; rlen = min len (length d);
              reject = (\<lambda>ip gid n. on_routes (StatReject (pe_now E) ip (ucast gid) (word_of_nat n) 0)) in
            if \<not> proxy_header_ok m then Some (reject (src_ip src) (pe_gid E) 8 s)
            else let s' = s\<lparr>px_ext := drop 1 q\<rparr>; src' = (case q of [] \<Rightarrow> src | x # _ \<Rightarrow> snd x); s = s\<lparr>px_ext := q\<rparr> in
            if rlen < 4 \<or> rlen \<noteq> len then Some (reject (src_ip src') (0 :: 32 word) rlen s')
            else if pe_sockname E = None then Some (reject (src_ip src') 0 rlen s')
            else let m = buffer (pe_junk E) d len; s = on_routes (SetExtRoute src) s in
            if \<not> proxy_type_ok 32 m then Some (reject (src_ip src) (pe_gid E) rlen s)
            else ext_forward E src m len s)"

text \<open>An answer from inside. Its statistics are kept under the proxy's own address.\<close>

definition int_forward :: "proxy_env \<Rightarrow> byte list \<Rightarrow> 32 word \<Rightarrow> mem \<Rightarrow> nat \<Rightarrow> proxy \<Rightarrow> proxy" where
  "int_forward E src own m len s =
     (let reject = on_routes (StatReject (pe_now E) own (ucast (pe_gid E)) 0 (word_of_nat len));
          count = on_routes (StatAdd (pe_now E) own (ucast (pe_gid E)) 0 (word_of_nat len) 0) in
      if drop_bit 5 (m 0) = 2 \<and> m 1 = 1 then
        (case proxy_send E INTSOCK src (ModifyEchoReq m) len s of (ok, s) \<Rightarrow> if ok then count s else reject s)
      else case FindSessionBySeqnoTeid (ld32 m 8) (ld32 m 4) (px_routes s) of
        None \<Rightarrow> reject s
      | Some sess \<Rightarrow> (case proxy_send E EXTSOCK (rs_host sess) m len s of (ok, s) \<Rightarrow> if ok then count s else reject s))"

definition OnRecieveInt :: "proxy_env \<Rightarrow> proxy \<Rightarrow> proxy option" where
  "OnRecieveInt E s =
     (case px_int s of
        [] \<Rightarrow> None
      | (d, src) # q \<Rightarrow>
          if length d < 8 then None
          else let m = buffer (pe_junk E) d 8; len = proxy_length m; rlen = min len (length d);
              reject = (\<lambda>ip n. on_routes (StatReject (pe_now E) ip (ucast (pe_gid E)) 0 (word_of_nat n))) in
            if \<not> proxy_header_ok m then Some (reject (pe_sa E) 8 s)
            else if rlen < 4 \<or> rlen \<noteq> len then Some (reject (pe_sa E) rlen (s\<lparr>px_int := drop 1 q\<rparr>))
            else let s = s\<lparr>px_int := q\<rparr> in
            case pe_sockname E of None \<Rightarrow> Some (reject (pe_sa E) rlen s)
            | Some own \<Rightarrow>
              let m = buffer (pe_junk E) d len in
              if \<not> proxy_type_ok 33 m then Some (reject own rlen s)
              else Some (int_forward E src own m len s))"

section \<open>Statistics\<close>

text \<open>The header has 16 octets and a request 64 more, of which only the first 48 are read. Values are in network order, addresses as they come.\<close>

definition stats_filter :: "mem \<Rightarrow> 32 word \<times> 16 word" where
  "stats_filter m =
     (let ty = ld32 m 16 AND 0xFF000000 in
      if ty = 0xC0000000 then (ld32 m 24, ucast (ld32 m 20)) else if ty = 0x40000000 then (ld32 m 24, - 1) else (- 1, - 1))"

definition be64 :: "64 word \<Rightarrow> byte list" where
  "be64 v = map (\<lambda>i. byte_of (7 - i) v) [0..<8]"

definition stats_reply :: "proxy_env \<Rightarrow> mem \<Rightarrow> routes \<Rightarrow> byte list" where
  "stats_reply E m r =
     (let (ip, grp) = stats_filter m in
      le32 0xdeadbeaf @ [m 4 AND 0x0F] @ be16 1040 @ [0] @ rd_bytes m 8 4 @ le32 (pe_now E) @
      concat (map (\<lambda>n. be64 (StatCount (pe_pid E) (pe_now E) n ip grp r)) [0..<128]))"

definition OnRecieveStats :: "proxy_env \<Rightarrow> proxy \<Rightarrow> proxy" where
  "OnRecieveStats E s =
     (case px_sts s of
        [] \<Rightarrow> s
      | (d, src) # q \<Rightarrow>
          if length d < 16 then s
          else let m = buffer (pe_junk E) d 16 in
            if unat (ldn16 m 5) \<noteq> 64 then s
            else if min 64 (length d) \<noteq> 64 \<or> pe_sockname E = None then s\<lparr>px_sts := drop 1 q\<rparr>
            else let s = s\<lparr>px_sts := q\<rparr>; m = buffer (pe_junk E) d 64 in
              if ld32 m 0 \<noteq> 0xdeadbeaf \<or> m 4 AND 0xF0 \<noteq> 0x80 \<or> m 7 \<noteq> 0 then s
              else snd (proxy_send E STSSOCK src (\<lambda>i. stats_reply E m (px_routes s) ! i) 1040 s))"

section \<open>Time and signals\<close>

text \<open>The counters are static variables; the second one is set back before it is given to \<open>StatExpire\<close>. The pings of \<open>KeepAlive\<close> are left out.\<close>

definition OnTimeOut :: "proxy_env \<Rightarrow> proxy \<Rightarrow> proxy" where
  "OnTimeOut E s =
     (let s = (if px_counter s > 6000 then
            let s = s\<lparr>px_counter := 0\<rparr> in
            if px_reload s \<noteq> 0 then (on_routes (Cache (pe_select E)) s)\<lparr>px_reload := 0\<rparr> else s
          else s\<lparr>px_counter := px_counter s + 1\<rparr>) in
      if px_counter_session s > 360000 then
        let s = s\<lparr>px_counter_session := 0\<rparr> in on_routes (StatExpire (pe_now E) (ucast (px_counter_session s div 100))) s
      else s\<lparr>px_counter_session := px_counter_session s + 1\<rparr>)"

definition Signal :: "proxy \<Rightarrow> proxy" where
  "Signal s = s\<lparr>px_reload := px_reload s + 1\<rparr>"

section \<open>Runs\<close>

datatype pevent = Arrive psock datagram | Readable psock | TimeOut | Sigusr2

fun proxy_step :: "proxy_env \<times> pevent \<Rightarrow> proxy \<Rightarrow> proxy option" where
  "proxy_step (E, Arrive EXTSOCK d) s = Some (s\<lparr>px_ext := px_ext s @ [d]\<rparr>)"
| "proxy_step (E, Arrive INTSOCK d) s = Some (s\<lparr>px_int := px_int s @ [d]\<rparr>)"
| "proxy_step (E, Arrive STSSOCK d) s = Some (s\<lparr>px_sts := px_sts s @ [d]\<rparr>)"
| "proxy_step (E, Readable EXTSOCK) s = OnRecieveExt E s"
| "proxy_step (E, Readable INTSOCK) s = OnRecieveInt E s"
| "proxy_step (E, Readable STSSOCK) s = Some (OnRecieveStats E s)"
| "proxy_step (E, TimeOut) s = Some (OnTimeOut E s)"
| "proxy_step (E, Sigusr2) s = Some (Signal s)"

fun proxy_run :: "(proxy_env \<times> pevent) list \<Rightarrow> proxy \<Rightarrow> proxy option" where
  "proxy_run [] s = Some s"
| "proxy_run (e # es) s = (case proxy_step e s of None \<Rightarrow> None | Some s' \<Rightarrow> proxy_run es s')"

section \<open>What a run keeps\<close>

lemma on_routes_simps [simp]:
  "px_routes (on_routes f s) = f (px_routes s)" "px_ext (on_routes f s) = px_ext s" "px_int (on_routes f s) = px_int s"
  "px_sts (on_routes f s) = px_sts s" "px_out (on_routes f s) = px_out s" "px_leaked (on_routes f s) = px_leaked s"
  by (simp_all add: on_routes_def)

lemma proxy_send_out:
  "proxy_send E sock dst m len s =
     (snd (send_loop (pe_turn E) m (int len) 0 0),
      s\<lparr>px_out := px_out s @ map (\<lambda>b. (sock, dst, b)) (fst (send_loop (pe_turn E) m (int len) 0 0))\<rparr>)"
  by (simp add: proxy_send_def case_prod_beta)

text \<open>A relation between tables that every operation on them respects holds between the ends of every run.\<close>

locale table_relation =
  fixes R :: "routes \<Rightarrow> routes \<Rightarrow> bool"
  assumes R_refl: "R r r"
    and R_trans: "R r1 r2 \<Longrightarrow> R r2 r3 \<Longrightarrow> R r1 r3"
    and R_add: "R r (StatAdd now ip g a b c r)"
    and R_reject: "R r (StatReject now ip g a b r)"
    and R_expire: "R r (StatExpire now n r)"
    and R_ext: "R r (SetExtRoute addr r)"
    and R_session: "R r (SetSession now im sq te addr r)"
    and R_cache: "R r (Cache con r)"
begin

lemmas R_ops = R_refl R_add R_reject R_expire R_ext R_session R_cache

lemma R_after: "R (SetExtRoute addr r) r' \<Longrightarrow> R r r'" "R (Cache con r) r' \<Longrightarrow> R r r'" "R (SetSession now im sq te addr r) r' \<Longrightarrow> R r r'"
  by (rule R_trans [OF R_ext R_trans [OF _ R_refl]], assumption, rule R_trans [OF R_cache R_trans [OF _ R_refl]], assumption,
      rule R_trans [OF R_session R_trans [OF _ R_refl]], assumption)

lemma R_both [simp]:
  "R r (StatAdd now ip g a b c (SetSession now im sq te addr r))" "R r (StatReject now ip g a b (SetSession now im sq te addr r))"
  "R r (StatReject now ip g a b (SetExtRoute addr r))" "R r (StatExpire now n (Cache con r))"
  by (rule R_after, rule R_ops)+

declare R_ops [simp]

lemma ext_forward_R: "ext_forward E src m len s = Some s' \<Longrightarrow> R (px_routes s) (px_routes s')"
  by (auto simp: ext_forward_def Let_def proxy_send_out split: if_splits option.splits prod.splits)

lemma OnRecieveExt_R: "OnRecieveExt E s = Some s' \<Longrightarrow> R (px_routes s) (px_routes s')"
  by (auto simp: OnRecieveExt_def Let_def split: if_splits list.splits dest!: ext_forward_R R_after(1))

lemma OnRecieveInt_R: "OnRecieveInt E s = Some s' \<Longrightarrow> R (px_routes s) (px_routes s')"
  by (auto simp: OnRecieveInt_def int_forward_def Let_def proxy_send_out split: if_splits list.splits option.splits)

lemma OnRecieveStats_R: "R (px_routes s) (px_routes (OnRecieveStats E s))"
  by (auto simp: OnRecieveStats_def Let_def proxy_send_out split: list.splits)

lemma OnTimeOut_R: "R (px_routes s) (px_routes (OnTimeOut E s))"
  by (auto simp: OnTimeOut_def Let_def)

lemma step_R: "proxy_step e s = Some s' \<Longrightarrow> R (px_routes s) (px_routes s')"
  by (cases "(e, s)" rule: proxy_step.cases)
    (auto simp: Signal_def OnRecieveStats_R OnTimeOut_R dest: OnRecieveExt_R OnRecieveInt_R)

lemma run_R: "proxy_run es s = Some s' \<Longrightarrow> R (px_routes s) (px_routes s')"
proof (induction es arbitrary: s)
  case (Cons e es)
  then obtain t where t: "proxy_step e s = Some t" "proxy_run es t = Some s'" by (auto split: option.splits)
  show ?case by (rule R_trans [OF step_R [OF t(1)] Cons.IH [OF t(2)]])
qed simp

end

interpretation kept_sessions: table_relation "\<lambda>r r'. map_of (sessions r) \<subseteq>\<^sub>m map_of (sessions r')"
  by unfold_locales (auto simp: map_le_def dom_def SetSession_keeps)

interpretation stat_keys: table_relation "\<lambda>r r'. stat_keys_ok r \<longrightarrow> stat_keys_ok r'"
  by unfold_locales auto

end
