(* ===== verification/Proxy_Properties.thy ===== *)
theory Proxy_Properties
  imports Proxy_Event Session_Answers Gtpc_Message
begin

text \<open>
  Properties of the GTP-C proxy: requests reach a gateway of their subscriber and answers the serving gateway that asked, over any other
  events in between; and what a bad datagram, a repeated key, uncleared memory and a filtered question do.
\<close>

section \<open>Requests and answers\<close>

text \<open>What is read of a datagram; it counts as a request when the parser accepts it: subscriber, sequence number and tunnel of the serving gateway.\<close>

definition proxy_read :: "proxy_env \<Rightarrow> byte list \<Rightarrow> mem" where
  "proxy_read E d = buffer (pe_junk E) d (proxy_length (buffer (pe_junk E) d 8))"

definition proxy_readable :: "proxy_env \<Rightarrow> byte list \<Rightarrow> bool" where
  "proxy_readable E d \<longleftrightarrow> 8 \<le> length d \<and> proxy_header_ok (buffer (pe_junk E) d 8) \<and> proxy_length (buffer (pe_junk E) d 8) \<le> length d"

definition proxy_payload :: "proxy_env \<Rightarrow> byte list \<Rightarrow> byte list" where
  "proxy_payload E d = take (proxy_length (buffer (pe_junk E) d 8)) d"

definition request :: "proxy_env \<Rightarrow> byte list \<Rightarrow> (64 word \<times> 32 word \<times> 32 word) option" where
  "request E d =
     (let m = proxy_read E d in
      if proxy_readable E d \<and> proxy_type_ok 32 m \<and> m 1 \<noteq> 1 then
        (case ParseImsi E m (word_of_nat (proxy_length (buffer (pe_junk E) d 8))) of
           Some (v, True, _) \<Rightarrow>
             Some (gtpc_digits_get (pe_stale E) (drop 4 (imsi (vps v))), ld32 m 8 AND 0xFFFFFF, word_le (take 4 (drop 5 (c_teid (vps v)))))
         | _ \<Rightarrow> None)
      else None)"

text \<open>The gateway of a subscriber: the first route of its group.\<close>

definition gateway :: "proxy_env \<Rightarrow> routes \<Rightarrow> 64 word \<Rightarrow> byte list option" where
  "gateway E r im =
     (case FindGroupByImsi (pe_select_n E) im of (gid, hit) \<Rightarrow>
        if hit then map_option (\<lambda>rts. [2, 0] @ be16 (ucast (ri_port (rts ! 0))) @
          (case pe_pton E (ri_host (rts ! 0)) of None \<Rightarrow> zeros 4 | Some a \<Rightarrow> a) @ zeros 8) (FindInternlRouteByGroupFromCache gid r)
        else None)"

definition answer :: "proxy_env \<Rightarrow> 32 word \<Rightarrow> 32 word \<Rightarrow> byte list \<Rightarrow> bool" where
  "answer E sq te d \<longleftrightarrow>
     (let m = proxy_read E d in
      proxy_readable E d \<and> proxy_type_ok 33 m \<and> \<not> (drop_bit 5 (m 0) = 2 \<and> m 1 = 1) \<and> ld32 m 8 = sq \<and> ld32 m 4 = te)"

definition proxy_sends :: "proxy_env \<Rightarrow> byte list \<Rightarrow> bool" where
  "proxy_sends E d \<longleftrightarrow> pe_sockname E \<noteq> None \<and> pe_turn E 0 = Sendto (int (length (proxy_payload E d)))"

lemma send_loop_once: "sel 0 = Sendto (int len) \<Longrightarrow> send_loop sel m (int len) 0 0 = ([rd_bytes m 0 len], True)"
  by (subst send_loop.simps) (simp add: Let_def)

lemma rd_proxy_read: "proxy_readable E d \<Longrightarrow> rd_bytes (proxy_read E d) 0 (proxy_length (buffer (pe_junk E) d 8)) = proxy_payload E d"
  unfolding proxy_readable_def proxy_read_def proxy_payload_def
  by (intro nth_equalityI) (auto simp: rd_bytes_def buffer_def)

lemma length_payload [simp]: "proxy_readable E d \<Longrightarrow> length (proxy_payload E d) = proxy_length (buffer (pe_junk E) d 8)"
  by (simp add: proxy_readable_def proxy_payload_def)

lemma proxy_length_4 [simp]: "\<not> proxy_length m < 4"
  by (simp add: proxy_length_def)

lemma min_payload: "proxy_readable E d \<Longrightarrow> min (proxy_length (buffer (pe_junk E) d 8)) (length d) = proxy_length (buffer (pe_junk E) d 8)"
  by (simp add: proxy_readable_def)

lemma ext_request:
  assumes "px_ext s = (d, src) # q" "request E d = Some (im, sq, te)" "gateway E (px_routes s) im = Some dst" "proxy_sends E d"
  shows "\<exists>s'. OnRecieveExt E s = Some s' \<and> px_ext s' = q \<and> px_int s' = px_int s \<and> px_out s' = px_out s @ [(INTSOCK, dst, proxy_payload E d)] \<and>
    FindSessionBySeqnoTeid sq te (px_routes s') =
      Some (case FindSessionBySeqnoTeid sq te (px_routes s) of
        None \<Rightarrow> \<lparr>rs_host = src, rs_imsi = im, rs_seqno = sq, rs_teid = te, rs_created = pe_now E\<rparr> | Some sess \<Rightarrow> sess)"
proof -
  let ?m = "proxy_read E d" and ?len = "proxy_length (buffer (pe_junk E) d 8)"
  obtain v lost where rd: "proxy_readable E d" "proxy_type_ok 32 ?m" "?m 1 \<noteq> 1" and
    v: "ParseImsi E ?m (word_of_nat ?len) = Some (v, True, lost)" "im = gtpc_digits_get (pe_stale E) (drop 4 (imsi (vps v)))"
      "sq = ld32 ?m 8 AND 0xFFFFFF" "te = word_le (take 4 (drop 5 (c_teid (vps v))))"
    using assms(2) by (auto simp: request_def Let_def split: if_splits option.splits bool.splits)
  obtain gid rts where g: "FindGroupByImsi (pe_select_n E) im = (gid, True)" "FindInternlRouteByGroupFromCache gid (px_routes s) = Some rts"
    "dst = [2, 0] @ be16 (ucast (ri_port (rts ! 0))) @ (case pe_pton E (ri_host (rts ! 0)) of None \<Rightarrow> zeros 4 | Some a \<Rightarrow> a) @ zeros 8"
    using assms(3) by (auto simp: gateway_def split: prod.splits if_splits)
  have c: "FindInternlRouteByGroupFromCache gid (SetExtRoute src (px_routes s)) = Some rts"
    using g(2) by (simp add: FindInternlRouteByGroupFromCache_def)
  have snd: "send_loop (pe_turn E) ?m (int ?len) 0 0 = ([proxy_payload E d], True)"
    using assms(4) rd(1) send_loop_once [of "pe_turn E" ?len ?m] by (simp add: proxy_sends_def rd_proxy_read)
  have e: "OnRecieveExt E s = ext_forward E src ?m ?len (on_routes (SetExtRoute src) (s\<lparr>px_ext := q\<rparr>))"
    using assms(1,4) rd by (simp add: OnRecieveExt_def Let_def min_payload proxy_sends_def proxy_read_def [symmetric])
      (auto simp: proxy_readable_def)
  show ?thesis unfolding e
    by (simp add: ext_forward_def Let_def rd(3) [simplified] v(1) v(2-4) [symmetric] g(1) c g(3) proxy_send_out snd FindSessionBySeqnoTeid_def
        SetSession_def AList.update_conv' split: option.split)
qed

lemma int_answer:
  assumes "px_int s = (d, src) # q" "answer E sq te d" "proxy_sends E d" "FindSessionBySeqnoTeid sq te (px_routes s) = Some sess"
  shows "\<exists>s'. OnRecieveInt E s = Some s' \<and> px_int s' = q \<and> px_out s' = px_out s @ [(EXTSOCK, rs_host sess, proxy_payload E d)]"
proof -
  let ?m = "proxy_read E d" and ?len = "proxy_length (buffer (pe_junk E) d 8)"
  obtain own where own: "pe_sockname E = Some own" using assms(3) by (auto simp: proxy_sends_def)
  have rd: "proxy_readable E d" "proxy_type_ok 33 ?m" "\<not> (drop_bit 5 (?m 0) = 2 \<and> ?m 1 = 1)" "ld32 ?m 8 = sq" "ld32 ?m 4 = te"
    using assms(2) by (simp_all add: answer_def Let_def)
  have snd: "send_loop (pe_turn E) ?m (int ?len) 0 0 = ([proxy_payload E d], True)"
    using assms(3) rd(1) send_loop_once [of "pe_turn E" ?len ?m] by (simp add: proxy_sends_def rd_proxy_read)
  have e: "OnRecieveInt E s = Some (int_forward E src own ?m ?len (s\<lparr>px_int := q\<rparr>))"
    using assms(1) own rd by (simp add: OnRecieveInt_def Let_def min_payload proxy_read_def [symmetric]) (auto simp: proxy_readable_def)
  show ?thesis unfolding e using rd(3) by (auto simp: int_forward_def Let_def rd(4,5) assms(4) proxy_send_out snd)
qed

text \<open>C22: An answer goes back to the serving gateway that asked. A request that parses, of a subscriber whose group has a gateway, is passed on to that
  gateway unchanged; after any further events, an answer with the sequence number and the tunnel of the request goes, unchanged, to the source of the
  request - or to an earlier source, if one has used the same numbers before, since sessions are neither replaced nor removed.\<close>

theorem proxy_answers_requester:
  assumes "px_ext s = (d, src) # q" "request E d = Some (im, sq, te)" "gateway E (px_routes s) im = Some dst" "proxy_sends E d"
    and "proxy_step (E, Readable EXTSOCK) s = Some s1" "proxy_run es s1 = Some s2"
    and "px_int s2 = (d', src') # q'" "answer E' sq te d'" "proxy_sends E' d'"
  shows "px_out s1 = px_out s @ [(INTSOCK, dst, proxy_payload E d)] \<and>
    (\<exists>s3. proxy_step (E', Readable INTSOCK) s2 = Some s3 \<and>
      px_out s3 = px_out s2 @ [(EXTSOCK, case FindSessionBySeqnoTeid sq te (px_routes s) of None \<Rightarrow> src | Some sess \<Rightarrow> rs_host sess,
        proxy_payload E' d')])"
proof -
  obtain sess where s1: "px_out s1 = px_out s @ [(INTSOCK, dst, proxy_payload E d)]" "FindSessionBySeqnoTeid sq te (px_routes s1) = Some sess"
    "rs_host sess = (case FindSessionBySeqnoTeid sq te (px_routes s) of None \<Rightarrow> src | Some sess \<Rightarrow> rs_host sess)"
    using ext_request [OF assms(1-4)] assms(5) by (auto split: option.splits)
  have "FindSessionBySeqnoTeid sq te (px_routes s2) = Some sess"
    using kept_sessions.run_R [OF assms(6)] s1(2) by (auto simp: FindSessionBySeqnoTeid_def map_le_def dom_def)
  from int_answer [OF assms(7-9) this] s1 show ?thesis by auto
qed

text \<open>A message of version 2 with the items \<open>gs\<close> behind its header.\<close>

definition carries :: "mem \<Rightarrow> 16 word \<Rightarrow> gitem list \<Rightarrow> bool" where
  "carries m len gs \<longleftrightarrow>
     m 0 = 0x48 \<and> gtpc_type_issupported (m 1) \<and> m 1 \<noteq> GTPC_ECHO_REQ \<and> m 1 \<noteq> GTPC_ECHO_RES \<and> unat (ldn16 m 2) + 4 = unat len \<and>
     unat len = 12 + length (concat (map gbytes gs)) \<and> unat len < ETHER_MAX_LEN \<and>
     rd_bytes m 12 (length (concat (map gbytes gs))) = concat (map gbytes gs) \<and> length gs \<le> 255"

lemma ParseImsi_items:
  assumes "carries m (ucast len) gs" "\<forall>g \<in> set gs. gitem_ok g" "\<And>k. pe_malloc E k"
  shows "\<exists>lost. ParseImsi E m len = Some (on_ps (parse_items_of (pe_junk E) gs) (pe_state E),
    (bit (flag (vps (pe_state E))) 25 \<or> (\<exists>b \<in> set (roots gs). sized 1 (\<lambda>n. n \<le> 12) b)) \<and>
    (bit (flag (vps (pe_state E))) 30 \<or> (\<exists>b \<in> set (roots gs). sized 87 (\<lambda>n. n = 25 \<or> n = 13) b)), lost)"
proof -
  note c = assms(1) [unfolded carries_def]
  have t: "\<forall>b \<in> set (map gbytes gs). tlv b" using assms(2) gitem_tlv by auto
  obtain q where q: "gtpc_alloc_packet_from_payload (pe_malloc E) (pe_junk E) m (ucast len) = Accepted q" "contents q = map typed (map gbytes gs)"
    using payload_parses [of m "m 1" "ucast len" "map gbytes gs" "pe_malloc E" "pe_junk E"] c t assms(3) by auto
  have it: "gtpc_iterate_item q (on_gtpc_parse_root (pe_junk E)) s = (parse_items_of (pe_junk E) gs s, True)" for s
    using iterate_gitems [OF _ assms(2), of q] q(2) by simp
  have v: "drop_bit 5 (m 0) = 2" using c by simp
  have i: "bit (flag (parse_items_of (pe_junk E) gs s)) 25 \<longleftrightarrow> bit (flag s) 25 \<or> (\<exists>b \<in> set (roots gs). sized 1 (\<lambda>n. n \<le> 12) b)"
    "bit (flag (parse_items_of (pe_junk E) gs s)) 30 \<longleftrightarrow> bit (flag s) 30 \<or> (\<exists>b \<in> set (roots gs). sized 87 (\<lambda>n. n = 25 \<or> n = 13) b)" for s
    using has_imsi.collects_roots [OF assms(2)] has_c_teid.collects_roots [OF assms(2)] by (simp_all add: seen_fold filter_empty_conv)
  show ?thesis by (simp add: ParseImsi_def v q(1) it and_flag_bit on_ps_def i Let_def)
qed

text \<open>The parser trusts what is on the stack. Its state is not cleared, so a message is accepted when every mandatory item is there - or when the
  memory happens to have the bit of a missing one set; a request without an IMSI is then routed by whatever number was left there.\<close>

theorem proxy_parser_trusts_stack:
  assumes "carries m (ucast len) gs" "\<forall>g \<in> set gs. gitem_ok g" "\<And>k. pe_malloc E k"
  shows "\<exists>v ok lost. ParseImsi E m len = Some (v, ok, lost) \<and>
    (ok \<longleftrightarrow> (bit (flag (vps (pe_state E))) 25 \<or> (\<exists>b \<in> set (roots gs). sized 1 (\<lambda>n. n \<le> 12) b)) \<and>
      (bit (flag (vps (pe_state E))) 30 \<or> (\<exists>b \<in> set (roots gs). sized 87 (\<lambda>n. n = 25 \<or> n = 13) b))) \<and>
    ((\<forall>b \<in> set (roots gs). \<not> sized 1 (\<lambda>n. n \<le> 12) b) \<longrightarrow> imsi (vps v) = imsi (vps (pe_state E)))"
  using ParseImsi_items [OF assms] got_imsi.collects_roots [OF assms(2)] by (fastforce simp: on_ps_def filter_empty_conv)

definition demo_proxy_env :: "nat \<Rightarrow> proxy_env" where
  "demo_proxy_env len = \<lparr>pe_select = (\<lambda>_. None), pe_select_n = (\<lambda>_. Some (1, [[''3'']])), pe_pton = (\<lambda>_. Some [10, 0, 0, 9]),
     pe_turn = (\<lambda>_. Sendto (int len)), pe_sockname = Some 0, pe_malloc = (\<lambda>_. True), pe_stale = False, pe_now = 1000, pe_pid = 1,
     pe_junk = (\<lambda>_. 0), pe_state = zero_v1, pe_gid = 0, pe_sa = 0\<rparr>"

text \<open>A Create Session Request with an IMSI and the tunnel of the serving gateway, and an answer to it.\<close>

definition demo_subscribe_items :: "byte list list" where
  "demo_subscribe_items = [[1, 0, 8, 0, 0x44, 0x10, 0x32, 0x54, 0x76, 0x98, 0x10, 0xF2], [87, 0, 9, 0, 0x86, 1, 2, 3, 4, 10, 0, 0, 7]]"

definition demo_subscribe :: "byte list" where
  "demo_subscribe = [0x48, 32, 0, 33, 0, 0, 0, 0, 0, 0, 5, 0] @ concat demo_subscribe_items"

definition demo_answer :: "byte list" where
  "demo_answer = [0x48, 33, 0, 8, 1, 2, 3, 4, 0, 0, 5, 0]"

definition demo_proxy :: "datagram list \<Rightarrow> proxy" where
  "demo_proxy q = \<lparr>px_routes = \<lparr>grouproutes = [(3, [\<lparr>ri_host = ''10.0.0.9'', ri_cnt = 0, ri_port = 2123\<rparr>])], sgw_routes = [], sessions = [],
     stats = [], uptime = 0\<rparr>, px_ext = q, px_int = [], px_sts = [], px_out = [], px_leaked = 0, px_reload = 0, px_counter = 0,
     px_counter_session = 0\<rparr>"

lemma demo_subscribe_length: "proxy_length (buffer (pe_junk (demo_proxy_env 37)) demo_subscribe 8) = 37"
  by code_simp

lemma demo_subscribe_ok: "\<forall>g \<in> set (map Plain demo_subscribe_items). gitem_ok g"
  by code_simp

lemma demo_subscribe_carried: "carries (buffer (\<lambda>_. 0) demo_subscribe 37) (ucast (37 :: 32 word)) (map Plain demo_subscribe_items)"
  by code_simp

lemma demo_subscribe_parsed:
  "\<exists>v lost. ParseImsi (demo_proxy_env 37) (proxy_read (demo_proxy_env 37) demo_subscribe) 37 = Some (v, True, lost) \<and>
     take 4 (drop 5 (c_teid (vps v))) = [1, 2, 3, 4]"
proof -
  let ?E = "demo_proxy_env 37" and ?m = "proxy_read (demo_proxy_env 37) demo_subscribe" and ?gs = "map Plain demo_subscribe_items"
  have m: "?m = buffer (\<lambda>_. 0) demo_subscribe 37"
    by (simp only: proxy_read_def demo_subscribe_length) (simp add: demo_proxy_env_def)
  note g = demo_subscribe_ok
  have "carries ?m (ucast (37 :: 32 word)) ?gs" unfolding m by (rule demo_subscribe_carried)
  from ParseImsi_items [OF this g, of ?E]
  obtain lost where l: "ParseImsi ?E ?m 37 = Some (on_ps (parse_items_of (pe_junk ?E) ?gs) (pe_state ?E), True, lost)"
    by (auto simp: demo_proxy_env_def roots_def demo_subscribe_items_def sized_def)
  have z: "vps (pe_state ?E) = zero_state" by (simp add: demo_proxy_env_def zero_v1_def zero_session_def)
  have "c_teid (parse_items_of (pe_junk ?E) ?gs zero_state) = put (zeros 25) (demo_subscribe_items ! 1)"
    using got_c_teid.collects_roots [OF g] by (simp add: zero_state_def roots_def demo_subscribe_items_def sized_def)
  then have "take 4 (drop 5 (c_teid (parse_items_of (pe_junk ?E) ?gs zero_state))) = [1, 2, 3, 4]"
    by (simp add: put_def demo_subscribe_items_def)
  then show ?thesis using l by (simp add: on_ps_def z)
qed

lemma demo_subscribe_request: "\<exists>im. request (demo_proxy_env 37) demo_subscribe = Some (im, 0x50000, 0x04030201)"
proof -
  let ?E = "demo_proxy_env 37"
  have m: "proxy_read ?E demo_subscribe = buffer (\<lambda>_. 0) demo_subscribe 37"
    by (simp only: proxy_read_def demo_subscribe_length) (simp add: demo_proxy_env_def)
  have r: "proxy_readable ?E demo_subscribe" by code_simp
  have t: "proxy_type_ok 32 (buffer (\<lambda>_. 0) demo_subscribe 37)" "buffer (\<lambda>_. 0) demo_subscribe 37 1 \<noteq> 1"
    "ld32 (buffer (\<lambda>_. 0) demo_subscribe 37) 8 AND 0xFFFFFF = 0x50000" "word_le [1, 2, 3, 4] = (0x04030201 :: 32 word)" by code_simp+
  from demo_subscribe_parsed obtain v lost where
    "ParseImsi ?E (buffer (\<lambda>_. 0) demo_subscribe 37) 37 = Some (v, True, lost)" "take 4 (drop 5 (c_teid (vps v))) = [1, 2, 3, 4]"
    unfolding m by blast
  then show ?thesis using r t by (simp add: request_def m demo_subscribe_length)
qed

lemma demo_atoi: "atoi ''3'' = 3"
  by (simp add: atoi_def strtoul_def is_space_def is_digit_def dec_val_def digit_val_def)

lemma demo_proxy_sends: "proxy_sends (demo_proxy_env 37) demo_subscribe" "proxy_sends (demo_proxy_env 12) demo_answer"
  "answer (demo_proxy_env 12) 0x50000 0x04030201 demo_answer"
  by code_simp+

lemma demo_gateway: "gateway (demo_proxy_env 37) (px_routes (demo_proxy q)) im = Some (demo_sockaddr 9)"
proof -
  have z: "zeros 8 = [0, 0, 0, 0, 0, 0, 0, 0]" by (simp add: zeros_def numeral_eq_Suc)
  show ?thesis
    by (simp add: gateway_def FindGroupByImsi_def Select_def demo_proxy_env_def demo_proxy_def demo_atoi FindInternlRouteByGroupFromCache_def
        demo_sockaddr_def be16_def byte_of_def z)
qed

lemma demo_first_step:
  "\<exists>s1. proxy_step (demo_proxy_env 37, Readable EXTSOCK) (demo_proxy [(demo_subscribe, demo_sockaddr 7)]) = Some s1 \<and> px_int s1 = []"
proof -
  obtain im where r: "request (demo_proxy_env 37) demo_subscribe = Some (im, 0x50000, 0x04030201)" using demo_subscribe_request by blast
  have q: "px_ext (demo_proxy [(demo_subscribe, demo_sockaddr 7)]) = [(demo_subscribe, demo_sockaddr 7)]"
    "px_int (demo_proxy [(demo_subscribe, demo_sockaddr 7)]) = []" by (simp_all add: demo_proxy_def)
  show ?thesis using ext_request [OF q(1) r demo_gateway demo_proxy_sends(1)] q(2) by auto
qed

theorem proxy_answers_requester_witness:
  "\<exists>s1 s2 s3. proxy_step (demo_proxy_env 37, Readable EXTSOCK) (demo_proxy [(demo_subscribe, demo_sockaddr 7)]) = Some s1 \<and>
     proxy_step (demo_proxy_env 0, Arrive INTSOCK (demo_answer, demo_sockaddr 9)) s1 = Some s2 \<and>
     proxy_step (demo_proxy_env 12, Readable INTSOCK) s2 = Some s3 \<and>
     map (\<lambda>(sock, dst, b). (sock, dst)) (px_out s3) = [(INTSOCK, demo_sockaddr 9), (EXTSOCK, demo_sockaddr 7)]"
proof -
  let ?E = "demo_proxy_env 37" and ?E' = "demo_proxy_env 12" and ?s = "demo_proxy [(demo_subscribe, demo_sockaddr 7)]"
  let ?e = "(demo_proxy_env 0, Arrive INTSOCK (demo_answer, demo_sockaddr 9))"
  obtain im where r: "request ?E demo_subscribe = Some (im, 0x50000, 0x04030201)" using demo_subscribe_request by blast
  have q: "px_ext ?s = [(demo_subscribe, demo_sockaddr 7)]" "px_out ?s = []" by (simp_all add: demo_proxy_def)
  note g = demo_gateway and sends = demo_proxy_sends
  obtain s1 where s1: "proxy_step (?E, Readable EXTSOCK) ?s = Some s1" "px_int s1 = []" using demo_first_step by blast
  define s2 where "s2 = s1\<lparr>px_int := px_int s1 @ [(demo_answer, demo_sockaddr 9)]\<rparr>"
  have s2: "proxy_run [?e] s1 = Some s2" "proxy_step ?e s1 = Some s2" "px_out s2 = px_out s1" by (simp_all add: s2_def)
  have i: "px_int s2 = [(demo_answer, demo_sockaddr 9)]" using s1(2) by (simp add: s2_def)
  from proxy_answers_requester [OF q(1) r g sends(1) s1(1) s2(1) i sends(3,2)] s1 s2(2,3) q(2)
  show ?thesis by (auto simp: demo_proxy_def FindSessionBySeqnoTeid_def)
qed

theorem proxy_parser_trusts_stack_witness:
  "\<exists>v v' lost lost'. carries (mem_of 0 [0x48, 32, 0, 8, 0, 0, 0, 0, 0, 0, 5, 0]) (ucast (12 :: 32 word)) [] \<and>
     ParseImsi (demo_proxy_env 12) (mem_of 0 [0x48, 32, 0, 8, 0, 0, 0, 0, 0, 0, 5, 0]) 12 = Some (v, False, lost) \<and>
     ParseImsi ((demo_proxy_env 12)\<lparr>pe_state := on_ps (\<lambda>cs. cs\<lparr>flag := - 1\<rparr>) zero_v1\<rparr>) (mem_of 0 [0x48, 32, 0, 8, 0, 0, 0, 0, 0, 0, 5, 0]) 12 =
       Some (v', True, lost')"
proof -
  let ?m = "mem_of 0 [0x48, 32, 0, 8, 0, 0, 0, 0, 0, 0, 5, 0]" and ?E = "demo_proxy_env 12"
  let ?E' = "?E\<lparr>pe_state := on_ps (\<lambda>cs. cs\<lparr>flag := - 1\<rparr>) zero_v1\<rparr>"
  have c: "carries ?m (ucast (12 :: 32 word)) []" by code_simp
  have n: "\<forall>g \<in> set []. gitem_ok g" by simp
  have k: "pe_malloc ?E k" "pe_malloc ?E' k" for k by (simp_all add: demo_proxy_env_def)
  have b: "flag (vps (pe_state ?E)) = 0" "flag (vps (pe_state ?E')) = - 1"
    by (simp_all add: demo_proxy_env_def zero_v1_def zero_session_def zero_state_def on_ps_def)
  from proxy_parser_trusts_stack [OF c n, of ?E] proxy_parser_trusts_stack [OF c n, of ?E'] c k b
  show ?thesis by (auto simp: roots_def)
qed

section \<open>A datagram that is not taken\<close>

text \<open>A header that fails the checks, whatever else is in memory.\<close>

definition bad_header :: "byte list \<Rightarrow> bool" where
  "bad_header d \<longleftrightarrow> 8 \<le> length d \<and> \<not> proxy_header_ok (buffer (\<lambda>_. 0) d 8)"

lemma buffer_head: "8 \<le> length d \<Longrightarrow> proxy_header_ok (buffer junk d 8) = proxy_header_ok (buffer (\<lambda>_. 0) d 8)"
proof -
  assume l: "8 \<le> length d"
  have "buffer junk d 8 i = buffer (\<lambda>_. 0) d 8 i" if "i < 8" for i using that l by (simp add: buffer_def)
  then show ?thesis by (simp add: proxy_header_ok_def claimed_length_def gtpc_validate_header_def ldn16_def ld16_def)
qed

definition ext_stuck :: "datagram list \<Rightarrow> proxy \<Rightarrow> proxy \<Rightarrow> bool" where
  "ext_stuck q s s' \<longleftrightarrow> (\<exists>q'. px_ext s' = q @ q') \<and> sessions (px_routes s') = sessions (px_routes s)"

lemma step_stuck:
  assumes "proxy_step e s = Some s'" "px_ext s = q @ q'" "q = (d, src) # qr" "bad_header d"
  shows "ext_stuck q s s'"
proof -
  obtain E ev where e: "e = (E, ev)" by (cases e)
  have h: "\<not> proxy_header_ok (buffer junk d 8)" "\<not> length d < 8" for junk using assms(4) buffer_head [of d junk] by (simp_all add: bad_header_def)
  have ext: "ext_stuck q s t" if "OnRecieveExt E s = Some t" for t
    using that h(2) by (auto simp: OnRecieveExt_def assms(2,3) h(1) ext_stuck_def)
  have int: "px_ext t = px_ext s \<and> sessions (px_routes t) = sessions (px_routes s)" if "OnRecieveInt E s = Some t" for t
    using that by (auto simp: OnRecieveInt_def int_forward_def Let_def proxy_send_out split: if_splits list.splits option.splits)
  have "px_ext (OnRecieveStats E s) = px_ext s \<and> sessions (px_routes (OnRecieveStats E s)) = sessions (px_routes s)"
    "px_ext (OnTimeOut E s) = px_ext s \<and> sessions (px_routes (OnTimeOut E s)) = sessions (px_routes s)"
    by (auto simp: OnRecieveStats_def OnTimeOut_def Let_def proxy_send_out split: list.splits)
  then show ?thesis using assms(1,2) ext int unfolding e
    by (cases "((E, ev), s)" rule: proxy_step.cases) (auto simp: ext_stuck_def Signal_def)
qed

text \<open>C23: One bad datagram closes the proxy. The callback only peeks at a datagram before its header is checked, and leaves one that fails the checks in the
  socket: after any run of events it is still the first, everything that came after it still waits, and no session has been added.\<close>

theorem bad_datagram_blocks_proxy:
  assumes "px_ext s = (d, src) # q" "bad_header d" "proxy_run es s = Some s'"
  shows "\<exists>q'. px_ext s' = ((d, src) # q) @ q' \<and> sessions (px_routes s') = sessions (px_routes s)"
proof -
  have "\<exists>q''. px_ext s = ((d, src) # q) @ q''" using assms(1) by simp
  with assms(3) have "ext_stuck ((d, src) # q) s s'"
  proof (induction es arbitrary: s)
    case (Cons e es)
    then obtain t where t: "proxy_step e s = Some t" "proxy_run es t = Some s'" by (auto split: option.splits)
    have k: "ext_stuck ((d, src) # q) s t" using step_stuck [OF t(1) _ refl assms(2)] Cons.prems(2) by blast
    then have "ext_stuck ((d, src) # q) t s'" using Cons.IH [OF t(2)] by (auto simp: ext_stuck_def)
    with k show ?case by (simp add: ext_stuck_def)
  qed (auto simp: ext_stuck_def)
  then show ?thesis by (auto simp: ext_stuck_def)
qed

theorem bad_datagram_blocks_proxy_witness:
  "\<exists>s' q'. bad_header [0x40, 200, 0, 4, 0, 0, 0, 0] \<and>
     proxy_run [(demo_proxy_env 37, Readable EXTSOCK), (demo_proxy_env 37, TimeOut), (demo_proxy_env 37, Readable EXTSOCK)]
       (demo_proxy [([0x40, 200, 0, 4, 0, 0, 0, 0], demo_sockaddr 8), (demo_subscribe, demo_sockaddr 7)]) = Some s' \<and>
     px_ext s' = [([0x40, 200, 0, 4, 0, 0, 0, 0], demo_sockaddr 8), (demo_subscribe, demo_sockaddr 7)] @ q'"
proof -
  let ?d = "[0x40, 200, 0, 4, 0, 0, 0, 0] :: byte list" and ?es = "[(demo_proxy_env 37, Readable EXTSOCK), (demo_proxy_env 37, TimeOut), (demo_proxy_env 37, Readable EXTSOCK)]"
  let ?s = "demo_proxy [(?d, demo_sockaddr 8), (demo_subscribe, demo_sockaddr 7)]"
  have b: "bad_header ?d" by code_simp
  have h: "\<not> proxy_header_ok (buffer junk ?d 8)" for junk using b buffer_head [of ?d junk] by (simp add: bad_header_def)
  have st: "OnRecieveExt (demo_proxy_env 37) t =
      Some (on_routes (StatReject 1000 (src_ip (demo_sockaddr 8)) 0 8 0) t)" if "px_ext t = px_ext ?s" for t
    using that h by (simp add: OnRecieveExt_def demo_proxy_def demo_proxy_env_def)
  have "\<exists>s'. proxy_run ?es ?s = Some s'" by (simp add: st OnTimeOut_def Let_def demo_proxy_def)
  then obtain s' where r: "proxy_run ?es ?s = Some s'" ..
  have q: "px_ext ?s = (?d, demo_sockaddr 8) # [(demo_subscribe, demo_sockaddr 7)]" by (simp add: demo_proxy_def)
  from bad_datagram_blocks_proxy [OF q b r] b r show ?thesis by auto
qed

section \<open>Statistics\<close>

text \<open>Statistics by address are always zero. The entries are stored under the bare address, while a question looks for it in the upper half of the key: after
  any run of a proxy that started with empty statistics, every sum for a given address is 0, whatever was received from there.\<close>

theorem statistics_by_address_zero:
  assumes "stats (px_routes s) = []" "proxy_run es s = Some s'" "ip \<noteq> - 1" "ip \<noteq> 0" "e \<notin> {1, 2, 3, 4}"
  shows "StatCount pid now e ip grp (px_routes s') = 0"
proof -
  have "stat_keys_ok (px_routes s)" using assms(1) by (simp add: stat_keys_ok_def)
  with stat_keys.run_R [OF assms(2)] have "stat_keys_ok (px_routes s')" by blast
  from StatCount_filtered [OF this assms(3-5)] show ?thesis .
qed

theorem statistics_by_address_zero_witness:
  "\<exists>s'. proxy_run [(demo_proxy_env 37, Readable EXTSOCK)] (demo_proxy [(demo_subscribe, demo_sockaddr 7)]) = Some s' \<and>
     StatCount 1 1000 5 (src_ip (demo_sockaddr 7)) (- 1) (px_routes s') = 0"
proof -
  let ?s = "demo_proxy [(demo_subscribe, demo_sockaddr 7)]"
  obtain s1 where r: "proxy_run [(demo_proxy_env 37, Readable EXTSOCK)] ?s = Some s1"
    using demo_first_step by auto
  have ip: "src_ip (demo_sockaddr 7) \<noteq> - 1" "src_ip (demo_sockaddr 7) \<noteq> 0" by code_simp+
  have z: "stats (px_routes ?s) = []" by (simp add: demo_proxy_def)
  from statistics_by_address_zero [OF z r ip, of 5] r show ?thesis by auto
qed

end
