(* ===== verification/Bfd.thy ===== *)
theory Bfd
  imports Session_Table Gtpc_Items
begin

text \<open>
  Bidirectional Forwarding Detection (\<open>tools/src/lib_srv/bfd.cc\<close>, \<open>inc/lib/const/bfd.h\<close>): sessions with neighbours, the state machine that
  received control packets drive, and the thread that transmits. Every operation holds the lock of the manager; \<open>on_bfd_recieve\<close> may release it between
  looking for a session and using it, and takes it as one step here. The clock is a parameter. A connection is present or NULL; what is written to one is
  the output. Fields for authentication are never used and left out.
\<close>

section \<open>Packets\<close>

record bfd =
  b_diag :: byte
  b_vers :: byte
  b_multipoint :: bool
  b_demand :: bool
  b_auth :: bool
  b_cpi :: bool
  b_final :: bool
  b_poll :: bool
  b_state :: byte
  b_detect_mult :: byte
  b_length :: byte
  b_my_discr :: "32 word"
  b_your_discr :: "32 word"
  b_min_tx_int :: "32 word"
  b_min_rx_int :: "32 word"
  b_min_echo_rx_int :: "32 word"

abbreviation BFD_MINPKTLEN :: nat where "BFD_MINPKTLEN \<equiv> 24"
abbreviation BFDSTATE_ADMINDOWN :: byte where "BFDSTATE_ADMINDOWN \<equiv> 0"
abbreviation BFDSTATE_DOWN :: byte where "BFDSTATE_DOWN \<equiv> 1"
abbreviation BFDSTATE_INIT :: byte where "BFDSTATE_INIT \<equiv> 2"
abbreviation BFDSTATE_UP :: byte where "BFDSTATE_UP \<equiv> 3"
abbreviation BFDDIAG_NEIGHBORSAIDDOWN :: byte where "BFDDIAG_NEIGHBORSAIDDOWN \<equiv> 3"

text \<open>The fields of the 24 octets. Numbers are read as the machine reads them, without a change of byte order.\<close>

definition bfd_read :: "mem \<Rightarrow> bfd" where
  "bfd_read m = \<lparr>b_diag = m 0 AND 31, b_vers = drop_bit 5 (m 0), b_multipoint = bit (m 1) 0, b_demand = bit (m 1) 1, b_auth = bit (m 1) 2,
     b_cpi = bit (m 1) 3, b_final = bit (m 1) 4, b_poll = bit (m 1) 5, b_state = drop_bit 6 (m 1), b_detect_mult = m 2, b_length = m 3,
     b_my_discr = ld32 m 4, b_your_discr = ld32 m 8, b_min_tx_int = ld32 m 12, b_min_rx_int = ld32 m 16, b_min_echo_rx_int = ld32 m 20\<rparr>"

definition bfd_flags :: "bfd \<Rightarrow> byte" where
  "bfd_flags b =
     push_bit 6 (b_state b) OR (if b_poll b then 32 else 0) OR (if b_final b then 16 else 0) OR (if b_cpi b then 8 else 0) OR
     (if b_auth b then 4 else 0) OR (if b_demand b then 2 else 0) OR (if b_multipoint b then 1 else 0)"

definition bfd_octets :: "bfd \<Rightarrow> byte list" where
  "bfd_octets b =
     [push_bit 5 (b_vers b) OR (b_diag b AND 31), bfd_flags b, b_detect_mult b, b_length b] @
     le32 (b_my_discr b) @ le32 (b_your_discr b) @ le32 (b_min_tx_int b) @ le32 (b_min_rx_int b) @ le32 (b_min_echo_rx_int b)"

section \<open>Sessions\<close>

record bfd_session =
  session_state :: byte
  remote_session_state :: byte
  local_discr :: "32 word"
  remote_discr :: "32 word"
  local_diag :: byte
  desired_min_tx :: "32 word"
  required_min_rx :: "32 word"
  remote_min_rx :: "32 word"
  remote_demand_mode :: bool
  s_detect_mult :: byte
  must_cease_tx_echo :: bool
  must_terminate :: bool
  detect_time :: "64 word"
  pollbit_on :: bool
  received_min_rx :: "32 word"
  peer_addr :: "32 word"
  peer_port :: "16 word"
  conn :: bool

definition BfdSession :: "32 word \<Rightarrow> 16 word \<Rightarrow> bfd_session" where
  "BfdSession ip port = \<lparr>session_state = BFDSTATE_DOWN, remote_session_state = BFDSTATE_DOWN, local_discr = 0, remote_discr = 0, local_diag = 0,
     desired_min_tx = 1000000, required_min_rx = 1000000, remote_min_rx = 0, remote_demand_mode = False, s_detect_mult = 3,
     must_cease_tx_echo = False, must_terminate = False, detect_time = 0, pollbit_on = False, received_min_rx = 0, peer_addr = ip, peer_port = port,
     conn = False\<rparr>"

text \<open>A \<open>std::map\<close> is a list in the order of its keys; \<open>released\<close> counts the connections given back.\<close>

fun map_put :: "('k :: linorder) \<Rightarrow> 'v \<Rightarrow> ('k \<times> 'v) list \<Rightarrow> ('k \<times> 'v) list" where
  "map_put k v [] = [(k, v)]"
| "map_put k v (x # m) = (if k = fst x then (k, v) # m else if k < fst x then (k, v) # x # m else x # map_put k v m)"

definition map_erase :: "'k \<Rightarrow> ('k \<times> 'v) list \<Rightarrow> ('k \<times> 'v) list" where
  "map_erase k m = filter (\<lambda>x. fst x \<noteq> k) m"

record bfd_manager =
  bfd_sessions :: "(64 word \<times> bfd_session) list"
  discriminator_incr :: "32 word"
  bfd_out :: "(32 word \<times> byte list) list"
  released :: nat

definition MAKE_ULL :: "32 word \<Rightarrow> 16 word \<Rightarrow> 64 word" where
  "MAKE_ULL hi lo = push_bit 32 (ucast hi) OR ucast lo"

definition put_session :: "64 word \<Rightarrow> bfd_session \<Rightarrow> bfd_manager \<Rightarrow> bfd_manager" where
  "put_session k s M = M\<lparr>bfd_sessions := map_put k s (bfd_sessions M)\<rparr>"

definition subscribe :: "32 word \<Rightarrow> 16 word \<Rightarrow> bfd_manager \<Rightarrow> bfd_manager" where
  "subscribe ip port M = put_session (MAKE_ULL ip port) (BfdSession ip port) M"

definition find_unsafe :: "bfd_manager \<Rightarrow> 64 word \<Rightarrow> bfd_session option" where
  "find_unsafe M k = map_of (bfd_sessions M) k"

definition unsubscribe :: "bfd_manager \<Rightarrow> 64 word \<Rightarrow> bfd_manager" where
  "unsubscribe M k =
     (case find_unsafe M k of None \<Rightarrow> M
      | Some s \<Rightarrow> M\<lparr>bfd_sessions := map_erase k (bfd_sessions M), released := released M + (if conn s then 1 else 0)\<rparr>)"

section \<open>Transmission\<close>

definition bfd_packet :: "bfd_session \<Rightarrow> bfd" where
  "bfd_packet s = \<lparr>b_diag = local_diag s AND 31, b_vers = 1, b_multipoint = False, b_demand = False, b_auth = False, b_cpi = True,
     b_final = pollbit_on s, b_poll = False, b_state = (if local_discr s \<noteq> 0 then session_state s else BFDSTATE_DOWN),
     b_detect_mult = s_detect_mult s, b_length = 24, b_my_discr = local_discr s, b_your_discr = remote_discr s,
     b_min_tx_int = bswap32 (desired_min_tx s), b_min_rx_int = bswap32 (required_min_rx s), b_min_echo_rx_int = bswap32 (received_min_rx s)\<rparr>"

definition sendudp :: "bfd_session \<Rightarrow> byte list \<Rightarrow> bfd_manager \<Rightarrow> bfd_manager" where
  "sendudp s data M = (if conn s then M\<lparr>bfd_out := bfd_out M @ [(peer_addr s, data)]\<rparr> else M)"

definition transmit_unsafe :: "bfd_session \<Rightarrow> bfd_manager \<Rightarrow> bfd_manager" where
  "transmit_unsafe s M =
     (let b = bfd_packet s in
      if (b_your_discr b = 0 \<or> b_my_discr b = 0) \<and> b_state b \<noteq> BFDSTATE_DOWN then M else sendudp s (bfd_octets b) M)"

text \<open>One round of the thread.\<close>

definition bfd_due :: "64 word \<Rightarrow> bfd_session \<Rightarrow> bool" where
  "bfd_due curms s \<longleftrightarrow>
     detect_time s > curms \<and> \<not> must_cease_tx_echo s \<and> \<not> must_terminate s \<and> remote_discr s \<noteq> 0 \<and> remote_min_rx s \<noteq> 0"

definition on_bfd_thread :: "64 word \<Rightarrow> bfd_manager \<Rightarrow> bfd_manager" where
  "on_bfd_thread curms M = foldl (\<lambda>M s. if bfd_due curms s then transmit_unsafe s M else M) M (map snd (bfd_sessions M))"

section \<open>Reception\<close>

definition bfd_accepted :: "nat \<Rightarrow> bfd \<Rightarrow> bool" where
  "bfd_accepted len b \<longleftrightarrow>
     len = BFD_MINPKTLEN \<and> \<not> b_multipoint b \<and> b_vers b = 1 \<and> \<not> b_auth b \<and> b_my_discr b \<noteq> 0 \<and> b_detect_mult b \<noteq> 0 \<and>
     \<not> (b_your_discr b = 0 \<and> \<not> (b_state b = BFDSTATE_DOWN \<or> b_state b = BFDSTATE_ADMINDOWN))"

text \<open>The connection is made with the first packet, and a discriminator drawn for it.\<close>

definition bfd_connect :: "bfd_session \<Rightarrow> bfd_manager \<Rightarrow> bfd_session \<times> bfd_manager" where
  "bfd_connect s M =
     (if conn s then (s, M)
      else let n = discriminator_incr M + 1 in
        (s\<lparr>conn := True, local_discr := bswap32 n\<rparr>, M\<lparr>discriminator_incr := (if n > 0x7fffffff then 0 else n)\<rparr>))"

text \<open>What is noted of a packet. The product of the detection time has 32 bits.\<close>

definition bfd_note :: "64 word \<Rightarrow> bfd \<Rightarrow> bfd_session \<Rightarrow> bfd_session" where
  "bfd_note curms b s =
     s\<lparr>remote_session_state := b_state b, remote_demand_mode := b_demand b, remote_discr := b_my_discr b, remote_min_rx := b_min_rx_int b,
       received_min_rx := min (received_min_rx s) (b_min_rx_int b), must_terminate := must_terminate s \<or> b_final b,
       detect_time := curms + ucast (ucast (b_detect_mult b) * max (b_min_rx_int b) (desired_min_tx s))\<rparr>"

definition bfd_transition :: "bfd_session \<Rightarrow> bfd_session" where
  "bfd_transition s =
     (if remote_session_state s = BFDSTATE_ADMINDOWN then
        (if session_state s \<noteq> BFDSTATE_DOWN then s\<lparr>local_diag := BFDDIAG_NEIGHBORSAIDDOWN, session_state := BFDSTATE_DOWN\<rparr> else s)
      else if session_state s = BFDSTATE_DOWN then
        (if remote_session_state s = BFDSTATE_DOWN then s\<lparr>session_state := BFDSTATE_INIT\<rparr>
         else if remote_session_state s = BFDSTATE_INIT then s\<lparr>session_state := BFDSTATE_UP\<rparr> else s)
      else if session_state s = BFDSTATE_INIT then
        (if remote_session_state s = BFDSTATE_INIT \<or> remote_session_state s = BFDSTATE_UP then s\<lparr>session_state := BFDSTATE_UP\<rparr>
         else s\<lparr>session_state := BFDSTATE_DOWN, remote_discr := 0\<rparr>)
      else if remote_session_state s = BFDSTATE_DOWN then s\<lparr>local_diag := BFDDIAG_NEIGHBORSAIDDOWN, session_state := BFDSTATE_DOWN\<rparr>
      else s)"

definition bfd_session_packet :: "64 word \<Rightarrow> bfd \<Rightarrow> 64 word \<Rightarrow> bfd_session \<Rightarrow> bfd_manager \<Rightarrow> bfd_manager" where
  "bfd_session_packet curms b k s M =
     (let (s, M) = bfd_connect s M; s = bfd_note curms b s in
      if session_state s = BFDSTATE_ADMINDOWN then put_session k s M
      else let s = bfd_transition s in
        if b_poll b then let s = s\<lparr>pollbit_on := True\<rparr> in transmit_unsafe s (put_session k s M) else put_session k s M)"

definition on_bfd_recieve :: "64 word \<Rightarrow> 32 word \<Rightarrow> 16 word \<Rightarrow> byte list \<Rightarrow> bfd_manager \<Rightarrow> bfd_manager" where
  "on_bfd_recieve curms ip port payload M =
     (let b = bfd_read (\<lambda>i. payload ! i); k = MAKE_ULL ip port in
      if length payload \<noteq> BFD_MINPKTLEN \<or> \<not> bfd_accepted (length payload) b then M
      else if b_your_discr b \<noteq> 0 \<and> find_unsafe M k = None then
        let s = (BfdSession ip port)\<lparr>remote_discr := b_my_discr b, local_discr := b_your_discr b, session_state := BFDSTATE_DOWN\<rparr> in
        transmit_unsafe s (put_session k s M)
      else case find_unsafe M k of
        Some s \<Rightarrow> bfd_session_packet curms b k s M
      | None \<Rightarrow> if b_state b = BFDSTATE_DOWN then bfd_session_packet curms b k (BfdSession ip port) M else M)"

section \<open>The table of sessions\<close>

lemma map_of_put: "map_of (map_put k v m) = (map_of m)(k \<mapsto> v)"
  by (induction m) (auto simp: fun_eq_iff)

lemma map_of_erase: "map_of (map_erase k m) k' = (if k' = k then None else map_of m k')"
  by (induction m) (auto simp: map_erase_def)

lemma find_put: "find_unsafe (put_session k s M) k' = (if k' = k then Some s else find_unsafe M k')"
  by (simp add: find_unsafe_def put_session_def map_of_put)

lemma put_incr [simp]: "discriminator_incr (put_session k s M) = discriminator_incr M" "bfd_out (put_session k s M) = bfd_out M"
  by (simp_all add: put_session_def)

lemma find_unsubscribe: "find_unsafe (unsubscribe M k) k' = (if k' = k then None else find_unsafe M k')"
  by (simp add: unsubscribe_def find_unsafe_def map_of_erase split: option.split)

interpretation bfd_table: session_table "\<lambda>_. True" "\<lambda>_ _. True" find_unsafe "\<lambda>M k s. put_session k s M" unsubscribe id
  by unfold_locales (simp_all add: find_put find_unsubscribe)

lemma MAKE_ULL_inj: "MAKE_ULL a p = MAKE_ULL b q \<longleftrightarrow> a = b \<and> p = q"
proof
  assume e: "MAKE_ULL a p = MAKE_ULL b q"
  have bits: "bit (MAKE_ULL a p) n = (if n < 32 then bit p n else n < 64 \<and> bit a (n - 32))" for a :: "32 word" and p :: "16 word" and n
    by (auto simp: MAKE_ULL_def bit_simps dest: bit_imp_le_length)
  have "bit p n = bit q n" for n using bits [of a p n] bits [of b q n] e by (cases "n < 32") (auto dest: bit_imp_le_length)
  moreover have "bit a n = bit b n" for n
    using bits [of a p "n + 32"] bits [of b q "n + 32"] e by (cases "n < 32") (auto dest: bit_imp_le_length)
  ultimately show "a = b \<and> p = q" by (simp add: bit_eq_iff)
qed simp

lemma sendudp_find [simp]: "bfd_sessions (sendudp s d M) = bfd_sessions M" "discriminator_incr (sendudp s d M) = discriminator_incr M"
  by (simp_all add: sendudp_def)

lemma transmit_find [simp]:
  "bfd_sessions (transmit_unsafe s M) = bfd_sessions M" "find_unsafe (transmit_unsafe s M) k = find_unsafe M k"
  "discriminator_incr (transmit_unsafe s M) = discriminator_incr M"
  by (simp_all add: transmit_unsafe_def Let_def find_unsafe_def)

text \<open>The session after a packet; the others stay.\<close>

definition bfd_after :: "64 word \<Rightarrow> bfd \<Rightarrow> bfd_session \<Rightarrow> bfd_manager \<Rightarrow> bfd_session" where
  "bfd_after curms b s M =
     (let s = bfd_note curms b (fst (bfd_connect s M)) in
      if session_state s = BFDSTATE_ADMINDOWN then s
      else (bfd_transition s)\<lparr>pollbit_on := b_poll b \<or> pollbit_on s\<rparr>)"

lemma connect_sessions [simp]: "find_unsafe (snd (bfd_connect s M)) k = find_unsafe M k"
  by (simp add: bfd_connect_def find_unsafe_def Let_def)

lemma transition_poll: "pollbit_on (bfd_transition s) = pollbit_on s"
  by (simp add: bfd_transition_def)

lemma session_packet:
  "find_unsafe (bfd_session_packet curms b k s M) k' = (if k' = k then Some (bfd_after curms b s M) else find_unsafe M k')"
  "discriminator_incr (bfd_session_packet curms b k s M) = discriminator_incr (snd (bfd_connect s M))"
  by (auto simp: bfd_session_packet_def bfd_after_def Let_def case_prod_beta find_put put_incr transition_poll
      intro!: bfd_session.equality)

section \<open>The state machine\<close>

text \<open>RFC 5880, section 6.8.6.\<close>

definition rfc5880 :: "byte \<Rightarrow> byte \<Rightarrow> byte" where
  "rfc5880 st received =
     (if st = BFDSTATE_ADMINDOWN then st
      else if received = BFDSTATE_ADMINDOWN then BFDSTATE_DOWN
      else if st = BFDSTATE_DOWN then
        (if received = BFDSTATE_DOWN then BFDSTATE_INIT else if received = BFDSTATE_INIT then BFDSTATE_UP else st)
      else if st = BFDSTATE_INIT then (if received = BFDSTATE_INIT \<or> received = BFDSTATE_UP then BFDSTATE_UP else st)
      else if received = BFDSTATE_DOWN then BFDSTATE_DOWN else st)"

lemma connect_state [simp]: "session_state (fst (bfd_connect s M)) = session_state s"
  by (simp add: bfd_connect_def Let_def)

lemma note_state [simp]: "session_state (bfd_note t b s) = session_state s" "remote_session_state (bfd_note t b s) = b_state b"
  by (simp_all add: bfd_note_def)

lemma bfd_state_lt: "b_state (bfd_read m) \<in> {0, 1, 2, 3}"
proof -
  have "unat (m 1) < 2 ^ LENGTH(8)" by (rule unsigned_less)
  then have "drop_bit 6 (unat (m 1)) < 4" by (simp add: drop_bit_eq_div)
  then have "unat (drop_bit 6 (m 1)) < 4" by (simp only: unat_drop_bit_eq)
  then have "unat (drop_bit 6 (m 1)) \<in> {0, 1, 2, 3}" by auto
  then show ?thesis by (auto simp: bfd_read_def word_unat_eq_iff)
qed

lemma after_state:
  assumes "b_state b \<in> {0, 1, 2, 3}"
  shows "session_state (bfd_after t b s M) =
    (if session_state s = BFDSTATE_INIT \<and> b_state b = BFDSTATE_DOWN then BFDSTATE_DOWN else rfc5880 (session_state s) (b_state b))"
  using assms by (auto simp: bfd_after_def Let_def rfc5880_def bfd_transition_def)

lemma recieve_known:
  assumes "find_unsafe M (MAKE_ULL ip port) = Some s" "bfd_accepted (length d) (bfd_read (\<lambda>i. d ! i))"
  shows "on_bfd_recieve t ip port d M = bfd_session_packet t (bfd_read (\<lambda>i. d ! i)) (MAKE_ULL ip port) s M"
  using assms by (auto simp: on_bfd_recieve_def Let_def bfd_accepted_def)

text \<open>C24: Received packets drive the state machine of RFC 5880, but for one transition. For a session that exists, every packet the checks let pass moves the
  state as section 6.8.6 of the RFC says - except that Down received in state Init leads back to Down instead of being ignored - and no other session
  changes.\<close>

theorem bfd_state_machine:
  assumes "find_unsafe M (MAKE_ULL ip port) = Some s" "bfd_accepted (length d) (bfd_read (\<lambda>i. d ! i))"
  shows "\<exists>s'. find_unsafe (on_bfd_recieve t ip port d M) (MAKE_ULL ip port) = Some s' \<and>
    (let rcv = b_state (bfd_read (\<lambda>i. d ! i)) in
     session_state s' = (if session_state s = BFDSTATE_INIT \<and> rcv = BFDSTATE_DOWN then BFDSTATE_DOWN else rfc5880 (session_state s) rcv)) \<and>
    (\<forall>k. k \<noteq> MAKE_ULL ip port \<longrightarrow> find_unsafe (on_bfd_recieve t ip port d M) k = find_unsafe M k)"
  by (simp add: recieve_known [OF assms] session_packet after_state [OF bfd_state_lt] Let_def)

text \<open>Control packets for the witnesses: the state, the discriminators, the poll and final bits.\<close>

definition demo_bfd :: "byte \<Rightarrow> 32 word \<Rightarrow> 32 word \<Rightarrow> bool \<Rightarrow> bool \<Rightarrow> byte list" where
  "demo_bfd st my your poll final = bfd_octets \<lparr>b_diag = 0, b_vers = 1, b_multipoint = False, b_demand = False, b_auth = False, b_cpi = False,
     b_final = final, b_poll = poll, b_state = st, b_detect_mult = 3, b_length = 24, b_my_discr = my, b_your_discr = your,
     b_min_tx_int = bswap32 1000000, b_min_rx_int = bswap32 1000000, b_min_echo_rx_int = 0\<rparr>"

definition empty_manager :: bfd_manager where
  "empty_manager = \<lparr>bfd_sessions = [], discriminator_incr = 0, bfd_out = [], released = 0\<rparr>"

theorem bfd_state_machine_witness:
  "\<exists>s'. find_unsafe (on_bfd_recieve 5 10 3784 (demo_bfd BFDSTATE_DOWN 7 0 False False) (subscribe 10 3784 empty_manager)) (MAKE_ULL 10 3784) = Some s' \<and>
     session_state s' = BFDSTATE_INIT"
proof -
  let ?d = "demo_bfd BFDSTATE_DOWN 7 0 False False"
  have f: "find_unsafe (subscribe 10 3784 empty_manager) (MAKE_ULL 10 3784) = Some (BfdSession 10 3784)"
    by (simp add: subscribe_def find_put)
  have a: "bfd_accepted (length ?d) (bfd_read (\<lambda>i. ?d ! i))" "b_state (bfd_read (\<lambda>i. ?d ! i)) = BFDSTATE_DOWN" by code_simp+
  from bfd_state_machine [OF f a(1), of 5] a(2) show ?thesis by (auto simp: rfc5880_def BfdSession_def Let_def)
qed

section \<open>Runs\<close>

datatype bfd_event = Recieve "64 word" "32 word" "16 word" "byte list" | Round "64 word" | Subscribe "32 word" "16 word" | Unsubscribe "32 word" "16 word"

fun bfd_step :: "bfd_manager \<Rightarrow> bfd_event \<Rightarrow> bfd_manager" where
  "bfd_step M (Recieve t ip port d) = on_bfd_recieve t ip port d M"
| "bfd_step M (Round t) = on_bfd_thread t M"
| "bfd_step M (Subscribe ip port) = subscribe ip port M"
| "bfd_step M (Unsubscribe ip port) = unsubscribe M (MAKE_ULL ip port)"

lemma thread_sessions [simp]:
  "bfd_sessions (on_bfd_thread t M) = bfd_sessions M" "discriminator_incr (on_bfd_thread t M) = discriminator_incr M"
proof -
  have "bfd_sessions (foldl (\<lambda>M s. if P s then transmit_unsafe s M else M) N xs) = bfd_sessions N \<and>
    discriminator_incr (foldl (\<lambda>M s. if P s then transmit_unsafe s M else M) N xs) = discriminator_incr N" for P N xs
    by (induction xs arbitrary: N) simp_all
  then show "bfd_sessions (on_bfd_thread t M) = bfd_sessions M" "discriminator_incr (on_bfd_thread t M) = discriminator_incr M"
    by (simp_all add: on_bfd_thread_def)
qed

lemma thread_silent: "\<forall>(k, s) \<in> set (bfd_sessions M). detect_time s \<le> t \<Longrightarrow> on_bfd_thread t M = M"
proof -
  assume "\<forall>(k, s) \<in> set (bfd_sessions M). detect_time s \<le> t"
  then have "\<forall>s \<in> set (map snd (bfd_sessions M)). \<not> bfd_due t s" by (force simp: bfd_due_def)
  moreover have "foldl (\<lambda>M s. if bfd_due t s then transmit_unsafe s M else M) N xs = N" if "\<forall>s \<in> set xs. \<not> bfd_due t s" for N xs
    using that by (induction xs arbitrary: N) simp_all
  ultimately show ?thesis by (simp add: on_bfd_thread_def)
qed

text \<open>A lost neighbour is never noticed. However many rounds the thread makes, without a packet no session changes its state, also long after its detection
  time; and once the detection times of all sessions have passed, nothing is transmitted any more.\<close>

theorem lost_neighbour_stays_up:
  assumes "\<forall>e \<in> set es. \<exists>t. e = Round t"
  shows "bfd_sessions (foldl bfd_step M es) = bfd_sessions M \<and>
    ((\<forall>t. Round t \<in> set es \<longrightarrow> (\<forall>(k, s) \<in> set (bfd_sessions M). detect_time s \<le> t)) \<longrightarrow> bfd_out (foldl bfd_step M es) = bfd_out M)"
  using assms
proof (induction es arbitrary: M)
  case (Cons e es)
  then obtain t where e: "e = Round t" by auto
  have "bfd_out (foldl bfd_step (on_bfd_thread t M) es) = bfd_out M"
    if *: "\<forall>t'. Round t' \<in> set (e # es) \<longrightarrow> (\<forall>(k, s) \<in> set (bfd_sessions M). detect_time s \<le> t')"
  proof -
    have "on_bfd_thread t M = M" using * e by (intro thread_silent) auto
    then show ?thesis using Cons.IH [of M] Cons.prems * by simp
  qed
  with Cons.IH [of "on_bfd_thread t M"] Cons.prems show ?case by (simp add: e)
qed simp

theorem lost_neighbour_stays_up_witness:
  "let M = put_session (MAKE_ULL 10 3784) ((BfdSession 10 3784)\<lparr>session_state := BFDSTATE_UP, detect_time := 9\<rparr>) empty_manager in
     map_option session_state (find_unsafe (foldl bfd_step M [Round 100, Round 200]) (MAKE_ULL 10 3784)) = Some BFDSTATE_UP \<and>
     bfd_out (foldl bfd_step M [Round 100, Round 200]) = []"
proof -
  let ?M = "put_session (MAKE_ULL 10 3784) ((BfdSession 10 3784)\<lparr>session_state := BFDSTATE_UP, detect_time := 9\<rparr>) empty_manager"
  have "\<forall>e \<in> set [Round 100, Round 200]. \<exists>t. e = Round t" by simp
  from lost_neighbour_stays_up [OF this, of ?M] show ?thesis
    by (auto simp: Let_def find_unsafe_def put_session_def empty_manager_def)
qed

section \<open>Discriminators\<close>

text \<open>The numbers drawn so far bound those in use, which differ.\<close>

definition discr_ok :: "bfd_manager \<Rightarrow> bool" where
  "discr_ok M \<longleftrightarrow>
     (\<forall>k s. find_unsafe M k = Some s \<longrightarrow> conn s \<longrightarrow> 0 < bswap32 (local_discr s) \<and> bswap32 (local_discr s) \<le> discriminator_incr M) \<and>
     (\<forall>k s k' s'. find_unsafe M k = Some s \<longrightarrow> find_unsafe M k' = Some s' \<longrightarrow> conn s \<longrightarrow> conn s' \<longrightarrow> local_discr s = local_discr s' \<longrightarrow> k = k')"

lemma after_discr: "conn (bfd_after t b s M)"
  "local_discr (bfd_after t b s M) = (if conn s then local_discr s else bswap32 (discriminator_incr M + 1))"
  by (simp_all add: bfd_after_def Let_def bfd_transition_def bfd_note_def bfd_connect_def)

lemma connect_incr:
  "unat (discriminator_incr M) < 0x7fffffff \<Longrightarrow>
     discriminator_incr (snd (bfd_connect s M)) = (if conn s then discriminator_incr M else discriminator_incr M + 1)"
  by (simp add: bfd_connect_def Let_def word_less_nat_alt unat_word_ariths)

lemma session_packet_discr:
  assumes "discr_ok M" "unat (discriminator_incr M) < 0x7fffffff" "find_unsafe M k = Some s \<or> \<not> conn s"
  shows "discr_ok (bfd_session_packet t b k s M)"
proof -
  let ?n = "discriminator_incr M"
  have gt: "?n < ?n + 1" "0 < ?n + 1" using assms(2) by (simp_all add: word_less_nat_alt unat_word_ariths)
  have old: "0 < bswap32 (local_discr s) \<and> bswap32 (local_discr s) \<le> ?n" if "find_unsafe M k = Some s" "conn s" for k s
    using assms(1) that by (auto simp: discr_ok_def)
  show ?thesis unfolding discr_ok_def session_packet connect_incr [OF assms(2)]
  proof (intro conjI allI impI)
    fix k' s' assume a: "(if k' = k then Some (bfd_after t b s M) else find_unsafe M k') = Some s'" "conn s'"
    then show "0 < bswap32 (local_discr s')" "bswap32 (local_discr s') \<le> (if conn s then ?n else ?n + 1)"
      using old assms(3) gt by (auto simp: after_discr split: if_splits intro: order_trans [OF _ less_imp_le [OF gt(1)]])
  next
    fix k1 s1 k2 s2
    assume a: "(if k1 = k then Some (bfd_after t b s M) else find_unsafe M k1) = Some s1"
      "(if k2 = k then Some (bfd_after t b s M) else find_unsafe M k2) = Some s2" "conn s1" "conn s2" "local_discr s1 = local_discr s2"
    have ne: "local_discr s' \<noteq> bswap32 (?n + 1)" if "find_unsafe M k' = Some s'" "conn s'" for k' s'
      using old [OF that] gt(1) by (metis bswap32_bswap32 leD)
    show "k1 = k2" using a ne [of k1 s1] ne [of k2 s2] assms(1,3) unfolding discr_ok_def by (auto simp: after_discr split: if_splits)
  qed
qed

lemma bfd_step_discr:
  assumes "discr_ok M" "unat (discriminator_incr M) < 0x7fffffff"
  shows "discr_ok (bfd_step M e) \<and> unat (discriminator_incr (bfd_step M e)) \<le> Suc (unat (discriminator_incr M))"
proof -
  have pk: "discr_ok (bfd_session_packet t b k s M)" "unat (discriminator_incr (bfd_session_packet t b k s M)) \<le> Suc (unat (discriminator_incr M))"
    if "find_unsafe M k = Some s \<or> \<not> conn s" for t b k s
    using session_packet_discr [OF assms that] assms(2) by (simp_all add: session_packet connect_incr unat_word_ariths)
  have put: "discr_ok (put_session k s M)" if "\<not> conn s" for k s
    using assms(1) that unfolding discr_ok_def by (auto simp: find_put)
  have new: "\<not> conn (BfdSession ip port)" for ip port by (simp add: BfdSession_def)
  have tr: "discr_ok (transmit_unsafe s N) = discr_ok N" for s N by (simp add: discr_ok_def)
  show ?thesis
  proof (cases e)
    case (Recieve t ip port d)
    then show ?thesis using assms(1) pk put new
      by (auto simp: on_bfd_recieve_def Let_def tr split: option.splits)
  next
    case (Unsubscribe ip port)
    have "discriminator_incr (unsubscribe M k) = discriminator_incr M" for k by (simp add: unsubscribe_def split: option.split)
    with Unsubscribe assms(1) show ?thesis unfolding discr_ok_def by (auto simp: find_unsubscribe)
  next
    case (Round t)
    then show ?thesis using assms(1) by (simp add: discr_ok_def find_unsafe_def)
  next
    case (Subscribe ip port)
    then show ?thesis using put [OF new] by (simp add: subscribe_def)
  qed
qed

text \<open>C25: Discriminators are unique: over any run of fewer than 2^31 - 1 events from an empty manager, sessions with a connection have discriminators that are
  not 0, and no two of them have the same.\<close>

theorem bfd_discriminators_unique:
  assumes "length es < 0x7fffffff" "M = foldl bfd_step empty_manager es"
    and "find_unsafe M k = Some s" "conn s"
  shows "local_discr s \<noteq> 0 \<and> (\<forall>k' s'. find_unsafe M k' = Some s' \<longrightarrow> conn s' \<longrightarrow> local_discr s' = local_discr s \<longrightarrow> k' = k)"
proof -
  have "discr_ok (foldl bfd_step empty_manager es) \<and> unat (discriminator_incr (foldl bfd_step empty_manager es)) \<le> length es"
    using assms(1)
  proof (induction es rule: rev_induct)
    case (snoc e es)
    then show ?case using bfd_step_discr [of "foldl bfd_step empty_manager es" e] by simp
  qed (simp add: discr_ok_def find_unsafe_def empty_manager_def)
  then have ok: "discr_ok M" by (simp add: assms(2))
  then have "0 < bswap32 (local_discr s)" using assms(3,4) by (simp add: discr_ok_def)
  then have "local_discr s \<noteq> 0" by (auto simp: bswap32_def byte_of_def mk32_def)
  then show ?thesis using ok assms(3,4) unfolding discr_ok_def by metis
qed

text \<open>Two neighbours that say Down.\<close>

definition demo_bfd_run :: bfd_manager where
  "demo_bfd_run = foldl bfd_step empty_manager [Recieve 5 10 3784 (demo_bfd BFDSTATE_DOWN 7 0 False False), Recieve 6 11 3784 (demo_bfd BFDSTATE_DOWN 8 0 False False)]"

lemma demo_bfd_run: "map_option conn (find_unsafe demo_bfd_run (MAKE_ULL 10 3784)) = Some True"
  by code_simp

theorem bfd_discriminators_unique_witness:
  "\<exists>s. find_unsafe demo_bfd_run (MAKE_ULL 10 3784) = Some s \<and> local_discr s \<noteq> 0"
proof -
  from demo_bfd_run obtain s where s: "find_unsafe demo_bfd_run (MAKE_ULL 10 3784) = Some s" "conn s" by auto
  from bfd_discriminators_unique [OF _ demo_bfd_run_def s] s(1) show ?thesis by auto
qed

section \<open>What goes wrong\<close>

text \<open>A neighbour that repeats Down moves a session back and forth, where the RFC has it stay in Init.\<close>

lemma bfd_repeated_down_toggles:
  assumes "bfd_accepted (length d) (bfd_read (\<lambda>i. d ! i))" "b_state (bfd_read (\<lambda>i. d ! i)) = BFDSTATE_DOWN"
    "find_unsafe M (MAKE_ULL ip port) = Some s" "session_state s = BFDSTATE_DOWN"
  shows "\<exists>s'. find_unsafe (foldl bfd_step M (map (\<lambda>t. Recieve t ip port d) ts)) (MAKE_ULL ip port) = Some s' \<and>
    session_state s' = (if even (length ts) then BFDSTATE_DOWN else BFDSTATE_INIT)"
proof (induction ts rule: rev_induct)
  case (snoc t ts)
  then obtain s1 where s1: "find_unsafe (foldl bfd_step M (map (\<lambda>t. Recieve t ip port d) ts)) (MAKE_ULL ip port) = Some s1"
    "session_state s1 = (if even (length ts) then BFDSTATE_DOWN else BFDSTATE_INIT)" by blast
  show ?case using s1(2) assms(2) by (simp add: recieve_known [OF s1(1) assms(1)] session_packet after_state [OF bfd_state_lt] rfc5880_def)
qed (use assms(3,4) in simp)

text \<open>Intervals are read without a change of byte order: a neighbour that promises a packet every second is given 54 minutes, not three seconds.\<close>

lemma demo_bfd_detect_time: "map_option detect_time (find_unsafe demo_bfd_run (MAKE_ULL 10 3784)) = Some (5 + 3234213120)"
  by code_simp

section \<open>Round trip\<close>

definition bfd_fields_ok :: "bfd \<Rightarrow> bool" where
  "bfd_fields_ok b \<longleftrightarrow> take_bit 3 (b_vers b) = b_vers b \<and> take_bit 5 (b_diag b) = b_diag b \<and> take_bit 2 (b_state b) = b_state b"

lemma drop_push:
  fixes w :: byte
  assumes "take_bit (8 - n) w = w"
  shows "drop_bit n (push_bit n w) = w"
proof (rule bit_word_eqI)
  fix k assume "k < LENGTH(8)"
  have "bit w k \<Longrightarrow> k < 8 - n" using assms by (metis bit_take_bit_iff)
  then show "bit (drop_bit n (push_bit n w)) k = bit w k" by (auto simp: bit_simps)
qed

lemma first_octet:
  fixes v d :: byte
  shows "take_bit 5 d = d \<Longrightarrow> (push_bit 5 v OR (d AND 31)) AND 31 = d" "take_bit 3 v = v \<Longrightarrow> drop_bit 5 (push_bit 5 v) = v"
proof -
  have m: "w AND 31 = take_bit 5 w" for w :: byte by (simp add: take_bit_eq_mask mask_eq_exp_minus_1)
  show "take_bit 5 d = d \<Longrightarrow> (push_bit 5 v OR (d AND 31)) AND 31 = d" unfolding m by (simp add: take_bit_push_bit)
  show "take_bit 3 v = v \<Longrightarrow> drop_bit 5 (push_bit 5 v) = v" by (intro drop_push) simp
qed

lemma second_octet:
  shows "take_bit 2 (b_state b) = b_state b \<Longrightarrow> drop_bit 6 (bfd_flags b) = b_state b"
    "bit (bfd_flags b) 5 = b_poll b" "bit (bfd_flags b) 4 = b_final b" "bit (bfd_flags b) 3 = b_cpi b"
    "bit (bfd_flags b) 2 = b_auth b" "bit (bfd_flags b) (Suc 0) = b_demand b" "bit (bfd_flags b) 0 = b_multipoint b"
  using drop_push [of 6 "b_state b"] by (simp_all add: bfd_flags_def bit_or_iff bit_push_bit_iff)

text \<open>What is transmitted is read back: the reader gets every field of a packet from the octets of the writer, and the packet of a session with both
  discriminators passes the checks of the receiver.\<close>

theorem bfd_packets_read_back:
  assumes "bfd_fields_ok b"
  shows "bfd_read (\<lambda>i. bfd_octets b ! i) = b \<and> length (bfd_octets b) = BFD_MINPKTLEN \<and>
    (\<forall>s. b = bfd_packet s \<and> local_discr s \<noteq> 0 \<and> remote_discr s \<noteq> 0 \<and> s_detect_mult s \<noteq> 0 \<longrightarrow> bfd_accepted (length (bfd_octets b)) (bfd_read (\<lambda>i. bfd_octets b ! i)))"
proof -
  have r: "bfd_read (\<lambda>i. bfd_octets b ! i) = b" using assms
    by (intro bfd.equality) (simp_all add: bfd_read_def bfd_octets_def bfd_fields_ok_def first_octet second_octet le32_def ld32_def)
  have l: "length (bfd_octets b) = BFD_MINPKTLEN" by (simp add: bfd_octets_def)
  show ?thesis unfolding r l by (auto simp: bfd_accepted_def bfd_packet_def)
qed

theorem bfd_packets_read_back_witness:
  "let b = bfd_packet ((BfdSession 10 3784)\<lparr>local_discr := 1, remote_discr := 7, session_state := BFDSTATE_UP\<rparr>) in
     bfd_accepted (length (bfd_octets b)) (bfd_read (\<lambda>i. bfd_octets b ! i))"
proof -
  let ?s = "(BfdSession 10 3784)\<lparr>local_discr := 1, remote_discr := 7, session_state := BFDSTATE_UP\<rparr>"
  have "bfd_fields_ok (bfd_packet ?s)" by code_simp
  moreover have "local_discr ?s \<noteq> 0 \<and> remote_discr ?s \<noteq> 0 \<and> s_detect_mult ?s \<noteq> 0" by (simp add: BfdSession_def)
  ultimately show ?thesis using bfd_packets_read_back [of "bfd_packet ?s"] unfolding Let_def by blast
qed

end
