(* ===== verification/Tools_Items.thy ===== *)
theory Tools_Items
  imports Gtpc_Parse
begin

text \<open>
  The items of GTP-C messages as the tools build and read them (\<open>tools/src/lib/pkt/v2_*.cc\<close>). A constructor gives the octets \<open>ref()\<close> points to,
  \<open>len()\<close> of them; \<open>attach\<close> of a class decides whether it takes the octets at an address, and how many it copies. The length of an item and its type are read
  from memory, without a test against the end of the message.
\<close>

section \<open>Constructors\<close>

abbreviation item :: "byte \<Rightarrow> byte list \<Rightarrow> byte list" where
  "item ty data \<equiv> comm_header ty (word_of_nat (length data)) 0 @ data"

definition Recovery :: "byte \<Rightarrow> byte list" where
  "Recovery cnt = item 3 [cnt]"

definition number_octets :: "nat \<Rightarrow> nat \<Rightarrow> 64 word \<Rightarrow> byte list" where
  "number_octets digits n d = (let bf = dec (unat d) in if d \<noteq> 0 \<and> length bf = digits then pack_digits bf else zeros n)"

definition Imsi :: "64 word \<Rightarrow> byte list" where
  "Imsi d = item 1 (number_octets 15 8 d)"

definition Mei :: "64 word \<Rightarrow> byte list" where
  "Mei d = item 75 (number_octets 15 8 d)"

definition Msisdn :: "64 word \<Rightarrow> byte list" where
  "Msisdn d = item 76 (number_octets 12 6 d)"

definition Ambr :: "32 word \<Rightarrow> 32 word \<Rightarrow> byte list" where
  "Ambr uplink downlink = item 72 (be32 uplink @ be32 downlink)"

definition Cause :: "byte \<Rightarrow> byte list" where
  "Cause c = item 2 [c, 0]"

definition Ebi :: "byte \<Rightarrow> byte \<Rightarrow> byte list" where
  "Ebi inst ebi = comm_header 73 1 inst @ [ebi AND 0xF]"

definition Indication :: "32 word \<Rightarrow> byte list" where
  "Indication f = item 77 (le32 f)"

definition Pco :: "byte list \<Rightarrow> byte list" where
  "Pco opts = (if 0 < length opts \<and> length opts < 253 then item 78 opts else item 78 [])"

definition Paa :: "byte \<Rightarrow> byte list \<Rightarrow> byte list" where
  "Paa flags adr = (if 0 < length adr \<and> length adr < 21 then item 79 (flags # adr) else item 79 [])"

definition Bqos :: "byte \<Rightarrow> byte \<Rightarrow> 64 word \<Rightarrow> 64 word \<Rightarrow> 64 word \<Rightarrow> 64 word \<Rightarrow> byte list" where
  "Bqos flags qci up down gup gdown = item 80 ([flags, qci] @ rate40 up @ rate40 down @ rate40 gup @ rate40 gdown)"

definition Rat :: "byte \<Rightarrow> byte list" where
  "Rat rat_type = item 82 [rat_type]"

definition ServingNetwork :: "byte list \<Rightarrow> byte list" where
  "ServingNetwork digits = item 83 (take 3 digits)"

definition ChargingId :: "32 word \<Rightarrow> byte list" where
  "ChargingId c = item 94 (le32 c)"

definition Pdn :: "byte \<Rightarrow> byte list" where
  "Pdn ty = item 99 [ty AND 7]"

definition ApnRestriction :: "byte \<Rightarrow> byte list" where
  "ApnRestriction ty = item 127 [ty]"

definition SelectionMode :: "byte \<Rightarrow> byte list" where
  "SelectionMode m = item 128 [push_bit 6 m]"

text \<open>Both addresses of an F-TEID are copied to the start of its block of 16 octets, while the length counts both: then it passes the structure.\<close>

definition Fteid :: "mem \<Rightarrow> byte \<Rightarrow> byte \<Rightarrow> 32 word \<Rightarrow> byte list option \<Rightarrow> byte list option \<Rightarrow> byte list" where
  "Fteid junk inst iftype teid ipv4 ipv6 =
     (let offset = (if ipv4 = None then 0 else 4) + (if ipv6 = None then 0 else 16);
        flags = (iftype AND 31) OR (if ipv4 = None then 0 else 0x80) OR (if ipv6 = None then 0 else 0x40);
        blk = (case ipv6 of Some a \<Rightarrow> take 16 a | None \<Rightarrow> padded 16 (case ipv4 of Some a \<Rightarrow> take 4 a | None \<Rightarrow> []));
        img = comm_header 87 (word_of_nat (offset + 5)) inst @ flags # be32 teid @ blk in
      map (\<lambda>i. if i < 25 then img ! i else junk i) [0..<offset + 9])"

text \<open>An access point name: labels behind their lengths, in at most 32 octets; a longer one leaves an item without contents.\<close>

fun apn_labels :: "nat \<Rightarrow> string list \<Rightarrow> byte list option" where
  "apn_labels ttl [] = Some []"
| "apn_labels ttl (s # labels) =
     (let len = length s mod 256 in
      if ttl + len \<ge> 32 then None
      else map_option (\<lambda>r. word_of_nat len # map of_char (take len s) @ r) (apn_labels (ttl + len + 1) labels))"

definition Apn :: "string \<Rightarrow> byte list" where
  "Apn apn = (case str_split apn ''.'' of None \<Rightarrow> item 71 [] | Some labels \<Rightarrow> (case apn_labels 0 labels of None \<Rightarrow> item 71 [] | Some b \<Rightarrow> item 71 b))"

section \<open>Attaching\<close>

definition head_len :: "mem \<Rightarrow> nat \<Rightarrow> nat" where
  "head_len m a = unat (ldn16 m (a + 1))"

text \<open>The number of octets copied from an item at \<open>a\<close>, \<open>len\<close> octets long by its header; \<open>None\<close> is \<open>RETERR\<close>. Two classes compare lengths in network order.\<close>

definition fixed_attach :: "byte \<Rightarrow> nat \<Rightarrow> mem \<Rightarrow> nat \<Rightarrow> nat \<Rightarrow> nat option" where
  "fixed_attach ty sz m a len = (if len \<noteq> sz then None else if m a = ty \<and> head_len m a = sz - 4 then Some sz else None)"

definition Apn_attach :: "mem \<Rightarrow> nat \<Rightarrow> nat \<Rightarrow> nat option" where
  "Apn_attach m a len = (if len \<le> 4 then None else if m a = 71 \<and> head_len m a > 0 \<and> head_len m a \<le> 32 then Some (head_len m a + 4) else None)"

definition Cause_attach :: "mem \<Rightarrow> nat \<Rightarrow> nat \<Rightarrow> nat option" where
  "Cause_attach m a len =
     (if len \<noteq> 6 \<and> len \<noteq> 10 then None else if m a = 2 \<and> (head_len m a = 2 \<or> head_len m a = 6) then Some len else None)"

definition Indication_attach :: "mem \<Rightarrow> nat \<Rightarrow> nat \<Rightarrow> nat option" where
  "Indication_attach m a len =
     (if len > 10 then None else if m a = 77 \<and> head_len m a > 0 \<and> head_len m a < 6 then Some (head_len m a + 4) else None)"

definition Pco_attach :: "mem \<Rightarrow> nat \<Rightarrow> nat \<Rightarrow> nat option" where
  "Pco_attach m a len = (if len \<le> 4 then None else if m a = 78 \<and> head_len m a > 0 \<and> head_len m a < 253 then Some (head_len m a + 4) else None)"

definition Paa_attach :: "mem \<Rightarrow> nat \<Rightarrow> nat \<Rightarrow> nat option" where
  "Paa_attach m a len = (if len \<le> 4 then None else if m a = 79 \<and> head_len m a > 0 \<and> head_len m a < 21 then Some (head_len m a + 4) else None)"

definition Uli_attach :: "mem \<Rightarrow> nat \<Rightarrow> nat \<Rightarrow> nat option" where
  "Uli_attach m a len = (if len < 12 then None else if m a = 86 \<and> ld16 m (a + 1) \<ge> bswap16 8 then Some (min 43 len) else None)"

definition Fteid_attach :: "mem \<Rightarrow> nat \<Rightarrow> nat \<Rightarrow> nat option" where
  "Fteid_attach m a len = (if len < 13 then None else if m a = 87 \<and> ld16 m (a + 1) \<ge> bswap16 9 then Some (min 25 len) else None)"

text \<open>
  The classes by type, with the size of their structure; \<open>len()\<close> of an attached item is that size for the first kind, for the others what its
  header says. Everything else is \<open>Any\<close>, which takes at most 1518 octets.
\<close>

datatype kind = Fixed nat | Variable nat

definition item_class :: "byte \<Rightarrow> (kind \<times> (mem \<Rightarrow> nat \<Rightarrow> nat \<Rightarrow> nat option)) option" where
  "item_class ty =
     (if ty = 3 then Some (Fixed 5, fixed_attach 3 5)
      else if ty = 71 then Some (Variable 36, Apn_attach)
      else if ty = 1 then Some (Fixed 12, fixed_attach 1 12)
      else if ty = 72 then Some (Fixed 12, fixed_attach 72 12)
      else if ty = 76 then Some (Fixed 10, fixed_attach 76 10)
      else if ty = 2 then Some (Variable 10, Cause_attach)
      else if ty = 75 then Some (Fixed 12, fixed_attach 75 12)
      else if ty = 73 then Some (Fixed 5, fixed_attach 73 5)
      else if ty = 77 then Some (Variable 10, Indication_attach)
      else if ty = 78 then Some (Variable 257, Pco_attach)
      else if ty = 79 then Some (Variable 26, Paa_attach)
      else if ty = 80 then Some (Fixed 26, fixed_attach 80 26)
      else if ty = 82 then Some (Fixed 5, fixed_attach 82 5)
      else if ty = 83 then Some (Fixed 7, fixed_attach 83 7)
      else if ty = 86 then Some (Variable 43, Uli_attach)
      else if ty = 87 then Some (Variable 25, Fteid_attach)
      else if ty = 94 then Some (Fixed 8, fixed_attach 94 8)
      else if ty = 99 then Some (Fixed 5, fixed_attach 99 5)
      else if ty = 127 then Some (Fixed 5, fixed_attach 127 5)
      else if ty = 128 then Some (Fixed 5, fixed_attach 128 5)
      else None)"

text \<open>The octets that are appended for an item: what was copied, behind it the memory \<open>junk\<close> of the object and past it.\<close>

definition attach_item :: "mem \<Rightarrow> mem \<Rightarrow> nat \<Rightarrow> nat \<Rightarrow> byte list option" where
  "attach_item junk m a len =
     (case item_class (m a) of
        None \<Rightarrow> Some (rd_bytes m a (min 1518 len))
      | Some (k, att) \<Rightarrow>
          map_option (\<lambda>n. map (\<lambda>i. if i < n then m (a + i) else junk i) [0..<(case k of Fixed sz \<Rightarrow> sz | Variable sz \<Rightarrow> head_len m a + 4)]) (att m a len))"

section \<open>What is built is taken\<close>

text \<open>An item that a class takes as a whole, wherever it stands.\<close>

definition taken :: "byte list \<Rightarrow> bool" where
  "taken b \<longleftrightarrow> tlv b \<and> length b < 65536 \<and> (\<forall>junk m a. rd_bytes m a (length b) = b \<longrightarrow> attach_item junk m a (length b) = Some b)"

lemma rd_nth: "rd_bytes m a (length b) = b \<Longrightarrow> i < length b \<Longrightarrow> m (a + i) = b ! i"
  by (metis add.commute nth_rd_bytes)

lemma head_len_tlv: "rd_bytes m a (length b) = b \<Longrightarrow> tlv b \<Longrightarrow> head_len m a + 4 = length b"
  using rd_nth [of m a b 1] rd_nth [of m a b 2] by (simp add: head_len_def ldn16_def ld16_def tlv_def numeral_eq_Suc)

lemma attached_whole: "rd_bytes m a (length b) = b \<Longrightarrow> map (\<lambda>i. if i < length b then m (a + i) else junk i) [0..<length b] = b"
  by (rule nth_equalityI) (simp_all add: rd_nth)

lemma taken_by:
  assumes "tlv b" "length b < 65536" "item_class (b ! 0) = Some (k, att)" "\<And>sz. k = Fixed sz \<Longrightarrow> length b = sz"
    "\<And>m a. rd_bytes m a (length b) = b \<Longrightarrow> att m a (length b) = Some (length b)"
  shows "taken b"
  unfolding taken_def
proof (intro conjI allI impI)
  fix junk m a assume r: "rd_bytes m a (length b) = b"
  have "m a = b ! 0" using rd_nth [OF r, of 0] tlv_nth [OF assms(1)] by simp
  then show "attach_item junk m a (length b) = Some b"
    using assms(3-5) attached_whole [OF r] head_len_tlv [OF r assms(1)] r by (cases k) (simp_all add: attach_item_def)
qed (use assms in simp_all)

lemma taken_fixed:
  assumes "tlv b" "item_class (b ! 0) = Some (Fixed (length b), fixed_attach (b ! 0) (length b))" "length b < 65536"
  shows "taken b"
proof (rule taken_by [OF assms(1,3,2)])
  fix m a assume r: "rd_bytes m a (length b) = b"
  show "fixed_attach (b ! 0) (length b) m a (length b) = Some (length b)"
    using rd_nth [OF r, of 0] head_len_tlv [OF r assms(1)] tlv_nth [OF assms(1)] by (simp add: fixed_attach_def)
qed simp

lemma item_tlv: "length data < 65000 \<Longrightarrow> tlv (comm_header ty (word_of_nat (length data)) inst @ data)"
  using item_of_header(2) [of "word_of_nat (length data)" data ty inst] by (simp add: unsigned_of_nat take_bit_eq_mod)

lemma taken_item:
  assumes "item_class ty = Some (Fixed (length data + 4), fixed_attach ty (length data + 4))" "len = word_of_nat (length data)" "length data < 100"
  shows "taken (comm_header ty len inst @ data)"
proof -
  have "length (comm_header ty len inst @ data) = length data + 4" "(comm_header ty len inst @ data) ! 0 = ty" by (simp_all add: nth_append)
  with assms item_tlv [of data ty inst] show ?thesis by (intro taken_fixed) (simp_all add: add.commute)
qed

lemma number_octets_length: "length (number_octets 15 8 d) = 8" "length (number_octets 12 6 d) = 6"
  by (simp_all add: number_octets_def Let_def length_pack_digits)

lemmas constructor_defs = Recovery_def Imsi_def Mei_def Msisdn_def Ambr_def Ebi_def Bqos_def Rat_def ServingNetwork_def ChargingId_def Pdn_def
  ApnRestriction_def SelectionMode_def

lemma fixed_items_taken:
  "taken (Recovery cnt) \<and> taken (Imsi d) \<and> taken (Mei d) \<and> taken (Msisdn d) \<and> taken (Ambr u dn) \<and> taken (Ebi inst e) \<and>
   taken (Bqos f q a1 a2 a3 a4) \<and> taken (Rat r) \<and> taken (ChargingId c) \<and> taken (Pdn t) \<and> taken (ApnRestriction t) \<and> taken (SelectionMode sm)"
  by (intro conjI; unfold constructor_defs; rule taken_item; simp add: number_octets_length item_class_def)

lemma ServingNetwork_taken: "length ds = 3 \<Longrightarrow> taken (ServingNetwork ds)"
  unfolding ServingNetwork_def by (rule taken_item) (simp_all add: item_class_def)

text \<open>Items of variable length, where their contents fit.\<close>

lemma taken_variable:
  assumes "item_class ty = Some (Variable sz, att)" "length data < 65000" "len = word_of_nat (length data)"
    "\<And>m a. m a = ty \<Longrightarrow> head_len m a = length data \<Longrightarrow> ldn16 m (a + 1) = word_of_nat (length data) \<Longrightarrow> att m a (length data + 4) = Some (length data + 4)"
  shows "taken (comm_header ty len inst @ data)"
proof -
  let ?b = "comm_header ty len inst @ data"
  have t: "tlv ?b" using assms(2,3) item_tlv by simp
  have l: "length ?b = length data + 4" "?b ! 0 = ty" by (simp_all add: nth_append)
  show ?thesis
  proof (rule taken_by [OF t])
    show "item_class (?b ! 0) = Some (Variable sz, att)" using assms(1) l(2) by simp
    fix m a assume r: "rd_bytes m a (length ?b) = ?b"
    have h: "head_len m a = length data" using head_len_tlv [OF r t] l(1) by simp
    have "m a = ty" using rd_nth [OF r, of 0] l by simp
    moreover have "ldn16 m (a + 1) = word_of_nat (length data)" by (simp flip: h add: head_len_def)
    ultimately show "att m a (length ?b) = Some (length ?b)" using assms(4) h l(1) by (simp add: add.commute)
  qed (use assms(2) in simp_all)
qed

lemma bswap_small:
  assumes "n < 256"
  shows "unat (bswap16 (word_of_nat n)) = 256 * n"
proof -
  have h: "byte_of (Suc 0) (word_of_nat n :: 16 word) = 0" using assms
    by (simp add: byte_of_def drop_bit_eq_div word_unat_eq_iff unat_div unsigned_of_nat take_bit_eq_mod unsigned_ucast_eq)
  have l: "unat (byte_of 0 (word_of_nat n :: 16 word)) = n" using assms by (simp add: byte_of_def unsigned_ucast_eq unsigned_of_nat take_bit_eq_mod)
  show ?thesis using assms l by (simp add: bswap16_def mk16_def h push_bit_eq_mult unat_word_ariths unsigned_ucast_eq take_bit_eq_mod)
qed

lemma bswap_le_small: "ldn16 m (a + 1) = word_of_nat n \<Longrightarrow> k \<le> n \<Longrightarrow> n < 256 \<Longrightarrow> bswap16 (word_of_nat k) \<le> ld16 m (a + 1)"
proof -
  assume "ldn16 m (a + 1) = word_of_nat n" "k \<le> n" "n < 256"
  then have "ld16 m (a + 1) = bswap16 (word_of_nat n)" by (metis bswap16_bswap16 ldn16_def)
  then show ?thesis using \<open>k \<le> n\<close> \<open>n < 256\<close> by (simp add: word_le_nat_alt bswap_small)
qed

lemma apn_labels_length: "apn_labels ttl labels = Some b \<Longrightarrow> ttl \<le> 32 \<Longrightarrow> ttl + length b \<le> 32"
proof (induction ttl labels arbitrary: b rule: apn_labels.induct)
  case (2 ttl s labels)
  then obtain r where "apn_labels (ttl + length s mod 256 + 1) labels = Some r" "\<not> ttl + length s mod 256 \<ge> 32"
    "b = word_of_nat (length s mod 256) # map of_char (take (length s mod 256) s) @ r" by (auto simp: Let_def split: if_splits)
  with "2.IH" [of "length s mod 256" r] show ?case by simp
qed simp

lemma variable_items_taken:
  "taken (Cause c)" "taken (Indication f)" "0 < length opts \<Longrightarrow> length opts < 253 \<Longrightarrow> taken (Pco opts)"
  "0 < length adr \<Longrightarrow> length adr < 20 \<Longrightarrow> taken (Paa fl adr)" "apn_labels 0 labels = Some b \<Longrightarrow> b \<noteq> [] \<Longrightarrow> taken (item 71 b)"
proof -
  show "taken (Cause c)" unfolding Cause_def by (rule taken_variable [of _ 10 Cause_attach]) (simp_all add: item_class_def Cause_attach_def)
  show "taken (Indication f)" unfolding Indication_def
    by (rule taken_variable [of _ 10 Indication_attach]) (simp_all add: item_class_def Indication_attach_def)
  show "0 < length opts \<Longrightarrow> length opts < 253 \<Longrightarrow> taken (Pco opts)" unfolding Pco_def
    by simp (rule taken_variable [of _ 257 Pco_attach]; simp add: item_class_def Pco_attach_def)
  show "0 < length adr \<Longrightarrow> length adr < 20 \<Longrightarrow> taken (Paa fl adr)" unfolding Paa_def
    by simp (rule taken_variable [of _ 26 Paa_attach]; simp add: item_class_def Paa_attach_def)
  show "apn_labels 0 labels = Some b \<Longrightarrow> b \<noteq> [] \<Longrightarrow> taken (item 71 b)" using apn_labels_length [of 0 labels b]
    by (intro taken_variable [of _ 36 Apn_attach]) (simp_all add: item_class_def Apn_attach_def)
qed

lemma Fteid_v4: "length ip = 4 \<Longrightarrow> Fteid junk inst ift te (Some ip) None = comm_header 87 9 inst @ ((ift AND 31) OR 0x80) # be32 te @ ip"
  by (rule nth_equalityI) (auto simp: Fteid_def Let_def padded_def nth_append nth_Cons')

lemma Fteid_taken: "length ip = 4 \<Longrightarrow> taken (Fteid junk inst ift te (Some ip) None)"
proof -
  assume ip: "length ip = 4"
  have "taken (comm_header 87 9 inst @ ((ift AND 31) OR 0x80) # be32 te @ ip)"
  proof (rule taken_variable [of _ 25 Fteid_attach])
    fix m :: mem and a
    assume "m a = 87" "ldn16 m (a + 1) = word_of_nat (length (((ift AND 31) OR 0x80) # be32 te @ ip))"
    then show "Fteid_attach m a (length (((ift AND 31) OR 0x80) # be32 te @ ip) + 4) = Some (length (((ift AND 31) OR 0x80) # be32 te @ ip) + 4)"
      using bswap_le_small [of m a 9 9] ip by (simp add: Fteid_attach_def)
  qed (simp_all add: item_class_def ip)
  then show ?thesis by (simp add: Fteid_v4 [OF ip])
qed

text \<open>An F-TEID with both addresses loses the first and passes the end of its structure by four octets.\<close>

lemma Fteid_both:
  assumes "length ip4 = 4" "length ip6 = 16"
  shows "take 16 (drop 9 (Fteid junk inst ift te (Some ip4) (Some ip6))) = ip6"
    "drop 25 (Fteid junk inst ift te (Some ip4) (Some ip6)) = map junk [25..<29]"
proof -
  show "take 16 (drop 9 (Fteid junk inst ift te (Some ip4) (Some ip6))) = ip6"
    using assms by (intro nth_equalityI) (auto simp: Fteid_def Let_def nth_append nth_Cons')
  show "drop 25 (Fteid junk inst ift te (Some ip4) (Some ip6)) = map junk [25..<29]"
    by (simp add: Fteid_def Let_def drop_map)
qed

end
