(* ===== verification/Tools_Pkt.thy ===== *)
theory Tools_Pkt
  imports Tools_Items
begin

text \<open>
  GTP-C messages of the tools (\<open>tools/src/lib/pkt/gtpc.cc\<close>, \<open>v2_bearercontext.cc\<close>, \<open>v2_gtpcpkt.hh\<close>): a message as a list of items, its octets, the
  reader of received octets, and Bearer Contexts, whose items may be Bearer Contexts again. The loop over a Bearer Context has no bound of its own and is a
  partial function. \<open>None\<close> is a reader that does not return, runs out of stack (each level of Bearer Contexts takes one of \<open>d\<close> frames) or leaves its arrays.
\<close>

section \<open>Messages\<close>

text \<open>\<open>k_q\<close> are the four octets of the sequence number, which a client writes into the buffer.\<close>

record gtpcpkt =
  k_type :: byte
  k_len :: nat
  k_items :: "byte list list"
  k_q :: "byte list"

definition GtpcPkt :: "byte \<Rightarrow> gtpcpkt" where
  "GtpcPkt ty = \<lparr>k_type = ty, k_len = 12, k_items = [], k_q = zeros 4\<rparr>"

definition pkt_len :: "gtpcpkt \<Rightarrow> nat" where
  "pkt_len p = gtpc_type_headerlen (k_type p) + length (concat (k_items p))"

definition pkt_append :: "byte list \<Rightarrow> gtpcpkt \<Rightarrow> gtpcpkt" where
  "pkt_append b p = (if k_len p + length b > 2048 then p else let p' = p\<lparr>k_items := k_items p @ [b]\<rparr> in p'\<lparr>k_len := pkt_len p'\<rparr>)"

text \<open>The tunnel identifier is cleared each time. The length field of an echo message is four octets short.\<close>

definition pkt_ref :: "gtpcpkt \<Rightarrow> byte list" where
  "pkt_ref p =
     (if gtpc_type_headerlen (k_type p) = 12 then [0x48, k_type p] @ be16 (word_of_nat (pkt_len p - 4)) @ zeros 4 @ k_q p
      else [0x40, k_type p] @ be16 (word_of_nat (pkt_len p - 8)) @ zeros 4) @ concat (k_items p)"

section \<open>Reading\<close>

type_synonym reader = "mem \<Rightarrow> nat \<Rightarrow> nat \<Rightarrow> byte list option option"

text \<open>The loop of \<open>BearerContext::attach\<close>: the items found, and whether it ended well.\<close>

partial_function (option) bearer_loop :: "reader \<Rightarrow> mem \<Rightarrow> nat \<Rightarrow> nat \<Rightarrow> nat \<Rightarrow> gtpcpkt \<Rightarrow> (gtpcpkt \<times> bool) option" where
  "bearer_loop att m a len off child =
     (if off < len then
        let hlen = unat (ldn16 m (a + off + 1) + 4) in
        (case att m (a + off) hlen of
           None \<Rightarrow> None
         | Some None \<Rightarrow> Some (child, False)
         | Some (Some b) \<Rightarrow>
             let child = pkt_append b child in
             if off + hlen > len then Some (child, False)
             else if off + hlen = len then Some (child, True)
             else bearer_loop att m a len (off + hlen) child)
      else Some (child, True))"

text \<open>\<open>iterate\<close> makes an object of each item again; an item whose length field is 0 is of no class. \<open>calc\<close> writes the items into an array of 1518 octets.\<close>

definition reattach :: "reader \<Rightarrow> byte list \<Rightarrow> byte list option option" where
  "reattach att b = (if length b < 4 \<or> head_len (mem_of 0 b) 0 = 0 then Some (Some (take 1518 b)) else att (mem_of 0 b) 0 (length b))"

fun bearer_items :: "reader \<Rightarrow> byte list list \<Rightarrow> byte list option" where
  "bearer_items att [] = Some []"
| "bearer_items att (b # bs) =
     (case reattach att b of Some (Some b') \<Rightarrow> map_option ((@) b') (bearer_items att bs) | _ \<Rightarrow> None)"

definition calc :: "reader \<Rightarrow> byte \<Rightarrow> gtpcpkt \<Rightarrow> byte list option" where
  "calc att inst child =
     (case bearer_items att (k_items child) of
        None \<Rightarrow> None
      | Some data \<Rightarrow> if 4 + length data > 1518 then None else Some ([93] @ be16 (word_of_nat (length data)) @ [inst] @ data))"

fun attach_impl :: "nat \<Rightarrow> mem \<Rightarrow> reader" where
  "attach_impl 0 junk m a len = None"
| "attach_impl (Suc d) junk m a len =
     (if m a = 93 then
        if len < 12 \<or> \<not> head_len m a > 4 then Some None
        else case bearer_loop (attach_impl d junk) m a len 4 (GtpcPkt 93) of
          None \<Rightarrow> None
        | Some (child, ok) \<Rightarrow>
            (case calc (attach_impl d junk) (m (a + 3)) child of None \<Rightarrow> None | Some b \<Rightarrow> Some (if ok then Some b else None))
      else Some (attach_item junk m a len))"

text \<open>The loop of \<open>GtpcPkt::attach\<close>, at most 256 rounds. An item no class takes is skipped.\<close>

fun attach_loop :: "reader \<Rightarrow> mem \<Rightarrow> nat \<Rightarrow> nat \<Rightarrow> nat \<Rightarrow> gtpcpkt \<Rightarrow> gtpcpkt option option" where
  "attach_loop att m len 0 off p = Some None"
| "attach_loop att m len (Suc n) off p =
     (if off < len then
        let hlen = unat (ldn16 m (off + 1) + 4) in
        (case att m off hlen of
           None \<Rightarrow> None
         | Some r \<Rightarrow>
             let p = (case r of None \<Rightarrow> p | Some b \<Rightarrow> pkt_append b p) in
             if off + hlen > len then Some None
             else if off + hlen = len then Some (Some p)
             else attach_loop att m len n (off + hlen) p)
      else Some None)"

definition pkt_attach :: "nat \<Rightarrow> mem \<Rightarrow> mem \<Rightarrow> nat \<Rightarrow> gtpcpkt option option" where
  "pkt_attach d junk m len =
     (if unat (ldn16 m 2) < 4 \<or> drop_bit 5 (m 0) \<noteq> 2 \<or> bit (m 0) 4 \<or> \<not> gtpc_type_issupported (m 1) \<or> gtpc_type_headerlen (m 1) > len then Some None
      else attach_loop (attach_impl d junk) m len 256 (gtpc_type_headerlen (m 1)) (GtpcPkt (m 1)))"

text \<open>\<open>find\<close>: the first item of a class, if the class takes it.\<close>

definition pkt_find :: "reader \<Rightarrow> byte \<Rightarrow> gtpcpkt \<Rightarrow> byte list option option" where
  "pkt_find att ty p =
     (case filter (\<lambda>b. \<not> (length b < 4 \<or> head_len (mem_of 0 b) 0 = 0) \<and> b ! 0 = ty) (k_items p) of
        [] \<Rightarrow> Some None
      | b # _ \<Rightarrow> att (mem_of 0 b) 0 (length b))"


section \<open>What is built is read back\<close>

text \<open>An item that a reader takes as a whole, wherever it stands.\<close>

definition reads :: "reader \<Rightarrow> byte list \<Rightarrow> bool" where
  "reads att b \<longleftrightarrow> tlv b \<and> length b < 65536 \<and> (\<forall>m a. rd_bytes m a (length b) = b \<longrightarrow> att m a (length b) = Some (Some b))"

text \<open>Items in Bearer Contexts, at most \<open>d\<close> levels deep.\<close>

inductive readable :: "nat \<Rightarrow> byte list \<Rightarrow> bool" where
  plain: "taken b \<Longrightarrow> b ! 0 \<noteq> 93 \<Longrightarrow> readable (Suc d) b"
| bearer: "\<forall>k\<in>set kids. readable d k \<Longrightarrow> 8 \<le> length (concat kids) \<Longrightarrow> length (concat kids) \<le> 1514 \<Longrightarrow>
    readable (Suc d) ([93] @ be16 (word_of_nat (length (concat kids))) @ [inst] @ concat kids)"

lemma pkt_append_all:
  "pkt_len p \<le> k_len p \<Longrightarrow> k_len p + length (concat bs) \<le> 2048 \<Longrightarrow>
   fold pkt_append bs p = p\<lparr>k_len := (if bs = [] then k_len p else pkt_len p + length (concat bs)), k_items := k_items p @ bs\<rparr>"
proof (induction bs arbitrary: p)
  case (Cons b bs)
  let ?p = "p\<lparr>k_len := pkt_len p + length b, k_items := k_items p @ [b]\<rparr>"
  have a: "pkt_append b p = ?p" using Cons.prems by (simp add: pkt_append_def Let_def pkt_len_def)
  have "fold pkt_append bs ?p = ?p\<lparr>k_len := (if bs = [] then k_len ?p else pkt_len ?p + length (concat bs)), k_items := k_items ?p @ bs\<rparr>"
    using Cons.prems by (intro Cons.IH) (simp_all add: pkt_len_def)
  then show ?case by (simp add: a pkt_len_def)
qed simp

text \<open>An item at the head of a run of items.\<close>

lemma reads_head:
  assumes "reads att b" "rd_bytes m a n = b @ r"
  shows "unat (ldn16 m (a + 1) + 4) = length b" "att m a (length b) = Some (Some b)" "rd_bytes m (a + length b) (n - length b) = r" "4 \<le> length b"
  using assms tlv_at [OF assms(2)] by (simp_all add: reads_def tlv_def)

lemma bearer_loop_items:
  "\<forall>b\<in>set bs. reads att b \<Longrightarrow> rd_bytes m (a + off) (length (concat bs)) = concat bs \<Longrightarrow> len = off + length (concat bs) \<Longrightarrow>
   bearer_loop att m a len off child = Some (fold pkt_append bs child, True)"
proof (induction bs arbitrary: off child)
  case Nil
  then show ?case by (simp add: bearer_loop.simps)
next
  case (Cons b bs)
  have "reads att b" "rd_bytes m (a + off) (length (concat (b # bs))) = b @ concat bs" using Cons.prems by simp_all
  note h = reads_head [OF this]
  have "bearer_loop att m a len (off + length b) (pkt_append b child) = Some (fold pkt_append bs (pkt_append b child), True)"
    using Cons.prems h(3) by (intro Cons.IH) (simp_all add: add.assoc)
  moreover have "bs = []" if "concat bs = []" using that Cons.prems(1) by (cases bs) (auto simp: reads_def tlv_def)
  ultimately show ?case using h Cons.prems(3) by (subst bearer_loop.simps) (auto simp: Let_def)
qed

lemma attach_loop_items:
  "\<forall>b\<in>set bs. reads att b \<Longrightarrow> bs \<noteq> [] \<Longrightarrow> length bs \<le> n \<Longrightarrow> rd_bytes m off (length (concat bs)) = concat bs \<Longrightarrow>
   len = off + length (concat bs) \<Longrightarrow> attach_loop att m len n off p = Some (Some (fold pkt_append bs p))"
proof (induction bs arbitrary: off p n)
  case (Cons b bs)
  obtain n' where n: "n = Suc n'" using Cons.prems(3) by (cases n) simp_all
  have "reads att b" "rd_bytes m off (length (concat (b # bs))) = b @ concat bs" using Cons.prems by simp_all
  note h = reads_head [OF this]
  show ?case
  proof (cases "bs = []")
    case True
    then show ?thesis using h Cons.prems(5) by (cases b) (simp_all add: n Let_def)
  next
    case False
    then have "0 < length (concat bs)" using Cons.prems(1) by (cases bs) (auto simp: reads_def tlv_def)
    moreover have "attach_loop att m len n' (off + length b) (pkt_append b p) = Some (Some (fold pkt_append bs (pkt_append b p)))"
      using Cons.prems h(3) False by (intro Cons.IH) (simp_all add: n)
    ultimately show ?thesis using h Cons.prems(5) by (auto simp: n Let_def)
  qed
qed simp

lemma bearer_items_all: "\<forall>b\<in>set bs. reads att b \<Longrightarrow> bearer_items att bs = Some (concat bs)"
proof (induction bs)
  case (Cons b bs)
  have r: "rd_bytes (mem_of 0 b) 0 (length b) = b" by (rule rd_mem_of) simp
  have "reattach att b = Some (Some b)"
    using Cons.prems r head_len_tlv [OF r] by (auto simp: reattach_def reads_def tlv_def)
  with Cons show ?case by simp
qed simp

lemma bearer_reads:
  fixes inst :: byte
  assumes "\<forall>k\<in>set kids. reads (attach_impl d junk) k" "8 \<le> length (concat kids)" "length (concat kids) \<le> 1514"
  defines "b \<equiv> [93] @ be16 (word_of_nat (length (concat kids))) @ [inst] @ concat kids"
  shows "reads (attach_impl (Suc d) junk) b"
  unfolding reads_def
proof (intro conjI allI impI)
  have l: "length b = 4 + length (concat kids)" by (simp add: b_def)
  show t: "tlv b" using assms(3) l by (simp add: tlv_def b_def be16_def unat_len16)
  show "length b < 65536" using l assms(3) by simp
  fix m a assume r: "rd_bytes m a (length b) = b"
  have k: "rd_bytes m (a + 4) (length (concat kids)) = concat kids"
  proof -
    have "drop 4 (rd_bytes m a (4 + length (concat kids))) = rd_bytes m (a + 4) (length (concat kids))" unfolding rd_bytes_add by simp
    moreover have "drop 4 b = concat kids" by (simp add: b_def be16_def)
    ultimately show ?thesis using r l by metis
  qed
  have "bearer_loop (attach_impl d junk) m a (length b) 4 (GtpcPkt 93) = Some (fold pkt_append kids (GtpcPkt 93), True)"
    by (rule bearer_loop_items [OF assms(1) k]) (simp add: l)
  moreover have "k_items (fold pkt_append kids (GtpcPkt 93)) = kids"
    using assms(3) by (subst pkt_append_all) (simp_all add: GtpcPkt_def pkt_len_def gtpc_type_headerlen_def)
  moreover have "m a = 93" "m (a + 3) = inst" using rd_nth [OF r, of 0] rd_nth [OF r, of 3] l by (simp_all add: b_def be16_def)
  moreover have "head_len m a = length (concat kids)" using head_len_tlv [OF r t] l by simp
  ultimately show "attach_impl (Suc d) junk m a (length b) = Some (Some b)"
    using assms(1-3) l by (simp add: calc_def bearer_items_all b_def)
qed

lemma readable_reads: "readable d b \<Longrightarrow> reads (attach_impl d junk) b"
proof (induction rule: readable.induct)
  case (plain b d)
  have "m a \<noteq> 93" if "rd_bytes m a (length b) = b" for m a
    using rd_nth [OF that, of 0] plain tlv_nth [of b] by (simp add: taken_def)
  then show ?case using plain(1) by (simp add: reads_def taken_def)
next
  case (bearer kids d inst)
  then show ?case by (intro bearer_reads) auto
qed


text \<open>The header in front of the items.\<close>

lemma header_of_message:
  assumes "length (k_q p) = 4" "4 \<le> length (concat (k_items p))" "length (concat (k_items p)) \<le> 2036"
  obtains hd where "pkt_ref p = hd @ concat (k_items p)" "length hd = gtpc_type_headerlen (k_type p)" "hd ! 1 = k_type p" "drop_bit 5 (hd ! 0) = 2"
    "\<not> bit (hd ! 0) 4" "4 \<le> unat (mk16 (hd ! 3) (hd ! 2))"
proof -
  let ?n = "length (concat (k_items p))"
  let ?hd = "if gtpc_type_headerlen (k_type p) = 12 then [0x48, k_type p] @ be16 (word_of_nat (pkt_len p - 4)) @ zeros 4 @ k_q p
    else [0x40, k_type p] @ be16 (word_of_nat (pkt_len p - 8)) @ zeros 4"
  have b: "drop_bit 5 (0x48 :: byte) = 2" "drop_bit 5 (0x40 :: byte) = 2" "\<not> bit (0x48 :: byte) 4" "\<not> bit (0x40 :: byte) 4" by code_simp+
  have u: "unat (word_of_nat k :: 16 word) = k" if "k < 65536" for k using that by (simp add: unsigned_of_nat take_bit_eq_mod)
  have h: "gtpc_type_headerlen (k_type p) \<noteq> 12 \<Longrightarrow> gtpc_type_headerlen (k_type p) = 8" by (simp add: gtpc_type_headerlen_def split: if_splits)
  show ?thesis
  proof (rule that [of ?hd])
    show "4 \<le> unat (mk16 (?hd ! 3) (?hd ! 2))"
      using h u [of "8 + ?n"] u [of "4 + ?n"] u [of ?n] assms(2,3) by (auto simp: pkt_len_def be16_def)
  qed (use b h assms(1) in \<open>auto simp: pkt_ref_def be16_def\<close>)
qed

section \<open>Properties\<close>

text \<open>C26: a message built from items that the readers take, Bearer Contexts included, is read back with the same items: \<open>attach\<close> returns for every
  content of the memory behind the message, and gives its type and its items in order. Only the sequence number is not taken over.\<close>

theorem gtpc_message_read_back:
  fixes q :: "byte list" and items :: "byte list list" and ty :: byte
  defines "p \<equiv> (fold pkt_append items (GtpcPkt ty))\<lparr>k_q := q\<rparr>"
  assumes "gtpc_type_issupported ty" "length q = 4" "items \<noteq> []" "length items \<le> 256" "length (concat items) \<le> 2036"
    "\<forall>b\<in>set items. readable d b" "rd_bytes m 0 (pkt_len p) = pkt_ref p"
  shows "pkt_attach d junk m (pkt_len p) = Some (Some (p\<lparr>k_q := zeros 4\<rparr>))"
proof -
  let ?h = "gtpc_type_headerlen ty" and ?n = "length (concat items)"
  have f: "fold pkt_append items (GtpcPkt ty) = (GtpcPkt ty)\<lparr>k_len := ?h + ?n, k_items := items\<rparr>"
    using assms(4,6) headerlen_ge(2) [of ty] by (subst pkt_append_all) (simp_all add: GtpcPkt_def pkt_len_def)
  then have p: "k_type p = ty" "k_items p = items" "k_q p = q" "pkt_len p = ?h + ?n" by (simp_all add: p_def GtpcPkt_def pkt_len_def)
  have ra: "\<forall>b\<in>set items. reads (attach_impl d junk) b" using assms(7) readable_reads by blast
  have n: "4 \<le> ?n" using ra assms(4) by (cases items) (auto simp: reads_def tlv_def)
  obtain hd where hd: "pkt_ref p = hd @ concat items" "length hd = ?h" "hd ! 1 = ty" "drop_bit 5 (hd ! 0) = 2" "\<not> bit (hd ! 0) 4"
      "4 \<le> unat (mk16 (hd ! 3) (hd ! 2))"
    by (rule header_of_message [of p]) (use p n assms in \<open>simp_all add: \<close>)
  have m: "m i = hd ! i" if "i < ?h" for i
    using that assms(8) nth_rd_bytes [of i "pkt_len p" m 0] by (simp add: hd p nth_append)
  have "rd_bytes m ?h ?n = concat items" using assms(8) unfolding p(4) hd(1) rd_bytes_add by (simp add: hd(2))
  then have "attach_loop (attach_impl d junk) m (?h + ?n) 256 ?h (GtpcPkt ty) = Some (Some (fold pkt_append items (GtpcPkt ty)))"
    using attach_loop_items [OF ra assms(4,5)] by simp
  moreover have "m 0 = hd ! 0" "m 1 = ty" "ldn16 m 2 = mk16 (hd ! 3) (hd ! 2)"
    using m [of 0] m [of 1] m [of 2] m [of 3] headerlen_ge(1) [of ty] hd(3) by (simp_all add: ldn16_def ld16_def)
  ultimately show ?thesis using assms(2) hd(4-6) p f by (simp add: pkt_attach_def p_def GtpcPkt_def)
qed


definition demo_bearer :: "byte list" where
  "demo_bearer = [93] @ be16 (word_of_nat (length (concat [Ebi 0 5, Bqos 0 14 100 200 0 0]))) @ [0] @ concat [Ebi 0 5, Bqos 0 14 100 200 0 0]"

lemma tool_item_lengths: "length (Imsi d) = 12" "length (Msisdn d) = 10" "length (Ebi i e) = 5" "length (Bqos f qc u dn gu gd) = 26"
  by (simp_all add: constructor_defs comm_header_def number_octets_length)

lemma length_pkt_ref: "length (k_q p) = 4 \<Longrightarrow> length (pkt_ref p) = pkt_len p"
  by (auto simp: pkt_ref_def pkt_len_def gtpc_type_headerlen_def)

lemma demo_bearer_readable: "readable 2 demo_bearer" "readable 2 (Imsi 310149010002000)"
proof -
  have h: "Imsi d ! 0 = 1" "Ebi i e ! 0 = 73" "Bqos f qc u dn gu gd ! 0 = 80" for d i e f qc u dn gu gd by (simp_all add: constructor_defs comm_header_def)
  show "readable 2 demo_bearer" unfolding demo_bearer_def numeral_2_eq_2
    by (intro readable.bearer) (auto simp: tool_item_lengths h fixed_items_taken intro!: readable.plain)
  show "readable 2 (Imsi 310149010002000)" unfolding numeral_2_eq_2 by (rule readable.plain) (simp_all add: fixed_items_taken h)
qed

theorem gtpc_message_read_back_witness:
  "let p = (fold pkt_append [Imsi 310149010002000, demo_bearer] (GtpcPkt 32))\<lparr>k_q := [0, 0, 1, 0]\<rparr> in
   pkt_attach 2 (\<lambda>_. 0) (mem_of 0 (pkt_ref p)) (pkt_len p) = Some (Some (p\<lparr>k_q := zeros 4\<rparr>))"
proof -
  let ?p = "(fold pkt_append [Imsi 310149010002000, demo_bearer] (GtpcPkt 32))\<lparr>k_q := [0, 0, 1, 0]\<rparr>"
  have c: "length (concat [Imsi 310149010002000, demo_bearer]) \<le> 2036" by (simp add: tool_item_lengths demo_bearer_def)
  have q: "length ([0, 0, 1, 0] :: byte list) = 4" by simp
  show ?thesis unfolding Let_def
    by (rule gtpc_message_read_back) (use demo_bearer_readable c in \<open>auto simp: gtpc_type_issupported_def rd_mem_of length_pkt_ref q\<close>)
qed

text \<open>The loop does not leave an item whose length field is \<open>0xFFFC\<close>: with its header it is 0 octets long in 16 bits.\<close>

lemma bearer_loop_stays:
  assumes "off < len" "ldn16 m (a + off + 1) = 0xFFFC" "att m (a + off) 0 = Some (Some b)"
  shows "bearer_loop att m a len off child = None"
proof (rule ccontr)
  have z: "unat ((0xFFFC :: 16 word) + 4) = 0" by simp
  assume "bearer_loop att m a len off child \<noteq> None"
  then obtain r where r: "bearer_loop att m a len off child = Some r" by blast
  have "\<not> (off < len \<and> ldn16 m (a + off + 1) = 0xFFFC \<and> att m (a + off) 0 = Some (Some b))"
  proof (rule bearer_loop.raw_induct [OF _ r])
    fix f :: "reader \<Rightarrow> mem \<Rightarrow> nat \<Rightarrow> nat \<Rightarrow> nat \<Rightarrow> gtpcpkt \<Rightarrow> (gtpcpkt \<times> bool) option"
    fix att :: reader and m a len off child r
    assume ih: "\<And>att m a len off child y. f att m a len off child = Some y \<Longrightarrow>
        \<not> (off < len \<and> ldn16 m (a + off + 1) = 0xFFFC \<and> att m (a + off) 0 = Some (Some b))"
      and e: "(if off < len then
        let hlen = unat (ldn16 m (a + off + 1) + 4) in
        (case att m (a + off) hlen of
           None \<Rightarrow> None
         | Some None \<Rightarrow> Some (child, False)
         | Some (Some b) \<Rightarrow>
             let child = pkt_append b child in
             if off + hlen > len then Some (child, False)
             else if off + hlen = len then Some (child, True)
             else f att m a len (off + hlen) child)
        else Some (child, True)) = Some r"
    show "\<not> (off < len \<and> ldn16 m (a + off + 1) = 0xFFFC \<and> att m (a + off) 0 = Some (Some b))"
      using e ih [of att m a len off "pkt_append b child" r] z by (auto simp: Let_def)
  qed
  then show False using assms by blast
qed

text \<open>a message with a Bearer Context whose first item is of no class and has the length field \<open>0xFFFC\<close> is never done with: the item is taken
  each time, without an octet, and the loop over the Bearer Context returns for no number of stack frames.\<close>

theorem zero_length_item_hangs_reader:
  fixes m :: mem
  defines "h \<equiv> gtpc_type_headerlen (m 1)"
  assumes "4 \<le> unat (ldn16 m 2)" "drop_bit 5 (m 0) = 2" "\<not> bit (m 0) 4" "gtpc_type_issupported (m 1)" "h < len"
    "m h = 93" "8 \<le> head_len m h" "head_len m h < 65532"
    "item_class (m (h + 4)) = None" "m (h + 4) \<noteq> 93" "ldn16 m (h + 5) = 0xFFFC"
  shows "attach_impl (Suc d) junk m (h + 4) 0 = Some (Some []) \<and>
    bearer_loop (attach_impl (Suc d) junk) m h (head_len m h + 4) 4 (GtpcPkt 93) = None \<and>
    pkt_attach (Suc (Suc d)) junk m len = None"
proof (intro conjI)
  show t: "attach_impl (Suc d) junk m (h + 4) 0 = Some (Some [])" using assms(10,11) by (simp add: attach_item_def)
  show b: "bearer_loop (attach_impl (Suc d) junk) m h (head_len m h + 4) 4 (GtpcPkt 93) = None"
    using assms(8,12) t by (intro bearer_loop_stays) (simp_all add: add.commute)
  have l: "unat (ldn16 m (h + 1) + 4) = head_len m h + 4" using assms(9) by (simp add: head_len_def unat_word_ariths)
  have "attach_impl (Suc (Suc d)) junk m h (head_len m h + 4) = None" using b assms(7,8) by simp
  then have "attach_loop (attach_impl (Suc (Suc d)) junk) m len 256 h (GtpcPkt (m 1)) = None"
    using l assms(6) by (simp add: numeral_eq_Suc Let_def)
  then show "pkt_attach (Suc (Suc d)) junk m len = None" using assms(2-6) by (simp add: pkt_attach_def h_def)
qed

definition demo_hang :: mem where
  "demo_hang = mem_of 0 ([0x48, 35, 0, 20, 0, 0, 0, 0, 0, 0, 1, 0] @ [93, 0, 8, 0] @ [255, 0xFF, 0xFC, 0, 0, 0, 0, 0])"

theorem zero_length_item_hangs_reader_witness:
  "attach_impl (Suc 5) (\<lambda>_. 0) demo_hang (gtpc_type_headerlen (demo_hang 1) + 4) 0 = Some (Some []) \<and>
   bearer_loop (attach_impl (Suc 5) (\<lambda>_. 0)) demo_hang (gtpc_type_headerlen (demo_hang 1)) (head_len demo_hang (gtpc_type_headerlen (demo_hang 1)) + 4) 4
     (GtpcPkt 93) = None \<and>
   pkt_attach (Suc (Suc 5)) (\<lambda>_. 0) demo_hang 24 = None"
  by (rule zero_length_item_hangs_reader) code_simp+

end
