(* ===== verification/Tools_Sgw.thy ===== *)
theory Tools_Sgw
  imports Tools_Pkt Gtpc_Message Session_Answers
begin

text \<open>
  The requests of the SGW simulator (\<open>tools/src/mod/mod_sgw/func/mixipgw_gtpc_send_*.cc\<close>), and what the control plane's parser finds in them.
\<close>

section \<open>Senders\<close>

text \<open>The addresses of the simulator, the memory behind its objects, and what \<open>send_to\<close> returns.\<close>

record sgw_env =
  v_ipc :: "byte list"
  v_ipu :: "byte list"
  v_junk :: mem
  v_sent :: "byte list \<Rightarrow> nat"

text \<open>The octets handed to \<open>send_to\<close>, with the state after it; \<open>None\<close> there is the exception of a short write.\<close>

type_synonym 's sending = "byte list \<times> 's option"

definition send_to :: "sgw_env \<Rightarrow> byte list \<Rightarrow> 's \<Rightarrow> 's sending" where
  "send_to V buf s = (buf, if v_sent V buf \<noteq> length buf then None else Some s)"

text \<open>A Bearer Context with items appended; its octets are laid out anew after each.\<close>

definition BearerContext :: "mem \<Rightarrow> byte list list \<Rightarrow> byte list option" where
  "BearerContext junk kids = calc (attach_impl 1 junk) 0 (fold pkt_append kids (GtpcPkt 93))"

text \<open>The array \<open>tlv\<close> of the sender of Create Session Requests: packets and octets sent, then limit, current and offset.\<close>

record create_tlv =
  l_packets :: "64 word"
  l_bytes :: "64 word"
  l_limit :: "64 word"
  l_current :: "64 word"
  l_offset :: "64 word"

definition create_next :: "create_tlv \<Rightarrow> create_tlv" where
  "create_next t = t\<lparr>l_current := (if l_current t \<ge> l_offset t + l_limit t - 1 then l_offset t else l_current t + 1)\<rparr>"

definition bitrates :: "64 word list" where
  "bitrates = map (push_bit 10) [2, 4, 8, 16, 32, 64, 128, 256, 512, 1024, 2048, 4096, 8192, 16384]"

definition create_kids_of :: "sgw_env \<Rightarrow> 64 word \<Rightarrow> byte list list" where
  "create_kids_of V n =
     (let r = bitrates ! unat (n mod 14) in
      [Ebi 0 (ucast (n + 1) AND 0xF), Fteid (v_junk V) 0 4 (ucast (n + 1)) (Some (v_ipu V)) None, Bqos 0 0xe r r r r])"

definition create_items_of :: "sgw_env \<Rightarrow> 64 word \<Rightarrow> byte list \<Rightarrow> byte list list" where
  "create_items_of V n b =
     (let r = bitrates ! unat (n mod 14) in
      [Imsi (310149010002000 + n), Msisdn (819010005000 + n), Rat 1, Fteid (v_junk V) 0 6 (ucast n) (Some (v_ipc V)) None, Apn ''test.mixipgw.com'',
       b, Ambr (ucast r) (ucast r)])"

text \<open>The tunnel identifier is written before the second call of \<open>ref\<close>, which clears it.\<close>

definition SendCreateSession :: "sgw_env \<Rightarrow> create_tlv \<Rightarrow> create_tlv sending option" where
  "SendCreateSession V t =
     (let t = create_next t; n = l_current t in
      map_option (\<lambda>b.
          let req = (fold pkt_append (create_items_of V n b) (GtpcPkt 32))\<lparr>k_q := le32 (ucast n)\<rparr> in
          send_to V (pkt_ref req) (t\<lparr>l_packets := l_packets t + 1, l_bytes := l_bytes t + of_nat (pkt_len req) + 42\<rparr>))
        (BearerContext (v_junk V) (create_kids_of V n)))"

text \<open>The other senders work on the counters of a thread, of type \<open>int\<close>, and keep the tunnel identifier.\<close>

record thread_prm =
  tp_current :: int
  tp_offset :: int
  tp_limit :: int
  tp_sent :: nat

definition next_current :: "thread_prm \<Rightarrow> thread_prm" where
  "next_current t = t\<lparr>tp_current := (if tp_current t \<ge> tp_offset t + tp_limit t - 1 then tp_offset t else tp_current t + 1)\<rparr>"

definition sgw_wire :: "32 word \<Rightarrow> gtpcpkt \<Rightarrow> byte list" where
  "sgw_wire teid p = take 4 (pkt_ref p) @ be32 teid @ drop 8 (pkt_ref p)"

definition send_request :: "sgw_env \<Rightarrow> byte \<Rightarrow> byte list list \<Rightarrow> thread_prm \<Rightarrow> thread_prm sending" where
  "send_request V ty items t =
     send_to V (sgw_wire (of_int (tp_current t)) ((fold pkt_append items (GtpcPkt ty))\<lparr>k_q := le32 (of_int (tp_current t))\<rparr>))
       (t\<lparr>tp_sent := tp_sent t + 1\<rparr>)"

definition SendDeleteSession :: "sgw_env \<Rightarrow> thread_prm \<Rightarrow> thread_prm sending" where
  "SendDeleteSession V t = (let t = next_current t in send_request V 36 [Ebi 0 (of_int (tp_current t + 1) AND 0xF)] t)"

definition SendDeleteBearer :: "sgw_env \<Rightarrow> thread_prm \<Rightarrow> thread_prm sending" where
  "SendDeleteBearer V t = (let t = next_current t in send_request V 99 [Ebi 0 1, Pco [0, 0, 0xd, 4, 8, 8, 8, 8]] t)"

definition SendResumeNotification :: "sgw_env \<Rightarrow> thread_prm \<Rightarrow> thread_prm sending" where
  "SendResumeNotification V t = (let t = next_current t in send_request V 164 [Imsi (of_int (310149010002000 + tp_current t))] t)"

text \<open>The identifiers of a Modify Bearer Request are swapped before the constructor swaps them again.\<close>

definition modify_kids_of :: "sgw_env \<Rightarrow> int \<Rightarrow> byte list list" where
  "modify_kids_of V n = [Ebi 0 1, Fteid (v_junk V) 2 5 (bswap32 (of_int (n + 2))) (Some [0xde, 0xad, 0xbe, 0xef]) None]"

definition SendModifyBearer :: "sgw_env \<Rightarrow> thread_prm \<Rightarrow> thread_prm sending option" where
  "SendModifyBearer V t =
     (let t = next_current t; n = tp_current t in
      map_option (\<lambda>b. send_request V 34
          [ServingNetwork [0x44, 0, 1], Rat 1, Fteid (v_junk V) 1 7 (bswap32 (of_int (n + 1))) (Some [0xde, 0xad, 0xbe, 0xef]) None, b, Recovery 1] t)
        (BearerContext (v_junk V) (modify_kids_of V n)))"

definition SendSuspendNotification :: "sgw_env \<Rightarrow> thread_prm \<Rightarrow> thread_prm sending" where
  "SendSuspendNotification V t = send_to V (sgw_wire 0 (GtpcPkt 162)) (t\<lparr>tp_sent := tp_sent t + 1\<rparr>)"

text \<open>An echo is written by hand: eight octets, its sequence number in 24 bits of the first four behind the length.\<close>

definition SendEchoC :: "sgw_env \<Rightarrow> thread_prm \<Rightarrow> thread_prm sending" where
  "SendEchoC V t =
     (let t = t\<lparr>tp_current := (if tp_current t > 0xffff then 0 else tp_current t + 1)\<rparr> in
      send_to V ([0x40, 1] @ be16 4 @ take 3 (le32 (of_int (tp_current t))) @ [0]) (t\<lparr>tp_sent := tp_sent t + 1\<rparr>))"


section \<open>What the control plane finds\<close>

lemma dec_digit_count: "10 ^ k \<le> n \<Longrightarrow> n < 10 ^ Suc k \<Longrightarrow> length (dec n) = Suc k"
proof (induction k arbitrary: n)
  case 0
  then show ?case by (simp add: dec.simps)
next
  case (Suc k)
  have "10 ^ k \<le> n div 10" using Suc.prems(1) by (simp add: less_eq_div_iff_mult_less_eq mult.commute)
  moreover have "n div 10 < 10 ^ Suc k" using Suc.prems(2) by (simp add: div_less_iff_less_mult)
  moreover have "(1 :: nat) \<le> 10 ^ k" by simp
  then have "\<not> n < 10" using Suc.prems(1) unfolding power_Suc by linarith
  ultimately show ?case using Suc.IH by (subst dec.simps) simp
qed

lemma numbers_as_set:
  "length (dec (unat d)) = 15 \<Longrightarrow> gtpc_imsi_set d = Some (Imsi d)" "length (dec (unat e)) = 12 \<Longrightarrow> gtpc_msisdn_set e = Some (Msisdn e)"
proof -
  assume l: "length (dec (unat d)) = 15"
  then have "d \<noteq> 0" by (auto simp: dec.simps)
  with l show "gtpc_imsi_set d = Some (Imsi d)"
    by (simp add: gtpc_imsi_set_def Imsi_def gtpc_digits_set_def number_octets_def Let_def length_pack_digits)
next
  assume l: "length (dec (unat e)) = 12"
  then have "e \<noteq> 0" by (auto simp: dec.simps)
  with l show "gtpc_msisdn_set e = Some (Msisdn e)"
    by (simp add: gtpc_msisdn_set_def Msisdn_def gtpc_digits_set_def number_octets_def Let_def length_pack_digits)
qed

lemma bearer_laid_out:
  assumes "\<forall>k\<in>set kids. taken k \<and> k ! 0 \<noteq> 93" "length (concat kids) \<le> 1514"
  shows "BearerContext junk kids = Some (gbytes (Bctx 0 kids))"
proof -
  have "\<forall>k\<in>set kids. reads (attach_impl 1 junk) k"
    using assms(1) readable.plain [of _ 0] readable_reads [of "Suc 0" _ junk] by auto
  moreover have "k_items (fold pkt_append kids (GtpcPkt 93)) = kids"
    using assms(2) by (subst pkt_append_all) (simp_all add: GtpcPkt_def pkt_len_def gtpc_type_headerlen_def)
  ultimately show ?thesis using assms(2) by (simp add: BearerContext_def calc_def bearer_items_all)
qed

text \<open>Every message of the tools but an echo, if it fits in a frame of the control plane, is taken apart there into its items.\<close>

lemma tools_message_accepted:
  fixes q :: "byte list" and items :: "byte list list" and ty :: byte
  defines "p \<equiv> (fold pkt_append items (GtpcPkt ty))\<lparr>k_q := q\<rparr>"
  assumes "gtpc_type_issupported ty" "ty \<noteq> GTPC_ECHO_REQ" "ty \<noteq> GTPC_ECHO_RES" "length q = 4" "\<forall>b\<in>set items. tlv b" "length items \<le> 255"
    "12 + length (concat items) < ETHER_MAX_LEN" "\<And>k. malloc k"
  shows "\<exists>g. gtpc_alloc_packet_from_payload malloc junk (mem_of 0 (sgw_wire teid p)) (word_of_nat (length (sgw_wire teid p))) = Accepted g \<and>
      contents g = map typed items"
    "sgw_wire 0 p = pkt_ref p" "length (sgw_wire teid p) = 12 + length (concat items)"
proof -
  let ?n = "length (concat items)"
  have h: "gtpc_type_headerlen ty = 12" using assms(3,4) by (simp add: gtpc_type_headerlen_def)
  have f: "k_type p = ty" "k_items p = items" "k_q p = q"
    using assms(8) h unfolding p_def by (subst pkt_append_all; simp add: GtpcPkt_def pkt_len_def)+
  have r: "pkt_ref p = [0x48, ty] @ be16 (word_of_nat (8 + ?n)) @ zeros 4 @ q @ concat items"
    by (simp add: pkt_ref_def pkt_len_def f h)
  have w: "sgw_wire teid p = [0x48, ty] @ be16 (word_of_nat (8 + ?n)) @ be32 teid @ q @ concat items" for teid
    by (simp add: sgw_wire_def r be16_def zeros_def)
  show l: "length (sgw_wire teid p) = 12 + ?n" using assms(5) by (simp add: w)
  show "sgw_wire 0 p = pkt_ref p" by (simp add: w r be32_def zeros_def byte_of_def numeral_eq_Suc)
  let ?m = "mem_of 0 (sgw_wire teid p)"
  have nth: "?m i = sgw_wire teid p ! i" if "i < 12 + ?n" for i using nth_rd_bytes [of i "12 + ?n" ?m 0] that rd_mem_of [OF l] by simp
  have u: "unat (word_of_nat (length (sgw_wire teid p)) :: 16 word) = 12 + ?n"
    using l assms(8) unat_len16 [of "sgw_wire teid p"] by simp
  show "\<exists>g. gtpc_alloc_packet_from_payload malloc junk ?m (word_of_nat (length (sgw_wire teid p))) = Accepted g \<and> contents g = map typed items"
  proof (rule payload_parses [OF _ _ assms(2-4) _ _ _ _ assms(6,7,9)])
    show "?m 0 = 0x48" "?m 1 = ty" using nth [of 0] nth [of 1] by (simp_all add: w)
    have "unat (word_of_nat (8 + ?n) :: 16 word) = 8 + ?n" using assms(8) unat_small(1) [of "8 + ?n"] by simp
    moreover have "ldn16 ?m 2 = word_of_nat (8 + ?n)" using nth [of 2] nth [of 3] by (simp add: w ldn16_def ld16_def be16_def)
    ultimately show "unat (ldn16 ?m 2) + 4 = unat (word_of_nat (length (sgw_wire teid p)) :: 16 word)" using u by simp
    have "drop 12 (rd_bytes ?m 0 (12 + ?n)) = rd_bytes ?m 12 ?n" unfolding rd_bytes_add by simp
    moreover have "drop 12 (sgw_wire teid p) = concat items" using assms(5) by (simp add: w be16_def be32_def)
    ultimately show "rd_bytes ?m 12 ?n = concat items" using rd_mem_of [OF l] by simp
  qed (use u assms(8) in simp_all)
qed


section \<open>Properties\<close>

lemma simulator_items:
  assumes "length ip = 4"
  shows "tlv (Fteid junk inst ift te (Some ip) None)" "Fteid junk inst ift te (Some ip) None ! 0 = 87" "length (Fteid junk inst ift te (Some ip) None) = 13"
    "take 4 (drop 5 (put (zeros 25) (Fteid junk inst ift te (Some ip) None))) = be32 te"
    "take 4 (drop 9 (put (zeros 25) (Fteid junk inst ift te (Some ip) None))) = ip"
proof -
  note F = Fteid_v4 [OF assms]
  show "tlv (Fteid junk inst ift te (Some ip) None)" using Fteid_taken [OF assms] by (simp add: taken_def)
  show "Fteid junk inst ift te (Some ip) None ! 0 = 87" "length (Fteid junk inst ift te (Some ip) None) = 13"
    using assms by (simp_all add: F comm_header_def)
  show "take 4 (drop 5 (put (zeros 25) (Fteid junk inst ift te (Some ip) None))) = be32 te"
    "take 4 (drop 9 (put (zeros 25) (Fteid junk inst ift te (Some ip) None))) = ip"
    using assms by (simp_all add: F put_def comm_header_def be16_def be32_def)
qed

lemma fixed_item_heads:
  "Imsi d ! 0 = 1" "Msisdn d ! 0 = 76" "Rat r ! 0 = 82" "Ambr u dn ! 0 = 72" "Ebi i e ! 0 = 73" "Bqos f qc b1 b2 b3 b4 ! 0 = 80" "Recovery c ! 0 = 3"
  "length (Rat r) = 5" "length (Ambr u dn) = 12" "length (Recovery c) = 5"
  by (simp_all add: constructor_defs comm_header_def)

lemma taken_tlv: "taken b \<Longrightarrow> tlv b"
  by (simp add: taken_def)

lemma Apn_simulator: "tlv (Apn ''test.mixipgw.com'')" "length (Apn ''test.mixipgw.com'') = 21" "Apn ''test.mixipgw.com'' ! 0 = 71"
  by code_simp+

lemmas simulator_facts = simulator_items fixed_item_heads tool_item_lengths Apn_simulator taken_tlv fixed_items_taken

definition create_gitems :: "sgw_env \<Rightarrow> 64 word \<Rightarrow> gitem list" where
  "create_gitems V n = map (\<lambda>b. if b ! 0 = 93 then Bctx 0 (create_kids_of V n) else Plain b) (create_items_of V n (gbytes (Bctx 0 (create_kids_of V n))))"

lemma create_gitems_unfold:
  assumes "length (v_ipc V) = 4"
  shows "create_gitems V n = (let r = bitrates ! unat (n mod 14) in
    [Plain (Imsi (310149010002000 + n)), Plain (Msisdn (819010005000 + n)), Plain (Rat 1), Plain (Fteid (v_junk V) 0 6 (ucast n) (Some (v_ipc V)) None),
     Plain (Apn ''test.mixipgw.com''), Bctx 0 (create_kids_of V n), Plain (Ambr (ucast r) (ucast r))])"
  using assms by (simp add: create_gitems_def create_items_of_def Let_def simulator_facts)

lemma create_gitems_ok:
  assumes "length (v_ipc V) = 4" "length (v_ipu V) = 4"
  shows "\<forall>g\<in>set (create_gitems V n). gitem_ok g" "map gbytes (create_gitems V n) = create_items_of V n (gbytes (Bctx 0 (create_kids_of V n)))"
    "length (concat (map gbytes (create_gitems V n))) = 121" "\<forall>k\<in>set (create_kids_of V n). taken k \<and> k ! 0 \<noteq> 93" "length (concat (create_kids_of V n)) = 44"
proof -
  show k: "\<forall>k\<in>set (create_kids_of V n). taken k \<and> k ! 0 \<noteq> 93" "length (concat (create_kids_of V n)) = 44"
    using assms by (simp_all add: create_kids_of_def Let_def simulator_facts Fteid_taken)
  show "map gbytes (create_gitems V n) = create_items_of V n (gbytes (Bctx 0 (create_kids_of V n)))"
    using assms by (simp add: create_gitems_unfold create_items_of_def Let_def)
  show "\<forall>g\<in>set (create_gitems V n). gitem_ok g"
    using assms k by (simp add: create_gitems_unfold Let_def simulator_facts) (simp add: create_kids_of_def Let_def)
  show "length (concat (map gbytes (create_gitems V n))) = 121"
    using assms k(2) by (simp add: create_gitems_unfold Let_def simulator_facts)
qed

lemma create_selected:
  assumes "length (v_ipc V) = 4" "length (v_ipu V) = 4"
  shows "filter (sized 1 (\<lambda>n. n \<le> 12)) (roots (create_gitems V n)) = [Imsi (310149010002000 + n)]"
    "filter (sized 76 (\<lambda>n. n \<le> 10)) (roots (create_gitems V n)) = [Msisdn (819010005000 + n)]"
    "filter (sized 87 (\<lambda>n. n = 25 \<or> n = 13)) (roots (create_gitems V n)) = [Fteid (v_junk V) 0 6 (ucast n) (Some (v_ipc V)) None]"
    "filter (sized 87 (\<lambda>n. n = 25 \<or> n = 13)) (nesteds (create_gitems V n)) = [Fteid (v_junk V) 0 4 (ucast (n + 1)) (Some (v_ipu V)) None]"
    "\<exists>b \<in> set (roots (create_gitems V n)). sized 72 (\<lambda>n. n = 12) b" "\<exists>b \<in> set (nesteds (create_gitems V n)). sized 80 (\<lambda>n. n = 26) b"
  using assms by (simp_all add: create_gitems_unfold create_kids_of_def roots_def nesteds_def Let_def sized_def simulator_facts)


text \<open>The counters wrap within their range: with a range that does not overflow, the subscriber is always one of the range.\<close>

lemma create_next_range:
  assumes "unat (l_offset t) + unat (l_limit t) < 2 ^ 64" "l_limit t \<noteq> 0" "l_offset t \<le> l_current t"
  shows "l_offset t \<le> l_current (create_next t) \<and> unat (l_current (create_next t)) < unat (l_offset t) + unat (l_limit t)"
proof -
  let ?e = "l_offset t + l_limit t - 1"
  have pos: "0 < unat (l_limit t)" using assms(2) by (simp add: unat_eq_0 zero_less_iff_neq_zero)
  have s: "unat (l_offset t + l_limit t) = unat (l_offset t) + unat (l_limit t)" using assms(1) by (simp add: unat_word_ariths)
  then have "1 \<le> l_offset t + l_limit t" using pos by (simp add: word_le_nat_alt)
  then have e: "unat ?e = unat (l_offset t) + unat (l_limit t) - 1" by (simp add: unat_sub s)
  show ?thesis
  proof (cases "l_current t \<ge> ?e")
    case True
    then show ?thesis using pos by (simp add: create_next_def)
  next
    case False
    then have c: "unat (l_current t) < unat ?e" by (simp add: word_le_nat_alt)
    then have "unat (l_current t + 1) = unat (l_current t) + 1" using e assms(1) by (simp add: unat_word_ariths)
    then show ?thesis using False assms(3) c e by (simp add: create_next_def word_le_nat_alt)
  qed
qed

lemma filter_hit: "filter P xs = y # ys \<Longrightarrow> \<exists>b\<in>set xs. P b"
  by (metis filter_False list.distinct(1))

abbreviation create_request :: "sgw_env \<Rightarrow> 64 word \<Rightarrow> gtpcpkt" where
  "create_request V n \<equiv> (fold pkt_append (create_items_of V n (gbytes (Bctx 0 (create_kids_of V n)))) (GtpcPkt 32))\<lparr>k_q := le32 (ucast n)\<rparr>"

lemma create_sent:
  assumes "length (v_ipc V) = 4" "length (v_ipu V) = 4" "n = l_current (create_next t)"
  shows "\<exists>st. SendCreateSession V t = Some (pkt_ref (create_request V n), st)"
proof -
  have "BearerContext (v_junk V) (create_kids_of V n) = Some (gbytes (Bctx 0 (create_kids_of V n)))"
    using create_gitems_ok [OF assms(1,2), of n] by (intro bearer_laid_out) simp_all
  then show ?thesis unfolding SendCreateSession_def send_to_def Let_def assms(3) [symmetric] by (simp only: option.map) blast
qed

lemma create_accepted:
  assumes "length (v_ipc V) = 4" "length (v_ipu V) = 4" "\<And>k. malloc k"
  obtains g where
    "gtpc_alloc_packet_from_payload malloc junk (mem_of 0 (pkt_ref (create_request V n))) (word_of_nat (length (pkt_ref (create_request V n)))) = Accepted g"
    "contents g = map (typed \<circ> gbytes) (create_gitems V n)"
proof -
  note ok = create_gitems_ok [OF assms(1,2), of n]
  let ?items = "create_items_of V n (gbytes (Bctx 0 (create_kids_of V n)))"
  have len: "length (concat ?items) = 121" "length ?items = 7" using ok(3) unfolding ok(2) by (simp_all only: create_items_of_def Let_def list.size)
  have tl: "\<forall>b\<in>set ?items. tlv b" using ok(1) gitem_tlv unfolding ok(2) [symmetric] set_map by blast
  have w: "sgw_wire 0 (create_request V n) = pkt_ref (create_request V n)"
    by (rule tools_message_accepted(2)) (use tl len assms(3) in \<open>simp_all add: gtpc_type_issupported_def\<close>)
  have "\<exists>g. gtpc_alloc_packet_from_payload malloc junk (mem_of 0 (sgw_wire 0 (create_request V n))) (word_of_nat (length (sgw_wire 0 (create_request V n)))) = Accepted g \<and>
      contents g = map typed ?items" by (rule tools_message_accepted(1)) (use tl len assms(3) in \<open>simp_all add: gtpc_type_issupported_def\<close>)
  note this [unfolded w]
  with that show ?thesis unfolding ok(2) [symmetric] map_map by blast
qed

lemma create_collected:
  assumes "length (v_ipc V) = 4" "length (v_ipu V) = 4" "contents g = map (typed \<circ> gbytes) (create_gitems V n)"
  obtains cs where "gtpc_iterate_item g (on_gtpc_parse_root junk) zero_state = (cs, True)" "flag cs AND INCLUDED_ALL = INCLUDED_ALL"
    "c_teid cs = put (zeros 25) (Fteid (v_junk V) 0 6 (ucast n) (Some (v_ipc V)) None)"
    "u_teid cs = put (zeros 25) (Fteid (v_junk V) 0 4 (ucast (n + 1)) (Some (v_ipu V)) None)"
proof -
  note sel = create_selected [OF assms(1,2), of n]
  note r = sel(2-4) [THEN filter_hit]
  from collected_items [OF assms(3) create_gitems_ok(1) [OF assms(1,2)], of junk] that
  show ?thesis unfolding sel(3,4) foldl.simps using r sel(5,6) by blast
qed

text \<open>C21: a Create Session Request of the simulator is complete for the control plane: it is laid out and sent whatever lies behind the simulator's
  objects; the control plane's parser accepts its octets and iterates over the items to the end; all mandatory items are there, the numbers read are those of
  the subscriber, and both F-TEIDs carry the identifiers and addresses the simulator meant.\<close>

theorem simulator_request_complete:
  fixes t :: create_tlv
  defines "n \<equiv> l_current (create_next t)"
  assumes "length (v_ipc V) = 4" "length (v_ipu V) = 4" "unat n < 180000000000"
  shows "\<exists>octets st. SendCreateSession V t = Some (octets, st) \<and>
    (\<forall>malloc junk junk'. (\<forall>k. malloc k) \<longrightarrow>
      (\<exists>g cs. gtpc_alloc_packet_from_payload malloc junk (mem_of 0 octets) (word_of_nat (length octets)) = Accepted g \<and>
        gtpc_iterate_item g (on_gtpc_parse_root junk') zero_state = (cs, True) \<and> flag cs AND INCLUDED_ALL = INCLUDED_ALL \<and>
        gtpc_digits_get False (drop 4 (imsi cs)) = 310149010002000 + n \<and> gtpc_digits_get False (drop 4 (msisdn cs)) = 819010005000 + n \<and>
        take 4 (drop 5 (c_teid cs)) = be32 (ucast n) \<and> take 4 (drop 9 (c_teid cs)) = v_ipc V \<and>
        take 4 (drop 5 (u_teid cs)) = be32 (ucast (n + 1)) \<and> take 4 (drop 9 (u_teid cs)) = v_ipu V))"
proof -
  have num: "unat (310149010002000 + n) = 310149010002000 + unat n" "unat (819010005000 + n) = 819010005000 + unat n"
    using assms(4) by (simp_all add: unat_word_ariths)
  have d: "length (dec (unat (310149010002000 + n))) = 15" "length (dec (unat (819010005000 + n))) = 12"
    using dec_digit_count [of 14 "unat (310149010002000 + n)"] dec_digit_count [of 11 "unat (819010005000 + n)"] assms(4) num by simp_all
  obtain st where s: "SendCreateSession V t = Some (pkt_ref (create_request V n), st)" using create_sent [OF assms(2,3) n_def [THEN meta_eq_to_obj_eq]] by blast
  show ?thesis
  proof (rule exI, rule exI, rule conjI [OF s], intro allI impI)
    fix malloc junk junk' assume m: "\<forall>k::nat. malloc k"
    obtain g where g: "gtpc_alloc_packet_from_payload malloc junk (mem_of 0 (pkt_ref (create_request V n)))
          (word_of_nat (length (pkt_ref (create_request V n)))) = Accepted g" "contents g = map (typed \<circ> gbytes) (create_gitems V n)"
      by (rule create_accepted [OF assms(2,3) m [rule_format]])
    obtain cs where cs: "gtpc_iterate_item g (on_gtpc_parse_root junk') zero_state = (cs, True)" "flag cs AND INCLUDED_ALL = INCLUDED_ALL"
        "c_teid cs = put (zeros 25) (Fteid (v_junk V) 0 6 (ucast n) (Some (v_ipc V)) None)"
        "u_teid cs = put (zeros 25) (Fteid (v_junk V) 0 4 (ucast (n + 1)) (Some (v_ipu V)) None)"
      by (rule create_collected [OF assms(2,3) g(2)])
    have "gtpc_digits_get False (drop 4 (imsi cs)) = 310149010002000 + n \<and> gtpc_digits_get False (drop 4 (msisdn cs)) = 819010005000 + n"
      using subscriber_numbers_survive [OF numbers_as_set(1) [OF d(1)] numbers_as_set(2) [OF d(2)] g(2) create_gitems_ok(1) [OF assms(2,3)]
          create_selected(1,2) [OF assms(2,3)], of junk' False] cs(1) unfolding if_False by (metis prod.inject)
    then show "\<exists>g cs. gtpc_alloc_packet_from_payload malloc junk (mem_of 0 (pkt_ref (create_request V n))) (word_of_nat (length (pkt_ref (create_request V n)))) = Accepted g \<and>
        gtpc_iterate_item g (on_gtpc_parse_root junk') zero_state = (cs, True) \<and> flag cs AND INCLUDED_ALL = INCLUDED_ALL \<and>
        gtpc_digits_get False (drop 4 (imsi cs)) = 310149010002000 + n \<and> gtpc_digits_get False (drop 4 (msisdn cs)) = 819010005000 + n \<and>
        take 4 (drop 5 (c_teid cs)) = be32 (ucast n) \<and> take 4 (drop 9 (c_teid cs)) = v_ipc V \<and>
        take 4 (drop 5 (u_teid cs)) = be32 (ucast (n + 1)) \<and> take 4 (drop 9 (u_teid cs)) = v_ipu V"
      using g(1) cs(1,2) simulator_items(4,5) [OF assms(2), of "v_junk V" 0 6 "ucast n"] simulator_items(4,5) [OF assms(3), of "v_junk V" 0 4 "ucast (n + 1)"]
      unfolding cs(3,4) [symmetric] by blast
  qed
qed


definition demo_sgw :: sgw_env where
  "demo_sgw = \<lparr>v_ipc = [10, 0, 0, 1], v_ipu = [10, 0, 0, 2], v_junk = (\<lambda>_. 0), v_sent = length\<rparr>"

definition demo_tlv :: create_tlv where
  "demo_tlv = \<lparr>l_packets = 0, l_bytes = 0, l_limit = 10, l_current = 3, l_offset = 0\<rparr>"

theorem simulator_request_complete_witness:
  "\<exists>octets st. SendCreateSession demo_sgw demo_tlv = Some (octets, st) \<and>
    (\<forall>malloc junk junk'. (\<forall>k. malloc k) \<longrightarrow>
      (\<exists>g cs. gtpc_alloc_packet_from_payload malloc junk (mem_of 0 octets) (word_of_nat (length octets)) = Accepted g \<and>
        gtpc_iterate_item g (on_gtpc_parse_root junk') zero_state = (cs, True) \<and> flag cs AND INCLUDED_ALL = INCLUDED_ALL \<and>
        gtpc_digits_get False (drop 4 (imsi cs)) = 310149010002004 \<and> gtpc_digits_get False (drop 4 (msisdn cs)) = 819010005004 \<and>
        take 4 (drop 5 (c_teid cs)) = be32 4 \<and> take 4 (drop 9 (c_teid cs)) = [10, 0, 0, 1] \<and>
        take 4 (drop 5 (u_teid cs)) = be32 5 \<and> take 4 (drop 9 (u_teid cs)) = [10, 0, 0, 2]))"
proof -
  have n: "l_current (create_next demo_tlv) = 4" by code_simp
  have v: "v_ipc demo_sgw = [10, 0, 0, 1]" "v_ipu demo_sgw = [10, 0, 0, 2]" by (simp_all add: demo_sgw_def)
  show ?thesis using simulator_request_complete [of demo_sgw demo_tlv, unfolded n v] by simp
qed

end
