(* ===== verification/Tools_Lookup.thy ===== *)
theory Tools_Lookup
  imports Session_Table
begin

text \<open>
  The tables of the tools' packet filters, \<open>DualBufferedLookupTable\<close> (\<open>tools/src/lib_lookup/dual_buffered_lookup_table.hh\<close>): 65536 slots with two sides each, a
  bitmap of the sides in front and a bitmap of slots that have changed. An item is its valid bit and the rest of it. The key of a slot is the low half of
  a tunnel identifier, which has 16 bits, so the checks against the number of slots never fail and no operation throws.
\<close>

section \<open>Operations\<close>

record 'i dual =
  side_a :: "16 word \<Rightarrow> bool \<times> 'i"
  side_b :: "16 word \<Rightarrow> bool \<times> 'i"
  side_bmp :: "nat \<Rightarrow> 64 word"
  notice_bmp :: "nat \<Rightarrow> 64 word"
  clock_counter :: "64 word"
  clock_counter_prv :: "64 word"

definition teid_gcnt :: "32 word \<Rightarrow> 16 word" where
  "teid_gcnt key = ucast key"

definition slot_bit :: "16 word \<Rightarrow> 64 word" where
  "slot_bit g = push_bit (unat (g - push_bit 6 (drop_bit 6 g))) 1"

definition dual_Clear :: "'i \<Rightarrow> 'i dual" where
  "dual_Clear z = \<lparr>side_a = (\<lambda>_. (False, z)), side_b = (\<lambda>_. (False, z)), side_bmp = (\<lambda>_. 0), notice_bmp = (\<lambda>_. 0),
     clock_counter = 0, clock_counter_prv = 0\<rparr>"

definition dual_Clock :: "'i dual \<Rightarrow> 'i dual" where
  "dual_Clock t = t\<lparr>clock_counter := clock_counter t + 1\<rparr>"

definition a_in_front :: "'i dual \<Rightarrow> 16 word \<Rightarrow> bool" where
  "a_in_front t g \<longleftrightarrow> side_bmp t (unat (drop_bit 6 g)) AND slot_bit g \<noteq> 0"

text \<open>\<open>Find\<close>: whether the iterator is at side a; with the flag set always that of the back, else that of the front if it is valid.\<close>

definition dual_Find :: "'i dual \<Rightarrow> 32 word \<Rightarrow> bool \<Rightarrow> bool option" where
  "dual_Find t key flag =
     (let g = teid_gcnt key in
      if flag then Some (\<not> a_in_front t g)
      else if a_in_front t g then (if fst (side_a t g) then Some True else None)
      else if fst (side_b t g) then Some False else None)"

definition dual_at :: "'i dual \<Rightarrow> 16 word \<Rightarrow> bool \<Rightarrow> bool \<times> 'i" where
  "dual_at t g s = (if s then side_a t g else side_b t g)"

definition dual_put :: "16 word \<Rightarrow> bool \<Rightarrow> bool \<times> 'i \<Rightarrow> 'i dual \<Rightarrow> 'i dual" where
  "dual_put g s v t = (if s then t\<lparr>side_a := (side_a t)(g := v)\<rparr> else t\<lparr>side_b := (side_b t)(g := v)\<rparr>)"

definition dual_SwapSide :: "32 word \<Rightarrow> 'i dual \<Rightarrow> 'i dual" where
  "dual_SwapSide key t =
     (let g = teid_gcnt key; w = unat (drop_bit 6 g) in t\<lparr>side_bmp := (side_bmp t)(w := side_bmp t w XOR slot_bit g)\<rparr>)"

definition NotifyChange :: "32 word \<Rightarrow> 'i dual \<Rightarrow> 'i dual" where
  "NotifyChange key t =
     (let g = teid_gcnt key; w = unat (drop_bit 6 g) in t\<lparr>notice_bmp := (notice_bmp t)(w := notice_bmp t w XOR slot_bit g)\<rparr>)"

definition FindNoticeBmp64 :: "'i dual \<Rightarrow> 16 word \<Rightarrow> 64 word" where
  "FindNoticeBmp64 t g = notice_bmp t (unat (drop_bit 6 g))"

definition ClearNoticeBmp64 :: "16 word \<Rightarrow> 'i dual \<Rightarrow> 'i dual" where
  "ClearNoticeBmp64 g t = t\<lparr>notice_bmp := (notice_bmp t)(unat (drop_bit 6 g) := 0)\<rparr>"

text \<open>The check that \<open>Add\<close> and \<open>Del\<close> start with; \<open>None\<close> is \<open>RETERR\<close>.\<close>

definition clock_check :: "bool \<Rightarrow> 'i dual \<Rightarrow> 'i dual option" where
  "clock_check nochk_counter t =
     (if nochk_counter then if clock_counter t \<le> clock_counter_prv t then None else Some (t\<lparr>clock_counter_prv := clock_counter t\<rparr>) else Some t)"

definition dual_write :: "32 word \<Rightarrow> bool \<times> 'i \<Rightarrow> 'i dual \<Rightarrow> 'i dual" where
  "dual_write key v t = NotifyChange key (dual_SwapSide key (dual_put (teid_gcnt key) (\<not> a_in_front t (teid_gcnt key)) v t))"

definition dual_Add :: "32 word \<Rightarrow> 'i \<Rightarrow> bool \<Rightarrow> 'i dual \<Rightarrow> 'i dual option" where
  "dual_Add key itm nochk_counter t = map_option (dual_write key (True, itm)) (clock_check nochk_counter t)"

definition dual_Del :: "32 word \<Rightarrow> bool \<Rightarrow> 'i dual \<Rightarrow> 'i dual option" where
  "dual_Del key nochk_counter t =
     map_option (\<lambda>t. let g = teid_gcnt key in dual_write key (False, snd (dual_at t g (\<not> a_in_front t g))) t) (clock_check nochk_counter t)"

text \<open>\<open>operator[]\<close> gives the side to write through, and makes it valid.\<close>

definition dual_index :: "32 word \<Rightarrow> 'i dual \<Rightarrow> 'i dual \<times> bool" where
  "dual_index key t =
     (let g = teid_gcnt key in
      case dual_Find t key False of
        Some s \<Rightarrow> (dual_put g s (True, snd (dual_at t g s)) t, s)
      | None \<Rightarrow> let s = (\<not> a_in_front t g) in (dual_SwapSide key (dual_put g s (True, snd (dual_at t g s)) t), s))"

text \<open>\<open>EnumerateForUpdate\<close>: as in the data plane, slot 0 is left out of the copies but not of the swap.\<close>

definition enum_item :: "('i \<Rightarrow> 'u \<Rightarrow> 'i \<times> 'u) \<Rightarrow> 'i dual \<times> 'u \<Rightarrow> 16 word \<Rightarrow> 'i dual \<times> 'u" where
  "enum_item func tu g =
     (let (t, u) = tu; s = a_in_front t g; (v, u) = func (snd (dual_at t g s)) u in (dual_put g (\<not> s) (True, v) t, u))"

definition dual_EnumerateForUpdate :: "('i \<Rightarrow> 'u \<Rightarrow> 'i \<times> 'u) \<Rightarrow> 'u \<Rightarrow> 'i dual \<Rightarrow> 'i dual \<times> 'u" where
  "dual_EnumerateForUpdate func u t =
     (let (t, u) = foldl (enum_item func) (t, u) (map word_of_nat [1..<65536]) in
      (t\<lparr>side_bmp := (\<lambda>w. if w < 1024 then side_bmp t w XOR (- 1) else side_bmp t w)\<rparr>, u))"

section \<open>What a lookup sees\<close>

lemma slot_of: "unat (drop_bit 6 (g :: 16 word)) = unat g div 64" "unat (g - push_bit 6 (drop_bit 6 g)) = unat g mod 64"
proof -
  show "unat (drop_bit 6 g) = unat g div 64" by (simp add: drop_bit_eq_div unat_div)
  have "push_bit 6 (drop_bit 6 g) = g - take_bit 6 g" using bits_ident [of 6 g] by (simp add: algebra_simps)
  then show "unat (g - push_bit 6 (drop_bit 6 g)) = unat g mod 64" by (simp add: take_bit_eq_mod unat_mod)
qed

lemma bit_slot_bit: "bit (slot_bit g) n \<longleftrightarrow> n = unat g mod 64"
  by (auto simp: slot_bit_def slot_of bit_simps dest: bit_imp_le_length)

lemma and_slot_bit: "w AND slot_bit g \<noteq> 0 \<longleftrightarrow> bit w (unat g mod 64)"
  by (simp add: slot_bit_def slot_of bit_iff_and_push_bit_not_eq_0)

lemma slot_eq: "unat (g :: 16 word) div 64 = unat g' div 64 \<Longrightarrow> unat g mod 64 = unat g' mod 64 \<Longrightarrow> g = g'"
  by (metis div_mult_mod_eq word_unat_eq_iff)

lemma a_in_front_bit: "a_in_front t g \<longleftrightarrow> bit (side_bmp t (unat g div 64)) (unat g mod 64)"
  by (simp add: a_in_front_def and_slot_bit slot_of)

lemma front_swapped [simp]: "a_in_front (dual_SwapSide key t) g \<longleftrightarrow> (if g = teid_gcnt key then \<not> a_in_front t g else a_in_front t g)"
  by (auto simp: a_in_front_bit dual_SwapSide_def Let_def slot_of bit_simps bit_slot_bit dest: slot_eq)

lemma dual_frames [simp]:
  "a_in_front (NotifyChange key t) = a_in_front t" "a_in_front (dual_put g s v t) = a_in_front t" "a_in_front (ClearNoticeBmp64 g t) = a_in_front t"
  "side_a (dual_SwapSide key t) = side_a t" "side_b (dual_SwapSide key t) = side_b t"
  "side_a (NotifyChange key t) = side_a t" "side_b (NotifyChange key t) = side_b t"
  "notice_bmp (dual_SwapSide key t) = notice_bmp t" "notice_bmp (dual_put g s v t) = notice_bmp t"
  by (auto simp: fun_eq_iff a_in_front_def NotifyChange_def dual_put_def dual_SwapSide_def ClearNoticeBmp64_def Let_def)

lemma dual_at_frames [simp]:
  "dual_at (dual_put g s v t) g' s' = (if g' = g \<and> s' = s then v else dual_at t g' s')"
  "dual_at (dual_SwapSide key t) = dual_at t" "dual_at (NotifyChange key t) = dual_at t"
  by (auto simp: fun_eq_iff dual_at_def dual_put_def)

definition dual_front :: "'i dual \<Rightarrow> 16 word \<Rightarrow> bool \<times> 'i" where
  "dual_front t g = dual_at t g (a_in_front t g)"

definition dual_lookup :: "'i dual \<Rightarrow> 16 word \<Rightarrow> 'i option" where
  "dual_lookup t g = (if fst (dual_front t g) then Some (snd (dual_front t g)) else None)"

lemma Find_lookup: "dual_lookup t (teid_gcnt key) = map_option (\<lambda>s. snd (dual_at t (teid_gcnt key) s)) (dual_Find t key False)"
  by (simp add: dual_lookup_def dual_Find_def dual_front_def dual_at_def Let_def)

lemma front_written: "dual_front (dual_write key v t) g = (if g = teid_gcnt key then v else dual_front t g)"
  by (auto simp: dual_front_def dual_write_def)

lemma lookup_written: "dual_lookup (dual_write key v t) g = (if g = teid_gcnt key then if fst v then Some (snd v) else None else dual_lookup t g)"
  by (simp add: dual_lookup_def front_written)

text \<open>The contract of a table, for changes that do not look at the clock.\<close>

definition tools_store :: "'i dual \<Rightarrow> 16 word \<Rightarrow> 'i \<Rightarrow> 'i dual" where
  "tools_store t g v = (case dual_Add (ucast g) v False t of Some t' \<Rightarrow> t' | None \<Rightarrow> t)"

definition tools_erase :: "'i dual \<Rightarrow> 16 word \<Rightarrow> 'i dual" where
  "tools_erase t g = (case dual_Del (ucast g) False t of Some t' \<Rightarrow> t' | None \<Rightarrow> t)"

lemma gcnt_ucast [simp]: "teid_gcnt (ucast g) = g"
  by (rule bit_eqI) (auto simp: teid_gcnt_def bit_simps dest: bit_imp_le_length)

interpretation tools_table: session_table "\<lambda>_. True" "\<lambda>_ _. True" dual_lookup tools_store tools_erase "\<lambda>v. v"
  by unfold_locales (simp_all add: tools_store_def tools_erase_def dual_Add_def dual_Del_def clock_check_def lookup_written Let_def)

section \<open>Properties\<close>

text \<open>the tables of the filters answer by the last change: after any sequence of additions and deletions, a lookup of a tunnel gives the item added last, or
  nothing if it was deleted since, and other tunnels are untouched - tunnels whose identifiers differ in the upper half are one.\<close>

theorem tools_table_answers_last_change:
  "dual_lookup (foldl tools_table.apply_event t es) (teid_gcnt key) = expected (\<lambda>v. v) (dual_lookup t (teid_gcnt key)) (teid_gcnt key) es"
  by (rule tools_table.find_apply_events) simp_all

text \<open>Changes since a notice was taken are toggled, not set.\<close>

lemma notice_bit: "bit (FindNoticeBmp64 (NotifyChange key t) g) (unat g mod 64) \<longleftrightarrow>
    (bit (FindNoticeBmp64 t g) (unat g mod 64) \<noteq> (g = teid_gcnt key))"
  by (auto simp: FindNoticeBmp64_def NotifyChange_def Let_def slot_of bit_simps bit_slot_bit dest: slot_eq)

lemma notice_written: "bit (FindNoticeBmp64 (dual_write key v t) g) (unat g mod 64) \<longleftrightarrow>
    (bit (FindNoticeBmp64 t g) (unat g mod 64) \<noteq> (g = teid_gcnt key))"
  unfolding dual_write_def notice_bit by (simp add: FindNoticeBmp64_def)

text \<open>two changes hide each other: the bitmap of changed slots is toggled, so after it was cleared a slot shows as changed only if the number of its
  changes since is odd, and a slot added to twice before the next look is missed.\<close>

theorem even_changes_unnoticed:
  "bit (FindNoticeBmp64 (foldl (\<lambda>t (k, v). dual_write k (True, v) t) (ClearNoticeBmp64 g t) cs) g) (unat g mod 64) \<longleftrightarrow>
     odd (length (filter (\<lambda>(k, v). teid_gcnt k = g) cs))"
proof (induction cs rule: rev_induct)
  case Nil
  then show ?case by (simp add: FindNoticeBmp64_def ClearNoticeBmp64_def)
next
  case (snoc c cs)
  then show ?case by (cases c) (auto simp: notice_written)
qed

end
