(* ===== verification/Tools_Meter.thy ===== *)
theory Tools_Meter
  imports Tools_Lookup
begin

text \<open>
  The policer inside the tools' GTP-U filters (\<open>tools/src/lib/filter/gtpu_encap.cc\<close>, \<open>gtpu_decap.cc\<close>), meant to be that of RFC 4115: two buckets of tokens in a
  dual-buffered table, filled up when the counter of seconds has advanced since the epoch of the entry. An enforcer drops red packets, a marker only marks them.
  The item in front is changed in place before the back is filled from it.
\<close>

section \<open>Policer\<close>

record policer =
  po_epoch :: "32 word"
  c_rate :: "32 word"
  c_burst :: "32 word"
  c_info :: "32 word"
  e_rate :: "32 word"
  e_burst :: "32 word"
  e_info :: "32 word"

datatype colour = Green | Yellow | Red

definition refilled :: "32 word \<Rightarrow> policer \<Rightarrow> policer" where
  "refilled now p =
     (let dt = now - po_epoch p in
      if dt \<noteq> 0 then p\<lparr>c_rate := min (c_burst p) (c_rate p + c_info p * dt), e_rate := min (e_burst p) (e_rate p + e_info p * dt)\<rparr> else p)"

definition paint :: "32 word \<Rightarrow> policer \<Rightarrow> colour" where
  "paint len p = (if len \<le> c_rate p then Green else if len \<le> e_rate p then Yellow else Red)"

definition spend :: "32 word \<Rightarrow> colour \<Rightarrow> policer \<Rightarrow> policer" where
  "spend len c p =
     (case c of Green \<Rightarrow> p\<lparr>c_rate := c_rate p - len\<rparr> | Yellow \<Rightarrow> p\<lparr>e_rate := e_rate p - len\<rparr> | Red \<Rightarrow> p)"

text \<open>
  What the filters have in common: \<open>stamp\<close> tells whether a packet that passes sets the epoch of the entry (all but the marker that encapsulates),
  \<open>enforce\<close> whether a red one leaves the sides as they are and changes are noticed. A red packet does not make the back valid. \<open>None\<close>: no entry.
\<close>

definition meter :: "bool \<Rightarrow> bool \<Rightarrow> 32 word \<Rightarrow> 32 word \<Rightarrow> 32 word \<Rightarrow> policer dual \<Rightarrow> policer dual \<times> colour option" where
  "meter stamp enforce now key len t =
     (let g = teid_gcnt key in
      case dual_Find t key False of
        None \<Rightarrow> (t, None)
      | Some s \<Rightarrow>
          let f = refilled now (snd (dual_at t g s)); (valid, b) = dual_at t g (\<not> s); c = paint len f;
              b' = (spend len c f)\<lparr>po_epoch := (if c \<noteq> Red \<and> stamp then now else po_epoch b)\<rparr>;
              t = dual_put g (\<not> s) (valid \<or> c \<noteq> Red, b') (dual_put g s (True, f) t) in
          if c = Red \<and> enforce then (t, Some c)
          else let t = dual_SwapSide key t in ((if enforce then NotifyChange key t else t), Some c))"

section \<open>Properties\<close>

lemma find_front: "dual_Find t key False = (if fst (dual_front t (teid_gcnt key)) then Some (a_in_front t (teid_gcnt key)) else None)"
  by (simp add: dual_Find_def dual_front_def dual_at_def Let_def)

definition dual_back :: "'i dual \<Rightarrow> 16 word \<Rightarrow> bool \<times> 'i" where
  "dual_back t g = dual_at t g (\<not> a_in_front t g)"

text \<open>A packet, on the two sides of its entry.\<close>

lemma meter_sides:
  fixes now len :: "32 word" and stamp enforce :: bool
  assumes "dual_front t (teid_gcnt key) = (True, p)" "dual_back t (teid_gcnt key) = (v, b)"
  defines "f \<equiv> refilled now p" defines "c \<equiv> paint len f"
  defines "b' \<equiv> (spend len c f)\<lparr>po_epoch := (if c \<noteq> Red \<and> stamp then now else po_epoch b)\<rparr>"
  defines "t' \<equiv> fst (meter stamp enforce now key len t)"
  shows "snd (meter stamp enforce now key len t) = Some c"
    "c = Red \<Longrightarrow> enforce \<Longrightarrow> dual_front t' (teid_gcnt key) = (True, f) \<and> dual_back t' (teid_gcnt key) = (v, b')"
    "\<not> (c = Red \<and> enforce) \<Longrightarrow> dual_front t' (teid_gcnt key) = (v \<or> c \<noteq> Red, b') \<and> dual_back t' (teid_gcnt key) = (True, f)"
  using assms(1,2)
  by (auto simp: meter_def find_front Let_def dual_front_def dual_back_def t'_def b'_def c_def f_def split: prod.splits)

lemma meter_missing: "fst (dual_front t (teid_gcnt key)) = False \<Longrightarrow> meter stamp enforce now key len t = (t, None)"
  by (simp add: meter_def find_front Let_def)

text \<open>A run of packets of one tunnel, and what was seen of each.\<close>

fun meter_run :: "bool \<Rightarrow> bool \<Rightarrow> 32 word \<Rightarrow> (32 word \<times> 32 word) list \<Rightarrow> policer dual \<Rightarrow> policer dual \<times> colour option list" where
  "meter_run stamp enforce key [] t = (t, [])"
| "meter_run stamp enforce key ((now, len) # ps) t =
     (let (t, c) = meter stamp enforce now key len t; (t, cs) = meter_run stamp enforce key ps t in (t, c # cs))"

text \<open>one red packet and a marker has lost the tunnel: on an entry that was added once, whose other side has never been valid, a first packet that is red
  swaps the invalid side to the front; the entry is gone, and every later packet is treated as red, whatever its length and however much time has passed.\<close>

theorem red_packet_loses_tunnel:
  assumes "dual_lookup t (teid_gcnt key) = Some p" "fst (dual_back t (teid_gcnt key)) = False" "paint len (refilled now p) = Red"
  shows "snd (meter_run stamp False key ((now, len) # ps) t) = Some Red # replicate (length ps) None"
proof -
  have "fst (dual_front t (teid_gcnt key)) \<and> snd (dual_front t (teid_gcnt key)) = p"
    using assms(1) by (auto simp: dual_lookup_def split: if_splits)
  then have f: "dual_front t (teid_gcnt key) = (True, p)" by (metis prod.collapse)
  obtain b where b: "dual_back t (teid_gcnt key) = (False, b)" using assms(2) by (metis prod.collapse)
  let ?t = "fst (meter stamp False now key len t)"
  have "fst (dual_front ?t (teid_gcnt key)) = False"
    using meter_sides(3) [OF f b, where now = now and len = len and stamp = stamp and enforce = False] assms(3) by simp
  then have "snd (meter_run stamp False key ps ?t) = replicate (length ps) None" for ps
    by (induction ps) (auto simp: meter_missing Let_def split_beta)
  then show ?thesis using meter_sides(1) [OF f b, where now = now and len = len and stamp = stamp and enforce = False] assms(3) by (simp add: Let_def split_beta)
qed

definition demo_policer :: policer where
  "demo_policer = \<lparr>po_epoch = 0, c_rate = 0, c_burst = 3000, c_info = 500, e_rate = 0, e_burst = 100, e_info = 0\<rparr>"

definition demo_meter :: "policer dual" where
  "demo_meter = (case dual_Add 7 demo_policer False (dual_Clear demo_policer) of Some t \<Rightarrow> t | None \<Rightarrow> dual_Clear demo_policer)"

lemma demo_meter_sides: "dual_lookup demo_meter (teid_gcnt 7) = Some demo_policer" "fst (dual_back demo_meter (teid_gcnt 7)) = False"
  by code_simp+

theorem red_packet_loses_tunnel_witness:
  "snd (meter_run True False 7 ((0, 1000) # [(100, 1), (200, 1)]) demo_meter) = [Some Red, None, None]"
proof -
  have "paint 1000 (refilled 0 demo_policer) = Red" by code_simp
  from red_packet_loses_tunnel [OF demo_meter_sides this, of True "[(100, 1), (200, 1)]"] show ?thesis by (simp only: list.size numeral_2_eq_2 replicate.simps) simp
qed

text \<open>Refilling again in the same second.\<close>

lemma refilled_epoch [simp]: "po_epoch (refilled now p) = po_epoch p"
  by (simp add: refilled_def Let_def)

text \<open>an enforcer fills its buckets once per red packet and not once per second: a red packet is dropped, but the tokens of the seconds since the epoch stay in
  the entry while its epoch does not change, so that a further packet in the same second finds them added again. After \<open>k\<close> red packets the entry has been
  filled up \<open>k\<close> times, and the next packet is judged after one more.\<close>

theorem red_packets_refill:
  assumes "dual_front t (teid_gcnt key) = (True, p)" "\<forall>i < k. paint len ((refilled now ^^ Suc i) p) = Red"
  shows "snd (meter_run stamp True key (replicate (Suc k) (now, len)) t) =
    replicate k (Some Red) @ [Some (paint len ((refilled now ^^ Suc k) p))]"
  using assms
proof (induction k arbitrary: t p)
  case 0
  obtain v b where "dual_back t (teid_gcnt key) = (v, b)" by fastforce
  from meter_sides(1) [OF 0(1) this] show ?case by (simp add: Let_def split_beta)
next
  case (Suc k)
  obtain v b where b: "dual_back t (teid_gcnt key) = (v, b)" by fastforce
  let ?t = "fst (meter stamp True now key len t)"
  have r: "paint len (refilled now p) = Red" using Suc.prems(2) by (metis funpow_simps_right(1) comp_apply funpow.simps(2) id_apply zero_less_Suc)
  have "dual_front ?t (teid_gcnt key) = (True, refilled now p)" using meter_sides(2) [OF Suc.prems(1) b] r by simp
  moreover have "\<forall>i < k. paint len ((refilled now ^^ Suc i) (refilled now p)) = Red"
    using Suc.prems(2) by (metis Suc_mono comp_apply funpow_Suc_right)
  ultimately have "snd (meter_run stamp True key (replicate (Suc k) (now, len)) ?t) =
      replicate k (Some Red) @ [Some (paint len ((refilled now ^^ Suc k) (refilled now p)))]" by (rule Suc.IH)
  then show ?case using meter_sides(1) [OF Suc.prems(1) b, where now = now and len = len and stamp = stamp and enforce = True] r
    by (simp add: Let_def split_beta funpow_swap1)
qed

theorem red_packets_refill_witness:
  "snd (meter_run True True 7 (replicate (Suc 2) (1, 1300)) demo_meter) = [Some Red, Some Red, Some Green] \<and>
   paint 1300 (refilled 1 demo_policer) = Red"
proof -
  have f: "dual_front demo_meter (teid_gcnt 7) = (True, demo_policer)" by code_simp
  have r: "paint 1300 ((refilled 1 ^^ Suc 0) demo_policer) = Red" "paint 1300 ((refilled 1 ^^ Suc 1) demo_policer) = Red"
    "paint 1300 ((refilled 1 ^^ Suc 2) demo_policer) = Green" by code_simp+
  have "\<forall>i < 2. paint 1300 ((refilled 1 ^^ Suc i) demo_policer) = Red" using r(1,2) by (auto simp: less_2_cases_iff)
  from red_packets_refill [OF f this, of True] r show ?thesis by (simp add: numeral_2_eq_2)
qed

end
