(* ===== verification/Tools_Packet.thy ===== *)
theory Tools_Packet
  imports Tools_Meter Ip_Checksum
begin

text \<open>
  What the tools' packet filters run in: the view of a packet (\<open>PktHeader\<close>, \<open>tools/src/lib/pktheader.cc\<close>), what kind of packet it is
  (\<open>ArchIf::GetPacketType\<close>, \<open>lib/arch_interface.cc\<close>), the parameters of a process (\<open>lib/process.cc\<close>) and what the filters share (\<open>lib/filter_container.cc\<close>).
  A packet is in a buffer of 2048 octets of the NIC, taken as memory from address 0: what is after the packet is whatever the buffer held. Offsets are fixed
  when the view is made, from the packet as it came in.
\<close>

section \<open>The view of a packet\<close>

abbreviation ETHERTYPE_IP :: "16 word" where "ETHERTYPE_IP \<equiv> 0x0800"
abbreviation ETHERTYPE_ARP :: "16 word" where "ETHERTYPE_ARP \<equiv> 0x0806"
abbreviation ETHERTYPE_VLAN :: "16 word" where "ETHERTYPE_VLAN \<equiv> 0x8100"
abbreviation ETHERTYPE_IPV6 :: "16 word" where "ETHERTYPE_IPV6 \<equiv> 0x86DD"

definition LEN_VLAN :: "mem \<Rightarrow> nat" where
  "LEN_VLAN m = (if ld16 m 12 = bswap16 ETHERTYPE_VLAN then if ld16 m 16 = bswap16 ETHERTYPE_VLAN then 8 else 4 else 0)"

definition CHK_ETHERTYPE :: "mem \<Rightarrow> 16 word \<Rightarrow> bool" where
  "CHK_ETHERTYPE m t =
     (if ld16 m 12 = bswap16 ETHERTYPE_VLAN then
        if ld16 m 16 = bswap16 ETHERTYPE_VLAN then ld16 m 18 = bswap16 t else ld16 m 16 = bswap16 t
      else ld16 m 12 = bswap16 t)"

definition ip_v :: "mem \<Rightarrow> nat \<Rightarrow> byte" where
  "ip_v m a = drop_bit 4 (m a)"

definition ip_hl :: "mem \<Rightarrow> nat \<Rightarrow> nat" where
  "ip_hl m a = unat (m a AND 15)"

record view =
  pk_mem :: mem
  pk_len :: "32 word"
  len_vlan :: nat
  len_ipv :: nat
  off_ip :: nat
  off_udp :: nat
  off_gtpu :: nat
  off_ip_i :: nat

definition PktHeader :: "mem \<Rightarrow> 32 word \<Rightarrow> view" where
  "PktHeader m len =
     (let ip = 14 + LEN_VLAN m; ipl = (if ip_v m ip = 4 then ip_hl m ip * 4 else 40); gtp = ip + ipl + 8 in
      \<lparr>pk_mem = m, pk_len = len, len_vlan = LEN_VLAN m, len_ipv = ipl, off_ip = ip, off_udp = ip + ipl, off_gtpu = gtp,
       off_ip_i = gtp + 8 + (if m gtp AND 7 \<noteq> 0 then 4 else 0)\<rparr>)"

text \<open>Fields that the filters read and write. \<open>EH\<close>, \<open>ARP\<close> and \<open>ICMP\<close> are at offset 0, \<open>off_ip\<close> and \<open>off_udp\<close>, \<open>BFD\<close> and the payload at \<open>off_gtpu\<close>.\<close>

abbreviation with_mem :: "(mem \<Rightarrow> mem) \<Rightarrow> view \<Rightarrow> view" where
  "with_mem f p \<equiv> p\<lparr>pk_mem := f (pk_mem p)\<rparr>"

definition gtpu_ok :: "mem \<Rightarrow> nat \<Rightarrow> bool" where
  "gtpu_ok m g \<longleftrightarrow> drop_bit 5 (m g) = 1 \<and> bit (m g) 4 \<and> \<not> bit (m g) 0 \<and> m (g + 1) = 255"

definition SwapMac :: "mem \<Rightarrow> mem" where
  "SwapMac m = (let dhost = rd_bytes m 0 6; m = copy_bytes m 0 6 6 in wr_bytes m 6 dhost)"

definition swap_ip :: "nat \<Rightarrow> mem \<Rightarrow> mem" where
  "swap_ip ip m = (let dst = ld32 m (ip + 16) in st32 (st32 m (ip + 16) (ld32 m (ip + 12))) (ip + 12) dst)"

definition swap_port :: "nat \<Rightarrow> mem \<Rightarrow> mem" where
  "swap_port udp m = (let dport = ld16 m (udp + 2) in st16 (st16 m (udp + 2) (ld16 m udp)) udp dport)"

text \<open>\<open>ModifyIpEpc\<close>: congestion marks of the outer header are carried into the inner one.\<close>

definition ModifyIpEpc :: "view \<Rightarrow> view" where
  "ModifyIpEpc p =
     (let m = pk_mem p; inner = m (off_ip_i p + 1) AND 3 in
      if inner = 0 then p else if inner = 3 then p
      else if m (off_ip p + 1) AND 3 = 3 then p\<lparr>pk_mem := m(off_ip_i p + 1 := m (off_ip_i p + 1) OR 3)\<rparr> else p)"

section \<open>Kinds of packets\<close>

datatype pkttype = RETPTARP | RETPTICMP | RETPTGTPU | RETPTOVERIP | RETPTCTRL | RETPTGTPUECHOREQ | RETPTGTPC | RETPTBFDC | RETERR_TYPE

abbreviation GTPU_PORT_T :: "16 word" where "GTPU_PORT_T \<equiv> 2152"
abbreviation GTPC_PORT_T :: "16 word" where "GTPC_PORT_T \<equiv> 2123"
abbreviation BFDC_PORT :: "16 word" where "BFDC_PORT \<equiv> 3784"

text \<open>The part over UDP, that the two address families share: the protocol, and what to do with a packet that is neither.\<close>

definition udp_type :: "view \<Rightarrow> byte \<Rightarrow> byte list \<Rightarrow> bool \<Rightarrow> 16 word \<Rightarrow> pkttype" where
  "udp_type p proto over decap ctrlport =
     (let m = pk_mem p; udplen = 14 + LEN_VLAN m + 20 + 8; enough = (udplen \<le> unat (pk_len p)); dport = bswap16 (ld16 m (off_udp p + 2)) in
      if enough \<and> 8 \<le> bswap16 (ld16 m (off_udp p + 4)) \<and> proto = 17 \<and> dport = GTPU_PORT_T then
        if m (off_gtpu p + 1) = 1 then RETPTGTPUECHOREQ else RETPTGTPU
      else if enough \<and> 8 \<le> bswap16 (ld16 m (off_udp p + 4)) \<and> proto = 17 \<and> dport = GTPC_PORT_T then RETPTGTPC
      else if enough \<and> 8 \<le> bswap16 (ld16 m (off_udp p + 4)) \<and> proto = 17 \<and> dport = BFDC_PORT then RETPTBFDC
      else if enough \<and> proto = 17 \<and> dport = ctrlport then RETPTCTRL
      else if decap then RETERR_TYPE
      else if enough \<and> proto \<in> set over then RETPTOVERIP else RETERR_TYPE)"

definition GetPacketType :: "view \<Rightarrow> bool \<Rightarrow> 16 word \<Rightarrow> pkttype" where
  "GetPacketType p decap ctrlport =
     (let m = pk_mem p; len = unat (pk_len p); ip = off_ip p in
      if 14 \<le> len \<and> CHK_ETHERTYPE m ETHERTYPE_ARP then RETPTARP
      else if 14 + LEN_VLAN m + 20 \<le> len then
        if CHK_ETHERTYPE m ETHERTYPE_IP \<and> ip_v m ip = 4 then
          if m (ip + 9) = 1 \<and> m (ip + 8) \<noteq> 0 \<and> m (off_udp p) = 8 then
            if ld32 m (ip + 12) = bswap32 0xdeadbeaf then RETPTOVERIP else RETPTICMP
          else udp_type p (m (ip + 9)) [17, 6, 1] decap ctrlport
        else if CHK_ETHERTYPE m ETHERTYPE_IPV6 then
          if m (ip + 6) = 58 \<and> m (ip + 7) \<noteq> 0 then RETPTICMP
          else udp_type p (m (ip + 6)) [17, 6] decap ctrlport
        else RETERR_TYPE
      else RETERR_TYPE)"

section \<open>Parameters of a process\<close>

record link =
  lk_type :: byte
  sgw_teid_u :: "32 word"
  sgw_teid_c :: "32 word"
  sgw_ipv4 :: "32 word"
  pgw_ipv4 :: "32 word"
  pgw_teid_uc :: "32 word"
  lk_s5 :: "16 word"
  lk_sgi :: "16 word"
  lk_qos :: "16 word"
  lk_qci :: "16 word"

record teid_counter =
  tc_epoch :: "16 word"
  drop_ingress :: "64 word"
  drop_egress :: "64 word"
  size_ingress :: "64 word"
  size_egress :: "64 word"
  count_ingress :: "64 word"
  count_egress :: "64 word"
  start_usec :: "64 word"

record params =
  tbl_teid :: "byte \<Rightarrow> link dual option"
  tbl_policer :: "byte \<Rightarrow> policer dual option"
  tbl_counter_i :: "byte \<Rightarrow> teid_counter dual option"
  tbl_counter_e :: "byte \<Rightarrow> teid_counter dual option"
  next_hop_ipv4 :: "32 word"
  next_hop_vlanid :: "32 word"
  mac_dst :: "byte list"

definition teid_gid :: "32 word \<Rightarrow> byte" where
  "teid_gid teid = ucast (drop_bit 16 teid)"

text \<open>\<open>Get\<close> of a table, NULL outside of the 16 that there are, and \<open>Set\<close> of a text: 64 octets, of which a C string is copied.\<close>

definition Get_tbl :: "(byte \<Rightarrow> 't option) \<Rightarrow> byte \<Rightarrow> 't option" where
  "Get_tbl tbl skey = (if skey < 16 then tbl skey else None)"

definition Set_txt :: "byte list \<Rightarrow> byte list" where
  "Set_txt v = (let s = take 63 (takeWhile (\<lambda>c. c \<noteq> 0) v) in s @ replicate (64 - length s) 0)"

abbreviation PROC_NEED_SEND :: "32 word" where "PROC_NEED_SEND \<equiv> 1"
abbreviation PROC_TRIGGER_1S_EVENT :: "32 word" where "PROC_TRIGGER_1S_EVENT \<equiv> 4"
abbreviation PROC_RFC4115_RED :: "32 word" where "PROC_RFC4115_RED \<equiv> 16"

text \<open>How a filter ends: with 0 or an error, by an exception, or by writing past a buffer of its own.\<close>

datatype ended = Returned | Failed | Thrown | Overrun

text \<open>A tunnel for examples: every slot of the tables is in use.\<close>

definition demo_link :: link where
  "demo_link = \<lparr>lk_type = 0, sgw_teid_u = 9, sgw_teid_c = 0, sgw_ipv4 = 0, pgw_ipv4 = 0, pgw_teid_uc = 7, lk_s5 = 0, lk_sgi = 0, lk_qos = 0x20, lk_qci = 0\<rparr>"

definition full_table :: "'i \<Rightarrow> 'i dual" where
  "full_table i = (dual_Clear i)\<lparr>side_b := \<lambda>_. (True, i)\<rparr>"

definition demo_params :: params where
  "demo_params = \<lparr>tbl_teid = (\<lambda>_. Some (full_table demo_link)), tbl_policer = (\<lambda>_. Some (full_table (demo_policer\<lparr>c_rate := 2000\<rparr>))),
     tbl_counter_i = (\<lambda>_. None), tbl_counter_e = (\<lambda>_. None), next_hop_ipv4 = 1, next_hop_vlanid = 5, mac_dst = [1, 2, 3, 4, 5, 6]\<rparr>"

end
