(* ===== verification/Tools_Filters.thy ===== *)
theory Tools_Filters
  imports Tools_Packet
begin

text \<open>
  The filters of the tools that answer packets themselves: ARP, BFD, GTP-U echo, ICMP and the control packet (\<open>tools/src/lib/filter\<close>), and those that count
  the traffic of a tunnel. A filter rewrites the packet in place and sets the flag to send it. Logging and the capture file are left out.
\<close>

section \<open>Answers\<close>

definition Arp_OnFilter :: "params \<Rightarrow> view \<Rightarrow> 32 word \<Rightarrow> view \<times> 32 word \<times> ended" where
  "Arp_OnFilter prm p flag =
     (let arp = off_ip p; m = SwapMac (pk_mem p); m = st16 m arp (bswap16 1); m = st16 m (arp + 2) (bswap16 ETHERTYPE_IP);
          m = m(arp + 4 := 6, arp + 5 := 4); m = st16 m (arp + 6) (bswap16 2); t = m; m = wr_bytes m (arp + 24) (rd_bytes t (arp + 14) 4);
          m = wr_bytes m (arp + 18) (rd_bytes t (arp + 8) 6); m = wr_bytes m (arp + 14) (rd_bytes t (arp + 24) 4) in
      if mac_dst prm ! 0 = 0 then (p\<lparr>pk_mem := m\<rparr>, flag, Failed)
      else let m = wr_bytes m (arp + 8) (take 6 (mac_dst prm)); m = wr_bytes m 6 (rd_bytes m (arp + 8) 6) in
        (p\<lparr>pk_mem := m\<rparr>, flag OR PROC_NEED_SEND, Returned))"

definition bfd_state :: "mem \<Rightarrow> nat \<Rightarrow> byte" where
  "bfd_state m b = drop_bit 6 (m (b + 1))"

definition set_bfd_state :: "nat \<Rightarrow> byte \<Rightarrow> mem \<Rightarrow> mem" where
  "set_bfd_state b s m = m(b + 1 := (m (b + 1) AND 63) OR push_bit 6 s)"

definition MYDSCR :: "32 word" where
  "MYDSCR = 10000"

definition Bfd_OnFilter :: "view \<Rightarrow> 32 word \<Rightarrow> view \<times> 32 word \<times> ended" where
  "Bfd_OnFilter p flag =
     (let ip = off_ip p; b = off_gtpu p; m = swap_ip ip (SwapMac (pk_mem p)); m = m(ip + 8 := 255); m = st16 m (off_udp p + 6) 0;
          your = ld32 m (b + 8); m = st32 m (b + 8) (ld32 m (b + 4)); m = st32 m (b + 4) your; st = bfd_state m b;
          m = (if st = 1 then st32 (set_bfd_state b (if your = 0 then 2 else 1) m) (b + 4) MYDSCR
               else if st = 0 then set_bfd_state b 1 m
               else if st = 2 then st32 (set_bfd_state b 3 m) (b + 4) MYDSCR
               else if st = 3 then st32 (set_bfd_state b 3 m) (b + 4) MYDSCR
               else st32 (st32 (set_bfd_state b 1 m) (b + 4) MYDSCR) (b + 8) 0);
          flag = flag OR PROC_TRIGGER_1S_EVENT;
          flag = (if bfd_state m b = 3 then (flag AND NOT 0x20000000) OR 0x10000000 else (flag AND NOT 0x10000000) OR 0x20000000) in
      (p\<lparr>pk_mem := m\<rparr>, flag OR PROC_NEED_SEND, Returned))"

definition GtpuEcho_OnFilter :: "view \<Rightarrow> 32 word \<Rightarrow> view \<times> 32 word \<times> ended" where
  "GtpuEcho_OnFilter p flag =
     (let m = set_ip_checksum (swap_ip (off_ip p) (pk_mem p)) (off_ip p) 20; m = st16 (swap_port (off_udp p) m) (off_udp p + 6) 0;
          m = m(off_gtpu p + 1 := 2) in
      (p\<lparr>pk_mem := SwapMac m\<rparr>, flag OR PROC_NEED_SEND, Returned))"

section \<open>ICMP\<close>

text \<open>The buffer that the checksum of version 6 is computed over, from address 0: the addresses, already swapped, the length of the payload, the next
  header, and a copy of the message. It has \<open>ETHER_MAX_LEN\<close> octets on the stack, and the number of octets to copy is not checked.\<close>

abbreviation ETHER_MAX_LEN_T :: nat where "ETHER_MAX_LEN_T \<equiv> 1514"

definition icmp6_pseudo :: "mem \<Rightarrow> nat \<Rightarrow> nat \<Rightarrow> nat \<Rightarrow> mem" where
  "icmp6_pseudo m ip icmp n =
     wr_bytes (\<lambda>_. 0) 0
       (rd_bytes m (ip + 8) 16 @ rd_bytes m (ip + 24) 16 @ [m (ip + 4), m (ip + 5), 0, 0] @ [0, 0, 0, m (ip + 6)] @ rd_bytes m icmp n)"

definition icmp6_sum :: "mem \<Rightarrow> nat \<Rightarrow> nat \<Rightarrow> nat \<Rightarrow> 16 word" where
  "icmp6_sum m ip icmp n = wrapsum (checksum (icmp6_pseudo m ip icmp n) 0 (word_of_nat (n + 40)) 0)"

definition Icmp_OnFilter :: "params \<Rightarrow> view \<Rightarrow> 32 word \<Rightarrow> view \<times> 32 word \<times> ended" where
  "Icmp_OnFilter prm p flag =
     (let ip = off_ip p; icmp = off_udp p; m = pk_mem p; n = unat (pk_len p - word_of_nat (14 + len_vlan p + len_ipv p));
          answer = (\<lambda>m. (p\<lparr>pk_mem := SwapMac m\<rparr>, flag OR PROC_NEED_SEND, Returned)) in
      if CHK_ETHERTYPE m ETHERTYPE_IP then
        let m = set_ip_checksum (swap_ip ip m) ip 20; m = m(icmp := 0); m = st16 m (icmp + 2) 0;
            m = st16 m (icmp + 2) (wrapsum (checksum m icmp (word_of_nat n) 0)) in answer m
      else
        let dst = rd_bytes m (ip + 24) 16; m = copy_bytes m (ip + 24) (ip + 8) 16; m = wr_bytes m (ip + 8) dst in
        if m icmp \<in> {128, 135} \<and> ETHER_MAX_LEN_T < n + 40 \<and> \<not> (m icmp = 135 \<and> mac_dst prm ! 0 = 0) then (p\<lparr>pk_mem := m\<rparr>, flag, Overrun)
        else if m icmp = 128 then
          let m = m(icmp := 129); m = st16 m (icmp + 2) 0; m = st16 m (icmp + 2) (icmp6_sum m ip icmp n) in answer m
        else if m icmp = 135 then
          if mac_dst prm ! 0 = 0 then (p\<lparr>pk_mem := m\<rparr>, flag, Failed)
          else
            let m = st32 m (icmp + 4) 0x60; m = m(icmp := 136, icmp + 1 := 0); m = st16 m (icmp + 2) 0; m = st16 m (icmp + 2) (icmp6_sum m ip icmp n);
                m = m(icmp + 24 := 2, icmp + 25 := 1); m = wr_bytes m (icmp + 26) (take 6 (mac_dst prm)) in answer m
        else answer m)"

section \<open>Control packets\<close>

text \<open>A control packet is 128 octets after the UDP header: type, tunnel, and rates from its octet 36 on. Requests to add or delete tunnels change nothing.\<close>

definition EpcCtrl_rates :: "mem \<Rightarrow> nat \<Rightarrow> policer dual \<Rightarrow> policer dual" where
  "EpcCtrl_rates m c t =
     (let key = ld32 m (c + 4); g = teid_gcnt key in
      case dual_Find t key False of
        None \<Rightarrow> t
      | Some s \<Rightarrow>
          let f = snd (dual_at t g s); b = snd (dual_at t g (\<not> s));
              b = b\<lparr>c_burst := ld32 m (c + 36), c_info := ld32 m (c + 40), e_burst := ld32 m (c + 44), e_info := ld32 m (c + 48),
                    c_rate := min (c_burst f) (c_rate f + c_info f), e_rate := min (e_burst f) (e_rate f + e_info f)\<rparr> in
          dual_SwapSide key (dual_put g (\<not> s) (True, b) t))"

definition EpcCtrl_OnFilter :: "params \<Rightarrow> view \<Rightarrow> 32 word \<Rightarrow> params \<times> view \<times> 32 word \<times> ended" where
  "EpcCtrl_OnFilter prm p flag =
     (let m = pk_mem p; c = off_gtpu p; gid = teid_gid (bswap32 (ld32 m (c + 4))); answer = (p\<lparr>pk_mem := SwapMac m\<rparr>, flag OR PROC_NEED_SEND, Returned) in
      if unat (pk_len p) \<noteq> 14 + LEN_VLAN m + ip_hl m (off_ip p) * 4 + 8 + 128 then (prm, p, flag, Returned)
      else if ld32 m c AND 6 \<noteq> 0 then
        (case Get_tbl (tbl_teid prm) gid of None \<Rightarrow> (prm, p, flag, Returned) | Some _ \<Rightarrow> (prm, answer))
      else if ld32 m c AND 0x30 \<noteq> 0 then
        (case Get_tbl (tbl_policer prm) gid of
           None \<Rightarrow> (prm, p, flag, Returned)
         | Some t \<Rightarrow> (prm\<lparr>tbl_policer := (tbl_policer prm)(gid \<mapsto> EpcCtrl_rates m c t)\<rparr>, answer))
      else (prm, answer))"

section \<open>Counters\<close>

record counting =
  calc_buffer :: "16 word \<Rightarrow> 64 word"
  count_buffer :: "16 word \<Rightarrow> 64 word"

definition Counter_OnInitFilter :: counting where
  "Counter_OnInitFilter = \<lparr>calc_buffer = (\<lambda>_. 0), count_buffer = (\<lambda>_. 0)\<rparr>"

text \<open>What both do with the length of a packet: every full mebibyte, the totals are put into the back side, which is then swapped. \<open>put\<close> stores them.\<close>

definition count_packet ::
    "(64 word \<Rightarrow> 64 word \<Rightarrow> teid_counter \<Rightarrow> teid_counter) \<Rightarrow> 64 word \<Rightarrow> 32 word \<Rightarrow> 32 word \<Rightarrow> counting \<times> (byte \<Rightarrow> teid_counter dual option) \<Rightarrow>
     counting \<times> (byte \<Rightarrow> teid_counter dual option)" where
  "count_packet put now teid len ct =
     (let (c, tbl) = ct; g = teid_gcnt teid; gid = teid_gid teid; prev = calc_buffer c g; curr = prev + scast len;
          c = c\<lparr>calc_buffer := (calc_buffer c)(g := curr), count_buffer := (count_buffer c)(g := count_buffer c g + 1)\<rparr> in
      if prev > 0 \<and> curr > 0 \<and> drop_bit 20 curr > drop_bit 20 prev then
        (case Get_tbl tbl gid of
           None \<Rightarrow> (c, tbl)
         | Some t \<Rightarrow>
             let s = (\<not> a_in_front t g); i = put curr (count_buffer c g) (snd (dual_at t g s)) in
             (c, tbl(gid \<mapsto> NotifyChange teid (dual_SwapSide teid (dual_put g s (True, i\<lparr>tc_epoch := ucast now\<rparr>) t)))))
      else (c, tbl))"

definition CounterEgress_OnFilter ::
    "64 word \<Rightarrow> counting \<times> params \<Rightarrow> view \<Rightarrow> 32 word \<Rightarrow> (counting \<times> params) \<times> view \<times> 32 word \<times> ended" where
  "CounterEgress_OnFilter now cp p flag =
     (let (c, prm) = cp; m = pk_mem p; ip = off_ip p; teid = bswap32 (ld32 m (off_gtpu p + 4)) in
      case Get_tbl (tbl_teid prm) (teid_gid teid) of
        None \<Rightarrow> (cp, p, flag, Returned)
      | Some tbl \<Rightarrow>
          (case dual_Find tbl teid False of
             None \<Rightarrow> (cp, p, flag, Returned)
           | Some s \<Rightarrow>
               let it = snd (dual_at tbl (teid_gcnt teid) s); m = st32 m (off_gtpu p + 4) (bswap32 (sgw_teid_u it));
                   m = st32 m (ip + 12) (next_hop_ipv4 prm); m = st32 m (ip + 16) (sgw_ipv4 it); m = set_ip_checksum m ip 20;
                   m = st16 m (off_udp p + 6) 0; p = p\<lparr>pk_mem := SwapMac m\<rparr>;
                   (c, ct) = count_packet (\<lambda>s n i. i\<lparr>size_egress := s, count_egress := n\<rparr>) now teid (pk_len p) (c, tbl_counter_e prm) in
               ((c, prm\<lparr>tbl_counter_e := ct\<rparr>), p, flag OR PROC_NEED_SEND, Returned)))"

text \<open>The answer to a packet of an unknown tunnel, which is meant to be an error indication.\<close>

definition answer_unknown :: "view \<Rightarrow> view" where
  "answer_unknown p =
     (let m = pk_mem p; ip = off_ip p; udp = off_udp p; gtp = off_gtpu p; tlen = word_of_nat (gtp + 12) :: 32 word;
          pind = gtp + 8 + (if m gtp AND 7 \<noteq> 0 then 4 else 0); old = ld32 m (ip + 16); m = swap_ip ip m; m = st16 m (ip + 2) (bswap16 (ucast (tlen - 14)));
          m = set_ip_checksum m ip 20; m = swap_port udp m; m = st16 m (udp + 4) (bswap16 (ucast (tlen - 14 - 20))); m = st16 m (udp + 6) 0;
          m = m(pind := 16); m = st32 m (pind + 1) (ld32 m (gtp + 4)); m = m(pind + 5 := 133); m = st16 m (pind + 6) (bswap16 4); m = st32 m (pind + 8) old;
          m = st16 m (gtp + 2) (bswap16 (ucast (tlen - 14 - 20 - 8 - 4))) in
      p\<lparr>pk_mem := m, pk_len := tlen\<rparr>)"

definition CounterIngress_OnFilter ::
    "64 word \<Rightarrow> counting \<times> params \<Rightarrow> view \<Rightarrow> 32 word \<Rightarrow> (counting \<times> params) \<times> view \<times> 32 word \<times> ended" where
  "CounterIngress_OnFilter now cp p flag =
     (let (c, prm) = cp; m = pk_mem p; ip = off_ip p; teid = bswap32 (ld32 m (off_gtpu p + 4)) in
      if \<not> gtpu_ok m (off_gtpu p) \<or> teid = 0 then (cp, p, flag, Failed)
      else case Get_tbl (tbl_teid prm) (teid_gid teid) of
        None \<Rightarrow> (cp, p, flag, Returned)
      | Some tbl \<Rightarrow>
          let p = (if dual_Find tbl teid False = None then answer_unknown p
                   else p\<lparr>pk_mem := set_ip_checksum (st32 m (ip + 16) (next_hop_ipv4 prm)) ip 20\<rparr>);
              p = with_mem SwapMac p;
              (c, ct) = count_packet (\<lambda>s n i. i\<lparr>size_ingress := s, count_ingress := n\<rparr>) now teid (pk_len p) (c, tbl_counter_i prm) in
          ((c, prm\<lparr>tbl_counter_i := ct\<rparr>), p, flag OR PROC_NEED_SEND, Returned))"


section \<open>Properties\<close>

lemma ethertypes_differ: "CHK_ETHERTYPE m t \<Longrightarrow> t \<noteq> u \<Longrightarrow> \<not> CHK_ETHERTYPE m u"
  by (auto simp: CHK_ETHERTYPE_def split: if_splits)

lemma far_behind: "unat (len :: 32 word) < c \<Longrightarrow> c \<le> 1000 \<Longrightarrow> 2000 < unat (len - word_of_nat c)"
proof -
  assume a: "unat len < c" "c \<le> 1000"
  have c: "unat (word_of_nat c :: 32 word) = c" using a(2) by (simp add: unat_of_nat)
  then have "\<not> word_of_nat c \<le> len" using a(1) by (simp add: word_le_nat_alt)
  then have "unat (len - word_of_nat c) = unat len + 2 ^ 32 - c" using a(1) c unat_sub_if_size [of len "word_of_nat c"] by (simp add: word_size)
  then show ?thesis using a by simp
qed

text \<open>C28: a short packet of ICMP version 6 overruns the stack: the kind of a packet is decided once there is room for an IP header of version 4, and a header of
  version 6 is twice as long, so that for an echo request that ends inside its own header the number of octets to copy is below zero, taken as nearly \<open>2^32\<close>.\<close>

theorem short_icmp6_overruns:
  assumes v6: "CHK_ETHERTYPE m ETHERTYPE_IPV6" "ip_v m (14 + LEN_VLAN m) = 6" and len: "34 + LEN_VLAN m \<le> unat len" "unat len < 54 + LEN_VLAN m"
    and icmp: "m (20 + LEN_VLAN m) = 58" "m (21 + LEN_VLAN m) \<noteq> 0" "m (54 + LEN_VLAN m) = 128"
  shows "GetPacketType (PktHeader m len) decap port = RETPTICMP \<and> snd (snd (Icmp_OnFilter prm (PktHeader m len) flag)) = Overrun"
proof -
  let ?p = "PktHeader m len" and ?v = "LEN_VLAN m"
  have p: "pk_mem ?p = m" "pk_len ?p = len" "off_ip ?p = 14 + ?v" "off_udp ?p = 54 + ?v" "len_vlan ?p = ?v" "len_ipv ?p = 40"
    using v6(2) by (simp_all add: PktHeader_def Let_def)
  have t: "\<not> CHK_ETHERTYPE m ETHERTYPE_IP" "\<not> CHK_ETHERTYPE m ETHERTYPE_ARP" using ethertypes_differ [OF v6(1)] by simp_all
  have n: "1514 < unat (len - word_of_nat (14 + ?v + 40)) + 40"
    using far_behind [of len "14 + ?v + 40"] len by (simp add: LEN_VLAN_def split: if_splits)
  have i: "wr_bytes (copy_bytes m (14 + ?v + 24) (14 + ?v + 8) 16) (14 + ?v + 8) (rd_bytes m (14 + ?v + 24) 16) (54 + ?v) = 128"
    using icmp(3) by simp
  have "GetPacketType ?p decap port = RETPTICMP"
    using len icmp v6 t by (simp add: GetPacketType_def Let_def p add.commute add.left_commute)
  moreover have "snd (snd (Icmp_OnFilter prm ?p flag)) = Overrun"
    unfolding Icmp_OnFilter_def Let_def p using t n i by simp
  ultimately show ?thesis by simp
qed

definition demo_icmp6 :: mem where
  "demo_icmp6 = (mem_of 12 [0x86, 0xDD, 0x60, 0, 0, 0, 0, 0, 58, 64])(54 := 128)"

theorem short_icmp6_overruns_witness:
  "GetPacketType (PktHeader demo_icmp6 40) True 0 = RETPTICMP \<and> snd (snd (Icmp_OnFilter demo_params (PktHeader demo_icmp6 40) 0)) = Overrun"
proof -
  have v: "LEN_VLAN demo_icmp6 = 0" "CHK_ETHERTYPE demo_icmp6 ETHERTYPE_IPV6" "ip_v demo_icmp6 14 = 6" "demo_icmp6 20 = 58" "demo_icmp6 21 \<noteq> 0" "demo_icmp6 54 = 128"
    by code_simp+
  show ?thesis by (rule short_icmp6_overruns) (simp_all add: v)
qed

text \<open>new rates go to another tunnel: the table of a control packet is chosen by its tunnel in host order, the entry in it by the same number in network order. The
  entry of the tunnel that the packet is about is left as it was, unless the two orders have the same lower half.\<close>

theorem control_packet_other_tunnel:
  assumes "teid_gcnt (bswap32 (ld32 m (c + 4))) \<noteq> teid_gcnt (ld32 m (c + 4))"
  shows "dual_front (EpcCtrl_rates m c t) (teid_gcnt (bswap32 (ld32 m (c + 4)))) = dual_front t (teid_gcnt (bswap32 (ld32 m (c + 4))))"
  using assms by (simp add: EpcCtrl_rates_def Let_def dual_front_def split: option.splits)


definition demo_ctrl :: mem where
  "demo_ctrl = mem_of 42 [0x10, 0, 0, 0, 0, 1, 0, 7]"

theorem control_packet_other_tunnel_witness:
  "dual_front (EpcCtrl_rates demo_ctrl 42 (full_table demo_policer)) 7 = (True, demo_policer)"
proof -
  have "bswap32 (ld32 demo_ctrl (42 + 4)) = 0x10007" by code_simp
  moreover have "teid_gcnt 0x10007 = 7" "teid_gcnt (ld32 demo_ctrl (42 + 4)) \<noteq> 7" "dual_front (full_table demo_policer) 7 = (True, demo_policer)" by code_simp+
  ultimately show ?thesis using control_packet_other_tunnel [of demo_ctrl 42 "full_table demo_policer"] by metis
qed

lemma SwapMac_out [simp]: "12 \<le> x \<Longrightarrow> SwapMac m x = m x"
  by (simp add: SwapMac_def Let_def)

lemma swap_ip_out [simp]: "x < ip + 12 \<or> ip + 20 \<le> x \<Longrightarrow> swap_ip ip m x = m x"
  by (auto simp: swap_ip_def Let_def st32_def)

lemma swap_port_out [simp]: "x < udp \<or> udp + 4 \<le> x \<Longrightarrow> swap_port udp m x = m x"
  by (auto simp: swap_port_def Let_def st16_def)

lemma error_indication_bytes:
  fixes p :: view
  assumes "off_ip p + 20 \<le> off_udp p" "off_gtpu p = off_udp p + 8"
  defines "g \<equiv> off_gtpu p" and "i \<equiv> off_gtpu p + 8 + (if pk_mem p (off_gtpu p) AND 7 \<noteq> 0 then 4 else 0)"
  shows "pk_mem (answer_unknown p) (g + 1) = pk_mem p (g + 1)" "pk_mem (answer_unknown p) i = 16" "pk_mem (answer_unknown p) (i + 5) = 133"
    "pk_len (answer_unknown p) = word_of_nat (g + 12)"
  using assms by (simp_all add: answer_unknown_def Let_def st16_def st32_def)

text \<open>what is meant to be an error indication is not one: the answer to a packet of an unknown tunnel still has the type of user data, and it is sent without
  its end - eight octets of the indication, or twelve where the packet has optional fields, are cut off.\<close>

theorem error_indication_cut_short:
  fixes m :: mem and c :: counting and len flag :: "32 word" and now :: "64 word" and prm :: params
  defines "p \<equiv> PktHeader m len" defines "out \<equiv> CounterIngress_OnFilter now (c, prm) p flag"
  assumes v4: "ip_v m (off_ip p) = 4" "5 \<le> ip_hl m (off_ip p)" and ok: "gtpu_ok m (off_gtpu p)"
    and teid: "bswap32 (ld32 m (off_gtpu p + 4)) = teid" "teid \<noteq> 0" and none: "Get_tbl (tbl_teid prm) (teid_gid teid) = Some tbl" "dual_Find tbl teid False = None"
  shows "bit (fst (snd (snd out))) 0 \<and> pk_mem (fst (snd out)) (off_gtpu p + 1) = 255 \<and> pk_mem (fst (snd out)) (off_ip_i p) = 16 \<and>
    unat (pk_len (fst (snd out))) + 8 \<le> off_ip_i p + 12"
proof -
  have o: "off_ip p + 20 \<le> off_udp p" "off_gtpu p = off_udp p + 8" "pk_mem p = m" "off_ip p = 14 + LEN_VLAN m"
    "off_ip_i p = off_gtpu p + 8 + (if m (off_gtpu p) AND 7 \<noteq> 0 then 4 else 0)"
    using v4 by (simp_all add: p_def PktHeader_def Let_def)
  have h: "ip_hl m (off_ip p) \<le> 15"
  proof -
    have "m (off_ip p) AND 15 = take_bit 4 (m (off_ip p))" by (simp add: take_bit_eq_mask mask_eq_exp_minus_1)
    then have "ip_hl m (off_ip p) = unat (m (off_ip p)) mod 16" by (simp add: ip_hl_def take_bit_eq_mod unat_mod)
    then show ?thesis by simp
  qed
  have "LEN_VLAN m \<le> 8" by (simp add: LEN_VLAN_def)
  then have g: "off_gtpu p \<le> 100" using v4(1) h by (simp add: p_def PktHeader_def Let_def)
  note e = error_indication_bytes [OF o(1,2), unfolded o(3), folded o(5)]
  have "fst (snd out) = with_mem SwapMac (answer_unknown p) \<and> fst (snd (snd out)) = flag OR PROC_NEED_SEND"
    using ok teid none by (simp add: out_def CounterIngress_OnFilter_def Let_def o(3) split_beta)
  moreover have "m (off_gtpu p + 1) = 255" using ok by (simp add: gtpu_ok_def)
  moreover have "unat (word_of_nat (off_gtpu p + 12) :: 32 word) = off_gtpu p + 12" using g by (simp add: unat_of_nat del: of_nat_add)
  ultimately show ?thesis using e o by (simp add: bit_simps)
qed

definition demo_unknown :: mem where
  "demo_unknown = mem_of 12 ([8, 0, 0x45, 0, 0, 60, 0, 0, 0, 0, 64, 17, 0, 0, 10, 0, 0, 1, 10, 0, 0, 2] @ replicate 8 0 @ [0x30, 255, 0, 24, 0, 1, 0, 9])"

definition empty_tunnels :: params where
  "empty_tunnels = demo_params\<lparr>tbl_teid := \<lambda>_. Some (dual_Clear demo_link)\<rparr>"

theorem error_indication_cut_short_witness:
  "pk_mem (fst (snd (CounterIngress_OnFilter 0 (Counter_OnInitFilter, empty_tunnels) (PktHeader demo_unknown 74) 0))) 43 = 255 \<and>
   unat (pk_len (fst (snd (CounterIngress_OnFilter 0 (Counter_OnInitFilter, empty_tunnels) (PktHeader demo_unknown 74) 0)))) + 8 \<le> 62"
proof -
  let ?p = "PktHeader demo_unknown 74"
  have v: "off_ip ?p = 14" "off_gtpu ?p = 42" "off_ip_i ?p = 50" "ip_v demo_unknown 14 = 4" "ip_hl demo_unknown 14 = 5" "gtpu_ok demo_unknown 42"
    "bswap32 (ld32 demo_unknown (42 + 4)) = 0x10009" "teid_gid 0x10009 = 1" "dual_Find (dual_Clear demo_link) 0x10009 False = None"
    by code_simp+
  have t: "Get_tbl (tbl_teid empty_tunnels) (teid_gid 0x10009) = Some (dual_Clear demo_link)"
    by (simp add: v(8) Get_tbl_def empty_tunnels_def)
  show ?thesis
    using error_indication_cut_short [of demo_unknown 74 "0x10009" empty_tunnels "dual_Clear demo_link" 0 Counter_OnInitFilter 0, unfolded v]
      v(4-7,9) t by (simp add: v(8))
qed


text \<open>Counting the packets of one tunnel, given their lengths and the times they came at.\<close>

definition count_egress_run :: "32 word \<Rightarrow> (64 word \<times> 32 word) list \<Rightarrow> counting \<times> (byte \<Rightarrow> teid_counter dual option) \<Rightarrow>
    counting \<times> (byte \<Rightarrow> teid_counter dual option)" where
  "count_egress_run teid ps ct = foldl (\<lambda>ct (now, len). count_packet (\<lambda>s n i. i\<lparr>size_egress := s, count_egress := n\<rparr>) now teid len ct) ct ps"

definition published :: "nat \<Rightarrow> teid_counter dual option \<Rightarrow> 16 word \<Rightarrow> bool" where
  "published n ot g \<longleftrightarrow> (\<exists>t. ot = Some t \<and>
    (n < 2 ^ 20 \<or> (\<exists>i. dual_lookup t g = Some i \<and> unat (size_egress i) div 2 ^ 20 = n div 2 ^ 20)))"

lemma unat_drop_20: "unat (drop_bit 20 (w :: 64 word)) = unat w div 2 ^ 20"
  by (simp add: drop_bit_eq_div unat_div)

lemma count_sum:
  fixes prev :: "64 word" and len :: "32 word"
  assumes "unat len < 2 ^ 20" "unat prev + unat len < 2 ^ 64"
  shows "unat (prev + scast len) = unat prev + unat len"
proof -
  have "unat len < 2147483648" using assms(1) by simp
  then have "uint len < 2147483648" unfolding uint_nat by linarith
  moreover have "- (2 ^ 31) \<le> uint len" by (rule order_trans [OF _ uint_ge_0]) simp
  ultimately have "signed_take_bit 31 (uint len) = uint len" by (intro signed_take_bit_int_eq_self) simp_all
  then have "sint len = uint len" by (simp add: sint_uint)
  then have "(scast len :: 64 word) = ucast len" by (metis of_int_sint of_int_uint)
  moreover have "unat (ucast len :: 64 word) = unat len" using assms(1) by (simp add: unsigned_ucast_eq take_bit_nat_eq_self)
  ultimately show ?thesis using assms(2) by (simp add: unat_word_ariths)
qed

lemma count_step:
  assumes "published (unat (calc_buffer c g)) (tbl gid) g" "teid_gcnt teid = g" "teid_gid teid = gid" "gid < 16"
    "0 < unat len" "unat len < 2 ^ 20" "unat (calc_buffer c g) + unat len < 2 ^ 64"
    "count_packet (\<lambda>s n i. i\<lparr>size_egress := s, count_egress := n\<rparr>) now teid len (c, tbl) = (c', tbl')"
  shows "unat (calc_buffer c' g) = unat (calc_buffer c g) + unat len" "published (unat (calc_buffer c' g)) (tbl' gid) g"
proof -
  let ?prev = "calc_buffer c g" and ?curr = "calc_buffer c g + scast len"
  have cs: "unat ?curr = unat ?prev + unat len" using assms(6,7) by (rule count_sum)
  obtain t where t: "tbl gid = Some t"
    and l: "unat ?prev < 2 ^ 20 \<or> (\<exists>i. dual_lookup t g = Some i \<and> unat (size_egress i) div 2 ^ 20 = unat ?prev div 2 ^ 20)"
    using assms(1) by (auto simp: published_def)
  have c': "calc_buffer c' g = ?curr"
    using assms(8) by (auto simp: count_packet_def Let_def assms(2,3) split: if_splits option.splits)
  then show "unat (calc_buffer c' g) = unat ?prev + unat len" using cs by simp
  have up: "?prev > 0 \<and> ?curr > 0 \<and> drop_bit 20 ?curr > drop_bit 20 ?prev \<longleftrightarrow> 0 < unat ?prev \<and> unat ?prev div 2 ^ 20 < unat ?curr div 2 ^ 20"
    unfolding word_less_nat_alt unat_drop_20 using cs assms(5) by auto
  show "published (unat (calc_buffer c' g)) (tbl' gid) g"
  proof (cases "0 < unat ?prev \<and> unat ?prev div 2 ^ 20 < unat ?curr div 2 ^ 20")
    case True
    then obtain v where "tbl' gid = Some (dual_write teid (True, v) t)" "size_egress v = ?curr"
      using assms(8) t up assms(4) by (auto simp: count_packet_def Let_def assms(2,3) Get_tbl_def dual_write_def)
    then show ?thesis unfolding c' published_def by (auto simp: lookup_written assms(2))
  next
    case False
    then have "tbl' = tbl" using assms(8) up by (auto simp: count_packet_def Let_def assms(2,3))
    moreover have "unat ?prev = 0 \<or> unat ?curr div 2 ^ 20 = unat ?prev div 2 ^ 20"
      using False div_le_mono [of "unat ?prev" "unat ?curr" "2 ^ 20"] cs by linarith
    ultimately show ?thesis using t l cs assms(6) unfolding c' published_def by (auto simp: div_eq_0_iff)
  qed
qed

text \<open>C29: the published count of a tunnel lags by less than a mebibyte: counting the packets of a tunnel from nothing, the counter is the sum of their lengths, and once it
  has reached a mebibyte the table shows a valid entry whose size has the same number of full mebibytes.\<close>

theorem count_lags_less_than_mebibyte:
  assumes "teid_gid teid < 16" "\<forall>(now, len) \<in> set ps. 0 < unat len \<and> unat len < 2 ^ 20" "sum_list (map (\<lambda>(now, len). unat len) ps) < 2 ^ 64"
    "tbl (teid_gid teid) = Some t"
  defines "ct \<equiv> count_egress_run teid ps (Counter_OnInitFilter, tbl)"
  shows "unat (calc_buffer (fst ct) (teid_gcnt teid)) = sum_list (map (\<lambda>(now, len). unat len) ps) \<and>
    published (sum_list (map (\<lambda>(now, len). unat len) ps)) (snd ct (teid_gid teid)) (teid_gcnt teid)"
  using assms(2,3) unfolding ct_def
proof (induction ps rule: rev_induct)
  case Nil
  then show ?case using assms(4) by (simp add: count_egress_run_def published_def Counter_OnInitFilter_def)
next
  case (snoc q ps)
  obtain now len where q: "q = (now, len)" by fastforce
  let ?ct = "count_egress_run teid ps (Counter_OnInitFilter, tbl)"
  obtain c tb where ct: "?ct = (c, tb)" by fastforce
  obtain c' tb' where ct': "count_egress_run teid (ps @ [q]) (Counter_OnInitFilter, tbl) = (c', tb')" by fastforce
  have step: "count_packet (\<lambda>s n i. i\<lparr>size_egress := s, count_egress := n\<rparr>) now teid len (c, tb) = (c', tb')"
    using ct ct' by (simp add: count_egress_run_def q)
  have ih: "unat (calc_buffer c (teid_gcnt teid)) = sum_list (map (\<lambda>(now, len). unat len) ps) \<and>
      published (sum_list (map (\<lambda>(now, len). unat len) ps)) (tb (teid_gid teid)) (teid_gcnt teid)"
    using snoc by (auto simp: ct)
  have "published (unat (calc_buffer c (teid_gcnt teid))) (tb (teid_gid teid)) (teid_gcnt teid)" using ih by simp
  from count_step [OF this refl refl assms(1) _ _ _ step] show ?case
    using snoc.prems ih by (simp add: q ct' [unfolded q])
qed

definition no_count :: teid_counter where
  "no_count = \<lparr>tc_epoch = 0, drop_ingress = 0, drop_egress = 0, size_ingress = 0, size_egress = 0, count_ingress = 0, count_egress = 0, start_usec = 0\<rparr>"

theorem count_lags_less_than_mebibyte_witness:
  "published 1200000 (snd (count_egress_run 7 [(1, 600000), (2, 600000)] (Counter_OnInitFilter, \<lambda>_. Some (dual_Clear no_count))) 0) 7"
proof -
  have "teid_gid 7 = 0" "teid_gcnt 7 = 7" by code_simp+
  then show ?thesis
    using count_lags_less_than_mebibyte [of 7 "[(1, 600000), (2, 600000)]" "\<lambda>_. Some (dual_Clear no_count)" "dual_Clear no_count"] by simp
qed


text \<open>an own address that starts with a zero octet is taken for a missing one: the address is kept as text, which ends at the first zero octet, so neither ARP
  requests nor neighbour solicitations are answered with it - and of an address with a zero octet further on, the rest is lost.\<close>

theorem zero_octet_ends_mac:
  "mac_dst prm = Set_txt (0 # r) \<Longrightarrow> snd (Arp_OnFilter prm p flag) = (flag, Failed)"
  by (simp add: Arp_OnFilter_def Let_def Set_txt_def)

theorem zero_octet_ends_mac_witness:
  "snd (Arp_OnFilter (demo_params\<lparr>mac_dst := Set_txt [0, 0x1B, 0x21, 1, 2, 3]\<rparr>) (PktHeader demo_unknown 60) 0) = (0, Failed)"
  by (rule zero_octet_ends_mac) (simp add: demo_params_def)

text \<open>an ARP request is answered to who asked: with an own address without zero octets, the answer names that address for the IP address that was asked for, is
  addressed to the sender of the request, in the Ethernet header as well, and is marked as a reply.\<close>

theorem arp_answers_sender:
  fixes p :: view and prm :: params and flag :: "32 word"
  assumes mac: "mac_dst prm = Set_txt mac" "length mac = 6" "0 \<notin> set mac" and p: "14 \<le> off_ip p"
  defines "m \<equiv> pk_mem p" and "a \<equiv> off_ip p" and "m' \<equiv> pk_mem (fst (Arp_OnFilter prm p flag))"
  shows "snd (Arp_OnFilter prm p flag) = (flag OR 1, Returned) \<and> ld16 m' (a + 6) = bswap16 2 \<and> rd_bytes m' (a + 8) 6 = mac \<and>
    rd_bytes m' (a + 14) 4 = rd_bytes m (a + 24) 4 \<and> rd_bytes m' (a + 18) 6 = rd_bytes m (a + 8) 6 \<and> rd_bytes m' (a + 24) 4 = rd_bytes m (a + 14) 4 \<and>
    rd_bytes m' 0 6 = rd_bytes m 6 6 \<and> rd_bytes m' 6 6 = mac"
proof -
  have w: "takeWhile (\<lambda>c. c \<noteq> 0) mac = mac" using mac(3) by (simp add: takeWhile_eq_all_conv) metis
  have t: "mac_dst prm = mac @ replicate 58 0" unfolding mac(1) Set_txt_def w using mac(2) by simp
  have z: "mac_dst prm ! 0 \<noteq> 0" using mac(2,3) unfolding t by (cases mac) auto
  have k: "take 6 (mac_dst prm) = mac" using mac(2) by (simp add: t)
  note d = m'_def a_def m_def Arp_OnFilter_def Let_def k z
  have "snd (Arp_OnFilter prm p flag) = (flag OR 1, Returned)" using z by (simp add: Arp_OnFilter_def Let_def)
  moreover have "ld16 m' (a + 6) = bswap16 2" using p mac(2) by (simp add: d ld16_def st16_def)
  moreover have "rd_bytes m' (a + 8) 6 = mac" "rd_bytes m' 6 6 = mac"
    using p mac(2) by (auto intro!: nth_equalityI simp: d wr_bytes_def)
  moreover have "rd_bytes m' (a + 14) 4 = rd_bytes m (a + 24) 4" "rd_bytes m' (a + 18) 6 = rd_bytes m (a + 8) 6" "rd_bytes m' (a + 24) 4 = rd_bytes m (a + 14) 4"
    using p mac(2) by (auto intro!: nth_equalityI simp: d wr_bytes_def st16_def)
  moreover have "rd_bytes m' 0 6 = rd_bytes m 6 6"
    using p mac(2) by (auto intro!: nth_equalityI simp: d wr_bytes_def st16_def SwapMac_def copy_bytes_def)
  ultimately show ?thesis by blast
qed

theorem arp_answers_sender_witness:
  "rd_bytes (pk_mem (fst (Arp_OnFilter (demo_params\<lparr>mac_dst := Set_txt [2, 0x1B, 0x21, 1, 2, 3]\<rparr>) (PktHeader demo_unknown 60) 0))) 6 6 = [2, 0x1B, 0x21, 1, 2, 3]"
proof -
  have "off_ip (PktHeader demo_unknown 60) = 14" by code_simp
  then show ?thesis
    using arp_answers_sender [of "demo_params\<lparr>mac_dst := Set_txt [2, 0x1B, 0x21, 1, 2, 3]\<rparr>" "[2, 0x1B, 0x21, 1, 2, 3]" "PktHeader demo_unknown 60" 0]
    by (simp add: demo_params_def)
qed

text \<open>an echo request of GTP-U is answered: addresses and ports are exchanged, the type is that of an answer, and the checksum of the IP header is right.\<close>

theorem gtpu_echo_answered:
  fixes p :: view and flag :: "32 word"
  assumes "14 \<le> off_ip p" "off_ip p + 20 \<le> off_udp p" "off_gtpu p = off_udp p + 8"
  defines "m \<equiv> pk_mem p" and "a \<equiv> off_ip p" and "u \<equiv> off_udp p" and "m' \<equiv> pk_mem (fst (GtpuEcho_OnFilter p flag))"
  shows "ld32 m' (a + 12) = ld32 m (a + 16) \<and> ld32 m' (a + 16) = ld32 m (a + 12) \<and> ld16 m' u = ld16 m (u + 2) \<and> ld16 m' (u + 2) = ld16 m u \<and>
    m' (off_gtpu p + 1) = 2 \<and> ip_checksum_ok m' a 20"
proof -
  let ?s = "set_ip_checksum (swap_ip a m) a 20"
  have c: "m' x = ?s x" if "12 \<le> x" "x < u" for x
    using that assms(3) by (simp add: m'_def GtpuEcho_OnFilter_def Let_def a_def m_def u_def st16_def)
  have i: "m' x = swap_ip a m x" if "a + 12 \<le> x" "x < a + 20" for x
    using that c [of x] assms(1,2) by (simp add: a_def u_def)
  have "ip_checksum_ok ?s a 20" by (rule set_ip_checksum_ok [of _ 10]) simp_all
  then have "ip_checksum_ok m' a 20"
    using ip_checksum_ok_cong [of 20 10 m' a ?s a] c assms(1,2) by (simp add: a_def u_def)
  moreover have "ld32 m' (a + 12) = ld32 m (a + 16)" "ld32 m' (a + 16) = ld32 m (a + 12)"
    using i by (simp_all add: ld32_def swap_ip_def Let_def st32_def)
  moreover have "ld16 m' u = ld16 m (u + 2)" "ld16 m' (u + 2) = ld16 m u" "m' (off_gtpu p + 1) = 2"
    using assms(1-3) by (simp_all add: m'_def GtpuEcho_OnFilter_def Let_def a_def m_def u_def ld16_def st16_def swap_port_def)
  ultimately show ?thesis by blast
qed

theorem gtpu_echo_answered_witness: "ip_checksum_ok (pk_mem (fst (GtpuEcho_OnFilter (PktHeader demo_unknown 60) 0))) 14 20"
proof -
  have "off_ip (PktHeader demo_unknown 60) = 14" "off_udp (PktHeader demo_unknown 60) = 34" "off_gtpu (PktHeader demo_unknown 60) = 42" by code_simp+
  then show ?thesis using gtpu_echo_answered [of "PktHeader demo_unknown 60" 0] by simp
qed

end
