(* ===== verification/Tools_Translators.thy ===== *)
theory Tools_Translators
  imports Tools_Filters
begin

text \<open>
  The filters that put packets into GTP-U tunnels and take them out (\<open>tools/src/lib/filter/gtpu_encap.cc\<close>, \<open>gtpu_decap.cc\<close>), each as an enforcer, that drops
  red packets, and as a marker. The build without \<open>__WITHOUT_ECM__\<close> is taken.
\<close>

section \<open>Out of the tunnel\<close>

record decap =
  recalc_counter :: "32 word"

definition Decap_OnInitFilter :: decap where
  "Decap_OnInitFilter = \<lparr>recalc_counter = 0\<rparr>"

definition extend_vlan :: "mem \<Rightarrow> mem" where
  "extend_vlan m = st16 (st16 (st16 m 12 (bswap16 ETHERTYPE_VLAN)) 14 1) 16 (bswap16 ETHERTYPE_IP)"

text \<open>The inner packet is moved over the outer headers; a tag is added where there is none. \<open>None\<close>: the inner packet is not of version 4.\<close>

definition decap_move :: "view \<Rightarrow> nat \<times> (view option)" where
  "decap_move p =
     (let ext = (if LEN_VLAN (pk_mem p) = 0 then 4 else 0); m = (if LEN_VLAN (pk_mem p) = 0 then extend_vlan (pk_mem p) else pk_mem p);
          ip = off_ip p + ext; ii = off_ip_i p in
      if ip_v m ii = 4 then
        (ip, Some (p\<lparr>pk_mem := copy_bytes m ip ii (unat (bswap16 (ld16 m (ii + 2)))), pk_len := pk_len p - word_of_nat (ii - ip)\<rparr>))
      else (ip, None))"

definition tick :: "32 word \<Rightarrow> 32 word \<Rightarrow> 32 word \<times> 32 word" where
  "tick counter flag =
     (if flag AND PROC_TRIGGER_1S_EVENT \<noteq> 0 then (counter + 1, flag AND NOT PROC_TRIGGER_1S_EVENT) else (counter, flag))"

definition dscp :: "link \<Rightarrow> byte" where
  "dscp it = ucast (lk_qos it AND 0xfc)"

definition decap_send :: "params \<Rightarrow> nat \<Rightarrow> view \<Rightarrow> view" where
  "decap_send prm ip p = with_mem (\<lambda>m. set_ip_checksum (SwapMac (st16 m 14 (bswap16 (ucast (next_hop_vlanid prm))))) ip 20) p"

definition found_link :: "params \<Rightarrow> 32 word \<Rightarrow> link option" where
  "found_link prm key =
     (case Get_tbl (tbl_teid prm) (teid_gid key) of
        None \<Rightarrow> None
      | Some tbl \<Rightarrow> map_option (\<lambda>s. snd (dual_at tbl (teid_gcnt key) s)) (dual_Find tbl key False))"

definition put_policer :: "32 word \<Rightarrow> policer dual \<Rightarrow> params \<Rightarrow> params" where
  "put_policer key t prm = prm\<lparr>tbl_policer := (tbl_policer prm)(teid_gid key \<mapsto> t)\<rparr>"

text \<open>The enforcer: colours other than red are sent, yellow ones marked.\<close>

definition TranslatorDecapEnforcer_OnFilter ::
    "decap \<times> params \<Rightarrow> view \<Rightarrow> 32 word \<Rightarrow> (decap \<times> params) \<times> view \<times> 32 word \<times> ended" where
  "TranslatorDecapEnforcer_OnFilter st p flag =
     (let (d, prm) = st; teid = bswap32 (ld32 (pk_mem p) (off_gtpu p + 4)) in
      if \<not> gtpu_ok (pk_mem p) (off_gtpu p) then (st, p, flag, Failed)
      else case decap_move p of
        (ip, None) \<Rightarrow> (st, (if LEN_VLAN (pk_mem p) = 0 then with_mem extend_vlan p else p), flag, Failed)
      | (ip, Some p) \<Rightarrow>
          (case found_link prm teid of
             None \<Rightarrow> (st, p, flag, Returned)
           | Some it \<Rightarrow>
               (case Get_tbl (tbl_policer prm) (teid_gid teid) of
                  None \<Rightarrow> (st, p, flag, Returned)
                | Some t \<Rightarrow>
                    let (now, flag) = tick (recalc_counter d) flag; d = d\<lparr>recalc_counter := now\<rparr>;
                        (t, c) = meter True True now teid (pk_len p) t; prm = put_policer teid t prm in
                    (case c of
                       None \<Rightarrow> ((d, prm), p, flag, Returned)
                     | Some Red \<Rightarrow> ((d, prm), p, flag OR PROC_RFC4115_RED, Returned)
                     | Some c \<Rightarrow>
                         let p = (if c = Yellow then with_mem (\<lambda>m. m(ip + 1 := dscp it)) p else p) in
                         ((d, prm), decap_send prm ip p, flag OR PROC_NEED_SEND, Returned)))))"

text \<open>The marker: every packet is sent, those that are red or have no entry are marked.\<close>

definition TranslatorDecapMarker_OnFilter ::
    "decap \<times> params \<Rightarrow> view \<Rightarrow> 32 word \<Rightarrow> (decap \<times> params) \<times> view \<times> 32 word \<times> ended" where
  "TranslatorDecapMarker_OnFilter st p flag =
     (let (d, prm) = st; teid = bswap32 (ld32 (pk_mem p) (off_gtpu p + 4)) in
      if \<not> gtpu_ok (pk_mem p) (off_gtpu p) then (st, p, flag, Failed)
      else case decap_move p of
        (ip, None) \<Rightarrow> (st, (if LEN_VLAN (pk_mem p) = 0 then with_mem extend_vlan p else p), flag, Failed)
      | (ip, Some p) \<Rightarrow>
          (case found_link prm teid of
             None \<Rightarrow> (st, p, flag, Returned)
           | Some it \<Rightarrow>
               (case Get_tbl (tbl_policer prm) (teid_gid teid) of
                  None \<Rightarrow> (st, p, flag, Returned)
                | Some t \<Rightarrow>
                    let (now, flag) = tick (recalc_counter d) flag; d = d\<lparr>recalc_counter := now\<rparr>;
                        (t, c) = meter True False now teid (pk_len p) t; prm = put_policer teid t prm;
                        p = (if c = None \<or> c = Some Red then with_mem (\<lambda>m. m(ip + 1 := dscp it)) p else p) in
                    ((d, prm), decap_send prm ip p, flag OR PROC_NEED_SEND, Returned))))"

section \<open>Into the tunnel\<close>

text \<open>The headers that are put in front are kept from packet to packet: IP at 18, UDP at 38 and GTP-U at 46 of 54 octets. What \<open>OnInitFilter\<close> does not set is
  as \<open>malloc\<close> gave it.\<close>

record encap =
  en_hdr :: mem
  en_counter :: "32 word"

definition Encap_OnInitFilter :: "mem \<Rightarrow> encap" where
  "Encap_OnInitFilter junk =
     (let m = st16 junk 38 (bswap16 GTPU_PORT_T); m = st16 m 40 (bswap16 GTPU_PORT_T); m = m(46 := (m 46 AND 0x0e) OR 0x30, 47 := 255) in
      \<lparr>en_hdr = m, en_counter = 0\<rparr>)"

definition encap_setup :: "32 word \<Rightarrow> mem \<Rightarrow> mem" where
  "encap_setup tlen e =
     (let e = st16 e 20 (bswap16 (ucast (tlen - 14 - 4))); e = e(18 := 0x45); e = st16 e 44 0; e = st16 e 42 (bswap16 (ucast (tlen - 14 - 4 - 20)));
          e = st16 e 48 (bswap16 (ucast (tlen - 14 - 4 - 20 - 8 - 8))); e = st32 e 50 0 in
      e(46 := e 46 AND NOT 2))"

text \<open>The copy of the packet to its place after the headers, eight octets at a time from the end, and always some octets more than the packet has.\<close>

fun copy_down :: "nat \<Rightarrow> nat \<Rightarrow> nat \<Rightarrow> mem \<Rightarrow> mem" where
  "copy_down dst src 0 m = m"
| "copy_down dst src (Suc k) m = copy_down dst src k (copy_bytes m (dst + 8 * k) (src + 8 * k) 8)"

definition rounded :: "16 word \<Rightarrow> nat" where
  "rounded iplen = unat (iplen + (8 - iplen mod 8)) div 8"

definition encap_send :: "params \<Rightarrow> nat \<Rightarrow> 32 word \<Rightarrow> encap \<Rightarrow> view \<Rightarrow> encap \<times> view" where
  "encap_send prm ext tlen en p =
     (let m = pk_mem p; ip = off_ip p; e = st16 (en_hdr en) 22 (ld16 m (ip + 4)); e = st16 e 24 (ld16 m (ip + 6)); e = st32 e 34 (next_hop_ipv4 prm);
          e = st32 e 30 (ld32 m (ip + 16)); e = e(27 := 17); e = set_ip_checksum e 18 20; m = copy_down 54 ip (rounded (bswap16 (ld16 m (ip + 2)))) m;
          m = wr_bytes m (ip + ext) (rd_bytes e 18 20); m = wr_bytes m (off_udp p + ext) (rd_bytes e 38 8);
          m = wr_bytes m (off_gtpu p + ext) (rd_bytes e 46 8); m = st16 m 14 (bswap16 (ucast (next_hop_vlanid prm))) in
      (en\<lparr>en_hdr := e\<rparr>, p\<lparr>pk_mem := SwapMac m, pk_len := tlen\<rparr>))"

definition MAKE_NEXT_HOP :: "32 word \<Rightarrow> 32 word \<Rightarrow> 32 word" where
  "MAKE_NEXT_HOP c f = (c AND 0xFF00FFFF) OR push_bit 16 (f AND 0xFF)"

definition TranslatorEncapEnforcer_OnFilter ::
    "encap \<times> params \<Rightarrow> view \<Rightarrow> 32 word \<Rightarrow> (encap \<times> params) \<times> view \<times> 32 word \<times> ended" where
  "TranslatorEncapEnforcer_OnFilter st p flag =
     (let (en, prm) = st; m = pk_mem p; ip = off_ip p; tlen = pk_len p - word_of_nat (len_vlan p) + 40; key = ld32 m (ip + 16) in
      if LEN_VLAN m \<noteq> 4 then (st, p, flag, Thrown)
      else
        let en = en\<lparr>en_hdr := encap_setup tlen (en_hdr en)\<rparr> in
        if ip_v m ip \<noteq> 4 then ((en, prm), p, flag, Failed)
        else case found_link prm key of
          None \<Rightarrow> ((en, prm), p, flag, Returned)
        | Some it \<Rightarrow>
            let en = en\<lparr>en_hdr := st32 (en_hdr en) 50 (bswap32 (pgw_teid_uc it))\<rparr> in
            (case Get_tbl (tbl_policer prm) (teid_gid key) of
               None \<Rightarrow> ((en, prm), p, flag, Returned)
             | Some t \<Rightarrow>
                 let (now, flag) = tick (en_counter en) flag; en = en\<lparr>en_counter := now\<rparr>;
                     (t, c) = meter True True now key (pk_len p) t; prm = put_policer key t prm in
                 (case c of
                    None \<Rightarrow> ((en, prm), p, flag, Returned)
                  | Some Red \<Rightarrow> ((en, prm), p, flag OR PROC_RFC4115_RED, Returned)
                  | Some c \<Rightarrow>
                      let en = (if c = Yellow then en\<lparr>en_hdr := (en_hdr en)(19 := dscp it)\<rparr> else en); (en, p) = encap_send prm 0 tlen en p in
                      ((en, prm), p, flag OR PROC_NEED_SEND, Returned))))"

definition TranslatorEncapMarker_OnFilter ::
    "encap \<times> params \<Rightarrow> view \<Rightarrow> 32 word \<Rightarrow> (encap \<times> params) \<times> view \<times> 32 word \<times> ended" where
  "TranslatorEncapMarker_OnFilter st p flag =
     (let (en, prm) = st; v = LEN_VLAN (pk_mem p); ip = off_ip p; tlen = pk_len p - word_of_nat (len_vlan p) + 40;
          ext = (if v = 0 then 4 else 0); p = (if v = 0 then with_mem extend_vlan p else p); m = pk_mem p in
      if v = 8 then (st, p, flag, Thrown)
      else
        let (key, p) = (if ld32 m (ip + 12) = bswap32 0xdeadbeaf
                        then (ld32 m (off_udp p + 24), with_mem (\<lambda>m. st32 m (ip + 12) (MAKE_NEXT_HOP (ld32 m (ip + 16)) 4)) p)
                        else (ld32 m (ip + 16), p));
            en = en\<lparr>en_hdr := encap_setup tlen (en_hdr en)\<rparr> in
        if ip_v (pk_mem p) ip \<noteq> 4 then ((en, prm), p, flag, Failed)
        else case found_link prm key of
          None \<Rightarrow> ((en, prm), p, flag, Returned)
        | Some it \<Rightarrow>
            let en = en\<lparr>en_hdr := st32 (en_hdr en) 50 (bswap32 (pgw_teid_uc it))\<rparr> in
            (case Get_tbl (tbl_policer prm) (teid_gid key) of
               None \<Rightarrow> ((en, prm), p, flag, Returned)
             | Some t \<Rightarrow>
                 let (now, flag) = tick (en_counter en) flag; en = en\<lparr>en_counter := now\<rparr>;
                     (t, c) = meter False False now key (pk_len p) t; prm = put_policer key t prm;
                     en = (if c = None \<or> c = Some Red then en\<lparr>en_hdr := (en_hdr en)(19 := dscp it)\<rparr> else en);
                     (en, p) = encap_send prm ext tlen en p in
                 ((en, prm), p, flag OR PROC_NEED_SEND, Returned)))"


section \<open>The copy\<close>

lemma copy_down_out: "x < dst \<or> dst + 8 * k \<le> x \<Longrightarrow> copy_down dst src k m x = m x"
  by (induction k arbitrary: m) auto

lemma copy_down_in: "src + 8 \<le> dst \<Longrightarrow> dst \<le> x \<Longrightarrow> x < dst + 8 * k \<Longrightarrow> copy_down dst src k m x = m (src + (x - dst))"
proof (induction k arbitrary: m)
  case (Suc k)
  let ?m = "copy_bytes m (dst + 8 * k) (src + 8 * k) 8"
  show ?case
  proof (cases "x < dst + 8 * k")
    case True
    then have "copy_down dst src k ?m x = ?m (src + (x - dst))" using Suc by auto
    moreover have "?m (src + (x - dst)) = m (src + (x - dst))" by (rule copy_bytes_out) (use True Suc.prems in linarith)
    ultimately show ?thesis by simp
  next
    case False
    then have "copy_down dst src k ?m x = ?m x" by (simp add: copy_down_out)
    then show ?thesis using False Suc.prems by (simp add: copy_bytes_in)
  qed
qed simp

text \<open>copying eight octets at a time from the end is a move: where the destination is at least eight octets after the source, the loop of the
  encapsulating filters leaves in memory exactly what \<open>memmove\<close> of the same number of octets would, although the regions overlap.\<close>

theorem copy_down_is_memmove:
  assumes "src + 8 \<le> dst"
  shows "copy_down dst src k m = copy_bytes m dst src (8 * k)"
proof
  fix x
  show "copy_down dst src k m x = copy_bytes m dst src (8 * k) x"
    using assms by (cases "x < dst \<or> dst + 8 * k \<le> x") (auto simp: copy_down_out copy_down_in copy_bytes_in)
qed

theorem copy_down_is_memmove_witness: "copy_down 54 18 2 (mem_of 18 [1, 2, 3]) = copy_bytes (mem_of 18 [1, 2, 3]) 54 18 (8 * 2)"
  by (rule copy_down_is_memmove) simp

lemma rounded_eq: "unat iplen < 65528 \<Longrightarrow> rounded iplen = unat iplen div 8 + 1"
proof -
  assume L: "unat iplen < 65528"
  have m: "unat (iplen mod 8) = unat iplen mod 8" by (simp add: unat_mod)
  have "unat (8 - iplen mod 8) = 8 - unat iplen mod 8" using m by (simp add: unat_sub word_le_nat_alt)
  then have "unat (iplen + (8 - iplen mod 8)) = unat iplen + (8 - unat iplen mod 8)"
    using L by (simp add: unat_word_ariths)
  moreover have "unat iplen + (8 - unat iplen mod 8) = 8 * (unat iplen div 8 + 1)" by presburger
  ultimately show ?thesis by (simp add: rounded_def)
qed

section \<open>Encapsulated packets\<close>

lemma encap_send_hdr:
  "x \<in> {18, 19, 20, 21} \<union> {38..<54} \<Longrightarrow> en_hdr (fst (encap_send prm ext tlen en p)) x = en_hdr en x"
  by (auto simp: encap_send_def Let_def mem_defs)

lemma encap_send_mem:
  fixes prm :: params and tlen :: "32 word" and en :: encap and p :: view
  defines "m' \<equiv> pk_mem (snd (encap_send prm 0 tlen en p))" defines "e \<equiv> en_hdr (fst (encap_send prm 0 tlen en p))"
  assumes "off_ip p = 18" "off_udp p = 38" "off_gtpu p = 46"
  shows "18 \<le> x \<Longrightarrow> x < 54 \<Longrightarrow> m' x = e x" "x \<in> {12, 13, 16, 17} \<Longrightarrow> m' x = pk_mem p x"
    "54 \<le> x \<Longrightarrow> x < 54 + 8 * rounded (bswap16 (ld16 (pk_mem p) 20)) \<Longrightarrow> m' x = pk_mem p (x - 36)"
  using assms(3-5)
  by (auto simp: m'_def e_def encap_send_def Let_def wr_bytes_def st16_def copy_down_in copy_down_out nth_rd_bytes)


lemma view_plain:
  assumes "LEN_VLAN m = 4" "ip_v m 18 = 4" "ip_hl m 18 = 5"
  shows "off_ip (PktHeader m len) = 18" "off_udp (PktHeader m len) = 38" "off_gtpu (PktHeader m len) = 46" "len_vlan (PktHeader m len) = 4"
    "pk_mem (PktHeader m len) = m" "pk_len (PktHeader m len) = len" "off_ip_i (PktHeader m len) = (if m 46 AND 7 \<noteq> 0 then 58 else 54)"
  using assms by (simp_all add: PktHeader_def Let_def)

lemma tick_keeps_send: "tick c flag = (now, flag') \<Longrightarrow> bit flag' 0 = bit flag 0"
  by (auto simp: tick_def bit_simps split: if_splits)

text \<open>A packet that is sent by an encapsulating filter went through \<open>encap_send\<close>, with a header set up for its length.\<close>

definition wrapped :: "mem \<Rightarrow> view \<Rightarrow> view \<Rightarrow> bool" where
  "wrapped h p p1 \<longleftrightarrow> (\<exists>en prm. p1 = snd (encap_send prm 0 (pk_len p - word_of_nat (len_vlan p) + 40) en p) \<and>
    (\<forall>x. x \<noteq> 19 \<longrightarrow> x \<notin> {50..<54} \<longrightarrow> en_hdr en x = encap_setup (pk_len p - word_of_nat (len_vlan p) + 40) h x))"

lemma wrappedI:
  assumes "encap_send prm 0 (pk_len p - word_of_nat (len_vlan p) + 40) en p = (a, p1)"
    "\<And>x. x \<noteq> 19 \<Longrightarrow> x \<notin> {50..<54} \<Longrightarrow> en_hdr en x = encap_setup (pk_len p - word_of_nat (len_vlan p) + 40) h x"
  shows "wrapped h p p1"
  using assms unfolding wrapped_def by (metis snd_conv)

lemma encap_sent:
  assumes "TranslatorEncapEnforcer_OnFilter (en, prm) p flag = (s1, p1, f1, r1)" "\<not> bit flag 0" "bit f1 0"
  shows "wrapped (en_hdr en) p p1"
proof -
  have k: "bit (flag' OR 16) 0 = bit flag' 0" for flag' :: "32 word" by (simp add: bit_simps)
  show ?thesis
    using assms
    by (auto simp: TranslatorEncapEnforcer_OnFilter_def Let_def k st32_def dest: tick_keeps_send elim!: wrappedI
        split: if_splits option.splits prod.splits colour.splits)
qed


lemma encap_marked:
  assumes "TranslatorEncapMarker_OnFilter (en, prm) p flag = (s1, p1, f1, r1)" "\<not> bit flag 0" "bit f1 0"
    "LEN_VLAN (pk_mem p) = 4" "ld32 (pk_mem p) (off_ip p + 12) \<noteq> bswap32 0xdeadbeaf"
  shows "wrapped (en_hdr en) p p1"
  using assms
  by (auto simp: TranslatorEncapMarker_OnFilter_def Let_def st32_def dest: tick_keeps_send elim!: wrappedI
      split: if_splits option.splits prod.splits colour.splits)

definition unwrapped :: "view \<Rightarrow> view \<Rightarrow> bool" where
  "unwrapped p p2 \<longleftrightarrow> (\<exists>ip q m prm. decap_move p = (ip, Some q) \<and> (\<forall>x. x \<noteq> ip + 1 \<longrightarrow> m x = pk_mem q x) \<and> p2 = decap_send prm ip (q\<lparr>pk_mem := m\<rparr>))"

lemma unwrappedI:
  assumes "decap_move p = (ip, Some q)"
  shows "unwrapped p (decap_send prm ip q)" "unwrapped p (decap_send prm ip (q\<lparr>pk_mem := (pk_mem q)(Suc ip := v)\<rparr>))"
proof -
  have "decap_send prm ip q = decap_send prm ip (q\<lparr>pk_mem := pk_mem q\<rparr>)" by simp
  then show "unwrapped p (decap_send prm ip q)" using assms unfolding unwrapped_def by blast
  have "\<forall>x. x \<noteq> ip + 1 \<longrightarrow> ((pk_mem q)(Suc ip := v)) x = pk_mem q x" by simp
  then show "unwrapped p (decap_send prm ip (q\<lparr>pk_mem := (pk_mem q)(Suc ip := v)\<rparr>))" using assms unfolding unwrapped_def by blast
qed

lemma decap_sent:
  assumes "TranslatorDecapEnforcer_OnFilter (d, prm) p flag = (s, p2, f, r) \<or> TranslatorDecapMarker_OnFilter (d, prm) p flag = (s, p2, f, r)"
    "\<not> bit flag 0" "bit f 0"
  shows "unwrapped p p2"
proof -
  have k: "bit (flag' OR 16) 0 = bit flag' 0" for flag' :: "32 word" by (simp add: bit_simps)
  from assms(1) show ?thesis
  proof
    assume "TranslatorDecapEnforcer_OnFilter (d, prm) p flag = (s, p2, f, r)"
    then show ?thesis using assms(2,3)
      by (auto simp: TranslatorDecapEnforcer_OnFilter_def Let_def k dest: tick_keeps_send intro: unwrappedI
          split: if_splits option.splits prod.splits colour.splits)
  next
    assume "TranslatorDecapMarker_OnFilter (d, prm) p flag = (s, p2, f, r)"
    then show ?thesis using assms(2,3)
      by (auto simp: TranslatorDecapMarker_OnFilter_def Let_def dest: tick_keeps_send intro: unwrappedI
          split: if_splits option.splits prod.splits colour.splits)
  qed
qed


text \<open>The header to put in front is as it should be when the bit for an extension header, which is never set, happened to be clear.\<close>

definition hdr_ok :: "mem \<Rightarrow> bool" where
  "hdr_ok h \<longleftrightarrow> gtpu_ok h 46 \<and> \<not> bit (h 46) 2"

lemma byte_eqI: "(\<And>n. n \<in> {0, 1, 2, 3, 4, 5, 6, 7} \<Longrightarrow> bit a n = bit (b :: byte) n) \<Longrightarrow> a = b"
proof (rule bit_word_eqI)
  fix n :: nat
  assume e: "\<And>n. n \<in> {0, 1, 2, 3, 4, 5, 6, 7} \<Longrightarrow> bit a n = bit b n" and "n < LENGTH(8)"
  then have "n < Suc (Suc (Suc (Suc (Suc (Suc (Suc (Suc 0)))))))" by simp
  then have "n \<in> {0, 1, 2, 3, 4, 5, 6, 7}" unfolding less_Suc_eq by fastforce
  then show "bit a n = bit b n" by (rule e)
qed

lemma and_7_zero: "\<not> bit (b :: byte) 0 \<Longrightarrow> \<not> bit b 2 \<Longrightarrow> (b AND - 3) AND 7 = 0"
  by (rule byte_eqI) (auto simp: bit_simps)

lemma drop_5_keeps: "drop_bit 5 (b AND - 3 :: byte) = drop_bit 5 b"
  by (rule byte_eqI) (auto simp: bit_simps dest: bit_imp_le_length)

lemma hdr_ok_sent: "hdr_ok h \<Longrightarrow> m 46 = h 46 AND NOT 2 \<Longrightarrow> m 47 = h 47 \<Longrightarrow> gtpu_ok m 46 \<and> m 46 AND 7 = 0"
  by (auto simp: hdr_ok_def gtpu_ok_def and_7_zero drop_5_keeps bit_simps bit_iff_odd [of 2])

lemma setup_bytes:
  "encap_setup tlen h 18 = 0x45" "encap_setup tlen h 46 = h 46 AND NOT 2" "encap_setup tlen h 47 = h 47"
  "ld16 (encap_setup tlen h) 20 = bswap16 (ucast (tlen - 18))"
  "ld16 (encap_setup tlen h) 42 = bswap16 (ucast (tlen - 38))" "ld16 (encap_setup tlen h) 48 = bswap16 (ucast (tlen - 54))"
  by (simp_all add: encap_setup_def Let_def mem_defs)

lemma wrapped_facts:
  fixes m :: mem
  assumes w: "wrapped h (PktHeader m len) p1" and v: "LEN_VLAN m = 4" "ip_v m 18 = 4" "ip_hl m 18 = 5"
  shows "LEN_VLAN (pk_mem p1) = 4" "ip_v (pk_mem p1) 18 = 4" "ip_hl (pk_mem p1) 18 = 5" "pk_len p1 = len + 36"
    "pk_mem p1 46 = h 46 AND NOT 2" "pk_mem p1 47 = h 47"
    "54 \<le> x \<Longrightarrow> x < 54 + 8 * rounded (bswap16 (ld16 m 20)) \<Longrightarrow> pk_mem p1 x = m (x - 36)"
proof -
  let ?tlen = "len - 4 + 40"
  obtain en prm where p1: "p1 = snd (encap_send prm 0 ?tlen en (PktHeader m len))"
    and hd: "\<And>x. x \<noteq> 19 \<Longrightarrow> x \<notin> {50..<54} \<Longrightarrow> en_hdr en x = encap_setup ?tlen h x"
    using w unfolding wrapped_def by (auto simp: view_plain [OF v])
  note s = encap_send_mem [where p = "PktHeader m len" and prm = prm and tlen = ?tlen and en = en, unfolded view_plain [OF v],
      OF refl refl refl, folded p1]
  have o: "pk_mem p1 x = m x" if "x \<in> {12, 13, 16, 17}" for x using s(2) [OF that] by (simp add: view_plain [OF v])
  then show "LEN_VLAN (pk_mem p1) = 4" using v(1) by (simp add: LEN_VLAN_def mem_defs split: if_splits)
  have hx: "pk_mem p1 x = encap_setup ?tlen h x" if "x \<in> {18, 46, 47}" for x
    using s(1) [of x] encap_send_hdr [of x prm 0 ?tlen en "PktHeader m len"] hd [of x] that by auto
  have "pk_mem p1 18 = 0x45" using hx [of 18] by (simp add: setup_bytes)
  then show "ip_v (pk_mem p1) 18 = 4" "ip_hl (pk_mem p1) 18 = 5" by (simp_all add: ip_v_def ip_hl_def)
  show "pk_len p1 = len + 36" by (simp add: p1 encap_send_def Let_def)
  show "pk_mem p1 46 = h 46 AND NOT 2" "pk_mem p1 47 = h 47" using hx [of 46] hx [of 47] by (simp_all add: setup_bytes)
  show "54 \<le> x \<Longrightarrow> x < 54 + 8 * rounded (bswap16 (ld16 m 20)) \<Longrightarrow> pk_mem p1 x = m (x - 36)"
    using s(3) by (simp add: view_plain [OF v])
qed


section \<open>Properties\<close>

text \<open>C27: An inner packet comes out of the tunnel as it went in: take a tagged IPv4 packet without options, shorter than 65528 octets, and let an encapsulating filter
  send it (one that enforces, or one that marks, unless the packet's source is the marking address 0xdeadbeaf, which the marker rewrites), then let a
  decapsulating filter of either kind send the result. The packet that leaves has the old length, and every octet from its IPv4 header to its last is
  the old one, but for the type of service, which may have been marked, and the header checksum, which is computed again. The Ethernet header and the VLAN tag
  are those of the next hop and are not compared. The header template has the version and the message type that OnInitFilter gives it; its extension bit has
  to be clear, which is an assumption on the allocated memory, since OnInitFilter never clears it.\<close>

theorem tunnel_roundtrip:
  assumes plain: "LEN_VLAN m = 4" "ip_v m 18 = 4" "ip_hl m 18 = 5" "unat (bswap16 (ld16 m 20)) < 65528" and h: "hdr_ok (en_hdr en)"
    and enc: "TranslatorEncapEnforcer_OnFilter (en, prm) (PktHeader m len) flag = (s1, p1, f1, r1) \<or>
      ld32 m 30 \<noteq> bswap32 0xdeadbeaf \<and> TranslatorEncapMarker_OnFilter (en, prm) (PktHeader m len) flag = (s1, p1, f1, r1)"
    and dec: "TranslatorDecapEnforcer_OnFilter (d, prm') (PktHeader (pk_mem p1) (pk_len p1)) flag' = (s2, p2, f2, r2) \<or>
      TranslatorDecapMarker_OnFilter (d, prm') (PktHeader (pk_mem p1) (pk_len p1)) flag' = (s2, p2, f2, r2)"
    and sent: "\<not> bit flag 0" "bit f1 0" "\<not> bit flag' 0" "bit f2 0"
  shows "pk_len p2 = len \<and> (\<forall>i < unat (bswap16 (ld16 m 20)). i \<notin> {1, 10, 11} \<longrightarrow> pk_mem p2 (18 + i) = m (18 + i))"
proof -
  let ?L = "unat (bswap16 (ld16 m 20))"
  note pl = view_plain [OF plain(1-3)]
  have "wrapped (en_hdr en) (PktHeader m len) p1"
    using enc
  proof (elim disjE conjE)
    assume "TranslatorEncapEnforcer_OnFilter (en, prm) (PktHeader m len) flag = (s1, p1, f1, r1)"
    then show ?thesis by (rule encap_sent) (rule sent)+
  next
    assume "ld32 m 30 \<noteq> bswap32 0xdeadbeaf" "TranslatorEncapMarker_OnFilter (en, prm) (PktHeader m len) flag = (s1, p1, f1, r1)"
    then show ?thesis using encap_marked [of en prm "PktHeader m len" flag s1 p1 f1 r1] sent(1,2) plain(1) by (simp add: pl)
  qed
  note w = wrapped_facts [OF this plain(1-3)]
  note pl1 = view_plain [OF w(1-3)]
  have g: "gtpu_ok (pk_mem p1) 46 \<and> pk_mem p1 46 AND 7 = 0" using hdr_ok_sent [OF h] w(5,6) by blast
  have L: "?L \<le> 8 * rounded (bswap16 (ld16 m 20))" and r: "8 \<le> 8 * rounded (bswap16 (ld16 m 20))"
    unfolding rounded_eq [OF plain(4)] by presburger+
  have in4: "pk_mem p1 (54 + i) = m (18 + i)" if "i < ?L \<or> i < 8" for i
    using w(7) [of "54 + i"] that L r by (auto simp: add.commute)
  have il: "bswap16 (ld16 (pk_mem p1) 56) = bswap16 (ld16 m 20)" using in4 [of 2] in4 [of 3] by (simp add: mem_defs)
  have iv: "ip_v (pk_mem p1) 54 = 4" using in4 [of 0] plain(2) by (simp add: ip_v_def)
  have mv: "decap_move (PktHeader (pk_mem p1) (pk_len p1)) = (18, Some ((PktHeader (pk_mem p1) (pk_len p1))\<lparr>pk_mem := copy_bytes (pk_mem p1) 18 54 ?L, pk_len := len\<rparr>))"
    using g by (simp add: decap_move_def Let_def pl1 w(1,4) iv il)
  obtain q prm2 where q: "\<forall>x. x \<noteq> 19 \<longrightarrow> q x = copy_bytes (pk_mem p1) 18 54 ?L x"
    and p2: "p2 = decap_send prm2 18 ((PktHeader (pk_mem p1) (pk_len p1))\<lparr>pk_len := len, pk_mem := q\<rparr>)"
    using decap_sent [OF dec sent(3,4)] unfolding unwrapped_def mv by auto
  have "pk_mem p2 (18 + i) = m (18 + i)" if i: "i < ?L" "i \<notin> {1, 10, 11}" for i
  proof -
    have "pk_mem p2 (18 + i) = q (18 + i)" using i by (auto simp: p2 decap_send_def st16_def)
    also have "\<dots> = pk_mem p1 (54 + i)" using q i by (simp add: copy_bytes_in)
    finally show ?thesis using in4 i by simp
  qed
  then show ?thesis by (simp add: p2 decap_send_def)
qed


text \<open>A packet through the tunnel.\<close>

definition demo_packet :: mem where
  "demo_packet = mem_of 12 [0x81, 0, 0, 9, 8, 0, 0x45, 0, 0, 24, 0, 1, 0, 0, 64, 17, 0xAA, 0xBB, 192, 168, 0, 1, 10, 0, 0, 5, 1, 2, 3, 4]"

definition demo_in :: "(encap \<times> params) \<times> view \<times> 32 word \<times> ended" where
  "demo_in = TranslatorEncapEnforcer_OnFilter (Encap_OnInitFilter (\<lambda>_. 0), demo_params) (PktHeader demo_packet 42) 0"

definition demo_out :: "(decap \<times> params) \<times> view \<times> 32 word \<times> ended" where
  "demo_out = (let p = fst (snd demo_in) in TranslatorDecapMarker_OnFilter (Decap_OnInitFilter, demo_params) (PktHeader (pk_mem p) (pk_len p)) 0)"

lemma demo_sent: "bit (fst (snd (snd demo_in))) 0" "bit (fst (snd (snd demo_out))) 0"
  by code_simp+


theorem tunnel_roundtrip_witness:
  "pk_len (fst (snd demo_out)) = 42 \<and> pk_mem (fst (snd demo_out)) 18 = 0x45 \<and> pk_mem (fst (snd demo_out)) 30 = 192 \<and>
   pk_mem (fst (snd demo_out)) 34 = 10 \<and> pk_mem (fst (snd demo_out)) 41 = 4"
proof -
  let ?en = "Encap_OnInitFilter (\<lambda>_. 0)"
  have enc: "TranslatorEncapEnforcer_OnFilter (?en, demo_params) (PktHeader demo_packet 42) 0 =
      (fst demo_in, fst (snd demo_in), fst (snd (snd demo_in)), snd (snd (snd demo_in)))" by (simp add: demo_in_def)
  have dec: "TranslatorDecapMarker_OnFilter (Decap_OnInitFilter, demo_params) (PktHeader (pk_mem (fst (snd demo_in))) (pk_len (fst (snd demo_in)))) 0 =
      (fst demo_out, fst (snd demo_out), fst (snd (snd demo_out)), snd (snd (snd demo_out)))" by (simp add: demo_out_def Let_def)
  have p: "LEN_VLAN demo_packet = 4" "ip_v demo_packet 18 = 4" "ip_hl demo_packet 18 = 5" "unat (bswap16 (ld16 demo_packet 20)) = 24" "hdr_ok (en_hdr ?en)"
    by code_simp+
  have r: "pk_len (fst (snd demo_out)) = 42 \<and> (\<forall>i < 24. i \<notin> {1, 10, 11} \<longrightarrow> pk_mem (fst (snd demo_out)) (18 + i) = demo_packet (18 + i))"
    using tunnel_roundtrip [OF p(1-3) _ p(5) disjI1 [OF enc] disjI2 [OF dec] _ demo_sent(1) _ demo_sent(2)] p(4) by simp
  have o: "pk_mem (fst (snd demo_out)) (18 + i) = demo_packet (18 + i)" if "i < 24" "i \<notin> {1, 10, 11}" for i using r that by blast
  have "demo_packet 18 = 0x45" "demo_packet 30 = 192" "demo_packet 34 = 10" "demo_packet 41 = 4" by code_simp+
  then show ?thesis using r o [of 0] o [of 12] o [of 16] o [of 23] by simp
qed

text \<open>the marker refuses every packet without a tag: the tag it adds is written over the first octets of the IP header before the version in it is looked
  at, so that no untagged packet is ever of version 4.\<close>

theorem untagged_refused:
  assumes "LEN_VLAN m = 0"
  shows "snd (snd (snd (TranslatorEncapMarker_OnFilter st (PktHeader m len) flag))) = Failed \<and>
    fst (snd (snd (TranslatorEncapMarker_OnFilter st (PktHeader m len) flag))) = flag"
proof -
  let ?p = "PktHeader m len"
  have o: "off_ip ?p = 14" "pk_mem ?p = m" using assms by (simp_all add: PktHeader_def Let_def)
  have v: "ip_v (extend_vlan m) 14 \<noteq> 4" "ip_v (st32 (extend_vlan m) 26 w) 14 \<noteq> 4" for w
    by (simp_all add: ip_v_def extend_vlan_def mem_defs byte_of_def)
  show ?thesis
    using assms by (cases st) (auto simp: TranslatorEncapMarker_OnFilter_def Let_def o v)
qed

definition demo_untagged :: mem where
  "demo_untagged = mem_of 12 [8, 0, 0x45, 0, 0, 24, 0, 1, 0, 0, 64, 17, 0, 0, 192, 168, 0, 1, 10, 0, 0, 5]"

theorem untagged_refused_witness:
  "snd (snd (snd (TranslatorEncapMarker_OnFilter (Encap_OnInitFilter (\<lambda>_. 0), demo_params) (PktHeader demo_untagged 38) 0))) = Failed"
proof -
  have "LEN_VLAN demo_untagged = 0" by code_simp
  from untagged_refused [OF this] show ?thesis by blast
qed

text \<open>a mark outlives its packet: the type of service of the header that is put in front is set for yellow packets and never reset, so a green packet is sent with
  whatever the header had before - the mark of the last yellow packet, of any tunnel.\<close>

theorem mark_outlives_packet:
  assumes plain: "LEN_VLAN m = 4" "ip_v m 18 = 4" "ip_hl m 18 = 5" and lk: "found_link prm (ld32 m 34) = Some it"
    and po: "Get_tbl (tbl_policer prm) (teid_gid (ld32 m 34)) = Some t"
    and green: "snd (meter True True (fst (tick (en_counter en) flag)) (ld32 m 34) len t) = Some Green"
  defines "out \<equiv> TranslatorEncapEnforcer_OnFilter (en, prm) (PktHeader m len) flag"
  shows "bit (fst (snd (snd out))) 0 \<and> pk_mem (fst (snd out)) 19 = en_hdr en 19 \<and> en_hdr (fst (fst out)) 19 = en_hdr en 19"
proof -
  note pl = view_plain [OF plain]
  have s: "encap_setup l h 19 = h 19" "st32 h 50 v 19 = h 19" for l h v by (simp_all add: encap_setup_def Let_def mem_defs)
  obtain now f t' where e: "tick (en_counter en) flag = (now, f)" "meter True True now (ld32 m 34) len t = (t', Some Green)"
    using green by (metis fst_conv prod.collapse)
  show ?thesis
    unfolding out_def TranslatorEncapEnforcer_OnFilter_def
    using encap_send_mem(1) [of "PktHeader m len" 19, unfolded pl] encap_send_hdr [of 19]
    by (simp add: Let_def pl plain lk po e split_beta s bit_simps)
qed


definition marked_en :: encap where
  "marked_en = Encap_OnInitFilter ((\<lambda>_. 0)(19 := 0x20))"

theorem mark_outlives_packet_witness:
  "pk_mem (fst (snd (TranslatorEncapEnforcer_OnFilter (marked_en, demo_params) (PktHeader demo_packet 42) 0))) 19 = 0x20"
proof -
  have p: "LEN_VLAN demo_packet = 4" "ip_v demo_packet 18 = 4" "ip_hl demo_packet 18 = 5" "found_link demo_params (ld32 demo_packet 34) = Some demo_link"
    "snd (meter True True (fst (tick (en_counter marked_en) 0)) (ld32 demo_packet 34) 42 (full_table (demo_policer\<lparr>c_rate := 2000\<rparr>))) = Some Green"
    "en_hdr marked_en 19 = 0x20"
    by code_simp+
  have t: "Get_tbl (tbl_policer demo_params) (teid_gid (ld32 demo_packet 34)) = Some (full_table (demo_policer\<lparr>c_rate := 2000\<rparr>))"
  proof -
    have "teid_gid (ld32 demo_packet 34) = 0" by code_simp
    then show ?thesis by (simp add: Get_tbl_def demo_params_def)
  qed
  from mark_outlives_packet [OF p(1-4) t p(5)] show ?thesis by (simp add: p(6))
qed

end
