(* ===== verification/Tools_Policy.thy ===== *)
theory Tools_Policy
  imports Tools_Filters
begin

text \<open>
  The policy filter of the tools (\<open>tools/src/lib/filter/policy.cc\<close>), its table (\<open>LookupTable\<close>, \<open>inc/lib_lookup/lookup_table_tpl.hh\<close>, here with \<open>2^20\<close> slots)
  and the choice of a filter for a packet (\<open>FilterContainer\<close>). The table is like that of the tunnels, but an entry is valid when its bit is 0.
\<close>

section \<open>The table\<close>

record 'i lut =
  lut_a :: "32 word \<Rightarrow> byte \<times> 'i"
  lut_b :: "32 word \<Rightarrow> byte \<times> 'i"
  lut_side :: "32 word \<Rightarrow> 64 word"
  lut_notice :: "32 word \<Rightarrow> 64 word"
  lut_clock :: "64 word"
  lut_clock_prv :: "64 word"

abbreviation LUT_SIZE :: "32 word" where "LUT_SIZE \<equiv> 1048576"
abbreviation LUT_ON :: byte where "LUT_ON \<equiv> 0"
abbreviation LUT_OFF :: byte where "LUT_OFF \<equiv> 1"

definition lut_bits :: "32 word \<Rightarrow> 64 word" where
  "lut_bits g = push_bit (unat (g - push_bit 6 (drop_bit 6 g))) 1"

definition lut_Clear :: "'i \<Rightarrow> 'i lut" where
  "lut_Clear z = \<lparr>lut_a = (\<lambda>_. (0, z)), lut_b = (\<lambda>_. (0, z)), lut_side = (\<lambda>_. 0), lut_notice = (\<lambda>_. 0), lut_clock = 0, lut_clock_prv = 0\<rparr>"

definition lut_Clock :: "'i lut \<Rightarrow> 'i lut" where
  "lut_Clock t = t\<lparr>lut_clock := lut_clock t + 1\<rparr>"

definition lut_front :: "'i lut \<Rightarrow> 32 word \<Rightarrow> bool" where
  "lut_front t g \<longleftrightarrow> lut_side t (drop_bit 6 g) AND lut_bits g \<noteq> 0"

definition lut_at :: "'i lut \<Rightarrow> 32 word \<Rightarrow> bool \<Rightarrow> byte \<times> 'i" where
  "lut_at t g s = (if s then lut_a t g else lut_b t g)"

definition lut_put :: "32 word \<Rightarrow> bool \<Rightarrow> byte \<times> 'i \<Rightarrow> 'i lut \<Rightarrow> 'i lut" where
  "lut_put g s v t = (if s then t\<lparr>lut_a := (lut_a t)(g := v)\<rparr> else t\<lparr>lut_b := (lut_b t)(g := v)\<rparr>)"

text \<open>\<open>Find\<close>: the side of the entry, \<open>None\<close> for the end.\<close>

definition lut_Find :: "'i lut \<Rightarrow> 32 word \<Rightarrow> bool \<Rightarrow> bool option" where
  "lut_Find t g flag =
     (if g > LUT_SIZE - 1 then None
      else if flag then Some (\<not> lut_front t g)
      else if fst (lut_at t g (lut_front t g)) = LUT_ON then Some (lut_front t g) else None)"

definition lut_SwapSide :: "32 word \<Rightarrow> 'i lut \<Rightarrow> 'i lut" where
  "lut_SwapSide g t = t\<lparr>lut_side := (lut_side t)(drop_bit 6 g := lut_side t (drop_bit 6 g) XOR lut_bits g)\<rparr>"

definition lut_NotifyChange :: "32 word \<Rightarrow> 'i lut \<Rightarrow> 'i lut" where
  "lut_NotifyChange g t = t\<lparr>lut_notice := (lut_notice t)(drop_bit 6 g := lut_notice t (drop_bit 6 g) XOR lut_bits g)\<rparr>"

definition lut_FindNotice :: "'i lut \<Rightarrow> 32 word \<Rightarrow> 64 word" where
  "lut_FindNotice t g = (if g > LUT_SIZE - 1 then 0 else lut_notice t (drop_bit 6 g))"

definition lut_ClearNotice :: "32 word \<Rightarrow> 'i lut \<Rightarrow> 'i lut" where
  "lut_ClearNotice g t = (if g \<le> LUT_SIZE then t\<lparr>lut_notice := (lut_notice t)(drop_bit 6 g := 0)\<rparr> else t)"

text \<open>A change: \<open>Inl\<close> an exception, \<open>Inr None\<close> an error of the clock.\<close>

definition lut_change :: "32 word \<Rightarrow> (byte \<times> 'i \<Rightarrow> byte \<times> 'i) \<Rightarrow> bool \<Rightarrow> 'i lut \<Rightarrow> unit + 'i lut option" where
  "lut_change g f nochk_counter t =
     (if nochk_counter \<and> lut_clock t \<le> lut_clock_prv t then Inr None
      else
        let t = (if nochk_counter then t\<lparr>lut_clock_prv := lut_clock t\<rparr> else t) in
        case lut_Find t g True of
          None \<Rightarrow> Inl ()
        | Some s \<Rightarrow> Inr (Some (lut_NotifyChange g (lut_SwapSide g (lut_put g s (f (lut_at t g s)) t)))))"

definition lut_Add :: "32 word \<Rightarrow> 'i \<Rightarrow> bool \<Rightarrow> 'i lut \<Rightarrow> unit + 'i lut option" where
  "lut_Add g itm = lut_change g (\<lambda>_. (LUT_ON, itm))"

definition lut_Del :: "32 word \<Rightarrow> bool \<Rightarrow> 'i lut \<Rightarrow> unit + 'i lut option" where
  "lut_Del g = lut_change g (\<lambda>(_, i). (LUT_OFF, i))"

text \<open>\<open>operator[]\<close>: the side to write through.\<close>

definition lut_index :: "32 word \<Rightarrow> 'i lut \<Rightarrow> unit + 'i lut \<times> bool" where
  "lut_index g t =
     (if g > LUT_SIZE - 1 then Inl ()
      else case lut_Find t g False of
        Some s \<Rightarrow> Inr (lut_put g s (LUT_ON, snd (lut_at t g s)) t, s)
      | None \<Rightarrow> let s = (\<not> lut_front t g) in Inr (lut_SwapSide g (lut_put g s (LUT_ON, snd (lut_at t g s)) t), s))"

text \<open>\<open>EnumerateForUpdate\<close>, which leaves slot 0 out of the copies but not of the swap.\<close>

definition lut_enum_item :: "('i \<Rightarrow> 'u \<Rightarrow> 'i \<times> 'u) \<Rightarrow> 'i lut \<times> 'u \<Rightarrow> 32 word \<Rightarrow> 'i lut \<times> 'u" where
  "lut_enum_item func tu g =
     (let (t, u) = tu; s = lut_front t g; (v, u) = func (snd (lut_at t g s)) u in (lut_put g (\<not> s) (LUT_ON, v) t, u))"

definition lut_EnumerateForUpdate :: "('i \<Rightarrow> 'u \<Rightarrow> 'i \<times> 'u) \<Rightarrow> 'u \<Rightarrow> 'i lut \<Rightarrow> 'i lut \<times> 'u" where
  "lut_EnumerateForUpdate func u t =
     (let (t, u) = foldl (lut_enum_item func) (t, u) (map word_of_nat [1..<1048576]) in
      (t\<lparr>lut_side := (\<lambda>w. if w < 16384 then lut_side t w XOR (- 1) else lut_side t w)\<rparr>, u))"

section \<open>The filter\<close>

record policy =
  linked_vlanid :: "16 word"
  linked_ipv4 :: "32 word"

definition policy_target :: "view \<Rightarrow> 32 word" where
  "policy_target p =
     (let m = pk_mem p; ip = off_ip p in
      if ip_v m ip = 4 then bswap32 (ld32 m (ip + 16)) AND 0x000FFFFF else bswap32 (ld32 m (ip + 28)) AND 0x000FFFFF)"

definition out_vlanid_ok :: "16 word \<Rightarrow> bool" where
  "out_vlanid_ok v \<longleftrightarrow> \<not> ((v < 11 \<or> v > 13) \<and> v \<noteq> 4000)"

definition Policy_OnFilter :: "policy lut option \<Rightarrow> view \<Rightarrow> 32 word \<Rightarrow> view \<times> 32 word \<times> ended" where
  "Policy_OnFilter tbl p flag =
     (let m = pk_mem p; g = policy_target p in
      if LEN_VLAN m \<noteq> 4 then (p, flag, Thrown)
      else if ld16 m 14 \<noteq> bswap16 10 then (p, flag, Returned)
      else case tbl of
        None \<Rightarrow> (p, flag, Returned)
      | Some t \<Rightarrow>
          (case lut_Find t g False of
             None \<Rightarrow> (p, flag, Returned)
           | Some s \<Rightarrow>
               let v = linked_vlanid (snd (lut_at t g s)) in
               if \<not> out_vlanid_ok v then (p, flag, Returned)
               else (p\<lparr>pk_mem := SwapMac (st16 m 14 (bswap16 v))\<rparr>, flag OR PROC_NEED_SEND, Returned)))"

section \<open>The choice of a filter\<close>

datatype filter_id = F_ARP | F_ICMP | F_GTPU | F_OVERIP | F_CTRL | F_GTPUECHOREQ | F_BFD | F_GTPC | F_BFDC | F_POLICY

text \<open>\<open>SetFilter\<close> and \<open>Exec\<close>, which gives the filter that is run, if any.\<close>

definition SetFilter :: "filter_id \<Rightarrow> 'f option \<Rightarrow> (filter_id \<Rightarrow> 'f option) \<Rightarrow> filter_id \<Rightarrow> 'f option" where
  "SetFilter i f fs = (if f = None then fs else fs(i := f))"

definition Exec :: "(filter_id \<Rightarrow> 'f option) \<Rightarrow> pkttype \<Rightarrow> 'f option" where
  "Exec fs type =
     (case type of
        RETPTGTPU \<Rightarrow> fs F_GTPU
      | RETPTOVERIP \<Rightarrow> fs F_OVERIP
      | RETPTICMP \<Rightarrow> fs F_ICMP
      | RETPTCTRL \<Rightarrow> fs F_CTRL
      | RETPTBFDC \<Rightarrow> fs F_BFDC
      | RETPTARP \<Rightarrow> fs F_ARP
      | RETPTGTPUECHOREQ \<Rightarrow> fs F_GTPUECHOREQ
      | RETPTGTPC \<Rightarrow> None
      | RETERR_TYPE \<Rightarrow> None)"

section \<open>Properties\<close>

text \<open>an empty table has every entry: the bit for a valid entry is 0 and the table is cleared with zeros, so that before anything was added a lookup finds each of
  the \<open>2^20\<close> slots; only the network of 0 that such an entry names keeps the policy filter from sending.\<close>

theorem empty_policy_table_finds_all:
  "lut_Find (lut_Clear z) g False = (if g < LUT_SIZE then Some False else None)"
proof -
  have "g > LUT_SIZE - 1 \<longleftrightarrow> \<not> g < LUT_SIZE" unfolding word_less_nat_alt by auto
  then show ?thesis by (simp add: lut_Find_def lut_Clear_def lut_front_def lut_at_def)
qed

text \<open>the policy filter is never run: it is put into a place of its own in the container, and no kind of packet is given to that place.\<close>

theorem policy_filter_never_runs:
  "Exec (SetFilter F_POLICY f fs) type = Exec fs type"
  by (cases type) (auto simp: Exec_def SetFilter_def)

lemma allowed_network:
  assumes "out_vlanid_ok v"
  shows "v = 11 \<or> v = 12 \<or> v = 13 \<or> v = 4000"
proof (cases "v = 4000")
  case False
  then have "11 \<le> unat v" "unat v \<le> 13" using assms by (simp_all add: out_vlanid_ok_def word_less_nat_alt not_less)
  then have "unat v = unat (11 :: 16 word) \<or> unat v = unat (12 :: 16 word) \<or> unat v = unat (13 :: 16 word)" by simp arith
  then show ?thesis unfolding word_unat_eq_iff [symmetric] by blast
qed simp

lemma policy_sent:
  assumes "Policy_OnFilter tbl p flag = (p', f, r)" "\<not> bit flag 0" "bit f 0"
  shows "\<exists>v. out_vlanid_ok v \<and> ld16 (pk_mem p) 14 = bswap16 10 \<and> pk_mem p' = SwapMac (st16 (pk_mem p) 14 (bswap16 v))"
proof -
  have ne: "f \<noteq> flag" using assms(2,3) by auto
  have l: "LEN_VLAN (pk_mem p) = 4" "ld16 (pk_mem p) 14 = bswap16 10"
    using assms(1) ne unfolding Policy_OnFilter_def Let_def by (auto split: if_split_asm)
  then obtain t where t: "tbl = Some t" using assms(1) ne unfolding Policy_OnFilter_def Let_def by (cases tbl) simp_all
  obtain s where s: "lut_Find t (policy_target p) False = Some s"
    using assms(1) ne l unfolding Policy_OnFilter_def Let_def t by (cases "lut_Find t (policy_target p) False") simp_all
  let ?v = "linked_vlanid (snd (lut_at t (policy_target p) s))"
  have o: "out_vlanid_ok ?v" using assms(1) ne l unfolding Policy_OnFilter_def Let_def t option.case s by (metis Pair_inject)
  have "p' = p\<lparr>pk_mem := SwapMac (st16 (pk_mem p) 14 (bswap16 ?v))\<rparr>"
    using assms(1) l o unfolding Policy_OnFilter_def Let_def t option.case s by simp
  then show ?thesis using l o by (intro exI [of _ ?v]) simp
qed

text \<open>a packet leaves only to the networks it is allowed to: whatever the table holds, a packet that the policy filter sends came from network 10 and leaves with
  one of the networks 11 to 13 or 4000, its addresses on the Ethernet exchanged and nothing else changed.\<close>

theorem policy_sends_to_allowed_networks:
  assumes "Policy_OnFilter tbl p flag = (p', f, r)" "\<not> bit flag 0" "bit f 0"
  shows "ld16 (pk_mem p) 14 = bswap16 10 \<and> bswap16 (ld16 (pk_mem p') 14) \<in> {11, 12, 13, 4000} \<and>
    rd_bytes (pk_mem p') 0 12 = rd_bytes (pk_mem p) 6 6 @ rd_bytes (pk_mem p) 0 6 \<and> (\<forall>x \<ge> 16. pk_mem p' x = pk_mem p x)"
proof -
  let ?m = "pk_mem p"
  obtain v where v: "out_vlanid_ok v" and l: "ld16 ?m 14 = bswap16 10" and m: "pk_mem p' = SwapMac (st16 ?m 14 (bswap16 v))"
    using policy_sent [OF assms] by blast
  have "v \<in> {11, 12, 13, 4000}" using allowed_network [OF v] by simp
  then have "bswap16 (ld16 (pk_mem p') 14) \<in> {11, 12, 13, 4000}" by (simp add: m ld16_def st16_def)
  moreover have "rd_bytes (pk_mem p') 0 12 = rd_bytes ?m 6 6 @ rd_bytes ?m 0 6"
  proof (rule nth_equalityI)
    fix i assume "i < length (rd_bytes (pk_mem p') 0 12)"
    then show "rd_bytes (pk_mem p') 0 12 ! i = (rd_bytes ?m 6 6 @ rd_bytes ?m 0 6) ! i"
      by (cases "i < 6") (auto simp: m SwapMac_def Let_def wr_bytes_def copy_bytes_def st16_def nth_append)
  qed simp
  moreover have "\<forall>x \<ge> 16. pk_mem p' x = ?m x" by (simp add: m st16_def)
  ultimately show ?thesis using l by blast
qed

definition demo_policies :: "policy lut" where
  "demo_policies = (case lut_Add 5 \<lparr>linked_vlanid = 12, linked_ipv4 = 0\<rparr> False (lut_Clear \<lparr>linked_vlanid = 0, linked_ipv4 = 0\<rparr>) of
     Inr (Some t) \<Rightarrow> t | _ \<Rightarrow> lut_Clear \<lparr>linked_vlanid = 0, linked_ipv4 = 0\<rparr>)"

definition demo_inbound :: mem where
  "demo_inbound = mem_of 12 [0x81, 0, 0, 10, 8, 0, 0x45, 0, 0, 24, 0, 1, 0, 0, 64, 17, 0, 0, 192, 168, 0, 1, 10, 0, 0, 5]"

definition demo_network :: "view \<times> 32 word \<times> ended" where
  "demo_network = Policy_OnFilter (Some demo_policies) (PktHeader demo_inbound 60) 0"

theorem policy_sends_to_allowed_networks_witness: "bswap16 (ld16 (pk_mem (fst demo_network)) 14) \<in> {11, 12, 13, 4000}"
proof -
  have "bit (fst (snd demo_network)) 0" by code_simp
  then show ?thesis
    using policy_sends_to_allowed_networks [of "Some demo_policies" "PktHeader demo_inbound 60" 0 "fst demo_network" "fst (snd demo_network)" "snd (snd demo_network)"]
    by (simp add: demo_network_def)
qed

end
