(* ===== verification/Spec2Isabelle.thy ===== *)
theory Spec2Isabelle
  imports Rx_Cores Tx_Core Pgw_Tunnel Greterm_Worker Gtpu2gre_Worker Pgw_Workers Transfer_Workers Tap_Cores Other_Properties Ctrl_Properties Proxy_Properties Bfd Tools_Sgw Tools_Translators Tools_Policy
begin

text \<open>
  A verification library for mixi-pgw, a packet gateway (PGW) for mobile networks: its user plane, the C++ code
  under \<open>src/dataplane\<close>, which runs on DPDK, one endless cycle per core, and its control plane, the C code under
  \<open>src/ctrlplane\<close>, which answers GTP-C requests and keeps the sessions in a database, with the C++ proxy in front of it; and, of the tools
  under \<open>src/tools\<close>, the GTP-C library, the SGW simulator's requests and the BFD sessions.

  \<^bold>\<open>The program.\<close> A process of the user plane is a graph of cores joined by rings. Receiving cores take packets from
  the NIC and spread them over workers; workers transform packets (encapsulation of user packets in
  GTP-U, exchange of GTP-U for GRE, termination of the capsule, tunnelling and policing with the tables
  of tunnels, counting of usage); sending cores give them to the NIC. The tables of tunnels are filled
  from warm-up packets and from the MySQL binlog. All cores share a base class with a burst buffer. The control
  plane is a set of threads (nodes) with queues: received packets are dispatched by message type, a handler parses
  the request, asks and updates the database, and queues an answer. An answer that sets up or changes a session ends in a private extension
  with the values of the tunnel; on its way through the tap the user plane copies it to its workers. The proxy spreads requests over groups of
  control planes by subscriber and brings the answers back. The tools build GTP-C messages of their own, to load the gateway, and speak BFD with routers.

  \<^bold>\<open>Theories and what they model.\<close>
  \<^item> \<open>Pgw_Prelude\<close>: octets, byte order, memory with loads and stores; shared lemmas.
  \<^item> \<open>Dpdk\<close>: \<open>rte_mbuf\<close> as memory with an offset and a length; the functions of DPDK the code calls
    are a record of parameters (\<open>dpdk\<close>), and their documented behaviour the named hypotheses
    \<open>mbuf_laws\<close>, \<open>ptype_laws\<close>, \<open>l2_laws\<close> and \<open>ring_laws\<close>. \<open>ref_dpdk\<close> satisfies them all and is what the
    witnesses use.
  \<^item> \<open>Packet_Def\<close>, \<open>Ip_Checksum\<close>, \<open>Text_Utils\<close>: the inline functions of
    \<open>inc/mixi_pgw_data_plane_def.hpp\<close>: classifiers, Error Indication, checksum, string helpers.
  \<^item> \<open>Session_Table\<close>: the locale of a table of sessions (what a lookup returns after stores and erasures);
    \<open>Lookup_Table\<close> interprets it on \<open>Lookup<T,S,K>\<close> (\<open>inc/lookup_tpl.hh\<close>), and \<open>Pgw_Base\<close> on the
    hash map of the workers. In \<open>Lookup_Table\<close>, \<open>Add\<close> and \<open>Del\<close> run their stores one by one, and
    \<open>effect_step\<close> is what a concurrent reader sees of them, under sequential consistency.
  \<^item> \<open>Core_Interface\<close>: \<open>CoreInterface\<close> and \<open>CoreCounter\<close> (\<open>src/core/cores.cc\<close>, \<open>inc/core.hpp\<close>): burst
    buffer, flush, counters, the two loops over a burst; the locale \<open>packet_worker\<close>, interpreted by
    \<open>Encap_Worker\<close>, \<open>Gtpu2gre_Worker\<close>, \<open>Greterm_Worker\<close> and \<open>Transfer_Workers\<close> (\<open>src/core/core_*_worker.cc\<close>).
  \<^item> \<open>Rx_Cores\<close>: \<open>CoreRx\<close> and \<open>CoreRxDistributor\<close>; the locale \<open>fan_out\<close>, interpreted by both. \<open>Tx_Core\<close>:
    \<open>CoreTx\<close>; the NIC is a parameter with the law \<open>nic_laws\<close>.
  \<^item> \<open>Tap_Cores\<close>: \<open>CoreTapRx\<close> (packets of the host, duplicated to the workers as warm-ups) and \<open>CoreTapTx\<close>.
  \<^item> \<open>Pgw_Base\<close>: \<open>CorePgwBaseWorker\<close>: lookups, the cycle with its warm-up part, binlog notifications;
    the locale \<open>pgw_worker\<close>, interpreted in \<open>Pgw_Workers\<close> (ingress, egress and distributor workers) and
    \<open>Pgw_Tunnel\<close> (tunnel workers, with \<open>Policer\<close>).
  \<^item> \<open>Counter_Worker\<close>: the counters of usage and \<open>ForwardTransfer\<close>. \<open>Transfer_Workers\<close>: \<open>CoreTransferWorker\<close>
    (the figures go to a server over TCP) and \<open>CoreCounterLogWorker\<close> (to the database); what \<open>select\<close>, \<open>send\<close>
    and \<open>mysql_query\<close> answer are arguments.
  \<^item> \<open>Gtpc_Packet\<close> (\<open>ctrlplane/src/pkt/gtp_alloc_packet.c\<close>): messages under construction and from payloads, as lists of
    items. \<open>Gtpc_Items\<close> (\<open>gtpc_item_func.c\<close>): the setters of items, numbers as digits, Bearer Contexts. \<open>Gtpc_Parse\<close>: the
    callbacks that collect items into the parse state; the locale \<open>collected\<close>, interpreted for each field.
    \<open>Gtpc_Message\<close>: what reading a message gives.
  \<^item> \<open>Ctrl_Node\<close> (\<open>ctrlplane/src/cmn\<close>, \<open>event_rx.c\<close>): queues of nodes and dispatch of received packets.
  \<^item> \<open>Gtpc_Session\<close>: the handlers of Create Session, Modify Bearer and Delete Session (\<open>src/pgw/event/event_gtpc_*.c\<close>) with
    their SQL as text; the database, \<open>inet_aton\<close> and memory are a record of parameters (\<open>env\<close>). \<open>Session_Answers\<close>:
    the answers as lists of items, the locale \<open>answering\<close> of a handler, interpreted by the three.
    \<open>Session_Properties\<close>: their properties.
  \<^item> \<open>Gtpc_Bearer\<close>: Delete Bearer, Suspend and Resume. \<open>Gtpc_V1\<close> (\<open>event_gtpc_v1_any.c\<close>, \<open>gtpc_item_func_v1.c\<close>): version 1 of
    the protocol; \<open>V1_Elements\<close>: what its elements mean, and when the reader ends; \<open>V1_Answers\<close>: its answers.
    \<open>Other_Dispatch\<close> (\<open>event_gtpc_other.c\<close>): the node for all of these, with further interpretations of \<open>answering\<close>;
    \<open>Other_Properties\<close>: their properties.
  \<^item> \<open>Ctrl_Peers\<close> (\<open>ctrlplane/src/cmn/sgw_peers.c\<close>): the table of serving gateways, another interpretation of \<open>session_table\<close>.
    \<open>Ctrl_Echo\<close> (\<open>event_gtpc_echo.c\<close>, \<open>event_gtpu_echo.c\<close>): echo messages and restart counters. \<open>Ctrl_User\<close>
    (\<open>event_gtpu_other.c\<close>): Router Advertisements and Error Indications.
  \<^item> \<open>Ctrl_Receive\<close> (\<open>cmn/start.c\<close>): the thread that reads datagrams. \<open>Ctrl_Tx\<close> (\<open>cmn/send.c\<close>, \<open>event_tx.c\<close>): the node that sends.
    \<open>Ctrl_Timer\<close> (\<open>event_timer.c\<close>): probes of the peers. \<open>Ctrl_Properties\<close>: an echo through all of them.
  \<^item> \<open>Proxy_Routes\<close> (\<open>ctrlplane/src/proxy/routes.cc\<close>, \<open>route.cc\<close>, \<open>proxy_stats.cc\<close>): tables of the proxy. \<open>Proxy_Event\<close> (\<open>proxy_event.cc\<close>):
    its callbacks, as steps over runs of events; the locale \<open>table_relation\<close> of what a run keeps. \<open>Proxy_Properties\<close>: their properties.
  \<^item> \<open>Bfd\<close> (\<open>tools/src/lib_srv/bfd.cc\<close>): packets, sessions (an interpretation of \<open>session_table\<close>), state machine and transmitting thread.
  \<^item> \<open>Tools_Items\<close> (\<open>tools/src/lib/pkt/v2_*.cc\<close>): the items of the tools; \<open>Tools_Pkt\<close> (\<open>gtpc.cc\<close>, \<open>v2_bearercontext.cc\<close>): messages and Bearer
    Contexts; \<open>Tools_Sgw\<close> (\<open>tools/src/mod/mod_sgw/func\<close>): the requests of the simulator, and what the control plane reads in them.
  \<^item> \<open>Tools_Lookup\<close> (\<open>tools/src/lib_lookup\<close>): the tables of the tools' filters, an interpretation of \<open>session_table\<close>. \<open>Tools_Meter\<close>: the policer inside
    the filters. \<open>Tools_Packet\<close> (\<open>tools/src/lib/pktheader.cc\<close>, \<open>arch_interface.cc\<close>, \<open>process.cc\<close>): the view of a packet, its kind and the parameters.
    \<open>Tools_Filters\<close> (\<open>lib/filter\<close>): the filters for ARP, BFD, echo, ICMP, control packets and counters. \<open>Tools_Translators\<close> (\<open>gtpu_encap.cc\<close>,
    \<open>gtpu_decap.cc\<close>): into and out of tunnels. \<open>Tools_Policy\<close> (\<open>policy.cc\<close>, \<open>lookup_table_tpl.hh\<close>, \<open>filter_container.cc\<close>): networks by address, and the choice of a filter.

  \<^bold>\<open>How state and operations correspond.\<close> A class is a record, extended as the class is derived; a method
  is a function from the state to the new state. Octets handed to \<open>rte_pktmbuf_free\<close> are appended to
  the field \<open>freed\<close>, so that the account of a packet is a property of the state. Words keep their widths.
  \<open>rte_exit\<close>, \<open>rte_panic\<close>, a read through NULL and a division by zero are \<open>None\<close> or \<open>Panic\<close>. Values the
  source leaves uninitialised (\<open>junk\<close>, \<open>undef\<close>) are arguments, and statements hold for each of them.
  Builds selected by macros are Boolean arguments or datatypes. Every loop is a total function, without fuel, but for the two
  loops of the reader of version 1 messages and the loop of the tools over a Bearer Context, which may run for ever: they are partial functions, and
  \<open>None\<close> there. Bearer Contexts within each other take one level of a depth that is an argument; every message of the tools needs two.

  \<^bold>\<open>What is shown.\<close> Packets are conserved: over a burst or a whole cycle, every packet a core received is on a
  ring, in a buffer, or freed, and drops are counted; cores keep the order of what they send, and what a ring or the NIC refuses is
  exactly what is freed. Packets
  are transformed correctly: headers, lengths and checksums of the capsule, the inner packet untouched, and the
  round trip of this theory, over the handlers of three workers. Lookups return what the events say, also for a reader that overlaps one
  write. A request of the control plane that parses is answered once, in order, by a message that parses again; messages
  survive building and parsing, and what is read of them fits the structures it is copied to; a session accepted by the control plane
  is found by the workers of the user plane whose warm-up ring has room (this theory). Datagrams are read and answered in order, and an echo goes through the
  whole control plane; the prefix in a Router Advertisement is the one the session was given; peers that are due are probed. The proxy
  brings an answer to the gateway that first asked with its numbers, and a message of the tools is read back as it was built, by the tools and by the control plane; BFD sessions follow
  the state machine of RFC 5880 but for one transition, and have discriminators of their own. A packet comes out of a tunnel of the tools' filters as it went in, and their counters lag by less than a mebibyte. The policer never passes more than its rates allow, and counting and forwarding lose no usage. Errors are
  stated where the code has them, including those where it does not do what it means to.

  \<^bold>\<open>Not modelled.\<close> Start-up and wiring (\<open>src/app\<close>, \<open>src/arch\<close>), the NIC, sockets and tap devices, the
  MySQL client and the binlog library are I/O around vendor interfaces; time stamp counters and logs are
  statistics; code under \<open>__TEST_MODE__\<close> and \<open>__DEBUG__\<close> is left out where it only replaces the
  NIC. Of \<open>src/ctrlplane\<close>, start-up, threads, the database drivers and the configuration of the proxy; of \<open>src/tools\<close>, the
  netmap rings, RADIUS, Diameter and HTTP, the menus and statistics of the simulators, which are I/O around libraries that are not part of the repository.
\<close>

section \<open>The capsule, from one end to the other\<close>

text \<open>A user packet: its type flags, its Ethernet type and its version agree.\<close>

definition user_packet :: "'r dpdk \<Rightarrow> mbuf \<Rightarrow> bool" where
  "user_packet D m \<longleftrightarrow> 36 \<le> mb_off m \<and> 14 \<le> mb_len m \<and>
     (is_ipv4_hdr D (mb_ptype m) \<and> ldb m 14 AND 0xF0 = 0x40 \<and> ldh m 12 = bswap16 ETHER_TYPE_IPv4 \<or>
      \<not> is_ipv4_hdr D (mb_ptype m) \<and> is_ipv6_hdr D (mb_ptype m) \<and> ldb m 14 AND 0xF0 \<noteq> 0x40 \<and>
      ldh m 12 = bswap16 ETHER_TYPE_IPv6)"

lemma pkt_bytes_eqI:
  assumes "mb_len a = mb_len b" "\<And>i. i < 12 \<Longrightarrow> ldb a i = ldb b i" "ldh a 12 = ldh b 12" "\<And>i. 14 \<le> i \<Longrightarrow> ldb a i = ldb b i"
  shows "pkt_bytes a = pkt_bytes b"
proof -
  have "ldb a 12 = byte_of 0 (ldh a 12)" "ldb a 13 = byte_of 1 (ldh a 12)"
    "ldb b 12 = byte_of 0 (ldh b 12)" "ldb b 13 = byte_of 1 (ldh b 12)" by (simp_all add: ldh_ldb)
  then have "ldb a i = ldb b i" for i
    using assms(2-4) by (cases "i < 12"; cases "i = 12"; cases "i = 13") auto
  then have "pkt_slice a 0 (mb_len a) = pkt_slice b 0 (mb_len a)" by (intro pkt_slice_cong) simp
  then show ?thesis by (simp add: pkt_bytes_def pkt_slice_def mtod_def assms(1))
qed

text \<open>The encapsulated packet is an IPv4/UDP packet to the PGW port, and carries the type flags of one.\<close>

lemma l2_class_outer:
  assumes "l2_laws D" "mb_ptype p = L3_IPV4 D OR t" "t = L4_UDP D \<or> t = TUNNEL_GRE D"
  shows "l2_class D p = None"
  using assms by (auto simp: l2_class_def l2_laws_def Let_def bit.conj_disj_distrib)

definition encapsulated :: "'r dpdk \<Rightarrow> mbuf \<Rightarrow> bool" where
  "encapsulated D p \<longleftrightarrow> mb_ptype p = L3_IPV4 D OR L4_UDP D \<and> ldh p 12 = bswap16 ETHER_TYPE_IPv4 \<and>
     ldb p 14 = 0x45 \<and> ldb p 23 = IPPROTO_UDP \<and> ldh p 36 = bswap16 PGWEGRESSPORT \<and> 50 \<le> mb_len p"

lemma encap_templates_only:
  "encap_ModifyPacket D w m = (w', Some p) \<Longrightarrow> w' = w\<lparr>iph := iph w', udph := udph w', gtpuh := gtpuh w'\<rparr>"
  by (auto simp: encap_ModifyPacket_def split: option.splits prod.splits)

lemma PGWEGRESSPORT_swapped: "bswap16 (bswap16 PGWEGRESSPORT) = 50999"
  by (simp add: bswap16_def mk16_def byte_of_def)

lemma encapsulated_handled:
  assumes "l2_laws D" "encapsulated D p"
  shows "gtpu2gre_handle D g p = SendOrBuffer D (gtpu2gre_ModifyPacket D g p) g"
    "greterm_handle D True undef c p = SendOrBuffer D p c"
proof -
  have l: "l2_class D p = None"
    using assms by (intro l2_class_outer [where t = "L4_UDP D"]) (simp_all add: encapsulated_def)
  have f: "ldh p 12 = bswap16 ETHER_TYPE_IPv4" "ldb p 23 = IPPROTO_UDP" "ip4_hlen p 14 = 20"
    "bswap16 (ldh p 36) = 50999"
    using assms(2) PGWEGRESSPORT_swapped by (simp_all add: encapsulated_def ip4_hlen_def)
  have "is_arp_or_innericmp D p = ENCAP" by (simp add: is_arp_or_innericmp_def l f)
  then show "gtpu2gre_handle D g p = SendOrBuffer D (gtpu2gre_ModifyPacket D g p) g"
    by (simp add: gtpu2gre_handle_def)
  have "check_decapability D True p = Some PASS" by (simp add: check_decapability_def l f)
  then show "greterm_handle D True undef c p = SendOrBuffer D p c" by (simp add: greterm_handle_def)
qed

lemma gre_capsule_decapsulated:
  assumes "l2_laws D" "mbuf_laws D" "encapsulated D p"
  obtains q where "greterm_handle D False undef c (gtpu2gre_ModifyPacket D g p) = SendOrBuffer D q c"
    "mb_len q = mb_len p - 36" "\<And>i. i < 12 \<Longrightarrow> ldb q i = ldb p i" "\<And>i. 14 \<le> i \<Longrightarrow> ldb q i = ldb p (36 + i)"
    "ldh q 12 = (if ldb p 50 AND 0xF0 = 0x40 then ldh p 12 else bswap16 ETHER_TYPE_IPv6)"
proof -
  let ?p = "gtpu2gre_ModifyPacket D g p"
  have l: "l2_class D ?p = None" using assms(1) by (intro l2_class_outer [where t = "TUNNEL_GRE D"]) simp_all
  have b: "ldb ?p i = ldb p i" if "i < 14 \<or> 50 \<le> i" for i using that by (auto simp: gtpu2gre_ldb)
  have h: "ldh ?p 12 = ldh p 12" by (simp add: ldh_ldb b)
  have "ldb ?p 23 = IPPROTO_GRE" "ldh ?p 12 = bswap16 ETHER_TYPE_IPv4"
    using assms(3) by (simp_all add: gtpu2gre_ldb h encapsulated_def)
  then have dc: "check_decapability D False ?p = Some DECAP" by (simp add: check_decapability_def l)
  have acc: "greterm_accepts False ?p" by (simp add: greterm_accepts_def gtpu2gre_ldb ip4_hlen_def)
  have len: "50 \<le> mb_len ?p" using assms(3) by (simp add: encapsulated_def)
  obtain q where r: "greterm_ModifyPacket D False c ?p = (c, Some q)" "mb_len q = mb_len ?p - 36"
    "\<And>i. i < 12 \<Longrightarrow> ldb q i = ldb ?p i" "\<And>i. 14 \<le> i \<Longrightarrow> ldb q i = ldb ?p (36 + i)"
    "ldh q 12 = (if ldb ?p 50 AND 0xF0 = 0x40 then ldh ?p 12 else bswap16 ETHER_TYPE_IPv6)"
    by (rule greterm_strips [OF assms(2) acc len], rule that)
  have "greterm_handle D False undef c ?p = SendOrBuffer D q c" by (simp add: greterm_handle_def dc r(1))
  then show thesis using r(2-5) by (intro that [of q]) (simp_all add: b h)
qed

text \<open>C1: The capsule is transparent from one end of the GRE path to the other, over the handlers of the three workers. Take a user packet, IPv4 or
  IPv6, with 36 octets of headroom, that the encapsulating worker does not pass on as control traffic. The encapsulating worker sends exactly one
  packet for it, of 36 octets more, and only its header templates change; the worker that exchanges capsules sends exactly one packet for that; and the terminating worker of
  the GRE build sends exactly one packet for that, which is the user packet again, octet for octet. The terminating worker of the build without
  GRE is no counterpart of the encapsulating worker: that sends to UDP port 50999, this one strips only port 2152, so it
  sends the packet on unchanged, in its capsule.\<close>

theorem capsule_round_trip:
  assumes "mbuf_laws D" "l2_laws D" "encap_tmpl w" "user_packet D m" "is_arp_or_innericmp D m = ENCAP"
  shows "\<exists>w' p p' q. encap_handle D w m = SendOrBuffer D p w' \<and> w' = w\<lparr>iph := iph w', udph := udph w', gtpuh := gtpuh w'\<rparr> \<and> encap_tmpl w' \<and>
    mb_len p = mb_len m + 36 \<and>
    gtpu2gre_handle D g p = SendOrBuffer D p' g \<and>
    greterm_handle D False undef c p' = SendOrBuffer D q c \<and> pkt_bytes q = pkt_bytes m \<and>
    greterm_handle D True undef c p = SendOrBuffer D p c"
proof -
  have ip: "36 \<le> mb_off m" "is_ipv4_hdr D (mb_ptype m) \<or> is_ipv6_hdr D (mb_ptype m)"
    using assms(4) by (auto simp: user_packet_def)
  obtain w' p where p: "encap_ModifyPacket D w m = (w', Some p)" "mb_len p = mb_len m + 36"
    "\<And>i. i < 12 \<Longrightarrow> ldb p i = ldb m i" "ldh p 12 = encap_ether_type D m"
    "\<And>i. 14 \<le> i \<Longrightarrow> ldb p (36 + i) = ldb m i" "ldb p 14 = 0x45" "ldb p 23 = IPPROTO_UDP"
    "mb_ptype p = L3_IPV4 D OR L4_UDP D" "ldh p 36 = bswap16 PGWEGRESSPORT"
    by (rule encap_result [OF assms(1,3) ip], rule that)
  have e: "encap_handle D w m = SendOrBuffer D p w'" using assms(5) p(1) by (simp add: encap_handle_def)
  have w': "w' = w\<lparr>iph := iph w', udph := udph w', gtpuh := gtpuh w'\<rparr>" "encap_tmpl w'"
    using encap_templates_only [OF p(1)] encap_ModifyPacket_tmpl [OF assms(3) p(1)] by simp_all
  have c: "encapsulated D p"
    using p(2,6-9) assms(4) unfolding encapsulated_def p(4) by (auto simp: encap_ether_type_def user_packet_def)
  have v: "ldb p 50 = ldb m 14" using p(5) [of 14] by simp
  have ty: "(if ldb p 50 AND 0xF0 = 0x40 then ldh p 12 else bswap16 ETHER_TYPE_IPv6) = ldh m 12"
    using assms(4) unfolding v p(4) encap_ether_type_def by (auto simp: user_packet_def)
  obtain q where q: "greterm_handle D False undef c (gtpu2gre_ModifyPacket D g p) = SendOrBuffer D q c"
    "mb_len q = mb_len p - 36" "\<And>i. i < 12 \<Longrightarrow> ldb q i = ldb p i" "\<And>i. 14 \<le> i \<Longrightarrow> ldb q i = ldb p (36 + i)"
    "ldh q 12 = ldh m 12"
    by (rule gre_capsule_decapsulated [OF assms(2,1) c, unfolded ty], rule that)
  have "pkt_bytes q = pkt_bytes m" by (rule pkt_bytes_eqI) (use p(2,3,5) q(2-5) in simp_all)
  then show ?thesis
    by (intro exI [of _ w'] exI [of _ p] exI [of _ "gtpu2gre_ModifyPacket D g p"] exI [of _ q] conjI
        e w' p(2) q(1) encapsulated_handled [OF assms(2) c])
qed

text \<open>The witness: an IPv4 packet.\<close>

theorem capsule_round_trip_witness:
  "\<exists>w' p p' q. encap_handle (ref_dpdk 4) (encap_new 0x0A000001 (demo_core 2))
       (demo_mbuf 60 [0, 0, 0, 0, 0, 0, 0, 0, 0, 0, 0, 0, 8, 0, 0x45]) = SendOrBuffer (ref_dpdk 4) p w' \<and>
     gtpu2gre_handle (ref_dpdk 4) (gtpu2gre_new 0x0A0000FE (demo_core 2)) p =
       SendOrBuffer (ref_dpdk 4) p' (gtpu2gre_new 0x0A0000FE (demo_core 2)) \<and>
     greterm_handle (ref_dpdk 4) False PASS (demo_core 2) p' = SendOrBuffer (ref_dpdk 4) q (demo_core 2) \<and>
     pkt_bytes q = pkt_bytes (demo_mbuf 60 [0, 0, 0, 0, 0, 0, 0, 0, 0, 0, 0, 0, 8, 0, 0x45])"
proof -
  let ?m = "demo_mbuf 60 [0, 0, 0, 0, 0, 0, 0, 0, 0, 0, 0, 0, 8, 0, 0x45]"
  have u: "user_packet (ref_dpdk 4) ?m"
    by (simp add: user_packet_def ref_dpdk_sel demo_mbuf_def ldh_ldb ldb_def mtod_def mem_of_def wr_bytes_def
      bswap16_def byte_of_def mk16_def)
  have f: "ldh ?m 12 = 8" "ldb ?m 23 = 0" "l2_class (ref_dpdk 4) ?m = None"
    by (simp_all add: l2_class_def ref_dpdk_sel demo_mbuf_def ldh_ldb ldb_def mtod_def mem_of_def wr_bytes_def mk16_def)
  have "is_arp_or_innericmp (ref_dpdk 4) ?m = ENCAP"
    by (simp add: is_arp_or_innericmp_def f) (simp add: bswap16_def byte_of_def mk16_def)
  from capsule_round_trip [OF ref_dpdk_mbuf_laws ref_dpdk_l2_laws encap_new_tmpl u this,
      where c = "demo_core 2" and g = "gtpu2gre_new 0x0A0000FE (demo_core 2)" and undef = PASS]
  show ?thesis by blast
qed

section \<open>From the control plane to the tables\<close>

text \<open>The tunnel in the last 20 octets of an answer, as a warm-up reads it.\<close>

definition tail_item :: "lookup_t \<Rightarrow> byte list \<Rightarrow> lookup_t" where
  "tail_item junk bs =
     (let n = length bs - 20; v = (\<lambda>i. mk32 (bs ! (n + 4 * i)) (bs ! (n + 4 * i + 1)) (bs ! (n + 4 * i + 2)) (bs ! (n + 4 * i + 3))) in
      junk\<lparr>ue_ipv4 := v 2, ue_teid := v 3, sgw_gtpu_ipv4 := v 0, sgw_gtpu_teid := v 1, pgw_gtpu_ipv4 := v 4\<rparr>)"

lemma ldb_pkt_bytes: "k < mb_len m \<Longrightarrow> ldb m k = pkt_bytes m ! k"
  by (simp add: ldb_def pkt_bytes_def mtod_def)

lemma warmup_item_tail:
  assumes "32 \<le> mb_len m" shows "warmup_item junk m = tail_item junk (pkt_bytes m)"
proof -
  define n where "n = mb_len m - 20"
  have n: "mb_len m - 32 + 12 = n" "mb_len m = n + 20" using assms by (simp_all add: n_def)
  have "ldw m (n + 4 * i) = mk32 (pkt_bytes m ! (n + 4 * i)) (pkt_bytes m ! (n + 4 * i + 1)) (pkt_bytes m ! (n + 4 * i + 2))
      (pkt_bytes m ! (n + 4 * i + 3))" if "i \<le> 4" for i
    using that n(2) by (simp add: ldw_ldb ldb_pkt_bytes)
  from this [of 0] this [of 1] this [of 2] this [of 3] this [of 4] show ?thesis
    using n by (simp add: warmup_item_def tail_item_def Let_def)
qed

lemma answer_teaches:
  assumes "ring_laws D items" "\<And>i. alloc i \<noteq> None" "alloc 0 = Some b" "warmup_packet D (tap_fill D rbf (length rbf) b) (length rbf)"
    "rings = (if eg then ring_tap_egress else ring_tap_ingress)" "k < length (rings w)"
    "findtype wk \<noteq> 0" "complete_item (tail_item junk rbf)" "\<And>x. pkt_bytes x = rbf \<Longrightarrow> snd (enq_one D (rings w ! k) x)"
  shows "\<exists>w' ret mi. taprx_Cycle D alloc rbf w = Some (w', ret) \<and> pkt_bytes mi = rbf \<and>
    items (rings w' ! k) = items (rings w ! k) @ [mi] \<and>
    (\<exists>wk'. warmup_one junk (Some wk) mi = Some wk' \<and>
       pgw_Find wk' (key_of wk (tail_item junk rbf)) = Some (tail_item junk rbf))"
proof -
  have len: "32 \<le> length rbf" and ne: "rbf \<noteq> []" using assms(4) by (auto simp: warmup_packet_def)
  obtain w' ret where c: "taprx_Cycle D alloc rbf w = Some (w', ret)"
    "list_all2 (got_copy D items rbf (freed w')) (ring_tap_egress w) (ring_tap_egress w')"
    "list_all2 (got_copy D items rbf (freed w')) (ring_tap_ingress w) (ring_tap_ingress w')"
    using taprx_dup [where alloc = alloc and rbf = rbf and b = b and w = w, OF assms(1,2) ne assms(3)] assms(4) by (auto simp: Let_def)
  then have "got_copy D items rbf (freed w') (rings w ! k) (rings w' ! k)"
    using assms(5,6) by (cases eg) (simp_all add: list_all2_nthD)
  then obtain mi where mi: "pkt_bytes mi = rbf" "items (rings w' ! k) = items (rings w ! k) @ [mi]"
    using assms(9) unfolding got_copy_def by metis
  have l: "mb_len mi = length rbf" using mi(1) by (metis length_pkt_bytes)
  then have it: "warmup_item junk mi = tail_item junk rbf" using len mi(1) by (simp add: warmup_item_tail)
  have "\<exists>wk'. warmup_one junk (Some wk) mi = Some wk' \<and> pgw_Find wk' (key_of wk (tail_item junk rbf)) = Some (tail_item junk rbf)"
    using warmup_finds [OF assms(7), of mi junk] l len assms(8) by (auto simp: Let_def it)
  with c(1) mi show ?thesis by blast
qed

text \<open>An answer of the control plane reaches the tables of the workers: when the host sends a response that carries a
  tunnel, the tap core puts a copy of it on the warm-up ring of every worker whose ring has room; and any worker with the hash map that takes the copy from its ring finds, from then on, exactly the tunnel the
  control plane wrote into the last 20 octets.\<close>

theorem control_plane_answer_teaches_worker:
  assumes "ring_laws D items" "\<And>i. alloc i \<noteq> None" "alloc 0 = Some b" "warmup_packet D (tap_fill D rbf (length rbf) b) (length rbf)"
    "rings = (if eg then ring_tap_egress else ring_tap_ingress)" "k < length (rings w)"
    "findtype wk \<noteq> 0" "complete_item (tail_item junk rbf)" "\<And>x. pkt_bytes x = rbf \<Longrightarrow> snd (enq_one D (rings w ! k) x)"
  shows "\<exists>w' ret mi. taprx_Cycle D alloc rbf w = Some (w', ret) \<and> pkt_bytes mi = rbf \<and>
    items (rings w' ! k) = items (rings w ! k) @ [mi] \<and>
    (\<exists>wk'. warmup_one junk (Some wk) mi = Some wk' \<and>
       pgw_Find wk' (key_of wk (tail_item junk rbf)) = Some (tail_item junk rbf))"
  using assms by (rule answer_teaches)

text \<open>The witness: a Create Session Response of 88 octets.\<close>

definition demo_answer :: "byte list" where
  "demo_answer = replicate 23 0 @ [17] @ replicate 12 0 @ [0x08, 0x4B] @ replicate 4 0 @ [0x48, 33] @ replicate 12 0 @
     [0xFF, 0, 28, 0, 0, 0, 0, 0, 0xAF, 0xBE, 0xAD, 0xDE] @ replicate 20 1"

lemma demo_tap_ring:
  "ring_tap_ingress demo_tap ! 0 = [demo_mbuf 60 []]" "snd (enq_one (ref_dpdk 4) (ring_tap_ingress demo_tap ! 0) x)"
  by (simp_all add: demo_tap_def core.defs ref_dpdk_def)

theorem control_plane_answer_teaches_worker_witness:
  "\<exists>w' ret mi wk'. taprx_Cycle (ref_dpdk 4) (\<lambda>_. Some (demo_mbuf 0 [])) demo_answer demo_tap = Some (w', ret) \<and>
     ring_tap_ingress w' ! 0 = [demo_mbuf 60 [], mi] \<and> warmup_one zero_lookup (Some (demo_pgw 1 False)) mi = Some wk' \<and>
     pgw_Find wk' (key_of (demo_pgw 1 False) (tail_item zero_lookup demo_answer)) = Some (tail_item zero_lookup demo_answer)"
proof -
  let ?m = "tap_fill (ref_dpdk 4) demo_answer (length demo_answer) (demo_mbuf 0 [])"
  have n: "length demo_answer = 88" by (simp add: demo_answer_def)
  have b: "ldb ?m k = demo_answer ! k" if "k < 88" for k
    using that ldb_pkt_bytes [of k ?m] pkt_bytes_tap_fill [of "ref_dpdk 4" demo_answer "demo_mbuf 0 []"]
    by (simp add: n tap_fill_def)
  have v: "demo_answer ! 23 = 17" "demo_answer ! 36 = 0x08" "demo_answer ! 37 = 0x4B" "demo_answer ! 42 = 0x48"
    "demo_answer ! 43 = 33" "demo_answer ! 44 = 0" "demo_answer ! 45 = 0" "demo_answer ! 57 = 0" "demo_answer ! 58 = 28"
    "demo_answer ! 60 = 0" "demo_answer ! 61 = 0" "demo_answer ! 64 = 0xAF" "demo_answer ! 65 = 0xBE"
    "demo_answer ! 66 = 0xAD" "demo_answer ! 67 = 0xDE"
    by (simp_all add: demo_answer_def nth_append)
  have pt: "is_ipv4_hdr (ref_dpdk 4) (mb_ptype ?m)" by (simp add: tap_fill_def ref_dpdk_sel)
  note b = b [unfolded n]
  have g: "is_gtpc (ref_dpdk 4) ?m = 33"
    using pt by (simp add: n is_gtpc_def ldh_ldb b v bswap16_def mk16_def byte_of_def)
  have w: "warmup_packet (ref_dpdk 4) ?m (length demo_answer)"
    unfolding warmup_packet_def g by (simp add: n ldh_ldb ldw_ldb b v bswap16_def mk16_def mk32_def byte_of_def)
  have last: "demo_answer ! k = 1" if "68 \<le> k" "k < 88" for k
    using that by (simp add: demo_answer_def nth_append) arith
  have c: "complete_item (tail_item zero_lookup demo_answer)"
    by (simp add: complete_item_def tail_item_def Let_def n last) (simp add: mk32_def)
  have a: "Some (demo_mbuf 0 []) \<noteq> None" by simp
  have r: "0 < length (ring_tap_ingress demo_tap)" "findtype (demo_pgw 1 False) \<noteq> 0"
    by (simp_all add: demo_tap_def core.defs demo_pgw_sel)
  from control_plane_answer_teaches_worker [where alloc = "\<lambda>_. Some (demo_mbuf 0 [])" and eg = False and w = demo_tap,
      OF ref_dpdk_ring_laws a refl w refl _ r(2) c, of 0] r(1) demo_tap_ring
  show ?thesis by auto
qed

section \<open>From the request to the tables of the workers\<close>

text \<open>The tunnel of a session.\<close>

definition session_tunnel :: "lookup_t \<Rightarrow> session \<Rightarrow> lookup_t" where
  "session_tunnel junk cs = junk\<lparr>ue_ipv4 := word_le (ue_ipv_n cs), ue_teid := pgw_teid cs,
     sgw_gtpu_ipv4 := word_le (blk (u_teid (ps cs))), sgw_gtpu_teid := word_le (teid_grekey (u_teid (ps cs))),
     pgw_gtpu_ipv4 := word_le (pgw_u_ipv_n cs)\<rparr>"

lemma four_octets: "length a = 4 \<Longrightarrow> a = [a ! 0, a ! 1, a ! 2, a ! 3]" for a :: "byte list"
  by (rule nth_equalityI) (auto simp: less_Suc_eq numeral_eq_Suc)

text \<open>The octets of the private extension, and what a worker reads from them.\<close>

lemma private_ext_octets:
  assumes "session_ok cs"
  obtains v where "private_ext cs = [255, 0, 28, 0, 0, 0, 0, 0, 0xAF, 0xBE, 0xAD, 0xDE] @ v" "length v = 20"
    "tail_item junk (pre @ private_ext cs) = session_tunnel junk cs"
proof -
  let ?u = "u_teid (ps cs)"
  have l: "length (take 4 (blk ?u)) = 4" "length (teid_grekey ?u) = 4" "length (ue_ipv_n cs) = 4" "length (pgw_u_ipv_n cs) = 4"
    using assms by (simp_all add: session_ok_def ps_sized_def blk_def teid_grekey_def)
  let ?v = "take 4 (blk ?u) @ teid_grekey ?u @ ue_ipv_n cs @ le32 (pgw_teid cs) @ pgw_u_ipv_n cs"
  have m: "le32 0xdeadbeaf = [0xAF, 0xBE, 0xAD, 0xDE]" "comm_header 255 28 0 = [255, 0, 28, 0]" "be16 0 = [0, 0]"
    by (simp_all add: le32_def comm_header_def be16_def byte_of_def)
  have pe: "private_ext cs = [255, 0, 28, 0, 0, 0, 0, 0, 0xAF, 0xBE, 0xAD, 0xDE] @ ?v"
    using l by (simp add: private_ext_def gtpc_private_extension_set_def m zeros_def numeral_2_eq_2)
  have n: "length (pre @ private_ext cs) - 20 = length pre + 12" using l by (simp add: pe)
  have at: "(pre @ private_ext cs) ! (length pre + 12 + i) = ?v ! i" for i
    by (simp add: pe nth_append)
  define a b c e where "a = take 4 (blk ?u)" and "b = teid_grekey ?u" and "c = ue_ipv_n cs" and "e = pgw_u_ipv_n cs"
  have ex: "?v = [a ! 0, a ! 1, a ! 2, a ! 3] @ [b ! 0, b ! 1, b ! 2, b ! 3] @ [c ! 0, c ! 1, c ! 2, c ! 3] @ le32 (pgw_teid cs) @
      [e ! 0, e ! 1, e ! 2, e ! 3]"
    using four_octets [OF l(1)] four_octets [OF l(2)] four_octets [OF l(3)] four_octets [OF l(4)]
    unfolding a_def b_def c_def e_def by metis
  have "tail_item junk (pre @ private_ext cs) = session_tunnel junk cs"
    unfolding tail_item_def Let_def n add.assoc at [unfolded add.assoc]
    unfolding ex by (simp add: session_tunnel_def word_le_def le32_def a_def b_def c_def e_def)
  then show ?thesis using pe l by (intro that [of ?v]) simp_all
qed

lemma reply_frame:
  assumes "reply_to req teid 33 (create_items E cs) c" "session_ok cs" "length hdr = 42" "hdr ! 23 = 17" "hdr ! 36 = 0x08" "hdr ! 37 = 0x4B"
    "ptype_laws D" "rbf = hdr @ rd_bytes (p_data c) 0 (unat (p_datalen c))"
  shows "warmup_packet D (tap_fill D rbf (length rbf) b) (length rbf)" "tail_item junk rbf = session_tunnel junk cs"
proof -
  let ?m = "tap_fill D rbf (length rbf) b" and ?P = "p_data c"
  define gs where "gs = butlast (create_items E cs)"
  have gs: "create_items E cs = gs @ [Plain (private_ext cs)]" unfolding gs_def by (simp add: create_items_def butlast_append)
  have r: "?P 0 = 0x48" "?P 1 = 33" "unat (p_datalen c) = 12 + glen (create_items E cs)" "unat (ldn16 ?P 2) + 4 = unat (p_datalen c)"
    "rd_bytes ?P 12 (glen (create_items E cs)) = concat (map gbytes gs) @ private_ext cs"
    using assms(1) unfolding reply_to_def by (simp_all add: gs)
  have g: "glen (create_items E cs) \<le> 300" "0 < glen gs"
    using create_items_ok [OF assms(2), of E] by (simp_all add: answer_ok_def gs_def create_items_def butlast_append item_lengths)
  obtain v where v: "private_ext cs = [255, 0, 28, 0, 0, 0, 0, 0, 0xAF, 0xBE, 0xAD, 0xDE] @ v" "length v = 20"
    and t: "\<And>pre. tail_item junk (pre @ private_ext cs) = session_tunnel junk cs"
    using private_ext_octets [OF assms(2)] by metis
  define pre where "pre = hdr @ rd_bytes ?P 0 12 @ concat (map gbytes gs)"
  have rbf: "rbf = pre @ private_ext cs" unfolding assms(8) pre_def r(3) rd_bytes_add by (simp add: r(5))
  then show "tail_item junk rbf = session_tunnel junk cs" by (simp add: t)
  have lp: "length pre = 54 + glen gs" "length rbf = length pre + 32" using assms(3) v by (simp_all add: pre_def glen_def rbf)
  have b: "ldb ?m k = rbf ! k" if "k < length rbf" for k
    using that ldb_pkt_bytes [of k ?m] pkt_bytes_tap_fill [of D rbf b] by (simp add: tap_fill_def)
  have h: "ldb ?m k = hdr ! k" if "k < 42" for k using b [of k] that lp assms(3) by (simp add: assms(8) nth_append)
  have q: "ldb ?m (42 + k) = ?P k" if "k < 12" for k using b [of "42 + k"] that lp assms(3) r(3) by (simp add: assms(8) nth_append)
  have x: "ldb ?m (length pre + k) = private_ext cs ! k" if "k < 32" for k using b [of "length pre + k"] that lp by (simp add: rbf nth_append)
  have pt: "is_ipv4_hdr D (mb_ptype ?m)"
    using assms(7) by (simp add: tap_fill_def ptype_laws_def)
  have f: "ldb ?m 23 = 17" "ldb ?m 36 = 0x08" "ldb ?m 37 = 0x4B" "ldb ?m 42 = 0x48" "ldb ?m 43 = 33" "ldb ?m 44 = ?P 2" "ldb ?m 45 = ?P 3"
    using h [of 23] h [of 36] h [of 37] q [of 0] q [of 1] q [of 2] q [of 3] assms(4-6) r(1,2) by simp_all
  have "bswap16 (ldh ?m 44) = ldn16 ?P 2" by (simp add: ldh_ldb f ldn16_def ld16_def numeral_3_eq_3 numeral_2_eq_2)
  then have ln: "unat (bswap16 (ldh ?m 44)) \<le> 1518" using r(3,4) g(1) by simp
  have "is_gtpc D ?m = 33"
    using pt ln by (simp add: is_gtpc_def f) (simp add: ldh_ldb f bswap16_def mk16_def byte_of_def)
  moreover have "ldb ?m (length pre + 1) = 0" "ldb ?m (length pre + 2) = 28" "ldb ?m (length pre + 4) = 0" "ldb ?m (length pre + 5) = 0"
    "ldb ?m (length pre + 8) = 0xAF" "ldb ?m (length pre + 9) = 0xBE" "ldb ?m (length pre + 10) = 0xAD" "ldb ?m (length pre + 11) = 0xDE"
    using x [of 1] x [of 2] x [of 4] x [of 5] x [of 8] x [of 9] x [of 10] x [of 11] by (simp_all add: v(1))
  ultimately show "warmup_packet D ?m (length rbf)" using lp g(2)
    by (simp add: warmup_packet_def ldh_ldb ldw_ldb bswap16_def mk16_def mk32_def byte_of_def)
qed

text \<open>C3: A session set up by the control plane works in the user plane. The handler accepts a Create Session Request that has all its items
  and whose subscriber has exactly one tunnel record in the database, and the statements it runs succeed. The answer it
  queues, sent by the host through the tap as a UDP packet to the GTP-C port, is recognised by the tap core; when its buffer allocations succeed, it appends
  a copy to the warm-up ring of every worker whose ring has room for it (a full ring gets none, as the copy is freed then). A worker with the hash map
  (find type other than 0) that takes this copy finds, by the PGW's identifier (ingress) or the address of the terminal (egress), exactly the
  tunnel of this session: the SGW's address and identifier from the request, the terminal's address and the PGW's identifier (with
  the bearer) and address from the database. None of these five values may be 0, since the worker skips a record with a 0 in it.\<close>

theorem accepted_session_reaches_worker:
  assumes "env_ok E" "request_of E pckt = Accepted p" "read_request E pckt p = (q, cs)" "flag (ps cs) AND INCLUDED_ALL = INCLUDED_ALL"
    "prepared E cs d d2" "e_rows E d2 IMSI_LOOKUP (imsi_of E cs) = Some [r]" "cs' = with_ebi (on_tunnel_record (e_aton E) cs r)"
    "e_query E d2 (create_session_sql cs' (imsi_of E cs)) = (d3, True)"
    "length hdr = 42" "hdr ! 23 = 17" "hdr ! 36 = 0x08" "hdr ! 37 = 0x4B" "ptype_laws D" "ring_laws D items"
    "\<And>i. alloc i \<noteq> None" "k < length (rings w)" "rings = (if eg then ring_tap_egress else ring_tap_ingress)"
    "findtype wk \<noteq> 0" "complete_item (session_tunnel junk cs')" "\<And>x. snd (enq_one D (rings w ! k) x)"
  shows "\<exists>c rbf w' ret mi wk'. on_create_session E pckt (d, nd) = Some ((d3, pgw_enq EGRESS c nd), True) \<and>
    rbf = hdr @ rd_bytes (p_data c) 0 (unat (p_datalen c)) \<and> taprx_Cycle D alloc rbf w = Some (w', ret) \<and> pkt_bytes mi = rbf \<and>
    items (rings w' ! k) = items (rings w ! k) @ [mi] \<and> warmup_one junk (Some wk) mi = Some wk' \<and>
    pgw_Find wk' (key_of wk (session_tunnel junk cs')) = Some (session_tunnel junk cs')"
proof -
  note a = create_accepts [OF assms(1-8)]
  obtain c where c: "on_create_session E pckt (d, nd) = Some ((d3, pgw_enq EGRESS c nd), True)"
    "reply_to pckt (teid_grekey (c_teid (ps cs))) 33 (create_items E cs') c" using a(1) by blast
  define rbf where "rbf = hdr @ rd_bytes (p_data c) 0 (unat (p_datalen c))"
  obtain b where b: "alloc 0 = Some b" using assms(15) by blast
  note f = reply_frame [OF c(2) a(2) assms(9-13) rbf_def]
  have ci: "complete_item (tail_item junk rbf)" unfolding f(2) by (rule assms(19))
  from answer_teaches [where alloc = alloc and eg = eg and w = w, OF assms(14,15) b f(1) assms(17,16,18) ci assms(20)]
  obtain w' ret mi wk' where "taprx_Cycle D alloc rbf w = Some (w', ret)" "pkt_bytes mi = rbf"
    "items (rings w' ! k) = items (rings w ! k) @ [mi]" "warmup_one junk (Some wk) mi = Some wk'"
    "pgw_Find wk' (key_of wk (session_tunnel junk cs')) = Some (session_tunnel junk cs')"
    unfolding f(2) by (elim exE conjE)
  then show ?thesis using c(1) by (intro exI [of _ c] exI [of _ rbf] exI [of _ w'] exI [of _ ret] exI [of _ mi] exI [of _ wk'] conjI rbf_def)
qed

text \<open>The session of the request and the record of \<open>Session_Properties\<close>.\<close>

lemma demo_tunnel:
  assumes "ps cs = parse_items_of jk demo_request zero_state" "ue_ipv cs = []" "pgw_u_ipv cs = []"
  shows "complete_item (session_tunnel zero_lookup (with_ebi (on_tunnel_record (e_aton (demo_env rows)) cs demo_row)))"
proof -
  let ?cs = "with_ebi (on_tunnel_record (e_aton (demo_env rows)) cs demo_row)"
  have l: "length [10, 0, 0, 10 :: byte] = 4" by simp
  have ps: "ps ?cs = have_flag HAVE_RECORD (ps cs)" by (simp add: with_ebi_def on_tunnel_record_def Let_def)
  have "u_teid (ps ?cs) = put (zeros 25) (f_teid_item 0 4 0x55667788 [10, 0, 0, 10])"
    using got_u_teid.collects_nesteds [OF demo_request_ok(1), of jk zero_state] assms(1)
    by (simp add: ps nesteds_def demo_request_def sized_def small_items zero_state_def gtpc_bearer_qos_set_def nth_append)
  also have "\<dots> = f_teid_item 0 4 0x55667788 [10, 0, 0, 10] @ zeros 12" using item_lengths(2) [OF l] by (simp add: put_def zeros_def)
  finally have u: "u_teid (ps ?cs) = f_teid_item 0 4 0x55667788 [10, 0, 0, 10] @ zeros 12" .
  have tg: "teid_grekey (u_teid (ps ?cs)) = [0x55, 0x66, 0x77, 0x88]" "take 4 (blk (u_teid (ps ?cs))) = [10, 0, 0, 10]"
    unfolding u by (simp_all add: teid_grekey_def blk_def f_teid_item_def comm_header_def be16_def be32_def byte_of_def)
  have "word_le (blk (u_teid (ps ?cs))) = word_le (take 4 (blk (u_teid (ps ?cs))))" by (simp add: word_le_def)
  then have w: "word_le (blk (u_teid (ps ?cs))) = word_le [10, 0, 0, 10]" by (simp add: tg)
  have a: "ue_ipv_n ?cs = [0, 1, 2, 3]" "pgw_u_ipv_n ?cs = [10, 0, 0, 1]"
    using assms(2,3) by (simp_all add: with_ebi_def on_tunnel_record_def Let_def aton_into_def STRMINCPY_def demo_env_def demo_row_def)
  have "bit (pgw_teid ?cs) 0"
    by (simp add: with_ebi_def on_tunnel_record_def Let_def demo_row_def bit_simps)
  then have "pgw_teid ?cs \<noteq> 0" by (metis bit_0_eq bot_apply bot_bool_def)
  then show ?thesis by (simp add: complete_item_def session_tunnel_def a w tg) (simp add: word_le_def mk32_def)
qed

theorem accepted_session_reaches_worker_witness:
  "\<exists>pckt c rbf w' ret mi wk' tun. on_create_session (demo_env [demo_row]) pckt ((), empty_node) = Some (((), pgw_enq EGRESS c empty_node), True) \<and>
     taprx_Cycle (ref_dpdk 4) (\<lambda>_. Some (demo_mbuf 0 [])) rbf demo_tap = Some (w', ret) \<and> pkt_bytes mi = rbf \<and>
     ring_tap_ingress w' ! 0 = [demo_mbuf 60 [], mi] \<and> warmup_one zero_lookup (Some (demo_pgw 1 False)) mi = Some wk' \<and> complete_item tun \<and> pgw_Find wk' (ue_teid tun) = Some tun"
proof -
  let ?E = "demo_env [demo_row]" and ?hdr = "replicate 23 0 @ [17] @ replicate 12 0 @ [0x08, 0x4B] @ replicate 4 0 :: byte list"
  obtain pckt p where r: "request_of ?E pckt = Accepted p" and c: "contents p = gpack demo_request" using demo_carries [OF demo_request_ok, of "[demo_row]"] by blast
  obtain q cs where rr: "read_request ?E pckt p = (q, cs)" by fastforce
  have z: "ue_ipv cs = []" "pgw_u_ipv cs = []" using arg_cong [OF rr, of snd] by (auto simp: read_request_def Let_def zero_session_def)
  have pp: "ps cs = parse_items_of (e_junk ?E) demo_request zero_state" using demo_parsed [OF c demo_request_ok(1), of ?E pckt] by (simp add: rr)
  then have f: "flag (ps cs) AND INCLUDED_ALL = INCLUDED_ALL" by (simp add: demo_complete)
  have e: "e_query ?E () s = ((), True)" "e_server_ip ?E = None" for s by (simp_all add: demo_env_def)
  have pr: "prepared ?E cs () ()" by (simp add: prepared_def e)
  have rw: "e_rows ?E () IMSI_LOOKUP (imsi_of ?E cs) = Some [demo_row]" by (simp add: demo_env_def)
  have h: "length ?hdr = 42" "?hdr ! 23 = 17" "?hdr ! 36 = 0x08" "?hdr ! 37 = 0x4B" by (simp_all add: nth_append)
  have al: "Some (demo_mbuf 0 []) \<noteq> None" by simp
  have k: "0 < length (ring_tap_ingress demo_tap)" "findtype (demo_pgw 1 False) \<noteq> 0" by (simp_all add: demo_tap_def core.defs demo_pgw_sel)
  define tun where "tun = session_tunnel zero_lookup (with_ebi (on_tunnel_record (e_aton ?E) cs demo_row))"
  have ci: "complete_item tun" unfolding tun_def by (rule demo_tunnel [OF pp z])
  have key: "key_of (demo_pgw 1 False) tun = ue_teid tun" by (simp add: key_of_def demo_pgw_sel)
  from accepted_session_reaches_worker [where alloc = "\<lambda>_. Some (demo_mbuf 0 [])" and eg = False and rings = ring_tap_ingress and w = demo_tap and
      junk = zero_lookup and nd = empty_node, OF demo_env_ok(2) r rr f pr rw refl e(1) h ref_dpdk_ptype_laws ref_dpdk_ring_laws al k(1) _ k(2)
      ci [unfolded tun_def] demo_tap_ring(2)] ci key
  show ?thesis unfolding tun_def [symmetric] by (simp only: if_False id_apply demo_tap_ring append_Cons append_Nil) blast
qed

end
